(* ===== verification/Prelude.thy ===== *)
theory Prelude
  imports Main "HOL-Library.Word" "HOL-Library.Monad_Syntax"
begin

text \<open>
  What every component shares: the integer types of \<open>src/src/include/stdint.h\<close>, the
  reading of undefined behaviour as the value \<open>None\<close>, array access with the bounds the
  C array has, and singly linked lists over a heap.

  \<^item> \<open>u8\<close>, \<open>u16\<close>, \<open>u32\<close> are machine words; on i386 \<open>uintptr_t\<close>, \<open>size_t\<close> and
    \<open>unsigned long\<close> are all \<open>u32\<close>. Arithmetic wraps as the hardware does.
  \<^item> A function of result type \<open>'a option\<close> returns \<open>None\<close> where the C function has no
    defined result: a read or write outside an object, a NULL dereference, a division by
    zero, or a loop that never ends. \<open>Some x\<close> is a normal return of \<open>x\<close>.
  \<^item> \<open>path nxt p xs q\<close> says that following \<open>nxt\<close> from \<open>p\<close> visits exactly the
    non-NULL cells \<open>xs\<close> and then arrives at \<open>q\<close>; \<open>clist\<close> is a path to NULL.
\<close>

unbundle bit_operations_syntax

type_synonym u8 = "8 word"
type_synonym u16 = "16 word"
type_synonym u32 = "32 word"
type_synonym u64 = "64 word"

abbreviation NULL :: u32 where "NULL \<equiv> 0"

text \<open>Facts that evaluate array accesses and heap reads of a model.\<close>
named_theorems cmem_simps
text \<open>Facts that carry an operation's invariant; each component adds its own.\<close>
named_theorems inv_intros

subsection \<open>Arrays\<close>

text \<open>\<open>a[i]\<close> and \<open>a[i] = v\<close>: undefined outside the array.\<close>

definition aget :: "'a list \<Rightarrow> nat \<Rightarrow> 'a option" where
  "aget xs i = (if i < length xs then Some (xs ! i) else None)"

definition aset :: "'a list \<Rightarrow> nat \<Rightarrow> 'a \<Rightarrow> 'a list option" where
  "aset xs i v = (if i < length xs then Some (xs[i := v]) else None)"

lemma aget_in [cmem_simps]: "i < length xs \<Longrightarrow> aget xs i = Some (xs ! i)"
  by (simp add: aget_def)

lemma aset_in [cmem_simps]: "i < length xs \<Longrightarrow> aset xs i v = Some (xs[i := v])"
  by (simp add: aset_def)

lemma aget_Some_iff: "aget xs i = Some v \<longleftrightarrow> i < length xs \<and> v = xs ! i"
  by (auto simp: aget_def)

lemma aset_Some_iff: "aset xs i v = Some ys \<longleftrightarrow> i < length xs \<and> ys = xs[i := v]"
  by (auto simp: aset_def)

lemma aget_aset: "aset xs i v = Some ys \<Longrightarrow> aget ys j = (if i = j then Some v else aget xs j)"
  by (auto simp: aset_def aget_def split: if_splits)

subsection \<open>Linked lists over a heap\<close>

fun path :: "(u32 \<Rightarrow> u32) \<Rightarrow> u32 \<Rightarrow> u32 list \<Rightarrow> u32 \<Rightarrow> bool" where
  "path nxt p [] q \<longleftrightarrow> p = q"
| "path nxt p (x # xs) q \<longleftrightarrow> p = x \<and> x \<noteq> NULL \<and> path nxt (nxt x) xs q"

abbreviation clist :: "(u32 \<Rightarrow> u32) \<Rightarrow> u32 \<Rightarrow> u32 list \<Rightarrow> bool" where
  "clist nxt p xs \<equiv> path nxt p xs NULL"

lemma path_append: "path nxt p (xs @ ys) q \<longleftrightarrow> (\<exists>r. path nxt p xs r \<and> path nxt r ys q)"
  by (induction xs arbitrary: p) auto

lemma path_upd_notin [simp]: "a \<notin> set xs \<Longrightarrow> path (nxt(a := b)) p xs q = path nxt p xs q"
  by (induction xs arbitrary: p) auto

lemma path_cong: "(\<And>x. x \<in> set xs \<Longrightarrow> f x = g x) \<Longrightarrow> path f p xs q = path g p xs q"
  by (induction xs arbitrary: p) auto

lemma path_nonnull: "path nxt p xs q \<Longrightarrow> NULL \<notin> set xs"
  by (induction xs arbitrary: p) auto

lemma clist_NULL [simp]: "clist nxt NULL xs \<longleftrightarrow> xs = []"
  by (cases xs) auto

lemma clist_nonnull: "p \<noteq> NULL \<Longrightarrow> clist nxt p xs \<longleftrightarrow> (\<exists>ys. xs = p # ys \<and> clist nxt (nxt p) ys)"
  by (cases xs) auto

lemma clist_unique: "clist nxt p xs \<Longrightarrow> clist nxt p ys \<Longrightarrow> xs = ys"
proof (induction xs arbitrary: p ys)
  case Nil
  then show ?case by simp
next
  case (Cons x xs)
  then show ?case by (cases ys) auto
qed

lemma clist_distinct: "clist nxt p xs \<Longrightarrow> distinct xs"
proof (induction xs arbitrary: p)
  case Nil
  then show ?case by simp
next
  case (Cons x xs)
  have "x \<notin> set xs"
  proof
    assume "x \<in> set xs"
    then obtain ys zs where xs: "xs = ys @ x # zs" by (meson split_list)
    from Cons.prems have "clist nxt (nxt x) (ys @ x # zs)" and "clist nxt x (x # ys @ x # zs)"
      by (auto simp: xs)
    then have "clist nxt x (x # zs)" by (auto simp: path_append)
    from clist_unique[OF this \<open>clist nxt x (x # ys @ x # zs)\<close>]
    have "length (x # zs) = length (x # ys @ x # zs)" by simp
    then show False by simp
  qed
  with Cons show ?case by auto
qed

text \<open>Linking a new cell \<open>a\<close> in front of the rest of a list, after the prefix \<open>xs @ [b]\<close>.\<close>

lemma clist_insert_after:
  assumes "clist nxt p (xs @ b # ys)" and "a \<notin> set (xs @ b # ys)" and "a \<noteq> NULL"
  shows "clist (nxt(b := a, a := nxt b)) p (xs @ b # a # ys)"
proof -
  from assms(1) have d: "distinct (xs @ b # ys)" by (rule clist_distinct)
  from assms d show ?thesis by (auto simp: path_append)
qed

lemma clist_snoc:
  assumes "clist nxt p (xs @ [b])" and "a \<notin> set (xs @ [b])" and "a \<noteq> NULL"
  shows "clist (nxt(b := a, a := NULL)) p (xs @ [b, a])"
  using clist_insert_after[OF assms] assms(1) by (auto simp: path_append)

lemma clist_remove_after:
  assumes "clist nxt p (xs @ b # a # ys)"
  shows "clist (nxt(b := nxt a)) p (xs @ b # ys)"
proof -
  from assms have "distinct (xs @ b # a # ys)" by (rule clist_distinct)
  with assms show ?thesis by (auto simp: path_append)
qed

subsection \<open>Words and numbers\<close>

lemma unat_plus_nowrap [simp]:
  fixes a b :: u32 shows "unat a + unat b < 4294967296 \<Longrightarrow> unat (a + b) = unat a + unat b"
  by (simp add: unat_word_ariths)

lemma unat_times_nowrap:
  fixes a b :: u32 shows "unat a * unat b < 4294967296 \<Longrightarrow> unat (a * b) = unat a * unat b"
  by (simp add: unat_word_ariths)

lemma unat_lt_2p32 [simp]: fixes a :: u32 shows "unat a < 4294967296"
  using unsigned_less[of a] by simp

lemma unat_of_nat32: "n < 4294967296 \<Longrightarrow> unat (of_nat n :: u32) = n"
  by (simp add: unat_of_nat take_bit_nat_eq_self_iff)

text \<open>A sum that stays below some word does not wrap, nor does a difference.\<close>
lemma unat_add_below:
  fixes a b c :: u32 assumes "unat a + unat b \<le> unat c" shows "unat (a + b) = unat a + unat b"
  using assms unat_lt_2p32[of c] by (intro unat_plus_nowrap) linarith

lemma unat_of_nat_below: "n \<le> unat (c :: u32) \<Longrightarrow> unat (of_nat n :: u32) = n"
  using unat_lt_2p32[of c] by (intro unat_of_nat32) linarith

lemma unat_diff_le: "unat (b :: u32) \<le> unat a \<Longrightarrow> unat (a - b) = unat a - unat b"
  by (simp add: unat_sub word_le_nat_alt)

lemma mod_less_word: "unat (a :: u32) < unat b \<Longrightarrow> a mod b = a"
  by (simp add: word_unat_eq_iff unat_mod)

lemma unat_drop_bit: "unat (drop_bit n (x :: u32)) = unat x div 2 ^ n"
  by (subst unat_drop_bit_eq) (rule drop_bit_eq_div)

lemma sint_small: "unat (x :: u32) < 2147483648 \<Longrightarrow> sint x = int (unat x)"
proof -
  assume a: "unat x < 2147483648"
  have u: "uint x = int (unat x)" by (rule uint_nat)
  have "sint x = signed_take_bit 31 (uint x)" unfolding sint_uint by simp
  also have "\<dots> = signed_take_bit 31 (int (unat x))" by (simp only: u)
  also have "\<dots> = int (unat x)"
  proof (rule signed_take_bit_int_eq_self)
    show "- (2 ^ 31) \<le> int (unat x)" by (rule order_trans[of _ 0]) simp_all
    have "int (unat x) < 2147483648" using a by linarith
    then show "int (unat x) < 2 ^ 31" by simp
  qed
  finally show ?thesis .
qed

lemma sint_big: "2147483648 \<le> unat (x :: u32) \<Longrightarrow> sint x < 0"
proof -
  assume a: "2147483648 \<le> unat x"
  have "drop_bit 31 x \<noteq> 0"
  proof
    assume "drop_bit 31 x = 0"
    then have "unat x div 2 ^ 31 = 0" by (metis unat_drop_bit unsigned_0)
    then show False using a by (simp add: div_eq_0_iff)
  qed
  moreover have "drop_bit 31 x = 0" if "\<not> bit x 31"
  proof (rule bit_word_eqI)
    fix n
    show "bit (drop_bit 31 x) n \<longleftrightarrow> bit (0 :: u32) n"
      using that bit_imp_le_length[of x "31 + n"] by (cases n) (auto simp: bit_drop_bit_eq)
  qed
  ultimately have "bit (uint x) 31" by (auto simp: bit_uint_iff)
  then have "signed_take_bit 31 (uint x) < 0" by simp
  moreover have "sint x = signed_take_bit 31 (uint x)" unfolding sint_uint by simp
  ultimately show ?thesis by linarith
qed

subsection \<open>Page offsets: the low twelve bits\<close>

lemma and_4095: "(c :: u32) AND 4095 = take_bit 12 c"
  by (simp add: take_bit_eq_mask mask_eq_exp_minus_1)

lemma unat_and_4095: "unat ((c :: u32) AND 4095) = unat c mod 4096"
  by (simp add: and_4095 take_bit_eq_mod unat_mod)

lemma and_4095_small: "(c :: u32) < 4096 \<Longrightarrow> c AND 4095 = c"
  by (simp add: word_unat_eq_iff unat_and_4095 word_less_nat_alt)

lemma page_split: "((p :: u32) AND - 4096) OR (p AND 4095) = p"
proof -
  have "(p AND NOT 4095) OR (p AND 4095) = p AND (NOT 4095 OR 4095)"
    by (simp only: bit.conj_disj_distrib)
  then show ?thesis by simp
qed

lemma page_and_not: "(p :: u32) AND 4095 = 0 \<Longrightarrow> p AND - 4096 = p"
  using page_split[of p] by simp

lemma and_not_4095_small: assumes "(c :: u32) < 4096" shows "c AND - 4096 = 0"
proof -
  have "c AND NOT 4095 = (c AND 4095) AND NOT 4095" by (simp only: and_4095_small[OF assms])
  also have "\<dots> = c AND (4095 AND NOT 4095)" by (rule and.assoc)
  also have "\<dots> = c AND 0" by (simp only: bit.conj_cancel_right)
  finally show ?thesis by simp
qed

text \<open>A small number and an address without offset share a word.\<close>
lemma or_page_low: "(c :: u32) < 4096 \<Longrightarrow> p AND 4095 = 0 \<Longrightarrow> (c OR p) AND 4095 = c"
  by (simp add: bit.conj_disj_distrib2 and_4095_small)

lemma or_page_high: "(c :: u32) < 4096 \<Longrightarrow> p AND 4095 = 0 \<Longrightarrow> (c OR p) AND - 4096 = p"
  by (simp add: bit.conj_disj_distrib2 and_not_4095_small page_and_not)

text \<open>A byte keeps its value in a wider word.\<close>
lemma ucast_byte [simp]: "unat (ucast (b :: u8) :: u32) = unat b"
proof -
  have "unat b < 256" using unsigned_less[of b] by simp
  then have "unat b < 4294967296" by linarith
  then show ?thesis by (simp add: unsigned_ucast_eq take_bit_nat_eq_self_iff)
qed

end
