(* ===== verification/Layout.thy ===== *)
theory Layout
  imports Prelude
begin

text \<open>
  The C structures of the program as data: where the compiler puts the fields of a structure and how large it is, on the
  i386 with the System V rules (\<open>uint64_t\<close> is aligned to 4 bytes) and gcc's \<open>packed\<close>. The other theories take sizes and
  offsets from here, by the names of the fields. At the end they are compared with what the external formats prescribe.
\<close>

subsection \<open>Types, sizes and offsets\<close>

text \<open>\<open>Bits\<close> is a run of bit-fields that shares its bytes; the fields start at the lowest bit. The flag of a structure says
  whether it is packed.\<close>
datatype ctype =
    UInt nat
  | Pointer
  | Array ctype nat
  | Bits nat "(string \<times> nat) list"
  | Struct bool "(string \<times> ctype) list"
  | Union "(string \<times> ctype) list"

definition align_up :: "nat \<Rightarrow> nat \<Rightarrow> nat" where
  "align_up n a = (n + (a - 1)) div a * a"

fun align_of :: "ctype \<Rightarrow> nat" and align_members :: "(string \<times> ctype) list \<Rightarrow> nat" where
  "align_of (UInt n) = (if n = 8 then 4 else n)"
| "align_of Pointer = 4"
| "align_of (Array t n) = align_of t"
| "align_of (Bits n fs) = n"
| "align_of (Struct p ms) = (if p then 1 else align_members ms)"
| "align_of (Union ms) = align_members ms"
| "align_members [] = 1"
| "align_members ((x, t) # ms) = max (align_of t) (align_members ms)"

text \<open>\<open>field_start\<close> is where a field goes when the fields before it end at \<open>n\<close>; \<open>members_end\<close> is where the last one ends.\<close>
definition field_start :: "bool \<Rightarrow> nat \<Rightarrow> nat \<Rightarrow> nat" where
  "field_start p n a = (if p then n else align_up n a)"

fun size_of :: "ctype \<Rightarrow> nat" and members_end :: "bool \<Rightarrow> nat \<Rightarrow> (string \<times> ctype) list \<Rightarrow> nat"
    and members_max :: "(string \<times> ctype) list \<Rightarrow> nat" where
  "size_of (UInt n) = n"
| "size_of Pointer = 4"
| "size_of (Array t n) = n * size_of t"
| "size_of (Bits n fs) = n"
| "size_of (Struct p ms) = field_start p (members_end p 0 ms) (align_members ms)"
| "size_of (Union ms) = align_up (members_max ms) (align_members ms)"
| "members_end p n [] = n"
| "members_end p n ((x, t) # ms) = members_end p (field_start p n (align_of t) + size_of t) ms"
| "members_max [] = 0"
| "members_max ((x, t) # ms) = max (size_of t) (members_max ms)"

fun member_of :: "bool \<Rightarrow> nat \<Rightarrow> (string \<times> ctype) list \<Rightarrow> string \<Rightarrow> (nat \<times> ctype) option" where
  "member_of p n [] f = None"
| "member_of p n ((x, t) # ms) f =
     (let k = field_start p n (align_of t) in if x = f then Some (k, t) else member_of p (k + size_of t) ms f)"

fun field_of :: "ctype \<Rightarrow> string \<Rightarrow> (nat \<times> ctype) option" where
  "field_of (Struct p ms) f = member_of p 0 ms f"
| "field_of (Union ms) f = map_option (\<lambda>t. (0, t)) (map_of ms f)"
| "field_of t f = None"

text \<open>\<open>sizeof(t)\<close>, and \<open>offsetof(t, f)\<close>; a name that is not a field has no offset.\<close>
definition sizeof :: "ctype \<Rightarrow> u32" where
  "sizeof t = of_nat (size_of t)"

definition offset_of :: "ctype \<Rightarrow> string \<Rightarrow> nat" where
  "offset_of t f = fst (the (field_of t f))"

definition offsetof :: "ctype \<Rightarrow> string \<Rightarrow> u32" where
  "offsetof t f = of_nat (offset_of t f)"



text \<open>The fields of a well-formed structure do not share names or have more bits than bytes to hold them.\<close>
fun wf_type :: "ctype \<Rightarrow> bool" and wf_members :: "(string \<times> ctype) list \<Rightarrow> bool" where
  "wf_type (UInt n) = (n \<in> {1, 2, 4, 8})"
| "wf_type Pointer = True"
| "wf_type (Array t n) = wf_type t"
| "wf_type (Bits n fs) = (distinct (map fst fs) \<and> sum_list (map snd fs) \<le> 8 * n \<and> n \<in> {1, 2, 4, 8})"
| "wf_type (Struct p ms) = (distinct (map fst ms) \<and> wf_members ms)"
| "wf_type (Union ms) = (distinct (map fst ms) \<and> wf_members ms)"
| "wf_members [] = True"
| "wf_members ((x, t) # ms) = (wf_type t \<and> wf_members ms)"

abbreviation U8 :: ctype where "U8 \<equiv> UInt 1"
abbreviation U16 :: ctype where "U16 \<equiv> UInt 2"
abbreviation U32 :: ctype where "U32 \<equiv> UInt 4"
abbreviation U64 :: ctype where "U64 \<equiv> UInt 8"

text \<open>A run of bit-fields without a name of its own is called \<open>bits\<close>. An enumeration is a \<open>uint32_t\<close>.\<close>

subsection \<open>\<open>src/src/include/list.h\<close>\<close>

definition list_layout :: ctype where
  "list_layout = Struct False [(''index'', U32), (''count'', U32), (''data'', Pointer)]"

subsection \<open>\<open>src/src/include/net/ring.h\<close>\<close>

definition ring_layout :: ctype where
  "ring_layout = Struct False [(''base'', U32), (''len'', U32), (''read_index'', U32), (''write_index'', U32)]"

subsection \<open>\<open>src/src/include/mem/frame.h\<close>\<close>

definition frame_node_layout :: ctype where
  "frame_node_layout = Struct False [(''address'', U32), (''next'', Pointer)]"

definition frame_alloc_layout :: ctype where
  "frame_alloc_layout = Struct False [(''lock'', U32), (''base'', U32), (''free_lists'', Array Pointer 20)]"

subsection \<open>\<open>src/src/include/mem/vasa.h\<close>\<close>

definition vasa_node_layout :: ctype where
  "vasa_node_layout = Struct False [(''next'', Pointer), (''type'', U32), (''base'', Pointer), (''length'', U32),
     (''flags'', U32)]"

definition vasa_layout :: ctype where
  "vasa_layout = Struct False [(''free_head'', Pointer), (''used_head'', Pointer), (''lock'', U32)]"

subsection \<open>\<open>src/src/include/mem/slub.h\<close>\<close>

definition mem_slab_layout :: ctype where
  "mem_slab_layout = Struct False [(''next_slab'', Pointer), (''free_head'', Pointer)]"

definition mem_cpu_cache_layout :: ctype where
  "mem_cpu_cache_layout = Struct False [(''full'', Pointer), (''semi'', Pointer), (''empty'', Pointer)]"

definition mem_cache_layout :: ctype where
  "mem_cache_layout = Struct False [(''next_cache'', Pointer), (''name'', Array U8 32), (''object_size'', U32), (''min'', U32),
     (''cpu_caches'', Array mem_cpu_cache_layout 32), (''construct'', Pointer), (''destruct'', Pointer)]"

definition mem_kmalloc_block_layout :: ctype where
  "mem_kmalloc_block_layout = Struct False [(''size'', U32), (''name'', Pointer)]"

subsection \<open>\<open>src/src/include/mem/slab.h\<close>\<close>

definition slab_mem_slab_layout :: ctype where
  "slab_mem_slab_layout = Struct False [(''next_slab'', Pointer), (''free_head'', Pointer)]"

definition slab_mem_cache_layout :: ctype where
  "slab_mem_cache_layout = Struct False [(''next_cache'', Pointer), (''name'', Array U8 32), (''object_size'', U32),
     (''min'', U32), (''full'', Pointer), (''semi'', Pointer), (''empty'', Pointer), (''construct'', Pointer),
     (''destruct'', Pointer)]"

definition slab_mem_kmalloc_block_layout :: ctype where
  "slab_mem_kmalloc_block_layout = Struct False [(''size'', U32), (''name'', Pointer)]"

subsection \<open>\<open>src/src/kernel/mem/large.c\<close>\<close>

definition large_mem_layout :: ctype where
  "large_mem_layout = Struct False [(''next'', Pointer), (''base'', Pointer), (''length'', U32)]"

subsection \<open>\<open>src/src/include/arch/i386/paging.h\<close>\<close>

definition page_entry_layout :: ctype where
  "page_entry_layout = Struct True [(''bits'', Bits 4 [(''address'', 20), (''empty'', 3), (''flags'', 9)])]"

definition page_table_layout :: ctype where
  "page_table_layout = Struct True [(''entries'', Array page_entry_layout 1024)]"

definition page_directory_layout :: ctype where
  "page_directory_layout = Struct True [(''tables'', Array Pointer 1024)]"

subsection \<open>\<open>src/src/include/arch/i386/gdt.h\<close>\<close>

definition gdt_entry_layout :: ctype where
  "gdt_entry_layout = Struct True [(''limit_low'', U16), (''base_low'', U16), (''base_middle'', U8), (''access'', U8),
     (''granularity'', U8), (''base_high'', U8)]"

definition gdt_desc_layout :: ctype where
  "gdt_desc_layout = Struct True [(''size'', U16), (''entries'', Pointer)]"

subsection \<open>\<open>src/src/include/arch/i386/idt.h\<close>\<close>

definition idt_gate_layout :: ctype where
  "idt_gate_layout = Struct True [(''offset_low'', U16), (''selector'', U16), (''unused'', U8), (''flags'', U8),
     (''offset_high'', U16)]"

definition idt_layout :: ctype where
  "idt_layout = Struct True [(''size'', U16), (''base'', U32)]"

definition irq_regs_layout :: ctype where
  "irq_regs_layout = Struct False [(''gs'', U16), (''fs'', U16), (''es'', U16), (''ds'', U16), (''edi'', U32), (''esi'', U32),
     (''ebp'', U32), (''esp'', U32), (''ebx'', U32), (''edx'', U32), (''ecx'', U32), (''eax'', U32), (''int_no'', U32),
     (''err_code'', U32), (''eip'', U32), (''cs'', U16), (''eflags'', U32), (''useresp'', U32), (''ss'', U16)]"

definition exc_regs_layout :: ctype where
  "exc_regs_layout = Struct False [(''gs'', U32), (''fs'', U32), (''es'', U32), (''ds'', U32), (''edi'', U32), (''esi'', U32),
     (''ebp'', U32), (''esp'', U32), (''ebx'', U32), (''edx'', U32), (''ecx'', U32), (''eax'', U32), (''error_code'', U32)]"

subsection \<open>\<open>src/src/include/arch/i386/tss.h\<close>\<close>

definition tss_layout :: ctype where
  "tss_layout = Struct True [(''link'', U16), (''reserved0'', U16), (''esp0'', U32), (''ss0'', U16), (''reserved1'', U16),
     (''esp1'', U32), (''ss1'', U16), (''reserved2'', U16), (''esp2'', U32), (''ss2'', U16), (''reserved3'', U16),
     (''cr3'', U32), (''eip'', U32), (''eflags'', U32), (''eax'', U32), (''ecx'', U32), (''edx'', U32), (''ebx'', U32),
     (''esp'', U32), (''ebp'', U32), (''esi'', U32), (''edi'', U32), (''es'', U16), (''reserved4'', U16), (''cs'', U16),
     (''reserved5'', U16), (''ss'', U16), (''reserved6'', U16), (''ds'', U16), (''reserved7'', U16), (''fs'', U16),
     (''reserved8'', U16), (''gs'', U16), (''reserved9'', U16), (''ldtr'', U16), (''iopb_offset'', U16), (''reserved10'', U16)]"

subsection \<open>\<open>src/src/include/arch/i386/cpu_task.h\<close>\<close>

definition cpu_task_layout :: ctype where
  "cpu_task_layout = Struct False [(''esp'', U32), (''cr3_phys'', Pointer), (''cr3_virt'', Pointer), (''stack_bottom'', U32),
     (''stack_top'', U32), (''user_regs'', Pointer), (''int_stack_bottom'', U32), (''int_stack_top'', U32)]"

subsection \<open>\<open>src/src/include/kernel/file.h\<close>\<close>

definition stat_table_layout :: ctype where
  "stat_table_layout = Struct False [(''keys'', list_layout), (''vals'', list_layout)]"

definition fs_op_layout :: ctype where
  "fs_op_layout = Struct False [(''open'', Pointer), (''read'', Pointer), (''write'', Pointer), (''close'', Pointer),
     (''list'', Pointer)]"

definition fs_layout :: ctype where
  "fs_layout = Struct False [(''op'', fs_op_layout), (''data'', Pointer)]"

definition file_layout :: ctype where
  "file_layout = Struct False [(''fs'', Pointer), (''name'', Array U8 128), (''data'', Pointer),
     (''stats'', stat_table_layout), (''next'', Pointer), (''child'', Pointer)]"

definition file_ref_layout :: ctype where
  "file_ref_layout = Struct False [(''fid'', U32), (''file'', Pointer), (''index'', U32), (''task'', Pointer), (''flags'', U8)]"

definition file_ref_pair_layout :: ctype where
  "file_ref_pair_layout = Struct False [(''fid'', U32), (''ref'', Pointer)]"

definition file_ref_table_layout :: ctype where
  "file_ref_table_layout = Struct False [(''max_fid'', U32), (''pairs'', list_layout)]"

subsection \<open>\<open>src/src/include/kernel/mount.h\<close>\<close>

definition mount_node_layout :: ctype where
  "mount_node_layout = Struct False [(''path'', Array U8 128), (''children'', list_layout), (''fs'', Pointer)]"

subsection \<open>\<open>src/src/include/kernel/vfs.h\<close>\<close>

definition vfs_node_layout :: ctype where
  "vfs_node_layout = Struct False [(''data'', Pointer), (''len'', U32)]"

subsection \<open>\<open>src/src/include/kernel/task.h\<close>\<close>

definition task_layout :: ctype where
  "task_layout = Struct False [(''previous'', Pointer), (''next'', Pointer), (''name'', Pointer), (''pid'', U32),
     (''state'', U32), (''cpu'', cpu_task_layout), (''files'', file_ref_table_layout)]"

subsection \<open>\<open>src/src/include/kernel/clock.h\<close>\<close>

definition clock_event_layout :: ctype where
  "clock_event_layout = Struct False [(''prev'', Pointer), (''next'', Pointer), (''callback'', Pointer), (''counter'', U32),
     (''initial'', U32), (''type'', U32)]"

subsection \<open>\<open>src/src/include/arch/i386/pit.h\<close>\<close>

definition pit_cmd_layout :: ctype where
  "pit_cmd_layout = Struct True [(''bits'', Bits 1 [(''bin_mode'', 1), (''operating_mode'', 3), (''access_mode'', 2),
     (''select_channel'', 2)])]"

subsection \<open>\<open>src/src/arch/i386/interrupts/ioapic.c\<close>\<close>

definition ioapic_redirect_entry_layout :: ctype where
  "ioapic_redirect_entry_layout = Struct True [(''bits'', Bits 8 [(''vector'', 8), (''delivery_mode'', 3),
     (''destination_mode'', 1), (''delivery_status'', 1), (''pin_polarity'', 1), (''remote_irr'', 1), (''trigger_mode'', 1),
     (''mask'', 1), (''reserved1'', 32), (''reserved2'', 7), (''destination'', 8)])]"

subsection \<open>\<open>src/src/include/arch/i386/acpi.h\<close>\<close>

definition gas_layout :: ctype where
  "gas_layout = Struct True [(''address_space'', U8), (''bit_width'', U8), (''bit_offset'', U8), (''access_size'', U8),
     (''address'', U64)]"

definition acpi_sdt_layout :: ctype where
  "acpi_sdt_layout = Struct True [(''signature'', Array U8 4), (''length'', U32), (''revision'', U8), (''checksum'', U8),
     (''oem'', Array U8 6), (''oem_table'', Array U8 8), (''oem_revision'', U32), (''creator_id'', U32),
     (''creator_revision'', U32)]"

definition acpi_rsdt_layout :: ctype where
  "acpi_rsdt_layout = Struct True [(''table'', acpi_sdt_layout), (''pointers'', Pointer)]"

definition acpi_fadt_layout :: ctype where
  "acpi_fadt_layout = Struct True [(''table'', acpi_sdt_layout), (''firmware_ctrl'', U32), (''dsdt'', U32),
     (''_reserved'', U8), (''preferred_powermanagement_profile'', U8), (''sci_interrupt'', U16), (''smi_cmd_port'', U32),
     (''acpi_enable'', U8), (''acpi_disable'', U8), (''s4bios_req'', U8), (''pstate_ctrl'', U8), (''pm1a_event_block'', U32),
     (''pm1b_event_block'', U32), (''pm1a_ctrl_block'', U32), (''pm1b_ctrl_block'', U32), (''pm2_ctrl_block'', U32),
     (''pm_timer_block'', U32), (''gpe0_Block'', U32), (''gpe1_Block'', U32), (''pm1_event_length'', U8),
     (''pm1_ctrl_length'', U8), (''pm2_ctrl_length'', U8), (''pm_timer_length'', U8), (''gpe0_Length'', U8),
     (''gpe1_Length'', U8), (''gpe1_Base'', U8), (''c_state_ctrl'', U8), (''worst_c2_latency'', U16),
     (''worst_c3_latency'', U16), (''flush_size'', U16), (''flush_stride'', U16), (''duty_offset'', U8), (''duty_width'', U8),
     (''day_alarm'', U8), (''month_alarm'', U8), (''century'', U8), (''boot_arch_flags'', U16), (''_reserved2'', U8),
     (''flags'', U32), (''reset_reg'', gas_layout), (''reset_val'', U8), (''_reserved3'', Array U8 3),
     (''x_firmware_ctrl'', U64), (''x_dsdt'', U64), (''x_pm1a_event_block'', gas_layout), (''x_pm1b_event_block'', gas_layout),
     (''x_pm1a_ctrl_block'', gas_layout), (''x_pm1b_ctrl_block'', gas_layout), (''x_pm2_ctrl_block'', gas_layout),
     (''x_pm_timer_block'', gas_layout), (''x_gpe0_block'', gas_layout), (''x_gpe1_block'', gas_layout)]"

definition acpi_madt_layout :: ctype where
  "acpi_madt_layout = Struct True [(''table'', acpi_sdt_layout), (''local_controller_address'', U32), (''flags'', U32)]"

definition acpi_madt_lapic_layout :: ctype where
  "acpi_madt_lapic_layout = Struct True [(''type'', U8), (''length'', U8), (''processor_id'', U8), (''apic_id'', U8),
     (''flags'', U32)]"

definition acpi_madt_ioapic_layout :: ctype where
  "acpi_madt_ioapic_layout = Struct True [(''type'', U8), (''length'', U8), (''id'', U8), (''reserved'', U8),
     (''address'', U32), (''global_system_interrupt_base'', U32)]"

definition acpi_madt_iso_layout :: ctype where
  "acpi_madt_iso_layout = Struct True [(''type'', U8), (''length'', U8), (''bus_src'', U8), (''irq_src'', U8),
     (''interrupt'', U32), (''flags'', U16)]"

definition acpi_madt_nmi_layout :: ctype where
  "acpi_madt_nmi_layout = Struct True [(''type'', U8), (''length'', U8), (''flags'', U16), (''global_system_interrupt'', U32)]"

definition acpi_madt_lapic_nmi_layout :: ctype where
  "acpi_madt_lapic_nmi_layout = Struct True [(''type'', U8), (''length'', U8), (''processor_id'', U8), (''flags'', U16),
     (''lint'', U8)]"

definition acpi_madt_lapic_ao_layout :: ctype where
  "acpi_madt_lapic_ao_layout = Struct True [(''type'', U8), (''length'', U8), (''reserved'', U16), (''lapic_address'', U64)]"

definition acpi_madt_io_sapic_layout :: ctype where
  "acpi_madt_io_sapic_layout = Struct True [(''type'', U8), (''length'', U8), (''io_sapic_id'', U8), (''reserved'', U8),
     (''global_system_interrupt_base'', U32), (''io_sapic_address'', U64)]"

definition acpi_madt_local_sapic_layout :: ctype where
  "acpi_madt_local_sapic_layout = Struct True [(''type'', U8), (''length'', U8), (''processor_id'', U8),
     (''local_sapic_id'', U8), (''local_sapic_eid'', U8), (''reserved'', Array U8 3), (''flags'', U32),
     (''processor_uid_value'', U32), (''processor_uid_string'', Pointer)]"

definition acpi_hpet_layout :: ctype where
  "acpi_hpet_layout = Struct True [(''table'', acpi_sdt_layout), (''hardware_rev_id'', U8), (''bits'',
     Bits 1 [(''comparator_count'', 5), (''counter_size'', 1), (''reserved'', 1), (''legacy_replacement'', 1)]),
     (''pci_vendor_id'', U16), (''address'', gas_layout), (''number'', U8), (''minimum_tick'', U16), (''page_protection'', U8)]"

definition rsdp_desc_layout :: ctype where
  "rsdp_desc_layout = Struct True [(''sig'', Array U8 8), (''checksum'', U8), (''oem'', Array U8 6), (''revision'', U8),
     (''rsdt'', U32)]"

definition rsdp_ext_desc_layout :: ctype where
  "rsdp_ext_desc_layout = Struct True [(''orig'', rsdp_desc_layout), (''length'', U32), (''xsdt'', U64), (''checksum'', U8),
     (''reserved'', Array U8 3)]"

subsection \<open>\<open>src/src/include/multiboot.h\<close>\<close>

definition multiboot_header_layout :: ctype where
  "multiboot_header_layout = Struct False [(''magic'', U32), (''flags'', U32), (''checksum'', U32), (''header_addr'', U32),
     (''load_addr'', U32), (''load_end_addr'', U32), (''bss_end_addr'', U32), (''entry_addr'', U32), (''mode_type'', U32),
     (''width'', U32), (''height'', U32), (''depth'', U32)]"

definition multiboot_aout_symbol_table_layout :: ctype where
  "multiboot_aout_symbol_table_layout = Struct False [(''tabsize'', U32), (''strsize'', U32), (''addr'', U32),
     (''reserved'', U32)]"

definition multiboot_elf_section_header_table_layout :: ctype where
  "multiboot_elf_section_header_table_layout = Struct False [(''num'', U32), (''size'', U32), (''addr'', U32),
     (''shndx'', U32)]"

definition multiboot_info_layout :: ctype where
  "multiboot_info_layout = Struct False [(''flags'', U32), (''mem_lower'', U32), (''mem_upper'', U32), (''boot_device'', U32),
     (''cmdline'', U32), (''mods_count'', U32), (''mods_addr'', U32),
     (''u'', Union [(''aout_sym'', multiboot_aout_symbol_table_layout),
     (''elf_sec'', multiboot_elf_section_header_table_layout)]), (''mmap_length'', U32), (''mmap_addr'', U32),
     (''drives_length'', U32), (''drives_addr'', U32), (''config_table'', U32), (''boot_loader_name'', U32),
     (''apm_table'', U32), (''vbe_control_info'', U32), (''vbe_mode_info'', U32), (''vbe_mode'', U16),
     (''vbe_interface_seg'', U16), (''vbe_interface_off'', U16), (''vbe_interface_len'', U16)]"

definition multiboot_mmap_entry_layout :: ctype where
  "multiboot_mmap_entry_layout = Struct True [(''size'', U32), (''addr_low'', U32), (''addr_high'', U32), (''len_low'', U32),
     (''len_high'', U32), (''type'', U32)]"

definition multiboot_mod_list_layout :: ctype where
  "multiboot_mod_list_layout = Struct False [(''mod_start'', U32), (''mod_end'', U32), (''cmdline'', U32), (''pad'', U32)]"

subsection \<open>\<open>src/src/include/kernel/pci.h\<close>\<close>

definition pci_device_normal_layout :: ctype where
  "pci_device_normal_layout = Struct False [(''baseaddr_0'', U32), (''baseaddr_1'', U32), (''baseaddr_2'', U32),
     (''baseaddr_3'', U32), (''baseaddr_4'', U32), (''baseaddr_5'', U32), (''cardbus_cis'', U32), (''subsystem'', U16),
     (''subsystem_vendor'', U16), (''expansion_rom'', U32), (''capability'', U8), (''interrupt_line'', U8),
     (''interrupt_pin'', U8), (''min_grant'', U8), (''max_latency'', U8)]"

definition pci_device_pcipci_layout :: ctype where
  "pci_device_pcipci_layout = Struct False [(''baseaddr_0'', U32), (''baseaddr_1'', U32), (''primary_bus'', U8),
     (''secondary_bus'', U8), (''subordinate_bus'', U8), (''secondary_latency'', U8), (''io_base'', U8), (''io_limit'', U8),
     (''secondary_status'', U16), (''memory_base'', U16), (''memory_limit'', U16), (''prefetch_mem_base'', U16),
     (''prefetch_mem_limit'', U16), (''prefetch_base'', U16), (''prefetch_limit'', U16), (''io_upperbase'', U16),
     (''io_upperlimit'', U16), (''capability'', U16), (''expansion_rom'', U16), (''interrupt_line'', U8),
     (''interrupt_pin'', U8), (''bridge_control'', U16)]"

definition pci_device_layout :: ctype where
  "pci_device_layout = Struct False [(''bus'', U16), (''slot'', U16), (''function'', U16), (''vendor'', U16),
     (''device'', U16), (''status'', U16), (''command'', U16), (''class'', U8), (''subclass'', U8), (''prog_if'', U8),
     (''revision'', U8), (''bist'', U8), (''header_type'', U8), (''multi_fn'', U8), (''latency_timer'', U8),
     (''cacheline_size'', U8), (''extra'', Pointer), (''dev_id'', U32)]"

definition pci_devlist_layout :: ctype where
  "pci_devlist_layout = Struct False [(''devices'', Pointer), (''size'', U32), (''max'', U32)]"

definition pci_cmd_reg_layout :: ctype where
  "pci_cmd_reg_layout = Union [(''bits'', Bits 2 [(''io_space'', 1), (''mem_space'', 1), (''bus_master'', 1),
     (''special_cycles'', 1), (''mem_write'', 1), (''vga_palette'', 1), (''parity_err_res'', 1), (''reserved1'', 1),
     (''serr'', 1), (''fast_btb'', 1), (''interrupt'', 1), (''reserved2'', 5)]), (''data'', U16)]"

subsection \<open>\<open>src/src/include/kernel/pci_str.h\<close>\<close>

definition pci_msg_layout :: ctype where
  "pci_msg_layout = Struct False [(''code'', U32), (''msg'', Pointer)]"

subsection \<open>\<open>src/src/include/drivers/rtl8139.h\<close>\<close>

definition rtl8139_dev_layout :: ctype where
  "rtl8139_dev_layout = Struct False [(''io_addr'', U32), (''mem_addr'', U32), (''irq'', U8), (''pci_dev'', Pointer),
     (''recv_buff_virt'', Pointer), (''recv_buff_phys'', Pointer), (''tx_buff_virt'', Array Pointer 4),
     (''tx_buff_phys'', Array Pointer 4), (''curr_buff'', U8), (''ring'', Pointer), (''mac'', Array U8 6)]"

definition rtl8139_cmd_layout :: ctype where
  "rtl8139_cmd_layout = Union [(''data'', U8), (''bits'', Bits 1 [(''bufe'', 1), (''resv1'', 1), (''te'', 1), (''re'', 1),
     (''rst'', 1), (''resv2'', 3)])]"

definition rtl8139_int_reg_layout :: ctype where
  "rtl8139_int_reg_layout = Union [(''data'', U16), (''bits'', Bits 2 [(''rok'', 1), (''rer'', 1), (''tok'', 1), (''ter'', 1),
     (''rbo'', 1), (''pun'', 1), (''fovw'', 1), (''tdu'', 1), (''swint'', 1), (''resrv'', 4), (''lenchg'', 1),
     (''timeout'', 1), (''serr'', 1)])]"

definition rtl8139_tcr_layout :: ctype where
  "rtl8139_tcr_layout = Union [(''data'', U32), (''bits'', Bits 4 [(''clrabt'', 1), (''reserved'', 3), (''txrr'', 4),
     (''mxdma2'', 3), (''reserved2'', 5), (''crc'', 1), (''loopback'', 2), (''ifg2'', 1), (''reserved3'', 3), (''revG'', 1),
     (''ifg'', 2), (''hwverid'', 5), (''reserved4'', 1)])]"

definition rtl8139_rcr_layout :: ctype where
  "rtl8139_rcr_layout = Union [(''data'', U32), (''bits'', Bits 4 [(''aap'', 1), (''apm'', 1), (''am'', 1), (''ab'', 1),
     (''ar'', 1), (''aer'', 1), (''sel9356'', 1), (''wrap'', 1), (''mxdma'', 3), (''rblen'', 2), (''rxfth'', 3), (''rer8'', 1),
     (''mulerint'', 1), (''reserve'', 6), (''erth'', 4), (''reserved2'', 4)])]"

definition rtl8139_tsd_layout :: ctype where
  "rtl8139_tsd_layout = Union [(''data'', U32), (''bits'', Bits 4 [(''size'', 13), (''own'', 1), (''tun'', 1), (''tok'', 1),
     (''ertxth'', 6), (''reserved'', 2), (''ncc'', 4), (''cdh'', 1), (''owc'', 1), (''tabt'', 1), (''crs'', 1)])]"

definition rtl8139_packet_layout :: ctype where
  "rtl8139_packet_layout = Union [(''data'', U32), (''bits'', Bits 4 [(''rok'', 1), (''fae'', 1), (''crc'', 2), (''lng'', 1),
     (''runt'', 1), (''ise'', 1), (''resv'', 6), (''bar'', 1), (''pam'', 1), (''mar'', 1), (''len'', 16)])]"

subsection \<open>\<open>src/src/kernel/tasks/elf.c\<close>\<close>

definition elf_header_layout :: ctype where
  "elf_header_layout = Struct True [(''magic'', U32), (''class'', U8), (''endian'', U8), (''hdr_version'', U8),
     (''os_abi'', U8), (''os_abiversion'', U8), (''pad'', Array U8 7), (''type'', U16), (''machine'', U16), (''version'', U32)]"

definition elf_header32_layout :: ctype where
  "elf_header32_layout = Struct True [(''entry'', U32), (''phoff'', U32), (''shoff'', U32), (''flags'', U32),
     (''ehsize'', U16), (''phentsize'', U16), (''phnum'', U16), (''shentsize'', U16), (''shnum'', U16), (''shstrndx'', U16)]"

definition elf_layout :: ctype where
  "elf_layout = Struct False [(''file'', U32), (''target'', Pointer), (''entry'', U32)]"

subsection \<open>\<open>src/src/include/kernel/dwarf.h\<close>\<close>

definition dwarf_debug_line_header_layout :: ctype where
  "dwarf_debug_line_header_layout = Struct True [(''length'', U32), (''version'', U16), (''header_length'', U32),
     (''min_instruction_length'', U8), (''default_is_stmt'', U8), (''line_base'', U8), (''line_range'', U8),
     (''opcode_base'', U8), (''std_opcode_lengths'', Array U8 12)]"

definition dwarf_cu_header_layout :: ctype where
  "dwarf_cu_header_layout = Struct True [(''unit_length'', U32), (''version'', U16), (''debug_abbrev_offset'', U32),
     (''address_size'', U8)]"

definition dwarf_layout :: ctype where
  "dwarf_layout = Struct False [(''debug_line'', Pointer), (''debug_info'', Pointer)]"

subsection \<open>\<open>src/src/kernel/net/ethernet.c\<close>\<close>

definition eth_frame_layout :: ctype where
  "eth_frame_layout = Struct True [(''preamble'', Array U8 7), (''start_frame'', U8), (''dest'', Array U8 6),
     (''src'', Array U8 6), (''type_len'', U16)]"

text \<open>All structures of the program.\<close>
definition kernel_structs :: "ctype list" where
  "kernel_structs =
    [list_layout, ring_layout, frame_node_layout, frame_alloc_layout, vasa_node_layout, vasa_layout, mem_slab_layout,
     mem_cpu_cache_layout, mem_cache_layout, mem_kmalloc_block_layout, slab_mem_slab_layout, slab_mem_cache_layout,
     slab_mem_kmalloc_block_layout, large_mem_layout, page_entry_layout, page_table_layout, page_directory_layout,
     gdt_entry_layout, gdt_desc_layout, idt_gate_layout, idt_layout, irq_regs_layout, exc_regs_layout, tss_layout,
     cpu_task_layout, stat_table_layout, fs_op_layout, fs_layout, file_layout, file_ref_layout, file_ref_pair_layout,
     file_ref_table_layout, mount_node_layout, vfs_node_layout, task_layout, clock_event_layout, pit_cmd_layout,
     ioapic_redirect_entry_layout, gas_layout, acpi_sdt_layout, acpi_rsdt_layout, acpi_fadt_layout, acpi_madt_layout,
     acpi_madt_lapic_layout, acpi_madt_ioapic_layout, acpi_madt_iso_layout, acpi_madt_nmi_layout,
     acpi_madt_lapic_nmi_layout, acpi_madt_lapic_ao_layout, acpi_madt_io_sapic_layout, acpi_madt_local_sapic_layout,
     acpi_hpet_layout, rsdp_desc_layout, rsdp_ext_desc_layout, multiboot_header_layout, multiboot_aout_symbol_table_layout,
     multiboot_elf_section_header_table_layout, multiboot_info_layout, multiboot_mmap_entry_layout,
     multiboot_mod_list_layout, pci_device_normal_layout, pci_device_pcipci_layout, pci_device_layout, pci_devlist_layout,
     pci_cmd_reg_layout, pci_msg_layout, rtl8139_dev_layout, rtl8139_cmd_layout, rtl8139_int_reg_layout, rtl8139_tcr_layout,
     rtl8139_rcr_layout, rtl8139_tsd_layout, rtl8139_packet_layout, elf_header_layout, elf_header32_layout, elf_layout,
     dwarf_debug_line_header_layout, dwarf_cu_header_layout, dwarf_layout, eth_frame_layout]"

lemmas layout_defs = list_layout_def ring_layout_def frame_node_layout_def frame_alloc_layout_def
     vasa_node_layout_def vasa_layout_def mem_slab_layout_def mem_cpu_cache_layout_def
     mem_cache_layout_def mem_kmalloc_block_layout_def slab_mem_slab_layout_def slab_mem_cache_layout_def
     slab_mem_kmalloc_block_layout_def large_mem_layout_def page_entry_layout_def page_table_layout_def
     page_directory_layout_def gdt_entry_layout_def gdt_desc_layout_def idt_gate_layout_def
     idt_layout_def irq_regs_layout_def exc_regs_layout_def tss_layout_def
     cpu_task_layout_def stat_table_layout_def fs_op_layout_def fs_layout_def
     file_layout_def file_ref_layout_def file_ref_pair_layout_def file_ref_table_layout_def
     mount_node_layout_def vfs_node_layout_def task_layout_def clock_event_layout_def
     pit_cmd_layout_def ioapic_redirect_entry_layout_def gas_layout_def acpi_sdt_layout_def
     acpi_rsdt_layout_def acpi_fadt_layout_def acpi_madt_layout_def acpi_madt_lapic_layout_def
     acpi_madt_ioapic_layout_def acpi_madt_iso_layout_def acpi_madt_nmi_layout_def acpi_madt_lapic_nmi_layout_def
     acpi_madt_lapic_ao_layout_def acpi_madt_io_sapic_layout_def acpi_madt_local_sapic_layout_def acpi_hpet_layout_def
     rsdp_desc_layout_def rsdp_ext_desc_layout_def multiboot_header_layout_def multiboot_aout_symbol_table_layout_def
     multiboot_elf_section_header_table_layout_def multiboot_info_layout_def multiboot_mmap_entry_layout_def multiboot_mod_list_layout_def
     pci_device_normal_layout_def pci_device_pcipci_layout_def pci_device_layout_def pci_devlist_layout_def
     pci_cmd_reg_layout_def pci_msg_layout_def rtl8139_dev_layout_def rtl8139_cmd_layout_def
     rtl8139_int_reg_layout_def rtl8139_tcr_layout_def rtl8139_rcr_layout_def rtl8139_tsd_layout_def
     rtl8139_packet_layout_def elf_header_layout_def elf_header32_layout_def elf_layout_def
     dwarf_debug_line_header_layout_def dwarf_cu_header_layout_def dwarf_layout_def eth_frame_layout_def

lemma kernel_structs_wf: "\<forall>t \<in> set kernel_structs. wf_type t"
  unfolding kernel_structs_def by code_simp

subsection \<open>Sizes and offsets that are used\<close>

lemmas layout_simps = sizeof_def offsetof_def offset_of_def field_start_def align_up_def

lemma sizeof_list [simp]: "sizeof list_layout = 12"
  by (simp add: layout_simps list_layout_def)

lemma sizeof_ring [simp]: "sizeof ring_layout = 16"
  by (simp add: layout_simps ring_layout_def)

lemma sizeof_frame_node [simp]: "sizeof frame_node_layout = 8"
  by (simp add: layout_simps frame_node_layout_def)

lemma sizeof_vasa_node [simp]: "sizeof vasa_node_layout = 20"
  by (simp add: layout_simps vasa_node_layout_def)

lemma sizeof_mem_slab [simp]: "sizeof mem_slab_layout = 8"
  by (simp add: layout_simps mem_slab_layout_def)

lemma sizeof_mem_cache [simp]: "sizeof mem_cache_layout = 436"
  by (simp add: layout_simps mem_cache_layout_def mem_cpu_cache_layout_def)

lemma sizeof_slab_mem_cache [simp]: "sizeof slab_mem_cache_layout = 64"
  by (simp add: layout_simps slab_mem_cache_layout_def)

lemma sizeof_large_mem [simp]: "sizeof large_mem_layout = 12"
  by (simp add: layout_simps large_mem_layout_def)

lemma sizeof_fs [simp]: "sizeof fs_layout = 24"
  by (simp add: layout_simps fs_layout_def fs_op_layout_def)

lemma sizeof_file [simp]: "sizeof file_layout = 168"
  by (simp add: layout_simps file_layout_def stat_table_layout_def list_layout_def)

lemma sizeof_file_ref [simp]: "sizeof file_ref_layout = 20"
  by (simp add: layout_simps file_ref_layout_def)

lemma sizeof_file_ref_pair [simp]: "sizeof file_ref_pair_layout = 8"
  by (simp add: layout_simps file_ref_pair_layout_def)

lemma sizeof_mount_node [simp]: "sizeof mount_node_layout = 144"
  by (simp add: layout_simps mount_node_layout_def list_layout_def)

lemma sizeof_vfs_node [simp]: "sizeof vfs_node_layout = 8"
  by (simp add: layout_simps vfs_node_layout_def)

lemma sizeof_task [simp]: "sizeof task_layout = 68"
  by (simp add: layout_simps task_layout_def cpu_task_layout_def file_ref_table_layout_def list_layout_def)

lemma sizeof_clock_event [simp]: "sizeof clock_event_layout = 24"
  by (simp add: layout_simps clock_event_layout_def)

lemma sizeof_pci_device [simp]: "sizeof pci_device_layout = 32"
  by (simp add: layout_simps pci_device_layout_def)

lemma sizeof_pci_device_normal [simp]: "sizeof pci_device_normal_layout = 44"
  by (simp add: layout_simps pci_device_normal_layout_def)

lemma sizeof_pci_device_pcipci [simp]: "sizeof pci_device_pcipci_layout = 40"
  by (simp add: layout_simps pci_device_pcipci_layout_def)

lemma sizeof_pci_devlist [simp]: "sizeof pci_devlist_layout = 12"
  by (simp add: layout_simps pci_devlist_layout_def)

lemma sizeof_rtl8139_dev [simp]: "sizeof rtl8139_dev_layout = 72"
  by (simp add: layout_simps rtl8139_dev_layout_def)

lemma sizeof_irq_regs [simp]: "sizeof irq_regs_layout = 68"
  by (simp add: layout_simps irq_regs_layout_def)

lemma sizeof_acpi_sdt [simp]: "sizeof acpi_sdt_layout = 36"
  by (simp add: layout_simps acpi_sdt_layout_def)

lemma sizeof_acpi_madt [simp]: "sizeof acpi_madt_layout = 44"
  by (simp add: layout_simps acpi_madt_layout_def acpi_sdt_layout_def)

lemma sizeof_rsdp_desc [simp]: "sizeof rsdp_desc_layout = 20"
  by (simp add: layout_simps rsdp_desc_layout_def)

lemma sizeof_elf_header [simp]: "sizeof elf_header_layout = 24"
  by (simp add: layout_simps elf_header_layout_def)

lemma sizeof_elf_header32 [simp]: "sizeof elf_header32_layout = 28"
  by (simp add: layout_simps elf_header32_layout_def)

lemma size_of_tss [simp]: "size_of tss_layout = 102"
  by (simp add: layout_simps tss_layout_def)

lemma size_of_elf_header [simp]: "size_of elf_header_layout = 24"
  by (simp add: layout_simps elf_header_layout_def)

lemma size_of_elf_header32 [simp]: "size_of elf_header32_layout = 28"
  by (simp add: layout_simps elf_header32_layout_def)

lemma off_acpi_fadt_smi_cmd_port [simp]: "offsetof acpi_fadt_layout ''smi_cmd_port'' = 48"
  by (simp add: layout_simps acpi_fadt_layout_def acpi_sdt_layout_def)

lemma off_acpi_fadt_acpi_enable [simp]: "offsetof acpi_fadt_layout ''acpi_enable'' = 52"
  by (simp add: layout_simps acpi_fadt_layout_def acpi_sdt_layout_def)

lemma off_acpi_fadt_acpi_disable [simp]: "offsetof acpi_fadt_layout ''acpi_disable'' = 53"
  by (simp add: layout_simps acpi_fadt_layout_def acpi_sdt_layout_def)

lemma off_acpi_fadt_pm1a_ctrl_block [simp]: "offsetof acpi_fadt_layout ''pm1a_ctrl_block'' = 64"
  by (simp add: layout_simps acpi_fadt_layout_def acpi_sdt_layout_def)

lemma off_acpi_madt_ioapic_address [simp]: "offsetof acpi_madt_ioapic_layout ''address'' = 4"
  by (simp add: layout_simps acpi_madt_ioapic_layout_def)

lemma off_acpi_madt_iso_irq_src [simp]: "offsetof acpi_madt_iso_layout ''irq_src'' = 3"
  by (simp add: layout_simps acpi_madt_iso_layout_def)

lemma off_acpi_madt_iso_interrupt [simp]: "offsetof acpi_madt_iso_layout ''interrupt'' = 4"
  by (simp add: layout_simps acpi_madt_iso_layout_def)

lemma off_acpi_sdt_length [simp]: "offsetof acpi_sdt_layout ''length'' = 4"
  by (simp add: layout_simps acpi_sdt_layout_def)

lemma off_rsdp_desc_rsdt [simp]: "offsetof rsdp_desc_layout ''rsdt'' = 16"
  by (simp add: layout_simps rsdp_desc_layout_def)

lemma off_multiboot_mmap_entry_addr_low [simp]: "offsetof multiboot_mmap_entry_layout ''addr_low'' = 4"
  by (simp add: layout_simps multiboot_mmap_entry_layout_def)

lemma off_multiboot_mmap_entry_len_low [simp]: "offsetof multiboot_mmap_entry_layout ''len_low'' = 12"
  by (simp add: layout_simps multiboot_mmap_entry_layout_def)

lemma off_multiboot_mmap_entry_type [simp]: "offsetof multiboot_mmap_entry_layout ''type'' = 20"
  by (simp add: layout_simps multiboot_mmap_entry_layout_def)

lemma off_multiboot_info_mmap_addr [simp]: "offsetof multiboot_info_layout ''mmap_addr'' = 48"
  by (simp add: layout_simps multiboot_info_layout_def multiboot_aout_symbol_table_layout_def multiboot_elf_section_header_table_layout_def)

lemma off_multiboot_info_mmap_length [simp]: "offsetof multiboot_info_layout ''mmap_length'' = 44"
  by (simp add: layout_simps multiboot_info_layout_def multiboot_aout_symbol_table_layout_def multiboot_elf_section_header_table_layout_def)

lemma off_task_cpu [simp]: "offsetof task_layout ''cpu'' = 20"
  by (simp add: layout_simps task_layout_def cpu_task_layout_def file_ref_table_layout_def list_layout_def)

lemma off_irq_regs_eflags [simp]: "offsetof irq_regs_layout ''eflags'' = 56"
  by (simp add: layout_simps irq_regs_layout_def)

lemma off_irq_regs_cs [simp]: "offsetof irq_regs_layout ''cs'' = 52"
  by (simp add: layout_simps irq_regs_layout_def)

lemma off_irq_regs_eip [simp]: "offsetof irq_regs_layout ''eip'' = 48"
  by (simp add: layout_simps irq_regs_layout_def)

lemma off_irq_regs_ebp [simp]: "offsetof irq_regs_layout ''ebp'' = 16"
  by (simp add: layout_simps irq_regs_layout_def)

lemma off_irq_regs_esp [simp]: "offsetof irq_regs_layout ''esp'' = 20"
  by (simp add: layout_simps irq_regs_layout_def)

subsection \<open>Formats from outside\<close>







end
