(* ===== verification/CString.thy ===== *)
theory CString
  imports Prelude
begin

text \<open>
  \<open>src/src/std/string.c\<close>: the C string and memory routines, over a byte memory
  \<open>u32 \<rightharpoonup> u8\<close> in which \<open>None\<close> is an address with nothing mapped. Pointers are addresses
  and advance with wrap-around. \<open>char\<close> is signed on i386. The lemmas relate each routine
  to the list of bytes stored at its arguments (\<open>bytes_at\<close>, \<open>cstr_at\<close>).
\<close>

type_synonym mem = "u32 \<Rightarrow> u8 option"

text \<open>\<open>*p = v\<close>: undefined where nothing is mapped.\<close>
definition mset :: "mem \<Rightarrow> u32 \<Rightarrow> u8 \<Rightarrow> mem option" where
  "mset m p v = (case m p of None \<Rightarrow> None | Some _ \<Rightarrow> Some (m(p \<mapsto> v)))"

subsection \<open>The routines\<close>

partial_function (option) strlen_loop :: "mem \<Rightarrow> u32 \<Rightarrow> u32 \<Rightarrow> u32 option" where
  "strlen_loop m str i = do {
     c \<leftarrow> m str;
     if c \<noteq> 0 then strlen_loop m (str + 1) (i + 1) else Some i }"

definition strlen :: "mem \<Rightarrow> u32 \<Rightarrow> u32 option" where
  "strlen m str = strlen_loop m str 0"

partial_function (option) strnlen_loop :: "mem \<Rightarrow> u32 \<Rightarrow> u32 \<Rightarrow> u32 \<Rightarrow> u32 option" where
  "strnlen_loop m str i n = do {
     c \<leftarrow> m str;
     if c \<noteq> 0 then (if i + 1 \<ge> n then Some n else strnlen_loop m (str + 1) (i + 1) n)
     else Some i }"

definition strnlen :: "mem \<Rightarrow> u32 \<Rightarrow> u32 \<Rightarrow> u32 option" where
  "strnlen m str n = strnlen_loop m str 0 n"

partial_function (option) strcmp :: "mem \<Rightarrow> u32 \<Rightarrow> u32 \<Rightarrow> int option" where
  "strcmp m a b = do {
     x \<leftarrow> m a;
     if x \<noteq> 0 then do {
       y \<leftarrow> m b;
       if x = y then strcmp m (a + 1) (b + 1) else Some (sint x - sint y) }
     else do { y \<leftarrow> m b; Some (sint x - sint y) } }"

text \<open>The \<open>for\<close> loops run \<open>count\<close> times: \<open>i\<close> is compared as an unsigned number.\<close>

fun memcpy_loop :: "mem \<Rightarrow> u32 \<Rightarrow> u32 \<Rightarrow> nat \<Rightarrow> (mem \<times> u32) option" where
  "memcpy_loop m dest src 0 = Some (m, dest)"
| "memcpy_loop m dest src (Suc n) = do {
     c \<leftarrow> m src;
     m' \<leftarrow> mset m dest c;
     memcpy_loop m' (dest + 1) (src + 1) n }"

definition memcpy :: "mem \<Rightarrow> u32 \<Rightarrow> u32 \<Rightarrow> u32 \<Rightarrow> (mem \<times> u32) option" where
  "memcpy m dest src count = memcpy_loop m dest src (unat count)"

fun memset_loop :: "mem \<Rightarrow> u32 \<Rightarrow> u8 \<Rightarrow> nat \<Rightarrow> mem option" where
  "memset_loop m p c 0 = Some m"
| "memset_loop m p c (Suc n) = do { m' \<leftarrow> mset m p c; memset_loop m' (p + 1) c n }"

definition memset :: "mem \<Rightarrow> u32 \<Rightarrow> u8 \<Rightarrow> u32 \<Rightarrow> (mem \<times> u32) option" where
  "memset m dest c count = do { m' \<leftarrow> memset_loop m dest c (unat count); Some (m', dest) }"

fun memsetw_loop :: "mem \<Rightarrow> u32 \<Rightarrow> u16 \<Rightarrow> nat \<Rightarrow> mem option" where
  "memsetw_loop m p c 0 = Some m"
| "memsetw_loop m p c (Suc n) = do {
     m1 \<leftarrow> mset m p (ucast c);
     m2 \<leftarrow> mset m1 (p + 1) (ucast (drop_bit 8 c));
     memsetw_loop m2 (p + 2) c n }"

definition memsetw :: "mem \<Rightarrow> u32 \<Rightarrow> u16 \<Rightarrow> u32 \<Rightarrow> (mem \<times> u32) option" where
  "memsetw m dest c count = do { m' \<leftarrow> memsetw_loop m dest c (unat count); Some (m', dest) }"

definition strcpy :: "mem \<Rightarrow> u32 \<Rightarrow> u32 \<Rightarrow> mem option" where
  "strcpy m a b = do {
     n \<leftarrow> strlen m b;
     (m', _) \<leftarrow> memcpy m a b (n + 1);
     Some m' }"

text \<open>\<open>kmalloc\<close> is the heap's; here it is an argument that may also change the memory.\<close>
definition strdup :: "(mem \<Rightarrow> u32 \<Rightarrow> (mem \<times> u32) option) \<Rightarrow> mem \<Rightarrow> u32 \<Rightarrow> (mem \<times> u32) option" where
  "strdup kmalloc m str = do {
     len \<leftarrow> strlen m str;
     (m1, data) \<leftarrow> kmalloc m (len + 1);
     if data = NULL then Some (m1, NULL)
     else do {
       (m2, _) \<leftarrow> memcpy m1 data str (len + 1);
       Some (m2, data) } }"

subsection \<open>Bytes in memory\<close>

fun bytes_at :: "mem \<Rightarrow> u32 \<Rightarrow> u8 list \<Rightarrow> bool" where
  "bytes_at m p [] \<longleftrightarrow> True"
| "bytes_at m p (b # bs) \<longleftrightarrow> m p = Some b \<and> bytes_at m (p + 1) bs"

text \<open>A NUL-terminated string: the bytes \<open>s\<close>, none of them NUL, and then NUL.\<close>
definition cstr_at :: "mem \<Rightarrow> u32 \<Rightarrow> u8 list \<Rightarrow> bool" where
  "cstr_at m p s \<longleftrightarrow> bytes_at m p (s @ [0]) \<and> 0 \<notin> set s"

text \<open>The addresses \<open>p, p + 1, \<dots>, p + n - 1\<close>.\<close>
definition span :: "u32 \<Rightarrow> nat \<Rightarrow> u32 set" where
  "span p n = (\<lambda>i. p + of_nat i) ` {..<n}"

lemma span_0 [simp]: "span p 0 = {}"
  by (simp add: span_def)

lemma span_Suc: "span p (Suc n) = insert p (span (p + 1) n)"
proof -
  have "span p (Suc n) = (\<lambda>i. p + of_nat i) ` (insert 0 (Suc ` {..<n}))"
    by (simp only: span_def lessThan_Suc_eq_insert_0)
  also have "\<dots> = insert p (span (p + 1) n)"
    by (simp add: span_def image_image add.assoc)
  finally show ?thesis .
qed

lemma not_in_own_tail: "Suc n \<le> 4294967296 \<Longrightarrow> p \<notin> span (p + 1) n"
proof
  assume n: "Suc n \<le> 4294967296" and "p \<in> span (p + 1) n"
  then obtain i where i: "i < n" and "p = p + (1 + of_nat i)" by (auto simp: span_def add.assoc)
  then have "(of_nat (Suc i) :: u32) = 0" by simp
  moreover have "unat (of_nat (Suc i) :: u32) = Suc i" using i n by (intro unat_of_nat32) simp
  ultimately show False by simp
qed

lemma bytes_at_append:
  "bytes_at m p (xs @ ys) \<longleftrightarrow> bytes_at m p xs \<and> bytes_at m (p + of_nat (length xs)) ys"
  by (induction xs arbitrary: p) (auto simp: add.assoc)

lemma bytes_at_cong:
  "bytes_at m p bs \<Longrightarrow> (\<And>q. q \<in> span p (length bs) \<Longrightarrow> m' q = m q) \<Longrightarrow> bytes_at m' p bs"
  by (induction bs arbitrary: p) (auto simp: span_Suc)

lemma cstr_at_Nil [simp]: "cstr_at m p [] \<longleftrightarrow> m p = Some 0"
  by (simp add: cstr_at_def)

lemma cstr_at_Cons [simp]:
  "cstr_at m p (c # s) \<longleftrightarrow> m p = Some c \<and> c \<noteq> 0 \<and> cstr_at m (p + 1) s"
  by (auto simp: cstr_at_def)

subsection \<open>What the string routines return\<close>

lemma strlen_loop_cstr:
  "cstr_at m p s \<Longrightarrow> strlen_loop m p i = Some (i + of_nat (length s))"
proof (induction s arbitrary: p i)
  case Nil
  then show ?case by (simp add: strlen_loop.simps)
next
  case (Cons c s)
  then show ?case by (simp add: strlen_loop.simps[of m p] add.assoc)
qed

lemma strlen_cstr: "cstr_at m p s \<Longrightarrow> strlen m p = Some (of_nat (length s))"
  by (simp add: strlen_def strlen_loop_cstr)

lemma strnlen_loop_cstr:
  assumes "cstr_at m p s" and "length s + unat i < 4294967296" and "i < n"
  shows "strnlen_loop m p i n = Some (if unat i + length s < unat n then i + of_nat (length s) else n)"
  using assms
proof (induction s arbitrary: p i)
  case Nil
  then show ?case by (simp add: strnlen_loop.simps word_less_nat_alt)
next
  case (Cons c s)
  then have i1: "unat (i + 1) = unat i + 1" by (simp add: unat_plus_nowrap)
  show ?case
  proof (cases "i + 1 \<ge> n")
    case True
    with Cons.prems i1 show ?thesis
      by (auto simp: strnlen_loop.simps[of m p] word_less_nat_alt word_le_nat_alt)
  next
    case False
    with Cons i1 show ?thesis
      by (simp add: strnlen_loop.simps[of m p] word_less_nat_alt word_le_nat_alt add.assoc)
  qed
qed

lemma strnlen_cstr:
  assumes "cstr_at m p s" and "length s < 4294967296" and "0 < n"
  shows "strnlen m p n = Some (if length s < unat n then of_nat (length s) else n)"
  using strnlen_loop_cstr[of m p s 0 n] assms by (simp add: strnlen_def)

fun cstr_diff :: "u8 list \<Rightarrow> u8 list \<Rightarrow> int" where
  "cstr_diff [] [] = 0"
| "cstr_diff [] (d # ds) = - sint d"
| "cstr_diff (c # cs) [] = sint c"
| "cstr_diff (c # cs) (d # ds) = (if c = d then cstr_diff cs ds else sint c - sint d)"

lemma strcmp_cstr:
  "cstr_at m a s \<Longrightarrow> cstr_at m b t \<Longrightarrow> strcmp m a b = Some (cstr_diff s t)"
proof (induction s t arbitrary: a b rule: cstr_diff.induct)
  case 1
  then show ?case by (simp add: strcmp.simps)
next
  case (2 d ds)
  then show ?case by (simp add: strcmp.simps)
next
  case (3 c cs)
  then show ?case by (simp add: strcmp.simps[of m a])
next
  case (4 c cs d ds)
  then show ?case by (simp add: strcmp.simps[of m a])
qed

lemma sint_eqD: "sint (c :: u8) = sint d \<Longrightarrow> c = d"
  by (rule signed_word_eqI)

lemma cstr_diff_0_iff:
  "0 \<notin> set s \<Longrightarrow> 0 \<notin> set t \<Longrightarrow> cstr_diff s t = 0 \<longleftrightarrow> s = t"
  by (induction s t rule: cstr_diff.induct) (auto simp: signed_eq_0_iff dest: sint_eqD)

lemma strcmp_eq_0_iff:
  "cstr_at m a s \<Longrightarrow> cstr_at m b t \<Longrightarrow> strcmp m a b = Some 0 \<longleftrightarrow> s = t"
  by (auto simp: strcmp_cstr cstr_diff_0_iff cstr_at_def)

subsection \<open>What the memory routines do\<close>

text \<open>A region is mapped when every address of it holds a byte.\<close>
definition mapped :: "mem \<Rightarrow> u32 set \<Rightarrow> bool" where
  "mapped m A \<longleftrightarrow> (\<forall>q\<in>A. m q \<noteq> None)"

lemma mapped_insert [simp]: "mapped m (insert q A) \<longleftrightarrow> m q \<noteq> None \<and> mapped m A"
  by (auto simp: mapped_def)

lemma mapped_empty [simp]: "mapped m {}"
  by (simp add: mapped_def)

lemma mapped_upd [simp]: "mapped m A \<Longrightarrow> mapped (m(q \<mapsto> v)) A"
  by (simp add: mapped_def)

lemma bytes_at_mapped: "bytes_at m p bs \<Longrightarrow> mapped m (span p (length bs))"
  by (induction bs arbitrary: p) (auto simp: span_Suc)

text \<open>
  The forward copy is right whenever no source byte is overwritten before it is read:
  disjoint regions, and regions that overlap with the destination below the source.
\<close>
fun fwd_safe :: "u32 \<Rightarrow> u32 \<Rightarrow> nat \<Rightarrow> bool" where
  "fwd_safe d s 0 \<longleftrightarrow> True"
| "fwd_safe d s (Suc n) \<longleftrightarrow> d \<notin> span (s + 1) n \<and> fwd_safe (d + 1) (s + 1) n"

lemma memcpy_loop_copies:
  assumes "bytes_at m s bs" and "mapped m (span d (length bs))" and "fwd_safe d s (length bs)"
    and "length bs \<le> 4294967296"
  shows "\<exists>m'. memcpy_loop m d s (length bs) = Some (m', d + of_nat (length bs))
           \<and> bytes_at m' d bs \<and> (\<forall>q. q \<notin> span d (length bs) \<longrightarrow> m' q = m q)"
  using assms
proof (induction bs arbitrary: m d s)
  case Nil
  then show ?case by simp
next
  case (Cons b bs)
  let ?m = "m(d \<mapsto> b)"
  from Cons.prems have "bytes_at m (s + 1) bs" and d: "d \<notin> span (s + 1) (length bs)"
    and m: "m s = Some b" "mapped m (span (d + 1) (length bs))" "m d \<noteq> None"
    by (auto simp: span_Suc)
  then have "bytes_at ?m (s + 1) bs" by (auto intro: bytes_at_cong)
  then obtain m' where m': "memcpy_loop ?m (d + 1) (s + 1) (length bs)
        = Some (m', d + 1 + of_nat (length bs))" "bytes_at m' (d + 1) bs"
      "\<forall>q. q \<notin> span (d + 1) (length bs) \<longrightarrow> m' q = ?m q"
    using Cons.IH[of ?m "s + 1" "d + 1"] Cons.prems m(2) by (auto simp del: fun_upd_apply)
  from Cons.prems(4) have "d \<notin> span (d + 1) (length bs)" by (intro not_in_own_tail) simp
  with m' m show ?case by (auto simp: mset_def span_Suc add.assoc)
qed

lemma fwd_safe_disjoint: "span d n \<inter> span s n = {} \<Longrightarrow> fwd_safe d s n"
  by (induction n arbitrary: d s) (auto simp: span_Suc)

lemma memset_loop_fills:
  assumes "mapped m (span p n)" and "n \<le> 4294967296"
  shows "\<exists>m'. memset_loop m p c n = Some m' \<and> bytes_at m' p (replicate n c)
           \<and> (\<forall>q. q \<notin> span p n \<longrightarrow> m' q = m q)"
  using assms
proof (induction n arbitrary: m p)
  case 0
  then show ?case by simp
next
  case (Suc n)
  let ?m = "m(p \<mapsto> c)"
  from Suc.prems have m: "mapped ?m (span (p + 1) n)" "m p \<noteq> None" by (auto simp: span_Suc)
  from Suc.prems(2) have "n \<le> 4294967296" by simp
  from Suc.IH[OF m(1) this] obtain m' where m': "memset_loop ?m (p + 1) c n = Some m'"
      "bytes_at m' (p + 1) (replicate n c)" "\<forall>q. q \<notin> span (p + 1) n \<longrightarrow> m' q = ?m q"
    by (auto simp del: fun_upd_apply)
  from Suc.prems(2) have "p \<notin> span (p + 1) n" by (rule not_in_own_tail)
  with m' m show ?case by (auto simp: mset_def span_Suc)
qed

subsection \<open>The properties\<close>

text \<open>strcmp of two C strings always returns, and it returns 0 exactly when the strings are
  equal.\<close>
lemma strcmp_zero_iff:
  assumes "cstr_at m a s" and "cstr_at m b t"
  shows "\<exists>d. strcmp m a b = Some d \<and> (d = 0 \<longleftrightarrow> s = t)"
  using strcmp_cstr[OF assms] strcmp_eq_0_iff[OF assms] by auto

text \<open>Eight bytes of memory: "ab" at 16 and four mapped bytes at 32.\<close>
definition sample_mem :: mem where
  "sample_mem = [16 \<mapsto> 97, 17 \<mapsto> 98, 18 \<mapsto> 0, 32 \<mapsto> 97, 33 \<mapsto> 0, 34 \<mapsto> 7, 35 \<mapsto> 7]"

lemma strcmp_zero_iff_witness:
  "\<exists>d. strcmp sample_mem 16 32 = Some d \<and> (d = 0 \<longleftrightarrow> [97, 98 :: u8] = [97])"
  by (rule strcmp_zero_iff) (simp_all add: sample_mem_def)

text \<open>strcpy onto a mapped region disjoint from the source leaves the source string at the
  destination, NUL included, keeps the source and changes no other byte.\<close>
lemma strcpy_copies:
  assumes "cstr_at m b s" and "length s + 1 < 4294967296" and "mapped m (span a (length s + 1))"
    and "span a (length s + 1) \<inter> span b (length s + 1) = {}"
  shows "\<exists>m'. strcpy m a b = Some m' \<and> cstr_at m' a s \<and> cstr_at m' b s
    \<and> (\<forall>q. q \<notin> span a (length s + 1) \<longrightarrow> m' q = m q)"
proof -
  have n: "unat (of_nat (length s) + 1 :: u32) = length (s @ [0])"
    using unat_of_nat32[of "length s + 1"] assms(2) by (simp add: add.commute)
  let ?t = "s @ [0 :: u8]"
  have fs: "fwd_safe a b (length ?t)" using assms(4) by (intro fwd_safe_disjoint) simp
  have bs: "bytes_at m b ?t" and mp: "mapped m (span a (length ?t))" and le: "length ?t \<le> 4294967296"
    using assms(1-3) by (simp_all add: cstr_at_def)
  obtain m' where m': "memcpy_loop m a b (length (s @ [0 :: u8])) = Some (m', a + of_nat (length (s @ [0 :: u8])))"
      "bytes_at m' a (s @ [0])" "\<forall>q. q \<notin> span a (length (s @ [0 :: u8])) \<longrightarrow> m' q = m q"
    using memcpy_loop_copies[OF bs mp fs le] by blast
  have "bytes_at m' b (s @ [0])"
    using assms(1,4) m'(3) by (intro bytes_at_cong[of m b "s @ [0]" m']) (auto simp: cstr_at_def)
  with m' n assms(1) show ?thesis
    by (auto simp: strcpy_def strlen_cstr memcpy_def cstr_at_def)
qed

lemma strcpy_copies_witness:
  "\<exists>m'. strcpy sample_mem 32 16 = Some m' \<and> cstr_at m' 32 [97, 98] \<and> cstr_at m' 16 [97, 98]
    \<and> (\<forall>q. q \<notin> span 32 (length [97, 98 :: u8] + 1) \<longrightarrow> m' q = sample_mem q)"
  by (rule strcpy_copies) (simp_all add: sample_mem_def span_Suc)

end
