(* ===== verification/CMath.thy ===== *)
theory CMath
  imports Prelude
begin

text \<open>
  \<open>src/src/std/math.c\<close> and \<open>src/src/include/math.h\<close>: integer power by repeated squaring,
  the \<open>min\<close>, \<open>max\<close> and \<open>log2\<close> macros. \<open>__builtin_clz\<close> is the compiler's documented
  count of leading zero bits of an \<open>unsigned int\<close>.
\<close>

definition cmin :: "u32 \<Rightarrow> u32 \<Rightarrow> u32" where
  "cmin a b = (if a > b then b else a)"

definition cmax :: "u32 \<Rightarrow> u32 \<Rightarrow> u32" where
  "cmax a b = (if a < b then b else a)"

text \<open>Leading zeros among the bits below \<open>n\<close>, from the top.\<close>
fun clz_below :: "u32 \<Rightarrow> nat \<Rightarrow> nat" where
  "clz_below x 0 = 0"
| "clz_below x (Suc n) = (if bit x n then 0 else Suc (clz_below x n))"

definition log2 :: "u32 \<Rightarrow> nat" where
  "log2 x = 31 - clz_below (x OR 1) 32"

function ipow_loop :: "u32 \<Rightarrow> u32 \<Rightarrow> u32 \<Rightarrow> u32" where
  "ipow_loop result base exponent =
     (if exponent > 0
      then ipow_loop (if exponent AND 1 \<noteq> 0 then result * base else result)
             (base * base) (drop_bit 1 exponent)
      else result)"
  by pat_completeness auto
termination
  by (relation "measure (\<lambda>(r, b, e). unat e)")
    (auto simp: unat_drop_bit word_less_nat_alt)

declare ipow_loop.simps [simp del]

definition ipow :: "u32 \<Rightarrow> u32 \<Rightarrow> u32" where
  "ipow base exponent = ipow_loop 1 base exponent"

lemma cmin_unat: "unat (cmin a b) = min (unat a) (unat b)"
  by (auto simp: cmin_def word_less_nat_alt)

lemma cmax_unat: "unat (cmax a b) = max (unat a) (unat b)"
  by (auto simp: cmax_def word_less_nat_alt)

lemma and_1_unat: "(e AND 1 \<noteq> 0) \<longleftrightarrow> odd (unat (e :: u32))"
proof -
  have "unat (e AND 1) = unat e mod 2" by (simp add: and_one_eq unat_mod)
  moreover have "e AND 1 \<noteq> 0 \<longleftrightarrow> unat (e AND 1) \<noteq> 0" by (simp add: unat_eq_zero)
  ultimately show ?thesis by (simp add: odd_iff_mod_2_eq_one)
qed

lemma ipow_loop_power: "ipow_loop r b e = r * b ^ unat e"
proof (induction r b e rule: ipow_loop.induct)
  case (1 r b e)
  show ?case
  proof (cases "e > 0")
    case False
    then have "e = 0" by (simp add: word_greater_zero_iff)
    then show ?thesis by (simp add: ipow_loop.simps)
  next
    case True
    let ?h = "unat e div 2"
    have h: "unat (drop_bit 1 e) = ?h" by (simp add: unat_drop_bit)
    have IH: "ipow_loop r b e = (if e AND 1 \<noteq> 0 then r * b else r) * (b * b) ^ ?h"
      using "1.IH"[OF True] True by (subst ipow_loop.simps) (simp only: h if_True)
    have "(b * b) ^ ?h = b ^ (2 * ?h)" by (simp add: power_mult power2_eq_square)
    moreover have "odd (unat e) \<Longrightarrow> b ^ unat e = b * b ^ (2 * ?h)"
      by (metis odd_two_times_div_two_succ power_Suc add.commute plus_1_eq_Suc)
    moreover have "even (unat e) \<Longrightarrow> b ^ unat e = b ^ (2 * ?h)" by simp
    ultimately show ?thesis by (simp add: IH and_1_unat mult.assoc)
  qed
qed

text \<open>ipow computes the power, modulo 2 to the 32.\<close>
lemma ipow_power: "ipow base exponent = base ^ unat exponent"
  by (simp add: ipow_def ipow_loop_power)

end
