(* ===== verification/Pool.thy ===== *)
theory Pool
  imports Prelude
begin

text \<open>
  The contract between the kernel's node allocators and the lists built from their nodes (the
  frame allocator's free lists, the address space allocator's lists, the clock's events):
  \<open>avail q xs\<close> says that the next allocations from state \<open>q\<close> return the addresses \<open>xs\<close>, in that
  order. The early bump allocator and the object caches of the slub allocator provide it.
\<close>

locale object_pool =
  fixes alloc :: "'q \<Rightarrow> (u32 \<times> 'q) option"
    and avail :: "'q \<Rightarrow> u32 list \<Rightarrow> bool"
  assumes alloc_next: "avail q (x # y # xs) \<Longrightarrow> \<exists>q'. alloc q = Some (x, q') \<and> avail q' (y # xs)"
    and avail_distinct: "avail q xs \<Longrightarrow> distinct xs"
    and avail_nonnull: "avail q xs \<Longrightarrow> NULL \<notin> set xs"
begin

fun alloc_n :: "nat \<Rightarrow> 'q \<Rightarrow> (u32 list \<times> 'q) option" where
  "alloc_n 0 q = Some ([], q)"
| "alloc_n (Suc n) q = do { (x, q1) \<leftarrow> alloc q; (xs, q2) \<leftarrow> alloc_n n q1; Some (x # xs, q2) }"

lemma alloc_n_take:
  "avail q xs \<Longrightarrow> n < length xs \<Longrightarrow>
   \<exists>q'. alloc_n n q = Some (take n xs, q') \<and> avail q' (drop n xs)"
proof (induction n arbitrary: q xs)
  case 0
  then show ?case by simp
next
  case (Suc n)
  then obtain x y ys where xs: "xs = x # y # ys"
    by (metis Suc_length_conv Suc_lessE length_Cons less_nat_zero_code neq_Nil_conv list.size(3) not_less_eq)
  with Suc.prems(1) obtain q1 where "alloc q = Some (x, q1)" "avail q1 (y # ys)"
    using alloc_next by blast
  with Suc.IH[of q1 "y # ys"] Suc.prems(2) xs show ?case by auto
qed

text \<open>No address is handed out twice, and none of them is NULL.\<close>
lemma alloc_n_distinct:
  assumes "avail q xs" and "n < length xs"
  shows "\<exists>ps q'. alloc_n n q = Some (ps, q') \<and> length ps = n \<and> distinct ps \<and> NULL \<notin> set ps"
  using alloc_n_take[OF assms] avail_distinct[OF assms(1)] avail_nonnull[OF assms(1)] assms(2)
  by (auto dest: in_set_takeD)

end

end
