(* ===== verification/Early.thy ===== *)
theory Early
  imports Pool
begin

text \<open>
  \<open>src/src/kernel/mem/early.c\<close>: the bump allocator used before the real heap exists. The
  state is the two globals; out of memory is an endless loop in the code, \<open>None\<close> here.
\<close>

record early_state =
  early_memory_base :: u32
  early_memory_end :: u32

definition early_kmalloc_active :: "early_state \<Rightarrow> bool" where
  "early_kmalloc_active s \<longleftrightarrow> early_memory_base s \<noteq> 0"

definition early_kmalloc :: "u32 \<Rightarrow> early_state \<Rightarrow> (u32 \<times> early_state) option" where
  "early_kmalloc n s =
     (if \<not> early_kmalloc_active s then Some (NULL, s)
      else if early_memory_base s + n > early_memory_end s then None
      else Some (early_memory_base s, s\<lparr>early_memory_base := early_memory_base s + n\<rparr>))"

definition early_kmalloc_init :: "u32 \<Rightarrow> u32 \<Rightarrow> early_state \<Rightarrow> early_state" where
  "early_kmalloc_init start n s =
     s\<lparr>early_memory_base := start, early_memory_end := start + n\<rparr>"

definition early_kmalloc_end :: "early_state \<Rightarrow> u32 \<times> early_state" where
  "early_kmalloc_end s =
     (early_memory_base s, s\<lparr>early_memory_base := 0, early_memory_end := 0\<rparr>)"

text \<open>A run of requests, stopping where one of them never returns.\<close>
fun early_run :: "u32 list \<Rightarrow> early_state \<Rightarrow> (u32 list \<times> early_state) option" where
  "early_run [] s = Some ([], s)"
| "early_run (n # ns) s = do {
     (p, s1) \<leftarrow> early_kmalloc n s;
     (ps, s2) \<leftarrow> early_run ns s1;
     Some (p # ps, s2) }"

text \<open>The bytes still available.\<close>
definition early_room :: "early_state \<Rightarrow> nat" where
  "early_room s = unat (early_memory_end s) - unat (early_memory_base s)"

definition early_inv :: "early_state \<Rightarrow> bool" where
  "early_inv s \<longleftrightarrow> early_kmalloc_active s \<and> early_memory_base s \<le> early_memory_end s"

lemma early_kmalloc_fits:
  assumes "early_inv s" and "unat n \<le> early_room s"
  shows "early_kmalloc n s = Some (early_memory_base s, s\<lparr>early_memory_base := early_memory_base s + n\<rparr>)
    \<and> unat (early_memory_base s + n) = unat (early_memory_base s) + unat n"
proof -
  have "unat (early_memory_base s) + unat n \<le> unat (early_memory_end s)"
    using assms by (auto simp: early_inv_def early_room_def word_le_nat_alt)
  then have u: "unat (early_memory_base s + n) = unat (early_memory_base s) + unat n"
    using unat_lt_2p32[of "early_memory_end s"] by (intro unat_plus_nowrap) linarith
  with assms show ?thesis
    by (auto simp: early_kmalloc_def early_inv_def early_room_def word_le_nat_alt word_less_nat_alt)
qed

lemma early_kmalloc_inv [inv_intros]:
  assumes "early_inv s" and "unat n \<le> early_room s" and "early_kmalloc n s = Some (p, s')"
  shows "early_inv s' \<and> early_room s' = early_room s - unat n \<and> p = early_memory_base s
    \<and> early_memory_end s' = early_memory_end s
    \<and> unat (early_memory_base s') = unat (early_memory_base s) + unat n"
proof -
  have "unat (early_memory_base s) \<noteq> 0" "unat (early_memory_base s) \<le> unat (early_memory_end s)"
    using assms(1) by (auto simp: early_inv_def early_kmalloc_active_def word_le_nat_alt unat_eq_zero)
  with early_kmalloc_fits[OF assms(1,2)] assms show ?thesis
    by (auto simp: early_inv_def early_room_def early_kmalloc_active_def word_le_nat_alt
        simp flip: unat_eq_zero)
qed

text \<open>Every block of a run that fits starts where the previous one ended.\<close>
lemma early_run_blocks:
  assumes "early_inv s" and "sum_list (map unat ns) \<le> early_room s"
  shows "\<exists>ps s'. early_run ns s = Some (ps, s') \<and> early_inv s' \<and> length ps = length ns
     \<and> early_memory_end s' = early_memory_end s
     \<and> unat (early_memory_base s') = unat (early_memory_base s) + sum_list (map unat ns)
     \<and> (\<forall>i < length ns. unat (ps ! i) = unat (early_memory_base s) + sum_list (map unat (take i ns)))"
  using assms
proof (induction ns arbitrary: s)
  case Nil
  then show ?case by simp
next
  case (Cons n ns)
  let ?s = "s\<lparr>early_memory_base := early_memory_base s + n\<rparr>"
  from Cons.prems have fit: "unat n \<le> early_room s" by simp
  have k: "early_kmalloc n s = Some (early_memory_base s, ?s)"
    using early_kmalloc_fits[OF Cons.prems(1) fit] by simp
  from early_kmalloc_inv[OF Cons.prems(1) fit k] Cons.prems(2)
  have "early_inv ?s" "sum_list (map unat ns) \<le> early_room ?s"
    and b: "unat (early_memory_base ?s) = unat (early_memory_base s) + unat n" by auto
  from Cons.IH[OF this(1,2)] k b show ?case
    by (auto simp: nth_Cons' take_Cons' split: if_splits)
qed

subsection \<open>As a source of nodes\<close>

text \<open>The next \<open>n\<close>-byte blocks: consecutive, as many as fit.\<close>
definition early_avail :: "u32 \<Rightarrow> early_state \<Rightarrow> u32 list \<Rightarrow> bool" where
  "early_avail n s xs \<longleftrightarrow> early_inv s \<and> 0 < n \<and> length xs * unat n \<le> early_room s
     \<and> (\<forall>i < length xs. xs ! i = early_memory_base s + of_nat i * n)"

lemma early_avail_unat:
  assumes "early_avail n s xs" and "i < length xs"
  shows "unat (xs ! i) = unat (early_memory_base s) + i * unat n"
proof -
  have x: "xs ! i = early_memory_base s + of_nat i * n" and n1: "1 \<le> unat n"
    and room: "length xs * unat n \<le> unat (early_memory_end s) - unat (early_memory_base s)"
    and le: "unat (early_memory_base s) \<le> unat (early_memory_end s)"
    using assms by (auto simp: early_avail_def early_room_def early_inv_def word_le_nat_alt word_less_nat_alt)
  have "i * unat n \<le> length xs * unat n" using assms(2) by simp
  then have lt: "unat (early_memory_base s) + i * unat n \<le> unat (early_memory_end s)"
    using room le by linarith
  have "i * 1 \<le> i * unat n" using n1 by (intro mult_le_mono2)
  then have "unat (of_nat i :: u32) = i"
    using lt by (intro unat_of_nat_below[of _ "early_memory_end s"]) linarith
  moreover have "i * unat n < 4294967296" using lt unat_lt_2p32[of "early_memory_end s"] by linarith
  ultimately have "unat (of_nat i * n) = i * unat n" using unat_times_nowrap[of "of_nat i" n] by simp
  then show ?thesis using x lt unat_add_below[of "early_memory_base s" "of_nat i * n" "early_memory_end s"]
    by simp
qed

lemma early_avail_next:
  assumes "early_avail n s (x # y # xs)"
  shows "\<exists>s'. early_kmalloc n s = Some (x, s') \<and> early_avail n s' (y # xs)"
proof -
  let ?s = "s\<lparr>early_memory_base := early_memory_base s + n\<rparr>"
  have inv: "early_inv s" and n: "0 < n" and room: "length (x # y # xs) * unat n \<le> early_room s"
    and l: "\<And>i. i < length (x # y # xs) \<Longrightarrow> (x # y # xs) ! i = early_memory_base s + of_nat i * n"
    using assms unfolding early_avail_def by blast+
  have fit: "unat n \<le> early_room s" using room by simp
  have k: "early_kmalloc n s = Some (early_memory_base s, ?s)"
    using early_kmalloc_fits[OF inv fit] by simp
  have "x = early_memory_base s" using l[of 0] by simp
  moreover have "(y # xs) ! i = early_memory_base ?s + of_nat i * n" if "i < length (y # xs)" for i
    using l[of "Suc i"] that by (simp add: algebra_simps)
  moreover have "length (y # xs) * unat n \<le> early_room ?s"
    using early_kmalloc_inv[OF inv fit k] room by simp
  ultimately show ?thesis using k early_kmalloc_inv[OF inv fit k] n
    unfolding early_avail_def by blast
qed

interpretation em: object_pool "early_kmalloc n" "early_avail n" for n
proof
  show "\<exists>q'. early_kmalloc n q = Some (x, q') \<and> early_avail n q' (y # xs)"
    if "early_avail n q (x # y # xs)" for q x y xs using that by (rule early_avail_next)
  show "distinct xs" if a: "early_avail n q xs" for q xs
    unfolding distinct_conv_nth
  proof (intro allI impI)
    fix i j assume "i < length xs" "j < length xs" "i \<noteq> j"
    moreover have "0 < unat n" using a by (simp add: early_avail_def word_less_nat_alt)
    ultimately have "unat (xs ! i) \<noteq> unat (xs ! j)" using early_avail_unat[OF a] by simp
    then show "xs ! i \<noteq> xs ! j" by auto
  qed
  show "NULL \<notin> set xs" if a: "early_avail n q xs" for q xs
  proof
    assume "NULL \<in> set xs"
    then obtain i where "i < length xs" "xs ! i = NULL" by (auto simp: in_set_conv_nth)
    with early_avail_unat[OF a, of i] have "unat (early_memory_base q) = 0" by simp
    with a show False by (simp add: early_avail_def early_inv_def early_kmalloc_active_def unat_eq_zero)
  qed
qed

text \<open>The early allocator hands out consecutive blocks: requests that fit between base and end are
  all answered, the i-th block starts exactly where the blocks before it end, and the allocator
  stays within its region.\<close>
lemma early_blocks_consecutive:
  assumes "early_kmalloc_active s" and "early_memory_base s \<le> early_memory_end s"
    and "sum_list (map unat ns) \<le> unat (early_memory_end s) - unat (early_memory_base s)"
  shows "\<exists>ps s'. early_run ns s = Some (ps, s') \<and> length ps = length ns
     \<and> (\<forall>i < length ns. unat (ps ! i) = unat (early_memory_base s) + sum_list (map unat (take i ns)))
     \<and> early_memory_base s' \<le> early_memory_end s'"
  using early_run_blocks[of s ns] assms by (auto simp: early_inv_def early_room_def)

lemma early_blocks_consecutive_witness:
  "\<exists>ps s'. early_run [16, 8, 20] (early_kmalloc_init 0xC0110000 64 \<lparr>early_memory_base = 0, early_memory_end = 0\<rparr>)
      = Some (ps, s') \<and> length ps = length [16, 8, 20 :: u32]
     \<and> (\<forall>i < length [16, 8, 20 :: u32]. unat (ps ! i) = unat (0xC0110000 :: u32)
          + sum_list (map unat (take i [16, 8, 20 :: u32])))
     \<and> early_memory_base s' \<le> early_memory_end s'"
  using early_blocks_consecutive[of "early_kmalloc_init 0xC0110000 64 \<lparr>early_memory_base = 0, early_memory_end = 0\<rparr>"
      "[16, 8, 20]"]
  by (simp add: early_kmalloc_init_def early_kmalloc_active_def)

text \<open>Nothing guards the addition: a request that wraps around is granted and moves the base down.\<close>
lemma early_kmalloc_wraps:
  "early_kmalloc 0xFFFFFFF0 \<lparr>early_memory_base = 0xC0110000, early_memory_end = 0xC0120000\<rparr>
   = Some (0xC0110000, \<lparr>early_memory_base = 0xC010FFF0, early_memory_end = 0xC0120000\<rparr>)"
  by (simp add: early_kmalloc_def early_kmalloc_active_def)

end
