(* ===== verification/Buffer.thy ===== *)
theory Buffer
  imports Prelude
begin

text \<open>
  One C object seen as its bytes: a \<open>u8 list\<close> addressed by offset, with little-endian
  32-bit loads and stores and the block copies that \<open>memcpy\<close> performs inside it
  (\<open>CString\<close> proves them for \<open>memcpy\<close> itself). An access that leaves the object is
  undefined. Used by the pointer list and the packet ring.
\<close>

definition le32 :: "u32 \<Rightarrow> u8 list" where
  "le32 w = [ucast w, ucast (drop_bit 8 w), ucast (drop_bit 16 w), ucast (drop_bit 24 w)]"

fun of_le32 :: "u8 list \<Rightarrow> u32" where
  "of_le32 [a, b, c, d] =
     ucast a OR push_bit 8 (ucast b) OR push_bit 16 (ucast c) OR push_bit 24 (ucast d)"
| "of_le32 _ = 0"

definition bget :: "u8 list \<Rightarrow> nat \<Rightarrow> nat \<Rightarrow> u8 list option" where
  "bget buf off n = (if off + n \<le> length buf then Some (take n (drop off buf)) else None)"

definition bput :: "u8 list \<Rightarrow> nat \<Rightarrow> u8 list \<Rightarrow> u8 list option" where
  "bput buf off bs =
     (if off + length bs \<le> length buf then Some (take off buf @ bs @ drop (off + length bs) buf)
      else None)"

definition load32 :: "u8 list \<Rightarrow> nat \<Rightarrow> u32 option" where
  "load32 buf off = do { bs \<leftarrow> bget buf off 4; Some (of_le32 bs) }"

definition store32 :: "u8 list \<Rightarrow> nat \<Rightarrow> u32 \<Rightarrow> u8 list option" where
  "store32 buf off w = bput buf off (le32 w)"

text \<open>\<open>memcpy(&buf[d], &buf[s], n)\<close> inside one object: one byte at a time, upwards.\<close>
fun bcopy :: "u8 list \<Rightarrow> nat \<Rightarrow> nat \<Rightarrow> nat \<Rightarrow> u8 list option" where
  "bcopy buf d s 0 = Some buf"
| "bcopy buf d s (Suc n) = do {
     c \<leftarrow> aget buf s;
     buf' \<leftarrow> aset buf d c;
     bcopy buf' (Suc d) (Suc s) n }"

lemma length_le32 [simp]: "length (le32 w) = 4"
  by (simp add: le32_def)

lemma of_le32_le32 [simp]: "of_le32 (le32 w) = w"
proof (rule bit_word_eqI)
  fix n assume "n < LENGTH(32)"
  then have n: "n < 32" by simp
  then consider "n < 8" | "8 \<le> n" "n < 16" | "16 \<le> n" "n < 24" | "24 \<le> n" "n < 32" by linarith
  then show "bit (of_le32 (le32 w)) n \<longleftrightarrow> bit w n"
    by cases (auto simp: le32_def bit_simps)
qed

lemma bput_Some_iff: "bput buf off bs = Some b \<longleftrightarrow>
   off + length bs \<le> length buf \<and> b = take off buf @ bs @ drop (off + length bs) buf"
  by (auto simp: bput_def)

lemma bput_length: "bput buf off bs = Some b \<Longrightarrow> length b = length buf"
  by (auto simp: bput_def split: if_splits)

lemma bput_ok [cmem_simps]: "off + length bs \<le> length buf \<Longrightarrow>
   bput buf off bs = Some (take off buf @ bs @ drop (off + length bs) buf)"
  by (simp add: bput_def)

lemma bget_ok [cmem_simps]: "off + n \<le> length buf \<Longrightarrow> bget buf off n = Some (take n (drop off buf))"
  by (simp add: bget_def)

lemma bget_bput_same: "bput buf off bs = Some b \<Longrightarrow> bget b off (length bs) = Some bs"
  by (auto simp: bput_def bget_def split: if_splits)

lemma take_drop_same: "(\<And>i. i < n \<Longrightarrow> off + i < length xs \<Longrightarrow> xs ! (off + i) = ys ! (off + i)) \<Longrightarrow>
  length xs = length ys \<Longrightarrow> take n (drop off xs) = take n (drop off ys)"
  by (rule nth_equalityI) auto

lemma bput_nth:
  assumes "bput buf off bs = Some b" and "i < length buf"
  shows "b ! i = (if off \<le> i \<and> i < off + length bs then bs ! (i - off) else buf ! i)"
proof -
  from assms have "off + length bs \<le> length buf" and b: "b = take off buf @ bs @ drop (off + length bs) buf"
    by (simp_all add: bput_Some_iff)
  then show ?thesis using assms(2) by (auto simp: nth_append min_def)
qed

lemma bget_bput_other:
  assumes "bput buf off bs = Some b" and "p + n \<le> off \<or> off + length bs \<le> p"
  shows "bget b p n = bget buf p n"
proof -
  have len: "length b = length buf" using assms(1) by (rule bput_length)
  show ?thesis
  proof (cases "p + n \<le> length buf")
    case False
    then show ?thesis by (simp add: bget_def len)
  next
    case True
    have "take n (drop p b) = take n (drop p buf)"
    proof (rule take_drop_same)
      fix i assume "i < n" "p + i < length b"
      with assms(2) show "b ! (p + i) = buf ! (p + i)"
        using bput_nth[OF assms(1), of "p + i"] len by auto
    qed (rule len)
    with True show ?thesis by (simp add: bget_def len)
  qed
qed

lemma store32_length: "store32 buf off w = Some b \<Longrightarrow> length b = length buf"
  by (simp add: store32_def bput_length)

lemma store32_ok: "off + 4 \<le> length buf \<Longrightarrow> \<exists>b. store32 buf off w = Some b"
  by (simp add: store32_def bput_def)

lemma load32_store32_same [cmem_simps]: "store32 buf off w = Some b \<Longrightarrow> load32 b off = Some w"
  using bget_bput_same[of buf off "le32 w" b] by (simp add: store32_def load32_def)

lemma load32_store32_other:
  assumes "store32 buf off w = Some b" and "p + 4 \<le> off \<or> off + 4 \<le> p"
  shows "load32 b p = load32 buf p"
  using bget_bput_other[of buf off "le32 w" b p 4] assms by (simp add: store32_def load32_def)

lemma bcopy_length: "bcopy buf d s n = Some b \<Longrightarrow> length b = length buf"
  by (induction buf d s n rule: bcopy.induct) (auto simp: aset_def split: bind_splits if_splits)

text \<open>Copying downwards moves the block, overlapping or not.\<close>
lemma bcopy_down:
  assumes "d \<le> s" and "s + n \<le> length buf"
  shows "\<exists>b. bcopy buf d s n = Some b \<and> length b = length buf \<and>
    (\<forall>i < length buf. b ! i = (if d \<le> i \<and> i < d + n then buf ! (i - d + s) else buf ! i))"
  using assms
proof (induction n arbitrary: buf d s)
  case 0
  then show ?case by auto
next
  case (Suc n)
  let ?b = "buf[d := buf ! s]"
  from Suc.prems have "Suc d \<le> Suc s" "Suc s + n \<le> length ?b" by auto
  from Suc.IH[OF this] obtain b where b: "bcopy ?b (Suc d) (Suc s) n = Some b"
    "length b = length buf" "\<forall>i < length buf. b ! i =
       (if Suc d \<le> i \<and> i < Suc d + n then ?b ! (i - Suc d + Suc s) else ?b ! i)" by auto
  have "b ! i = (if d \<le> i \<and> i < d + Suc n then buf ! (i - d + s) else buf ! i)"
    if i: "i < length buf" for i
  proof (cases "Suc d \<le> i \<and> i < Suc d + n")
    case True
    then have "i - Suc d + Suc s = i - d + s" "i - d + s \<noteq> d" using Suc.prems by auto
    with True b i show ?thesis by auto
  next
    case False
    then have "b ! i = ?b ! i" using b i by auto
    with False i show ?thesis by (cases "i = d") auto
  qed
  with b Suc.prems show ?case by (auto simp: aget_def aset_def)
qed

text \<open>The lowest byte of a stored word.\<close>
lemma of_le32_parts:
  shows "of_le32 [a, b, c, d] AND 0xFF = ucast a"
    and "of_le32 [e, b, c, d] = (of_le32 [a, b, c, d] AND NOT 0xFF) OR ucast e"
proof -
  have mb: "bit (0xFF :: u32) n \<longleftrightarrow> n < 8" for n
    using bit_mask_iff[of 8 n, where 'a="32 word"] by (auto simp: mask_eq_exp_minus_1)
  have mi: "bit (255 :: int) n \<longleftrightarrow> n < 8" for n
    using bit_mask_iff[of 8 n, where 'a=int] by (auto simp: mask_eq_exp_minus_1)
  have hi: "8 \<le> n \<Longrightarrow> \<not> bit (x :: u8) n" for x n using bit_imp_le_length[of x n] by auto
  have lt: "bit (x :: u8) n \<Longrightarrow> n < 8" for x n using bit_imp_le_length[of x n] by auto
  show "of_le32 [a, b, c, d] AND 0xFF = ucast a"
    by (rule bit_word_eqI) (auto simp: bit_simps mb mi hi dest: lt)
  show "of_le32 [e, b, c, d] = (of_le32 [a, b, c, d] AND NOT 0xFF) OR ucast e"
    by (rule bit_word_eqI) (auto simp: bit_simps mb mi hi dest: lt)
qed

lemma load32_bytes: "off + 4 \<le> length buf \<Longrightarrow>
   load32 buf off = Some (of_le32 [buf ! off, buf ! (off + 1), buf ! (off + 2), buf ! (off + 3)])"
proof -
  assume a: "off + 4 \<le> length buf"
  then have "take 4 (drop off buf) = [buf ! off, buf ! (off + 1), buf ! (off + 2), buf ! (off + 3)]"
    by (intro nth_equalityI) (auto simp: nth_Cons' eval_nat_numeral less_Suc_eq)
  with a show ?thesis by (simp add: load32_def bget_def)
qed

end
