(* ===== verification/Ring.thy ===== *)
theory Ring
  imports Buffer Layout
begin

text \<open>
  \<open>src/src/kernel/net/net_buf.c\<close>: the packet ring between a network driver and its reader.
  \<open>ring_t\<close> is a record; \<open>rg_data\<close> holds the bytes of the block that \<open>base\<close> points to, so a
  copy that leaves the block is \<open>None\<close>. \<open>kmalloc\<close> and \<open>kfree\<close> are arguments. The locale
  \<open>bounded_fifo\<close> is the contract a reader relies on; the ring provides it between two
  wrap-arounds.
\<close>

subsection \<open>The contract of a bounded packet queue\<close>

text \<open>
  \<open>holds q xs\<close>: the queue is well formed and holds \<open>xs\<close>, oldest first. \<open>space\<close> is the room
  that is certainly left and \<open>cost\<close> what one element takes.
\<close>

locale bounded_fifo =
  fixes enq :: "'a \<Rightarrow> 'q \<Rightarrow> 'q option"
    and deq :: "'n \<Rightarrow> 'q \<Rightarrow> ('a \<times> 'q) option"
    and size_of :: "'a \<Rightarrow> 'n"
    and valid :: "'a \<Rightarrow> bool"
    and cost :: "'a \<Rightarrow> nat"
    and space :: "'q \<Rightarrow> nat"
    and holds :: "'q \<Rightarrow> 'a list \<Rightarrow> bool"
  assumes enq_holds: "holds q xs \<Longrightarrow> valid a \<Longrightarrow> cost a \<le> space q \<Longrightarrow>
      \<exists>q'. enq a q = Some q' \<and> holds q' (xs @ [a]) \<and> space q' + cost a = space q"
    and deq_holds: "holds q (a # xs) \<Longrightarrow>
      \<exists>q'. deq (size_of a) q = Some (a, q') \<and> holds q' xs \<and> space q' = space q"
begin

fun enq_all :: "'a list \<Rightarrow> 'q \<Rightarrow> 'q option" where
  "enq_all [] q = Some q"
| "enq_all (a # as) q = do { q' \<leftarrow> enq a q; enq_all as q' }"

fun deq_all :: "'n list \<Rightarrow> 'q \<Rightarrow> ('a list \<times> 'q) option" where
  "deq_all [] q = Some ([], q)"
| "deq_all (n # ns) q = do { (a, q1) \<leftarrow> deq n q; (as, q2) \<leftarrow> deq_all ns q1; Some (a # as, q2) }"

lemma enq_all_holds:
  "holds q xs \<Longrightarrow> (\<forall>a\<in>set as. valid a) \<Longrightarrow> sum_list (map cost as) \<le> space q \<Longrightarrow>
   \<exists>q'. enq_all as q = Some q' \<and> holds q' (xs @ as)"
proof (induction as arbitrary: q xs)
  case Nil
  then show ?case by simp
next
  case (Cons a as)
  then obtain q1 where q1: "enq a q = Some q1" "holds q1 (xs @ [a])" "space q1 + cost a = space q"
    using enq_holds[of q xs a] by auto
  with Cons.prems have "sum_list (map cost as) \<le> space q1" by simp
  with Cons.IH[OF q1(2)] Cons.prems(2) q1(1) show ?case by auto
qed

lemma deq_all_holds:
  "holds q xs \<Longrightarrow> \<exists>q'. deq_all (map size_of xs) q = Some (xs, q') \<and> holds q' []"
proof (induction xs arbitrary: q)
  case Nil
  then show ?case by auto
next
  case (Cons a xs)
  then obtain q1 where "deq (size_of a) q = Some (a, q1)" "holds q1 xs"
    using deq_holds by blast
  with Cons.IH show ?case by fastforce
qed

text \<open>Packets come out in the order and with the contents they went in.\<close>
lemma fifo:
  assumes "holds q []" and "\<forall>a\<in>set as. valid a" and "sum_list (map cost as) \<le> space q"
  shows "\<exists>q1 q2. enq_all as q = Some q1 \<and> deq_all (map size_of as) q1 = Some (as, q2) \<and> holds q2 []"
  using enq_all_holds[OF assms] deq_all_holds by fastforce

end

subsection \<open>The ring\<close>

record ring =
  rg_base :: u32
  rg_len :: u32
  read_index :: u32
  write_index :: u32
  rg_data :: "u8 list"

definition ring_free :: "(u32 \<Rightarrow> 's \<Rightarrow> 's) \<Rightarrow> u32 \<Rightarrow> u32 \<Rightarrow> 's \<Rightarrow> 's" where
  "ring_free kfree ring base s =
     kfree ring (if base \<noteq> NULL then kfree base s else s)"

text \<open>The result is the new ring, \<open>None\<close> for NULL. The zeros are those of \<open>memset((void* ) ring->base, 0, size)\<close>.\<close>
definition ring_init ::
  "(u32 \<Rightarrow> 's \<Rightarrow> u32 \<times> 's) \<Rightarrow> (u32 \<Rightarrow> 's \<Rightarrow> 's) \<Rightarrow> u32 \<Rightarrow> 's \<Rightarrow> ring option \<times> 's" where
  "ring_init kmalloc kfree n s =
     (let (ring, s1) = kmalloc (sizeof ring_layout) s in
      if ring = NULL then (None, s1)
      else let (base, s2) = kmalloc n s1 in
        if base = NULL then (None, ring_free kfree ring base s2)
        else (Some \<lparr>rg_base = base, rg_len = n, read_index = 0, write_index = 0,
                rg_data = replicate (unat n) 0\<rparr>, s2))"

definition ring_writable_size :: "ring \<Rightarrow> u32" where
  "ring_writable_size r =
     (if read_index r < write_index r then (rg_len r - write_index r) + (read_index r - 1)
      else if write_index r < read_index r then read_index r - write_index r - 1
      else rg_len r)"

definition ring_write :: "ring \<Rightarrow> u8 list \<Rightarrow> u32 \<Rightarrow> (u32 \<times> ring) option" where
  "ring_write r packet len =
     (if len = 0 then Some (0, r)
      else if len mod 4 \<noteq> 0 then Some (0, r)
      else let write_size = len + 4 in
      if write_size > rg_len r then Some (0, r)
      else if write_size > ring_writable_size r then Some (0, r)
      else if rg_len r = 0 then None
      else do {
        data1 \<leftarrow> store32 (rg_data r) (unat (write_index r)) len;
        let write_ptr = unat (write_index r) + 4;
        let wi = (write_index r + 4) mod rg_len r;
        if wi < read_index r then do {
          let end_len = rg_len r - wi;
          let start_len = len - end_len;
          src1 \<leftarrow> bget packet 0 (unat end_len);
          data2 \<leftarrow> bput data1 write_ptr src1;
          src2 \<leftarrow> bget packet (unat end_len) (unat start_len);
          data3 \<leftarrow> bput data2 0 src2;
          Some (1, r\<lparr>write_index := start_len, rg_data := data3\<rparr>) }
        else do {
          src \<leftarrow> bget packet 0 (unat len);
          data2 \<leftarrow> bput data1 write_ptr src;
          Some (1, r\<lparr>write_index := (wi + len) mod rg_len r, rg_data := data2\<rparr>) } })"

definition ring_next_size :: "ring \<Rightarrow> u32 option" where
  "ring_next_size r =
     (if read_index r = write_index r then Some 0 else load32 (rg_data r) (unat (read_index r)))"

text \<open>The second component is the caller's buffer afterwards.\<close>
definition ring_read :: "ring \<Rightarrow> u8 list \<Rightarrow> u32 \<Rightarrow> (u32 \<times> u8 list \<times> ring) option" where
  "ring_read r buff len = do {
     next_size \<leftarrow> ring_next_size r;
     if next_size = 0 then Some (0, buff, r)
     else if len < next_size then Some (0, buff, r)
     else if rg_len r = 0 then None
     else do {
       let ri = (read_index r + 4) mod rg_len r;
       if ri + next_size > rg_len r then do {
         let end_len = rg_len r - next_size;
         let start_len = len - end_len;
         src1 \<leftarrow> bget (rg_data r) (unat ri) (unat end_len);
         buff1 \<leftarrow> bput buff 0 src1;
         src2 \<leftarrow> bget (rg_data r) 0 (unat start_len);
         buff2 \<leftarrow> bput buff1 0 src2;
         Some (next_size, buff2, r\<lparr>read_index := start_len\<rparr>) }
       else do {
         src \<leftarrow> bget (rg_data r) (unat ri) (unat len);
         buff1 \<leftarrow> bput buff 0 src;
         Some (next_size, buff1, r\<lparr>read_index := (ri + len) mod rg_len r\<rparr>) } } }"

subsection \<open>The packets between the two indices\<close>

text \<open>From offset \<open>r\<close> to offset \<open>w\<close> lie exactly the packets \<open>ps\<close>, each behind its length.\<close>
fun packets_at :: "u8 list \<Rightarrow> nat \<Rightarrow> u8 list list \<Rightarrow> nat \<Rightarrow> bool" where
  "packets_at d r [] w \<longleftrightarrow> r = w"
| "packets_at d r (p # ps) w \<longleftrightarrow>
     load32 d r = Some (of_nat (length p)) \<and> bget d (r + 4) (length p) = Some p
     \<and> p \<noteq> [] \<and> length p < 4294967296 \<and> packets_at d (r + 4 + length p) ps w"

definition ring_wf :: "ring \<Rightarrow> bool" where
  "ring_wf r \<longleftrightarrow> unat (rg_len r) = length (rg_data r)
     \<and> unat (read_index r) \<le> unat (write_index r) \<and> unat (write_index r) < unat (rg_len r)"

definition ring_holds :: "ring \<Rightarrow> u8 list list \<Rightarrow> bool" where
  "ring_holds r ps \<longleftrightarrow>
     ring_wf r \<and> packets_at (rg_data r) (unat (read_index r)) ps (unat (write_index r))"

definition ring_space :: "ring \<Rightarrow> nat" where
  "ring_space r = unat (rg_len r) - 1 - unat (write_index r)"

definition packet_ok :: "u8 list \<Rightarrow> bool" where
  "packet_ok p \<longleftrightarrow> p \<noteq> [] \<and> length p mod 4 = 0"

definition packet_cost :: "u8 list \<Rightarrow> nat" where
  "packet_cost p = length p + 4"

text \<open>Writing a whole packet, and reading one with a buffer of \<open>n\<close> bytes.\<close>
definition ring_enq :: "u8 list \<Rightarrow> ring \<Rightarrow> ring option" where
  "ring_enq p r = do {
     (ok, r') \<leftarrow> ring_write r p (of_nat (length p));
     if ok = 1 then Some r' else None }"

definition ring_deq :: "nat \<Rightarrow> ring \<Rightarrow> (u8 list \<times> ring) option" where
  "ring_deq n r = do {
     (got, buff, r') \<leftarrow> ring_read r (replicate n 0) (of_nat n);
     if got = 0 then None else Some (buff, r') }"

lemma packets_at_le: "packets_at d r ps w \<Longrightarrow> r \<le> w"
  by (induction d r ps w rule: packets_at.induct) auto

lemma packets_at_append:
  "packets_at d r (ps @ qs) w \<longleftrightarrow> (\<exists>v. packets_at d r ps v \<and> packets_at d v qs w)"
  by (induction ps arbitrary: r) auto

lemma bget_below:
  assumes "take w d' = take w d" and "length d' = length d" and "off + n \<le> w"
  shows "bget d' off n = bget d off n"
proof -
  have "take n (drop off d') = take n (drop off (take w d'))" using assms(3) by (simp add: drop_take)
  also have "\<dots> = take n (drop off d)" using assms(1,3) by (simp add: drop_take)
  finally show ?thesis using assms(2) by (simp add: bget_def)
qed

lemma packets_at_frame:
  "packets_at d r ps w \<Longrightarrow> take w d' = take w d \<Longrightarrow> length d' = length d \<Longrightarrow> packets_at d' r ps w"
proof (induction ps arbitrary: r)
  case Nil
  then show ?case by simp
next
  case (Cons p ps)
  then have "r + 4 + length p \<le> w" by (auto dest: packets_at_le)
  then have "r + 4 \<le> w" "(r + 4) + length p \<le> w" by simp_all
  then have "bget d' r 4 = bget d r 4" "bget d' (r + 4) (length p) = bget d (r + 4) (length p)"
    using bget_below[OF Cons.prems(2,3)] by blast+
  with Cons show ?case by (auto simp: load32_def)
qed

lemma bput_take: "bput d off bs = Some d' \<Longrightarrow> w \<le> off \<Longrightarrow> take w d' = take w d"
  by (auto simp: bput_Some_iff min_def)

subsection \<open>Writing and reading without wrap-around\<close>

text \<open>The straight path of \<open>ring_write\<close>: the checks pass and the packet is copied in.\<close>
lemma ring_write_straight:
  assumes wf: "ring_wf r" and p: "packet_ok p" and fit: "packet_cost p \<le> ring_space r"
  shows "\<exists>d1 d2. store32 (rg_data r) (unat (write_index r)) (of_nat (length p)) = Some d1
    \<and> bput d1 (unat (write_index r) + 4) p = Some d2
    \<and> ring_write r p (of_nat (length p)) = Some (1, r\<lparr>
        write_index := write_index r + 4 + of_nat (length p), rg_data := d2\<rparr>)
    \<and> unat (write_index r + 4 + of_nat (length p)) = unat (write_index r) + packet_cost p"
proof -
  let ?n = "of_nat (length p) :: u32" and ?L = "unat (rg_len r)" and ?w = "unat (write_index r)"
  have L: "?L = length (rg_data r)" and rw: "unat (read_index r) \<le> ?w" and wL: "?w < ?L"
    using wf by (auto simp: ring_wf_def)
  have fit': "?w + 4 + length p < ?L" using fit wL by (simp add: packet_cost_def ring_space_def)
  have un: "unat ?n = length p" using fit' by (intro unat_of_nat_below[of _ "rg_len r"]) simp
  have w4: "unat (write_index r + 4) = ?w + 4"
    using unat_add_below[of "write_index r" 4 "rg_len r"] fit' by simp
  have wn: "unat (write_index r + 4 + ?n) = ?w + 4 + length p"
    using unat_add_below[of "write_index r + 4" ?n "rg_len r"] fit' un w4 by simp
  have nz: "?n \<noteq> 0" using p un by (auto simp: packet_ok_def simp flip: unat_eq_zero)
  have m4: "?n mod 4 = 0" using p un by (simp add: packet_ok_def unat_mod flip: unat_eq_zero)
  have n4: "unat (?n + 4) = length p + 4"
    using unat_add_below[of ?n 4 "rg_len r"] fit' un by simp
  have c1: "\<not> ?n + 4 > rg_len r" using n4 fit' by (simp add: word_less_nat_alt)
  have c2: "\<not> ?n + 4 > ring_writable_size r"
  proof (cases "read_index r < write_index r")
    case True
    have d: "unat (rg_len r - write_index r) = ?L - ?w" using wL by (intro unat_diff_le) simp
    have d1: "unat (rg_len r - write_index r - 1) = ?L - ?w - 1"
      using unat_diff_le[of 1 "rg_len r - write_index r"] d wL by simp
    have "ring_writable_size r = rg_len r - write_index r - 1 + read_index r"
      using True by (simp add: ring_writable_size_def)
    then have "unat (ring_writable_size r) = ?L - ?w - 1 + unat (read_index r)"
      using True unat_add_below[of "rg_len r - write_index r - 1" "read_index r" "rg_len r"] d1 rw wL
      by simp
    then show ?thesis using n4 fit' by (simp add: word_less_nat_alt)
  next
    case False
    with rw have "ring_writable_size r = rg_len r"
      by (simp add: ring_writable_size_def word_less_nat_alt)
    then show ?thesis using c1 by simp
  qed
  have mod1: "(write_index r + 4) mod rg_len r = write_index r + 4"
    using w4 fit' by (intro mod_less_word) simp
  have mod2: "(write_index r + 4 + ?n) mod rg_len r = write_index r + 4 + ?n"
    using wn fit' by (intro mod_less_word) simp
  have nw: "\<not> write_index r + 4 < read_index r" using w4 rw by (simp add: word_less_nat_alt)
  obtain d1 where d1: "store32 (rg_data r) ?w ?n = Some d1" using store32_ok[of ?w "rg_data r"] fit' L by auto
  then have l1: "length d1 = length (rg_data r)" by (rule store32_length)
  obtain d2 where d2: "bput d1 (?w + 4) p = Some d2" using fit' L l1 by (auto simp: bput_def)
  have src: "bget p 0 (length p) = Some p" by (simp add: bget_def)
  have "rg_len r \<noteq> 0" using wL by auto
  then show ?thesis
    using d1 d2 src c1 c2 mod1 mod2 nw nz m4 wn un
    by (simp add: ring_write_def Let_def packet_cost_def)
qed

lemma ring_enq_holds:
  assumes h: "ring_holds r ps" and p: "packet_ok p" and fit: "packet_cost p \<le> ring_space r"
  shows "\<exists>r'. ring_enq p r = Some r' \<and> ring_holds r' (ps @ [p]) \<and> ring_space r' + packet_cost p = ring_space r"
proof -
  let ?n = "of_nat (length p) :: u32" and ?w = "unat (write_index r)"
  from h have wf: "ring_wf r" and pk: "packets_at (rg_data r) (unat (read_index r)) ps ?w"
    by (auto simp: ring_holds_def)
  from ring_write_straight[OF wf p fit] obtain d1 d2
    where d1: "store32 (rg_data r) ?w ?n = Some d1" and d2: "bput d1 (?w + 4) p = Some d2"
      and res: "ring_write r p ?n = Some (1, r\<lparr>write_index := write_index r + 4 + ?n, rg_data := d2\<rparr>)"
      and w': "unat (write_index r + 4 + ?n) = ?w + packet_cost p" by auto
  from d1 have d1': "bput (rg_data r) ?w (le32 ?n) = Some d1" by (simp add: store32_def)
  have len: "length d2 = length (rg_data r)" using bput_length[OF d2] bput_length[OF d1'] by simp
  have tk: "take ?w d2 = take ?w (rg_data r)"
    using bput_take[OF d2, of ?w] bput_take[OF d1', of ?w] by simp
  have "load32 d2 ?w = load32 d1 ?w" using bget_bput_other[OF d2, of ?w 4] by (simp add: load32_def)
  then have ld: "load32 d2 ?w = Some ?n" using load32_store32_same[OF d1] by simp
  have "bget d2 (?w + 4) (length p) = Some p" using d2 by (rule bget_bput_same)
  moreover have "length p < 4294967296"
    using fit unat_lt_2p32[of "rg_len r"] unfolding packet_cost_def ring_space_def by linarith
  ultimately have "packets_at d2 ?w [p] (?w + packet_cost p)"
    using ld p by (simp add: packet_ok_def packet_cost_def)
  then have "packets_at d2 (unat (read_index r)) (ps @ [p]) (?w + packet_cost p)"
    using packets_at_frame[OF pk tk len] by (auto simp: packets_at_append)
  then show ?thesis using res wf w' len fit
    by (auto simp: ring_enq_def ring_holds_def ring_wf_def ring_space_def)
qed

lemma ring_read_straight:
  assumes wf: "ring_wf r" and pk: "packets_at (rg_data r) (unat (read_index r)) (p # ps) (unat (write_index r))"
  shows "ring_read r buff (of_nat (length p)) = do {
      buff' \<leftarrow> bput buff 0 p;
      Some (of_nat (length p), buff', r\<lparr>read_index := read_index r + 4 + of_nat (length p)\<rparr>) }
    \<and> unat (read_index r + 4 + of_nat (length p)) = unat (read_index r) + 4 + length p"
proof -
  let ?n = "of_nat (length p) :: u32" and ?r = "unat (read_index r)"
  from pk have le: "?r + 4 + length p \<le> unat (write_index r)" by (auto dest: packets_at_le)
  with wf have lt: "?r + 4 + length p < unat (rg_len r)" by (auto simp: ring_wf_def)
  have un: "unat ?n = length p" using lt by (intro unat_of_nat_below[of _ "rg_len r"]) simp
  have r4: "unat (read_index r + 4) = ?r + 4"
    using unat_add_below[of "read_index r" 4 "rg_len r"] lt by simp
  have rn: "unat (read_index r + 4 + ?n) = ?r + 4 + length p"
    using unat_add_below[of "read_index r + 4" ?n "rg_len r"] lt un r4 by simp
  have m: "(read_index r + 4) mod rg_len r = read_index r + 4"
    "(read_index r + 4 + ?n) mod rg_len r = read_index r + 4 + ?n"
    using r4 rn lt by (auto intro!: mod_less_word)
  have ne: "read_index r \<noteq> write_index r" using le by auto
  have nz: "?n \<noteq> 0" using pk un by (auto simp flip: unat_eq_zero)
  have nf: "\<not> read_index r + 4 + ?n > rg_len r" using rn lt by (simp add: word_less_nat_alt)
  have "rg_len r \<noteq> 0" using lt by auto
  then show ?thesis using pk m ne nz nf un r4 rn
    by (simp add: ring_read_def ring_next_size_def Let_def)
qed

lemma ring_deq_holds:
  assumes h: "ring_holds r (p # ps)"
  shows "\<exists>r'. ring_deq (length p) r = Some (p, r') \<and> ring_holds r' ps \<and> ring_space r' = ring_space r"
proof -
  from h have wf: "ring_wf r"
    and pk: "packets_at (rg_data r) (unat (read_index r)) (p # ps) (unat (write_index r))"
    by (auto simp: ring_holds_def)
  note rd = ring_read_straight[OF wf pk, of "replicate (length p) 0"]
  have "bput (replicate (length p) 0) 0 p = Some p" by (simp add: bput_def)
  moreover from pk have "(of_nat (length p) :: u32) \<noteq> 0"
    using unat_of_nat32[of "length p"] by (auto simp flip: unat_eq_zero)
  ultimately show ?thesis using rd wf pk
    by (auto simp: ring_deq_def ring_holds_def ring_wf_def ring_space_def dest: packets_at_le)
qed

interpretation rq: bounded_fifo ring_enq ring_deq length packet_ok packet_cost ring_space ring_holds
  by unfold_locales (auto intro: ring_enq_holds ring_deq_holds)

text \<open>A ring as \<open>ring_init\<close> leaves it is empty, with all but one byte of room.\<close>
lemma ring_init_holds:
  assumes "ring_init kmalloc kfree n s = (Some r, s')" and "0 < n"
  shows "ring_holds r [] \<and> ring_space r = unat n - 1"
proof -
  from assms(1) obtain base where "r = \<lparr>rg_base = base, rg_len = n, read_index = 0, write_index = 0,
      rg_data = replicate (unat n) 0\<rparr>"
    by (auto simp: ring_init_def Let_def split: prod.splits if_splits)
  with assms(2) show ?thesis
    by (simp add: ring_holds_def ring_wf_def ring_space_def word_less_nat_alt)
qed

fun ring_write_all :: "u8 list list \<Rightarrow> ring \<Rightarrow> ring option" where
  "ring_write_all [] r = Some r"
| "ring_write_all (p # ps) r = do { r' \<leftarrow> ring_enq p r; ring_write_all ps r' }"

fun ring_read_all :: "nat list \<Rightarrow> ring \<Rightarrow> (u8 list list \<times> ring) option" where
  "ring_read_all [] r = Some ([], r)"
| "ring_read_all (n # ns) r = do {
     (p, r1) \<leftarrow> ring_deq n r; (ps, r2) \<leftarrow> ring_read_all ns r1; Some (p # ps, r2) }"

lemma ring_all_eqs: "rq.enq_all ps = ring_write_all ps" "rq.deq_all ns = ring_read_all ns"
proof -
  show "rq.enq_all ps = ring_write_all ps" by (induction ps; rule ext; simp)
  show "rq.deq_all ns = ring_read_all ns" by (induction ns; rule ext; simp)
qed

text \<open>C26: The ring is a first-in first-out queue of packets: on a ring as ring_init returns it, any
  sequence of packets (non-empty, of a multiple of four bytes) whose sizes with their length words fit
  in front of the end of the buffer is accepted, and reading with buffers of the packets' sizes
  returns exactly those packets in that order.\<close>
theorem ring_fifo:
  assumes "ring_init kmalloc kfree n s = (Some r, s')" and "0 < n"
    and "\<forall>p\<in>set ps. p \<noteq> [] \<and> length p mod 4 = 0"
    and "(\<Sum>p\<leftarrow>ps. length p + 4) < unat n"
  shows "\<exists>r1 r2. ring_write_all ps r = Some r1 \<and> ring_read_all (map length ps) r1 = Some (ps, r2)
           \<and> ring_next_size r2 = Some 0"
proof -
  have "ring_holds r []" and "(\<Sum>p\<leftarrow>ps. packet_cost p) \<le> ring_space r"
    using ring_init_holds[OF assms(1,2)] assms(4) by (auto simp: packet_cost_def)
  moreover have "\<forall>p\<in>set ps. packet_ok p" using assms(3) by (simp add: packet_ok_def)
  ultimately obtain r1 r2 where "ring_write_all ps r = Some r1"
    "ring_read_all (map length ps) r1 = Some (ps, r2)" "ring_holds r2 []"
    using rq.fifo[of r ps] by (auto simp: ring_all_eqs)
  then show ?thesis by (auto simp: ring_holds_def ring_next_size_def word_unat_eq_iff)
qed

theorem ring_fifo_witness:
  "\<exists>r1 r2. ring_write_all [[1,2,3,4], [5,6,7,8,9,10,11,12]]
      \<lparr>rg_base = 64, rg_len = 24, read_index = 0, write_index = 0, rg_data = replicate 24 0\<rparr> = Some r1
    \<and> ring_read_all (map length [[1,2,3,4], [5,6,7,8,9,10,11,12::u8]]) r1
        = Some ([[1,2,3,4], [5,6,7,8,9,10,11,12]], r2) \<and> ring_next_size r2 = Some 0"
  by (rule ring_fifo[where kmalloc = "\<lambda>n s. (64, s)" and kfree = "\<lambda>p s. s" and n = 24 and s = "()"
      and s' = "()"]) (simp_all add: ring_init_def)

subsection \<open>Where the ring refuses, and where it leaves its block\<close>

text \<open>Requests that ring_write turns down (length zero, length not a multiple of four, packet
  with its length word larger than the whole ring) return 0 and leave the ring unchanged.\<close>
lemma ring_write_rejects:
  assumes "len = 0 \<or> len mod 4 \<noteq> 0 \<or> rg_len r < len + 4"
  shows "ring_write r packet len = Some (0, r)"
  using assms by (auto simp: ring_write_def Let_def)

lemma ring_write_rejects_witness:
  "ring_write \<lparr>rg_base = 64, rg_len = 8, read_index = 0, write_index = 0, rg_data = replicate 8 0\<rparr>
     [1,2,3,4,5,6] 6
   = Some (0, \<lparr>rg_base = 64, rg_len = 8, read_index = 0, write_index = 0, rg_data = replicate 8 0\<rparr>)"
  by (rule ring_write_rejects) simp

text \<open>ring_write never wraps a packet around the end of the buffer: when the write index is not
  behind the read index and the packet with its length word does not fit before the end, the request
  is turned down or the copy leaves the ring's block (or the caller's packet).\<close>
lemma ring_write_never_wraps:
  assumes "unat (rg_len r) = length (rg_data r)" and "unat (read_index r) \<le> unat (write_index r)"
    and "unat (rg_len r) < unat (write_index r) + 4 + length p" and "length p < 4294967292"
  shows "ring_write r p (of_nat (length p)) \<in> {Some (0, r), None}"
proof -
  let ?n = "of_nat (length p) :: u32" and ?w = "unat (write_index r)" and ?L = "unat (rg_len r)"
  have un: "unat ?n = length p" using assms(4) by (intro unat_of_nat32) simp
  have n4: "unat (?n + 4) = length p + 4" using assms(4) un by simp
  consider "?n = 0 \<or> ?n mod 4 \<noteq> 0 \<or> ?n + 4 > rg_len r" | "?L < ?w + 4" | "?w + 4 = ?L" "?n \<noteq> 0" "?n + 4 \<le> rg_len r"
    | "?w + 4 < ?L" "?n \<noteq> 0" by (metis nat_neq_iff not_le)
  then show ?thesis
  proof cases
    case 1
    then show ?thesis by (auto simp: ring_write_def Let_def)
  next
    case 2
    then have "store32 (rg_data r) ?w ?n = None" using assms(1) by (simp add: store32_def bput_def)
    then show ?thesis by (simp add: ring_write_def Let_def)
  next
    case 3
    obtain d1 where s1: "store32 (rg_data r) ?w ?n = Some d1"
      using store32_ok[of ?w "rg_data r" ?n] 3(1) assms(1) by auto
    have d1: "store32 (rg_data r) ?w ?n = Some d1" "length d1 = ?L"
      using s1 store32_length[OF s1] assms(1) by simp_all
    have "unat (write_index r + 4) = ?L"
      using unat_add_below[of "write_index r" 4 "rg_len r"] 3(1) by simp
    then have wi: "(write_index r + 4) mod rg_len r = 0" by (simp add: word_unat_eq_iff unat_mod)
    have "length p + 4 \<le> ?L" using 3(3) n4 by (simp add: word_le_nat_alt)
    then have "bget p 0 ?L = None" by (simp add: bget_def)
    moreover have "0 < length p" using 3(2) by auto
    then have "bput d1 (?w + 4) (take (length p) p) = None" using d1(2) 3(1) by (simp add: bput_def)
    ultimately show ?thesis using d1 wi un by (auto simp: ring_write_def Let_def bget_def)
  next
    case 4
    obtain d1 where s1: "store32 (rg_data r) ?w ?n = Some d1"
      using store32_ok[of ?w "rg_data r" ?n] 4(1) assms(1) by auto
    have d1: "store32 (rg_data r) ?w ?n = Some d1" "length d1 = ?L"
      using s1 store32_length[OF s1] assms(1) by simp_all
    have w4: "unat (write_index r + 4) = ?w + 4"
      using unat_add_below[of "write_index r" 4 "rg_len r"] 4(1) by simp
    then have wi: "(write_index r + 4) mod rg_len r = write_index r + 4"
      using 4(1) by (intro mod_less_word) simp
    have "\<not> write_index r + 4 < read_index r" using w4 assms(2) by (simp add: word_less_nat_alt)
    moreover have "bput d1 (?w + 4) p = None" using d1(2) assms(3) by (simp add: bput_def)
    ultimately show ?thesis using d1 wi un by (auto simp: ring_write_def Let_def bget_def)
  qed
qed

lemma ring_write_never_wraps_witness:
  "ring_write \<lparr>rg_base = 64, rg_len = 16, read_index = 8, write_index = 8, rg_data = replicate 16 0\<rparr>
     [1,2,3,4,5,6,7,8] (of_nat (length [1,2,3,4,5,6,7,8::u8]))
   \<in> {Some (0, \<lparr>rg_base = 64, rg_len = 16, read_index = 8, write_index = 8, rg_data = replicate 16 0\<rparr>), None}"
  by (rule ring_write_never_wraps) simp_all

text \<open>The witness state is one the checks accept: the copy itself leaves the block.\<close>
lemma ring_write_overruns_example:
  "ring_write \<lparr>rg_base = 64, rg_len = 16, read_index = 8, write_index = 8, rg_data = replicate 16 0\<rparr>
     [1,2,3,4,5,6,7,8] 8 = None"
  by (simp add: ring_write_def ring_writable_size_def Let_def bput_def bget_def store32_def)

text \<open>A reader whose buffer is larger than the packet also advances by the buffer's size.\<close>
lemma ring_read_skips_example:
  "(do {
      r1 \<leftarrow> ring_write_all [[1,2,3,4], [5,6,7,8]]
        \<lparr>rg_base = 64, rg_len = 32, read_index = 0, write_index = 0, rg_data = replicate 32 0\<rparr>;
      (n, buff, r2) \<leftarrow> ring_read r1 (replicate 8 0) 8;
      next_size \<leftarrow> ring_next_size r2;
      Some (n, buff, next_size) }) = Some (4, [1,2,3,4,4,0,0,0], 0x08070605)"
  by code_simp

end
