(* ===== verification/Slub.thy ===== *)
theory Slub
  imports Pool Layout
begin

text \<open>
  \<open>src/src/kernel/mem/slub.c\<close> (with \<open>src/src/include/mem/slub.h\<close>): the object caches behind
  \<open>kmalloc\<close>. A slab is an 8 KiB block: two header words (\<open>next_slab\<close>, whose low 12 bits count the
  objects, and \<open>free_head\<close>), then the objects; a free object holds the address of the next free one
  in its first word. \<open>smem\<close> is the memory of the slabs as 32-bit cells named by their address,
  \<open>None\<close> where nothing is mapped. This is right as long as no two cells in use overlap, which is so for
  objects of 4 bytes or more whose last link ends inside the slab, as in all caches of the program (C25); smaller
  objects, whose links would run into each other, are outside the model. The cache structures are a list in the order of the \<open>next_cache\<close> links, headed by
  \<open>cache_cache\<close>. \<open>memmap\<close> is an argument (it may itself allocate from a cache): it is always asked for
  \<open>SLAB_SIZE\<close> bytes anywhere, with the flags it is given here. So is the CPU number that \<open>lapic_get_id\<close> returns.
\<close>

type_synonym cells = "u32 \<Rightarrow> u32 option"

definition SLAB_SIZE :: u32 where "SLAB_SIZE = 0x2000"
definition CACHE_NUM_CPUS :: nat where "CACHE_NUM_CPUS = 32"
definition CACHE_NAME_MAXLEN :: nat where "CACHE_NAME_MAXLEN = 32"
text \<open>\<open>MMAP_URGENT | SLAB_MMAP_FLAG\<close>, where the second is \<open>MMAP_2PG_ALIGN\<close> for slabs of two pages.\<close>
definition slab_map_flags :: u32 where "slab_map_flags = push_bit 2 1 OR push_bit 6 1"
text \<open>\<open>sizeof(mem_cache_t)\<close> and \<open>sizeof(mem_slab_t)\<close> on i386.\<close>
definition sizeof_mem_cache :: u32 where "sizeof_mem_cache = sizeof mem_cache_layout"
definition sizeof_mem_slab :: u32 where "sizeof_mem_slab = sizeof mem_slab_layout"

record cpu_cache =
  full :: u32
  semi :: u32
  empty :: u32

record mem_cache =
  mc_name :: string
  object_size :: u32
  mc_min :: u32
  cpu_caches :: "cpu_cache list"
  construct :: "(u32 \<Rightarrow> cells \<Rightarrow> cells option) option"

record slub =
  caches :: "mem_cache list"
  smem :: cells

text \<open>\<open>*p\<close> and \<open>*p = v\<close> for a pointer-sized cell.\<close>
definition wr :: "cells \<Rightarrow> u32 \<Rightarrow> u32 \<Rightarrow> cells option" where
  "wr m p v = (case m p of None \<Rightarrow> None | Some _ \<Rightarrow> Some (m(p \<mapsto> v)))"

subsection \<open>The slab header\<close>

definition SLAB_NEXT :: "u32 \<Rightarrow> u32" where
  "SLAB_NEXT next_slab = next_slab AND NOT 4095"

definition SLAB_COUNT :: "u32 \<Rightarrow> u32" where
  "SLAB_COUNT next_slab = next_slab AND 4095"

definition SLAB_CREATE_NEXT :: "u32 \<Rightarrow> u32 \<Rightarrow> u32" where
  "SLAB_CREATE_NEXT nxt count = count OR nxt"

definition SLAB_FROM_OBJ :: "u32 \<Rightarrow> u32" where
  "SLAB_FROM_OBJ p = p AND NOT (SLAB_SIZE - 1)"

definition free_head_of :: "u32 \<Rightarrow> u32" where
  "free_head_of slab = slab + 4"

subsection \<open>Slabs\<close>

text \<open>The \<open>for\<close> loop of \<open>mem_slab_new\<close> and the final \<open>*end = 0\<close>.\<close>
fun link_objects :: "cells \<Rightarrow> u32 \<Rightarrow> u32 \<Rightarrow> nat \<Rightarrow> cells option" where
  "link_objects m tail n 0 = wr m tail 0"
| "link_objects m tail n (Suc k) = do {
     m' \<leftarrow> wr m tail (tail + n);
     link_objects m' (tail + n) n k }"

definition object_count :: "u32 \<Rightarrow> u32" where
  "object_count n = (SLAB_SIZE - sizeof_mem_slab - 1) div n"

definition mem_slab_new :: "(u32 \<Rightarrow> slub \<Rightarrow> (u32 \<times> slub) option) \<Rightarrow> u32 \<Rightarrow> slub \<Rightarrow> (u32 \<times> slub) option" where
  "mem_slab_new memmap n s = do {
     (slab, s1) \<leftarrow> memmap slab_map_flags s;
     if slab = NULL then Some (NULL, s1)
     else if n = 0 then None
     else do {
       let tail = slab + 8;
       m1 \<leftarrow> wr (smem s1) (free_head_of slab) tail;
       m2 \<leftarrow> wr m1 slab (SLAB_CREATE_NEXT NULL (object_count n));
       m3 \<leftarrow> link_objects m2 tail n (unat (object_count n));
       Some (slab, s1\<lparr>smem := m3\<rparr>) } }"

partial_function (option) free_count_loop :: "cells \<Rightarrow> u32 \<Rightarrow> u32 \<Rightarrow> u32 option" where
  "free_count_loop m object count =
     (if object = NULL then Some count
      else do { nxt \<leftarrow> m object; free_count_loop m nxt (count + 1) })"

definition mem_slab_free_count :: "cells \<Rightarrow> u32 \<Rightarrow> u32 option" where
  "mem_slab_free_count m slab = do { h \<leftarrow> m (free_head_of slab); free_count_loop m h 0 }"

partial_function (option) semi_count_loop :: "cells \<Rightarrow> u32 \<Rightarrow> u32 \<Rightarrow> u32 option" where
  "semi_count_loop m head count =
     (if head = NULL then Some count
      else do {
        n \<leftarrow> mem_slab_free_count m head;
        nxt \<leftarrow> m head;
        semi_count_loop m (SLAB_NEXT nxt) (count + n) })"

partial_function (option) empty_count_loop :: "cells \<Rightarrow> u32 \<Rightarrow> u32 \<Rightarrow> u32 option" where
  "empty_count_loop m head count =
     (if head = NULL then Some count
      else do { nxt \<leftarrow> m head; empty_count_loop m (SLAB_NEXT nxt) (count + SLAB_COUNT nxt) })"

definition mem_cache_free_count :: "cells \<Rightarrow> cpu_cache \<Rightarrow> u32 option" where
  "mem_cache_free_count m c = do {
     k \<leftarrow> semi_count_loop m (semi c) 0;
     empty_count_loop m (empty c) k }"

subsection \<open>Caches\<close>

fun find_cache :: "string \<Rightarrow> mem_cache list \<Rightarrow> nat option" where
  "find_cache name [] = None"
| "find_cache name (c # cs) =
     (if mc_name c = name then Some 0 else map_option Suc (find_cache name cs))"

text \<open>\<open>cache->cpu_caches[cpu]\<close> of the \<open>i\<close>-th cache, read and replaced.\<close>
definition get_cpu :: "slub \<Rightarrow> nat \<Rightarrow> nat \<Rightarrow> cpu_cache option" where
  "get_cpu s i cpu = do { c \<leftarrow> aget (caches s) i; aget (cpu_caches c) cpu }"

definition set_cpu :: "slub \<Rightarrow> nat \<Rightarrow> nat \<Rightarrow> cpu_cache \<Rightarrow> slub option" where
  "set_cpu s i cpu v = do {
     c \<leftarrow> aget (caches s) i;
     cc \<leftarrow> aset (cpu_caches c) cpu v;
     cs \<leftarrow> aset (caches s) i (c\<lparr>cpu_caches := cc\<rparr>);
     Some (s\<lparr>caches := cs\<rparr>) }"

text \<open>The first block of \<open>mem_cache_alloc\<close>: make sure the semi list has a slab. \<open>False\<close> is the early
  \<open>return NULL\<close>.\<close>
definition refill :: "(u32 \<Rightarrow> slub \<Rightarrow> (u32 \<times> slub) option) \<Rightarrow> nat \<Rightarrow> nat \<Rightarrow> slub \<Rightarrow> (bool \<times> slub) option" where
  "refill memmap cpu i s = do {
     cc \<leftarrow> get_cpu s i cpu;
     if semi cc \<noteq> NULL then Some (True, s)
     else if empty cc = NULL then do {
       c \<leftarrow> aget (caches s) i;
       (slab, s1) \<leftarrow> mem_slab_new memmap (object_size c) s;
       if slab = NULL then Some (False, s1)
       else do {
         cc1 \<leftarrow> get_cpu s1 i cpu;
         s2 \<leftarrow> set_cpu s1 i cpu (cc1\<lparr>semi := slab\<rparr>);
         Some (True, s2) } }
     else do {
       let slab = empty cc;
       nxt \<leftarrow> smem s slab;
       m \<leftarrow> wr (smem s) slab (SLAB_CREATE_NEXT NULL (SLAB_COUNT nxt));
       s1 \<leftarrow> set_cpu (s\<lparr>smem := m\<rparr>) i cpu (cc\<lparr>empty := SLAB_NEXT nxt, semi := slab\<rparr>);
       Some (True, s1) } }"

text \<open>The second block: take the head of the semi slab's free list, and move the slab to the full
  list when that was its last free object.\<close>
definition take_object :: "nat \<Rightarrow> nat \<Rightarrow> slub \<Rightarrow> (u32 \<times> slub) option" where
  "take_object cpu i s = do {
     cc \<leftarrow> get_cpu s i cpu;
     let slab = semi cc;
     object \<leftarrow> smem s (free_head_of slab);
     nxt \<leftarrow> smem s object;
     m1 \<leftarrow> wr (smem s) (free_head_of slab) nxt;
     if nxt = NULL then do {
       h \<leftarrow> m1 slab;
       m2 \<leftarrow> wr m1 slab (SLAB_CREATE_NEXT (full cc) (SLAB_COUNT h));
       s1 \<leftarrow> set_cpu (s\<lparr>smem := m2\<rparr>) i cpu (cc\<lparr>semi := SLAB_NEXT h, full := slab\<rparr>);
       Some (object, s1) }
     else Some (object, s\<lparr>smem := m1\<rparr>) }"

text \<open>The last block: keep at least \<open>min\<close> objects free.\<close>
definition keep_minimum :: "(u32 \<Rightarrow> slub \<Rightarrow> (u32 \<times> slub) option) \<Rightarrow> nat \<Rightarrow> nat \<Rightarrow> slub \<Rightarrow> slub option" where
  "keep_minimum memmap cpu i s = do {
     c \<leftarrow> aget (caches s) i;
     if mc_min c > 0 then do {
       cc \<leftarrow> get_cpu s i cpu;
       free_count \<leftarrow> mem_cache_free_count (smem s) cc;
       if free_count < mc_min c then do {
         (slab, s1) \<leftarrow> mem_slab_new memmap (object_size c) s;
         if slab \<noteq> NULL then do {
           cc1 \<leftarrow> get_cpu s1 i cpu;
           h \<leftarrow> smem s1 slab;
           m \<leftarrow> wr (smem s1) slab (SLAB_CREATE_NEXT (empty cc1) (SLAB_COUNT h));
           set_cpu (s1\<lparr>smem := m\<rparr>) i cpu (cc1\<lparr>empty := slab\<rparr>) }
         else Some s1 }
       else Some s }
     else Some s }"

definition mem_cache_alloc ::
  "(u32 \<Rightarrow> slub \<Rightarrow> (u32 \<times> slub) option) \<Rightarrow> nat \<Rightarrow> string \<Rightarrow> slub \<Rightarrow> (u32 \<times> slub) option" where
  "mem_cache_alloc memmap cpu name s =
     (case find_cache name (caches s) of
        None \<Rightarrow> Some (NULL, s)
      | Some i \<Rightarrow> do {
          (ok, s1) \<leftarrow> refill memmap cpu i s;
          if \<not> ok then Some (NULL, s1)
          else do {
            (object, s2) \<leftarrow> take_object cpu i s1;
            c \<leftarrow> aget (caches s2) i;
            s3 \<leftarrow> (case construct c of
                     None \<Rightarrow> Some s2
                   | Some f \<Rightarrow> do { m \<leftarrow> f object (smem s2); Some (s2\<lparr>smem := m\<rparr>) });
            s4 \<leftarrow> keep_minimum memmap cpu i s3;
            Some (object, s4) } })"

text \<open>The walk of \<open>mem_cache_dealloc\<close>: \<open>object\<close> becomes NULL once it is linked in. The result is the
  memory, what is left of \<open>object\<close>, the last object visited and the count.\<close>
partial_function (option) dealloc_loop ::
  "cells \<Rightarrow> u32 \<Rightarrow> u32 \<Rightarrow> u32 \<Rightarrow> u32 \<Rightarrow> u32 \<Rightarrow> (cells \<times> u32 \<times> u32 \<times> u32) option" where
  "dealloc_loop m slab object free_prev free_obj free_count =
     (if free_obj = NULL then Some (m, object, free_prev, free_count)
      else do {
        (m', object') \<leftarrow>
          (if object \<noteq> NULL \<and> object < free_obj then do {
             m1 \<leftarrow> (if free_prev \<noteq> NULL then wr m free_prev object
                    else wr m (free_head_of slab) object);
             m2 \<leftarrow> wr m1 object free_obj;
             Some (m2, NULL) }
           else Some (m, object));
        nxt \<leftarrow> m' free_obj;
        dealloc_loop m' slab object' free_obj nxt (free_count + 1) })"

text \<open>\<open>SLAB_SIZE % 0x1000\<close> is 0, so the first branch of the \<open>#if\<close> is compiled.\<close>
definition mem_cache_find_slab :: "u32 \<Rightarrow> u32" where
  "mem_cache_find_slab object = SLAB_FROM_OBJ object"

definition mem_cache_dealloc :: "string \<Rightarrow> u32 \<Rightarrow> slub \<Rightarrow> slub option" where
  "mem_cache_dealloc name object s =
     (case find_cache name (caches s) of
        None \<Rightarrow> Some s
      | Some i \<Rightarrow> do {
          let slab = mem_cache_find_slab object;
          if slab = NULL then Some s
          else do {
            h \<leftarrow> smem s slab;
            free_obj \<leftarrow> smem s (free_head_of slab);
            (m, object', free_prev, free_count) \<leftarrow> dealloc_loop (smem s) slab object NULL free_obj 1;
            m' \<leftarrow> (if object' \<noteq> NULL then wr m free_prev object' else Some m);
            Some (s\<lparr>smem := m'\<rparr>) } })"

text \<open>The slabs for each CPU that \<open>mem_cache_new\<close> starts the cache with.\<close>
fun first_slabs :: "(u32 \<Rightarrow> slub \<Rightarrow> (u32 \<times> slub) option) \<Rightarrow> nat \<Rightarrow> nat list \<Rightarrow> slub \<Rightarrow> slub option" where
  "first_slabs memmap i [] s = Some s"
| "first_slabs memmap i (k # ks) s = do {
     c \<leftarrow> aget (caches s) i;
     (start, s1) \<leftarrow> mem_slab_new memmap (object_size c) s;
     s2 \<leftarrow> (if start \<noteq> NULL then do {
              cc \<leftarrow> get_cpu s1 i k; set_cpu s1 i k (cc\<lparr>empty := start\<rparr>) }
            else Some s1);
     first_slabs memmap i ks s2 }"

definition mem_cache_add :: "mem_cache \<Rightarrow> slub \<Rightarrow> slub" where
  "mem_cache_add c s = s\<lparr>caches := caches s @ [c]\<rparr>"

definition mem_cache_new :: "(u32 \<Rightarrow> slub \<Rightarrow> (u32 \<times> slub) option) \<Rightarrow> nat \<Rightarrow> string \<Rightarrow> u32 \<Rightarrow> u32
    \<Rightarrow> (u32 \<Rightarrow> cells \<Rightarrow> cells option) option \<Rightarrow> slub \<Rightarrow> (u32 \<times> slub) option" where
  "mem_cache_new memmap cpu name n minimum constr s =
     (if length name \<ge> CACHE_NAME_MAXLEN then Some (NULL, s)
      else if n \<ge> SLAB_SIZE - sizeof_mem_cache then Some (NULL, s)
      else do {
        (cache, s1) \<leftarrow> mem_cache_alloc memmap cpu ''cache_cache'' s;
        if cache = NULL then Some (NULL, s1)
        else do {
          let c = \<lparr>mc_name = name, object_size = n, mc_min = minimum,
                   cpu_caches = replicate CACHE_NUM_CPUS \<lparr>full = NULL, semi = NULL, empty = NULL\<rparr>,
                   construct = constr\<rparr>;
          let i = length (caches s1);
          s2 \<leftarrow> first_slabs memmap i [0..<CACHE_NUM_CPUS] (mem_cache_add c s1);
          Some (cache, s2) } })"

subsection \<open>Free lists\<close>

text \<open>The link stored in a cell; the addresses of the objects that \<open>link_objects\<close> chains.\<close>
definition nxt_of :: "cells \<Rightarrow> u32 \<Rightarrow> u32" where
  "nxt_of m p = (case m p of None \<Rightarrow> NULL | Some v \<Rightarrow> v)"

fun objs :: "u32 \<Rightarrow> u32 \<Rightarrow> nat \<Rightarrow> u32 list" where
  "objs a n 0 = [a]"
| "objs a n (Suc k) = a # objs (a + n) n k"

text \<open>The free list of a slab: mapped cells from \<open>free_head\<close> to NULL.\<close>
definition slab_free :: "cells \<Rightarrow> u32 \<Rightarrow> u32 list \<Rightarrow> bool" where
  "slab_free m slab xs \<longleftrightarrow> (\<exists>h. m (slab + 4) = Some h \<and> clist (nxt_of m) h xs) \<and> (\<forall>x\<in>set xs. m x \<noteq> None)
     \<and> slab + 4 \<notin> set xs \<and> slab \<notin> set xs \<and> m slab \<noteq> None"

lemma nxt_of_upd: "nxt_of (m(p \<mapsto> v)) = (nxt_of m)(p := v)"
  by (auto simp: nxt_of_def)

lemma nxt_of_cell: "m p \<noteq> None \<Longrightarrow> m p = Some (nxt_of m p)"
  by (auto simp: nxt_of_def)

lemma wr_Some: "m p \<noteq> None \<Longrightarrow> wr m p v = Some (m(p \<mapsto> v))"
  by (auto simp: wr_def)

lemma wr_Some_iff: "wr m p v = Some m' \<longleftrightarrow> m p \<noteq> None \<and> m' = m(p \<mapsto> v)"
  by (auto simp: wr_def split: option.splits)

lemma length_objs [simp]: "length (objs a n k) = Suc k"
  by (induction k arbitrary: a) auto

lemma nth_objs: "i \<le> k \<Longrightarrow> objs a n k ! i = a + of_nat i * n"
proof (induction k arbitrary: a i)
  case 0
  then show ?case by simp
next
  case (Suc k)
  then show ?case by (cases i) (auto simp: algebra_simps)
qed

lemma objs_unat:
  assumes "unat a + k * unat n < 4294967296" and "i \<le> k"
  shows "unat (objs a n k ! i) = unat a + i * unat n"
proof -
  have "i * unat n \<le> k * unat n" using assms(2) by simp
  then have lt: "unat a + i * unat n < 4294967296" using assms(1) by linarith
  have i: "unat (of_nat i * n) = i * unat n"
  proof (cases "n = 0")
    case False
    then have "1 \<le> unat n" by (simp add: Suc_le_eq word_gt_0 unat_gt_0)
    then have "i \<le> i * unat n" by simp
    then have "unat (of_nat i :: u32) = i" using lt by (intro unat_of_nat32) linarith
    then show ?thesis using unat_times_nowrap[of "of_nat i" n] lt by simp
  qed simp
  then show ?thesis using lt assms(2) by (simp add: nth_objs)
qed

lemma objs_above:
  assumes "unat a + k * unat n < 4294967296" and "x \<in> set (objs a n k)"
  shows "unat a \<le> unat x \<and> unat x \<le> unat a + k * unat n"
proof -
  from assms(2) obtain i where "i \<le> k" "x = objs a n k ! i"
    by (auto simp: in_set_conv_nth less_Suc_eq_le)
  with objs_unat[OF assms(1)] show ?thesis by simp
qed

lemma link_objects_list:
  assumes "unat a + k * unat n < 4294967296" and "0 < unat n" and "a \<noteq> NULL"
    and "\<forall>x\<in>set (objs a n k). m x \<noteq> None"
  shows "\<exists>m'. link_objects m a n k = Some m' \<and> clist (nxt_of m') a (objs a n k)
    \<and> (\<forall>x. x \<notin> set (objs a n k) \<longrightarrow> m' x = m x) \<and> dom m' = dom m"
  using assms
proof (induction k arbitrary: a m)
  case 0
  then show ?case by (auto simp: wr_Some nxt_of_upd insert_absorb)
next
  case (Suc k)
  let ?m = "m(a \<mapsto> a + n)"
  have an: "unat (a + n) = unat a + unat n" using Suc.prems(1) by simp
  then have le: "unat (a + n) + k * unat n < 4294967296" using Suc.prems(1) by simp
  have "a + n \<noteq> NULL" using an Suc.prems(2) by (auto simp flip: unat_eq_zero)
  moreover have "\<forall>x\<in>set (objs (a + n) n k). ?m x \<noteq> None" using Suc.prems(4) by auto
  ultimately obtain m' where m': "link_objects ?m (a + n) n k = Some m'"
      "clist (nxt_of m') (a + n) (objs (a + n) n k)"
      "\<forall>x. x \<notin> set (objs (a + n) n k) \<longrightarrow> m' x = ?m x" "dom m' = dom ?m"
    using Suc.IH[OF le Suc.prems(2)] by blast
  have "a \<notin> set (objs (a + n) n k)" using objs_above[OF le] an Suc.prems(2) by fastforce
  then have "nxt_of m' a = a + n" using m'(3) by (simp add: nxt_of_def)
  then show ?case using m' Suc.prems by (auto simp: wr_Some insert_absorb)
qed

subsection \<open>A new slab\<close>

text \<open>The 8 KiB that start at \<open>slab\<close>; a block of that size at \<open>slab\<close> that \<open>memmap\<close> has mapped.\<close>
definition in_slab :: "u32 \<Rightarrow> u32 \<Rightarrow> bool" where
  "in_slab slab p \<longleftrightarrow> unat slab \<le> unat p \<and> unat p < unat slab + 8192"

definition fresh_slab :: "cells \<Rightarrow> u32 \<Rightarrow> bool" where
  "fresh_slab m slab \<longleftrightarrow> slab \<noteq> NULL \<and> unat slab + 8192 \<le> 4294967296 \<and> (\<forall>p. in_slab slab p \<longrightarrow> m p \<noteq> None)"

lemma unat_object_count: "unat (object_count n) = 8183 div unat n"
  by (simp add: object_count_def SLAB_SIZE_def sizeof_mem_slab_def unat_div)

lemma mem_slab_new_list:
  assumes mm: "memmap slab_map_flags s = Some (slab, s1)" and fr: "fresh_slab (smem s1) slab" and n: "2 \<le> unat n"
  shows "\<exists>m'. mem_slab_new memmap n s = Some (slab, s1\<lparr>smem := m'\<rparr>)
    \<and> slab_free m' slab (objs (slab + 8) n (8183 div unat n)) \<and> m' slab = Some (object_count n)
    \<and> (\<forall>p. \<not> in_slab slab p \<longrightarrow> m' p = smem s1 p) \<and> dom m' = dom (smem s1)"
proof -
  let ?k = "8183 div unat n" and ?os = "objs (slab + 8) n (8183 div unat n)"
  have bound: "unat slab + 8192 \<le> 4294967296" and nz: "slab \<noteq> NULL"
    and mapped: "\<And>p. in_slab slab p \<Longrightarrow> smem s1 p \<noteq> None" using fr by (auto simp: fresh_slab_def)
  have s4: "unat (slab + 4) = unat slab + 4" and s8: "unat (slab + 8) = unat slab + 8"
    using bound by simp_all
  have kn: "?k * unat n \<le> 8183" by (simp add: div_times_less_eq_dividend)
  then have le: "unat (slab + 8) + ?k * unat n < 4294967296" using bound s8 kn by linarith
  have above: "unat slab + 8 \<le> unat x \<and> unat x \<le> unat slab + 8191" if "x \<in> set ?os" for x
    using objs_above[OF le that] s8 kn by linarith
  have notin: "slab + 4 \<notin> set ?os" "slab \<notin> set ?os" using above s4 by fastforce+
  have ns: "slab + 4 \<noteq> slab" by (simp add: word_unat_eq_iff s4)
  let ?m = "(smem s1)(slab + 4 \<mapsto> slab + 8, slab \<mapsto> object_count n)"
  have w1: "wr (smem s1) (slab + 4) (slab + 8) = Some ((smem s1)(slab + 4 \<mapsto> slab + 8))"
    using mapped[of "slab + 4"] s4 by (intro wr_Some) (simp add: in_slab_def)
  have w2: "wr ((smem s1)(slab + 4 \<mapsto> slab + 8)) slab (SLAB_CREATE_NEXT NULL (object_count n)) = Some ?m"
    using mapped[of slab] by (subst wr_Some) (auto simp: in_slab_def SLAB_CREATE_NEXT_def)
  have "\<forall>x\<in>set ?os. ?m x \<noteq> None" using above mapped by (force simp: in_slab_def)
  moreover have "slab + 8 \<noteq> NULL" using s8 by (auto simp flip: unat_eq_zero)
  ultimately obtain m' where m': "link_objects ?m (slab + 8) n ?k = Some m'" "clist (nxt_of m') (slab + 8) ?os"
      "\<forall>x. x \<notin> set ?os \<longrightarrow> m' x = ?m x" "dom m' = dom ?m"
    using link_objects_list[OF le, of ?m] n by auto
  have d: "dom m' = dom (smem s1)" using m'(4) mapped[of slab] mapped[of "slab + 4"] s4
    by (auto simp: in_slab_def)
  have "m' (slab + 4) = Some (slab + 8)" "m' slab = Some (object_count n)"
    using m'(3) notin ns by auto
  moreover have "\<forall>x\<in>set ?os. m' x \<noteq> None"
    using d above mapped by (force simp: in_slab_def dom_def)
  moreover have "m' p = smem s1 p" if "\<not> in_slab slab p" for p
  proof -
    have "p \<notin> set ?os" using above[of p] that by (auto simp: in_slab_def)
    moreover have "p \<noteq> slab" "p \<noteq> slab + 4" using that s4 by (auto simp: in_slab_def)
    ultimately show ?thesis using m'(3) by simp
  qed
  moreover have "n \<noteq> 0" using n by auto
  moreover have "slab \<noteq> 0" using nz .
  ultimately show ?thesis
    using mm m' w1 w2 notin d
    by (auto simp: mem_slab_new_def Let_def free_head_of_def unat_object_count slab_free_def)
qed

text \<open>C25: A fresh slab for objects of n bytes, at least 4 and such that the last link fits (as for 8, 12, 20, 436 and all classes of
  \<open>kmalloc\<close>), is one free list in address order that starts right
  after the header: objects at header + i * n for i = 0, ..., 8183 div n, so one object more than the
  count kept in the header. The link of each of them lies inside the slab, behind the header and apart from the other links; the
  header has no next slab, and nothing outside the slab is touched.\<close>
theorem mem_slab_new_free_list:
  assumes "memmap slab_map_flags s = Some (slab, s1)" and "fresh_slab (smem s1) slab" and "4 \<le> unat n" and "8183 div unat n * unat n \<le> 8180"
  shows "\<exists>s' h. mem_slab_new memmap n s = Some (slab, s') \<and> smem s' slab = Some h
    \<and> slab_free (smem s') slab (map (\<lambda>i. slab + 8 + of_nat i * n) [0..<unat (SLAB_COUNT h) + 1])
    \<and> unat (SLAB_COUNT h) = 8183 div unat n \<and> SLAB_NEXT h = NULL
    \<and> (\<forall>i. i \<le> 8183 div unat n \<longrightarrow> unat (slab + 8 + of_nat i * n) = unat slab + 8 + i * unat n
         \<and> unat slab + 8 + i * unat n + 4 \<le> unat slab + 8192)
    \<and> (\<forall>p. \<not> in_slab slab p \<longrightarrow> smem s' p = smem s1 p)"
proof -
  let ?k = "8183 div unat n"
  have "8183 div unat n \<le> 8183 div 2" using assms(3) by (intro div_le_mono2) auto
  then have c: "object_count n < 4096" by (simp add: word_less_nat_alt unat_object_count)
  have o: "objs (slab + 8) n k = map (\<lambda>i. slab + 8 + of_nat i * n) [0..<k + 1]" for k
    by (rule nth_equalityI) (auto simp: nth_objs less_Suc_eq_le simp del: upt_Suc)
  have bound: "unat slab + 8192 \<le> 4294967296" using assms(2) by (simp add: fresh_slab_def)
  note kn = assms(4)
  have pos: "unat (slab + 8 + of_nat i * n) = unat slab + 8 + i * unat n
      \<and> unat slab + 8 + i * unat n + 4 \<le> unat slab + 8192" if "i \<le> ?k" for i
  proof -
    have "i * unat n \<le> ?k * unat n" using that by simp
    then have "i * unat n \<le> 8180" using kn by linarith
    moreover have s8: "unat (slab + 8) = unat slab + 8" using bound by simp
    ultimately show ?thesis using objs_unat[of "slab + 8" ?k n i] that kn bound by (simp add: nth_objs)
  qed
  show ?thesis using mem_slab_new_list[of memmap s slab s1 n] assms c pos o
    by (auto simp: SLAB_COUNT_def SLAB_NEXT_def and_4095_small and_not_4095_small unat_object_count
        simp del: upt_Suc)
qed

theorem mem_slab_new_free_list_witness:
  "\<exists>s' h. mem_slab_new (\<lambda>fl s. Some (0xD0002000, s)) 1363 \<lparr>caches = [], smem = \<lambda>p. Some 0\<rparr> = Some (0xD0002000, s')
    \<and> smem s' 0xD0002000 = Some h
    \<and> slab_free (smem s') 0xD0002000
        (map (\<lambda>i. 0xD0002000 + 8 + of_nat i * 1363) [0..<unat (SLAB_COUNT h) + 1])
    \<and> unat (SLAB_COUNT h) = 8183 div unat (1363 :: u32) \<and> SLAB_NEXT h = NULL
    \<and> (\<forall>i. i \<le> 8183 div unat (1363 :: u32) \<longrightarrow> unat (0xD0002000 + 8 + of_nat i * 1363 :: u32) = unat (0xD0002000 :: u32) + 8 + i * unat (1363 :: u32)
         \<and> unat (0xD0002000 :: u32) + 8 + i * unat (1363 :: u32) + 4 \<le> unat (0xD0002000 :: u32) + 8192)
    \<and> (\<forall>p. \<not> in_slab 0xD0002000 p \<longrightarrow> smem s' p = Some 0)"
  using mem_slab_new_free_list[of "\<lambda>fl s. Some (0xD0002000, s)" "\<lparr>caches = [], smem = \<lambda>p. Some 0\<rparr>"
      "0xD0002000" "\<lparr>caches = [], smem = \<lambda>p. Some 0\<rparr>" 1363]
  by (simp add: fresh_slab_def)

text \<open>The extra object does not fit: unless the object size divides the 8184 bytes behind the
  header, the last object on the free list of a new slab ends beyond the slab's 8192 bytes.\<close>
lemma mem_slab_new_overruns:
  assumes "memmap slab_map_flags s = Some (slab, s1)" and "fresh_slab (smem s1) slab" and "2 \<le> unat n"
    and "\<not> unat n dvd 8184"
  shows "\<exists>s' xs. mem_slab_new memmap n s = Some (slab, s') \<and> slab_free (smem s') slab xs
    \<and> unat slab + 8192 < unat (last xs) + unat n"
proof -
  let ?k = "8183 div unat n"
  have b: "unat slab + 8192 \<le> 4294967296" using assms(2) by (simp add: fresh_slab_def)
  have kn: "?k * unat n \<le> 8183" by (simp add: div_times_less_eq_dividend)
  have s8: "unat (slab + 8) = unat slab + 8" using b by simp
  then have le: "unat (slab + 8) + ?k * unat n < 4294967296" using b kn by linarith
  have "unat (last (objs (slab + 8) n ?k)) = unat slab + 8 + ?k * unat n"
    using objs_unat[OF le order.refl] s8 by (simp add: last_conv_nth flip: length_greater_0_conv)
  moreover have "8183 < Suc ?k * unat n"
    using dividend_less_div_times[of "unat n" 8183] assms(3) by simp
  moreover have "Suc ?k * unat n \<noteq> 8184" using assms(4) by (metis dvd_triv_right)
  ultimately have "unat slab + 8192 < unat (last (objs (slab + 8) n ?k)) + unat n"
    by (simp add: algebra_simps)
  then show ?thesis using mem_slab_new_list[of memmap s slab s1 n] assms(1-3) by auto
qed

lemma mem_slab_new_overruns_witness:
  "\<exists>s' xs. mem_slab_new (\<lambda>fl s. Some (0xD0002000, s)) 64 \<lparr>caches = [], smem = \<lambda>p. Some 0\<rparr> = Some (0xD0002000, s')
    \<and> slab_free (smem s') 0xD0002000 xs \<and> unat (0xD0002000 :: u32) + 8192 < unat (last xs) + unat (64 :: u32)"
  using mem_slab_new_overruns[of "\<lambda>fl s. Some (0xD0002000, s)" "\<lparr>caches = [], smem = \<lambda>p. Some 0\<rparr>"
      "0xD0002000" "\<lparr>caches = [], smem = \<lambda>p. Some 0\<rparr>" 64]
  by (simp add: fresh_slab_def)

subsection \<open>Allocating\<close>

lemma slab_free_Cons:
  "slab_free m slab (x # xs) \<Longrightarrow> m (slab + 4) = Some x \<and> x \<noteq> NULL \<and> clist (nxt_of m) (nxt_of m x) xs
     \<and> m x = Some (nxt_of m x)"
  by (auto simp: slab_free_def nxt_of_def split: option.splits)

lemma slab_free_pop:
  assumes "slab_free m slab (x # xs)"
  shows "slab_free (m(slab + 4 \<mapsto> nxt_of m x)) slab xs"
  using assms by (auto simp: slab_free_def nxt_of_upd)

lemma clist_hd: "clist f p (x # xs) \<Longrightarrow> p = x"
  by simp

lemma take_object_pop:
  assumes "get_cpu s i cpu = Some cc" and "slab_free (smem s) (semi cc) (x # y # ys)"
  shows "take_object cpu i s = Some (x, s\<lparr>smem := (smem s)(semi cc + 4 \<mapsto> y)\<rparr>)
    \<and> slab_free ((smem s)(semi cc + 4 \<mapsto> y)) (semi cc) (y # ys)"
proof -
  from slab_free_Cons[OF assms(2)] have x: "smem s (semi cc + 4) = Some x" "smem s x = Some y" "y \<noteq> NULL"
    and n: "nxt_of (smem s) x = y" by auto
  then show ?thesis using assms(1) slab_free_pop[OF assms(2)]
    by (simp add: take_object_def free_head_of_def wr_def Let_def)
qed

definition plain_cache :: "slub \<Rightarrow> nat \<Rightarrow> bool" where
  "plain_cache s i \<longleftrightarrow> i < length (caches s) \<and> construct (caches s ! i) = None \<and> mc_min (caches s ! i) = 0"

text \<open>\<open>mem_cache_alloc\<close> maps no further slab once the object is taken: the cache has no minimum, or at least that many objects are left.\<close>
definition minimum_left :: "slub \<Rightarrow> nat \<Rightarrow> nat \<Rightarrow> bool" where
  "minimum_left s i cpu \<longleftrightarrow> mc_min (caches s ! i) = 0
     \<or> (case get_cpu s i cpu of None \<Rightarrow> False | Some cc \<Rightarrow>
          (case mem_cache_free_count (smem s) cc of None \<Rightarrow> False | Some k \<Rightarrow> mc_min (caches s ! i) \<le> k))"

lemma mem_cache_alloc_takes:
  assumes "find_cache name (caches s) = Some i" and "i < length (caches s)" and "construct (caches s ! i) = None"
    and "minimum_left (s\<lparr>smem := (smem s)(semi cc + 4 \<mapsto> y)\<rparr>) i cpu"
    and "get_cpu s i cpu = Some cc" and "semi cc \<noteq> NULL" and "slab_free (smem s) (semi cc) (x # y # ys)"
  shows "mem_cache_alloc memmap cpu name s = Some (x, s\<lparr>smem := (smem s)(semi cc + 4 \<mapsto> y)\<rparr>)
    \<and> slab_free ((smem s)(semi cc + 4 \<mapsto> y)) (semi cc) (y # ys)"
proof -
  let ?s = "s\<lparr>smem := (smem s)(semi cc + 4 \<mapsto> y)\<rparr>"
  have "keep_minimum memmap cpu i ?s = Some ?s"
    using assms(2,4) by (auto simp: keep_minimum_def minimum_left_def aget_in split: option.splits simp del: fun_upd_apply)
  then show ?thesis using take_object_pop[OF assms(5,7)] assms(1-3,5,6)
    by (simp add: mem_cache_alloc_def refill_def aget_in del: fun_upd_apply)
qed

lemma mem_cache_alloc_pop:
  assumes "find_cache name (caches s) = Some i" and "plain_cache s i"
    and "get_cpu s i cpu = Some cc" and "semi cc \<noteq> NULL" and "slab_free (smem s) (semi cc) (x # y # ys)"
  shows "mem_cache_alloc memmap cpu name s = Some (x, s\<lparr>smem := (smem s)(semi cc + 4 \<mapsto> y)\<rparr>)
    \<and> slab_free ((smem s)(semi cc + 4 \<mapsto> y)) (semi cc) (y # ys)"
  using take_object_pop[OF assms(3,5)] assms(1-4)
  by (simp add: mem_cache_alloc_def refill_def keep_minimum_def plain_cache_def aget_in)

subsection \<open>Freeing\<close>

text \<open>The rest of the walk, once the object is linked in, changes nothing.\<close>
lemma dealloc_loop_done:
  "clist (nxt_of m) p ys \<Longrightarrow> \<forall>y\<in>set ys. m y \<noteq> None \<Longrightarrow>
   \<exists>q c. dealloc_loop m slab NULL prev p k = Some (m, NULL, q, c)"
proof (induction ys arbitrary: p prev k)
  case Nil
  then show ?case by (simp add: dealloc_loop.simps)
next
  case (Cons y ys)
  then have "m y = Some (nxt_of m y)" "p = y" "y \<noteq> NULL"
    by (auto simp: nxt_of_def)
  with Cons show ?case by (simp add: dealloc_loop.simps[of m slab NULL])
qed

lemma slab_free_push:
  assumes "slab_free m slab (y # ys)" and "x \<notin> set (y # ys)" and "x \<noteq> NULL" and "m x \<noteq> None"
    and "x \<noteq> slab" and "x \<noteq> slab + 4"
  shows "slab_free (m(slab + 4 \<mapsto> x, x \<mapsto> y)) slab (x # y # ys)"
  using assms by (auto simp: slab_free_def nxt_of_upd)

text \<open>The cell that links the next object in: the slab's header word, or the last object passed.\<close>
lemma slab_free_insert:
  assumes "slab_free m slab (ps @ y # ys)" and "x \<notin> set (ps @ y # ys)" and "x \<noteq> NULL" and "m x \<noteq> None"
    and "x \<noteq> slab" and "x \<noteq> slab + 4"
  shows "\<exists>m1. (if (if ps = [] then NULL else last ps) \<noteq> NULL then wr m (if ps = [] then NULL else last ps) x
           else wr m (slab + 4) x) = Some m1
       \<and> wr m1 x y = Some (m1(x \<mapsto> y)) \<and> slab_free (m1(x \<mapsto> y)) slab (ps @ x # y # ys)"
proof (cases ps rule: rev_cases)
  case Nil
  have "m (slab + 4) \<noteq> None" using assms(1) by (auto simp: slab_free_def)
  with assms(4) show ?thesis using slab_free_push[of m slab y ys x] assms Nil
    by (auto simp: wr_def)
next
  case (snoc qs b)
  let ?m = "m(b \<mapsto> x)"
  obtain h where h: "m (slab + 4) = Some h" "clist (nxt_of m) h (qs @ b # y # ys)"
    and mp: "\<forall>z\<in>set (ps @ y # ys). m z \<noteq> None" and b: "b \<noteq> slab" "b \<noteq> slab + 4"
    using assms(1) snoc by (auto simp: slab_free_def)
  have "b \<noteq> NULL" using path_nonnull[OF h(2)] by auto
  have "nxt_of m b = y" using h(2) by (auto simp: path_append)
  then have "clist ((nxt_of m)(b := x, x := y)) h (qs @ b # x # y # ys)"
    using clist_insert_after[OF h(2), of x] assms snoc by simp
  then have "slab_free (?m(x \<mapsto> y)) slab (ps @ x # y # ys)"
    using assms snoc h mp b by (auto simp: slab_free_def nxt_of_upd)
  moreover have "wr m b x = Some ?m" using mp snoc by (intro wr_Some) auto
  moreover have "wr ?m x y = Some (?m(x \<mapsto> y))" using assms(4) by (intro wr_Some) auto
  ultimately show ?thesis using snoc \<open>b \<noteq> NULL\<close> by auto
qed

lemma dealloc_loop_link:
  assumes "p \<noteq> NULL" and "x \<noteq> NULL" and "x < p"
    and "(if prev \<noteq> NULL then wr m prev x else wr m (slab + 4) x) = Some m1"
    and "wr m1 x p = Some m2" and "m2 p = Some q"
  shows "dealloc_loop m slab x prev p k = dealloc_loop m2 slab NULL p q (k + 1)"
  using assms by (subst dealloc_loop.simps) (auto simp: free_head_of_def split: if_splits)

lemma dealloc_loop_insert:
  assumes "slab_free m slab (ps @ ys)" and "clist (nxt_of m) p ys" and "\<exists>y\<in>set ys. x < y"
    and "x \<notin> set (ps @ ys)" and "x \<noteq> NULL" and "m x \<noteq> None" and "x \<noteq> slab" and "x \<noteq> slab + 4"
  shows "\<exists>m' q c. dealloc_loop m slab x (if ps = [] then NULL else last ps) p k = Some (m', NULL, q, c)
    \<and> slab_free m' slab (ps @ takeWhile (\<lambda>y. \<not> x < y) ys @ x # dropWhile (\<lambda>y. \<not> x < y) ys)"
  using assms
proof (induction ys arbitrary: ps p k)
  case Nil
  then show ?case by simp
next
  case (Cons y ys)
  let ?prev = "if ps = [] then NULL else last ps"
  have "m y \<noteq> None" using Cons.prems(1) by (auto simp: slab_free_def)
  then have p: "p = y" "y \<noteq> NULL" and ny: "m y = Some (nxt_of m y)" "clist (nxt_of m) (nxt_of m y) ys"
    using Cons.prems(2) by (auto intro: nxt_of_cell)
  show ?case
  proof (cases "x < y")
    case True
    obtain m1 where m1: "(if ?prev \<noteq> NULL then wr m ?prev x else wr m (slab + 4) x) = Some m1"
        "wr m1 x y = Some (m1(x \<mapsto> y))" "slab_free (m1(x \<mapsto> y)) slab (ps @ x # y # ys)"
      using slab_free_insert[OF Cons.prems(1,4-8)] by blast
    let ?m = "m1(x \<mapsto> y)"
    obtain r where "clist (nxt_of ?m) r (x # y # ys)" "\<forall>z\<in>set (y # ys). ?m z \<noteq> None"
      using m1(3) by (auto simp: slab_free_def path_append simp del: fun_upd_apply)
    then have l: "clist (nxt_of ?m) y (y # ys)" "\<forall>z\<in>set ys. ?m z \<noteq> None" "?m y \<noteq> None"
      by (auto simp del: fun_upd_apply)
    then have y: "?m y = Some (nxt_of ?m y)" by (auto simp: nxt_of_def simp del: fun_upd_apply)
    obtain q c where "dealloc_loop ?m slab NULL y (nxt_of ?m y) (k + 1) = Some (?m, NULL, q, c)"
      using dealloc_loop_done[of ?m "nxt_of ?m y" ys slab y "k + 1"] l by auto
    then have "dealloc_loop m slab x ?prev p k = Some (?m, NULL, q, c)"
      using dealloc_loop_link[OF _ Cons.prems(5) _ m1(1,2) y] p True
      by (simp del: fun_upd_apply)
    then show ?thesis using m1(3) True by simp
  next
    case False
    have "slab_free m slab ((ps @ [y]) @ ys)" "\<exists>z\<in>set ys. x < z" "x \<notin> set ((ps @ [y]) @ ys)"
      using Cons.prems(1,3,4) False by auto
    from Cons.IH[OF this(1) ny(2) this(2,3) Cons.prems(5-8), of "k + 1"] obtain m' q c where
      "dealloc_loop m slab x y (nxt_of m y) (k + 1) = Some (m', NULL, q, c)"
      "slab_free m' slab (ps @ y # takeWhile (\<lambda>y. \<not> x < y) ys @ x # dropWhile (\<lambda>y. \<not> x < y) ys)"
      by auto
    moreover have "dealloc_loop m slab x ?prev p k = dealloc_loop m slab x y (nxt_of m y) (k + 1)"
      using p ny False by (subst dealloc_loop.simps) simp
    ultimately show ?thesis using False by auto
  qed
qed

lemma insort_split:
  "sorted ys \<Longrightarrow> x \<notin> set ys \<Longrightarrow>
   takeWhile (\<lambda>y. \<not> x < y) ys @ x # dropWhile (\<lambda>y. \<not> x < y) ys = insort (x :: u32) ys"
  by (induction ys) (auto simp: not_less)

text \<open>Freeing an object of a slab whose free list is in address order, when some free object lies
  above it, links the object in at its place: the free list stays in address order and gains exactly
  that object.\<close>
lemma mem_cache_dealloc_sorted:
  assumes "find_cache name (caches s) = Some i" and "SLAB_FROM_OBJ x = slab" and "slab \<noteq> NULL"
    and "slab_free (smem s) slab ys" and "sorted ys" and "\<exists>y\<in>set ys. x < y" and "x \<notin> set ys"
    and "x \<noteq> NULL" and "smem s x \<noteq> None" and "x \<noteq> slab" and "x \<noteq> slab + 4"
  shows "\<exists>s'. mem_cache_dealloc name x s = Some s' \<and> slab_free (smem s') slab (insort x ys)
    \<and> sorted (insort x ys)"
proof -
  obtain h p where h: "smem s slab = Some h" "smem s (slab + 4) = Some p" "clist (nxt_of (smem s)) p ys"
    using assms(4) by (auto simp: slab_free_def)
  have "slab_free (smem s) slab ([] @ ys)" "x \<notin> set ([] @ ys)" using assms(4,7) by simp_all
  from dealloc_loop_insert[OF this(1) h(3) assms(6) this(2) assms(8-11), of 1] obtain m' q c where
    "dealloc_loop (smem s) slab x NULL p 1 = Some (m', NULL, q, c)" "slab_free m' slab (insort x ys)"
    using insort_split[OF assms(5,7)] by auto
  then show ?thesis using assms(1-3,5) h
    by (simp add: mem_cache_dealloc_def mem_cache_find_slab_def Let_def free_head_of_def sorted_insort)
qed

text \<open>C24: Allocating an object and freeing it again leaves the caches and the slab memory exactly as
  they were, when the cache has no constructor (no cache of the program has), the semi slab has two free objects and hands them
  out in address order, and the allocation does not go below the cache's minimum, which would map another slab.\<close>
theorem alloc_dealloc_roundtrip:
  assumes "find_cache name (caches s) = Some i" and "i < length (caches s)" and "construct (caches s ! i) = None"
    and "minimum_left (s\<lparr>smem := (smem s)(semi cc + 4 \<mapsto> y)\<rparr>) i cpu" and "get_cpu s i cpu = Some cc"
    and "semi cc \<noteq> NULL" and "slab_free (smem s) (semi cc) (x # y # ys)" and "x < y"
    and "SLAB_FROM_OBJ x = semi cc"
  shows "(do { (p, s') \<leftarrow> mem_cache_alloc memmap cpu name s; mem_cache_dealloc name p s' }) = Some s"
proof -
  let ?slab = "semi cc" and ?m = "(smem s)(semi cc + 4 \<mapsto> y)"
  have al: "mem_cache_alloc memmap cpu name s = Some (x, s\<lparr>smem := ?m\<rparr>)" and sf: "slab_free ?m ?slab (y # ys)"
    using mem_cache_alloc_takes[OF assms(1-7)] by auto
  from assms(7) obtain p where d: "clist (nxt_of (smem s)) p (x # y # ys)"
    and x: "x \<noteq> NULL" "x \<noteq> ?slab" "x \<noteq> ?slab + 4" "smem s x = Some y" "smem s (?slab + 4) = Some x"
    using slab_free_Cons[OF assms(7)] by (auto simp: slab_free_def)
  have "x \<notin> set ([] @ y # ys)" using clist_distinct[OF d] by auto
  then obtain m1 where m1: "wr ?m (?slab + 4) x = Some m1" "wr m1 x y = Some (m1(x \<mapsto> y))"
      "slab_free (m1(x \<mapsto> y)) ?slab (x # y # ys)"
    using slab_free_insert[of ?m ?slab "[]" y ys x] sf x by auto
  have restored: "m1(x \<mapsto> y) = smem s" 
  proof (rule ext)
    have "m1 = ?m(?slab + 4 \<mapsto> x)" using m1(1) by (simp add: wr_Some_iff)
    then show "(m1(x \<mapsto> y)) p = smem s p" for p using x by simp
  qed
  have "smem s y \<noteq> None" using assms(7) by (auto simp: slab_free_def)
  then have l: "smem s y = Some (nxt_of (smem s) y)" "y \<noteq> NULL" "clist (nxt_of (smem s)) (nxt_of (smem s) y) ys"
      "\<forall>z\<in>set ys. smem s z \<noteq> None"
    using assms(7) nxt_of_cell[of "smem s" y] by (auto simp: slab_free_def)
  obtain q c where "dealloc_loop (smem s) ?slab NULL y (nxt_of (smem s) y) 2 = Some (smem s, NULL, q, c)"
    using dealloc_loop_done[OF l(3,4)] by blast
  then have "dealloc_loop ?m ?slab x NULL y 1 = Some (smem s, NULL, q, c)"
    using dealloc_loop_link[of y x NULL ?m ?slab m1 "smem s" _ 1] m1(1,2) restored l assms(8) x(1)
    by simp
  moreover have "?m ?slab = smem s ?slab" using x by simp
  moreover obtain h where "smem s ?slab = Some h" using assms(7) by (auto simp: slab_free_def)
  ultimately show ?thesis using al assms(1,6,9)
    by (simp add: mem_cache_dealloc_def mem_cache_find_slab_def Let_def free_head_of_def)
qed

subsection \<open>Where freeing goes wrong\<close>

lemma dealloc_loop_skip:
  assumes "clist (nxt_of m) p ys" and "\<forall>y\<in>set ys. m y \<noteq> None" and "\<forall>y\<in>set ys. \<not> x < y"
  shows "\<exists>c. dealloc_loop m slab x prev p k = Some (m, x, last (prev # ys), c)"
  using assms
proof (induction ys arbitrary: p prev k)
  case Nil
  then show ?case by (simp add: dealloc_loop.simps)
next
  case (Cons y ys)
  then have "p = y" "y \<noteq> NULL" "m y = Some (nxt_of m y)" by (auto intro: nxt_of_cell)
  with Cons show ?case by (subst dealloc_loop.simps) simp
qed

text \<open>Freeing an object above every free object of its slab does not terminate the free list: the
  object is linked behind the last free one but its own first word, which the client may have written,
  stays as it is and becomes the next link. Into a slab without free objects nothing can be freed: the
  code stores through a NULL pointer.\<close>
lemma mem_cache_dealloc_above:
  assumes "find_cache name (caches s) = Some i" and "SLAB_FROM_OBJ x = slab" and "slab \<noteq> NULL"
    and "slab_free (smem s) slab ys" and "\<forall>y\<in>set ys. y < x" and "smem s NULL = None"
  shows "mem_cache_dealloc name x s =
    (if ys = [] then None else Some (s\<lparr>smem := (smem s)(last ys \<mapsto> x)\<rparr>))"
proof -
  obtain h p where h: "smem s slab = Some h" "smem s (slab + 4) = Some p" "clist (nxt_of (smem s)) p ys"
    and m: "\<forall>y\<in>set ys. smem s y \<noteq> None" using assms(4) by (auto simp: slab_free_def)
  have "x \<noteq> NULL" using assms(2,3) by (auto simp: SLAB_FROM_OBJ_def)
  moreover have "\<forall>y\<in>set ys. \<not> x < y" using assms(5) by auto
  then obtain c where "dealloc_loop (smem s) slab x NULL p 1 = Some (smem s, x, last (NULL # ys), c)"
    using dealloc_loop_skip[OF h(3) m] by blast
  moreover have "ys \<noteq> [] \<Longrightarrow> wr (smem s) (last ys) x = Some ((smem s)(last ys \<mapsto> x))"
    using m by (intro wr_Some) auto
  ultimately show ?thesis using assms(1-3,6) h
    by (simp add: mem_cache_dealloc_def mem_cache_find_slab_def Let_def free_head_of_def wr_def)
qed

subsection \<open>A sample slab\<close>

text \<open>One cache, one semi slab at 0x2000 with 16-byte objects, of which three are free.\<close>
definition sample_slub :: slub where
  "sample_slub = \<lparr>caches = [\<lparr>mc_name = ''kmalloc16'', object_size = 16, mc_min = 0,
      cpu_caches = [\<lparr>full = NULL, semi = 0x2000, empty = NULL\<rparr>], construct = None\<rparr>],
    smem = [0x2000 \<mapsto> 511, 0x2004 \<mapsto> 0x2008, 0x2008 \<mapsto> 0x2028, 0x2018 \<mapsto> 7, 0x2028 \<mapsto> 0x2038, 0x2038 \<mapsto> 0,
      0x2048 \<mapsto> 9]\<rparr>"

lemma sample_slub_facts:
  "find_cache ''kmalloc16'' (caches sample_slub) = Some 0" "plain_cache sample_slub 0"
  "get_cpu sample_slub 0 0 = Some \<lparr>full = NULL, semi = 0x2000, empty = NULL\<rparr>"
  "slab_free (smem sample_slub) 0x2000 [0x2008, 0x2028, 0x2038]"
  "smem sample_slub 0x2018 = Some 7" "smem sample_slub NULL = None"
  by (simp_all add: sample_slub_def plain_cache_def get_cpu_def aget_def slab_free_def nxt_of_def)

lemma sample_slab_of:
  "SLAB_FROM_OBJ 0x2008 = 0x2000" "SLAB_FROM_OBJ 0x2018 = 0x2000" "SLAB_FROM_OBJ 0x2048 = 0x2000"
  by (simp_all add: SLAB_FROM_OBJ_def SLAB_SIZE_def)

lemma mem_cache_dealloc_sorted_witness:
  "\<exists>s'. mem_cache_dealloc ''kmalloc16'' 0x2018 sample_slub = Some s'
    \<and> slab_free (smem s') 0x2000 (insort 0x2018 [0x2008, 0x2028, 0x2038])
    \<and> sorted (insort 0x2018 [0x2008, 0x2028, 0x2038 :: u32])"
  by (rule mem_cache_dealloc_sorted[OF sample_slub_facts(1) sample_slab_of(2)])
    (simp_all add: sample_slub_facts)

text \<open>The same with a minimum of two.\<close>
definition sample_min :: slub where
  "sample_min = sample_slub\<lparr>caches := map (\<lambda>c. c\<lparr>mc_min := 2\<rparr>) (caches sample_slub)\<rparr>"

lemma sample_min_left: "minimum_left (sample_min\<lparr>smem := (smem sample_min)(0x2004 \<mapsto> 0x2028)\<rparr>) 0 0"
  by (simp add: minimum_left_def sample_min_def sample_slub_def get_cpu_def aget_def mem_cache_free_count_def mem_slab_free_count_def
      free_head_of_def semi_count_loop.simps empty_count_loop.simps free_count_loop.simps SLAB_NEXT_def)

theorem alloc_dealloc_roundtrip_witness:
  "(do { (p, s') \<leftarrow> mem_cache_alloc (\<lambda>fl s. None) 0 ''kmalloc16'' sample_min;
         mem_cache_dealloc ''kmalloc16'' p s' }) = Some sample_min"
proof (rule alloc_dealloc_roundtrip[of _ _ 0 "\<lparr>full = NULL, semi = 0x2000, empty = NULL\<rparr>" "0x2028" _ "0x2008" "[0x2038]"])
  show "minimum_left (sample_min\<lparr>smem := (smem sample_min)(semi \<lparr>full = NULL, semi = 0x2000, empty = NULL\<rparr> + 4 \<mapsto> 0x2028)\<rparr>) 0 0"
    using sample_min_left by simp
qed (use sample_slab_of(1) in \<open>simp_all add: sample_min_def sample_slub_def get_cpu_def aget_def slab_free_def nxt_of_def\<close>)

lemma mem_cache_dealloc_above_witness:
  "mem_cache_dealloc ''kmalloc16'' 0x2048 sample_slub
    = Some (sample_slub\<lparr>smem := (smem sample_slub)(0x2038 \<mapsto> 0x2048)\<rparr>)"
  using mem_cache_dealloc_above[OF sample_slub_facts(1) sample_slab_of(3) _ sample_slub_facts(4)]
  by (simp add: sample_slub_facts)

subsection \<open>A cache as a source of nodes\<close>

text \<open>A cache whose semi slab for this CPU has the free objects \<open>xs\<close>.\<close>
definition slub_avail :: "nat \<Rightarrow> string \<Rightarrow> slub \<Rightarrow> u32 list \<Rightarrow> bool" where
  "slub_avail cpu name s xs \<longleftrightarrow> (\<exists>i cc. find_cache name (caches s) = Some i \<and> plain_cache s i
     \<and> get_cpu s i cpu = Some cc \<and> semi cc \<noteq> NULL \<and> slab_free (smem s) (semi cc) xs)"

interpretation kc: object_pool "mem_cache_alloc memmap cpu name" "slub_avail cpu name" for memmap cpu name
proof
  show "\<exists>q'. mem_cache_alloc memmap cpu name q = Some (x, q') \<and> slub_avail cpu name q' (y # xs)"
    if "slub_avail cpu name q (x # y # xs)" for q x y xs
  proof -
    from that obtain i cc where h: "find_cache name (caches q) = Some i" "plain_cache q i"
      "get_cpu q i cpu = Some cc" "semi cc \<noteq> NULL" "slab_free (smem q) (semi cc) (x # y # xs)"
      by (auto simp: slub_avail_def)
    let ?q = "q\<lparr>smem := (smem q)(semi cc + 4 \<mapsto> y)\<rparr>"
    from mem_cache_alloc_pop[OF h] have "mem_cache_alloc memmap cpu name q = Some (x, ?q)"
      "slab_free (smem ?q) (semi cc) (y # xs)" by simp_all
    moreover have "get_cpu ?q i cpu = Some cc" "plain_cache ?q i" using h by (simp_all add: get_cpu_def plain_cache_def)
    ultimately show ?thesis using h by (auto simp: slub_avail_def)
  qed
  show "distinct xs" "NULL \<notin> set xs" if "slub_avail cpu name q xs" for q xs
    using that by (auto simp: slub_avail_def slab_free_def dest: clist_distinct path_nonnull)
qed

end
