(* ===== verification/Kmalloc.thy ===== *)
theory Kmalloc
  imports Early Slub
begin

text \<open>
  The size classes of \<open>src/src/kernel/mem/slub.c\<close> (\<open>_kmalloc\<close>, \<open>_krealloc\<close>, \<open>_kfree\<close>) and the
  dispatch of \<open>src/src/kernel/mem/kmalloc.c\<close> between the early allocator, the size classes and the
  large allocator. The large allocator, \<open>memcpy\<close> and \<open>memset\<close> are arguments, \<open>memmap\<close> and the CPU
  number as in \<open>Slub\<close>.
\<close>

subsection \<open>Size classes\<close>

definition kmalloc_sizes :: "(u32 \<times> string) list" where
  "kmalloc_sizes =
    [(16, ''kmalloc16''), (32, ''kmalloc32''), (64, ''kmalloc64''), (92, ''kmalloc92''),
     (128, ''kmalloc128''), (196, ''kmalloc196''), (256, ''kmalloc256''), (384, ''kmalloc384''),
     (512, ''kmalloc512''), (768, ''kmalloc768''), (1024, ''kmalloc1024''), (1363, ''kmalloc1363''),
     (2048, ''kmalloc2048''), (4096, ''kmalloc4096'')]"

fun kmalloc_init_loop ::
  "(u32 \<Rightarrow> slub \<Rightarrow> (u32 \<times> slub) option) \<Rightarrow> nat \<Rightarrow> (u32 \<times> string) list \<Rightarrow> slub \<Rightarrow> slub option" where
  "kmalloc_init_loop memmap cpu [] s = Some s"
| "kmalloc_init_loop memmap cpu ((n, name) # bs) s = do {
     (_, s1) \<leftarrow> mem_cache_new memmap cpu name n 0 None s;
     kmalloc_init_loop memmap cpu bs s1 }"

definition kmalloc_init :: "(u32 \<Rightarrow> slub \<Rightarrow> (u32 \<times> slub) option) \<Rightarrow> nat \<Rightarrow> slub \<Rightarrow> slub option" where
  "kmalloc_init memmap cpu s = kmalloc_init_loop memmap cpu kmalloc_sizes s"

text \<open>The first size larger than the estimate, then one lower; \<open>prev\<close> is the entry before.\<close>
fun get_block_loop :: "u32 \<Rightarrow> (u32 \<times> string) option \<Rightarrow> (u32 \<times> string) list \<Rightarrow> u32 \<times> string" where
  "get_block_loop estimate prev [] = (0, '''')"
| "get_block_loop estimate prev (b # bs) =
     (if fst b > estimate then (case prev of None \<Rightarrow> b | Some b' \<Rightarrow> b')
      else get_block_loop estimate (Some b) bs)"

definition kmalloc_get_block :: "u32 \<Rightarrow> slub \<Rightarrow> (u32 \<times> string) option" where
  "kmalloc_get_block object s = do {
     let slab = object AND NOT 0x1FFF;
     h \<leftarrow> smem s slab;
     let object_count = SLAB_COUNT h;
     if object_count = 0 then None
     else Some (get_block_loop ((SLAB_SIZE - sizeof_mem_slab) div object_count) None kmalloc_sizes) }"

fun block_for_size_loop :: "u32 \<Rightarrow> (u32 \<times> string) list \<Rightarrow> u32 \<times> string" where
  "block_for_size_loop n [] = (0, '''')"
| "block_for_size_loop n (b # bs) = (if n < fst b then b else block_for_size_loop n bs)"

definition kmalloc_block_for_size :: "u32 \<Rightarrow> u32 \<times> string" where
  "kmalloc_block_for_size n = block_for_size_loop n kmalloc_sizes"

definition slub_kmalloc :: "(u32 \<Rightarrow> slub \<Rightarrow> (u32 \<times> slub) option) \<Rightarrow> nat \<Rightarrow> u32 \<Rightarrow> slub \<Rightarrow> (u32 \<times> slub) option" where
  "slub_kmalloc memmap cpu n s =
     (if n = 0 then Some (NULL, s)
      else let block = kmalloc_block_for_size n in
        if fst block = 0 then Some (NULL, s)
        else mem_cache_alloc memmap cpu (snd block) s)"

definition slub_krealloc :: "(u32 \<Rightarrow> u32 \<Rightarrow> u32 \<Rightarrow> slub \<Rightarrow> slub option)
    \<Rightarrow> (u32 \<Rightarrow> slub \<Rightarrow> (u32 \<times> slub) option) \<Rightarrow> nat \<Rightarrow> u32 \<Rightarrow> u32 \<Rightarrow> slub \<Rightarrow> (u32 \<times> slub) option" where
  "slub_krealloc memcpy memmap cpu ptr n s = do {
     current \<leftarrow> kmalloc_get_block ptr s;
     if fst current = 0 then Some (NULL, s)
     else let next_block = kmalloc_block_for_size n in
       if fst next_block = fst current then Some (ptr, s)
       else do {
         (next_ptr, s1) \<leftarrow> mem_cache_alloc memmap cpu (snd next_block) s;
         if next_ptr = NULL then Some (NULL, s1)
         else do {
           s2 \<leftarrow> memcpy next_ptr ptr (fst current) s1;
           s3 \<leftarrow> mem_cache_dealloc (snd current) ptr s2;
           Some (next_ptr, s3) } } }"

definition slub_kfree :: "u32 \<Rightarrow> slub \<Rightarrow> (bool \<times> slub) option" where
  "slub_kfree ptr s = do {
     block \<leftarrow> kmalloc_get_block ptr s;
     if fst block = 0 then Some (False, s)
     else do { s1 \<leftarrow> mem_cache_dealloc (snd block) ptr s; Some (True, s1) } }"

subsection \<open>The kernel heap\<close>

record kheap =
  early :: early_state
  slub :: slub
  kernel_mem_end :: u32
  kern_mem_early :: bool

definition lift_early :: "(early_state \<Rightarrow> (u32 \<times> early_state) option) \<Rightarrow> kheap \<Rightarrow> (u32 \<times> kheap) option" where
  "lift_early f k = do { (p, e) \<leftarrow> f (early k); Some (p, k\<lparr>early := e\<rparr>) }"

definition lift_slub :: "(slub \<Rightarrow> ('a \<times> slub) option) \<Rightarrow> kheap \<Rightarrow> ('a \<times> kheap) option" where
  "lift_slub f k = do { (p, s) \<leftarrow> f (slub k); Some (p, k\<lparr>slub := s\<rparr>) }"

definition kmalloc :: "(u32 \<Rightarrow> slub \<Rightarrow> (u32 \<times> slub) option) \<Rightarrow> nat
    \<Rightarrow> (u32 \<Rightarrow> kheap \<Rightarrow> (u32 \<times> kheap) option) \<Rightarrow> u32 \<Rightarrow> kheap \<Rightarrow> (u32 \<times> kheap) option" where
  "kmalloc memmap cpu large_alloc n k =
     (if kern_mem_early k then lift_early (early_kmalloc n) k
      else if n \<le> 4096 then lift_slub (slub_kmalloc memmap cpu n) k
      else large_alloc n k)"

definition kcalloc :: "(u32 \<Rightarrow> slub \<Rightarrow> (u32 \<times> slub) option) \<Rightarrow> nat
    \<Rightarrow> (u32 \<Rightarrow> kheap \<Rightarrow> (u32 \<times> kheap) option) \<Rightarrow> (u32 \<Rightarrow> u32 \<Rightarrow> kheap \<Rightarrow> kheap option)
    \<Rightarrow> u32 \<Rightarrow> u32 \<Rightarrow> kheap \<Rightarrow> (u32 \<times> kheap) option" where
  "kcalloc memmap cpu large_alloc memset0 count n k = do {
     (ptr, k1) \<leftarrow> kmalloc memmap cpu large_alloc (count * n) k;
     if ptr = NULL then Some (NULL, k1)
     else do { k2 \<leftarrow> memset0 ptr (count * n) k1; Some (ptr, k2) } }"

definition krealloc :: "(u32 \<Rightarrow> u32 \<Rightarrow> u32 \<Rightarrow> slub \<Rightarrow> slub option)
    \<Rightarrow> (u32 \<Rightarrow> slub \<Rightarrow> (u32 \<times> slub) option) \<Rightarrow> nat
    \<Rightarrow> (u32 \<Rightarrow> kheap \<Rightarrow> (u32 \<times> kheap) option) \<Rightarrow> u32 \<Rightarrow> u32 \<Rightarrow> kheap \<Rightarrow> (u32 \<times> kheap) option" where
  "krealloc memcpy memmap cpu large_alloc addr n k =
     (if addr = NULL then kmalloc memmap cpu large_alloc n k
      else if kern_mem_early k \<and> addr < kernel_mem_end k then Some (NULL, k)
      else lift_slub (slub_krealloc memcpy memmap cpu addr n) k)"

definition kfree :: "(u32 \<Rightarrow> kheap \<Rightarrow> (bool \<times> kheap) option) \<Rightarrow> u32 \<Rightarrow> kheap \<Rightarrow> kheap option" where
  "kfree large_dealloc addr k =
     (if kern_mem_early k \<and> addr < kernel_mem_end k then Some k
      else do {
        (done, k1) \<leftarrow> lift_slub (slub_kfree addr) k;
        if \<not> done then do { (_, k2) \<leftarrow> large_dealloc addr k1; Some k2 }
        else Some k1 })"

definition kmem_swap :: "kheap \<Rightarrow> kheap" where
  "kmem_swap k = (let (e, es) = early_kmalloc_end (early k) in
     k\<lparr>early := es, kernel_mem_end := e, kern_mem_early := False\<rparr>)"

subsection \<open>Choosing a class\<close>

lemma block_for_size_cases:
  "block_for_size_loop n bs = b \<Longrightarrow>
   (b \<in> set bs \<and> n < fst b \<and> (\<exists>xs ys. bs = xs @ b # ys \<and> (\<forall>x\<in>set xs. fst x \<le> n)))
   \<or> b = (0, '''') \<and> (\<forall>x\<in>set bs. fst x \<le> n)"
proof (induction bs)
  case Nil
  then show ?case by simp
next
  case (Cons a bs)
  show ?case
  proof (cases "n < fst a")
    case True
    with Cons.prems show ?thesis by fastforce
  next
    case False
    with Cons consider "b \<in> set bs" "n < fst b" "\<exists>xs ys. bs = xs @ b # ys \<and> (\<forall>x\<in>set xs. fst x \<le> n)"
      | "b = (0, '''')" "\<forall>x\<in>set bs. fst x \<le> n" by auto
    then show ?thesis
    proof cases
      case 1
      then obtain xs ys where "a # bs = (a # xs) @ b # ys" "\<forall>x\<in>set (a # xs). fst x \<le> n"
        using False by fastforce
      with 1 show ?thesis by (metis list.set_intros(2))
    next
      case 2
      with False show ?thesis by auto
    qed
  qed
qed

text \<open>kmalloc's size class is the smallest one strictly larger than the request, and there is one
  for exactly the requests below 4096 bytes.\<close>
lemma kmalloc_block_for_size_least:
  "if n < 4096
   then kmalloc_block_for_size n \<in> set kmalloc_sizes \<and> n < fst (kmalloc_block_for_size n)
        \<and> (\<forall>b\<in>set kmalloc_sizes. n < fst b \<longrightarrow> fst (kmalloc_block_for_size n) \<le> fst b)
   else kmalloc_block_for_size n = (0, '''')"
  unfolding kmalloc_block_for_size_def kmalloc_sizes_def
  by (auto simp: not_less word_le_nat_alt word_less_nat_alt)

lemma kmalloc_block_for_size_least_witness:
  "kmalloc_block_for_size 92 = (128, ''kmalloc128'')
   \<and> 92 < fst (kmalloc_block_for_size 92) \<and> fst (kmalloc_block_for_size 92) \<le> 196"
proof -
  have "(196, ''kmalloc196'') \<in> set kmalloc_sizes" by (simp add: kmalloc_sizes_def)
  then have "92 < fst (kmalloc_block_for_size 92) \<and> fst (kmalloc_block_for_size 92) \<le> 196"
    using kmalloc_block_for_size_least[of 92] by force
  moreover have "kmalloc_block_for_size 92 = (128, ''kmalloc128'')"
    by (simp add: kmalloc_block_for_size_def kmalloc_sizes_def)
  ultimately show ?thesis by simp
qed

text \<open>C28: The slab header tells the class of an object back: for every size class but 4096, an object
  of a slab that mem_slab_new laid out for it (its header counts the objects) is attributed to exactly
  that class; objects of the 4096 class are attributed to none.\<close>
theorem kmalloc_get_block_inverse:
  assumes "smem s (object AND NOT 0x1FFF) = Some (object_count (fst b))" and "b \<in> set kmalloc_sizes"
  shows "kmalloc_get_block object s = Some (if fst b = 4096 then (0, '''') else b)"
proof -
  have "\<forall>b\<in>set kmalloc_sizes. SLAB_COUNT (object_count (fst b)) \<noteq> 0 \<and>
      get_block_loop ((SLAB_SIZE - sizeof_mem_slab) div SLAB_COUNT (object_count (fst b))) None kmalloc_sizes
      = (if fst b = 4096 then (0, '''') else b)"
    by (simp add: kmalloc_sizes_def object_count_def SLAB_COUNT_def SLAB_SIZE_def sizeof_mem_slab_def)
  with assms show ?thesis by (auto simp: kmalloc_get_block_def Let_def)
qed

theorem kmalloc_get_block_inverse_witness:
  "kmalloc_get_block 0xD0002008 \<lparr>caches = [], smem = [0xD0002000 \<mapsto> object_count 196]\<rparr>
   = Some (if (196 :: u32) = 4096 then (0, '''') else (196, ''kmalloc196''))"
  using kmalloc_get_block_inverse[of "\<lparr>caches = [], smem = [0xD0002000 \<mapsto> object_count 196]\<rparr>" "0xD0002008"
      "(196, ''kmalloc196'')"]
  by (simp add: kmalloc_sizes_def)

text \<open>Once the early allocator is off, kmalloc of exactly 4096 bytes always fails: the dispatch
  sends it to the size classes, whose largest serves requests below 4096 only.\<close>
lemma kmalloc_4096_fails:
  assumes "\<not> kern_mem_early k"
  shows "kmalloc memmap cpu large_alloc 4096 k = Some (NULL, k)"
  using assms by (simp add: kmalloc_def lift_slub_def slub_kmalloc_def kmalloc_block_for_size_def
      kmalloc_sizes_def)

lemma kmalloc_4096_fails_witness:
  "kmalloc (\<lambda>fl s. None) 0 (\<lambda>n k. None) 4096
     \<lparr>early = \<lparr>early_memory_base = 0, early_memory_end = 0\<rparr>, slub = \<lparr>caches = [], smem = Map.empty\<rparr>,
      kernel_mem_end = 0xC0118000, kern_mem_early = False\<rparr>
   = Some (NULL, \<lparr>early = \<lparr>early_memory_base = 0, early_memory_end = 0\<rparr>, slub = \<lparr>caches = [], smem = Map.empty\<rparr>,
      kernel_mem_end = 0xC0118000, kern_mem_early = False\<rparr>)"
  by (rule kmalloc_4096_fails) simp

subsection \<open>The early guard\<close>

text \<open>A function of the large allocator leaves the two globals of \<open>kmalloc.c\<close> alone.\<close>
definition keeps_globals :: "(u32 \<Rightarrow> kheap \<Rightarrow> ('a \<times> kheap) option) \<Rightarrow> bool" where
  "keeps_globals f \<longleftrightarrow> (\<forall>n k p k'. f n k = Some (p, k') \<longrightarrow>
     kern_mem_early k' = kern_mem_early k \<and> kernel_mem_end k' = kernel_mem_end k)"

text \<open>Everything the kernel does with its heap, from the state of the data section.\<close>
inductive heap_reachable :: "kheap \<Rightarrow> bool" where
  boot: "kern_mem_early k \<Longrightarrow> kernel_mem_end k = 0 \<Longrightarrow> heap_reachable k"
| alloc: "heap_reachable k \<Longrightarrow> keeps_globals large_alloc \<Longrightarrow>
    kmalloc memmap cpu large_alloc n k = Some (p, k') \<Longrightarrow> heap_reachable k'"
| realloc: "heap_reachable k \<Longrightarrow> keeps_globals large_alloc \<Longrightarrow>
    krealloc memcpy memmap cpu large_alloc addr n k = Some (p, k') \<Longrightarrow> heap_reachable k'"
| free: "heap_reachable k \<Longrightarrow> keeps_globals large_dealloc \<Longrightarrow>
    kfree large_dealloc addr k = Some k' \<Longrightarrow> heap_reachable k'"
| swap: "heap_reachable k \<Longrightarrow> heap_reachable (kmem_swap k)"

lemma lift_globals:
  "lift_early f k = Some (p, k') \<Longrightarrow> kern_mem_early k' = kern_mem_early k \<and> kernel_mem_end k' = kernel_mem_end k"
  "lift_slub g k = Some (q, k') \<Longrightarrow> kern_mem_early k' = kern_mem_early k \<and> kernel_mem_end k' = kernel_mem_end k"
  by (auto simp: lift_early_def lift_slub_def split: bind_splits)

lemma kmalloc_globals:
  "kmalloc memmap cpu large_alloc n k = Some (p, k') \<Longrightarrow> keeps_globals large_alloc \<Longrightarrow>
   kern_mem_early k' = kern_mem_early k \<and> kernel_mem_end k' = kernel_mem_end k"
  by (auto simp: kmalloc_def keeps_globals_def split: if_splits dest: lift_globals)

lemma krealloc_globals:
  "krealloc memcpy memmap cpu large_alloc addr n k = Some (p, k') \<Longrightarrow> keeps_globals large_alloc \<Longrightarrow>
   kern_mem_early k' = kern_mem_early k \<and> kernel_mem_end k' = kernel_mem_end k"
  by (auto simp: krealloc_def split: if_splits dest: lift_globals kmalloc_globals)

lemma kfree_globals:
  "kfree large_dealloc addr k = Some k' \<Longrightarrow> keeps_globals large_dealloc \<Longrightarrow>
   kern_mem_early k' = kern_mem_early k \<and> kernel_mem_end k' = kernel_mem_end k"
  by (auto simp: kfree_def keeps_globals_def split: if_splits bind_splits prod.splits dest!: lift_globals)

lemma heap_reachable_end: "heap_reachable k \<Longrightarrow> kern_mem_early k \<longrightarrow> kernel_mem_end k = 0"
  by (induction rule: heap_reachable.induct)
    (auto dest: kmalloc_globals krealloc_globals kfree_globals simp: kmem_swap_def split: prod.splits)

text \<open>The guard "early kernel memory is forever" of kfree never applies: kernel_mem_end is set only
  when the early phase ends, so in every reachable state of the early phase it is 0 and kfree hands
  the address to the slab lookup even though no slab exists for it.\<close>
lemma kfree_early_guard_dead:
  assumes "heap_reachable k"
  shows "\<not> (kern_mem_early k \<and> addr < kernel_mem_end k)
    \<and> kfree large_dealloc addr k = (do {
        (done, k1) \<leftarrow> lift_slub (slub_kfree addr) k;
        if \<not> done then do { (_, k2) \<leftarrow> large_dealloc addr k1; Some k2 } else Some k1 })"
  using heap_reachable_end[OF assms] by (auto simp: kfree_def)

lemma kfree_early_guard_dead_witness:
  "\<not> (kern_mem_early \<lparr>early = \<lparr>early_memory_base = 64, early_memory_end = 96\<rparr>, slub = \<lparr>caches = [],
        smem = Map.empty\<rparr>, kernel_mem_end = 0, kern_mem_early = True\<rparr> \<and> (32 :: u32) < kernel_mem_end
        \<lparr>early = \<lparr>early_memory_base = 64, early_memory_end = 96\<rparr>, slub = \<lparr>caches = [],
        smem = Map.empty\<rparr>, kernel_mem_end = 0, kern_mem_early = True\<rparr>)"
  using kfree_early_guard_dead[OF heap_reachable.boot, of "\<lparr>early = \<lparr>early_memory_base = 64, early_memory_end = 96\<rparr>,
      slub = \<lparr>caches = [], smem = Map.empty\<rparr>, kernel_mem_end = 0, kern_mem_early = True\<rparr>" "32"]
  by simp

end
