(* ===== verification/Large.thy ===== *)
theory Large
  imports Layout
begin

text \<open>
  \<open>src/src/kernel/mem/large.c\<close>: allocations above a page, and \<open>cas\<close> of
  \<open>src/src/arch/i386/interrupts/cas.asm\<close>, which it uses for its list. The list nodes
  (\<open>large_mem_t\<close>) are three heaps indexed by the node's address; \<open>memmap\<close>, \<open>memunmap\<close> and
  \<open>kmalloc\<close> act on the environment \<open>'s\<close> and are arguments. \<open>g_addr\<close> is \<open>&g_lmem\<close>.
\<close>

record 's large =
  g_lmem :: u32
  lm_next :: "u32 \<Rightarrow> u32"
  lm_base :: "u32 \<Rightarrow> u32"
  lm_length :: "u32 \<Rightarrow> u32"
  lm_env :: 's

text \<open>
  \<open>cas\<close> compares \<open>eax\<close>, the old value, with \<open>[ebp + 8]\<close>: the stack slot that holds the pointer
  argument itself, not the cell it points to. The exchange also goes to that slot, so no memory of
  the caller changes. The result is ZF xor 1.
\<close>
definition cas :: "u32 \<Rightarrow> u32 \<Rightarrow> u32 \<Rightarrow> u32" where
  "cas ptr old new = (if ptr = old then 1 else 0) XOR 1"

text \<open>One round of the loop; the loop ends when \<open>cas\<close> returns non-zero.\<close>
partial_function (option) large_mem_add_block :: "u32 \<Rightarrow> u32 \<Rightarrow> 's large \<Rightarrow> 's large option" where
  "large_mem_add_block g_addr lmem s =
     (let old = g_lmem s; s1 = s\<lparr>lm_next := (lm_next s)(lmem := old)\<rparr> in
      if cas g_addr old lmem \<noteq> 0 then Some s1 else large_mem_add_block g_addr lmem s1)"

text \<open>\<open>prev\<close> is NULL or a node; \<open>&prev->next\<close> is \<open>prev\<close>, the first field.\<close>
definition large_mem_rem_block :: "u32 \<Rightarrow> u32 \<Rightarrow> u32 \<Rightarrow> 's large \<Rightarrow> u32" where
  "large_mem_rem_block g_addr lmem prev s =
     (if prev = NULL then (if cas g_addr lmem (lm_next s lmem) \<noteq> 0 then 0 else 1)
      else if lm_next s prev \<noteq> lmem then 0
      else if cas prev lmem (lm_next s lmem) \<noteq> 0 then 0
      else 1)"

text \<open>\<open>PAGE_SIZE\<close> is 0x1000; flags \<open>MMAP_RW | MMAP_URGENT\<close> are 6.\<close>
definition large_pages :: "u32 \<Rightarrow> u32" where
  "large_pages amount = (amount * 0x1000) div 0x1000"

definition large_mem_alloc :: "(u32 \<Rightarrow> u32 \<Rightarrow> 's \<Rightarrow> (u32 \<times> 's) option) \<Rightarrow> (u32 \<Rightarrow> u32 \<Rightarrow> 's \<Rightarrow> 's option)
    \<Rightarrow> (u32 \<Rightarrow> 's \<Rightarrow> (u32 \<times> 's) option) \<Rightarrow> u32 \<Rightarrow> u32 \<Rightarrow> 's large \<Rightarrow> (u32 \<times> 's large) option" where
  "large_mem_alloc memmap memunmap kmalloc g_addr amount s =
     (let pages = large_pages amount in
      if pages < 1 then Some (NULL, s)
      else do {
        (addr, e1) \<leftarrow> memmap pages 6 (lm_env s);
        if addr = NULL then Some (NULL, s\<lparr>lm_env := e1\<rparr>)
        else do {
          (lmem, e2) \<leftarrow> kmalloc (sizeof large_mem_layout) e1;
          if lmem = NULL then do { e3 \<leftarrow> memunmap addr pages e2; Some (NULL, s\<lparr>lm_env := e3\<rparr>) }
          else do {
            s1 \<leftarrow> large_mem_add_block g_addr lmem
              (s\<lparr>lm_base := (lm_base s)(lmem := addr), lm_length := (lm_length s)(lmem := amount), lm_env := e2\<rparr>);
            Some (addr, s1) } } })"

text \<open>The search; \<open>prev\<close> is set to NULL in every round, as in the code.\<close>
partial_function (option) large_find :: "u32 \<Rightarrow> u32 \<Rightarrow> 's large \<Rightarrow> u32 option" where
  "large_find ptr node s =
     (if node = NULL then Some NULL
      else if lm_base s node = ptr then Some node
      else large_find ptr (lm_next s node) s)"

definition large_mem_dealloc :: "u32 \<Rightarrow> u32 \<Rightarrow> 's large \<Rightarrow> u32 option" where
  "large_mem_dealloc g_addr ptr s = do {
     node \<leftarrow> large_find ptr (g_lmem s) s;
     if node = NULL then Some 0
     else if large_mem_rem_block g_addr node NULL s = 0 then Some 0
     else Some 1 }"

definition large_mem_init :: "'s large \<Rightarrow> 's large" where
  "large_mem_init s = s\<lparr>g_lmem := NULL\<rparr>"

subsection \<open>What the large allocator does\<close>

lemma cas_values: "cas p p v = 0" "p \<noteq> old \<Longrightarrow> cas p old v = 1"
  by (simp_all add: cas_def)

lemma add_block_keeps_head:
  assumes "g_lmem s \<noteq> g_addr"
  shows "large_mem_add_block g_addr lmem s = Some (s\<lparr>lm_next := (lm_next s)(lmem := g_lmem s)\<rparr>)"
  using assms by (subst large_mem_add_block.simps) (simp add: Let_def cas_values)

text \<open>The size handed to memmap is the requested one modulo 2 to the 20: multiplying and dividing by
  the page size loses the upper twelve bits, so a request of a multiple of 1 MiB is refused and any
  larger request gets less address space than it asked for.\<close>
lemma large_pages_truncates: "unat (large_pages amount) = unat amount mod 2 ^ 20"
proof -
  have "unat (large_pages amount) = (unat amount * 4096) mod (1048576 * 4096) div 4096"
    by (simp add: large_pages_def unat_div unat_word_ariths)
  also have "\<dots> = unat amount mod 1048576"
    by (simp only: mult_mod_left[symmetric])
  finally show ?thesis by simp
qed

fun large_allocs :: "(u32 \<Rightarrow> u32 \<Rightarrow> 's \<Rightarrow> (u32 \<times> 's) option) \<Rightarrow> (u32 \<Rightarrow> u32 \<Rightarrow> 's \<Rightarrow> 's option)
    \<Rightarrow> (u32 \<Rightarrow> 's \<Rightarrow> (u32 \<times> 's) option) \<Rightarrow> u32 \<Rightarrow> u32 list \<Rightarrow> 's large \<Rightarrow> 's large option" where
  "large_allocs mm mu km g_addr [] s = Some s"
| "large_allocs mm mu km g_addr (n # ns) s = do {
     (_, s1) \<leftarrow> large_mem_alloc mm mu km g_addr n s; large_allocs mm mu km g_addr ns s1 }"

lemma large_mem_alloc_head:
  "large_mem_alloc mm mu km g_addr n s = Some (p, s') \<Longrightarrow> g_lmem s = NULL \<Longrightarrow> g_addr \<noteq> NULL \<Longrightarrow> g_lmem s' = NULL"
  by (auto simp: large_mem_alloc_def Let_def add_block_keeps_head split: bind_splits if_splits)

lemma large_allocs_head:
  "large_allocs mm mu km g_addr ns s = Some s' \<Longrightarrow> g_lmem s = NULL \<Longrightarrow> g_addr \<noteq> NULL \<Longrightarrow> g_lmem s' = NULL"
  by (induction ns arbitrary: s) (auto dest: large_mem_alloc_head split: bind_splits)

text \<open>No large allocation is ever recorded: cas compares the address of the list head instead of
  the head, so after large_mem_init and any sequence of allocations the list is still empty and
  large_mem_dealloc returns 0 for every pointer.\<close>
lemma large_mem_dealloc_never_finds:
  assumes "large_allocs mm mu km g_addr ns (large_mem_init s) = Some s'" and "g_addr \<noteq> NULL"
  shows "large_mem_dealloc g_addr ptr s' = Some 0"
proof -
  have "g_lmem s' = NULL" using large_allocs_head[OF assms(1)] assms(2) by (simp add: large_mem_init_def)
  then show ?thesis by (simp add: large_mem_dealloc_def large_find.simps)
qed

lemma large_mem_dealloc_never_finds_witness:
  "\<exists>s'. large_allocs (\<lambda>n f e. Some (0xD0000000, e)) (\<lambda>a n e. Some e) (\<lambda>n e. Some (0xC0110000, e)) 0xC0108000 [8192]
      (large_mem_init \<lparr>g_lmem = 5, lm_next = \<lambda>p. 0, lm_base = \<lambda>p. 0, lm_length = \<lambda>p. 0, lm_env = ()\<rparr>) = Some s'
   \<and> lm_base s' 0xC0110000 = 0xD0000000 \<and> large_mem_dealloc 0xC0108000 0xD0000000 s' = Some 0"
proof -
  let ?s = "\<lparr>g_lmem = 0, lm_next = \<lambda>p. 0, lm_base = (\<lambda>p. 0)(0xC0110000 := 0xD0000000),
      lm_length = (\<lambda>p. 0)(0xC0110000 := 8192), lm_env = ()\<rparr>"
  have r: "large_allocs (\<lambda>n f e. Some (0xD0000000, e)) (\<lambda>a n e. Some e) (\<lambda>n e. Some (0xC0110000, e)) 0xC0108000 [8192]
      (large_mem_init \<lparr>g_lmem = 5, lm_next = \<lambda>p. 0, lm_base = \<lambda>p. 0, lm_length = \<lambda>p. 0, lm_env = ()\<rparr>) = Some ?s"
    by (simp add: large_mem_init_def large_mem_alloc_def Let_def large_pages_def add_block_keeps_head fun_upd_def)
  show ?thesis using r large_mem_dealloc_never_finds[OF r] by auto
qed

end
