(* ===== verification/CList.thy ===== *)
theory CList
  imports Buffer Kmalloc
begin

text \<open>
  \<open>src/src/std/list.c\<close>: the growing pointer list. A \<open>list_t\<close> is a record; the block its \<open>data\<close>
  points to is kept as the bytes of that block (\<open>l_buf\<close>), so that the byte counts the code passes to
  \<open>memcpy\<close> and \<open>krealloc\<close> mean what they do in C. \<open>kmalloc\<close>, \<open>krealloc\<close> and \<open>kfree\<close> are arguments
  (\<open>malloc\<close>, \<open>realloc\<close>, \<open>free\<close>) that act on the heap \<open>'s\<close>; \<open>realloc\<close> takes and returns the pointer and the bytes of the block.
\<close>

record clist =
  l_index :: u32
  l_count :: u32
  l_data :: u32
  l_buf :: "u8 list"

definition LIST_GROWTH :: u32 where "LIST_GROWTH = 32"

definition list_init :: clist where
  "list_init = \<lparr>l_index = 0, l_count = 0, l_data = NULL, l_buf = []\<rparr>"

text \<open>\<open>None\<close> stands for NULL.\<close>
definition list_new :: "(u32 \<Rightarrow> 's \<Rightarrow> (u32 \<times> 's)) \<Rightarrow> 's \<Rightarrow> clist option \<times> 's" where
  "list_new malloc s =
     (let (p, s1) = malloc (sizeof list_layout) s in if p = NULL then (None, s1) else (Some list_init, s1))"

definition list_store :: "clist \<Rightarrow> u32 \<Rightarrow> clist option" where
  "list_store l data = do {
     buf \<leftarrow> store32 (l_buf l) (4 * unat (l_index l)) data;
     Some (l\<lparr>l_index := l_index l + 1, l_buf := buf\<rparr>) }"

definition list_add :: "(u32 \<Rightarrow> u8 list \<Rightarrow> u32 \<Rightarrow> 's \<Rightarrow> (u32 \<times> u8 list \<times> 's) option) \<Rightarrow> clist \<Rightarrow> u32 \<Rightarrow> 's
    \<Rightarrow> (clist \<times> 's) option" where
  "list_add realloc l data s =
     (if l_index l + 1 > l_count l then do {
        (tmp, buf, s1) \<leftarrow> realloc (l_data l) (l_buf l) (l_count l + LIST_GROWTH) s;
        if tmp = NULL then Some (l, s1)
        else do {
          l1 \<leftarrow> list_store (l\<lparr>l_data := tmp, l_buf := buf\<rparr>) data;
          Some (l1, s1) } }
      else do { l1 \<leftarrow> list_store l data; Some (l1, s) })"

definition list_get :: "clist \<Rightarrow> u32 \<Rightarrow> u32 option" where
  "list_get l index =
     (if index > l_index l \<or> l_data l = NULL then Some NULL
      else load32 (l_buf l) (4 * unat index))"

definition list_rem :: "clist \<Rightarrow> u32 \<Rightarrow> clist option" where
  "list_rem l index =
     (if index > l_index l \<or> l_data l = NULL then Some l
      else do {
        buf \<leftarrow> bcopy (l_buf l) (4 * unat index) (4 * unat index + 4) (unat (l_index l - index - 1));
        Some (l\<lparr>l_index := l_index l - 1, l_buf := buf\<rparr>) })"

fun list_find_loop :: "clist \<Rightarrow> u32 \<Rightarrow> nat \<Rightarrow> nat \<Rightarrow> u32 option" where
  "list_find_loop l data i 0 = Some (- 1)"
| "list_find_loop l data i (Suc n) = do {
     x \<leftarrow> load32 (l_buf l) (4 * i);
     if x = data then Some (of_nat i) else list_find_loop l data (Suc i) n }"

definition list_find :: "clist \<Rightarrow> u32 \<Rightarrow> u32 option" where
  "list_find l data =
     (if l_data l = NULL then Some (- 1) else list_find_loop l data 0 (unat (l_index l)))"

fun list_free_loop :: "(u32 \<Rightarrow> 's \<Rightarrow> 's option) \<Rightarrow> clist \<Rightarrow> nat \<Rightarrow> nat \<Rightarrow> 's \<Rightarrow> 's option" where
  "list_free_loop free_fn l i 0 s = Some s"
| "list_free_loop free_fn l i (Suc n) s = do {
     x \<leftarrow> load32 (l_buf l) (4 * i);
     s1 \<leftarrow> free_fn x s;
     list_free_loop free_fn l (Suc i) n s1 }"

text \<open>The list itself is not freed, as in the code.\<close>
definition list_free :: "(u32 \<Rightarrow> 's \<Rightarrow> 's option) \<Rightarrow> clist \<Rightarrow> (u32 \<Rightarrow> 's \<Rightarrow> 's option) option \<Rightarrow> 's \<Rightarrow> 's option" where
  "list_free free l free_fn s =
     (if l_data l \<noteq> NULL then do {
        s1 \<leftarrow> (case free_fn of None \<Rightarrow> Some s | Some f \<Rightarrow> list_free_loop f l 0 (unat (l_index l)) s);
        free (l_data l) s1 }
      else Some s)"

subsection \<open>The elements of a list\<close>

definition list_holds :: "clist \<Rightarrow> u32 list \<Rightarrow> bool" where
  "list_holds l xs \<longleftrightarrow> l_index l = of_nat (length xs) \<and> 4 * length xs \<le> length (l_buf l)
     \<and> length (l_buf l) < 4294967296 \<and> (\<forall>i < length xs. load32 (l_buf l) (4 * i) = Some (xs ! i))"

lemma list_holds_index: "list_holds l xs \<Longrightarrow> unat (l_index l) = length xs"
  by (auto simp: list_holds_def intro: unat_of_nat32)

lemma list_holds_init: "list_holds list_init []"
  by (simp add: list_holds_def list_init_def)

lemma list_store_appends:
  assumes "list_holds l xs" and "4 * length xs + 4 \<le> length (l_buf l)"
  shows "\<exists>l'. list_store l x = Some l' \<and> list_holds l' (xs @ [x]) \<and> l_count l' = l_count l
    \<and> l_data l' = l_data l \<and> length (l_buf l') = length (l_buf l)"
proof -
  obtain b where b: "store32 (l_buf l) (4 * length xs) x = Some b" using store32_ok assms(2) by blast
  have "load32 b (4 * i) = Some (xs ! i)" if "i < length xs" for i
    using load32_store32_other[OF b, of "4 * i"] that assms(1) by (auto simp: list_holds_def)
  moreover have "load32 b (4 * length xs) = Some x" using b by (rule load32_store32_same)
  moreover have "length b = length (l_buf l)" using b by (rule store32_length)
  ultimately show ?thesis using assms b list_holds_index[OF assms(1)]
    by (auto simp: list_store_def list_holds_def nth_append less_Suc_eq)
qed

lemma list_store_overruns:
  "list_holds l xs \<Longrightarrow> length (l_buf l) < 4 * length xs + 4 \<Longrightarrow> list_store l x = None"
  by (simp add: list_store_def list_holds_index store32_def bput_def)

lemma list_find_loop_first:
  assumes "list_holds l xs" and "i + n = length xs"
  shows "list_find_loop l x i n = Some (if x \<in> set (drop i xs)
    then of_nat (i + length (takeWhile (\<lambda>y. y \<noteq> x) (drop i xs))) else - 1)"
  using assms
proof (induction n arbitrary: i)
  case 0
  then show ?case by simp
next
  case (Suc n)
  then have "load32 (l_buf l) (4 * i) = Some (xs ! i)" "drop i xs = xs ! i # drop (Suc i) xs"
    by (auto simp: list_holds_def Cons_nth_drop_Suc)
  with Suc.IH[of "Suc i"] Suc.prems show ?case by auto
qed

fun list_add_all :: "(u32 \<Rightarrow> u8 list \<Rightarrow> u32 \<Rightarrow> 's \<Rightarrow> (u32 \<times> u8 list \<times> 's) option) \<Rightarrow> clist \<Rightarrow> u32 list \<Rightarrow> 's
    \<Rightarrow> (clist \<times> 's) option" where
  "list_add_all realloc l [] s = Some (l, s)"
| "list_add_all realloc l (x # xs) s = do {
     (l1, s1) \<leftarrow> list_add realloc l x s; list_add_all realloc l1 xs s1 }"

text \<open>What \<open>realloc\<close> does for a request of 32 bytes: from NULL it gives a block of the size class of
  that request, and a block of that class stays where it is.\<close>
definition realloc_class32 :: "(u32 \<Rightarrow> u8 list \<Rightarrow> u32 \<Rightarrow> 's \<Rightarrow> (u32 \<times> u8 list \<times> 's) option) \<Rightarrow> u32 \<Rightarrow> 's \<Rightarrow> 's \<Rightarrow> bool" where
  "realloc_class32 realloc p s s1 \<longleftrightarrow> p \<noteq> NULL
     \<and> (\<exists>buf. realloc NULL [] 32 s = Some (p, buf, s1) \<and> length buf = unat (fst (kmalloc_block_for_size 32)))
     \<and> (\<forall>buf. length buf = unat (fst (kmalloc_block_for_size 32)) \<longrightarrow> realloc p buf 32 s1 = Some (p, buf, s1))"

text \<open>The size classes indeed leave such a block where it is.\<close>
lemma slub_krealloc_same_class:
  assumes "smem s (ptr AND NOT 0x1FFF) = Some (object_count (fst (kmalloc_block_for_size n)))" and "n < 2048"
  shows "slub_krealloc copy memmap cpu ptr n s = Some (ptr, s)"
proof -
  have b: "kmalloc_block_for_size n \<in> set kmalloc_sizes \<and> fst (kmalloc_block_for_size n) \<notin> {0, 4096}"
    using assms(2) by (auto simp: kmalloc_block_for_size_def kmalloc_sizes_def)
  have "\<forall>b\<in>set kmalloc_sizes. fst b \<noteq> 4096 \<longrightarrow> SLAB_COUNT (object_count (fst b)) \<noteq> 0 \<and>
      get_block_loop ((SLAB_SIZE - sizeof_mem_slab) div SLAB_COUNT (object_count (fst b))) None kmalloc_sizes = b"
    by (simp add: kmalloc_sizes_def object_count_def SLAB_COUNT_def SLAB_SIZE_def sizeof_mem_slab_def)
  with b assms(1) show ?thesis by (auto simp: slub_krealloc_def kmalloc_get_block_def Let_def)
qed

lemma list_add_all_block:
  assumes "list_holds l xs" and "l_count l = 0" and "l_data l = p" and "length (l_buf l) = 64"
    and "realloc_class32 realloc p s s1" and "length xs \<le> 16"
  shows "if length xs + length ys \<le> 16
    then \<exists>l'. list_add_all realloc l ys s1 = Some (l', s1) \<and> list_holds l' (xs @ ys) \<and> (l_data l' = p)
    else list_add_all realloc l ys s1 = None"
  using assms
proof (induction ys arbitrary: l xs)
  case Nil
  then show ?case by auto
next
  case (Cons y ys)
  have k: "realloc p (l_buf l) 32 s1 = Some (p, l_buf l, s1)" and p: "p \<noteq> NULL"
    using Cons.prems by (auto simp: realloc_class32_def kmalloc_block_for_size_def kmalloc_sizes_def)
  have ix: "l_index l + 1 > 0"
    using list_holds_index[OF Cons.prems(1)] Cons.prems(6) by (simp add: word_less_nat_alt)
  have same: "l\<lparr>l_data := p\<rparr> = l" using Cons.prems(3) by (cases l) auto
  have add: "list_add realloc l y s1 = map_option (\<lambda>l1. (l1, s1)) (list_store l y)"
    using ix Cons.prems(2,3) k p by (cases "list_store l y") (simp_all add: list_add_def LIST_GROWTH_def same)
  show ?case
  proof (cases "length xs = 16")
    case True
    then have "list_store l y = None" using Cons.prems by (intro list_store_overruns) auto
    then show ?thesis using add True by simp
  next
    case False
    then obtain l1 where l1: "list_store l y = Some l1" "list_holds l1 (xs @ [y])" "l_count l1 = 0"
        "l_data l1 = p" "length (l_buf l1) = 64"
      using list_store_appends[OF Cons.prems(1)] Cons.prems by fastforce
    have "list_add_all realloc l (y # ys) s1 = list_add_all realloc l1 ys s1" using add l1(1) by simp
    moreover have "length (xs @ [y]) \<le> 16" using Cons.prems(6) False by simp
    ultimately show ?thesis using Cons.IH[OF l1(2,3,4,5) Cons.prems(5)]
      by (cases "length xs + length ys \<le> 15") simp_all
  qed
qed

subsection \<open>The properties\<close>

text \<open>Adding pointers to a list fresh from list_init keeps them in order, and list_find gives
  each pointer's first index, as long as there are at most 16; the 17th store leaves the list's block,
  because list_add asks realloc for 32 bytes and never for more.\<close>
lemma list_add_sixteen:
  assumes "realloc_class32 realloc p s s1" and "xs \<noteq> []"
  shows "if length xs \<le> 16
    then \<exists>l. list_add_all realloc list_init xs s = Some (l, s1) \<and> list_holds l xs
       \<and> (\<forall>x. list_find l x = Some (if x \<in> set xs then of_nat (length (takeWhile (\<lambda>y. y \<noteq> x) xs)) else - 1))
    else list_add_all realloc list_init xs s = None"
proof -
  obtain y ys where xs: "xs = y # ys" using assms(2) by (cases xs) auto
  obtain buf where buf: "realloc NULL [] 32 s = Some (p, buf, s1)" "length buf = 64" and p: "p \<noteq> NULL"
    using assms(1) by (auto simp: realloc_class32_def kmalloc_block_for_size_def kmalloc_sizes_def)
  let ?l = "list_init\<lparr>l_data := p, l_buf := buf\<rparr>"
  have "list_holds ?l []" using buf(2) by (simp add: list_holds_def list_init_def)
  from list_store_appends[OF this] buf(2) obtain l1 where l1: "list_store ?l y = Some l1"
      "list_holds l1 [y]" "l_count l1 = 0" "l_data l1 = p" "length (l_buf l1) = 64"
    by (fastforce simp: list_init_def)
  have "list_add realloc list_init y s = Some (l1, s1)"
    using buf p l1(1) by (simp add: list_add_def list_init_def LIST_GROWTH_def)
  then have eq: "list_add_all realloc list_init xs s = list_add_all realloc l1 ys s1" by (simp add: xs)
  have "list_find l x = Some (if x \<in> set xs then of_nat (length (takeWhile (\<lambda>y. y \<noteq> x) xs)) else - 1)"
    if "list_holds l xs" "l_data l = p" for l x
    using list_find_loop_first[OF that(1), of 0 "length xs" x] that p by (simp add: list_find_def list_holds_index)
  then show ?thesis using list_add_all_block[OF l1(2-5) assms(1), of ys] unfolding eq by (auto simp: xs)
qed

definition sample_realloc :: "u32 \<Rightarrow> u8 list \<Rightarrow> u32 \<Rightarrow> unit \<Rightarrow> (u32 \<times> u8 list \<times> unit) option" where
  "sample_realloc p buf n s = Some (if p = NULL then (0xC0200008, replicate 64 0, s) else (p, buf, s))"

lemma list_add_sixteen_witness:
  "\<exists>l. list_add_all sample_realloc list_init [7, 9, 7] () = Some (l, ()) \<and> list_holds l [7, 9, 7]
   \<and> list_find l 9 = Some 1 \<and> list_find l 5 = Some (- 1)"
proof -
  have "realloc_class32 sample_realloc 0xC0200008 () ()"
    by (simp add: realloc_class32_def sample_realloc_def kmalloc_block_for_size_def kmalloc_sizes_def)
  from list_add_sixteen[OF this, of "[7, 9, 7]"] show ?thesis by auto
qed

subsection \<open>Removal\<close>

lemma list_holds_prefix: "list_holds l (xs @ ys) \<Longrightarrow> l' = l\<lparr>l_index := of_nat (length xs)\<rparr> \<Longrightarrow> list_holds l' xs"
  by (auto simp: list_holds_def nth_append split: if_splits)

lemma list_rem_last:
  assumes "list_holds l (xs @ [x])" and "l_data l \<noteq> NULL"
  shows "\<exists>l'. list_rem l (of_nat (length xs)) = Some l' \<and> list_holds l' xs"
proof -
  have i: "l_index l = of_nat (length xs) + 1" using assms(1) by (simp add: list_holds_def add.commute)
  have n: "unat (of_nat (length xs) :: u32) = length xs"
    using assms(1) by (intro unat_of_nat32) (auto simp: list_holds_def)
  have "unat (l_index l) = length xs + 1" using list_holds_index[OF assms(1)] by simp
  then have "\<not> of_nat (length xs) > l_index l" using n by (simp add: word_less_nat_alt)
  then show ?thesis using assms i list_holds_prefix[OF assms(1)] by (simp add: list_rem_def)
qed

lemma list_rem_next_to_last:
  assumes "list_holds l (xs @ [x, y])" and "l_data l \<noteq> NULL"
  shows "\<exists>l'. list_rem l (of_nat (length xs)) = Some l'
      \<and> list_holds l' (xs @ [(x AND NOT 0xFF) OR (y AND 0xFF)])"
proof -
  let ?k = "4 * length xs" and ?b = "l_buf l"
  let ?B = "?b[?k := ?b ! (?k + 4)]"
  have i: "l_index l = of_nat (length xs) + 2" and len: "?k + 8 \<le> length ?b"
    using assms(1) by (simp_all add: list_holds_def add.commute)
  have n: "unat (of_nat (length xs) :: u32) = length xs"
    using assms(1) by (intro unat_of_nat32) (auto simp: list_holds_def)
  have "unat (l_index l) = length xs + 2" using list_holds_index[OF assms(1)] by simp
  then have le: "\<not> of_nat (length xs) > l_index l" using n by (simp add: word_less_nat_alt)
  have cp: "bcopy ?b ?k (?k + 4) 1 = Some ?B" using len by (simp add: aget_def aset_def)
  have r: "list_rem l (of_nat (length xs)) = Some (l\<lparr>l_index := of_nat (length xs) + 1, l_buf := ?B\<rparr>)"
    using le assms(2) i n cp by (simp add: list_rem_def)
  have e: "\<forall>i < length (xs @ [x, y]). load32 ?b (4 * i) = Some ((xs @ [x, y]) ! i)"
    using assms(1) unfolding list_holds_def by blast
  have x: "load32 ?b ?k = Some x" and y: "load32 ?b (?k + 4) = Some y"
    using e[rule_format, of "length xs"] e[rule_format, of "Suc (length xs)"] by (simp_all add: nth_append add.commute)
  have xs: "\<forall>i < length xs. load32 ?b (4 * i) = Some (xs ! i)"
    using e by (auto simp: nth_append)
  have B: "load32 ?B ?k = Some ((x AND NOT 0xFF) OR (y AND 0xFF))"
  proof -
    have xx: "of_le32 [?b ! ?k, ?b ! (?k + 1), ?b ! (?k + 2), ?b ! (?k + 3)] = x"
      using x len by (simp add: load32_bytes del: of_le32.simps)
    have yy: "of_le32 [?b ! (?k + 4), ?b ! (?k + 4 + 1), ?b ! (?k + 4 + 2), ?b ! (?k + 4 + 3)] = y"
      using y len load32_bytes[of "?k + 4" ?b] by (simp del: of_le32.simps)
    have "load32 ?B ?k = Some (of_le32 [?b ! (?k + 4), ?b ! (?k + 1), ?b ! (?k + 2), ?b ! (?k + 3)])"
      using len by (simp add: load32_bytes del: of_le32.simps)
    then show ?thesis
      using of_le32_parts(2)[of "?b ! (?k + 4)" "?b ! (?k + 1)" "?b ! (?k + 2)" "?b ! (?k + 3)" "?b ! ?k"]
        of_le32_parts(1)[of "?b ! (?k + 4)"] by (metis xx yy)
  qed
  have "load32 ?B (4 * i) = Some (xs ! i)" if "i < length xs" for i
    using xs that len by (simp add: load32_bytes)
  with B r show ?thesis using len assms(1) by (auto simp: list_holds_def nth_append less_Suc_eq add.commute)
qed

text \<open>list_rem takes the number of elements behind the removed one for a number of bytes. The last
  element is removed as it should be; removing the one before it moves a single byte, so that the
  element left in its place mixes the two.\<close>
lemma list_rem_bytes:
  assumes "list_holds l (xs @ x # ys)" and "length ys \<le> 1" and "l_data l \<noteq> NULL"
  shows "\<exists>l'. list_rem l (of_nat (length xs)) = Some l'
    \<and> list_holds l' (if ys = [] then xs else xs @ [(x AND NOT 0xFF) OR (hd ys AND 0xFF)])"
proof (cases ys)
  case Nil
  then show ?thesis using list_rem_last assms by simp
next
  case (Cons y zs)
  with assms(2) have "ys = [y]" by simp
  then show ?thesis using list_rem_next_to_last[of l xs x y] assms(1,3) by simp
qed

lemma list_rem_bytes_witness:
  "\<exists>l'. list_rem \<lparr>l_index = 2, l_count = 0, l_data = 0xC0200008, l_buf = [0, 1, 0, 0, 7, 2, 0, 0]\<rparr> 0 = Some l'
   \<and> list_holds l' [0x107]"
proof -
  have "list_holds \<lparr>l_index = 2, l_count = 0, l_data = 0xC0200008, l_buf = [0, 1, 0, 0, 7, 2, 0, 0]\<rparr> ([] @ 0x100 # [0x207])"
    by (auto simp: list_holds_def load32_bytes less_Suc_eq)
  from list_rem_bytes[OF this] show ?thesis by simp
qed

end
