(* ===== verification/Spinlock.thy ===== *)
theory Spinlock
  imports Prelude
begin

text \<open>
  \<open>src/src/arch/i386/interrupts/spinlock.asm\<close>: the spin lock. The lock word is shared by all CPUs;
  each CPU has its program counter in \<open>_spinlock_lock\<close>, the critical section or \<open>_spinlock_unlock\<close>,
  and its \<open>eax\<close>. One step is one instruction of one CPU; the locked exchange is atomic. The
  sequential versions at the end are what one CPU sees when no other CPU runs, and are what the other
  theories use.
\<close>

datatype spin_pc = Idle | LockMov | LockXchg | LockTest | Critical | UnlockMov | UnlockXchg

record spin =
  lock_word :: u32
  spin_at :: "nat \<Rightarrow> spin_pc"
  spin_eax :: "nat \<Rightarrow> u32"

definition spin_goto :: "nat \<Rightarrow> spin_pc \<Rightarrow> u32 \<Rightarrow> u32 \<Rightarrow> spin \<Rightarrow> spin" where
  "spin_goto i l eax w s =
     s\<lparr>lock_word := w, spin_at := (spin_at s)(i := l), spin_eax := (spin_eax s)(i := eax)\<rparr>"

text \<open>What CPU \<open>i\<close> does next. From \<open>Idle\<close> it calls \<open>_spinlock_lock\<close>, in \<open>Critical\<close> it calls
  \<open>_spinlock_unlock\<close>. \<open>jnz\<close> goes back to the \<open>mov\<close> while the old lock word was not 0.\<close>
definition spin_exec :: "nat \<Rightarrow> spin \<Rightarrow> spin" where
  "spin_exec i s = (case spin_at s i of
     Idle \<Rightarrow> spin_goto i LockMov (spin_eax s i) (lock_word s) s
   | LockMov \<Rightarrow> spin_goto i LockXchg 1 (lock_word s) s
   | LockXchg \<Rightarrow> spin_goto i LockTest (lock_word s) (spin_eax s i) s
   | LockTest \<Rightarrow> spin_goto i (if spin_eax s i = 0 then Critical else LockMov) (spin_eax s i) (lock_word s) s
   | Critical \<Rightarrow> spin_goto i UnlockMov (spin_eax s i) (lock_word s) s
   | UnlockMov \<Rightarrow> spin_goto i UnlockXchg 0 (lock_word s) s
   | UnlockXchg \<Rightarrow> spin_goto i Idle (lock_word s) (spin_eax s i) s)"

inductive spin_reachable :: "spin \<Rightarrow> bool" where
  start: "lock_word s = 0 \<Longrightarrow> \<forall>i. spin_at s i = Idle \<Longrightarrow> spin_reachable s"
| step: "spin_reachable s \<Longrightarrow> spin_reachable (spin_exec i s)"

text \<open>CPU \<open>i\<close> owns the lock: it took a 0 out of the lock word and has not stored it back.\<close>
definition spin_owner :: "spin \<Rightarrow> nat \<Rightarrow> bool" where
  "spin_owner s i \<longleftrightarrow> spin_at s i \<in> {Critical, UnlockMov, UnlockXchg} \<or> (spin_at s i = LockTest \<and> spin_eax s i = 0)"

definition spin_inv :: "spin \<Rightarrow> bool" where
  "spin_inv s \<longleftrightarrow>
     (if \<exists>i. spin_owner s i then lock_word s = 1 else lock_word s = 0)
   \<and> (\<forall>i j. spin_owner s i \<longrightarrow> spin_owner s j \<longrightarrow> i = j)
   \<and> (\<forall>i. spin_at s i = LockXchg \<longrightarrow> spin_eax s i = 1) \<and> (\<forall>i. spin_at s i = UnlockXchg \<longrightarrow> spin_eax s i = 0)"

lemma spin_owner_other: "j \<noteq> i \<Longrightarrow> spin_owner (spin_exec i s) j = spin_owner s j"
  by (simp add: spin_owner_def spin_exec_def spin_goto_def split: spin_pc.splits)

lemma spin_owner_self:
  "spin_owner (spin_exec i s) i =
     (case spin_at s i of LockXchg \<Rightarrow> lock_word s = 0 | UnlockXchg \<Rightarrow> False | _ \<Rightarrow> spin_owner s i)"
  by (simp add: spin_owner_def spin_exec_def spin_goto_def split: spin_pc.splits)

lemma spin_word_exec:
  "lock_word (spin_exec i s) = (if spin_at s i \<in> {LockXchg, UnlockXchg} then spin_eax s i else lock_word s)"
  by (simp add: spin_exec_def spin_goto_def split: spin_pc.splits)

lemma spin_regs_exec:
  "spin_at (spin_exec i s) j = LockXchg \<Longrightarrow> (if j = i then spin_eax (spin_exec i s) j = 1
     else spin_at s j = LockXchg \<and> spin_eax (spin_exec i s) j = spin_eax s j)"
  "spin_at (spin_exec i s) j = UnlockXchg \<Longrightarrow> (if j = i then spin_eax (spin_exec i s) j = 0
     else spin_at s j = UnlockXchg \<and> spin_eax (spin_exec i s) j = spin_eax s j)"
  by (auto simp: spin_exec_def spin_goto_def split: spin_pc.splits if_splits)

lemma spin_inv_step [inv_intros]:
  assumes "spin_inv s" shows "spin_inv (spin_exec i s)"
proof -
  let ?t = "spin_exec i s"
  have one: "\<And>a b. spin_owner s a \<Longrightarrow> spin_owner s b \<Longrightarrow> a = b"
    and w: "if \<exists>i. spin_owner s i then lock_word s = 1 else lock_word s = 0"
    and e: "spin_at s i = LockXchg \<Longrightarrow> spin_eax s i = 1" "spin_at s i = UnlockXchg \<Longrightarrow> spin_eax s i = 0"
    and regs: "\<And>j. spin_at s j = LockXchg \<Longrightarrow> spin_eax s j = 1" "\<And>j. spin_at s j = UnlockXchg \<Longrightarrow> spin_eax s j = 0"
    using assms by (auto simp: spin_inv_def)
  have own: "spin_owner ?t j = (if j = i then (case spin_at s i of LockXchg \<Rightarrow> lock_word s = 0
      | UnlockXchg \<Rightarrow> False | _ \<Rightarrow> spin_owner s i) else spin_owner s j)" for j
    by (simp add: spin_owner_other spin_owner_self)
  have uo: "spin_at s i = UnlockXchg \<Longrightarrow> spin_owner s i" by (simp add: spin_owner_def)
  have lo: "spin_at s i = LockXchg \<Longrightarrow> \<not> spin_owner s i" by (simp add: spin_owner_def)
  have "if \<exists>j. spin_owner ?t j then lock_word ?t = 1 else lock_word ?t = 0"
  proof (cases "spin_at s i")
    case LockXchg
    with w e lo show ?thesis by (auto simp: own spin_word_exec split: if_splits)
  next
    case UnlockXchg
    with one uo have "\<not> spin_owner ?t j" for j by (auto simp: own)
    with UnlockXchg e show ?thesis by (simp add: spin_word_exec)
  qed (use w in \<open>auto simp: own spin_word_exec split: if_splits\<close>)
  moreover have "spin_owner ?t a \<Longrightarrow> spin_owner ?t b \<Longrightarrow> a = b" for a b
    using one w by (auto simp: own split: if_splits spin_pc.splits)
  moreover have "spin_at ?t j = LockXchg \<Longrightarrow> spin_eax ?t j = 1" "spin_at ?t j = UnlockXchg \<Longrightarrow> spin_eax ?t j = 0" for j
    using spin_regs_exec[of i s j] regs[of j] by (auto split: if_splits)
  ultimately show ?thesis unfolding spin_inv_def by blast
qed

lemma spin_inv_reachable: "spin_reachable s \<Longrightarrow> spin_inv s"
proof (induction rule: spin_reachable.induct)
  case (start s)
  then show ?case by (simp add: spin_inv_def spin_owner_def)
qed (rule spin_inv_step)

text \<open>C9: Mutual exclusion: in no interleaving of the instructions of any number of CPUs are two of
  them between a successful _spinlock_lock and the exchange of _spinlock_unlock, and while one is, the
  lock word is 1.\<close>
theorem spinlock_mutex:
  assumes "spin_reachable s" and "spin_at s i \<in> {Critical, UnlockMov, UnlockXchg}"
  shows "lock_word s = 1 \<and> (\<forall>j. j \<noteq> i \<longrightarrow> spin_at s j \<notin> {Critical, UnlockMov, UnlockXchg})"
proof -
  from spin_inv_reachable[OF assms(1)] have "spin_inv s" .
  moreover from assms(2) have "spin_owner s i" by (simp add: spin_owner_def)
  ultimately show ?thesis by (auto simp: spin_inv_def spin_owner_def split: if_splits)
qed

definition spin_boot :: spin where
  "spin_boot = \<lparr>lock_word = 0, spin_at = \<lambda>i. Idle, spin_eax = \<lambda>i. 0\<rparr>"

lemma spin_exec_record: "spin_exec i \<lparr>lock_word = w, spin_at = f, spin_eax = g\<rparr> = (case f i of
     Idle \<Rightarrow> \<lparr>lock_word = w, spin_at = f(i := LockMov), spin_eax = g\<rparr>
   | LockMov \<Rightarrow> \<lparr>lock_word = w, spin_at = f(i := LockXchg), spin_eax = g(i := 1)\<rparr>
   | LockXchg \<Rightarrow> \<lparr>lock_word = g i, spin_at = f(i := LockTest), spin_eax = g(i := w)\<rparr>
   | LockTest \<Rightarrow> \<lparr>lock_word = w, spin_at = f(i := if g i = 0 then Critical else LockMov), spin_eax = g\<rparr>
   | Critical \<Rightarrow> \<lparr>lock_word = w, spin_at = f(i := UnlockMov), spin_eax = g\<rparr>
   | UnlockMov \<Rightarrow> \<lparr>lock_word = w, spin_at = f(i := UnlockXchg), spin_eax = g(i := 0)\<rparr>
   | UnlockXchg \<Rightarrow> \<lparr>lock_word = g i, spin_at = f(i := Idle), spin_eax = g(i := w)\<rparr>)"
  by (auto simp: spin_exec_def spin_goto_def fun_upd_idem split: spin_pc.split)

theorem spinlock_mutex_witness:
  "let s = spin_exec 1 (spin_exec 0 (spin_exec 0 (spin_exec 1 (spin_exec 1 (spin_exec 0 (spin_exec 0 spin_boot)))))) in
   lock_word s = 1 \<and> (\<forall>j. j \<noteq> 0 \<longrightarrow> spin_at s j \<notin> {Critical, UnlockMov, UnlockXchg})"
  (is "let s = ?s in _")
proof -
  have r: "spin_reachable ?s"
    by (intro spin_reachable.step spin_reachable.start) (simp_all add: spin_boot_def)
  have "spin_at ?s 0 = Critical"
    unfolding spin_boot_def by (simp add: spin_exec_record)
  then have "spin_at ?s 0 \<in> {Critical, UnlockMov, UnlockXchg}" by (simp only: insert_iff simp_thms)
  from spinlock_mutex[OF r this] show ?thesis unfolding Let_def .
qed

subsection \<open>One CPU alone\<close>

text \<open>Taking a lock that is held never returns.\<close>
definition spin_lock :: "u32 \<Rightarrow> u32 option" where
  "spin_lock w = (if w = 0 then Some 1 else None)"

definition spin_unlock :: "u32 \<Rightarrow> u32" where
  "spin_unlock w = 0"

text \<open>They agree with the instructions: a free lock is entered after four steps of the CPU, and a
  held one only leads back to the \<open>mov\<close> with the lock still held.\<close>
lemma spin_lock_enters:
  assumes "spin_at s i = Idle" and "spin_lock (lock_word s) = Some w"
  shows "spin_at ((spin_exec i ^^ 4) s) i = Critical \<and> lock_word ((spin_exec i ^^ 4) s) = w"
  using assms by (simp add: eval_nat_numeral spin_exec_def spin_goto_def spin_lock_def split: if_splits)

lemma spin_lock_spins:
  assumes "spin_at s i = LockMov" and "lock_word s = 1"
  shows "spin_at ((spin_exec i ^^ 3) s) i = LockMov \<and> lock_word ((spin_exec i ^^ 3) s) = 1"
  using assms by (simp add: eval_nat_numeral spin_exec_def spin_goto_def)

lemma spin_unlock_leaves:
  assumes "spin_at s i = Critical"
  shows "spin_at ((spin_exec i ^^ 3) s) i = Idle \<and> lock_word ((spin_exec i ^^ 3) s) = spin_unlock (lock_word s)"
  using assms by (simp add: eval_nat_numeral spin_exec_def spin_goto_def spin_unlock_def)

end
