(* ===== verification/NodeHeap.thy ===== *)
theory NodeHeap
  imports Kmalloc
begin

text \<open>
  The kernel keeps its bookkeeping lists (free frames, address space, clock events) in nodes that come
  from the early allocator while it is active and from an object cache afterwards. Nodes live in the
  memory the slub allocator's own free lists live in, so a model that keeps them there shows what
  happens when the allocator writes into a node that was freed. \<open>hget\<close> and \<open>hput\<close> read and write one
  word; \<open>node_pool\<close> is what the lists' clients need of a source of nodes of \<open>k\<close> words, with
  interpretations on \<open>kmalloc\<close> in the early phase and on an object cache.
\<close>

abbreviation hmem :: "kheap \<Rightarrow> cells" where "hmem h \<equiv> smem (slub h)"

definition hget :: "kheap \<Rightarrow> u32 \<Rightarrow> u32 option" where
  "hget h p = hmem h p"

definition hset :: "kheap \<Rightarrow> cells \<Rightarrow> kheap" where
  "hset h m = h\<lparr>slub := (slub h)\<lparr>smem := m\<rparr>\<rparr>"

definition hput :: "u32 \<Rightarrow> u32 \<Rightarrow> kheap \<Rightarrow> kheap option" where
  "hput p v h = do { m \<leftarrow> wr (hmem h) p v; Some (hset h m) }"

lemma hmem_hset [simp]: "hmem (hset h m) = m"
  by (simp add: hset_def)

lemma hput_ok: "hmem h p \<noteq> None \<Longrightarrow> hput p v h = Some (hset h ((hmem h)(p \<mapsto> v)))"
  by (simp add: hput_def wr_Some)

definition node_cells :: "nat \<Rightarrow> u32 \<Rightarrow> u32 set" where
  "node_cells k x = (\<lambda>i. x + 4 * of_nat i) ` {..<k}"

text \<open>\<open>avail h R xs\<close>: the next nodes from \<open>alloc\<close> are \<open>xs\<close>, and the allocator depends on no other memory
  than the cells \<open>R\<close> and those of \<open>xs\<close>.\<close>
locale node_pool =
  fixes k :: nat
    and alloc :: "kheap \<Rightarrow> (u32 \<times> kheap) option"
    and avail :: "kheap \<Rightarrow> u32 set \<Rightarrow> u32 list \<Rightarrow> bool"
  assumes alloc_next: "avail h R (x # y # xs) \<Longrightarrow> \<exists>h'. alloc h = Some (x, h') \<and> avail h' R (y # xs)
      \<and> (\<forall>p. p \<notin> R \<longrightarrow> hmem h' p = hmem h p)"
    and avail_nonnull: "avail h R xs \<Longrightarrow> NULL \<notin> set xs"
    and avail_mapped: "avail h R xs \<Longrightarrow> x \<in> set xs \<Longrightarrow> p \<in> node_cells k x \<Longrightarrow> hmem h p \<noteq> None \<and> p \<notin> R"
    and avail_apart: "avail h R (x # xs) \<Longrightarrow> y \<in> set xs \<Longrightarrow> node_cells k x \<inter> node_cells k y = {}"
    and avail_put: "avail h R xs \<Longrightarrow> hmem h p \<noteq> None \<Longrightarrow> p \<notin> R \<Longrightarrow> \<forall>x\<in>set xs. p \<notin> node_cells k x
      \<Longrightarrow> avail (hset h ((hmem h)(p \<mapsto> v))) R xs"
begin

text \<open>A node comes mapped and apart from the nodes to come; filling it in keeps them.\<close>
lemma alloc_fresh:
  assumes "avail h R (x # y # xs)"
  shows "\<exists>h'. alloc h = Some (x, h') \<and> avail h' R (y # xs) \<and> x \<noteq> NULL
    \<and> (\<forall>p. p \<notin> R \<longrightarrow> hmem h' p = hmem h p)
    \<and> (\<forall>p\<in>node_cells k x. hmem h' p \<noteq> None \<and> p \<notin> R \<and> (\<forall>z\<in>set (y # xs). p \<notin> node_cells k z))"
proof -
  obtain h' where h': "alloc h = Some (x, h')" "avail h' R (y # xs)" "\<forall>p. p \<notin> R \<longrightarrow> hmem h' p = hmem h p"
    using alloc_next[OF assms] by blast
  moreover have "x \<noteq> NULL" using avail_nonnull[OF assms] by auto
  moreover have "hmem h' p \<noteq> None \<and> p \<notin> R \<and> (\<forall>z\<in>set (y # xs). p \<notin> node_cells k z)"
    if "p \<in> node_cells k x" for p
    using avail_mapped[OF assms, of x p] avail_apart[OF assms] that h'(3) by fastforce
  ultimately show ?thesis by blast
qed

end

lemma node_cells_0: "0 < k \<Longrightarrow> x \<in> node_cells k x"
  by (auto simp: node_cells_def image_iff intro!: bexI[of _ 0])

text \<open>The nodes are apart from each other, from the allocator's memory and from the nodes to come.\<close>
definition nodes_apart :: "nat \<Rightarrow> u32 list \<Rightarrow> u32 set \<Rightarrow> u32 list \<Rightarrow> bool" where
  "nodes_apart k ns R xs \<longleftrightarrow> distinct ns \<and> (\<forall>n\<in>set ns. \<forall>p\<in>node_cells k n. p \<notin> R
     \<and> (\<forall>x\<in>set xs \<union> set ns. x \<noteq> n \<longrightarrow> p \<notin> node_cells k x)) \<and> set ns \<inter> set xs = {}"

lemma nodes_apart_insert:
  assumes "nodes_apart k (us @ vs) R (x # xs)" and "\<And>p. p \<in> node_cells k x \<Longrightarrow> p \<notin> R \<and> (\<forall>z\<in>set xs. p \<notin> node_cells k z)"
    and "x \<notin> set xs"
  shows "nodes_apart k (us @ x # vs) R xs"
proof -
  have old: "p \<notin> R" "z \<in> set (x # xs) \<union> set (us @ vs) \<Longrightarrow> z \<noteq> n \<Longrightarrow> p \<notin> node_cells k z"
    if "n \<in> set (us @ vs)" "p \<in> node_cells k n" for n p z
    using assms(1) that unfolding nodes_apart_def by blast+
  have new: "p \<notin> R" "z \<in> set xs \<union> set (us @ vs) \<Longrightarrow> z \<noteq> x \<Longrightarrow> p \<notin> node_cells k z"
    if "p \<in> node_cells k x" for p z
    using assms(2)[OF that] old(2)[of z p x] that by auto
  have "n \<in> set (us @ x # vs) \<Longrightarrow> p \<in> node_cells k n \<Longrightarrow> z \<in> set xs \<union> set (us @ x # vs) \<Longrightarrow> z \<noteq> n
      \<Longrightarrow> p \<notin> node_cells k z" for n p z
    using old(2)[of n p z] new(2)[of p z] by (cases "n = x") auto
  moreover have "n \<in> set (us @ x # vs) \<Longrightarrow> p \<in> node_cells k n \<Longrightarrow> p \<notin> R" for n p
    using old(1)[of n p] new(1)[of p] by (cases "n = x") auto
  moreover have "distinct (us @ x # vs)" "set (us @ x # vs) \<inter> set xs = {}"
    using assms(1,3) unfolding nodes_apart_def by auto
  ultimately show ?thesis unfolding nodes_apart_def by blast
qed

subsection \<open>The early allocator\<close>

definition early_nodes :: "nat \<Rightarrow> kheap \<Rightarrow> u32 set \<Rightarrow> u32 list \<Rightarrow> bool" where
  "early_nodes k h R xs \<longleftrightarrow> kern_mem_early h \<and> R = {} \<and> early_avail (4 * of_nat k) (early h) xs
     \<and> (\<forall>x\<in>set xs. \<forall>p\<in>node_cells k x. hmem h p \<noteq> None)"

lemma early_nodes_cell:
  assumes "early_avail (4 * of_nat k) e xs" and "i < length xs" and "j < k" and "k < 1024"
  shows "unat (xs ! i + 4 * of_nat j) = unat (early_memory_base e) + i * (4 * k) + 4 * j"
proof -
  have k: "unat (of_nat k :: u32) = k" using assms(4) by (intro unat_of_nat32) simp
  have n: "unat (4 * of_nat k :: u32) = 4 * k"
    using unat_times_nowrap[of 4 "of_nat k"] assms(4) k by simp
  have xi: "unat (xs ! i) = unat (early_memory_base e) + i * (4 * k)"
    using early_avail_unat[OF assms(1,2)] n by simp
  have room: "length xs * (4 * k) \<le> unat (early_memory_end e) - unat (early_memory_base e)"
      "unat (early_memory_base e) \<le> unat (early_memory_end e)"
    using assms(1) n by (simp_all add: early_avail_def early_room_def early_inv_def word_le_nat_alt)
  have "(i + 1) * (4 * k) \<le> length xs * (4 * k)" using assms(2) by (intro mult_le_mono1) simp
  then have "unat (xs ! i) + 4 * k \<le> unat (early_memory_end e)" using xi room by (simp add: algebra_simps)
  then have lt: "unat (xs ! i) + 4 * j < unat (early_memory_end e)" using assms(3) by linarith
  have "unat (of_nat j :: u32) = j" using assms(3,4) by (intro unat_of_nat32) simp
  then have "unat (4 * of_nat j :: u32) = 4 * j"
    using unat_times_nowrap[of 4 "of_nat j"] assms(3,4) by simp
  then show ?thesis using unat_add_below[of "xs ! i" "4 * of_nat j" "early_memory_end e"] lt xi by simp
qed

lemma early_nodes_apart:
  assumes a: "early_avail (4 * of_nat k) e (x # xs)" and y: "y \<in> set xs" and k: "k < 1024"
  shows "node_cells k x \<inter> node_cells k y = {}"
proof -
  obtain i where i: "i < length xs" "y = (x # xs) ! Suc i" using y by (auto simp: in_set_conv_nth)
  have "x + 4 * of_nat j \<noteq> y + 4 * of_nat l" if "j < k" "l < k" for j l
  proof
    assume "x + 4 * of_nat j = y + 4 * of_nat l"
    then have "unat ((x # xs) ! 0 + 4 * of_nat j) = unat ((x # xs) ! Suc i + 4 * of_nat l)" by (simp add: i(2))
    then have "4 * j = Suc i * (4 * k) + 4 * l"
      using early_nodes_cell[OF a, of 0 j] early_nodes_cell[OF a, of "Suc i" l] that k i(1) by simp
    with that show False by simp
  qed
  then show ?thesis by (auto simp: node_cells_def)
qed

lemma kmalloc_early:
  "kern_mem_early h \<Longrightarrow> early_kmalloc n (early h) = Some (x, e) \<Longrightarrow>
   kmalloc memmap cpu large n h = Some (x, h\<lparr>early := e\<rparr>)"
  by (simp add: kmalloc_def lift_early_def)

lemma early_nodes_pool:
  assumes "0 < k" and "k < 1024"
  shows "node_pool k (kmalloc memmap cpu large (4 * of_nat k)) (early_nodes k)"
proof
  show "\<exists>h'. kmalloc memmap cpu large (4 * of_nat k) h = Some (x, h') \<and> early_nodes k h' R (y # xs)
      \<and> (\<forall>p. p \<notin> R \<longrightarrow> hmem h' p = hmem h p)" if "early_nodes k h R (x # y # xs)" for h R x y xs
  proof -
    have h: "kern_mem_early h" "early_avail (4 * of_nat k) (early h) (x # y # xs)" using that by (auto simp: early_nodes_def)
    from em.alloc_next[OF h(2)] obtain e where "early_kmalloc (4 * of_nat k) (early h) = Some (x, e)"
      "early_avail (4 * of_nat k) e (y # xs)" by blast
    with kmalloc_early[OF h(1) this(1), of memmap cpu large] that show ?thesis by (auto simp: early_nodes_def)
  qed
  show "NULL \<notin> set xs" if "early_nodes k h R xs" for h R xs
    using em.avail_nonnull that unfolding early_nodes_def by blast
  show "hmem h p \<noteq> None \<and> p \<notin> R" if "early_nodes k h R xs" "x \<in> set xs" "p \<in> node_cells k x" for h R xs x p
    using that by (auto simp: early_nodes_def)
  show "node_cells k x \<inter> node_cells k y = {}" if "early_nodes k h R (x # xs)" "y \<in> set xs" for h R x xs y
    using early_nodes_apart[of k "early h" x xs y] that assms(2) unfolding early_nodes_def by blast
  show "early_nodes k (hset h ((hmem h)(p \<mapsto> v))) R xs" if "early_nodes k h R xs" for h R xs p v
    using that by (auto simp: early_nodes_def hset_def)
qed

interpretation early2: node_pool 2 "kmalloc memmap cpu large 8" "early_nodes 2" for memmap cpu large
  using early_nodes_pool[of 2 memmap cpu large] by simp

interpretation early5: node_pool 5 "kmalloc memmap cpu large 20" "early_nodes 5" for memmap cpu large
  using early_nodes_pool[of 5 memmap cpu large] by simp

subsection \<open>An object cache\<close>

lemma free_count_loop_length:
  "clist (nxt_of m) p xs \<Longrightarrow> \<forall>x\<in>set xs. m x \<noteq> None \<Longrightarrow> free_count_loop m p c = Some (c + of_nat (length xs))"
proof (induction xs arbitrary: p c)
  case Nil
  then show ?case by (simp add: free_count_loop.simps)
next
  case (Cons x xs)
  then have "p = x" "x \<noteq> NULL" "m x = Some (nxt_of m x)" by (auto intro: nxt_of_cell)
  with Cons show ?case by (simp add: free_count_loop.simps[of m x])
qed

lemma cache_free_count:
  assumes "slab_free m (semi cc) xs" and "semi cc \<noteq> NULL" and "empty cc = NULL"
    and "m (semi cc) = Some w" and "SLAB_NEXT w = NULL"
  shows "mem_cache_free_count m cc = Some (of_nat (length xs))"
proof -
  obtain p where p: "m (semi cc + 4) = Some p" "clist (nxt_of m) p xs" "\<forall>x\<in>set xs. m x \<noteq> None"
    using assms(1) by (auto simp: slab_free_def)
  have "mem_slab_free_count m (semi cc) = Some (of_nat (length xs))"
    using p free_count_loop_length[OF p(2,3), of 0] by (simp add: mem_slab_free_count_def free_head_of_def)
  then show ?thesis using assms(2-5)
    by (simp add: mem_cache_free_count_def semi_count_loop.simps[of m "semi cc"] semi_count_loop.simps[of m NULL]
        empty_count_loop.simps)
qed

text \<open>The cache's only slab for this CPU has the free objects \<open>xs @ zs\<close>, with at least the minimum in
  \<open>zs\<close>; its header is in memory and ends the list of slabs.\<close>
definition slab_ready :: "nat \<Rightarrow> string \<Rightarrow> kheap \<Rightarrow> u32 list \<Rightarrow> nat \<Rightarrow> cpu_cache \<Rightarrow> u32 list \<Rightarrow> u32 \<Rightarrow> bool" where
  "slab_ready cpu name h xs i cc zs w \<longleftrightarrow> find_cache name (caches (slub h)) = Some i
     \<and> i < length (caches (slub h)) \<and> construct (caches (slub h) ! i) = None
     \<and> unat (mc_min (caches (slub h) ! i)) \<le> length zs \<and> length xs + length zs < 4294967296
     \<and> get_cpu (slub h) i cpu = Some cc \<and> semi cc \<noteq> NULL \<and> empty cc = NULL
     \<and> hmem h (semi cc) = Some w \<and> SLAB_NEXT w = NULL \<and> slab_free (hmem h) (semi cc) (xs @ zs)"

definition slub_nodes :: "nat \<Rightarrow> string \<Rightarrow> nat \<Rightarrow> kheap \<Rightarrow> u32 set \<Rightarrow> u32 list \<Rightarrow> bool" where
  "slub_nodes cpu name k h R xs \<longleftrightarrow>
     (\<exists>i cc zs w. slab_ready cpu name h xs i cc zs w \<and> R = {semi cc, semi cc + 4} \<union> set zs)
     \<and> (\<forall>x\<in>set xs. \<forall>p\<in>node_cells k x. hmem h p \<noteq> None \<and> p \<notin> R)
     \<and> (\<forall>x\<in>set xs. \<forall>y\<in>set xs. x \<noteq> y \<longrightarrow> node_cells k x \<inter> node_cells k y = {})"

lemma slab_ready_next:
  assumes "slab_ready cpu name h (x # y # xs) i cc zs w"
  defines "h' \<equiv> hset h ((hmem h)(semi cc + 4 \<mapsto> y))"
  shows "lift_slub (mem_cache_alloc memmap cpu name) h = Some (x, h') \<and> slab_ready cpu name h' (y # xs) i cc zs w"
proof -
  let ?s = "slub h" and ?m = "(hmem h)(semi cc + 4 \<mapsto> y)"
  have g: "get_cpu ?s i cpu = Some cc" and sf: "slab_free (smem ?s) (semi cc) (x # y # (xs @ zs))"
    and i: "i < length (caches ?s)" and w: "hmem h (semi cc) = Some w" "SLAB_NEXT w = NULL"
    and se: "semi cc \<noteq> NULL" "empty cc = NULL" and len: "length xs + length zs < 4294967294"
    and mn: "unat (mc_min (caches ?s ! i)) \<le> length zs"
    using assms(1) by (auto simp: slab_ready_def)
  from take_object_pop[OF g sf] have tk: "take_object cpu i ?s = Some (x, ?s\<lparr>smem := ?m\<rparr>)"
    and sf': "slab_free ?m (semi cc) (y # xs @ zs)" by simp_all
  have w': "?m (semi cc) = Some w" using w by simp
  have fc: "mem_cache_free_count ?m cc = Some (of_nat (length (y # xs @ zs)))"
    using cache_free_count[OF sf' se w' w(2)] .
  have "unat (of_nat (length (y # xs @ zs)) :: u32) = length (y # xs @ zs)" using len by (intro unat_of_nat32) simp
  then have nm: "\<not> (of_nat (length (y # xs @ zs)) :: u32) < mc_min (caches ?s ! i)"
    using mn by (simp only: word_less_nat_alt) simp
  have g': "get_cpu (?s\<lparr>smem := ?m\<rparr>) i cpu = Some cc" using g by (simp add: get_cpu_def)
  have km: "keep_minimum memmap cpu i (?s\<lparr>smem := ?m\<rparr>) = Some (?s\<lparr>smem := ?m\<rparr>)"
    using fc nm g' i by (simp add: keep_minimum_def aget_in del: length_append of_nat_Suc fun_upd_apply)
  have "mem_cache_alloc memmap cpu name ?s = Some (x, ?s\<lparr>smem := ?m\<rparr>)"
    using assms(1) tk km by (simp add: slab_ready_def mem_cache_alloc_def refill_def aget_in del: fun_upd_apply)
  then show ?thesis using assms(1) g' sf' w'
    by (simp add: slab_ready_def h'_def hset_def lift_slub_def del: fun_upd_apply)
qed

lemma slab_ready_put:
  assumes "slab_ready cpu name h xs i cc zs w" and "p \<notin> {semi cc, semi cc + 4} \<union> set zs \<union> set xs"
  shows "slab_ready cpu name (hset h ((hmem h)(p \<mapsto> v))) xs i cc zs w"
  using assms by (auto simp: slab_ready_def hset_def get_cpu_def slab_free_def nxt_of_upd)

lemma slub_nodes_pool:
  assumes "0 < k"
  shows "node_pool k (lift_slub (mem_cache_alloc memmap cpu name)) (slub_nodes cpu name k)"
proof
  show "\<exists>h'. lift_slub (mem_cache_alloc memmap cpu name) h = Some (x, h') \<and> slub_nodes cpu name k h' R (y # xs)
      \<and> (\<forall>p. p \<notin> R \<longrightarrow> hmem h' p = hmem h p)" if a: "slub_nodes cpu name k h R (x # y # xs)" for h R x y xs
  proof -
    from a obtain i cc zs w where r: "slab_ready cpu name h (x # y # xs) i cc zs w"
      and R: "R = {semi cc, semi cc + 4} \<union> set zs" unfolding slub_nodes_def by (elim conjE exE)
    have n: "\<forall>x\<in>set (y # xs). \<forall>p\<in>node_cells k x. hmem h p \<noteq> None \<and> p \<notin> R"
      "\<forall>a\<in>set (y # xs). \<forall>b\<in>set (y # xs). a \<noteq> b \<longrightarrow> node_cells k a \<inter> node_cells k b = {}"
      using a unfolding slub_nodes_def by simp_all
    let ?h = "hset h ((hmem h)(semi cc + 4 \<mapsto> y))"
    from slab_ready_next[OF r, of memmap] have al: "lift_slub (mem_cache_alloc memmap cpu name) h = Some (x, ?h)"
      and r': "slab_ready cpu name ?h (y # xs) i cc zs w" by blast+
    have n': "\<forall>x\<in>set (y # xs). \<forall>p\<in>node_cells k x. hmem ?h p \<noteq> None \<and> p \<notin> R"
      using n(1) by (simp only: hmem_hset fun_upd_apply) simp
    have "slub_nodes cpu name k ?h R (y # xs)" unfolding slub_nodes_def
      by (intro conjI exI[of _ i] exI[of _ cc] exI[of _ zs] exI[of _ w]) (fact r' R n' n(2))+
    moreover have "\<forall>p. p \<notin> R \<longrightarrow> hmem ?h p = hmem h p" using R by simp
    ultimately show ?thesis using al by blast
  qed
  show "NULL \<notin> set xs" if "slub_nodes cpu name k h R xs" for h R xs
    using that by (auto simp: slub_nodes_def slab_ready_def slab_free_def dest: path_nonnull)
  show "hmem h p \<noteq> None \<and> p \<notin> R" if "slub_nodes cpu name k h R xs" "x \<in> set xs" "p \<in> node_cells k x" for h R xs x p
    using that unfolding slub_nodes_def by blast
  show "node_cells k x \<inter> node_cells k y = {}" if "slub_nodes cpu name k h R (x # xs)" "y \<in> set xs" for h R x xs y
  proof -
    from that(1) obtain i cc zs w where "slab_ready cpu name h (x # xs) i cc zs w"
      unfolding slub_nodes_def by (elim conjE exE)
    then have "distinct ((x # xs) @ zs)" by (auto simp only: slab_ready_def slab_free_def dest!: clist_distinct)
    with that(2) have "x \<noteq> y" by auto
    with that show ?thesis unfolding slub_nodes_def by (metis list.set_intros)
  qed
  show "slub_nodes cpu name k (hset h ((hmem h)(p \<mapsto> v))) R xs"
    if a: "slub_nodes cpu name k h R xs" "hmem h p \<noteq> None" "p \<notin> R" "\<forall>x\<in>set xs. p \<notin> node_cells k x" for h R xs p v
  proof -
    have p: "p \<notin> set xs" using a(4) node_cells_0[OF assms] by blast
    from a(1) obtain i cc zs w where r: "slab_ready cpu name h xs i cc zs w"
      and R: "R = {semi cc, semi cc + 4} \<union> set zs" unfolding slub_nodes_def by (elim conjE exE)
    have "slab_ready cpu name (hset h ((hmem h)(p \<mapsto> v))) xs i cc zs w"
      using a(3) R p by (intro slab_ready_put[OF r]) blast
    then show ?thesis using a(1) R unfolding slub_nodes_def by (simp only: hmem_hset) auto
  qed
qed

interpretation cache2: node_pool 2 "lift_slub (mem_cache_alloc memmap cpu name)" "slub_nodes cpu name 2" for memmap cpu name
  by (rule slub_nodes_pool) simp

interpretation cache5: node_pool 5 "lift_slub (mem_cache_alloc memmap cpu name)" "slub_nodes cpu name 5" for memmap cpu name
  by (rule slub_nodes_pool) simp

end
