(* ===== verification/Frame.thy ===== *)
theory Frame
  imports NodeHeap Spinlock "HOL-Library.Multiset"
begin

text \<open>
  \<open>src/src/kernel/mem/frame.c\<close>: the physical frame allocator. Free chunks of 1 to 20 pages are kept in
  20 lists of nodes (\<open>address\<close> at offset 0, \<open>next\<close> at offset 4). The nodes live in the kernel heap
  \<open>fa_heap\<close>; \<open>na\<close> and \<open>nf\<close> are \<open>frame_node_alloc\<close> and \<open>frame_node_free\<close> for the current value of
  \<open>cache_init\<close>. \<open>memmap\<close>, the CPU number and the large allocator are as in \<open>Kmalloc\<close>.
\<close>

definition MAX_FRAMES :: nat where "MAX_FRAMES = 20"
definition PAGE_SIZE :: u32 where "PAGE_SIZE = 0x1000"

record frame =
  fa_lock :: u32
  fa_base :: u32
  free_lists :: "u32 list"
  cache_init :: bool
  fa_heap :: kheap

definition fn_address :: "kheap \<Rightarrow> u32 \<Rightarrow> u32 option" where "fn_address h node = hget h node"
definition fn_next :: "kheap \<Rightarrow> u32 \<Rightarrow> u32 option" where "fn_next h node = hget h (node + 4)"

text \<open>The names of the caches.\<close>
definition frame_node_alloc :: "(u32 \<Rightarrow> slub \<Rightarrow> (u32 \<times> slub) option) \<Rightarrow> nat \<Rightarrow> (u32 \<Rightarrow> kheap \<Rightarrow> (u32 \<times> kheap) option)
    \<Rightarrow> bool \<Rightarrow> kheap \<Rightarrow> (u32 \<times> kheap) option" where
  "frame_node_alloc memmap cpu large init h =
     (if \<not> init then kmalloc memmap cpu large (sizeof frame_node_layout) h
      else lift_slub (mem_cache_alloc memmap cpu ''cache_pfa_node'') h)"

definition frame_node_free :: "(u32 \<Rightarrow> kheap \<Rightarrow> (bool \<times> kheap) option) \<Rightarrow> bool \<Rightarrow> u32 \<Rightarrow> kheap \<Rightarrow> kheap option" where
  "frame_node_free large_dealloc init node h =
     (if \<not> init then kfree large_dealloc node h
      else do { s \<leftarrow> mem_cache_dealloc ''cache_pfa_node'' node (slub h); Some (h\<lparr>slub := s\<rparr>) })"

definition frame_buddy_check :: "frame \<Rightarrow> u32 \<Rightarrow> u32 \<Rightarrow> u32 \<Rightarrow> bool" where
  "frame_buddy_check s a b n =
     (let lower = min a b - fa_base s; upper = max a b - fa_base s in lower + n = upper)"

text \<open>The walk over one free list: it stops at a buddy (with its predecessor) or at the last node.\<close>
datatype scan = Buddy u32 u32 | Last u32

partial_function (option) frame_scan :: "frame \<Rightarrow> u32 \<Rightarrow> u32 \<Rightarrow> u32 \<Rightarrow> u32 \<Rightarrow> scan option" where
  "frame_scan s address cnt prev head = do {
     a \<leftarrow> fn_address (fa_heap s) head;
     if cnt < 20 \<and> frame_buddy_check s a address (cnt * PAGE_SIZE) then Some (Buddy prev head)
     else do {
       nxt \<leftarrow> fn_next (fa_heap s) head;
       if nxt = 0 then Some (Last head) else frame_scan s address cnt head nxt } }"

text \<open>\<open>next->address = address; next->next = link\<close> of a new node.\<close>
definition frame_new_node :: "(kheap \<Rightarrow> (u32 \<times> kheap) option) \<Rightarrow> u32 \<Rightarrow> u32 \<Rightarrow> kheap \<Rightarrow> (u32 \<times> kheap) option" where
  "frame_new_node na address link h = do {
     (n, h1) \<leftarrow> na h;
     h2 \<leftarrow> hput n address h1;
     h3 \<leftarrow> hput (n + 4) link h2;
     Some (n, h3) }"

partial_function (option) frame_add_free_item ::
  "(kheap \<Rightarrow> (u32 \<times> kheap) option) \<Rightarrow> (u32 \<Rightarrow> kheap \<Rightarrow> kheap option)
   \<Rightarrow> u32 \<Rightarrow> u32 \<Rightarrow> bool \<Rightarrow> frame \<Rightarrow> frame option" where
  "frame_add_free_item na nf address cnt new_item s =
     (if cnt > 20 then Some s
      else if cnt = 0 then None
      else do {
        let i = unat cnt - 1;
        head \<leftarrow> aget (free_lists s) i;
        if \<not> new_item \<and> head \<noteq> 0 then do {
          r \<leftarrow> frame_scan s address cnt 0 head;
          case r of
            Buddy prev b \<Rightarrow> do {
              nxt \<leftarrow> fn_next (fa_heap s) b;
              s1 \<leftarrow> (if prev \<noteq> 0 then do { h \<leftarrow> hput (prev + 4) nxt (fa_heap s); Some (s\<lparr>fa_heap := h\<rparr>) }
                    else do { ls \<leftarrow> aset (free_lists s) i nxt; Some (s\<lparr>free_lists := ls\<rparr>) });
              h \<leftarrow> nf b (fa_heap s1);
              a \<leftarrow> fn_address h b;
              frame_add_free_item na nf (min a address) (cnt + 1) False (s1\<lparr>fa_heap := h\<rparr>) }
          | Last l \<Rightarrow> do {
              (n, h) \<leftarrow> frame_new_node na address 0 (fa_heap s);
              h1 \<leftarrow> hput (l + 4) n h;
              Some (s\<lparr>fa_heap := h1\<rparr>) } }
        else do {
          (n, h) \<leftarrow> frame_new_node na address head (fa_heap s);
          ls \<leftarrow> aset (free_lists s) i n;
          Some (s\<lparr>fa_heap := h, free_lists := ls\<rparr>) } })"

text \<open>The \<open>for\<close> loop of \<open>frame_alloc\<close> over the \<open>int\<close> \<open>cnt\<close>; index \<open>-1\<close> is outside the array.\<close>
function frame_alloc_loop ::
  "(kheap \<Rightarrow> (u32 \<times> kheap) option) \<Rightarrow> (u32 \<Rightarrow> kheap \<Rightarrow> kheap option)
   \<Rightarrow> u32 \<Rightarrow> int \<Rightarrow> frame \<Rightarrow> (u32 \<times> frame) option" where
  "frame_alloc_loop na nf want_count cnt s =
     (if cnt \<le> 20 then
        (if cnt < 1 then None
         else do {
           head \<leftarrow> aget (free_lists s) (nat cnt - 1);
           if head \<noteq> NULL then do {
             address \<leftarrow> fn_address (fa_heap s) head;
             nxt \<leftarrow> fn_next (fa_heap s) head;
             ls \<leftarrow> aset (free_lists s) (nat cnt - 1) nxt;
             let s1 = s\<lparr>free_lists := ls\<rparr>;
             let chunk_end = address + want_count * PAGE_SIZE;
             let return_count = of_int cnt - want_count;
             s2 \<leftarrow> (if return_count > 0 then frame_add_free_item na nf chunk_end return_count False s1
                   else Some s1);
             Some (address, s2\<lparr>fa_lock := spin_unlock (fa_lock s2)\<rparr>) }
           else frame_alloc_loop na nf want_count (cnt + 1) s })
      else Some (NULL, s\<lparr>fa_lock := spin_unlock (fa_lock s)\<rparr>))"
  by pat_completeness auto
termination by (relation "measure (\<lambda>(_, _, _, c, _). nat (21 - c))") auto

declare frame_alloc_loop.simps [simp del]

definition frame_alloc ::
  "(kheap \<Rightarrow> (u32 \<times> kheap) option) \<Rightarrow> (u32 \<Rightarrow> kheap \<Rightarrow> kheap option) \<Rightarrow> u32 \<Rightarrow> frame \<Rightarrow> (u32 \<times> frame) option" where
  "frame_alloc na nf want_count s =
     (if want_count < 1 \<and> want_count \<ge> 20 then Some (NULL, s)
      else do {
        l \<leftarrow> spin_lock (fa_lock s);
        frame_alloc_loop na nf want_count (sint want_count) (s\<lparr>fa_lock := l\<rparr>) })"

definition frame_dealloc ::
  "(kheap \<Rightarrow> (u32 \<times> kheap) option) \<Rightarrow> (u32 \<Rightarrow> kheap \<Rightarrow> kheap option) \<Rightarrow> u32 \<Rightarrow> u32 \<Rightarrow> frame \<Rightarrow> frame option" where
  "frame_dealloc na nf address cnt s = do {
     l \<leftarrow> spin_lock (fa_lock s);
     s1 \<leftarrow> frame_add_free_item na nf address cnt False (s\<lparr>fa_lock := l\<rparr>);
     Some (s1\<lparr>fa_lock := spin_unlock (fa_lock s1)\<rparr>) }"

text \<open>\<open>frame_free_count\<close> multiplies by the list's index, as the code does.\<close>
partial_function (option) list_count_loop :: "kheap \<Rightarrow> u32 \<Rightarrow> u32 \<Rightarrow> u32 \<Rightarrow> u32 option" where
  "list_count_loop h cnt head amount =
     (if head \<noteq> 0 then do { nxt \<leftarrow> fn_next h head; list_count_loop h cnt nxt (amount + PAGE_SIZE * cnt) }
      else Some amount)"

fun free_count_lists :: "kheap \<Rightarrow> u32 list \<Rightarrow> u32 \<Rightarrow> u32 \<Rightarrow> u32 option" where
  "free_count_lists h [] cnt amount = Some amount"
| "free_count_lists h (head # ls) cnt amount = do {
     t \<leftarrow> list_count_loop h cnt head amount; free_count_lists h ls (cnt + 1) t }"

definition frame_free_count :: "frame \<Rightarrow> u32 option" where
  "frame_free_count s = free_count_lists (fa_heap s) (free_lists s) 0 0"

text \<open>The inner loop of \<open>frame_add_chunk\<close>: the largest cnt that fits.\<close>
fun largest_count :: "u32 \<Rightarrow> nat \<Rightarrow> nat option" where
  "largest_count n 0 = None"
| "largest_count n (Suc c) = (if n \<ge> of_nat (Suc c) * PAGE_SIZE then Some (Suc c) else largest_count n c)"

partial_function (option) frame_chunk_loop ::
  "(kheap \<Rightarrow> (u32 \<times> kheap) option) \<Rightarrow> (u32 \<Rightarrow> kheap \<Rightarrow> kheap option)
   \<Rightarrow> u32 \<Rightarrow> u32 \<Rightarrow> frame \<Rightarrow> frame option" where
  "frame_chunk_loop na nf address n s =
     (if n \<ge> PAGE_SIZE then
        (case largest_count n MAX_FRAMES of
           None \<Rightarrow> frame_chunk_loop na nf address n s
         | Some c \<Rightarrow> do {
             let byte_count = of_nat c * PAGE_SIZE;
             s1 \<leftarrow> frame_add_free_item na nf address (of_nat c) True s;
             frame_chunk_loop na nf (address + byte_count) (n - byte_count) s1 })
      else Some s)"

definition frame_add_chunk ::
  "(kheap \<Rightarrow> (u32 \<times> kheap) option) \<Rightarrow> (u32 \<Rightarrow> kheap \<Rightarrow> kheap option) \<Rightarrow> u32 \<Rightarrow> u32 \<Rightarrow> frame \<Rightarrow> frame option" where
  "frame_add_chunk na nf address n s =
     (if n \<le> PAGE_SIZE then Some s else frame_chunk_loop na nf address n (s\<lparr>fa_base := address\<rparr>))"

text \<open>\<open>MAX_FRAMES + 1\<close> nodes are the cache's minimum.\<close>
definition frame_init :: "(u32 \<Rightarrow> slub \<Rightarrow> (u32 \<times> slub) option) \<Rightarrow> nat \<Rightarrow> frame \<Rightarrow> frame option" where
  "frame_init memmap cpu s = do {
     (c, sl) \<leftarrow> mem_cache_new memmap cpu ''cache_pfa_node'' (sizeof frame_node_layout) 21 None (slub (fa_heap s));
     let s1 = s\<lparr>fa_lock := 0, fa_heap := (fa_heap s)\<lparr>slub := sl\<rparr>\<rparr>;
     Some (if c \<noteq> NULL then s1\<lparr>cache_init := True\<rparr> else s1) }"

subsection \<open>The free pages\<close>

text \<open>A free list in memory, as the list of its nodes and their addresses.\<close>
fun fnodes :: "cells \<Rightarrow> u32 \<Rightarrow> (u32 \<times> u32) list \<Rightarrow> bool" where
  "fnodes m p [] \<longleftrightarrow> p = 0"
| "fnodes m p ((n, a) # xs) \<longleftrightarrow> p = n \<and> n \<noteq> 0 \<and> m n = Some a \<and> (\<exists>q. m (n + 4) = Some q \<and> fnodes m q xs)"

definition chunk_pages :: "u32 \<Rightarrow> nat \<Rightarrow> u32 list" where
  "chunk_pages a c = map (\<lambda>i. a + of_nat i * PAGE_SIZE) [0..<c]"

definition list_pages :: "nat \<Rightarrow> (u32 \<times> u32) list \<Rightarrow> u32 multiset" where
  "list_pages c xs = mset (concat (map (\<lambda>(n, a). chunk_pages a c) xs))"

text \<open>The pages of all free chunks, each as often as it is listed; the \<open>i\<close>-th list holds chunks of \<open>i + 1\<close>.\<close>
fun pages_from :: "nat \<Rightarrow> (u32 \<times> u32) list list \<Rightarrow> u32 multiset" where
  "pages_from c [] = {#}"
| "pages_from c (xs # Ls) = list_pages c xs + pages_from (Suc c) Ls"

definition free_pages :: "(u32 \<times> u32) list list \<Rightarrow> u32 multiset" where
  "free_pages Ls = pages_from 1 Ls"

definition frame_nodes :: "(u32 \<times> u32) list list \<Rightarrow> u32 list" where
  "frame_nodes Ls = map fst (concat Ls)"

definition frame_holds :: "frame \<Rightarrow> (u32 \<times> u32) list list \<Rightarrow> bool" where
  "frame_holds s Ls \<longleftrightarrow> length (free_lists s) = 20 \<and> length Ls = 20
     \<and> (\<forall>i < 20. fnodes (hmem (fa_heap s)) (free_lists s ! i) (Ls ! i))"

definition frame_ok :: "(kheap \<Rightarrow> u32 set \<Rightarrow> u32 list \<Rightarrow> bool) \<Rightarrow> frame \<Rightarrow> u32 set \<Rightarrow> u32 list \<Rightarrow> (u32 \<times> u32) list list \<Rightarrow> bool" where
  "frame_ok avail s R xs Ls \<longleftrightarrow> frame_holds s Ls \<and> avail (fa_heap s) R xs \<and> nodes_apart 2 (frame_nodes Ls) R xs"

lemma chunk_pages_append: "chunk_pages a (c + d) = chunk_pages a c @ chunk_pages (a + of_nat c * PAGE_SIZE) d"
proof -
  have "[0..<c + d] = [0..<c] @ map (\<lambda>i. i + c) [0..<d]"
    by (metis add.commute add.left_neutral le_add1 map_add_upt upt_add_eq_append)
  then show ?thesis by (simp add: chunk_pages_def algebra_simps)
qed

lemma length_chunk_pages [simp]: "length (chunk_pages a c) = c"
  by (simp add: chunk_pages_def)

lemma list_pages_simps [simp]:
  "list_pages c [] = {#}" "list_pages c ((n, a) # xs) = mset (chunk_pages a c) + list_pages c xs"
  "list_pages c (xs @ ys) = list_pages c xs + list_pages c ys"
  by (simp_all add: list_pages_def)

lemma pages_from_upd:
  "i < length Ls \<Longrightarrow> pages_from c (Ls[i := ys]) + list_pages (c + i) (Ls ! i) = pages_from c Ls + list_pages (c + i) ys"
proof (induction Ls arbitrary: c i)
  case Nil
  then show ?case by simp
next
  case (Cons xs Ls)
  show ?case
  proof (cases i)
    case 0
    then show ?thesis by simp
  next
    case (Suc j)
    with Cons.prems have "j < length Ls" by simp
    from Cons.IH[OF this, of "Suc c"] Suc show ?thesis by (simp add: ac_simps)
  qed
qed

lemma free_pages_upd:
  "i < length Ls \<Longrightarrow> free_pages (Ls[i := ys]) + list_pages (Suc i) (Ls ! i) = free_pages Ls + list_pages (Suc i) ys"
  using pages_from_upd[of i Ls 1 ys] by (simp add: free_pages_def)

lemma free_pages_push:
  "i < length Ls \<Longrightarrow> free_pages (Ls[i := (n, a) # Ls ! i]) = free_pages Ls + mset (chunk_pages a (Suc i))"
  using free_pages_upd[of i Ls "(n, a) # Ls ! i"] by (simp add: ac_simps)

lemma free_pages_snoc:
  "i < length Ls \<Longrightarrow> free_pages (Ls[i := Ls ! i @ [(n, a)]]) = free_pages Ls + mset (chunk_pages a (Suc i))"
  using free_pages_upd[of i Ls "Ls ! i @ [(n, a)]"] by (simp add: ac_simps)

lemma free_pages_pop:
  "i < length Ls \<Longrightarrow> Ls ! i = (n, a) # xs \<Longrightarrow> free_pages Ls = free_pages (Ls[i := xs]) + mset (chunk_pages a (Suc i))"
  using free_pages_upd[of i Ls xs] by (simp add: ac_simps)

lemma frame_nodes_upd:
  assumes "i < length Ls"
  shows "\<exists>us vs. frame_nodes Ls = us @ map fst (Ls ! i) @ vs \<and> (\<forall>ys. frame_nodes (Ls[i := ys]) = us @ map fst ys @ vs)"
  using assms id_take_nth_drop[OF assms] upd_conv_take_nth_drop[OF assms]
  by (metis (no_types, lifting) concat.simps(2) concat_append frame_nodes_def map_append)

lemma fnodes_cong:
  "fnodes m p xs \<Longrightarrow> (\<And>n q. n \<in> fst ` set xs \<Longrightarrow> q \<in> node_cells 2 n \<Longrightarrow> m' q = m q) \<Longrightarrow> fnodes m' p xs"
proof (induction xs arbitrary: p)
  case Nil
  then show ?case by simp
next
  case (Cons x xs)
  obtain n a where x: "x = (n, a)" by (cases x)
  have "n \<in> node_cells 2 n" "n + 4 \<in> node_cells 2 n" by (auto simp: node_cells_def image_iff intro: bexI[of _ 0] bexI[of _ 1])
  then have "m' n = m n" "m' (n + 4) = m (n + 4)" using Cons.prems(2)[of n] x by auto
  moreover have "fnodes m' q xs" if "fnodes m q xs" for q using Cons.IH[OF that] Cons.prems(2) by auto
  ultimately show ?case using Cons.prems(1) x by auto
qed

lemma fnodes_snoc:
  assumes "fnodes m p (xs @ [(l, b)])" and "m' (l + 4) = Some x" and "x \<noteq> 0" and "m' x = Some a" and "m' (x + 4) = Some 0"
    and "\<And>n q. n \<in> fst ` set (xs @ [(l, b)]) \<Longrightarrow> q \<in> node_cells 2 n \<Longrightarrow> q \<noteq> l + 4 \<Longrightarrow> m' q = m q"
    and "\<And>n. n \<in> fst ` set xs \<Longrightarrow> l + 4 \<notin> node_cells 2 n"
  shows "fnodes m' p (xs @ [(l, b), (x, a)])"
  using assms
proof (induction xs arbitrary: p)
  case Nil
  have "l \<in> node_cells 2 l" by (rule node_cells_0) simp
  moreover have "l \<noteq> l + 4" by simp
  ultimately show ?case using Nil by auto
next
  case (Cons y xs)
  obtain n c where y: "y = (n, c)" by (cases y)
  have n: "n \<in> node_cells 2 n" "n + 4 \<in> node_cells 2 n" by (auto simp: node_cells_def image_iff intro: bexI[of _ 0] bexI[of _ 1])
  have ne: "n \<noteq> l + 4" "n + 4 \<noteq> l + 4" using Cons.prems(7)[of n] n y by auto
  from Cons.prems(1) y obtain q where q: "p = n" "n \<noteq> 0" "m n = Some c" "m (n + 4) = Some q" "fnodes m q (xs @ [(l, b)])"
    by auto
  have "fnodes m' q (xs @ [(l, b), (x, a)])"
    using Cons.prems(2-7) by (intro Cons.IH[OF q(5)]) auto
  moreover have "m' n = Some c" "m' (n + 4) = Some q" using Cons.prems(6)[of n] n ne y q by auto
  ultimately show ?case using q y by simp
qed

lemma fnodes_mapped: "fnodes m p xs \<Longrightarrow> (n, a) \<in> set xs \<Longrightarrow> m n \<noteq> None \<and> m (n + 4) \<noteq> None"
  by (induction m p xs rule: fnodes.induct) auto

lemma in_frame_nodes: "i < length Ls \<Longrightarrow> n \<in> fst ` set (Ls ! i) \<Longrightarrow> n \<in> set (frame_nodes Ls)"
proof -
  assume "i < length Ls" "n \<in> fst ` set (Ls ! i)"
  then obtain b where "(n, b) \<in> set (Ls ! i)" "Ls ! i \<in> set Ls" using nth_mem by force
  then have "(n, b) \<in> set (concat Ls)" unfolding set_concat by (rule UN_I[rotated])
  then show ?thesis unfolding frame_nodes_def set_map by (rule image_eqI[rotated]) simp
qed

lemma frame_nodes_other:
  assumes "distinct (frame_nodes Ls)" and "i < length Ls" and "j < length Ls" and "j \<noteq> i"
    and "n \<in> fst ` set (Ls ! j)" and "l \<in> fst ` set (Ls ! i)"
  shows "n \<noteq> l"
proof -
  obtain us vs where a: "frame_nodes Ls = us @ map fst (Ls ! i) @ vs" "\<forall>ys. frame_nodes (Ls[i := ys]) = us @ map fst ys @ vs"
    using frame_nodes_upd[OF assms(2)] by blast
  have "n \<in> set (frame_nodes (Ls[i := []]))"
    using assms(3-5) unfolding frame_nodes_def by (force simp: in_set_conv_nth[of _ "Ls[i := []]"])
  then have "n \<in> set us \<union> set vs" using a(2) by auto
  with assms(1,6) a(1) show ?thesis by auto
qed

lemma frame_scan_last:
  assumes "fnodes (hmem (fa_heap s)) p (xs @ [(l, b)])"
    and "\<And>n a. (n, a) \<in> set (xs @ [(l, b)]) \<Longrightarrow> \<not> frame_buddy_check s a address (c * PAGE_SIZE)"
  shows "frame_scan s address c prev p = Some (Last l)"
  using assms
proof (induction xs arbitrary: p prev)
  case Nil
  then show ?case by (auto simp: frame_scan.simps fn_address_def fn_next_def hget_def)
next
  case (Cons y xs)
  obtain n a where y: "y = (n, a)" by (cases y)
  from Cons.prems(1) y obtain q where q: "p = n" "hmem (fa_heap s) n = Some a" "hmem (fa_heap s) (n + 4) = Some q"
    "fnodes (hmem (fa_heap s)) q (xs @ [(l, b)])" by auto
  have "q \<noteq> 0" using q(4) by (cases xs) auto
  moreover have "\<not> frame_buddy_check s a address (c * PAGE_SIZE)" using Cons.prems(2) y by auto
  moreover have "frame_scan s address c n q = Some (Last l)" using Cons.IH[OF q(4)] Cons.prems(2) by auto
  ultimately show ?case using q by (simp add: frame_scan.simps[of s address c prev] fn_address_def fn_next_def hget_def)
qed

lemma buddy_iff: "frame_buddy_check s a b n \<longleftrightarrow> min a b + n = max a b"
  by (simp add: frame_buddy_check_def Let_def algebra_simps)


text \<open>What \<open>frame_alloc\<close> does to the lists: it pops a chunk of at least \<open>w\<close> pages, which starts at \<open>a\<close>, and puts
  what is left of it into the list of its size.\<close>
definition frame_took :: "u32 \<Rightarrow> nat \<Rightarrow> (u32 \<times> u32) list list \<Rightarrow> (u32 \<times> u32) list list \<Rightarrow> bool" where
  "frame_took a w Ls Ls' \<longleftrightarrow> (\<exists>i n ps. i < 20 \<and> Ls ! i = (n, a) # ps \<and>
     (w = Suc i \<and> Ls' = Ls[i := ps]
      \<or> w \<le> i \<and> (\<exists>x us vs. Ls ! (i - w) = us @ vs \<and> Ls' = Ls[i := ps, i - w := us @ (x, a + of_nat w * PAGE_SIZE) # vs])))"

text \<open>A request of \<open>w\<close> pages merges nothing: what is left of the chunk it is cut from, the head of the first
  list of chunks of at least \<open>w\<close> pages that is not empty, touches no listed chunk of the same size. Chunks of
  different sizes may touch.\<close>
definition no_merge :: "nat \<Rightarrow> (u32 \<times> u32) list list \<Rightarrow> bool" where
  "no_merge w Ls \<longleftrightarrow> (\<forall>i < 20. w \<le> i \<longrightarrow> (\<forall>k < i. w \<le> Suc k \<longrightarrow> Ls ! k = []) \<longrightarrow>
     (case Ls ! i of [] \<Rightarrow> True
      | (_, b) # _ \<Rightarrow> \<forall>(_, d)\<in>set (Ls ! (i - w)). b + of_nat (Suc i) * PAGE_SIZE \<noteq> d
          \<and> d + of_nat (Suc i - w) * PAGE_SIZE \<noteq> b + of_nat w * PAGE_SIZE))"

lemma no_merge_buddy:
  assumes "no_merge w Ls" and "i < 20" and "w \<le> i" and "\<And>k. k < i \<Longrightarrow> w \<le> Suc k \<Longrightarrow> Ls ! k = []"
    and "Ls ! i = (n, b) # ps" and "(m, d) \<in> set (Ls ! (i - w))"
  shows "\<not> frame_buddy_check s d (b + of_nat w * PAGE_SIZE) (of_nat (Suc i - w) * PAGE_SIZE)"
proof
  let ?e = "b + of_nat w * PAGE_SIZE" and ?n = "of_nat (Suc i - w) * PAGE_SIZE"
  have no: "b + of_nat (Suc i) * PAGE_SIZE \<noteq> d" "d + ?n \<noteq> ?e"
    using assms unfolding no_merge_def by fastforce+
  have "of_nat w + of_nat (Suc i - w) = (of_nat (Suc i) :: u32)"
    using assms(3) by (metis le_SucI le_add_diff_inverse of_nat_add)
  then have e: "?e + ?n = b + of_nat (Suc i) * PAGE_SIZE" by (metis add.assoc distrib_right)
  assume "frame_buddy_check s d ?e ?n"
  then have "d + ?n = ?e \<or> ?e + ?n = d" by (auto simp: buddy_iff min_def max_def split: if_splits)
  with no e show False by metis
qed

text \<open>A single page is cut from the smallest chunk listed, so the list for what is left of it is empty.\<close>
lemma no_merge_1: "no_merge 1 Ls"
  unfolding no_merge_def by (auto split: list.split)

text \<open>Where all chunks but those of one size \<open>r\<close> are as large as possible, only a request of \<open>20 - r\<close> pages can merge.\<close>
lemma no_merge_rest:
  assumes "\<forall>i < 19. Suc i \<noteq> r \<longrightarrow> Ls ! i = []" and "1 \<le> w" and "w + r \<noteq> 20"
  shows "no_merge w Ls"
  unfolding no_merge_def
proof (intro allI impI)
  fix i assume i: "i < 20" "w \<le> i"
  show "case Ls ! i of [] \<Rightarrow> True | (_, b) # _ \<Rightarrow> \<forall>(_, d)\<in>set (Ls ! (i - w)). b + of_nat (Suc i) * PAGE_SIZE \<noteq> d
      \<and> d + of_nat (Suc i - w) * PAGE_SIZE \<noteq> b + of_nat w * PAGE_SIZE"
  proof (cases "Ls ! i = []")
    case False
    then have "i = 19 \<or> Suc i = r" using assms(1)[rule_format, of i] i(1) by linarith
    then have "i - w < 19" "Suc (i - w) \<noteq> r" using assms(2,3) i by linarith+
    then have "Ls ! (i - w) = []" using assms(1) by blast
    then show ?thesis by (simp split: list.split)
  qed simp
qed

locale frame_pool = node_pool 2 alloc avail
  for alloc :: "kheap \<Rightarrow> (u32 \<times> kheap) option" and avail :: "kheap \<Rightarrow> u32 set \<Rightarrow> u32 list \<Rightarrow> bool"
begin

lemma new_node:
  assumes "avail h R (x # y # xs)"
  shows "\<exists>h'. frame_new_node alloc a link h = Some (x, h') \<and> avail h' R (y # xs) \<and> x \<noteq> 0
    \<and> hmem h' x = Some a \<and> hmem h' (x + 4) = Some link
    \<and> (\<forall>p. p \<notin> R \<longrightarrow> p \<notin> node_cells 2 x \<longrightarrow> hmem h' p = hmem h p)"
proof -
  obtain h1 where h1: "alloc h = Some (x, h1)" "avail h1 R (y # xs)" "x \<noteq> NULL" "\<forall>p. p \<notin> R \<longrightarrow> hmem h1 p = hmem h p"
    and c: "\<forall>p\<in>node_cells 2 x. hmem h1 p \<noteq> None \<and> p \<notin> R \<and> (\<forall>z\<in>set (y # xs). p \<notin> node_cells 2 z)"
    using alloc_fresh[OF assms] by blast
  have n: "x \<in> node_cells 2 x" "x + 4 \<in> node_cells 2 x"
    by (auto simp: node_cells_def image_iff intro: bexI[of _ 0] bexI[of _ 1])
  let ?h2 = "hset h1 ((hmem h1)(x \<mapsto> a))"
  let ?h3 = "hset ?h2 ((hmem ?h2)(x + 4 \<mapsto> link))"
  have "hput x a h1 = Some ?h2" using c n by (intro hput_ok) blast
  moreover have "hmem ?h2 (x + 4) \<noteq> None" using c n by simp
  then have "hput (x + 4) link ?h2 = Some ?h3" by (rule hput_ok)
  moreover have "avail ?h2 R (y # xs)"
    by (rule avail_put[OF h1(2)]) (use c n in blast)+
  then have "avail ?h3 R (y # xs)"
    by (rule avail_put) (use c n \<open>hmem ?h2 (x + 4) \<noteq> None\<close> in blast)+
  moreover have "\<forall>p. p \<notin> R \<longrightarrow> p \<notin> node_cells 2 x \<longrightarrow> hmem ?h3 p = hmem h p" using h1(4) n by auto
  ultimately show ?thesis using h1(1,3) by (simp add: frame_new_node_def)
qed

lemma frame_ok_apart:
  assumes "frame_ok avail s R (x # xs) Ls"
  shows "\<forall>i < 20. \<forall>n\<in>fst ` set (Ls ! i). \<forall>p\<in>node_cells 2 n. p \<notin> R \<and> p \<notin> node_cells 2 x"
proof (intro allI impI ballI)
  fix i n p assume a: "i < 20" "n \<in> fst ` set (Ls ! i)" "p \<in> node_cells 2 n"
  have "i < length Ls" using assms a(1) by (simp add: frame_ok_def frame_holds_def)
  then have "n \<in> set (frame_nodes Ls)" using a(2) by (rule in_frame_nodes)
  with assms a(3) show "p \<notin> R \<and> p \<notin> node_cells 2 x"
    unfolding frame_ok_def nodes_apart_def by auto
qed

lemma avail_cells:
  assumes "avail h R (x # xs)"
  shows "\<And>p. p \<in> node_cells 2 x \<Longrightarrow> p \<notin> R \<and> (\<forall>z\<in>set xs. p \<notin> node_cells 2 z)" and "x \<notin> set xs"
proof -
  show "p \<notin> R \<and> (\<forall>z\<in>set xs. p \<notin> node_cells 2 z)" if "p \<in> node_cells 2 x" for p
    using avail_mapped[OF assms, of x p] avail_apart[OF assms] that by auto
  show "x \<notin> set xs" using avail_apart[OF assms, of x] node_cells_0[of 2 x] by auto
qed

lemma frame_ok_insert:
  assumes "frame_ok avail s R (x # y # xs) Ls" and "i < 20" and "Ls ! i = us @ vs"
    and "avail h R (y # xs)" and "length ls = 20"
    and "fnodes (hmem h) (ls ! i) (us @ (x, a) # vs)"
    and "\<And>j. j < 20 \<Longrightarrow> j \<noteq> i \<Longrightarrow> ls ! j = free_lists s ! j"
    and "\<And>j n p. j < 20 \<Longrightarrow> j \<noteq> i \<Longrightarrow> n \<in> fst ` set (Ls ! j) \<Longrightarrow> p \<in> node_cells 2 n \<Longrightarrow> hmem h p = hmem (fa_heap s) p"
    and "free_lists s' = ls" "fa_heap s' = h"
  shows "frame_ok avail s' R (y # xs) (Ls[i := us @ (x, a) # vs])"
proof -
  have L: "length Ls = 20" and av: "avail (fa_heap s) R (x # y # xs)" using assms(1) by (auto simp: frame_ok_def frame_holds_def)
  have "fnodes (hmem h) (ls ! j) (Ls[i := us @ (x, a) # vs] ! j)" if "j < 20" for j
  proof (cases "j = i")
    case True
    with assms(2,6) L show ?thesis by simp
  next
    case False
    have "fnodes (hmem (fa_heap s)) (free_lists s ! j) (Ls ! j)"
      using assms(1) that by (simp add: frame_ok_def frame_holds_def)
    then have "fnodes (hmem h) (free_lists s ! j) (Ls ! j)"
      by (rule fnodes_cong) (use assms(8)[OF that False] in auto)
    with False assms(7)[OF that False] show ?thesis by simp
  qed
  moreover obtain us' vs' where fr: "frame_nodes Ls = us' @ map fst (us @ vs) @ vs'"
      "\<forall>ys. frame_nodes (Ls[i := ys]) = us' @ map fst ys @ vs'"
    using frame_nodes_upd[of i Ls] assms(2,3) L by auto
  have "nodes_apart 2 ((us' @ map fst us) @ x # map fst vs @ vs') R (y # xs)"
    using assms(1) fr(1) avail_cells[OF av] by (intro nodes_apart_insert) (auto simp: frame_ok_def)
  with fr(2) have "nodes_apart 2 (frame_nodes (Ls[i := us @ (x, a) # vs])) R (y # xs)" by simp
  ultimately show ?thesis using assms L by (simp add: frame_ok_def frame_holds_def)
qed

lemma add_push:
  assumes ok: "frame_ok avail s R (x # y # xs) Ls" and i: "i < 20" and new: "new \<or> Ls ! i = []"
  shows "\<exists>s'. frame_add_free_item alloc nf a (of_nat (Suc i)) new s = Some s'
    \<and> frame_ok avail s' R (y # xs) (Ls[i := (x, a) # Ls ! i]) \<and> fa_lock s' = fa_lock s"
proof -
  have av: "avail (fa_heap s) R (x # y # xs)" and len: "length (free_lists s) = 20" "length Ls = 20"
    and fn: "fnodes (hmem (fa_heap s)) (free_lists s ! i) (Ls ! i)"
    using ok i by (auto simp: frame_ok_def frame_holds_def)
  have c: "unat (of_nat (Suc i) :: u32) = Suc i" using i by (intro unat_of_nat32) simp
  have c20: "\<not> (of_nat (Suc i) :: u32) > 20" "(of_nat (Suc i) :: u32) \<noteq> 0"
    using i c by (auto simp only: word_less_nat_alt unat_eq_zero[symmetric]) auto
  obtain h where h: "frame_new_node alloc a (free_lists s ! i) (fa_heap s) = Some (x, h)" "avail h R (y # xs)" "x \<noteq> 0"
      "hmem h x = Some a" "hmem h (x + 4) = Some (free_lists s ! i)"
      "\<forall>p. p \<notin> R \<longrightarrow> p \<notin> node_cells 2 x \<longrightarrow> hmem h p = hmem (fa_heap s) p"
    using new_node[OF av] by blast
  let ?s = "s\<lparr>fa_heap := h, free_lists := (free_lists s)[i := x]\<rparr>"
  have keep: "hmem h p = hmem (fa_heap s) p" if "j < 20" "n \<in> fst ` set (Ls ! j)" "p \<in> node_cells 2 n" for j n p
    using h(6) frame_ok_apart[OF ok] that by blast
  have "fnodes (hmem h) (free_lists s ! i) (Ls ! i)" using fn by (rule fnodes_cong) (use keep i in blast)
  then have fn': "fnodes (hmem h) ((free_lists s)[i := x] ! i) ([] @ (x, a) # Ls ! i)"
    using h(3-5) i len by simp
  have "frame_ok avail ?s R (y # xs) (Ls[i := [] @ (x, a) # Ls ! i])"
    by (rule frame_ok_insert[OF ok i _ h(2) _ fn']) (use len keep in auto)
  moreover have "new \<or> free_lists s ! i = 0" using new fn by auto
  then have "frame_add_free_item alloc nf a (of_nat (Suc i)) new s = Some ?s"
    using c20 c h(1) i len
    by (subst frame_add_free_item.simps) (auto simp: aget_in aset_in Let_def simp del: of_nat_Suc)
  ultimately show ?thesis by auto
qed

lemma add_append:
  assumes ok: "frame_ok avail s R (x # y # xs) Ls" and i: "i < 20" and ne: "Ls ! i \<noteq> []"
    and nb: "\<And>n b. (n, b) \<in> set (Ls ! i) \<Longrightarrow> \<not> frame_buddy_check s b a (of_nat (Suc i) * PAGE_SIZE)"
  shows "\<exists>s'. frame_add_free_item alloc nf a (of_nat (Suc i)) False s = Some s'
    \<and> frame_ok avail s' R (y # xs) (Ls[i := Ls ! i @ [(x, a)]]) \<and> fa_lock s' = fa_lock s"
proof -
  have av: "avail (fa_heap s) R (x # y # xs)" and len: "length (free_lists s) = 20" "length Ls = 20"
    and fn: "fnodes (hmem (fa_heap s)) (free_lists s ! i) (Ls ! i)"
    using ok i by (auto simp: frame_ok_def frame_holds_def)
  have c: "unat (of_nat (Suc i) :: u32) = Suc i" using i by (intro unat_of_nat32) simp
  have c20: "\<not> (of_nat (Suc i) :: u32) > 20" "(of_nat (Suc i) :: u32) \<noteq> 0"
    using i c by (auto simp only: word_less_nat_alt unat_eq_zero[symmetric]) auto
  obtain ys l b where L: "Ls ! i = ys @ [(l, b)]" using ne by (metis prod.exhaust rev_exhaust)
  have hd: "free_lists s ! i \<noteq> 0" using fn L by (cases ys) auto
  have sc: "frame_scan s a (of_nat (Suc i)) 0 (free_lists s ! i) = Some (Last l)"
    using fn nb unfolding L by (intro frame_scan_last) auto
  obtain h where h: "frame_new_node alloc a 0 (fa_heap s) = Some (x, h)" "avail h R (y # xs)" "x \<noteq> 0"
      "hmem h x = Some a" "hmem h (x + 4) = Some 0"
      "\<forall>p. p \<notin> R \<longrightarrow> p \<notin> node_cells 2 x \<longrightarrow> hmem h p = hmem (fa_heap s) p"
    using new_node[OF av] by blast
  have ap: "p \<notin> R \<and> p \<notin> node_cells 2 x" if "j < 20" "n \<in> fst ` set (Ls ! j)" "p \<in> node_cells 2 n" for j n p
    using frame_ok_apart[OF ok] that by blast
  have keep: "hmem h p = hmem (fa_heap s) p" if "j < 20" "n \<in> fst ` set (Ls ! j)" "p \<in> node_cells 2 n" for j n p
    using h(6) ap[OF that] by blast
  have n4: "n + 4 \<in> node_cells 2 n" "n \<in> node_cells 2 n" for n
    by (auto simp: node_cells_def image_iff intro: bexI[of _ 0] bexI[of _ 1])
  have l: "l \<in> fst ` set (Ls ! i)" using L by auto
  have lx: "l + 4 \<noteq> x" "l + 4 \<noteq> x + 4" "l + 4 \<notin> R" using ap[OF i l n4(1)] n4[of x] by auto
  let ?h = "hset h ((hmem h)(l + 4 \<mapsto> x))"
  have mp: "hmem h (l + 4) \<noteq> None"
    using keep[OF i l n4(1)] fnodes_mapped[OF fn, of l b] L by simp
  have put: "hput (l + 4) x h = Some ?h" using mp by (rule hput_ok)
  have other: "l + 4 \<notin> node_cells 2 n" if "n \<in> set (frame_nodes Ls)" "n \<noteq> l" for n
  proof -
    have "l \<in> set (frame_nodes Ls)" using l i len by (intro in_frame_nodes) auto
    with ok that n4(1)[of l] show ?thesis unfolding frame_ok_def nodes_apart_def by blast
  qed
  have dist: "distinct (frame_nodes Ls)" using ok by (simp add: frame_ok_def nodes_apart_def)
  obtain us vs where fr: "frame_nodes Ls = us @ map fst (Ls ! i) @ vs" using frame_nodes_upd[of i Ls] i len by auto
  have inn: "n \<in> set (frame_nodes Ls)" if "j < 20" "n \<in> fst ` set (Ls ! j)" for j n
    using that len by (intro in_frame_nodes[of j]) auto
  have nl: "n \<noteq> l" if "n \<in> fst ` set ys" for n using dist fr L that by auto
  have nl2: "n \<noteq> l" if "j < 20" "j \<noteq> i" "n \<in> fst ` set (Ls ! j)" for j n
    using frame_nodes_other[OF dist _ _ that(2,3)] l i that(1) len by auto
  have av': "avail ?h R (y # xs)"
  proof (rule avail_put[OF h(2) mp lx(3)])
    show "\<forall>z\<in>set (y # xs). l + 4 \<notin> node_cells 2 z"
    proof
      fix z assume z: "z \<in> set (y # xs)"
      have "nodes_apart 2 (frame_nodes Ls) R (x # y # xs)" using ok by (simp add: frame_ok_def)
      then have "z \<noteq> l" "\<forall>z\<in>set (x # y # xs) \<union> set (frame_nodes Ls). z \<noteq> l \<longrightarrow> l + 4 \<notin> node_cells 2 z"
        using inn[OF i l] n4(1)[of l] z unfolding nodes_apart_def by (auto simp only: set_simps)
      with z show "l + 4 \<notin> node_cells 2 z" by auto
    qed
  qed
  have "fnodes (hmem ?h) (free_lists s ! i) (ys @ [(l, b), (x, a)])"
  proof (rule fnodes_snoc[OF fn[unfolded L]])
    show "hmem ?h (l + 4) = Some x" "hmem ?h x = Some a" "hmem ?h (x + 4) = Some 0" "x \<noteq> 0"
      using h(3-5) lx by auto
    show "hmem ?h q = hmem (fa_heap s) q" if "n \<in> fst ` set (ys @ [(l, b)])" "q \<in> node_cells 2 n" "q \<noteq> l + 4" for n q
      using keep[OF i _ that(2)] that L by auto
    show "l + 4 \<notin> node_cells 2 n" if "n \<in> fst ` set ys" for n
      using other[of n] nl[OF that] inn[OF i, of n] that L by auto
  qed
  then have fn': "fnodes (hmem ?h) (free_lists s ! i) (Ls ! i @ (x, a) # [])" by (simp add: L)
  let ?s = "s\<lparr>fa_heap := ?h\<rparr>"
  have "frame_ok avail ?s R (y # xs) (Ls[i := Ls ! i @ (x, a) # []])"
  proof (rule frame_ok_insert[OF ok i _ av' len(1) fn'])
    fix j n p assume a: "j < 20" "j \<noteq> i" "n \<in> fst ` set (Ls ! j)" "p \<in> node_cells 2 n"
    have "p \<noteq> l + 4" using other[OF inn[OF a(1,3)] nl2[OF a(1-3)]] a(4) by blast
    then show "hmem ?h p = hmem (fa_heap s) p" using keep[OF a(1,3,4)] by simp
  qed simp_all
  moreover have "frame_add_free_item alloc nf a (of_nat (Suc i)) False s = Some ?s"
    using c20 c h(1) i len hd sc put
    by (subst frame_add_free_item.simps) (auto simp: aget_in aset_in Let_def simp del: of_nat_Suc)
  ultimately show ?thesis by auto
qed

end

subsection \<open>Adding and allocating chunks\<close>

lemma unat_pages: "c \<le> 20 \<Longrightarrow> unat (of_nat c * PAGE_SIZE) = c * 4096"
proof -
  assume c: "c \<le> 20"
  have "unat (of_nat c :: u32) = c" using c by (intro unat_of_nat32) simp
  then show ?thesis using unat_times_nowrap[of "of_nat c" PAGE_SIZE] c by (simp add: PAGE_SIZE_def)
qed

lemma largest_count_eq:
  "m \<le> 20 \<Longrightarrow> largest_count n m = (if m = 0 \<or> unat n < 4096 then None else Some (min m (unat n div 4096)))"
proof (induction m)
  case 0
  then show ?case by simp
next
  case (Suc m)
  have "n \<ge> of_nat (Suc m) * PAGE_SIZE \<longleftrightarrow> Suc m * 4096 \<le> unat n"
    using unat_pages[OF Suc.prems] by (simp only: word_le_nat_alt)
  also have "\<dots> \<longleftrightarrow> Suc m \<le> unat n div 4096" by (simp add: less_eq_div_iff_mult_less_eq)
  finally have "n \<ge> of_nat (Suc m) * PAGE_SIZE \<longleftrightarrow> Suc m \<le> unat n div 4096" .
  moreover have "m = 0 \<Longrightarrow> unat n < 4096 \<longleftrightarrow> \<not> Suc m \<le> unat n div 4096" by auto
  moreover have "unat n < 4096 \<Longrightarrow> unat n div 4096 = 0" by simp
  ultimately show ?case using Suc by (auto simp del: of_nat_Suc simp: min_def)
qed

text \<open>One round of the loop of \<open>frame_add_chunk\<close>: what it cuts off and what is left.\<close>
lemma largest_chunk:
  assumes "4096 \<le> unat n"
  defines "c \<equiv> min 20 (unat n div 4096)"
  shows "largest_count n MAX_FRAMES = Some c" and "1 \<le> c" and "c \<le> 20" and "c \<le> unat n div 4096"
    and "unat (n - of_nat c * PAGE_SIZE) < unat n" and "unat (n - of_nat c * PAGE_SIZE) div 4096 = unat n div 4096 - c"
    and "(unat n div 4096 - c + 19) div 20 + 1 = (unat n div 4096 + 19) div 20"
proof -
  let ?P = "unat n div 4096"
  have P: "1 \<le> ?P" using assms(1) by (simp add: less_eq_div_iff_mult_less_eq)
  then show c: "1 \<le> c" "c \<le> 20" "c \<le> ?P" by (auto simp: c_def)
  show "largest_count n MAX_FRAMES = Some c"
    using assms(1) by (simp add: largest_count_eq MAX_FRAMES_def c_def)
  have cb: "unat (of_nat c * PAGE_SIZE) = c * 4096" using unat_pages[OF c(2)] .
  have le: "c * 4096 \<le> unat n" using c(3) by (simp add: less_eq_div_iff_mult_less_eq)
  then have n': "unat (n - of_nat c * PAGE_SIZE) = unat n - c * 4096" using unat_diff_le cb by simp
  then show "unat (n - of_nat c * PAGE_SIZE) < unat n" using le c(1) by simp
  show "unat (n - of_nat c * PAGE_SIZE) div 4096 = ?P - c" using n' le by (simp add: div_mult_self1 diff_mult_distrib)
  show "(?P - c + 19) div 20 + 1 = (?P + 19) div 20"
  proof (cases "?P \<le> 20")
    case True
    then have "?P - c + 19 = 19" by (simp add: c_def)
    moreover have "(?P + 19) div 20 = 1" using True P by (intro div_nat_eqI) simp_all
    ultimately show ?thesis by simp
  next
    case False
    then have "?P - c + 19 + 20 = ?P + 19" by (simp add: c_def)
    then show ?thesis by (metis div_add_self2 zero_neq_numeral)
  qed
qed

context frame_pool
begin

lemma chunk_loop:
  assumes "frame_ok avail s R xs Ls" and "(unat n div 4096 + 19) div 20 < length xs"
  shows "\<exists>s' xs' Ls'. frame_chunk_loop alloc nf a n s = Some s' \<and> frame_ok avail s' R xs' Ls'
    \<and> free_pages Ls' = free_pages Ls + mset (chunk_pages a (unat n div 4096)) \<and> fa_lock s' = fa_lock s
    \<and> length xs - (unat n div 4096 + 19) div 20 \<le> length xs'
    \<and> (\<forall>i < 19. Suc i \<noteq> unat n div 4096 mod 20 \<longrightarrow> Ls' ! i = Ls ! i)"
  using assms
proof (induction "unat n" arbitrary: n a s xs Ls rule: less_induct)
  case less
  let ?P = "unat n div 4096"
  show ?case
  proof (cases "unat n < 4096")
    case True
    then show ?thesis using less.prems
      by (subst frame_chunk_loop.simps) (auto simp: PAGE_SIZE_def word_le_nat_alt chunk_pages_def)
  next
    case False
    define c where "c = min 20 ?P"
    have "4096 \<le> unat n" using False by simp
    note L = largest_chunk[OF this, folded c_def]
    note l = L(1) and c = L(2-4) and lt = L(5) and P' = L(6) and step = L(7)
    have "(?P + 19) div 20 \<ge> 1" using c(1,3) by simp
    then obtain x y ys where xs: "xs = x # y # ys" using less.prems(2)
      by (metis One_nat_def Suc_lessD Suc_length_conv le_less_trans length_Cons less_nat_zero_code list.exhaust list.size(3) not_less_iff_gr_or_eq)
    obtain s1 where s1: "frame_add_free_item alloc nf a (of_nat (Suc (c - 1))) True s = Some s1"
        "frame_ok avail s1 R (y # ys) (Ls[c - 1 := (x, a) # Ls ! (c - 1)])" "fa_lock s1 = fa_lock s"
      using add_push[of s R x y ys Ls "c - 1" True nf a] less.prems(1) xs c by fastforce
    have fp: "free_pages (Ls[c - 1 := (x, a) # Ls ! (c - 1)]) = free_pages Ls + mset (chunk_pages a c)"
      using free_pages_push[of "c - 1" Ls x a] less.prems(1) c by (simp add: frame_ok_def frame_holds_def)
    have len: "(unat (n - of_nat c * PAGE_SIZE) div 4096 + 19) div 20 < length (y # ys)"
      using P' less.prems(2) xs step by simp
    obtain s' xs' Ls' where s': "frame_chunk_loop alloc nf (a + of_nat c * PAGE_SIZE) (n - of_nat c * PAGE_SIZE) s1 = Some s'"
        "frame_ok avail s' R xs' Ls'" "fa_lock s' = fa_lock s1"
        "free_pages Ls' = free_pages (Ls[c - 1 := (x, a) # Ls ! (c - 1)])
           + mset (chunk_pages (a + of_nat c * PAGE_SIZE) (?P - c))"
        "length (y # ys) - (?P - c + 19) div 20 \<le> length xs'"
        "\<forall>i < 19. Suc i \<noteq> (?P - c) mod 20 \<longrightarrow> Ls' ! i = Ls[c - 1 := (x, a) # Ls ! (c - 1)] ! i"
      using less.hyps[OF lt s1(2) len, of "a + of_nat c * PAGE_SIZE"] unfolding P' by blast
    have "frame_chunk_loop alloc nf a n s = Some s'"
      using False l s1(1) s'(1) c(1) by (subst frame_chunk_loop.simps) (simp add: PAGE_SIZE_def word_le_nat_alt)
    moreover have "free_pages Ls' = free_pages Ls + mset (chunk_pages a ?P)"
      using s'(4) fp chunk_pages_append[of a c "?P - c"] c(3) by simp
    moreover have "length xs - (?P + 19) div 20 \<le> length xs'" using s'(5) step[symmetric] xs by simp
    moreover have "Ls' ! i = Ls ! i" if "i < 19" "Suc i \<noteq> ?P mod 20" for i
    proof (cases "?P < 20")
      case True
      then have "c = ?P" by (simp add: c_def)
      then show ?thesis using s'(6) that True c(1) by simp
    next
      case False
      then have "c = 20" by (simp add: c_def)
      moreover from False have "(?P - 20) mod 20 = ?P mod 20" by (metis le_mod_geq not_less)
      ultimately show ?thesis using s'(6) that by simp
    qed
    ultimately show ?thesis using s'(2,3) s1(3) by (intro exI[of _ s'] exI[of _ xs'] exI[of _ Ls']) simp
  qed
qed

lemma add_chunk:
  assumes "frame_ok avail s R xs Ls" and "(unat n div 4096 + 19) div 20 < length xs" and "4096 < unat n"
  shows "\<exists>s' xs' Ls'. frame_add_chunk alloc nf a n s = Some s' \<and> frame_ok avail s' R xs' Ls'
    \<and> free_pages Ls' = free_pages Ls + mset (chunk_pages a (unat n div 4096)) \<and> fa_lock s' = fa_lock s
    \<and> length xs - (unat n div 4096 + 19) div 20 \<le> length xs'
    \<and> (\<forall>i < 19. Suc i \<noteq> unat n div 4096 mod 20 \<longrightarrow> Ls' ! i = Ls ! i)"
proof -
  have "frame_ok avail (s\<lparr>fa_base := a\<rparr>) R xs Ls" using assms(1) by (simp add: frame_ok_def frame_holds_def)
  from chunk_loop[OF this assms(2), of nf a] assms(3) show ?thesis
    by (simp add: frame_add_chunk_def PAGE_SIZE_def word_le_nat_alt)
qed

lemma frame_ok_pop:
  assumes ok: "frame_ok avail s R xs Ls" and i: "i < 20" and L: "Ls ! i = (n, b) # ps"
    and q: "hmem (fa_heap s) (n + 4) = Some q"
  shows "frame_ok avail (s\<lparr>free_lists := (free_lists s)[i := q]\<rparr>) R xs (Ls[i := ps])"
proof -
  have len: "length (free_lists s) = 20" "length Ls = 20"
    and fn: "\<forall>j < 20. fnodes (hmem (fa_heap s)) (free_lists s ! j) (Ls ! j)"
    using ok by (auto simp: frame_ok_def frame_holds_def)
  have "fnodes (hmem (fa_heap s)) (free_lists s ! i) ((n, b) # ps)" using fn i L by metis
  then have "fnodes (hmem (fa_heap s)) q ps" using q by simp
  then have h: "\<forall>j < 20. fnodes (hmem (fa_heap s)) ((free_lists s)[i := q] ! j) (Ls[i := ps] ! j)"
    using fn len i by (auto simp: nth_list_update)
  obtain us vs where "frame_nodes Ls = us @ map fst (Ls ! i) @ vs" "frame_nodes (Ls[i := ps]) = us @ map fst ps @ vs"
    using frame_nodes_upd[of i Ls] i len by auto
  then have n: "set (frame_nodes (Ls[i := ps])) \<subseteq> set (frame_nodes Ls)"
    "distinct (frame_nodes Ls) \<Longrightarrow> distinct (frame_nodes (Ls[i := ps]))" using L by auto
  have "nodes_apart 2 (frame_nodes Ls) R xs" using ok by (simp add: frame_ok_def)
  then have "nodes_apart 2 (frame_nodes (Ls[i := ps])) R xs"
    using n unfolding nodes_apart_def by blast
  with h len ok show ?thesis by (simp add: frame_ok_def frame_holds_def)
qed

lemma alloc_loop:
  assumes ok: "frame_ok avail s R (x # y # xs) Ls" and w: "1 \<le> w" "w \<le> c" "c \<le> 21"
    and nb: "no_merge w Ls" and below: "\<And>k. w \<le> Suc k \<Longrightarrow> Suc k < c \<Longrightarrow> Ls ! k = []"
  shows "\<exists>a s'. frame_alloc_loop alloc nf (of_nat w) (int c) s = Some (a, s') \<and> fa_lock s' = 0
    \<and> (if \<forall>i. c \<le> Suc i \<longrightarrow> i < 20 \<longrightarrow> Ls ! i = [] then a = NULL \<and> s' = s\<lparr>fa_lock := 0\<rparr>
       else \<exists>xs' Ls'. frame_ok avail s' R xs' Ls' \<and> frame_took a w Ls Ls' \<and> Suc (length xs) \<le> length xs')"
  using w(2,3) below
proof (induction "21 - c" arbitrary: c)
  case 0
  then have "c = 21" by simp
  then show ?case by (subst frame_alloc_loop.simps) (auto simp: spin_unlock_def)
next
  case (Suc k)
  then have c: "c \<le> 20" "1 \<le> c" "w \<le> c" using w(1) by simp_all
  define i where "i = c - 1"
  have i: "i < 20" "c = Suc i" "nat (int c) - 1 = i" using c by (simp_all add: i_def)
  have len: "length (free_lists s) = 20" "length Ls = 20"
    and fn: "fnodes (hmem (fa_heap s)) (free_lists s ! i) (Ls ! i)"
    using ok i by (auto simp: frame_ok_def frame_holds_def)
  show ?case
  proof (cases "Ls ! i")
    case Nil
    then have "free_lists s ! i = 0" using fn by simp
    then have "frame_alloc_loop alloc nf (of_nat w) (int c) s = frame_alloc_loop alloc nf (of_nat w) (int (Suc c)) s"
      using c i len by (subst frame_alloc_loop.simps) (simp add: aget_in ac_simps)
    moreover have "(\<forall>j. c \<le> Suc j \<longrightarrow> j < 20 \<longrightarrow> Ls ! j = []) \<longleftrightarrow> (\<forall>j. Suc c \<le> Suc j \<longrightarrow> j < 20 \<longrightarrow> Ls ! j = [])"
      using Nil i by (metis Suc_leD Suc_le_mono le_antisym not_less_eq_eq)
    moreover have "k = 21 - Suc c" "w \<le> Suc c" "Suc c \<le> 21" using Suc.hyps(2) c by simp_all
    moreover have "Ls ! k = []" if "w \<le> Suc k" "Suc k < Suc c" for k
      using Nil i(2) Suc.prems(3) that by (cases "k = i") auto
    ultimately show ?thesis using Suc.hyps(1)[of "Suc c"] by simp
  next
    case (Cons p ps)
    obtain n b where p: "p = (n, b)" by (cases p)
    from fn Cons p have n: "free_lists s ! i = n" "n \<noteq> 0" "hmem (fa_heap s) n = Some b" by auto
    from fn Cons p obtain q where q: "hmem (fa_heap s) (n + 4) = Some q" "fnodes (hmem (fa_heap s)) q ps" by auto
    define s1 where "s1 = s\<lparr>free_lists := (free_lists s)[i := q]\<rparr>"
    have ok1: "frame_ok avail s1 R (x # y # xs) (Ls[i := ps])"
      using frame_ok_pop[OF ok i(1)] Cons p q by (simp add: s1_def)
    have wu: "(of_int (int c) :: u32) - of_nat w = of_nat (c - w)" using c(3) by simp
    have cw: "unat (of_nat (c - w) :: u32) = c - w" using c(1) by (intro unat_of_nat32) simp
    have ne: "\<not> (\<forall>j. c \<le> Suc j \<longrightarrow> j < 20 \<longrightarrow> Ls ! j = [])" using Cons i by auto
    let ?e = "b + of_nat w * PAGE_SIZE"
    have tk: "frame_took b w Ls L' \<longleftrightarrow> (\<exists>i n ps. i < 20 \<and> Ls ! i = (n, b) # ps \<and> (w = Suc i \<and> L' = Ls[i := ps]
      \<or> w \<le> i \<and> (\<exists>x us vs. Ls ! (i - w) = us @ vs \<and> L' = Ls[i := ps, i - w := us @ (x, ?e) # vs])))" for L'
      by (simp add: frame_took_def)
    have "\<exists>s2 xs' Ls'. (if (of_nat (c - w) :: u32) > 0 then frame_add_free_item alloc nf ?e (of_nat (c - w)) False s1
          else Some s1) = Some s2 \<and> frame_ok avail s2 R xs' Ls' \<and> fa_lock s2 = fa_lock s
          \<and> frame_took b w Ls Ls' \<and> Suc (length xs) \<le> length xs'"
    proof (cases "c = w")
      case True
      then have "frame_took b w Ls (Ls[i := ps])" unfolding tk using i Cons p by blast
      then show ?thesis using ok1 True by (intro exI[of _ s1] exI[of _ "x # y # xs"] exI[of _ "Ls[i := ps]"]) (simp add: s1_def)
    next
      case False
      define j where "j = c - w - 1"
      have j: "j < 20" "c - w = Suc j" "j < length (Ls[i := ps])" using False c len by (simp_all add: j_def)
      have pos: "(of_nat (c - w) :: u32) > 0" using cw j(2) by (simp only: word_less_nat_alt) simp
      have wi: "w \<le> i" "i - w = j" "j \<noteq> i" "Suc i - w = Suc j" using False c i w j by (simp_all add: j_def)
      have ins: "frame_took b w Ls (Ls[i := ps, j := us @ (x, ?e) # vs])" if "Ls ! j = us @ vs" for us vs
        unfolding tk using i(1) Cons p wi(1,2) that by blast
      have Lj: "Ls[i := ps] ! j = Ls ! j" using wi(3) by simp
      show ?thesis
      proof (cases "Ls[i := ps] ! j")
        case Nil
        with add_push[OF ok1 j(1), of False nf ?e] obtain s2 where
          "frame_add_free_item alloc nf ?e (of_nat (Suc j)) False s1 = Some s2"
          "frame_ok avail s2 R (y # xs) (Ls[i := ps, j := (x, ?e) # Ls[i := ps] ! j])" "fa_lock s2 = fa_lock s1" by auto
        moreover have "frame_took b w Ls (Ls[i := ps, j := (x, ?e) # Ls[i := ps] ! j])" using ins[of "[]" "Ls ! j"] Lj by simp
        ultimately show ?thesis using pos j(2)
          by (intro exI[of _ s2] exI[of _ "y # xs"] exI[of _ "Ls[i := ps, j := (x, ?e) # Ls[i := ps] ! j]"]) (simp add: s1_def)
      next
        case (Cons p' ps')
        have nb': "\<not> frame_buddy_check s1 d ?e (of_nat (Suc j) * PAGE_SIZE)" if "(m, d) \<in> set (Ls[i := ps] ! j)" for m d
        proof -
          have "(m, d) \<in> set (Ls ! (i - w))" using that Lj wi(2) by simp
          moreover have "Ls ! k = []" if "k < i" "w \<le> Suc k" for k using Suc.prems(3) i(2) that by simp
          ultimately show ?thesis
            using no_merge_buddy[OF nb i(1) wi(1), of n b ps m d s] \<open>Ls ! i = p # ps\<close> p by (simp add: buddy_iff wi(4))
        qed
        have "Ls[i := ps] ! j \<noteq> []" using Cons by simp
        then have "\<exists>s2. frame_add_free_item alloc nf ?e (of_nat (Suc j)) False s1 = Some s2
          \<and> frame_ok avail s2 R (y # xs) (Ls[i := ps, j := Ls[i := ps] ! j @ [(x, ?e)]]) \<and> fa_lock s2 = fa_lock s1"
          by (rule add_append[OF ok1 j(1)]) (erule nb')
        then obtain s2 where
          "frame_add_free_item alloc nf ?e (of_nat (Suc j)) False s1 = Some s2"
          "frame_ok avail s2 R (y # xs) (Ls[i := ps, j := Ls[i := ps] ! j @ [(x, ?e)]])" "fa_lock s2 = fa_lock s1" by blast
        moreover have "frame_took b w Ls (Ls[i := ps, j := Ls[i := ps] ! j @ [(x, ?e)]])" using ins[of "Ls ! j" "[]"] Lj by simp
        ultimately show ?thesis using pos j(2)
          by (intro exI[of _ s2] exI[of _ "y # xs"] exI[of _ "Ls[i := ps, j := Ls[i := ps] ! j @ [(x, ?e)]]"]) (simp add: s1_def)
      qed
    qed
    then obtain s2 xs' Ls' where s2: "(if (of_nat (c - w) :: u32) > 0 then frame_add_free_item alloc nf ?e (of_nat (c - w)) False s1
          else Some s1) = Some s2" "frame_ok avail s2 R xs' Ls'"
          "frame_took b w Ls Ls'" "Suc (length xs) \<le> length xs'" by blast
    have "frame_alloc_loop alloc nf (of_nat w) (int c) s = Some (b, s2\<lparr>fa_lock := 0\<rparr>)"
      using c i(1,3) n q(1) len s2(1) wu
      by (subst frame_alloc_loop.simps)
        (simp add: aget_in aset_in fn_address_def fn_next_def hget_def Let_def s1_def spin_unlock_def
          del: of_nat_diff split: if_splits)
    moreover have "frame_ok avail (s2\<lparr>fa_lock := 0\<rparr>) R xs' Ls'" using s2(2) by (simp add: frame_ok_def frame_holds_def)
    ultimately show ?thesis using ne s2(3,4) by auto
  qed
qed

end

subsection \<open>What taking pages leaves free\<close>

lemma frame_took_pages:
  assumes "frame_took a w Ls Ls'" and "length Ls = 20" and "1 \<le> w"
  shows "free_pages Ls = free_pages Ls' + mset (chunk_pages a w)"
proof -
  obtain i n ps where i: "i < 20" "Ls ! i = (n, a) # ps" and c: "w = Suc i \<and> Ls' = Ls[i := ps]
      \<or> w \<le> i \<and> (\<exists>x us vs. Ls ! (i - w) = us @ vs \<and> Ls' = Ls[i := ps, i - w := us @ (x, a + of_nat w * PAGE_SIZE) # vs])"
    using assms(1) unfolding frame_took_def by blast
  have p: "free_pages Ls = free_pages (Ls[i := ps]) + mset (chunk_pages a (Suc i))"
    using free_pages_pop[of i Ls n a ps] i assms(2) by simp
  from c show ?thesis
  proof (elim disjE conjE exE)
    assume "w = Suc i" "Ls' = Ls[i := ps]"
    then show ?thesis using p by simp
  next
    fix x us vs
    assume wi: "w \<le> i" and u: "Ls ! (i - w) = us @ vs" and L: "Ls' = Ls[i := ps, i - w := us @ (x, a + of_nat w * PAGE_SIZE) # vs]"
    have "Ls[i := ps] ! (i - w) = us @ vs" using u wi assms(3) i(1) by simp
    then have "free_pages Ls' = free_pages (Ls[i := ps]) + mset (chunk_pages (a + of_nat w * PAGE_SIZE) (Suc (i - w)))"
      using free_pages_upd[of "i - w" "Ls[i := ps]" "us @ (x, a + of_nat w * PAGE_SIZE) # vs"] L i(1) assms(2)
      by (simp add: list_pages_def ac_simps)
    moreover have "Suc i = w + Suc (i - w)" using wi by simp
    then have "chunk_pages a (Suc i) = chunk_pages a w @ chunk_pages (a + of_nat w * PAGE_SIZE) (Suc (i - w))"
      by (metis chunk_pages_append)
    ultimately show ?thesis using p by simp
  qed
qed

subsection \<open>Nodes from the early allocator and from the cache\<close>

interpretation frame_early: frame_pool "kmalloc memmap cpu large 8" "early_nodes 2" for memmap cpu large
  by (rule frame_pool.intro) (rule early2.node_pool_axioms)

interpretation frame_cache: frame_pool "lift_slub (mem_cache_alloc memmap cpu ''cache_pfa_node'')"
    "slub_nodes cpu ''cache_pfa_node'' 2" for memmap cpu
  by (rule frame_pool.intro) (rule cache2.node_pool_axioms)

lemma frame_node_alloc_early: "frame_node_alloc memmap cpu large False = kmalloc memmap cpu large 8"
  by (rule ext) (simp add: frame_node_alloc_def)

lemma frame_node_alloc_cache:
  "frame_node_alloc memmap cpu large True = lift_slub (mem_cache_alloc memmap cpu ''cache_pfa_node'')"
  by (rule ext) (simp add: frame_node_alloc_def)

subsection \<open>The properties\<close>

text \<open>C8: Adding a region of more than one page at boot, with nodes from the early allocator, makes
  exactly its whole pages free, each once, in addition to the pages that were free before; the free
  lists stay well-formed.\<close>
theorem frame_add_chunk_covers:
  assumes "frame_ok (early_nodes 2) s {} xs Ls" and "(unat n div 4096 + 19) div 20 < length xs" and "4096 < unat n"
  shows "\<exists>s' xs' Ls'. frame_add_chunk (frame_node_alloc memmap cpu large False) nf a n s = Some s'
    \<and> frame_ok (early_nodes 2) s' {} xs' Ls'
    \<and> free_pages Ls' = free_pages Ls + mset (map (\<lambda>i. a + of_nat i * PAGE_SIZE) [0..<unat n div 4096])"
  using frame_early.add_chunk[OF assms, of memmap cpu large nf a]
  unfolding frame_node_alloc_early chunk_pages_def by blast

text \<open>After a region is added to empty lists, a request of \<open>w\<close> pages merges nothing, unless \<open>w\<close> and what is left
  of the region over its chunks of 20 pages are 20 pages together.\<close>
lemma frame_add_chunk_no_merge:
  assumes "frame_ok (early_nodes 2) s {} xs (replicate 20 [])" and "(unat n div 4096 + 19) div 20 < length xs" and "4096 < unat n"
    and "1 \<le> w" and "w + unat n div 4096 mod 20 \<noteq> 20"
  shows "\<exists>s' xs' Ls'. frame_add_chunk (frame_node_alloc memmap cpu large False) nf a n s = Some s'
    \<and> frame_ok (early_nodes 2) s' {} xs' Ls' \<and> no_merge w Ls'
    \<and> free_pages Ls' = mset (map (\<lambda>i. a + of_nat i * PAGE_SIZE) [0..<unat n div 4096])"
proof -
  obtain s' xs' Ls' where r: "frame_add_chunk (kmalloc memmap cpu large 8) nf a n s = Some s'" "frame_ok (early_nodes 2) s' {} xs' Ls'"
      "free_pages Ls' = free_pages (replicate 20 []) + mset (chunk_pages a (unat n div 4096))"
      "\<forall>i < 19. Suc i \<noteq> unat n div 4096 mod 20 \<longrightarrow> Ls' ! i = replicate 20 [] ! i"
    using frame_early.add_chunk[OF assms(1-3), of memmap cpu large nf a] by blast
  have "no_merge w Ls'" using r(4) by (intro no_merge_rest[OF _ assms(4,5)]) simp
  moreover have "free_pages (replicate 20 []) = {#}" by (simp add: free_pages_def numeral_eq_Suc)
  ultimately show ?thesis using r(1-3) unfolding frame_node_alloc_early chunk_pages_def by auto
qed

definition boot_frame :: frame where
  "boot_frame = \<lparr>fa_lock = 0, fa_base = 0, free_lists = replicate 20 0, cache_init = False,
     fa_heap = \<lparr>early = \<lparr>early_memory_base = 0xC0110000, early_memory_end = 0xC0111000\<rparr>,
       slub = \<lparr>caches = [], smem = \<lambda>p. Some 0\<rparr>, kernel_mem_end = 0, kern_mem_early = True\<rparr>\<rparr>"

lemma boot_frame_ok: "frame_ok (early_nodes 2) boot_frame {} [0xC0110000, 0xC0110008, 0xC0110010] (replicate 20 [])"
  by (auto simp: frame_ok_def frame_holds_def nodes_apart_def frame_nodes_def early_nodes_def boot_frame_def
      early_avail_def early_inv_def early_room_def early_kmalloc_active_def less_Suc_eq numeral_3_eq_3)

theorem frame_add_chunk_covers_witness:
  "\<exists>s' xs' Ls'. frame_add_chunk (frame_node_alloc (\<lambda>fl s. None) 0 (\<lambda>n k. None) False) (\<lambda>p h. None) 0x100000 0x1A000 boot_frame = Some s'
    \<and> frame_ok (early_nodes 2) s' {} xs' Ls'
    \<and> free_pages Ls' = free_pages (replicate 20 []) + mset (map (\<lambda>i. 0x100000 + of_nat i * PAGE_SIZE) [0..<unat (0x1A000 :: u32) div 4096])"
  by (rule frame_add_chunk_covers[OF boot_frame_ok]) simp_all

lemma if_weaken: "(if P then A \<and> B else C) \<Longrightarrow> (if P then A else C)"
  by auto

lemma frame_alloc_loop_start:
  assumes "1 \<le> w" and "w \<le> 20" and "fa_lock s = 0"
  shows "frame_alloc na nf (of_nat w) s = frame_alloc_loop na nf (of_nat w) (int w) (s\<lparr>fa_lock := 1\<rparr>)"
proof -
  have u: "unat (of_nat w :: u32) = w" using assms(2) by (intro unat_of_nat32) simp
  then have "sint (of_nat w :: u32) = int w" using assms(2) by (simp add: sint_small)
  moreover have "\<not> (of_nat w :: u32) < 1" using u assms(1) by (simp add: word_less_nat_alt)
  ultimately show ?thesis using assms(3) by (simp add: frame_alloc_def spin_lock_def)
qed

lemma frame_alloc_took:
  assumes "frame_ok (slub_nodes cpu ''cache_pfa_node'' 2) s R (x # y # xs) Ls" and "fa_lock s = 0"
    and "1 \<le> w" and "w \<le> 20" and "no_merge w Ls"
  shows "\<exists>a s'. frame_alloc (frame_node_alloc memmap cpu large True) nf (of_nat w) s = Some (a, s') \<and> fa_lock s' = 0
    \<and> (if \<forall>i < 20. w \<le> Suc i \<longrightarrow> Ls ! i = [] then a = NULL
       else \<exists>xs' Ls'. frame_ok (slub_nodes cpu ''cache_pfa_node'' 2) s' R xs' Ls'
         \<and> frame_took a w Ls Ls' \<and> Suc (length xs) \<le> length xs')"
proof -
  let ?s = "s\<lparr>fa_lock := 1\<rparr>"
  have ok: "frame_ok (slub_nodes cpu ''cache_pfa_node'' 2) ?s R (x # y # xs) Ls"
    using assms(1) by (auto simp: frame_ok_def frame_holds_def)
  have iff: "(\<forall>i. w \<le> Suc i \<longrightarrow> i < 20 \<longrightarrow> Ls ! i = []) \<longleftrightarrow> (\<forall>i < 20. w \<le> Suc i \<longrightarrow> Ls ! i = [])" by blast
  have w21: "w \<le> 21" using assms(4) by simp
  have "\<exists>a s'. frame_alloc_loop (lift_slub (mem_cache_alloc memmap cpu ''cache_pfa_node'')) nf (of_nat w) (int w) ?s = Some (a, s')
    \<and> fa_lock s' = 0 \<and> (if \<forall>i. w \<le> Suc i \<longrightarrow> i < 20 \<longrightarrow> Ls ! i = [] then a = NULL \<and> s' = ?s\<lparr>fa_lock := 0\<rparr>
       else \<exists>xs' Ls'. frame_ok (slub_nodes cpu ''cache_pfa_node'' 2) s' R xs' Ls'
         \<and> frame_took a w Ls Ls' \<and> Suc (length xs) \<le> length xs')"
    by (rule frame_cache.alloc_loop[OF ok assms(3) order_refl w21 assms(5)]) simp
  then show ?thesis unfolding iff frame_alloc_loop_start[OF assms(3,4,2)] frame_node_alloc_cache
    by (blast intro: if_weaken)
qed

text \<open>C5: \<open>frame_alloc\<close> of 1 to 20 pages, with nodes from the cache, of which at least two are free, gives back
  the lock and either reports NULL because no chunk of that size or larger is listed, or returns pages that were
  free and takes exactly those off the free lists: the rest of the chunk it was cut from stays free. The request
  must merge nothing (\<open>no_merge\<close>): a single page never does (\<open>no_merge_1\<close>), and after \<open>frame_add_chunk\<close> of a
  region to empty lists only a request that leaves exactly the region's last chunk's size does
  (\<open>frame_add_chunk_no_merge\<close>). A merge goes wrong, see \<open>frame_merge_reads_freed_node\<close>.\<close>
theorem frame_alloc_takes:
  assumes "frame_ok (slub_nodes cpu ''cache_pfa_node'' 2) s R (x # y # xs) Ls" and "fa_lock s = 0"
    and "1 \<le> w" and "w \<le> 20" and "no_merge w Ls"
  shows "\<exists>a s'. frame_alloc (frame_node_alloc memmap cpu large True) nf (of_nat w) s = Some (a, s') \<and> fa_lock s' = 0
    \<and> (if \<forall>i < 20. w \<le> Suc i \<longrightarrow> Ls ! i = [] then a = NULL
       else \<exists>xs' Ls'. frame_ok (slub_nodes cpu ''cache_pfa_node'' 2) s' R xs' Ls'
         \<and> free_pages Ls = free_pages Ls' + mset (map (\<lambda>i. a + of_nat i * PAGE_SIZE) [0..<w]))"
proof -
  have len: "length Ls = 20" using assms(1) by (simp add: frame_ok_def frame_holds_def)
  obtain a s' where r: "frame_alloc (frame_node_alloc memmap cpu large True) nf (of_nat w) s = Some (a, s')" "fa_lock s' = 0"
      "if \<forall>i < 20. w \<le> Suc i \<longrightarrow> Ls ! i = [] then a = NULL
       else \<exists>xs' Ls'. frame_ok (slub_nodes cpu ''cache_pfa_node'' 2) s' R xs' Ls' \<and> frame_took a w Ls Ls'
         \<and> Suc (length xs) \<le> length xs'"
    using frame_alloc_took[OF assms] by blast
  have "if \<forall>i < 20. w \<le> Suc i \<longrightarrow> Ls ! i = [] then a = NULL
     else \<exists>xs' Ls'. frame_ok (slub_nodes cpu ''cache_pfa_node'' 2) s' R xs' Ls'
       \<and> free_pages Ls = free_pages Ls' + mset (map (\<lambda>i. a + of_nat i * PAGE_SIZE) [0..<w])"
  proof (cases "\<forall>i < 20. w \<le> Suc i \<longrightarrow> Ls ! i = []")
    case False
    then obtain xs' Ls' where t: "frame_ok (slub_nodes cpu ''cache_pfa_node'' 2) s' R xs' Ls'" "frame_took a w Ls Ls'"
      using r(3)[unfolded if_not_P[OF False]] by blast
    from False t(1) frame_took_pages[OF t(2) len assms(3)] show ?thesis
      unfolding chunk_pages_def by (simp only: if_False) blast
  qed (use r(3) in simp)
  then show ?thesis using r(1,2) by blast
qed

text \<open>A cache slab at 0x2000 with three free nodes, and the two chunks \<open>frame_add_chunk\<close> cuts 22 pages at
  0x100000 into: 20 pages, whose node is at 0x8008, and right above them two pages, whose node is at 0x8000.\<close>
definition cache_frame :: frame where
  "cache_frame = \<lparr>fa_lock = 0, fa_base = 0x100000, free_lists = (replicate 20 0)[1 := 0x8000, 19 := 0x8008], cache_init = True,
     fa_heap = \<lparr>early = \<lparr>early_memory_base = 0, early_memory_end = 0\<rparr>,
       slub = \<lparr>caches = [\<lparr>mc_name = ''cache_pfa_node'', object_size = 8, mc_min = 1,
           cpu_caches = [\<lparr>full = NULL, semi = 0x2000, empty = NULL\<rparr>], construct = None\<rparr>],
         smem = [0x2000 \<mapsto> 1022, 0x2004 \<mapsto> 0x2008, 0x2008 \<mapsto> 0x2010, 0x200C \<mapsto> 0, 0x2010 \<mapsto> 0x2018, 0x2014 \<mapsto> 0,
           0x2018 \<mapsto> 0, 0x201C \<mapsto> 0, 0x8000 \<mapsto> 0x114000, 0x8004 \<mapsto> 0, 0x8008 \<mapsto> 0x100000, 0x800C \<mapsto> 0]\<rparr>,
       kernel_mem_end = 0, kern_mem_early = False\<rparr>\<rparr>"

definition cache_chunks :: "(u32 \<times> u32) list list" where
  "cache_chunks = (replicate 20 [])[1 := [(0x8000, 0x114000)], 19 := [(0x8008, 0x100000)]]"

lemma node_cells_2: "node_cells 2 x = {x, x + 4}"
  by (auto simp: node_cells_def numeral_2_eq_2 lessThan_Suc)

lemma cache_chunks_nodes: "frame_nodes cache_chunks = [0x8000, 0x8008]"
  by (simp add: cache_chunks_def frame_nodes_def numeral_eq_Suc)

lemma cache_frame_ok:
  "frame_ok (slub_nodes 0 ''cache_pfa_node'' 2) cache_frame {0x2000, 0x2004, 0x2018} [0x2008, 0x2010] cache_chunks"
proof -
  have "slab_ready 0 ''cache_pfa_node'' (fa_heap cache_frame) [0x2008, 0x2010] 0
      \<lparr>full = NULL, semi = 0x2000, empty = NULL\<rparr> [0x2018] 1022"
    by (simp add: slab_ready_def cache_frame_def get_cpu_def aget_def SLAB_NEXT_def slab_free_def nxt_of_def)
  then have "slub_nodes 0 ''cache_pfa_node'' 2 (fa_heap cache_frame) {0x2000, 0x2004, 0x2018} [0x2008, 0x2010]"
    unfolding slub_nodes_def
    by (intro conjI exI[of _ "0 :: nat"] exI[of _ "\<lparr>full = NULL, semi = 0x2000, empty = NULL\<rparr>"] exI[of _ "[0x2018]"]
        exI[of _ 1022]) (auto simp: node_cells_2 cache_frame_def)
  moreover have "frame_holds cache_frame cache_chunks"
    by (auto simp: frame_holds_def cache_frame_def cache_chunks_def nth_list_update)
  ultimately show ?thesis
    by (simp add: frame_ok_def nodes_apart_def node_cells_2 cache_chunks_nodes)
qed

lemma chunk_pages_not_null:
  assumes "a \<noteq> NULL" and "c \<le> 20" and "unat a + c * 4096 \<le> 4294967296"
  shows "NULL \<notin> set (chunk_pages a c)"
proof
  assume "NULL \<in> set (chunk_pages a c)"
  then obtain k where k: "k < c" "a + of_nat k * PAGE_SIZE = 0" by (auto simp: chunk_pages_def)
  have "unat (of_nat k * PAGE_SIZE) = k * 4096" using k(1) assms(2) by (intro unat_pages) simp
  then have "unat (a + of_nat k * PAGE_SIZE) = unat a + k * 4096"
    using k(1) assms(3) by (subst unat_plus_nowrap) simp_all
  with k(2) assms(1) show False by (simp add: unat_eq_zero)
qed

lemma cache_chunks_pages: "free_pages cache_chunks = mset (chunk_pages 0x114000 2) + mset (chunk_pages 0x100000 20)"
proof -
  have "free_pages (replicate 20 []) = {#}" by (simp add: free_pages_def numeral_eq_Suc)
  then show ?thesis
    using free_pages_push[of 1 "replicate 20 []" "0x8000" "0x114000"]
      free_pages_push[of 19 "(replicate 20 [])[1 := [(0x8000, 0x114000)]]" "0x8008" "0x100000"]
    by (simp add: cache_chunks_def numeral_2_eq_2)
qed

lemma cache_chunks_no_merge: "1 \<le> w \<Longrightarrow> w \<noteq> 18 \<Longrightarrow> no_merge w cache_chunks"
  by (rule no_merge_rest[where r = 2]) (auto simp: cache_chunks_def nth_list_update)

theorem frame_alloc_takes_witness:
  "\<exists>a s'. frame_alloc (frame_node_alloc (\<lambda>fl s. None) 0 (\<lambda>n k. None) True) (\<lambda>p h. None) (of_nat 7) cache_frame = Some (a, s') \<and> fa_lock s' = 0
    \<and> (if \<forall>i < 20. 7 \<le> Suc i \<longrightarrow> cache_chunks ! i = [] then a = NULL
       else \<exists>xs' Ls'. frame_ok (slub_nodes 0 ''cache_pfa_node'' 2) s' {0x2000, 0x2004, 0x2018} xs' Ls'
         \<and> free_pages cache_chunks = free_pages Ls' + mset (map (\<lambda>i. a + of_nat i * PAGE_SIZE) [0..<7]))"
  by (rule frame_alloc_takes[OF cache_frame_ok _ _ _ cache_chunks_no_merge]) (simp_all add: cache_frame_def)

text \<open>Merging reads the freed node: when the page right above the only free page is returned, the
  buddy's node is freed first and its address is read afterwards. If the cache's free list link, which
  is then stored there, is not below that address, the merged chunk of two pages starts at the returned
  page: the page below is lost, and the page above, which nobody freed, is listed as free.\<close>
lemma frame_merge_reads_freed_node:
  assumes "fa_lock s = 0" and "free_lists s = b # 0 # ls" and "fn_address (fa_heap s) b = Some a" and "fn_next (fa_heap s) b = Some 0"
    and "b \<noteq> 0" and "a < a + PAGE_SIZE"
    and "nf b (fa_heap s) = Some h" and "fn_address h b = Some w" and "a + PAGE_SIZE \<le> w"
    and "frame_new_node na (a + PAGE_SIZE) 0 h = Some (x, h')"
  shows "frame_dealloc na nf (a + PAGE_SIZE) 1 s = Some (s\<lparr>free_lists := 0 # x # ls, fa_heap := h'\<rparr>)
    \<and> fn_address h' x = Some (a + PAGE_SIZE) \<and> fn_next h' x = Some 0"
proof -
  let ?s = "s\<lparr>fa_lock := 1\<rparr>"
  have sc: "frame_scan ?s (a + PAGE_SIZE) 1 0 b = Some (Buddy 0 b)"
    using assms(3) less_imp_le[OF assms(6)] by (subst frame_scan.simps) (simp add: buddy_iff min_def max_def)
  have mw: "min w (a + PAGE_SIZE) = a + PAGE_SIZE" using assms(9) by (simp add: min_def)
  let ?t = "?s\<lparr>free_lists := 0 # 0 # ls, fa_heap := h\<rparr>"
  have "frame_add_free_item na nf (a + PAGE_SIZE) 2 False ?t = Some (?t\<lparr>fa_heap := h', free_lists := 0 # x # ls\<rparr>)"
    using assms(10) by (subst frame_add_free_item.simps) (simp add: aget_def aset_def)
  moreover have "frame_add_free_item na nf (a + PAGE_SIZE) 1 False ?s = frame_add_free_item na nf (a + PAGE_SIZE) 2 False ?t"
    using assms(2,4,5,7,8) sc mw by (subst frame_add_free_item.simps) (simp add: aget_def aset_def)
  ultimately have "frame_dealloc na nf (a + PAGE_SIZE) 1 s = Some (s\<lparr>free_lists := 0 # x # ls, fa_heap := h'\<rparr>)"
    using assms(1) by (simp add: frame_dealloc_def spin_lock_def spin_unlock_def)
  moreover have "fn_address h' x = Some (a + PAGE_SIZE) \<and> fn_next h' x = Some 0"
    using assms(10) by (auto simp: frame_new_node_def hput_def hget_def fn_address_def fn_next_def wr_Some_iff hset_def
        split: bind_splits)
  ultimately show ?thesis by simp
qed

text \<open>The only free page is 0x100000; its node is the first object of the cache's slab at 0xD0002000,
  whose next two objects are free.\<close>
definition merge_frame :: frame where
  "merge_frame = \<lparr>fa_lock = 0, fa_base = 0x100000, free_lists = 0xD0002008 # 0 # replicate 18 0, cache_init = True,
     fa_heap = \<lparr>early = \<lparr>early_memory_base = 0, early_memory_end = 0\<rparr>,
       slub = \<lparr>caches = [\<lparr>mc_name = ''cache_pfa_node'', object_size = 8, mc_min = 1,
           cpu_caches = [\<lparr>full = NULL, semi = 0xD0002000, empty = NULL\<rparr>], construct = None\<rparr>],
         smem = [0xD0002000 \<mapsto> 1022, 0xD0002004 \<mapsto> 0xD0002010, 0xD0002008 \<mapsto> 0x100000, 0xD000200C \<mapsto> 0,
           0xD0002010 \<mapsto> 0xD0002018, 0xD0002014 \<mapsto> 0, 0xD0002018 \<mapsto> 0, 0xD000201C \<mapsto> 0]\<rparr>,
       kernel_mem_end = 0, kern_mem_early = False\<rparr>\<rparr>"

abbreviation (input) "merge_freed \<equiv> hset (fa_heap merge_frame)
  ((hmem (fa_heap merge_frame))(0xD0002004 \<mapsto> 0xD0002008, 0xD0002008 \<mapsto> 0xD0002010))"

lemma merge_free: "frame_node_free (\<lambda>p k. None) True 0xD0002008 (fa_heap merge_frame) = Some merge_freed"
  by (simp add: frame_node_free_def mem_cache_dealloc_def mem_cache_find_slab_def SLAB_FROM_OBJ_def SLAB_SIZE_def
      merge_frame_def hset_def free_head_of_def Let_def dealloc_loop.simps wr_def)

lemma merge_new: "\<exists>h'. frame_new_node (frame_node_alloc (\<lambda>fl s. None) 0 (\<lambda>n k. None) True) (0x100000 + PAGE_SIZE) 0 merge_freed
    = Some (0xD0002008, h')"
proof -
  have "slab_ready 0 ''cache_pfa_node'' merge_freed (0xD0002008 # 0xD0002010 # []) 0
      \<lparr>full = NULL, semi = 0xD0002000, empty = NULL\<rparr> [0xD0002018] 1022"
    by (simp add: slab_ready_def merge_frame_def hset_def get_cpu_def aget_def SLAB_NEXT_def slab_free_def nxt_of_def)
  from slab_ready_next[OF this, of "\<lambda>fl s. None"] show ?thesis
    by (simp add: frame_new_node_def frame_node_alloc_def hput_ok merge_frame_def hset_def)
qed

lemma frame_merge_reads_freed_node_witness:
  "\<exists>x h'. frame_dealloc (frame_node_alloc (\<lambda>fl s. None) 0 (\<lambda>n k. None) True) (frame_node_free (\<lambda>p k. None) True)
       (0x100000 + PAGE_SIZE) 1 merge_frame = Some (merge_frame\<lparr>free_lists := 0 # x # replicate 18 0, fa_heap := h'\<rparr>)
     \<and> fn_address h' x = Some (0x100000 + PAGE_SIZE) \<and> fn_next h' x = Some 0"
proof -
  obtain h' where h': "frame_new_node (frame_node_alloc (\<lambda>fl s. None) 0 (\<lambda>n k. None) True) (0x100000 + PAGE_SIZE) 0 merge_freed
    = Some (0xD0002008, h')" using merge_new by blast
  show ?thesis
    by (intro exI, rule frame_merge_reads_freed_node[where s = merge_frame and w = "0xD0002010" and b = "0xD0002008"
        and nf = "frame_node_free (\<lambda>p k. None) True" and h = merge_freed and h' = h'
        and na = "frame_node_alloc (\<lambda>fl s. None) 0 (\<lambda>n k. None) True", OF _ _ _ _ _ _ merge_free _ _ h'])
      (simp_all add: merge_frame_def fn_address_def fn_next_def hget_def PAGE_SIZE_def hset_def)
qed

text \<open>The guard of \<open>frame_alloc\<close> never holds: a request of no pages looks in front of the array of free
  lists, and one of more than 20 finds nothing.\<close>
lemma frame_alloc_zero: "frame_alloc na nf 0 s = None"
  by (simp add: frame_alloc_def spin_lock_def frame_alloc_loop.simps)

text \<open>A call while the lock is held, as from \<open>memmap\<close> of a cache that refills itself, never returns.\<close>
lemma frame_alloc_locked: "fa_lock s \<noteq> 0 \<Longrightarrow> frame_alloc na nf w s = None"
  by (auto simp: frame_alloc_def spin_lock_def word_less_nat_alt word_le_nat_alt)

end
