(* ===== verification/Vasa.thy ===== *)
theory Vasa
  imports NodeHeap Spinlock
begin

text \<open>
  \<open>src/src/kernel/mem/vasa.c\<close>: the allocator of virtual address space. Free and used chunks are kept in
  two lists of nodes; a \<open>vasa_node_t\<close> is five words in the kernel heap: \<open>next\<close>, \<open>type\<close>, \<open>base\<close>,
  \<open>length\<close>, \<open>flags\<close>. \<open>na\<close> is \<open>vasa_node_alloc\<close> and \<open>kf\<close> is \<open>kfree\<close>. The statements that print are
  left out.
\<close>

record vasa =
  free_head :: u32
  used_head :: u32
  v_lock :: u32
  v_heap :: kheap

definition vn_next :: "vasa \<Rightarrow> u32 \<Rightarrow> u32 option" where "vn_next s n = hget (v_heap s) n"
definition vn_base :: "vasa \<Rightarrow> u32 \<Rightarrow> u32 option" where "vn_base s n = hget (v_heap s) (n + 8)"
definition vn_length :: "vasa \<Rightarrow> u32 \<Rightarrow> u32 option" where "vn_length s n = hget (v_heap s) (n + 12)"
definition vn_flags :: "vasa \<Rightarrow> u32 \<Rightarrow> u32 option" where "vn_flags s n = hget (v_heap s) (n + 16)"

text \<open>\<open>*p = v\<close>\<close>
definition vset :: "u32 \<Rightarrow> u32 \<Rightarrow> vasa \<Rightarrow> vasa option" where
  "vset p v s = do { h \<leftarrow> hput p v (v_heap s); Some (s\<lparr>v_heap := h\<rparr>) }"

definition vasa_congruent :: "vasa \<Rightarrow> u32 \<Rightarrow> u32 \<Rightarrow> bool option" where
  "vasa_congruent s a b = do {
     ab \<leftarrow> vn_base s a;
     bb \<leftarrow> vn_base s b;
     if bb > ab then do { al \<leftarrow> vn_length s a; Some (ab + al = bb) }
     else do { bl \<leftarrow> vn_length s b; Some (bb + bl = ab) } }"

definition vasa_merge_node :: "(u32 \<Rightarrow> kheap \<Rightarrow> kheap option) \<Rightarrow> u32 \<Rightarrow> u32 \<Rightarrow> vasa \<Rightarrow> vasa option" where
  "vasa_merge_node kf a b s = do {
     ab \<leftarrow> vn_base s a;
     bb \<leftarrow> vn_base s b;
     s1 \<leftarrow> vset (a + 8) (min ab bb) s;
     al \<leftarrow> vn_length s1 a;
     bl \<leftarrow> vn_length s1 b;
     s2 \<leftarrow> vset (a + 12) (al + bl) s1;
     h \<leftarrow> kf b (v_heap s2);
     Some (s2\<lparr>v_heap := h\<rparr>) }"

definition vasa_node_alloc :: "(u32 \<Rightarrow> slub \<Rightarrow> (u32 \<times> slub) option) \<Rightarrow> nat \<Rightarrow> (u32 \<Rightarrow> kheap \<Rightarrow> (u32 \<times> kheap) option)
    \<Rightarrow> kheap \<Rightarrow> (u32 \<times> kheap) option" where
  "vasa_node_alloc memmap cpu large h =
     (if early_kmalloc_active (early h) then kmalloc memmap cpu large (sizeof vasa_node_layout) h
      else lift_slub (mem_cache_alloc memmap cpu ''cache_vasa'') h)"

definition set_head :: "bool \<Rightarrow> u32 \<Rightarrow> vasa \<Rightarrow> vasa" where
  "set_head used n s = (if used then s\<lparr>used_head := n\<rparr> else s\<lparr>free_head := n\<rparr>)"

text \<open>The \<open>while\<close> loop of \<open>vasa_add_node\<close> and what follows it.\<close>
partial_function (option) add_node_loop ::
  "(u32 \<Rightarrow> kheap \<Rightarrow> kheap option) \<Rightarrow> u32 \<Rightarrow> bool \<Rightarrow> u32 \<Rightarrow> u32 \<Rightarrow> vasa \<Rightarrow> vasa option" where
  "add_node_loop kf node used prev head s =
     (if head \<noteq> NULL then do {
        c \<leftarrow> vasa_congruent s node head;
        if c \<and> \<not> used then vasa_merge_node kf head node s
        else do {
          hb \<leftarrow> vn_base s head;
          nb \<leftarrow> vn_base s node;
          if hb > nb then
            (if prev \<noteq> NULL then do { s1 \<leftarrow> vset prev node s; vset node head s1 }
             else do { s1 \<leftarrow> vset node head s; Some (set_head used node s1) })
          else do { nxt \<leftarrow> vn_next s head; add_node_loop kf node used head nxt s } } }
      else if prev = NULL then Some (set_head used node s)
      else do { s1 \<leftarrow> vset prev node s; vset node NULL s1 })"

definition vasa_add_node :: "(u32 \<Rightarrow> kheap \<Rightarrow> kheap option) \<Rightarrow> u32 \<Rightarrow> bool \<Rightarrow> vasa \<Rightarrow> vasa option" where
  "vasa_add_node kf node used s =
     (if node = NULL then Some s
      else do {
        s1 \<leftarrow> (if \<not> used then vset (node + 16) 0 s else Some s);
        add_node_loop kf node used NULL (if used then used_head s1 else free_head s1) s1 })"

text \<open>\<open>na\<close> gives a node; the result and its fields \<open>base\<close>, \<open>length\<close>, \<open>flags\<close>.\<close>
definition vasa_new :: "(kheap \<Rightarrow> (u32 \<times> kheap) option) \<Rightarrow> vasa \<Rightarrow> (u32 \<times> vasa) option" where
  "vasa_new na s = do { (n, h) \<leftarrow> na (v_heap s); Some (n, s\<lparr>v_heap := h\<rparr>) }"

definition vset_chunk :: "u32 \<Rightarrow> u32 \<Rightarrow> u32 \<Rightarrow> u32 \<Rightarrow> vasa \<Rightarrow> vasa option" where
  "vset_chunk n base len flags s = do {
     s1 \<leftarrow> vset (n + 8) base s; s2 \<leftarrow> vset (n + 12) len s1; vset (n + 16) flags s2 }"

partial_function (option) mark_loop ::
  "(kheap \<Rightarrow> (u32 \<times> kheap) option) \<Rightarrow> (u32 \<Rightarrow> kheap \<Rightarrow> kheap option)
   \<Rightarrow> u32 \<Rightarrow> u32 \<Rightarrow> bool \<Rightarrow> u32 \<Rightarrow> u32 \<Rightarrow> u32 \<Rightarrow> vasa \<Rightarrow> (bool \<times> vasa) option" where
  "mark_loop na kf base len used flags prev head s =
     (if head = NULL then Some (False, s)
      else do {
        their_base \<leftarrow> vn_base s head;
        hl \<leftarrow> vn_length s head;
        let end0 = base + len;
        let their_end = their_base + hl;
        if their_base \<ge> their_end then Some (False, s)
        else if base \<ge> their_base \<and> end0 \<le> their_end then
          (if base = their_base \<and> end0 = their_end then do {
             nxt \<leftarrow> vn_next s head;
             s1 \<leftarrow> (if prev \<noteq> NULL then vset prev nxt s else Some (set_head used nxt s));
             s2 \<leftarrow> vset (head + 16) flags s1;
             s3 \<leftarrow> vasa_add_node kf head used s2;
             Some (True, s3) }
           else do {
             s1 \<leftarrow> vset (head + 12) (base - their_base) s;
             (be, s2) \<leftarrow> vasa_new na s1;
             s3 \<leftarrow> vset_chunk be base len flags s2;
             s4 \<leftarrow> vasa_add_node kf be used s3;
             (en, s5) \<leftarrow> vasa_new na s4;
             hf \<leftarrow> vn_flags s5 head;
             s6 \<leftarrow> vset_chunk en end0 (their_end - end0) hf s5;
             s7 \<leftarrow> vasa_add_node kf en (\<not> used) s6;
             Some (True, s7) })
        else do {
          nxt \<leftarrow> vn_next s head;
          mark_loop na kf base len used flags head nxt s } })"

definition vasa_mark ::
  "(kheap \<Rightarrow> (u32 \<times> kheap) option) \<Rightarrow> (u32 \<Rightarrow> kheap \<Rightarrow> kheap option)
   \<Rightarrow> u32 \<Rightarrow> u32 \<Rightarrow> bool \<Rightarrow> u32 \<Rightarrow> vasa \<Rightarrow> (bool \<times> vasa) option" where
  "vasa_mark na kf base len used flags s =
     mark_loop na kf base len used flags NULL (if used then free_head s else used_head s) s"

partial_function (option) get_flags_loop :: "vasa \<Rightarrow> u32 \<Rightarrow> u32 \<Rightarrow> u32 option" where
  "get_flags_loop s base head =
     (if head = NULL then Some 0
      else do {
        hb \<leftarrow> vn_base s head;
        if hb = base then vn_flags s head
        else do { nxt \<leftarrow> vn_next s head; get_flags_loop s base nxt } })"

definition vasa_get_flags :: "u32 \<Rightarrow> vasa \<Rightarrow> u32 option" where
  "vasa_get_flags base s = get_flags_loop s base (used_head s)"

partial_function (option) dealloc_find :: "(u32 \<Rightarrow> kheap \<Rightarrow> kheap option) \<Rightarrow> u32 \<Rightarrow> u32 \<Rightarrow> u32 \<Rightarrow> vasa \<Rightarrow> vasa option" where
  "dealloc_find kf iptr prev head s =
     (if head = NULL then Some (s\<lparr>v_lock := spin_unlock (v_lock s)\<rparr>)
      else do {
        start \<leftarrow> vn_base s head;
        hl \<leftarrow> vn_length s head;
        if iptr \<ge> start \<and> iptr \<le> start + hl then do {
          nxt \<leftarrow> vn_next s head;
          s1 \<leftarrow> (if prev \<noteq> NULL then vset prev nxt s else Some (s\<lparr>used_head := nxt\<rparr>));
          s2 \<leftarrow> vasa_add_node kf head False s1;
          Some (s2\<lparr>v_lock := spin_unlock (v_lock s2)\<rparr>) }
        else do { nxt \<leftarrow> vn_next s head; dealloc_find kf iptr head nxt s } })"

definition vasa_dealloc :: "(u32 \<Rightarrow> kheap \<Rightarrow> kheap option) \<Rightarrow> u32 \<Rightarrow> vasa \<Rightarrow> vasa option" where
  "vasa_dealloc kf ptr s = do {
     l \<leftarrow> spin_lock (v_lock s);
     dealloc_find kf ptr NULL (used_head s) (s\<lparr>v_lock := l\<rparr>) }"

text \<open>\<open>MMAP_PG_ALIGN\<close> is 32 and \<open>MMAP_2PG_ALIGN\<close> is 64.\<close>
definition has_flag :: "u32 \<Rightarrow> u32 \<Rightarrow> bool" where
  "has_flag x y \<longleftrightarrow> x AND y = y"

definition pad_of :: "u32 \<Rightarrow> u32" where
  "pad_of flags = (if has_flag flags 32 then 0x1000 else if has_flag flags 64 then 0x2000 else 0)"

definition apply_pad :: "u32 \<Rightarrow> u32 \<Rightarrow> u32" where
  "apply_pad val pad = (val + pad - 1) AND NOT (pad - 1)"

text \<open>The padding block of \<open>vasa_alloc\<close>: the aligned address and the node of the waste in front of it.
  \<open>head->base\<close> is written back unchanged.\<close>
definition alloc_pad :: "(kheap \<Rightarrow> (u32 \<times> kheap) option) \<Rightarrow> u32 \<Rightarrow> u32 \<Rightarrow> u32 \<Rightarrow> u32 \<Rightarrow> vasa \<Rightarrow> (u32 \<times> u32 \<times> vasa) option" where
  "alloc_pad na ty pad flags head s = do {
     base \<leftarrow> vn_base s head;
     if pad > 0 then do {
       let ptr = apply_pad base pad;
       let waste = ptr - base;
       if waste > 0 then do {
         (w, s1) \<leftarrow> vasa_new na s;
         s2 \<leftarrow> vset w head s1;
         s3 \<leftarrow> vset (w + 4) ty s2;
         s4 \<leftarrow> vset_chunk w base waste flags s3;
         s5 \<leftarrow> vset (head + 8) base s4;
         hl \<leftarrow> vn_length s5 head;
         s6 \<leftarrow> vset (head + 12) (hl - waste) s5;
         Some (ptr, w, s6) }
       else Some (ptr, NULL, s) }
     else Some (base, NULL, s) }"

text \<open>The rest of the body for the chunk \<open>head\<close> that was found.\<close>
definition alloc_cut :: "(kheap \<Rightarrow> (u32 \<times> kheap) option) \<Rightarrow> (u32 \<Rightarrow> kheap \<Rightarrow> kheap option)
    \<Rightarrow> u32 \<Rightarrow> u32 \<Rightarrow> u32 \<Rightarrow> u32 \<Rightarrow> u32 \<Rightarrow> u32 \<Rightarrow> u32 \<Rightarrow> vasa \<Rightarrow> vasa option" where
  "alloc_cut na kf ty n flags ptr waste_node prev head s = do {
     hl \<leftarrow> vn_length s head;
     (node, s1) \<leftarrow>
       (if hl > n then do {
          s1 \<leftarrow> vset (head + 12) (hl - n) s;
          hb \<leftarrow> vn_base s1 head;
          s2 \<leftarrow> vset (head + 8) (hb + n) s1;
          vasa_new na s2 }
        else do {
          nxt \<leftarrow> vn_next s head;
          s1 \<leftarrow> (if prev \<noteq> NULL then vset prev nxt s else Some (s\<lparr>free_head := nxt\<rparr>));
          Some (head, s1) });
     s2 \<leftarrow> vset node NULL s1;
     s3 \<leftarrow> vset (node + 4) ty s2;
     s4 \<leftarrow> vset_chunk node ptr n flags s3;
     s5 \<leftarrow> vasa_add_node kf node True s4;
     if waste_node \<noteq> NULL then vasa_add_node kf waste_node False s5 else Some s5 }"

partial_function (option) alloc_find ::
  "(kheap \<Rightarrow> (u32 \<times> kheap) option) \<Rightarrow> (u32 \<Rightarrow> kheap \<Rightarrow> kheap option)
   \<Rightarrow> u32 \<Rightarrow> u32 \<Rightarrow> u32 \<Rightarrow> u32 \<Rightarrow> u32 \<Rightarrow> vasa \<Rightarrow> (u32 \<times> vasa) option" where
  "alloc_find na kf ty n flags prev head s =
     (if head = NULL then Some (NULL, s\<lparr>v_lock := spin_unlock (v_lock s)\<rparr>)
      else do {
        hl \<leftarrow> vn_length s head;
        if hl \<ge> n + pad_of flags then do {
          (ptr, waste_node, s1) \<leftarrow> alloc_pad na ty (pad_of flags) flags head s;
          s2 \<leftarrow> alloc_cut na kf ty n flags ptr waste_node prev head s1;
          Some (ptr, s2\<lparr>v_lock := spin_unlock (v_lock s2)\<rparr>) }
        else do { nxt \<leftarrow> vn_next s head; alloc_find na kf ty n flags head nxt s } })"

definition vasa_alloc ::
  "(kheap \<Rightarrow> (u32 \<times> kheap) option) \<Rightarrow> (u32 \<Rightarrow> kheap \<Rightarrow> kheap option)
   \<Rightarrow> u32 \<Rightarrow> u32 \<Rightarrow> u32 \<Rightarrow> vasa \<Rightarrow> (u32 \<times> vasa) option" where
  "vasa_alloc na kf ty n flags s =
     (if n = 0 then Some (NULL, s)
      else do {
        l \<leftarrow> spin_lock (v_lock s);
        alloc_find na kf ty n flags NULL (free_head s) (s\<lparr>v_lock := l\<rparr>) })"

definition vasa_init :: "(kheap \<Rightarrow> (u32 \<times> kheap) option) \<Rightarrow> u32 \<Rightarrow> u32 \<Rightarrow> vasa \<Rightarrow> vasa option" where
  "vasa_init na start len s = do {
     (n, s1) \<leftarrow> vasa_new na s;
     s2 \<leftarrow> vset n NULL s1;
     s3 \<leftarrow> vset (n + 8) start s2;
     s4 \<leftarrow> vset (n + 12) len s3;
     Some (s4\<lparr>free_head := n, used_head := NULL\<rparr>) }"

definition vasa_switch :: "(u32 \<Rightarrow> slub \<Rightarrow> (u32 \<times> slub) option) \<Rightarrow> nat \<Rightarrow> vasa \<Rightarrow> vasa option" where
  "vasa_switch memmap cpu s = do {
     (c, sl) \<leftarrow> mem_cache_new memmap cpu ''cache_vasa'' 20 1 None (slub (v_heap s));
     Some (s\<lparr>v_heap := (v_heap s)\<lparr>slub := sl\<rparr>\<rparr>) }"

subsection \<open>Chunks in memory\<close>

abbreviation vmem :: "vasa \<Rightarrow> cells" where "vmem s \<equiv> hmem (v_heap s)"

text \<open>A stretch of a list: the nodes with their base and length, from \<open>p\<close> up to the link \<open>q\<close>.\<close>
fun vseg :: "cells \<Rightarrow> u32 \<Rightarrow> (u32 \<times> u32 \<times> u32) list \<Rightarrow> u32 \<Rightarrow> bool" where
  "vseg m p [] q \<longleftrightarrow> p = q"
| "vseg m p ((n, b, l) # xs) q \<longleftrightarrow> p = n \<and> n \<noteq> 0 \<and> m (n + 8) = Some b \<and> m (n + 12) = Some l
     \<and> m (n + 16) \<noteq> None \<and> (\<exists>r. m n = Some r \<and> vseg m r xs q)"

text \<open>All nodes lie apart.\<close>
definition apart5 :: "u32 list \<Rightarrow> bool" where
  "apart5 ns \<longleftrightarrow> distinct ns \<and> (\<forall>a\<in>set ns. \<forall>b\<in>set ns. a \<noteq> b \<longrightarrow> node_cells 5 a \<inter> node_cells 5 b = {})"

lemma apart5_head: "apart5 (a # ns) \<Longrightarrow> a \<notin> set ns" "apart5 ns \<Longrightarrow> distinct ns"
  by (simp_all add: apart5_def)

lemma node_cells_5: "node_cells 5 x = {x, x + 4, x + 8, x + 12, x + 16}"
  by (auto simp: node_cells_def eval_nat_numeral lessThan_Suc)

lemma vseg_append: "vseg m p (xs @ ys) q \<longleftrightarrow> (\<exists>r. vseg m p xs r \<and> vseg m r ys q)"
  by (induction m p xs q rule: vseg.induct) auto

lemma vseg_cong:
  "vseg m p xs q \<Longrightarrow> (\<And>n c. n \<in> fst ` set xs \<Longrightarrow> c \<in> node_cells 5 n \<Longrightarrow> m' c = m c) \<Longrightarrow> vseg m' p xs q"
proof (induction xs arbitrary: p)
  case Nil
  then show ?case by simp
next
  case (Cons x xs)
  obtain n b l where x: "x = (n, b, l)" by (cases x) auto
  have "\<forall>c\<in>node_cells 5 n. m' c = m c" using Cons.prems(2)[of n] x by simp
  then have e: "m' n = m n" "m' (n + 8) = m (n + 8)" "m' (n + 12) = m (n + 12)" "m' (n + 16) = m (n + 16)"
    by (simp_all add: node_cells_5)
  moreover have "vseg m' r xs q" if "vseg m r xs q" for r
    by (rule Cons.IH[OF that]) (use Cons.prems(2) in auto)
  ultimately show ?case using Cons.prems(1) x by auto
qed

lemma apart5_disjoint: "apart5 ns \<Longrightarrow> a \<in> set ns \<Longrightarrow> b \<in> set ns \<Longrightarrow> a \<noteq> b \<Longrightarrow> c \<in> node_cells 5 a \<Longrightarrow> c \<notin> node_cells 5 b"
  unfolding apart5_def by blast

text \<open>Writing the cells of a node outside a stretch keeps the stretch.\<close>
lemma vseg_other:
  assumes "vseg m p xs q" and "apart5 ns" and "a \<in> set ns" and "fst ` set xs \<subseteq> set ns - {a}"
    and "\<And>c. c \<notin> node_cells 5 a \<Longrightarrow> m' c = m c"
  shows "vseg m' p xs q"
proof (rule vseg_cong[OF assms(1)])
  fix n c assume "n \<in> fst ` set xs" "c \<in> node_cells 5 n"
  then have "c \<notin> node_cells 5 a" using apart5_disjoint[OF assms(2), of n a c] assms(3,4) by auto
  then show "m' c = m c" by (rule assms(5))
qed

lemma vseg_redirect:
  assumes "vseg m p (xs @ [(n, b, l)]) q" and "apart5 ns" and "fst ` set (xs @ [(n, b, l)]) \<subseteq> set ns" and "n \<notin> fst ` set xs"
  shows "vseg (m(n \<mapsto> r)) p (xs @ [(n, b, l)]) r"
proof -
  obtain o' where o: "vseg m p xs o'" "vseg m o' [(n, b, l)] q" using assms(1) by (auto simp: vseg_append)
  have "vseg (m(n \<mapsto> r)) p xs o'"
    by (rule vseg_other[OF o(1) assms(2), of n]) (use assms(3,4) in \<open>auto simp: node_cells_5\<close>)
  with o(2) show ?thesis by (auto simp: vseg_append)
qed

fun insert_chunk :: "'n \<times> u32 \<times> u32 \<Rightarrow> ('n \<times> u32 \<times> u32) list \<Rightarrow> ('n \<times> u32 \<times> u32) list" where
  "insert_chunk c [] = [c]"
| "insert_chunk c (d # ds) = (if fst (snd d) > fst (snd c) then c # d # ds else d # insert_chunk c ds)"

lemma set_insert_chunk [simp]: "set (insert_chunk c ds) = insert c (set ds)"
  by (induction ds) auto

definition vs_upd :: "u32 \<Rightarrow> u32 \<Rightarrow> vasa \<Rightarrow> vasa" where
  "vs_upd p v s = s\<lparr>v_heap := hset (v_heap s) ((vmem s)(p \<mapsto> v))\<rparr>"

lemma vs_upd_simps [simp]:
  "vmem (vs_upd p v s) = (vmem s)(p \<mapsto> v)" "free_head (vs_upd p v s) = free_head s"
  "used_head (vs_upd p v s) = used_head s" "v_lock (vs_upd p v s) = v_lock s"
  by (simp_all add: vs_upd_def)

lemma vset_eq: "vmem s p \<noteq> None \<Longrightarrow> vset p v s = Some (vs_upd p v s)"
  by (simp add: vset_def hput_ok vs_upd_def)

lemma set_head_simps [simp]:
  "v_heap (set_head u n s) = v_heap s" "v_lock (set_head u n s) = v_lock s"
  "used_head (set_head True n s) = n" "free_head (set_head True n s) = free_head s"
  "free_head (set_head False n s) = n" "used_head (set_head False n s) = used_head s"
  by (simp_all add: set_head_def)

text \<open>The nodes \<open>A\<close> are in memory, apart from the allocator's memory and the nodes to come.\<close>
definition vgood :: "(kheap \<Rightarrow> u32 set \<Rightarrow> u32 list \<Rightarrow> bool) \<Rightarrow> vasa \<Rightarrow> u32 set \<Rightarrow> u32 list \<Rightarrow> u32 set \<Rightarrow> bool" where
  "vgood avail s R xs A \<longleftrightarrow> avail (v_heap s) R xs
     \<and> (\<forall>n\<in>A. \<forall>c\<in>node_cells 5 n. vmem s c \<noteq> None \<and> c \<notin> R \<and> (\<forall>x\<in>set xs. c \<notin> node_cells 5 x))"

lemma good_heads [simp]: "vgood avail (set_head u n s) R xs A = vgood avail s R xs A" "vgood avail (s\<lparr>free_head := n\<rparr>) R xs A = vgood avail s R xs A"
    "vgood avail (s\<lparr>v_lock := w\<rparr>) R xs A = vgood avail s R xs A"
  by (simp_all add: vgood_def)

locale vasa_pool = node_pool 5 alloc avail
  for alloc :: "kheap \<Rightarrow> (u32 \<times> kheap) option" and avail :: "kheap \<Rightarrow> u32 set \<Rightarrow> u32 list \<Rightarrow> bool"
begin

lemma good_vset:
  assumes "vgood avail s R xs A" and "n \<in> A" and "c \<in> node_cells 5 n"
  shows "vset c v s = Some (vs_upd c v s)" and "vgood avail (vs_upd c v s) R xs A"
proof -
  have c: "vmem s c \<noteq> None" "c \<notin> R" "\<forall>x\<in>set xs. c \<notin> node_cells 5 x" using assms unfolding vgood_def by blast+
  then show "vset c v s = Some (vs_upd c v s)" by (intro vset_eq)
  have "avail (v_heap (vs_upd c v s)) R xs"
    using avail_put[OF _ c, of v] assms(1) by (simp add: vs_upd_def vgood_def)
  then show "vgood avail (vs_upd c v s) R xs A" using assms(1) unfolding vgood_def by simp
qed

lemma add_used_loop:
  assumes "vgood avail s R xs A" and "apart5 (node # map fst (Us1 @ Us2))" and "set (node # map fst (Us1 @ Us2)) \<subseteq> A"
    and "Us1 @ Us2 = [] \<longrightarrow> vmem s node = Some NULL" and "node \<noteq> NULL" and "vmem s (node + 8) = Some b" and "vmem s (node + 12) = Some l"
    and "vmem s (node + 16) \<noteq> None"
    and "vseg (vmem s) (used_head s) Us1 head" and "vseg (vmem s) head Us2 NULL"
    and "prev = (if Us1 = [] then NULL else fst (last Us1))"
  shows "\<exists>s'. add_node_loop kf node True prev head s = Some s' \<and> free_head s' = free_head s \<and> v_lock s' = v_lock s
    \<and> vgood avail s' R xs A \<and> vseg (vmem s') (used_head s') (Us1 @ insert_chunk (node, b, l) Us2) NULL
    \<and> (\<forall>c. c \<notin> (\<Union>n\<in>set (node # map fst (Us1 @ Us2)). node_cells 5 n) \<longrightarrow> vmem s' c = vmem s c)"
  using assms
proof (induction Us2 arbitrary: Us1 head prev)
  case Nil
  then have hd: "head = NULL" by simp
  have nc: "n \<in> node_cells 5 n" for n by (simp add: node_cells_5)
  show ?case
  proof (cases Us1 rule: rev_cases)
    case Nil
    have "add_node_loop kf node True prev head s = Some (set_head True node s)"
      using hd Nil.prems(11) Nil by (subst add_node_loop.simps) simp
    moreover have "vseg (vmem s) node [(node, b, l)] NULL" using Nil.prems(4-8) Nil by simp
    ultimately show ?thesis using Nil.prems(1) Nil by simp
  next
    case (snoc Vs c)
    obtain p pb pl where c: "c = (p, pb, pl)" by (cases c) auto
    have p: "prev = p" "p \<noteq> NULL" "p \<in> A" "p \<noteq> node" "p \<notin> fst ` set Vs"
      using Nil.prems(2,3,9,11) snoc c by (auto simp: vseg_append apart5_def)
    let ?s1 = "vs_upd p node s" let ?s2 = "vs_upd node NULL ?s1"
    note w1 = good_vset[OF Nil.prems(1) p(3) nc, of node]
    have "node \<in> A" using Nil.prems(3) by simp
    note w2 = good_vset[OF w1(2) this nc, of NULL]
    have run: "add_node_loop kf node True prev head s = Some ?s2"
      using w1 w2 p hd by (subst add_node_loop.simps) simp
    have "vseg ((vmem s)(p \<mapsto> node)) (used_head s) (Vs @ [(p, pb, pl)]) node"
      using Nil.prems(2,9) snoc c p by (intro vseg_redirect[where ns = "node # map fst (Us1 @ [])" and q = head]) auto
    then have "vseg (vmem ?s2) (used_head s) (Vs @ [(p, pb, pl)]) node"
      by (rule vseg_other[where ns = "node # map fst (Us1 @ [])" and a = node, OF _ Nil.prems(2)])
        (use Nil.prems(2) snoc c in \<open>auto simp: node_cells_5 apart5_def\<close>)
    moreover have "(node + 8) \<noteq> p" "(node + 12) \<noteq> p" "(node + 16) \<noteq> p"
      using apart5_disjoint[OF Nil.prems(2), of p node p] snoc c p by (auto simp: node_cells_5)
    then have "vseg (vmem ?s2) node [(node, b, l)] NULL" using Nil.prems(5-8) by auto
    ultimately have "vseg (vmem ?s2) (used_head ?s2) (Us1 @ insert_chunk (node, b, l) []) NULL"
      unfolding snoc c vseg_append by (auto simp del: vs_upd_simps(1))
    moreover have "\<forall>c. c \<notin> (\<Union>n\<in>set (node # map fst (Us1 @ [])). node_cells 5 n) \<longrightarrow> vmem ?s2 c = vmem s c"
      using snoc c nc by auto
    ultimately show ?thesis using run w2(2) by (intro exI[of _ ?s2]) (simp del: fun_upd_apply vs_upd_simps(1))
  qed
next
  case (Cons u Us2)
  obtain n nb nl where u: "u = (n, nb, nl)" by (cases u) auto
  have nc: "n \<in> node_cells 5 n" for n by (simp add: node_cells_5)
  obtain nx where hn: "head = n" "n \<noteq> NULL" "vmem s (n + 8) = Some nb" "vmem s (n + 12) = Some nl"
      "vmem s n = Some nx" "vseg (vmem s) nx Us2 NULL" using Cons.prems(10) u by auto
  have cg: "\<exists>t. vasa_congruent s node head = Some t"
    using hn Cons.prems(6,7) by (simp add: vasa_congruent_def vn_base_def vn_length_def hget_def)
  show ?case
  proof (cases "nb > b")
    case False
    have "add_node_loop kf node True prev head s = add_node_loop kf node True n nx s"
      using cg hn False Cons.prems(6)
      by (subst add_node_loop.simps) (auto simp: vn_base_def vn_next_def hget_def)
    moreover have "vseg (vmem s) (used_head s) (Us1 @ [u]) nx" using Cons.prems(9,10) u hn by (auto simp: vseg_append)
    then have "\<exists>s'. add_node_loop kf node True n nx s = Some s' \<and> free_head s' = free_head s \<and> v_lock s' = v_lock s
      \<and> vgood avail s' R xs A \<and> vseg (vmem s') (used_head s') ((Us1 @ [u]) @ insert_chunk (node, b, l) Us2) NULL
      \<and> (\<forall>c. c \<notin> (\<Union>n\<in>set (node # map fst ((Us1 @ [u]) @ Us2)). node_cells 5 n) \<longrightarrow> vmem s' c = vmem s c)"
      by (intro Cons.IH Cons.prems(1,5-8) hn(6)) (use Cons.prems(2,3) u in simp_all)
    moreover have "(Us1 @ [u]) @ insert_chunk (node, b, l) Us2 = Us1 @ insert_chunk (node, b, l) (u # Us2)"
      "(Us1 @ [u]) @ Us2 = Us1 @ u # Us2" using False u by simp_all
    ultimately show ?thesis by (simp only:)
  next
    case True
    have ins: "insert_chunk (node, b, l) (u # Us2) = (node, b, l) # u # Us2" using True u by simp
    have nA: "node \<in> A" using Cons.prems(3) by simp
    have nn: "node \<notin> fst ` set (Us1 @ u # Us2)" using apart5_head(1)[OF Cons.prems(2)] by (auto simp: image_Un)
    have dn: "distinct (node # map fst (Us1 @ u # Us2))" using Cons.prems(2) by (rule apart5_head(2))
    show ?thesis
    proof (cases Us1 rule: rev_cases)
      case Nil
      note w = good_vset[OF Cons.prems(1) nA nc, of head]
      let ?s = "set_head True node (vs_upd node head s)"
      have run: "add_node_loop kf node True prev head s = Some ?s"
        using cg hn True Cons.prems(6,11) Nil w by (subst add_node_loop.simps) (auto simp: vn_base_def hget_def)
      have "vseg (vmem (vs_upd node head s)) head (u # Us2) NULL"
        by (rule vseg_other[where ns = "node # map fst (Us1 @ u # Us2)" and a = node, OF Cons.prems(10,2)])
          (use nn in \<open>auto simp: node_cells_5\<close>)
      then have "vseg (vmem ?s) (used_head ?s) (Us1 @ insert_chunk (node, b, l) (u # Us2)) NULL"
        using Cons.prems(5-8) unfolding ins Nil by simp
      moreover have "\<forall>c. c \<notin> (\<Union>n\<in>set (node # map fst (Us1 @ u # Us2)). node_cells 5 n) \<longrightarrow> vmem ?s c = vmem s c"
        using nc by auto
      ultimately show ?thesis using run w(2)
        by (intro exI[of _ ?s]) (simp del: fun_upd_apply vs_upd_simps(1) insert_chunk.simps)
    next
      case (snoc Vs c)
      obtain p pb pl where c: "c = (p, pb, pl)" by (cases c) auto
      have p: "prev = p" "p \<noteq> NULL" "p \<in> A" "p \<noteq> node" "p \<notin> fst ` set Vs" "p \<notin> fst ` set (u # Us2)"
        using dn Cons.prems(3,9,11) snoc c by (auto simp: vseg_append)
      let ?s1 = "vs_upd p node s" let ?s2 = "vs_upd node head ?s1"
      let ?ns = "node # map fst (Us1 @ u # Us2)"
      note w1 = good_vset[OF Cons.prems(1) p(3) nc, of node]
      note w2 = good_vset[OF w1(2) nA nc, of head]
      have run: "add_node_loop kf node True prev head s = Some ?s2"
        using cg hn True Cons.prems(6) p w1(1) w2(1) by (subst add_node_loop.simps) (auto simp: vn_base_def hget_def)
      have "vseg ((vmem s)(p \<mapsto> node)) (used_head s) (Vs @ [(p, pb, pl)]) node"
        using Cons.prems(2,9) snoc c p by (intro vseg_redirect[where ns = ?ns and q = head]) auto
      then have "vseg (vmem ?s2) (used_head s) (Vs @ [(p, pb, pl)]) node"
        by (rule vseg_other[where ns = ?ns and a = node, OF _ Cons.prems(2)])
          (use nn snoc c in \<open>auto simp: node_cells_5\<close>)
      moreover have "vseg ((vmem s)(p \<mapsto> node)) head (u # Us2) NULL"
        by (rule vseg_other[where ns = ?ns and a = p, OF Cons.prems(10,2)])
          (use p snoc c in \<open>auto simp: node_cells_5\<close>)
      then have "vseg (vmem ?s2) head (u # Us2) NULL"
        by (rule vseg_other[where ns = ?ns and a = node, OF _ Cons.prems(2)])
          (use nn in \<open>auto simp: node_cells_5\<close>)
      moreover have "(node + 8) \<noteq> p" "(node + 12) \<noteq> p" "(node + 16) \<noteq> p"
        using apart5_disjoint[OF Cons.prems(2), of p node p] snoc c p by (auto simp: node_cells_5)
      then have "vseg (vmem ?s2) node [(node, b, l)] head" using Cons.prems(5-8) by auto
      ultimately have "vseg (vmem ?s2) (used_head ?s2) ((Vs @ [(p, pb, pl)]) @ [(node, b, l)] @ u # Us2) NULL"
        unfolding vseg_append by (simp del: vs_upd_simps(1))
      then have "vseg (vmem ?s2) (used_head ?s2) (Us1 @ insert_chunk (node, b, l) (u # Us2)) NULL"
        by (simp only: ins snoc c append_assoc append_Cons append_Nil)
      moreover have "\<forall>c. c \<notin> (\<Union>n\<in>set ?ns. node_cells 5 n) \<longrightarrow> vmem ?s2 c = vmem s c"
        using snoc c nc by auto
      ultimately show ?thesis using run w2(2)
        by (intro exI[of _ ?s2]) (simp del: fun_upd_apply vs_upd_simps(1) insert_chunk.simps)
    qed
  qed
qed

end

subsection \<open>Allocation\<close>

definition vasa_ok :: "(kheap \<Rightarrow> u32 set \<Rightarrow> u32 list \<Rightarrow> bool) \<Rightarrow> vasa \<Rightarrow> u32 set \<Rightarrow> u32 list
    \<Rightarrow> (u32 \<times> u32 \<times> u32) list \<Rightarrow> (u32 \<times> u32 \<times> u32) list \<Rightarrow> bool" where
  "vasa_ok avail s R xs Fs Us \<longleftrightarrow> vseg (vmem s) (free_head s) Fs NULL \<and> vseg (vmem s) (used_head s) Us NULL
     \<and> apart5 (map fst (Fs @ Us)) \<and> vgood avail s R xs (fst ` set (Fs @ Us))"

text \<open>What the allocator does to the chunks, nodes left aside: first fit on the free list, and
  insertion by base into the used list.\<close>
fun first_fit :: "u32 \<Rightarrow> (u32 \<times> u32) list \<Rightarrow> (u32 \<times> (u32 \<times> u32) list) option" where
  "first_fit n [] = None"
| "first_fit n ((b, l) # fs) =
     (if l \<ge> n then Some (b, (if l > n then [(b + n, l - n)] else []) @ fs)
      else map_option (\<lambda>(p, fs'). (p, (b, l) # fs')) (first_fit n fs))"

fun insert_by_base :: "u32 \<times> u32 \<Rightarrow> (u32 \<times> u32) list \<Rightarrow> (u32 \<times> u32) list" where
  "insert_by_base c [] = [c]"
| "insert_by_base c (d # ds) = (if fst d > fst c then c # d # ds else d # insert_by_base c ds)"

lemma map_insert_chunk: "map snd (insert_chunk (x, b, l) us) = insert_by_base (b, l) (map snd us)"
  by (induction us) auto

lemma first_fit_skip:
  "\<forall>(n', b, l)\<in>set Fs1. \<not> l \<ge> n \<Longrightarrow> first_fit n (map snd (Fs1 @ Fs2))
     = map_option (\<lambda>(p, fs). (p, map snd Fs1 @ fs)) (first_fit n (map snd Fs2))"
proof (induction Fs1)
  case Nil
  then show ?case by (cases "first_fit n (map snd Fs2)") auto
next
  case (Cons c Fs1)
  obtain a b l where c: "c = (a, b, l)" by (cases c) auto
  with Cons show ?case by (cases "first_fit n (map snd Fs2)") auto
qed

lemma apart5_subset: "apart5 xs \<Longrightarrow> distinct ys \<Longrightarrow> set ys \<subseteq> set xs \<Longrightarrow> apart5 ys"
  unfolding apart5_def by blast

lemma vgood_mono: "vgood avail s R xs A \<Longrightarrow> B \<subseteq> A \<Longrightarrow> vgood avail s R xs B"
  unfolding vgood_def by blast

lemma vseg_mapped:
  "vseg m p xs q \<Longrightarrow> (n, b, l) \<in> set xs \<Longrightarrow> n \<noteq> NULL \<and> m (n + 8) = Some b \<and> m (n + 12) = Some l \<and> m n \<noteq> None"
  by (induction m p xs q rule: vseg.induct) auto

lemma map_fst_insert_chunk: "set (map fst (insert_chunk c us)) = insert (fst c) (fst ` set us)"
  by auto

lemma distinct_insert_chunk: "distinct (map fst (insert_chunk c us)) \<longleftrightarrow> distinct (fst c # map fst us)"
  by (induction us) auto

context vasa_pool
begin

lemma prepare_node:
  assumes g: "vgood avail s R xs A" and n: "node \<in> A"
  shows "\<exists>s4. (do { s2 \<leftarrow> vset node NULL s; s3 \<leftarrow> vset (node + 4) ty s2; vset_chunk node ptr len flags s3 }) = Some s4
    \<and> vgood avail s4 R xs A \<and> free_head s4 = free_head s \<and> used_head s4 = used_head s \<and> v_lock s4 = v_lock s
    \<and> vmem s4 node = Some NULL \<and> vmem s4 (node + 8) = Some ptr \<and> vmem s4 (node + 12) = Some len \<and> vmem s4 (node + 16) \<noteq> None
    \<and> (\<forall>c. c \<notin> node_cells 5 node \<longrightarrow> vmem s4 c = vmem s c)"
proof -
  have c: "node \<in> node_cells 5 node" "node + 4 \<in> node_cells 5 node" "node + 8 \<in> node_cells 5 node"
      "node + 12 \<in> node_cells 5 node" "node + 16 \<in> node_cells 5 node" by (simp_all add: node_cells_5)
  note w1 = good_vset[OF g n c(1), of NULL]
  note w2 = good_vset[OF w1(2) n c(2), of ty]
  note w3 = good_vset[OF w2(2) n c(3), of ptr]
  note w4 = good_vset[OF w3(2) n c(4), of len]
  note w5 = good_vset[OF w4(2) n c(5), of flags]
  show ?thesis
    using w5(2) by (intro exI[of _ "vs_upd (node + 16) flags (vs_upd (node + 12) len (vs_upd (node + 8) ptr
        (vs_upd (node + 4) ty (vs_upd node NULL s))))"])
      (simp add: vset_chunk_def w1(1) w2(1) w3(1) w4(1) w5(1) node_cells_5)
qed

lemma new_chunk_node:
  assumes "vgood avail s R (x # y # xs) A"
  shows "\<exists>s'. vasa_new alloc s = Some (x, s') \<and> vgood avail s' R (y # xs) (insert x A) \<and> free_head s' = free_head s
    \<and> used_head s' = used_head s \<and> v_lock s' = v_lock s \<and> x \<noteq> NULL \<and> (\<forall>c. c \<notin> R \<longrightarrow> vmem s' c = vmem s c)
    \<and> (\<forall>n\<in>A. n \<noteq> x \<and> node_cells 5 x \<inter> node_cells 5 n = {})"
proof -
  have av: "avail (v_heap s) R (x # y # xs)" and A: "\<forall>n\<in>A. \<forall>c\<in>node_cells 5 n. vmem s c \<noteq> None \<and> c \<notin> R
      \<and> (\<forall>z\<in>set (x # y # xs). c \<notin> node_cells 5 z)" using assms by (simp_all add: vgood_def)
  obtain h where h: "alloc (v_heap s) = Some (x, h)" "avail h R (y # xs)" "x \<noteq> NULL" "\<forall>p. p \<notin> R \<longrightarrow> hmem h p = vmem s p"
    "\<forall>p\<in>node_cells 5 x. hmem h p \<noteq> None \<and> p \<notin> R \<and> (\<forall>z\<in>set (y # xs). p \<notin> node_cells 5 z)"
    using alloc_fresh[OF av] by blast
  let ?s = "s\<lparr>v_heap := h\<rparr>"
  have "\<forall>c\<in>node_cells 5 n. vmem ?s c \<noteq> None \<and> c \<notin> R \<and> (\<forall>z\<in>set (y # xs). c \<notin> node_cells 5 z)" if "n \<in> insert x A" for n
  proof (cases "n = x")
    case True
    with h(5) show ?thesis by simp
  next
    case False
    with that A have "\<forall>c\<in>node_cells 5 n. vmem s c \<noteq> None \<and> c \<notin> R \<and> (\<forall>z\<in>set (x # y # xs). c \<notin> node_cells 5 z)" by blast
    with h(4) show ?thesis by auto
  qed
  then have "vgood avail ?s R (y # xs) (insert x A)" using h(2) unfolding vgood_def by simp
  moreover have "n \<noteq> x \<and> node_cells 5 x \<inter> node_cells 5 n = {}" if "n \<in> A" for n
    using A that node_cells_0[of 5 n] by auto
  ultimately show ?thesis using h by (intro exI[of _ ?s]) (simp add: vasa_new_def)
qed

text \<open>Adding a prepared node to the used list.\<close>
lemma add_used:
  assumes "vgood avail s R xs A" and "apart5 (node # map fst Us)" and "set (node # map fst Us) \<subseteq> A"
    and "Us = [] \<longrightarrow> vmem s node = Some NULL" and "node \<noteq> NULL" and "vmem s (node + 8) = Some b" and "vmem s (node + 12) = Some l"
    and "vmem s (node + 16) \<noteq> None" and "vseg (vmem s) (used_head s) Us NULL"
  shows "\<exists>s'. vasa_add_node kf node True s = Some s' \<and> free_head s' = free_head s \<and> v_lock s' = v_lock s
    \<and> vgood avail s' R xs A \<and> vseg (vmem s') (used_head s') (insert_chunk (node, b, l) Us) NULL
    \<and> (\<forall>c. c \<notin> (\<Union>n\<in>set (node # map fst Us). node_cells 5 n) \<longrightarrow> vmem s' c = vmem s c)"
  using add_used_loop[of s R xs A node "[]" Us b l "used_head s" NULL kf] assms by (simp add: vasa_add_node_def)

text \<open>The free list after the cut, once the node for the used list is prepared.\<close>
lemma finish_cut:
  assumes g: "vgood avail s R xs A" and ap: "apart5 (node # map fst (Fs @ Us))" and A: "set (node # map fst (Fs @ Us)) \<subseteq> A"
    and nn: "node \<noteq> NULL" and F: "vseg (vmem s) (free_head s) Fs NULL" and U: "vseg (vmem s) (used_head s) Us NULL"
  shows "\<exists>s'. (do { s2 \<leftarrow> vset node NULL s; s3 \<leftarrow> vset (node + 4) ty s2; s4 \<leftarrow> vset_chunk node ptr len flags s3;
      vasa_add_node kf node True s4 }) = Some s' \<and> v_lock s' = v_lock s
    \<and> vasa_ok avail s' R xs Fs (insert_chunk (node, ptr, len) Us)"
proof -
  obtain s4 where s4: "(do { s2 \<leftarrow> vset node NULL s; s3 \<leftarrow> vset (node + 4) ty s2; vset_chunk node ptr len flags s3 }) = Some s4"
      "vgood avail s4 R xs A" "free_head s4 = free_head s" "used_head s4 = used_head s" "v_lock s4 = v_lock s"
      "vmem s4 node = Some NULL" "vmem s4 (node + 8) = Some ptr" "vmem s4 (node + 12) = Some len" "vmem s4 (node + 16) \<noteq> None"
      "\<forall>c. c \<notin> node_cells 5 node \<longrightarrow> vmem s4 c = vmem s c"
    using prepare_node[OF g, of node ty ptr len flags] A by auto
  have F4: "vseg (vmem s4) (free_head s4) Fs NULL" unfolding s4(3)
    by (rule vseg_other[OF F ap, of node]) (use apart5_head(1)[OF ap] s4(10) in auto)
  have U4: "vseg (vmem s4) (used_head s4) Us NULL" unfolding s4(4)
    by (rule vseg_other[OF U ap, of node]) (use apart5_head(1)[OF ap] s4(10) in auto)
  have dn: "distinct (node # map fst (Fs @ Us))" using ap by (rule apart5_head(2))
  have apU: "apart5 (node # map fst Us)" by (rule apart5_subset[OF ap]) (use dn in auto)
  obtain s' where s': "vasa_add_node kf node True s4 = Some s'" "free_head s' = free_head s4" "v_lock s' = v_lock s4"
     "vgood avail s' R xs A" "vseg (vmem s') (used_head s') (insert_chunk (node, ptr, len) Us) NULL"
     "\<forall>c. c \<notin> (\<Union>n\<in>set (node # map fst Us). node_cells 5 n) \<longrightarrow> vmem s' c = vmem s4 c"
    using add_used[OF s4(2) apU _ _ nn s4(7,8,9) U4, of kf] A s4(6) by auto
  have "vseg (vmem s') (free_head s') Fs NULL" unfolding s'(2)
  proof (rule vseg_cong[OF F4])
    fix n c assume a: "n \<in> fst ` set Fs" "c \<in> node_cells 5 n"
    have "c \<notin> node_cells 5 z" if "z \<in> set (node # map fst Us)" for z
    proof -
      have "n \<noteq> z" using dn a(1) that by auto
      moreover have "n \<in> set (node # map fst (Fs @ Us))" "z \<in> set (node # map fst (Fs @ Us))" using a(1) that by auto
      ultimately show ?thesis using apart5_disjoint[OF ap _ _ _ a(2)] by blast
    qed
    then show "vmem s' c = vmem s4 c" using s'(6) by blast
  qed
  moreover have "apart5 (map fst (Fs @ insert_chunk (node, ptr, len) Us))"
    by (rule apart5_subset[OF ap]) (use dn in \<open>auto simp: distinct_insert_chunk\<close>)
  moreover have "vgood avail s' R xs (fst ` set (Fs @ insert_chunk (node, ptr, len) Us))"
    by (rule vgood_mono[OF s'(4)]) (use A in auto)
  ultimately have "vasa_ok avail s' R xs Fs (insert_chunk (node, ptr, len) Us)" using s'(5) by (simp add: vasa_ok_def)
  moreover have "(do { s2 \<leftarrow> vset node NULL s; s3 \<leftarrow> vset (node + 4) ty s2; s4 \<leftarrow> vset_chunk node ptr len flags s3;
      vasa_add_node kf node True s4 }) = Some s'"
    using s4(1) s'(1) by (auto split: bind_splits)
  ultimately show ?thesis using s'(3) s4(5) by auto
qed

lemma vasa_ok_parts:
  assumes "vasa_ok avail s R xs (Fs1 @ (nd, b, l) # Fs2) Us"
  shows "\<exists>q. vseg (vmem s) (free_head s) Fs1 nd \<and> vmem s nd = Some q \<and> vseg (vmem s) q Fs2 NULL"
    and "nd \<noteq> NULL" and "vmem s (nd + 8) = Some b" and "vmem s (nd + 12) = Some l"
    and "vgood avail s R xs (fst ` set ((Fs1 @ (nd, b, l) # Fs2) @ Us))"
    and "apart5 (map fst ((Fs1 @ (nd, b, l) # Fs2) @ Us))"
    and "distinct (map fst ((Fs1 @ (nd, b, l) # Fs2) @ Us))"
    and "vseg (vmem s) (used_head s) Us NULL" and "vseg (vmem s) (free_head s) (Fs1 @ (nd, b, l) # Fs2) NULL"
proof -
  show "vgood avail s R xs (fst ` set ((Fs1 @ (nd, b, l) # Fs2) @ Us))"
    and ap: "apart5 (map fst ((Fs1 @ (nd, b, l) # Fs2) @ Us))" and "vseg (vmem s) (used_head s) Us NULL"
    and v: "vseg (vmem s) (free_head s) (Fs1 @ (nd, b, l) # Fs2) NULL"
    using assms by (simp_all add: vasa_ok_def)
  show "distinct (map fst ((Fs1 @ (nd, b, l) # Fs2) @ Us))" using ap by (rule apart5_head(2))
  show "\<exists>q. vseg (vmem s) (free_head s) Fs1 nd \<and> vmem s nd = Some q \<and> vseg (vmem s) q Fs2 NULL"
    using v by (auto simp: vseg_append)
  show "nd \<noteq> NULL" "vmem s (nd + 8) = Some b" "vmem s (nd + 12) = Some l" using vseg_mapped[OF v, of nd b l] by auto
qed

text \<open>The chunk is used up: its node moves to the used list.\<close>
lemma cut_whole:
  assumes ok: "vasa_ok avail s R xs (Fs1 @ (nd, b, n) # Fs2) Us"
    and prev: "prev = (if Fs1 = [] then NULL else fst (last Fs1))"
  shows "\<exists>s'. alloc_cut alloc kf ty n flags ptr NULL prev nd s = Some s' \<and> v_lock s' = v_lock s
    \<and> vasa_ok avail s' R xs (Fs1 @ Fs2) (insert_chunk (nd, ptr, n) Us)"
proof -
  note P = vasa_ok_parts[OF ok]
  obtain q where q: "vseg (vmem s) (free_head s) Fs1 nd" "vmem s nd = Some q" "vseg (vmem s) q Fs2 NULL" using P(1) by blast
  let ?A = "fst ` set ((Fs1 @ (nd, b, n) # Fs2) @ Us)"
  let ?ns = "map fst ((Fs1 @ (nd, b, n) # Fs2) @ Us)"
  have "\<exists>s1. (if prev \<noteq> NULL then vset prev q s else Some (s\<lparr>free_head := q\<rparr>)) = Some s1 \<and> v_lock s1 = v_lock s
    \<and> vgood avail s1 R xs ?A \<and> vseg (vmem s1) (free_head s1) (Fs1 @ Fs2) NULL \<and> vseg (vmem s1) (used_head s1) Us NULL"
  proof (cases Fs1 rule: rev_cases)
    case Nil
    then show ?thesis using prev P(5,8) q by (intro exI[of _ "s\<lparr>free_head := q\<rparr>"]) simp
  next
    case (snoc Vs c)
    obtain p pb pl where c: "c = (p, pb, pl)" by (cases c) auto
    have p: "prev = p" "p \<noteq> NULL" "p \<in> ?A" "p \<in> set ?ns"
      using prev snoc c q(1) by (auto simp: vseg_append)
    have pn: "p \<notin> fst ` set Vs" "p \<notin> fst ` set Fs2" "p \<notin> fst ` set Us" using P(7) snoc c by auto
    have pc: "p \<in> node_cells 5 p" by (simp add: node_cells_5)
    note w = good_vset[OF P(5) p(3) pc, of q]
    have "vseg ((vmem s)(p \<mapsto> q)) (free_head s) (Vs @ [(p, pb, pl)]) q"
      using q(1) P(6) snoc c pn by (intro vseg_redirect[where ns = ?ns and q = nd]) auto
    moreover have "vseg ((vmem s)(p \<mapsto> q)) q Fs2 NULL"
      by (rule vseg_other[OF q(3) P(6) p(4)]) (use pn pc in auto)
    moreover have "vseg ((vmem s)(p \<mapsto> q)) (used_head s) Us NULL"
      by (rule vseg_other[OF P(8,6) p(4)]) (use pn pc in auto)
    ultimately show ?thesis using w p(1,2) snoc c
      by (intro exI[of _ "vs_upd p q s"]) (auto simp: vseg_append simp del: fun_upd_apply)
  qed
  then obtain s1 where s1: "(if prev \<noteq> NULL then vset prev q s else Some (s\<lparr>free_head := q\<rparr>)) = Some s1" "v_lock s1 = v_lock s"
    "vgood avail s1 R xs ?A" "vseg (vmem s1) (free_head s1) (Fs1 @ Fs2) NULL" "vseg (vmem s1) (used_head s1) Us NULL" by blast
  have "apart5 (nd # map fst ((Fs1 @ Fs2) @ Us))"
    by (rule apart5_subset[OF P(6)]) (use P(7) in auto)
  moreover have "set (nd # map fst ((Fs1 @ Fs2) @ Us)) \<subseteq> ?A" by auto
  ultimately obtain s' where s': "(do { s2 \<leftarrow> vset nd NULL s1; s3 \<leftarrow> vset (nd + 4) ty s2; s4 \<leftarrow> vset_chunk nd ptr n flags s3;
      vasa_add_node kf nd True s4 }) = Some s'" "v_lock s' = v_lock s1"
     "vasa_ok avail s' R xs (Fs1 @ Fs2) (insert_chunk (nd, ptr, n) Us)"
    using finish_cut[OF s1(3) _ _ P(2) s1(4,5), of ty ptr n flags kf] by blast
  have "alloc_cut alloc kf ty n flags ptr NULL prev nd s = Some s'"
    using P(4) q(2) s1(1) s'(1) by (simp add: alloc_cut_def vn_length_def vn_next_def hget_def split: bind_splits)
  then show ?thesis using s'(2,3) s1(2) by auto
qed

text \<open>The front of a larger chunk is cut off for a new node.\<close>
lemma cut_part:
  assumes ok: "vasa_ok avail s R (x # y # xs) (Fs1 @ (nd, b, l) # Fs2) Us" and l: "l > n"
  shows "\<exists>s'. alloc_cut alloc kf ty n flags ptr NULL prev nd s = Some s' \<and> v_lock s' = v_lock s
    \<and> vasa_ok avail s' R (y # xs) (Fs1 @ (nd, b + n, l - n) # Fs2) (insert_chunk (x, ptr, n) Us)"
proof -
  note P = vasa_ok_parts[OF ok]
  obtain q where q: "vseg (vmem s) (free_head s) Fs1 nd" "vmem s nd = Some q" "vseg (vmem s) q Fs2 NULL" using P(1) by blast
  let ?A = "fst ` set ((Fs1 @ (nd, b, l) # Fs2) @ Us)" and ?ns = "map fst ((Fs1 @ (nd, b, l) # Fs2) @ Us)"
  have hA: "nd \<in> ?A" "nd \<in> set ?ns" by auto
  have hc: "nd + 12 \<in> node_cells 5 nd" "nd + 8 \<in> node_cells 5 nd" by (simp_all add: node_cells_5)
  note w1 = good_vset[OF P(5) hA(1) hc(1), of "l - n"]
  note w2 = good_vset[OF w1(2) hA(1) hc(2), of "b + n"]
  let ?s2 = "vs_upd (nd + 8) (b + n) (vs_upd (nd + 12) (l - n) s)"
  have hn: "nd \<notin> fst ` set Fs1" "nd \<notin> fst ` set Fs2" "nd \<notin> fst ` set Us" using P(7) by auto
  have ag: "vmem ?s2 c = vmem s c" if "c \<notin> node_cells 5 nd" for c using that hc by auto
  have "vseg (vmem ?s2) (free_head s) Fs1 nd" by (rule vseg_other[OF q(1) P(6) hA(2) _ ag]) (use hn in auto)
  moreover have "vseg (vmem ?s2) q Fs2 NULL" by (rule vseg_other[OF q(3) P(6) hA(2) _ ag]) (use hn in auto)
  moreover have "vmem s (nd + 16) \<noteq> None" using P(5) unfolding vgood_def by (simp add: node_cells_5)
  then have "vseg (vmem ?s2) nd [(nd, b + n, l - n)] q" using P(2) q(2) by simp
  ultimately have F2: "vseg (vmem ?s2) (free_head ?s2) (Fs1 @ (nd, b + n, l - n) # Fs2) NULL"
    unfolding vseg_append by (auto simp del: vs_upd_simps(1))
  have U2: "vseg (vmem ?s2) (used_head ?s2) Us NULL"
  proof -
    have "vseg (vmem ?s2) (used_head s) Us NULL" by (rule vseg_other[OF P(8,6) hA(2) _ ag]) (use hn in auto)
    then show ?thesis by (simp del: vs_upd_simps(1))
  qed
  obtain s3 where s3: "vasa_new alloc ?s2 = Some (x, s3)" "vgood avail s3 R (y # xs) (insert x ?A)" "free_head s3 = free_head ?s2"
      "used_head s3 = used_head ?s2" "v_lock s3 = v_lock ?s2" "x \<noteq> NULL" "\<forall>c. c \<notin> R \<longrightarrow> vmem s3 c = vmem ?s2 c"
      "\<forall>n\<in>?A. n \<noteq> x \<and> node_cells 5 x \<inter> node_cells 5 n = {}"
    using new_chunk_node[OF w2(2)] by blast
  have ag3: "vmem s3 c = vmem ?s2 c" if "m \<in> ?A" "c \<in> node_cells 5 m" for m c
    using s3(7) w2(2) that unfolding vgood_def by blast
  have F3: "vseg (vmem s3) (free_head s3) (Fs1 @ (nd, b + n, l - n) # Fs2) NULL" unfolding s3(3)
    by (rule vseg_cong[OF F2]) (rule ag3; auto)
  have U3: "vseg (vmem s3) (used_head s3) Us NULL" unfolding s3(4)
    by (rule vseg_cong[OF U2]) (rule ag3; auto)
  have e: "map fst ((Fs1 @ (nd, b + n, l - n) # Fs2) @ Us) = ?ns" by simp
  have "apart5 (x # map fst ((Fs1 @ (nd, b + n, l - n) # Fs2) @ Us))" unfolding e
    using P(6) s3(8) unfolding apart5_def by (auto simp: image_Un)
  moreover have "set (x # map fst ((Fs1 @ (nd, b + n, l - n) # Fs2) @ Us)) \<subseteq> insert x ?A" by auto
  ultimately obtain s' where s': "(do { s2 \<leftarrow> vset x NULL s3; s3 \<leftarrow> vset (x + 4) ty s2; s4 \<leftarrow> vset_chunk x ptr n flags s3;
      vasa_add_node kf x True s4 }) = Some s'" "v_lock s' = v_lock s3"
     "vasa_ok avail s' R (y # xs) (Fs1 @ (nd, b + n, l - n) # Fs2) (insert_chunk (x, ptr, n) Us)"
    using finish_cut[OF s3(2) _ _ s3(6) F3 U3, of ty ptr n flags kf] by blast
  have "alloc_cut alloc kf ty n flags ptr NULL prev nd s = Some s'"
    using P(3,4) l w1(1) w2(1) s3(1) s'(1)
    by (simp add: alloc_cut_def vn_length_def vn_base_def hget_def split: bind_splits)
  then show ?thesis using s'(2,3) s3(5) by auto
qed

lemma alloc_find_first_fit:
  assumes ok: "vasa_ok avail s R (x # y # xs) (Fs1 @ Fs2) Us" and pad: "pad_of flags = 0"
    and prev: "prev = (if Fs1 = [] then NULL else fst (last Fs1))"
    and head: "vseg (vmem s) (free_head s) Fs1 head" "vseg (vmem s) head Fs2 NULL"
  shows "\<exists>p s'. alloc_find alloc kf ty n flags prev head s = Some (p, s') \<and> v_lock s' = 0
    \<and> (case first_fit n (map snd Fs2) of
         None \<Rightarrow> p = NULL \<and> s' = s\<lparr>v_lock := 0\<rparr>
       | Some (q, fs') \<Rightarrow> p = q \<and> (\<exists>xs' Fs' Us'. vasa_ok avail s' R xs' Fs' Us' \<and> map snd Fs' = map snd Fs1 @ fs'
            \<and> map snd Us' = insert_by_base (q, n) (map snd Us)))"
  using assms
proof (induction Fs2 arbitrary: Fs1 prev head)
  case Nil
  then show ?case by (subst alloc_find.simps) (simp add: spin_unlock_def)
next
  case (Cons f Fs2)
  obtain nd b l where f: "f = (nd, b, l)" by (cases f) auto
  have ok: "vasa_ok avail s R (x # y # xs) (Fs1 @ (nd, b, l) # Fs2) Us" using Cons.prems(1) f by simp
  note P = vasa_ok_parts[OF ok]
  have nd: "head = nd" using Cons.prems(5) f by simp
  have lock: "vasa_ok avail (t\<lparr>v_lock := 0\<rparr>) R xs' Fs' Us' = vasa_ok avail t R xs' Fs' Us'" for t xs' Fs' Us'
    by (simp add: vasa_ok_def)
  show ?case
  proof (cases "l \<ge> n")
    case False
    obtain q where q: "vmem s nd = Some q" "vseg (vmem s) q Fs2 NULL" "vseg (vmem s) (free_head s) (Fs1 @ [f]) q"
      using Cons.prems(4,5) f by (auto simp: vseg_append)
    have "alloc_find alloc kf ty n flags prev head s = alloc_find alloc kf ty n flags nd q s"
      using False pad P(2,4) q(1) nd by (subst alloc_find.simps) (simp add: vn_length_def vn_next_def hget_def)
    moreover have "nd = (if Fs1 @ [f] = [] then NULL else fst (last (Fs1 @ [f])))" using f by simp
    moreover have "\<exists>p s'. alloc_find alloc kf ty n flags nd q s = Some (p, s') \<and> v_lock s' = 0
      \<and> (case first_fit n (map snd Fs2) of
         None \<Rightarrow> p = NULL \<and> s' = s\<lparr>v_lock := 0\<rparr>
       | Some (q, fs') \<Rightarrow> p = q \<and> (\<exists>xs' Fs' Us'. vasa_ok avail s' R xs' Fs' Us' \<and> map snd Fs' = map snd (Fs1 @ [f]) @ fs'
            \<and> map snd Us' = insert_by_base (q, n) (map snd Us)))"
      by (rule Cons.IH) (use Cons.prems(1,2) q f in simp_all)
    moreover have "first_fit n (map snd (f # Fs2)) = map_option (\<lambda>(p, fs'). (p, (b, l) # fs')) (first_fit n (map snd Fs2))"
      using False f by simp
    moreover have "map snd (Fs1 @ [f]) @ fs = map snd Fs1 @ (b, l) # fs" for fs using f by simp
    ultimately show ?thesis by (cases "first_fit n (map snd Fs2)") (simp_all add: case_prod_beta)
  next
    case True
    have pd: "alloc_pad alloc ty 0 flags nd s = Some (b, NULL, s)"
      using P(3) by (simp add: alloc_pad_def vn_base_def hget_def)
    have run: "alloc_find alloc kf ty n flags prev head s = Some (b, s'\<lparr>v_lock := 0\<rparr>)"
      if "alloc_cut alloc kf ty n flags b NULL prev nd s = Some s'" for s'
      using that True pad P(2,4) nd pd by (subst alloc_find.simps) (simp add: vn_length_def hget_def spin_unlock_def)
    show ?thesis
    proof (cases "l > n")
      case True
      from cut_part[OF ok this, of kf ty flags b prev] obtain s' where
        s': "alloc_cut alloc kf ty n flags b NULL prev nd s = Some s'"
        "vasa_ok avail s' R (y # xs) (Fs1 @ (nd, b + n, l - n) # Fs2) (insert_chunk (x, b, n) Us)" by blast
      have "map snd (Fs1 @ (nd, b + n, l - n) # Fs2) = map snd Fs1 @ [(b + n, l - n)] @ map snd Fs2" by simp
      then show ?thesis using run[OF s'(1)] s'(2) \<open>l \<ge> n\<close> True f lock map_insert_chunk[of x b n Us]
        by (intro exI[of _ b] exI[of _ "s'\<lparr>v_lock := 0\<rparr>"]) (auto simp del: map_append)
    next
      case False
      with \<open>l \<ge> n\<close> have l: "l = n" by simp
      from cut_whole[of s R "x # y # xs" Fs1 nd b n Fs2 Us prev kf ty flags b] ok l Cons.prems(3) obtain s' where
        s': "alloc_cut alloc kf ty n flags b NULL prev nd s = Some s'"
        "vasa_ok avail s' R (x # y # xs) (Fs1 @ Fs2) (insert_chunk (nd, b, n) Us)" by auto
      have "\<exists>xs' Fs' Us'. vasa_ok avail s' R xs' Fs' Us' \<and> map snd Fs' = map snd Fs1 @ map snd Fs2
          \<and> map snd Us' = insert_by_base (b, n) (map snd Us)"
        using s'(2) map_insert_chunk[of nd b n Us] by (metis map_append)
      then show ?thesis using run[OF s'(1)] l f lock
        by (intro exI[of _ b] exI[of _ "s'\<lparr>v_lock := 0\<rparr>"]) simp
    qed
  qed
qed

end

lemma vasa_node_alloc_early:
  "early_kmalloc_active (early h) \<Longrightarrow> vasa_node_alloc memmap cpu large h = kmalloc memmap cpu large 20 h"
  by (simp add: vasa_node_alloc_def)

text \<open>The node source of the code: the early allocator while it is active, else the cache.\<close>
definition vasa_nodes :: "nat \<Rightarrow> kheap \<Rightarrow> u32 set \<Rightarrow> u32 list \<Rightarrow> bool" where
  "vasa_nodes cpu h R xs \<longleftrightarrow>
     (if early_kmalloc_active (early h) then early_nodes 5 h R xs else slub_nodes cpu ''cache_vasa'' 5 h R xs)"

lemma early_active_hset [simp]: "early (hset h m) = early h"
  by (simp add: hset_def)

lemma lift_slub_early: "lift_slub f h = Some (x, h') \<Longrightarrow> early h' = early h"
  by (auto simp: lift_slub_def split: bind_splits)

lemma early_kmalloc_stays:
  assumes "early_nodes 5 h R (x # y # xs)" and "kmalloc memmap cpu large 20 h = Some (z, h')"
  shows "early_nodes 5 h' R (y # xs) \<longrightarrow> early_kmalloc_active (early h')"
  by (simp add: early_nodes_def early_avail_def early_inv_def)

interpretation vasa_src: vasa_pool "vasa_node_alloc memmap cpu large" "vasa_nodes cpu" for memmap cpu large
proof (rule vasa_pool.intro, unfold_locales)
  show "\<exists>h'. vasa_node_alloc memmap cpu large h = Some (x, h') \<and> vasa_nodes cpu h' R (y # xs)
      \<and> (\<forall>p. p \<notin> R \<longrightarrow> hmem h' p = hmem h p)" if a: "vasa_nodes cpu h R (x # y # xs)" for h R x y xs
  proof (cases "early_kmalloc_active (early h)")
    case True
    then have e: "early_nodes 5 h R (x # y # xs)" using a by (simp add: vasa_nodes_def)
    from early5.alloc_next[OF this, of memmap cpu large] obtain h' where
      "kmalloc memmap cpu large 20 h = Some (x, h')" "early_nodes 5 h' R (y # xs)" "\<forall>p. p \<notin> R \<longrightarrow> hmem h' p = hmem h p" by blast
    with True early_kmalloc_stays[OF e this(1)] show ?thesis by (simp add: vasa_node_alloc_def vasa_nodes_def)
  next
    case False
    then have "slub_nodes cpu ''cache_vasa'' 5 h R (x # y # xs)" using a by (simp add: vasa_nodes_def)
    from cache5.alloc_next[OF this, of memmap] obtain h' where
      h': "lift_slub (mem_cache_alloc memmap cpu ''cache_vasa'') h = Some (x, h')" "slub_nodes cpu ''cache_vasa'' 5 h' R (y # xs)"
      "\<forall>p. p \<notin> R \<longrightarrow> hmem h' p = hmem h p" by blast
    with False lift_slub_early[OF h'(1)] show ?thesis by (simp add: vasa_node_alloc_def vasa_nodes_def)
  qed
  show "NULL \<notin> set xs" if "vasa_nodes cpu h R xs" for h R xs
    using that early5.avail_nonnull cache5.avail_nonnull by (auto simp: vasa_nodes_def split: if_splits)
  show "hmem h p \<noteq> None \<and> p \<notin> R" if "vasa_nodes cpu h R xs" "x \<in> set xs" "p \<in> node_cells 5 x" for h R xs x p
    using that early5.avail_mapped cache5.avail_mapped unfolding vasa_nodes_def by meson
  show "node_cells 5 x \<inter> node_cells 5 y = {}" if "vasa_nodes cpu h R (x # xs)" "y \<in> set xs" for h R x xs y
    using that early5.avail_apart cache5.avail_apart unfolding vasa_nodes_def by meson
  show "vasa_nodes cpu (hset h ((hmem h)(p \<mapsto> v))) R xs"
    if "vasa_nodes cpu h R xs" "hmem h p \<noteq> None" "p \<notin> R" "\<forall>x\<in>set xs. p \<notin> node_cells 5 x" for h R xs p v
    using early5.avail_put[OF _ that(2-4), of v] cache5.avail_put[OF _ that(2-4), of cpu "''cache_vasa''" v] that(1)
    by (simp add: vasa_nodes_def split: if_splits)
qed

subsection \<open>The properties\<close>

text \<open>C2: vasa_alloc without alignment flags is first fit: the pointer-level code, whichever allocator
  its nodes come from, takes the front of the first free chunk that is large enough (the whole chunk if
  it fits exactly), files the block by its base into the used list, gives back the lock, and reports
  NULL without changing anything when no chunk is large enough.\<close>
theorem vasa_alloc_first_fit:
  assumes "vasa_ok (vasa_nodes cpu) s R (x # y # xs) Fs Us" and "pad_of flags = 0" and "n \<noteq> 0" and "v_lock s = 0"
  shows "\<exists>p s'. vasa_alloc (vasa_node_alloc memmap cpu large) kf ty n flags s = Some (p, s') \<and> v_lock s' = 0
    \<and> (case first_fit n (map snd Fs) of
         None \<Rightarrow> p = NULL \<and> s' = s
       | Some (q, fs') \<Rightarrow> p = q \<and> (\<exists>xs' Fs' Us'. vasa_ok (vasa_nodes cpu) s' R xs' Fs' Us' \<and> map snd Fs' = fs'
            \<and> map snd Us' = insert_by_base (q, n) (map snd Us)))"
proof -
  let ?s = "s\<lparr>v_lock := 1\<rparr>"
  have run: "vasa_alloc (vasa_node_alloc memmap cpu large) kf ty n flags s
      = alloc_find (vasa_node_alloc memmap cpu large) kf ty n flags NULL (free_head ?s) ?s"
    using assms(3,4) by (simp add: vasa_alloc_def spin_lock_def)
  have ok: "vasa_ok (vasa_nodes cpu) ?s R (x # y # xs) ([] @ Fs) Us" using assms(1) by (simp add: vasa_ok_def)
  have v: "vseg (vmem ?s) (free_head ?s) [] (free_head ?s)" "vseg (vmem ?s) (free_head ?s) Fs NULL"
    using assms(1) by (simp_all add: vasa_ok_def)
  have "?s\<lparr>v_lock := 0\<rparr> = s" using assms(4) by (cases s) auto
  with vasa_src.alloc_find_first_fit[OF ok assms(2) _ v, where prev = NULL and n = n and memmap = memmap
      and large = large and kf = kf and ty = ty] show ?thesis
    unfolding run by (cases "first_fit n (map snd Fs)") (simp_all add: case_prod_beta)
qed

text \<open>The early phase: all memory mapped, one free chunk of 1 MiB at 0xD0000000 whose node is at 0x8000.\<close>
definition boot_heap :: kheap where
  "boot_heap = \<lparr>early = \<lparr>early_memory_base = 0xC0110000, early_memory_end = 0xC0111000\<rparr>,
     slub = \<lparr>caches = [], smem = (\<lambda>p. Some 0)(0x8008 \<mapsto> 0xD0000000, 0x800C \<mapsto> 0x100000)\<rparr>,
     kernel_mem_end = 0, kern_mem_early = True\<rparr>"

definition boot_vasa :: vasa where
  "boot_vasa = \<lparr>free_head = 0x8000, used_head = NULL, v_lock = 0, v_heap = boot_heap\<rparr>"

lemma boot_vasa_ok: "vasa_ok (vasa_nodes 0) boot_vasa {} [0xC0110000, 0xC0110014] [(0x8000, 0xD0000000, 0x100000)] []"
proof -
  have "vasa_nodes 0 boot_heap {} [0xC0110000, 0xC0110014]"
    by (auto simp: vasa_nodes_def early_nodes_def boot_heap_def early_avail_def early_inv_def early_room_def
        early_kmalloc_active_def less_Suc_eq)
  then show ?thesis
    by (simp add: vasa_ok_def boot_vasa_def vgood_def apart5_def node_cells_5)
      (simp add: boot_heap_def)
qed

theorem vasa_alloc_first_fit_witness:
  "\<exists>p s'. vasa_alloc (vasa_node_alloc (\<lambda>fl s. None) 0 (\<lambda>n k. None)) (\<lambda>p k. None) 0 0x2000 2 boot_vasa = Some (p, s') \<and> v_lock s' = 0
    \<and> (case first_fit 0x2000 (map snd [(0x8000 :: u32, 0xD0000000, 0x100000)]) of
         None \<Rightarrow> p = NULL \<and> s' = boot_vasa
       | Some (q, fs') \<Rightarrow> p = q \<and> (\<exists>xs' Fs' Us'. vasa_ok (vasa_nodes 0) s' {} xs' Fs' Us' \<and> map snd Fs' = fs'
            \<and> map snd Us' = insert_by_base (q, 0x2000) (map snd ([] :: (u32 \<times> u32 \<times> u32) list))))"
  by (rule vasa_alloc_first_fit[OF boot_vasa_ok]) (simp_all add: pad_of_def has_flag_def boot_vasa_def)

text \<open>vasa_mark of a region that is exactly the first free chunk does not take it off the free list:
  the head it overwrites is that of the used list. Afterwards both heads point at the chunk's node, the
  chunk is still the first free one, and the blocks that were in use are on no list any more.\<close>
lemma vasa_mark_exact_loses_used:
  assumes "vasa_ok (vasa_nodes cpu) s R xs ((nd, b, l) # Fs) Us" and "b < b + l"
    and "\<forall>(n', b', l')\<in>set Fs. b < b'"
  shows "\<exists>s'. vasa_mark na kf b l True flags s = Some (True, s') \<and> free_head s' = nd \<and> used_head s' = nd
    \<and> vseg (vmem s') nd ((nd, b, l) # Fs) NULL"
proof -
  have ok: "vasa_ok (vasa_nodes cpu) s R xs ([] @ (nd, b, l) # Fs) Us" using assms(1) by simp
  note P = vasa_src.vasa_ok_parts[OF ok]
  obtain q where q: "vmem s nd = Some q" "vseg (vmem s) q Fs NULL" and fh: "free_head s = nd" using P(1) by auto
  let ?A = "fst ` set (([] @ (nd, b, l) # Fs) @ Us)" and ?s1 = "set_head True q s"
  have nA: "nd \<in> ?A" and nc: "nd + 16 \<in> node_cells 5 nd" by (simp_all add: node_cells_5)
  have g: "vgood (vasa_nodes cpu) ?s1 R xs ?A" using P(5) by simp
  note w = vasa_src.good_vset[OF g nA nc, of flags]
  let ?s2 = "vs_upd (nd + 16) flags ?s1"
  have ns: "nd \<notin> fst ` set Fs" using P(7) by auto
  have "vseg (vmem ?s1) q Fs NULL" using q(2) by simp
  then have F: "vseg (vmem ?s2) (used_head ?s2) Fs NULL"
  proof -
    have "vseg (vmem ?s2) q Fs NULL"
      by (rule vseg_other[OF \<open>vseg (vmem ?s1) q Fs NULL\<close> P(6), of nd]) (use ns nc in auto)
    then show ?thesis by simp
  qed
  have ap: "apart5 (nd # map fst Fs)" by (rule apart5_subset[OF P(6)]) (use P(7) in auto)
  have e: "Fs = [] \<longrightarrow> vmem ?s2 nd = Some NULL" using q by auto
  have m: "vmem ?s2 (nd + 8) = Some b" "vmem ?s2 (nd + 12) = Some l" "vmem ?s2 (nd + 16) \<noteq> None" using P(3,4) by auto
  obtain s' where s': "vasa_add_node kf nd True ?s2 = Some s'" "free_head s' = free_head ?s2"
      "vseg (vmem s') (used_head s') (insert_chunk (nd, b, l) Fs) NULL"
    using vasa_src.add_used[OF w(2) ap _ e P(2) m F, where kf = kf] by auto
  have ins: "insert_chunk (nd, b, l) Fs = (nd, b, l) # Fs" using assms(3) by (cases Fs) auto
  have "vasa_mark na kf b l True flags s = Some (True, s')"
    unfolding vasa_mark_def fh using P(2-4) q(1) assms(2) w(1) s'(1)
    by (subst mark_loop.simps)
      (simp add: fh vn_base_def vn_length_def vn_next_def hget_def Let_def not_le)
  moreover have "used_head s' = nd" "vseg (vmem s') nd ((nd, b, l) # Fs) NULL" using s'(3) unfolding ins by auto
  ultimately show ?thesis using s'(2) fh by auto
qed

lemma vasa_mark_exact_loses_used_witness:
  "\<exists>s'. vasa_mark (\<lambda>h. None) (\<lambda>p h. None) 0xD0000000 0x100000 True 2 boot_vasa = Some (True, s')
    \<and> free_head s' = 0x8000 \<and> used_head s' = 0x8000
    \<and> vseg (vmem s') 0x8000 [(0x8000, 0xD0000000, 0x100000)] NULL"
  by (rule vasa_mark_exact_loses_used[OF boot_vasa_ok]) simp_all

text \<open>Stepping through a run that starts from memory that is mapped everywhere.\<close>
definition all_mapped :: "vasa \<Rightarrow> bool" where
  "all_mapped s \<longleftrightarrow> (\<forall>p. vmem s p \<noteq> None) \<and> kern_mem_early (v_heap s)"

definition early_at :: "u32 \<Rightarrow> vasa \<Rightarrow> bool" where
  "early_at p s \<longleftrightarrow> early (v_heap s) = \<lparr>early_memory_base = p, early_memory_end = 0xC0111000\<rparr>"

definition bump :: "u32 \<Rightarrow> vasa \<Rightarrow> vasa" where
  "bump p s = s\<lparr>v_heap := (v_heap s)\<lparr>early := \<lparr>early_memory_base = p, early_memory_end = 0xC0111000\<rparr>\<rparr>\<rparr>"

lemma bump_simps [simp]:
  "vmem (bump p s) = vmem s" "free_head (bump p s) = free_head s" "used_head (bump p s) = used_head s"
  "v_lock (bump p s) = v_lock s" "all_mapped (bump p s) = all_mapped s" "early_at q (bump p s) \<longleftrightarrow> q = p"
  by (auto simp: bump_def all_mapped_def early_at_def)

lemma all_mapped_simps [simp]:
  "all_mapped s \<Longrightarrow> all_mapped (vs_upd p v s)" "all_mapped (set_head u n s) = all_mapped s"
  "all_mapped (s\<lparr>v_lock := w\<rparr>) = all_mapped s"
  "early_at q (vs_upd p v s) = early_at q s" "early_at q (set_head u n s) = early_at q s"
  "early_at q (s\<lparr>v_lock := w\<rparr>) = early_at q s"
  by (auto simp: all_mapped_def early_at_def vs_upd_def hset_def)

lemma all_mapped_vset [simp]: "all_mapped s \<Longrightarrow> vset p v s = Some (vs_upd p v s)"
  by (intro vset_eq) (simp add: all_mapped_def)

lemma new_bump:
  assumes "all_mapped s" and "early_at p s" and "p \<in> {0xC0110000, 0xC0110014, 0xC0110028}"
  shows "vasa_new (vasa_node_alloc mm cpu lg) s = Some (p, bump (p + 20) s)"
  using assms by (auto simp: all_mapped_def early_at_def vasa_new_def bump_def vasa_node_alloc_def kmalloc_def lift_early_def
      early_kmalloc_def early_kmalloc_active_def)

lemma boot_mapped: "all_mapped boot_vasa" "early_at 0xC0110000 boot_vasa" "v_lock boot_vasa = 0"
  by (simp_all add: all_mapped_def early_at_def boot_vasa_def boot_heap_def)

text \<open>An aligned allocation hands out address space that stays free: after vasa_init at an unaligned
  start b, vasa_alloc with an alignment flag returns the aligned address ptr > b, but the free chunk that
  remains starts at b + n and not at ptr + n, so it overlaps the block that was handed out.\<close>
lemma vasa_alloc_padding_overlaps:
  assumes ptr_def: "ptr = apply_pad b (pad_of flags)" and waste_def: "waste = ptr - b" and "n \<noteq> 0" and "pad_of flags > 0" and "ptr > b" and "waste < pad_of flags" and "n \<noteq> waste"
    and "unat n + unat (pad_of flags) \<le> unat l" and "unat b + unat l < 4294967296"
  shows "\<exists>s1 s2 w x nd. vasa_init (vasa_node_alloc mm cpu lg) b l boot_vasa = Some s1
    \<and> vasa_alloc (vasa_node_alloc mm cpu lg) kf ty n flags s1 = Some (ptr, s2)
    \<and> vseg (vmem s2) (used_head s2) [(x, ptr, n)] NULL
    \<and> vseg (vmem s2) (free_head s2) [(w, b, waste), (nd, b + n, l - waste - n)] NULL
    \<and> unat (b + n) < unat ptr + unat n"
proof -
  let ?na = "vasa_node_alloc mm cpu lg"
  let ?nd = "0xC0110000 :: u32" and ?w = "0xC0110014 :: u32" and ?x = "0xC0110028 :: u32"
  define s1 where "s1 = set_head True NULL (set_head False ?nd
    (vs_upd (?nd + 12) l (vs_upd (?nd + 8) b (vs_upd ?nd NULL (bump ?w boot_vasa)))))"
  have b0: "vasa_new ?na boot_vasa = Some (?nd, bump ?w boot_vasa)"
    using new_bump[OF boot_mapped(1,2), of mm cpu lg] by simp
  have i: "vasa_init ?na b l boot_vasa = Some s1"
    using b0 boot_mapped by (simp add: vasa_init_def s1_def set_head_def)
  have m1: "all_mapped s1" "early_at ?w s1" "v_lock s1 = 0" "free_head s1 = ?nd" using boot_mapped by (simp_all add: s1_def)
  define t1 where "t1 = s1\<lparr>v_lock := 1\<rparr>"
  have t1: "all_mapped t1" "early_at ?w t1" "free_head t1 = ?nd" "used_head t1 = NULL" "vmem t1 ?nd = Some NULL"
    "vmem t1 (?nd + 8) = Some b" "vmem t1 (?nd + 12) = Some l"
    using m1 by (simp_all add: t1_def) (simp_all add: s1_def)
  have b1: "vasa_new ?na t1 = Some (?w, bump ?x t1)" using new_bump[OF t1(1,2), of mm cpu lg] by simp
  have w0: "waste > 0" using assms(5) by (auto simp: waste_def word_greater_zero_iff)
  define t2 where "t2 = vs_upd (?nd + 12) (l - waste) (vs_upd (?nd + 8) b (vs_upd (?w + 16) flags (vs_upd (?w + 12) waste
     (vs_upd (?w + 8) b (vs_upd (?w + 4) ty (vs_upd ?w ?nd (bump ?x t1)))))))"
  have pad: "alloc_pad ?na ty (pad_of flags) flags ?nd t1 = Some (ptr, ?w, t2)"
    using b1 t1(1,6,7) assms(4) w0
    by (simp add: alloc_pad_def Let_def vn_base_def vn_length_def hget_def vset_chunk_def t2_def
        ptr_def[symmetric] waste_def[symmetric])
  have t2: "all_mapped t2" "early_at ?x t2" "free_head t2 = ?nd" "used_head t2 = NULL" "vmem t2 ?nd = Some NULL"
    "vmem t2 (?nd + 8) = Some b" "vmem t2 (?nd + 12) = Some (l - waste)" "vmem t2 (?w + 8) = Some b" "vmem t2 (?w + 12) = Some waste"
    using t1 by (simp_all add: t2_def)
  have b2: "vasa_new ?na (vs_upd (?nd + 8) (b + n) (vs_upd (?nd + 12) (l - waste - n) t2)) = Some (?x,
      bump 0xC011003C (vs_upd (?nd + 8) (b + n) (vs_upd (?nd + 12) (l - waste - n) t2)))"
    using new_bump[of "vs_upd (?nd + 8) (b + n) (vs_upd (?nd + 12) (l - waste - n) t2)" ?x mm cpu lg] t2 by simp
  define t3 where "t3 = set_head True ?x (vs_upd (?x + 16) flags (vs_upd (?x + 12) n (vs_upd (?x + 8) ptr (vs_upd (?x + 4) ty
     (vs_upd ?x NULL (bump 0xC011003C (vs_upd (?nd + 8) (b + n) (vs_upd (?nd + 12) (l - waste - n) t2))))))))"
  define t4 where "t4 = set_head False ?w (vs_upd ?w ?nd (vs_upd (?w + 16) 0 t3))"
  have wl: "unat waste < unat (pad_of flags)" using assms(6) by (simp add: word_less_nat_alt)
  then have lw: "unat (l - waste) = unat l - unat waste" using assms(8) by (intro unat_diff_le) simp
  then have gt: "l - waste > n" using wl assms(8) by (simp add: word_less_nat_alt)
  have bn: "unat (b + n) = unat b + unat n" using assms(8,9) by (intro unat_plus_nowrap) simp
  have t3: "all_mapped t3" "free_head t3 = ?nd" "used_head t3 = ?x" "vmem t3 ?nd = Some NULL" "vmem t3 (?nd + 8) = Some (b + n)"
      "vmem t3 (?nd + 12) = Some (l - waste - n)" "vmem t3 (?w + 8) = Some b" "vmem t3 (?w + 12) = Some waste" "vmem t3 ?x = Some NULL"
      "vmem t3 (?x + 8) = Some ptr" "vmem t3 (?x + 12) = Some n"
    using t2 by (simp_all add: t3_def)
  have n0: "unat n > 0" using assms(3) by (simp add: unat_gt_0)
  have addw: "vasa_add_node kf ?w False t3 = Some t4"
    using t3 assms(7) bn n0 unfolding vasa_add_node_def t4_def
    by (simp, subst add_node_loop.simps)
      (simp add: vasa_congruent_def vn_base_def vn_length_def hget_def word_less_nat_alt)
  have "alloc_cut ?na kf ty n flags ptr ?w NULL ?nd t2 = Some t4"
    using t2 gt b2 addw unfolding t3_def
    by (simp add: alloc_cut_def vn_base_def vn_length_def hget_def vset_chunk_def vasa_add_node_def[of kf ?x] add_node_loop.simps[of kf ?x True NULL NULL])
  moreover have "l \<ge> n + pad_of flags" using assms(8) by (simp add: word_le_nat_alt unat_add_below[of _ _ l])
  ultimately have run: "vasa_alloc ?na kf ty n flags s1 = Some (ptr, t4\<lparr>v_lock := 0\<rparr>)"
    using assms(3) m1(3,4) pad t1(3,7) unfolding vasa_alloc_def
    by (simp add: spin_lock_def t1_def[symmetric], subst alloc_find.simps) (simp add: vn_length_def hget_def spin_unlock_def)
  have "vseg (vmem t4) ?w [(?w, b, waste), (?nd, b + n, l - waste - n)] NULL" "vseg (vmem t4) ?x [(?x, ptr, n)] NULL"
    using t3 by (auto simp: t4_def all_mapped_def)
  moreover have "free_head t4 = ?w" "used_head t4 = ?x" using t3 by (simp_all add: t4_def)
  moreover have "unat (b + n) < unat ptr + unat n" using bn assms(5) by (simp add: word_less_nat_alt)
  ultimately show ?thesis using i run by (intro exI[of _ s1] exI[of _ "t4\<lparr>v_lock := 0\<rparr>"] exI[of _ ?w] exI[of _ ?x] exI[of _ ?nd]) simp
qed

lemma vasa_alloc_padding_overlaps_witness:
  "\<exists>s1 s2 w x nd. vasa_init (vasa_node_alloc (\<lambda>fl s. None) 0 (\<lambda>n k. None)) 0xD0000800 0x100000 boot_vasa = Some s1
    \<and> vasa_alloc (vasa_node_alloc (\<lambda>fl s. None) 0 (\<lambda>n k. None)) (\<lambda>p k. None) 0 0x2000 34 s1 = Some (0xD0001000, s2)
    \<and> vseg (vmem s2) (used_head s2) [(x, 0xD0001000, 0x2000)] NULL
    \<and> vseg (vmem s2) (free_head s2) [(w, 0xD0000800, 0x800), (nd, 0xD0000800 + 0x2000, 0x100000 - 0x800 - 0x2000)] NULL
    \<and> unat (0xD0000800 + 0x2000 :: u32) < unat (0xD0001000 :: u32) + unat (0x2000 :: u32)"
  by (rule vasa_alloc_padding_overlaps) (simp_all add: apply_pad_def pad_of_def has_flag_def)

end
