(* ===== verification/Paging.thy ===== *)
theory Paging
  imports Spinlock
begin

text \<open>
  \<open>src/src/arch/i386/mem/paging.c\<close>: the page tables of the i386, seen through the MMU. Physical memory
  is a map from addresses to words; \<open>mmu\<close> walks the tables in it as the processor does (without PAE,
  without a TLB), and the code reaches the tables themselves only through the window at 0xFFC00000 that
  the last directory entry gives. An access the MMU refuses is undefined. The state is a record that the
  frame allocator's state extends; \<open>frame_alloc\<close> and \<open>frame_dealloc\<close> are arguments.
\<close>

record paging =
  page_lock :: u32
  cr3 :: u32
  pmem :: "u32 \<Rightarrow> u32"

text \<open>\<open>page_entry_t\<close>: the compiler lays the fields out from bit 0, so \<open>address\<close> is the low 20 bits and
  \<open>flags\<close> the high 9.\<close>
definition pe_address :: "u32 \<Rightarrow> u32" where "pe_address e = e AND 0xFFFFF"
definition pe_flags :: "u32 \<Rightarrow> u32" where "pe_flags e = drop_bit 23 e"

definition va_dir :: "u32 \<Rightarrow> u32" where "va_dir virt = drop_bit 22 virt"
definition va_tab :: "u32 \<Rightarrow> u32" where "va_tab virt = drop_bit 12 virt AND 0x3FF"

definition frame_of :: "u32 \<Rightarrow> u32" where "frame_of e = e AND NOT 0xFFF"

definition mmu :: "'a paging_scheme \<Rightarrow> u32 \<Rightarrow> u32 option" where
  "mmu s virt =
     (let pde = pmem s (cr3 s + 4 * va_dir virt) in
      if pde AND 1 = 0 then None
      else if pde AND 128 \<noteq> 0 then Some ((pde AND 0xFFC00000) + (virt AND 0x3FFFFF))
      else let pte = pmem s (frame_of pde + 4 * va_tab virt) in
        if pte AND 1 = 0 then None else Some (frame_of pte + (virt AND 0xFFF)))"

definition vload :: "u32 \<Rightarrow> 'a paging_scheme \<Rightarrow> u32 option" where
  "vload virt s = do { p \<leftarrow> mmu s virt; Some (pmem s p) }"

definition vstore :: "u32 \<Rightarrow> u32 \<Rightarrow> 'a paging_scheme \<Rightarrow> 'a paging_scheme option" where
  "vstore virt v s = do { p \<leftarrow> mmu s virt; Some (s\<lparr>pmem := (pmem s)(p := v)\<rparr>) }"

text \<open>\<open>&page_directory_table->tables[dir]\<close> and \<open>&(page_table_base + dir)->entries[tab]\<close>.\<close>
definition dir_slot :: "u32 \<Rightarrow> u32" where "dir_slot dir = 0xFFFFF000 + 4 * dir"
definition tab_slot :: "u32 \<Rightarrow> u32 \<Rightarrow> u32" where "tab_slot dir tab = 0xFFC00000 + dir * 0x1000 + 4 * tab"

definition unlock :: "'a paging_scheme \<Rightarrow> 'a paging_scheme" where
  "unlock s = s\<lparr>page_lock := spin_unlock (page_lock s)\<rparr>"

text \<open>\<open>PAGE_PRESENT\<close> is bit 0, \<open>PAGE_RW\<close> bit 1, \<open>PAGE_PSE\<close> bit 7.\<close>
definition paging_map ::
  "(u32 \<Rightarrow> 'a paging_scheme \<Rightarrow> (u32 \<times> 'a paging_scheme) option) \<Rightarrow> u32 \<Rightarrow> u32 \<Rightarrow> u16 \<Rightarrow> 'a paging_scheme
   \<Rightarrow> (bool \<times> 'a paging_scheme) option" where
  "paging_map frame_alloc physical0 virt flags s0 = do {
     let physical = physical0 AND NOT 0xFFF;
     let dir_ent = va_dir virt;
     let tab_ent = va_tab virt;
     l \<leftarrow> spin_lock (page_lock s0);
     let s = s0\<lparr>page_lock := l\<rparr>;
     pde \<leftarrow> vload (dir_slot dir_ent) s;
     s1 \<leftarrow> (if pde AND 1 = 0 then do {
              (new_table, s1) \<leftarrow> frame_alloc 1 s;
              vstore (dir_slot dir_ent) (new_table OR 3) s1 }
            else Some s);
     pde1 \<leftarrow> vload (dir_slot dir_ent) s1;
     if pde1 AND 128 \<noteq> 0 then Some (False, unlock s1)
     else do {
       ent \<leftarrow> vload (tab_slot dir_ent tab_ent) s1;
       if pe_flags ent AND 1 \<noteq> 0 then
         (if pe_address ent = physical \<and> pe_flags ent = ucast flags then Some (True, unlock s1)
          else Some (False, unlock s1))
       else do {
         s2 \<leftarrow> vstore (tab_slot dir_ent tab_ent) ((physical AND NOT 0xFFF) OR ucast flags) s1;
         Some (True, unlock s2) } } }"

fun count_entries :: "u32 \<Rightarrow> nat \<Rightarrow> nat \<Rightarrow> u32 \<Rightarrow> 'a paging_scheme \<Rightarrow> u32 option" where
  "count_entries dir_ent i 0 page_count s = Some page_count"
| "count_entries dir_ent i (Suc n) page_count s = do {
     e \<leftarrow> vload (tab_slot dir_ent (of_nat i)) s;
     count_entries dir_ent (Suc i) n
       (if pe_flags e \<noteq> 0 \<and> pe_address e \<noteq> 0 then page_count + 1 else page_count) s }"

definition paging_unmap ::
  "(u32 \<Rightarrow> u32 \<Rightarrow> 'a paging_scheme \<Rightarrow> 'a paging_scheme option) \<Rightarrow> u32 \<Rightarrow> 'a paging_scheme
   \<Rightarrow> (bool \<times> 'a paging_scheme) option" where
  "paging_unmap frame_dealloc virt s0 = do {
     let dir_ent = va_dir virt;
     let tab_ent = va_tab virt;
     l \<leftarrow> spin_lock (page_lock s0);
     let s = s0\<lparr>page_lock := l\<rparr>;
     pde \<leftarrow> vload (dir_slot dir_ent) s;
     if pde AND 1 = 0 then Some (False, unlock s)
     else do {
       e \<leftarrow> vload (tab_slot dir_ent tab_ent) s;
       s1 \<leftarrow> vstore (tab_slot dir_ent tab_ent) (e AND NOT 0xFFFFF) s;
       e1 \<leftarrow> vload (tab_slot dir_ent tab_ent) s1;
       s2 \<leftarrow> (if pe_flags e1 AND 1 \<noteq> 0 then vstore (tab_slot dir_ent tab_ent) (e1 AND NOT 0x800000) s1
             else Some s1);
       page_count \<leftarrow> count_entries dir_ent 0 1024 0 s2;
       s3 \<leftarrow> (if page_count = 0 then do {
                pde1 \<leftarrow> vload (dir_slot dir_ent) s2;
                s3 \<leftarrow> frame_dealloc (pde1 AND NOT 0xFFF) 1 s2;
                vstore (dir_slot dir_ent) 0 s3 }
              else Some s2);
       Some (True, unlock s3) } }"

definition paging_find_physical :: "u32 \<Rightarrow> 'a paging_scheme \<Rightarrow> u32 option" where
  "paging_find_physical virt s = do {
     addr \<leftarrow> vload (tab_slot (va_dir virt) (va_tab virt)) s;
     Some (addr AND NOT 0xFFF) }"

text \<open>The instruction moves \<open>cr3\<close> to \<open>eax\<close>, not the other way: nothing is loaded.\<close>
definition paging_load_directory :: "u32 \<Rightarrow> 'a paging_scheme \<Rightarrow> 'a paging_scheme option" where
  "paging_load_directory dir s = do { phys \<leftarrow> paging_find_physical dir s; Some s }"

text \<open>The copy of one table, and of the directory entries from \<open>dir_ent\<close> on; \<open>memmap\<close> gives a page.\<close>
fun copy_table :: "u32 \<Rightarrow> u32 \<Rightarrow> nat \<Rightarrow> nat \<Rightarrow> 'a paging_scheme \<Rightarrow> 'a paging_scheme option" where
  "copy_table dst_table dir_ent i 0 s = Some s"
| "copy_table dst_table dir_ent i (Suc n) s = do {
     e \<leftarrow> vload (tab_slot dir_ent (of_nat i)) s;
     s1 \<leftarrow> vstore (dst_table + 4 * of_nat i) e s;
     copy_table dst_table dir_ent (Suc i) n s1 }"

fun copy_tables :: "('a paging_scheme \<Rightarrow> (u32 \<times> 'a paging_scheme) option) \<Rightarrow> u32 \<Rightarrow> u32 \<Rightarrow> nat \<Rightarrow> nat
    \<Rightarrow> 'a paging_scheme \<Rightarrow> 'a paging_scheme option" where
  "copy_tables memmap phys virt d 0 s = Some s"
| "copy_tables memmap phys virt d (Suc n) s = do {
     let dir_ent = of_nat d;
     pde \<leftarrow> vload (dir_slot dir_ent) s;
     s3 \<leftarrow> (if pde AND 1 \<noteq> 0 then do {
              (dst_table, s1) \<leftarrow> memmap s;
              dst_table_phys \<leftarrow> paging_find_physical dst_table s1;
              src1 \<leftarrow> vload (dir_slot dir_ent) s1;
              s2 \<leftarrow> vstore (virt + 4 * dir_ent) (dst_table OR (src1 AND 0xFFF)) s1;
              src2 \<leftarrow> vload (dir_slot dir_ent) s2;
              s3 \<leftarrow> vstore (phys + 4 * dir_ent) (dst_table_phys OR (src2 AND 0xFFF)) s2;
              copy_table dst_table dir_ent 0 1024 s3 }
           else do {
              s1 \<leftarrow> vstore (virt + 4 * dir_ent) (pde AND 0xFFF) s;
              src1 \<leftarrow> vload (dir_slot dir_ent) s1;
              vstore (phys + 4 * dir_ent) (src1 AND 0xFFF) s1 });
     copy_tables memmap phys virt (Suc d) n s3 }"

text \<open>The result is \<open>*_phys\<close> and \<open>*_virt\<close> where they are set.\<close>
definition page_directory_copy :: "('a paging_scheme \<Rightarrow> (u32 \<times> 'a paging_scheme) option) \<Rightarrow> 'a paging_scheme
    \<Rightarrow> ((u32 \<times> u32) option \<times> 'a paging_scheme) option" where
  "page_directory_copy memmap s = do {
     (phys, s1) \<leftarrow> memmap s;
     (virt, s2) \<leftarrow> memmap s1;
     if phys = NULL \<or> virt = NULL then Some (None, s2)
     else do {
       s3 \<leftarrow> copy_tables memmap phys virt 0 1023 s2;
       Some (Some (phys, virt), s3) } }"

subsection \<open>The window to the tables\<close>

lemma unat_and_1023: "unat ((c :: u32) AND 0x3FF) = unat c mod 1024"
proof -
  have "c AND 0x3FF = take_bit 10 c" by (simp add: take_bit_eq_mask mask_eq_exp_minus_1)
  then show ?thesis by (simp add: take_bit_eq_mod unat_mod)
qed

lemma va_dir_less: "unat (va_dir v) < 1024"
proof -
  have "unat v < 4294967296" by (rule unat_lt_2p32)
  then show ?thesis unfolding va_dir_def unat_drop_bit by (simp add: less_mult_imp_div_less)
qed

lemma va_tab_less: "unat (va_tab v) < 1024"
  unfolding va_tab_def unat_and_1023 by simp

lemma page_parts: "x = 4096 * k + n \<Longrightarrow> n < (4096 :: nat) \<Longrightarrow> x div 4096 = k \<and> x mod 4096 = n"
  by simp

lemma va_parts:
  assumes u: "unat v = 4096 * (1024 * d + t) + n" and t: "t < 1024" and n: "n < 4096"
  shows "unat (va_dir v) = d" and "unat (va_tab v) = t" and "unat (v AND 0xFFF) = n"
proof -
  from page_parts[OF u n] have q: "unat v div 4096 = 1024 * d + t" and m: "unat v mod 4096 = n" by auto
  have "unat v div 4194304 = unat v div 4096 div 1024" by (simp add: div_mult2_eq [symmetric])
  then show "unat (va_dir v) = d" unfolding va_dir_def unat_drop_bit using q t by simp
  show "unat (va_tab v) = t" unfolding va_tab_def unat_and_1023 unat_drop_bit using q t by simp
  show "unat (v AND 0xFFF) = n" using m by (simp add: unat_and_4095)
qed

lemma tab_slot_parts:
  assumes "unat d < 1024" and "unat t < 1024"
  shows "va_dir (tab_slot d t) = 1023" "va_tab (tab_slot d t) = d" "tab_slot d t AND 0xFFF = 4 * t"
proof -
  have t4: "unat (4 * t) = 4 * unat t" using unat_times_nowrap[of 4 t] assms by simp
  have d4: "unat (d * 0x1000) = unat d * 4096" using unat_times_nowrap[of d "0x1000"] assms by simp
  have "unat (0xFFC00000 + d * 0x1000) = 0xFFC00000 + unat d * 4096"
    using unat_plus_nowrap[of "0xFFC00000" "d * 0x1000"] d4 assms by simp
  then have "unat (tab_slot d t) = 4096 * (1024 * 1023 + unat d) + 4 * unat t"
    unfolding tab_slot_def using unat_plus_nowrap[of "0xFFC00000 + d * 0x1000" "4 * t"] t4 assms by simp
  from va_parts[OF this] assms t4
  show "va_dir (tab_slot d t) = 1023" "va_tab (tab_slot d t) = d" "tab_slot d t AND 0xFFF = 4 * t"
    by (auto simp: word_unat_eq_iff)
qed

lemma dir_slot_tab: "dir_slot d = tab_slot 1023 d"
  by (simp add: dir_slot_def tab_slot_def)

text \<open>The last directory entry maps the directory itself.\<close>
definition self_mapped :: "'a paging_scheme \<Rightarrow> bool" where
  "self_mapped s \<longleftrightarrow> (let e = pmem s (cr3 s + 4 * 1023) in frame_of e = cr3 s \<and> e AND 1 \<noteq> 0 \<and> e AND 128 = 0)"

lemma mmu_dir_slot: "self_mapped s \<Longrightarrow> unat d < 1024 \<Longrightarrow> mmu s (dir_slot d) = Some (cr3 s + 4 * d)"
  by (simp add: dir_slot_tab mmu_def tab_slot_parts self_mapped_def Let_def)

lemma mmu_tab_slot:
  assumes "self_mapped s" and "unat d < 1024" and "unat t < 1024" and "pmem s (cr3 s + 4 * d) AND 1 \<noteq> 0"
  shows "mmu s (tab_slot d t) = Some (frame_of (pmem s (cr3 s + 4 * d)) + 4 * t)"
  using assms by (simp add: mmu_def tab_slot_parts self_mapped_def Let_def)

subsection \<open>Entries of different tables lie apart\<close>

lemma frame_of_neg: "frame_of e = e AND - 4096"
  by (simp add: frame_of_def)

lemma frame_of_low: "frame_of e AND 0xFFF = 0"
  by (simp add: frame_of_def and.assoc)

lemma plus_low:
  assumes "p AND 0xFFF = 0" and "(c :: u32) < 4096"
  shows "(p + c) AND - 4096 = p" and "(p + c) AND 0xFFF = c"
proof -
  have "p AND c = p AND (0xFFF AND c)" using and_4095_small[OF assms(2)] by (simp add: and.commute)
  also have "\<dots> = 0" using assms(1) by (simp add: and.assoc [symmetric])
  finally have "p + c = c OR p" using disjunctive_add_eq_or[of p c] by (simp add: or.commute)
  then show "(p + c) AND - 4096 = p" and "(p + c) AND 0xFFF = c"
    using or_page_high[OF assms(2,1)] or_page_low[OF assms(2,1)] by simp_all
qed

lemma four_less: "unat (t :: u32) < 1024 \<Longrightarrow> 4 * t < (4096 :: u32)"
  using unat_times_nowrap[of 4 t] by (simp add: word_less_nat_alt)

lemma four_eq: "unat (t :: u32) < 1024 \<Longrightarrow> unat (u :: u32) < 1024 \<Longrightarrow> 4 * t = 4 * u \<longleftrightarrow> t = u"
  using unat_times_nowrap[of 4 t] unat_times_nowrap[of 4 u] by (auto simp: word_unat_eq_iff)

lemma slot_eq_iff:
  assumes "(p :: u32) AND 0xFFF = 0" and "(q :: u32) AND 0xFFF = 0" and "unat t < 1024" and "unat u < 1024"
  shows "p + 4 * t = q + 4 * u \<longleftrightarrow> p = q \<and> t = u"
proof
  assume e: "p + 4 * t = q + 4 * u"
  have "p = q" using plus_low(1)[OF assms(1) four_less[OF assms(3)]]
      plus_low(1)[OF assms(2) four_less[OF assms(4)]] e by simp
  moreover have "4 * t = 4 * u" using plus_low(2)[OF assms(1) four_less[OF assms(3)]]
      plus_low(2)[OF assms(2) four_less[OF assms(4)]] e by simp
  ultimately show "p = q \<and> t = u" using four_eq[OF assms(3,4)] by simp
qed simp

text \<open>A directory as the boot code leaves it: it maps itself, and no table serves two entries.\<close>
definition pde :: "'a paging_scheme \<Rightarrow> u32 \<Rightarrow> u32" where "pde s d = pmem s (cr3 s + 4 * d)"

definition has_table :: "'a paging_scheme \<Rightarrow> u32 \<Rightarrow> bool" where
  "has_table s d \<longleftrightarrow> unat d < 1024 \<and> pde s d AND 1 \<noteq> 0 \<and> pde s d AND 128 = 0"

definition tables_ok :: "'a paging_scheme \<Rightarrow> bool" where
  "tables_ok s \<longleftrightarrow> cr3 s AND 0xFFF = 0 \<and> self_mapped s \<and>
     (\<forall>d e. has_table s d \<longrightarrow> has_table s e \<longrightarrow> frame_of (pde s d) = frame_of (pde s e) \<longrightarrow> d = e)"

lemma tables_ok_self: "tables_ok s \<Longrightarrow> self_mapped s"
  and tables_ok_cr3: "tables_ok s \<Longrightarrow> cr3 s AND 0xFFF = 0"
  and tables_ok_inj: "tables_ok s \<Longrightarrow> has_table s d \<Longrightarrow> has_table s e \<Longrightarrow>
    frame_of (pde s d) = frame_of (pde s e) \<Longrightarrow> d = e"
  unfolding tables_ok_def by blast+

lemma self_mapped_pde:
  "self_mapped s \<longleftrightarrow> frame_of (pde s 1023) = cr3 s \<and> pde s 1023 AND 1 \<noteq> 0 \<and> pde s 1023 AND 128 = 0"
  by (simp add: self_mapped_def pde_def Let_def)

lemma self_table: "self_mapped s \<Longrightarrow> has_table s 1023 \<and> frame_of (pde s 1023) = cr3 s"
  by (simp add: self_mapped_def has_table_def pde_def Let_def)

lemma table_not_directory:
  "tables_ok s \<Longrightarrow> has_table s d \<Longrightarrow> d \<noteq> 1023 \<Longrightarrow> frame_of (pde s d) \<noteq> cr3 s"
  using self_table[of s] unfolding tables_ok_def by metis

lemma mmu_pde: "mmu s v =
     (if pde s (va_dir v) AND 1 = 0 then None
      else if pde s (va_dir v) AND 128 \<noteq> 0 then Some ((pde s (va_dir v) AND 0xFFC00000) + (v AND 0x3FFFFF))
      else let pte = pmem s (frame_of (pde s (va_dir v)) + 4 * va_tab v) in
        if pte AND 1 = 0 then None else Some (frame_of pte + (v AND 0xFFF)))"
  by (simp add: mmu_def pde_def Let_def)

text \<open>A store to the entry of a table changes neither the directory nor the translation of another page.\<close>
lemma entry_store:
  assumes ok: "tables_ok s" and d: "has_table s (va_dir v)" "va_dir v \<noteq> 1023"
    and s': "pmem s' = (pmem s)(frame_of (pde s (va_dir v)) + 4 * va_tab v := x)" "cr3 s' = cr3 s"
  shows "pde s' e = pde s e \<or> \<not> unat e < 1024"
    and "mmu s' w = (if va_dir w = va_dir v \<and> va_tab w = va_tab v
           then if x AND 1 = 0 then None else Some (frame_of x + (w AND 0xFFF)) else mmu s w)"
proof -
  let ?f = "frame_of (pde s (va_dir v))"
  have c: "cr3 s AND 0xFFF = 0" using ok by (simp add: tables_ok_def)
  have nc: "?f \<noteq> cr3 s" by (rule table_not_directory[OF ok d])
  have P: "pde s' e = pde s e" if "unat e < 1024" for e
    using slot_eq_iff[OF c frame_of_low that va_tab_less] nc by (simp add: pde_def s')
  then show "pde s' e = pde s e \<or> \<not> unat e < 1024" by blast
  have Pw: "pde s' (va_dir w) = pde s (va_dir w)" by (rule P[OF va_dir_less])
  have rd: "pmem s' (frame_of (pde s (va_dir w)) + 4 * va_tab w) =
      (if va_dir w = va_dir v \<and> va_tab w = va_tab v then x
       else pmem s (frame_of (pde s (va_dir w)) + 4 * va_tab w))" if "has_table s (va_dir w)"
  proof -
    have "frame_of (pde s (va_dir w)) = ?f \<longleftrightarrow> va_dir w = va_dir v"
      using ok d that unfolding tables_ok_def by metis
    then show ?thesis
      using slot_eq_iff[OF frame_of_low frame_of_low va_tab_less va_tab_less, of "pde s (va_dir w)" w "pde s (va_dir v)" v]
      by (simp add: s')
  qed
  show "mmu s' w = (if va_dir w = va_dir v \<and> va_tab w = va_tab v
           then if x AND 1 = 0 then None else Some (frame_of x + (w AND 0xFFF)) else mmu s w)"
  proof (cases "has_table s (va_dir w)")
    case True
    then show ?thesis unfolding mmu_pde[of s'] mmu_pde[of s] Pw rd[OF True]
      by (cases "va_dir w = va_dir v"; cases "va_tab w = va_tab v") (simp_all add: has_table_def Let_def)
  next
    case False
    then have ne: "va_dir w \<noteq> va_dir v" using d by auto
    consider "pde s (va_dir w) AND 1 = 0" | "pde s (va_dir w) AND 1 \<noteq> 0" "pde s (va_dir w) AND 128 \<noteq> 0"
      using False va_dir_less[of w] unfolding has_table_def by blast
    then show ?thesis
      by cases (simp_all only: mmu_pde[of s'] mmu_pde[of s] Pw ne simp_thms if_True if_False)
  qed
qed

lemma tables_ok_cong:
  assumes "tables_ok s" and "cr3 s' = cr3 s" and "\<And>e. unat e < 1024 \<Longrightarrow> pde s' e = pde s e"
  shows "tables_ok s'"
proof -
  have h: "has_table s' d \<longleftrightarrow> has_table s d" for d using assms(3) by (auto simp: has_table_def)
  have p: "pde s' d = pde s d" if "has_table s d" for d
    using that assms(3) by (simp add: has_table_def)
  have q: "pde s' 1023 = pde s 1023" by (rule assms(3)) simp
  have "self_mapped s'"
    using tables_ok_self[OF assms(1)] unfolding self_mapped_pde q assms(2) .
  moreover have "d = e" if "has_table s' d" "has_table s' e" "frame_of (pde s' d) = frame_of (pde s' e)" for d e
    using tables_ok_inj[OF assms(1), of d e] that unfolding h by (simp add: p)
  ultimately show ?thesis using tables_ok_cr3[OF assms(1)] unfolding tables_ok_def assms(2) by blast
qed

subsection \<open>paging_map\<close>

lemma vload_dir: "tables_ok s \<Longrightarrow> unat d < 1024 \<Longrightarrow> vload (dir_slot d) s = Some (pde s d)"
  by (simp add: vload_def mmu_dir_slot tables_ok_self pde_def)

lemma vload_tab:
  "tables_ok s \<Longrightarrow> has_table s d \<Longrightarrow> unat t < 1024 \<Longrightarrow>
     vload (tab_slot d t) s = Some (pmem s (frame_of (pde s d) + 4 * t))"
  by (simp add: vload_def mmu_tab_slot tables_ok_self has_table_def pde_def)

lemma vstore_tab:
  "tables_ok s \<Longrightarrow> has_table s d \<Longrightarrow> unat t < 1024 \<Longrightarrow>
     vstore (tab_slot d t) x s = Some (s\<lparr>pmem := (pmem s)(frame_of (pde s d) + 4 * t := x)\<rparr>)"
  by (simp add: vstore_def mmu_tab_slot tables_ok_self has_table_def pde_def)

text \<open>The lock is in no page the code maps.\<close>
lemma lock_irrelevant [simp]:
  "pde (s\<lparr>page_lock := l\<rparr>) d = pde s d" "has_table (s\<lparr>page_lock := l\<rparr>) d = has_table s d"
  "tables_ok (s\<lparr>page_lock := l\<rparr>) = tables_ok s" "mmu (s\<lparr>page_lock := l\<rparr>) v = mmu s v"
proof -
  show p: "pde (s\<lparr>page_lock := l\<rparr>) d = pde s d" for d by (simp add: pde_def)
  show h: "has_table (s\<lparr>page_lock := l\<rparr>) d = has_table s d" for d by (simp add: p has_table_def)
  show "tables_ok (s\<lparr>page_lock := l\<rparr>) = tables_ok s"
  proof -
    have "cr3 (s\<lparr>page_lock := l\<rparr>) = cr3 s" by simp
    then show ?thesis by (simp only: tables_ok_def self_mapped_pde p h)
  qed
  show "mmu (s\<lparr>page_lock := l\<rparr>) v = mmu s v" by (simp add: mmu_def Let_def)
qed

lemma unlock_simps [simp]:
  "mmu (unlock s) v = mmu s v" "tables_ok (unlock s) = tables_ok s" "page_lock (unlock s) = 0"
  "pmem (unlock s) = pmem s" "cr3 (unlock s) = cr3 s" "pde (unlock s) d = pde s d" "has_table (unlock s) d = has_table s d"
  by (simp_all add: unlock_def spin_unlock_def)

definition entry :: "'a paging_scheme \<Rightarrow> u32 \<Rightarrow> u32" where
  "entry s v = pmem s (frame_of (pde s (va_dir v)) + 4 * va_tab v)"

text \<open>Writing the entry of a page.\<close>
definition set_entry :: "'a paging_scheme \<Rightarrow> u32 \<Rightarrow> u32 \<Rightarrow> 'a paging_scheme" where
  "set_entry s v x = s\<lparr>pmem := (pmem s)(frame_of (pde s (va_dir v)) + 4 * va_tab v := x)\<rparr>"

definition same_page :: "u32 \<Rightarrow> u32 \<Rightarrow> bool" where
  "same_page v w \<longleftrightarrow> va_dir w = va_dir v \<and> va_tab w = va_tab v"

text \<open>The page of \<open>v\<close> can be mapped: its table exists and is not the directory.\<close>
definition mappable :: "'a paging_scheme \<Rightarrow> u32 \<Rightarrow> bool" where
  "mappable s v \<longleftrightarrow> tables_ok s \<and> has_table s (va_dir v) \<and> va_dir v \<noteq> 1023"

lemma set_entry_fields [simp]: "cr3 (set_entry s v x) = cr3 s" "page_lock (set_entry s v x) = page_lock s"
  by (simp_all add: set_entry_def)

lemma set_entry_pde: "mappable s v \<Longrightarrow> unat d < 1024 \<Longrightarrow> pde (set_entry s v x) d = pde s d"
  using entry_store(1)[of s v "set_entry s v x" x d] by (auto simp: mappable_def set_entry_def)

lemma set_entry_mmu:
  "mappable s v \<Longrightarrow> mmu (set_entry s v x) w =
    (if same_page v w then if x AND 1 = 0 then None else Some (frame_of x + (w AND 0xFFF)) else mmu s w)"
  unfolding same_page_def mappable_def
  by (rule entry_store(2)) (simp_all add: set_entry_def)

lemma set_entry_table: "mappable s v \<Longrightarrow> has_table (set_entry s v x) d = has_table s d"
  by (auto simp: has_table_def set_entry_pde)

lemma set_entry_ok: "mappable s v \<Longrightarrow> tables_ok (set_entry s v x)"
  by (rule tables_ok_cong[of s]) (simp_all add: set_entry_pde, simp add: mappable_def)

lemma set_entry_mappable: "mappable s v \<Longrightarrow> mappable (set_entry s v x) w \<longleftrightarrow> mappable s w"
  using set_entry_ok[of s v x] by (auto simp: mappable_def set_entry_table)

lemma set_entry_entry: "mappable s v \<Longrightarrow> entry (set_entry s v x) v = x"
  by (simp add: entry_def set_entry_pde va_dir_less) (simp add: set_entry_def)

lemma set_entry_again: "mappable s v \<Longrightarrow> set_entry (set_entry s v x) v y = set_entry s v y"
  unfolding set_entry_def[of "set_entry s v x"] set_entry_pde[OF _ va_dir_less] by (simp add: set_entry_def)

lemma mappable_lock [simp]: "mappable (s\<lparr>page_lock := l\<rparr>) v = mappable s v"
  unfolding mappable_def by (simp only: lock_irrelevant)

lemma entry_lock [simp]: "entry (s\<lparr>page_lock := l\<rparr>) v = entry s v"
  by (simp add: entry_def)

lemma vload_entry: "mappable s v \<Longrightarrow> vload (tab_slot (va_dir v) (va_tab v)) s = Some (entry s v)"
  by (simp add: mappable_def entry_def vload_tab va_tab_less)

lemma vstore_entry: "mappable s v \<Longrightarrow> vstore (tab_slot (va_dir v) (va_tab v)) x s = Some (set_entry s v x)"
  by (simp add: mappable_def set_entry_def vstore_tab va_tab_less)

lemma vload_pde: "mappable s v \<Longrightarrow> vload (dir_slot (va_dir v)) s = Some (pde s (va_dir v))"
  by (simp add: mappable_def vload_dir va_dir_less)

lemma mappable_bits: "mappable s v \<Longrightarrow> pde s (va_dir v) AND 1 \<noteq> 0 \<and> pde s (va_dir v) AND 128 = 0"
  by (simp add: mappable_def has_table_def)

lemma paging_map_stores:
  assumes "page_lock s = 0" and ok: "mappable s v" and e: "pe_flags (entry s v) AND 1 = 0"
  shows "paging_map fa phys v flags s = Some (True, unlock (set_entry (s\<lparr>page_lock := 1\<rparr>) v (frame_of phys OR ucast flags)))"
proof -
  let ?s = "s\<lparr>page_lock := 1\<rparr>"
  have ok': "mappable ?s v" using ok by (simp only: mappable_lock)
  note vload_pde[OF ok'] vload_entry[OF ok'] vstore_entry[OF ok'] mappable_bits[OF ok']
  then show ?thesis using assms(1) e
    by (simp add: paging_map_def spin_lock_def frame_of_neg and.assoc)
qed

lemma unat_ucast16 [simp]: "unat (ucast (x :: u16) :: u32) = unat x"
proof -
  have "unat x < 65536" using unsigned_less[of x] by simp
  then show ?thesis by (simp add: unsigned_ucast_eq take_bit_nat_eq_self_iff)
qed

lemma flags_low: "flags < 4096 \<Longrightarrow> (ucast (flags :: u16) :: u32) < 4096"
  by (simp add: word_less_nat_alt)

lemma entry_of_flags:
  assumes "(flags :: u16) < 4096"
  shows "frame_of (frame_of phys OR ucast flags) = frame_of phys"
    and "(frame_of phys OR ucast flags) AND 1 = 0 \<longleftrightarrow> flags AND 1 = 0"
proof -
  note l = flags_low[OF assms] frame_of_low[of phys]
  show "frame_of (frame_of phys OR ucast flags) = frame_of phys"
    using or_page_high[OF l] unfolding frame_of_neg[of "_ OR _"] by (simp add: or.commute)
  have "frame_of phys AND 1 = frame_of phys AND (0xFFF AND 1)" by simp
  also have "\<dots> = 0" unfolding and.assoc [symmetric] l(2) by simp
  finally have "(frame_of phys OR ucast flags) AND 1 = (ucast flags :: u32) AND 1"
    by (simp add: bit.conj_disj_distrib2)
  also have "\<dots> = ucast (flags AND 1)" by (simp add: unsigned_and_eq)
  finally have "(frame_of phys OR ucast flags) AND 1 = (ucast (flags AND 1) :: u32)" .
  moreover have "(ucast (flags AND 1) :: u32) = 0 \<longleftrightarrow> flags AND 1 = 0"
    by (simp add: word_unat_eq_iff)
  ultimately show "(frame_of phys OR ucast flags) AND 1 = 0 \<longleftrightarrow> flags AND 1 = 0" by simp
qed

text \<open>C6: Where the table of the page exists, \<open>paging_map\<close> makes the MMU translate every address of the page
  to the same offset in the frame and changes the translation of no other page; it releases its lock.\<close>
theorem paging_map_translates:
  assumes "page_lock s = 0" and "mappable s v" and "pe_flags (entry s v) AND 1 = 0"
    and "flags < 4096" and "flags AND 1 \<noteq> 0"
  shows "\<exists>s'. paging_map fa phys v flags s = Some (True, s') \<and> page_lock s' = 0 \<and> tables_ok s' \<and>
    (\<forall>w. mmu s' w = (if same_page v w then Some (frame_of phys + (w AND 0xFFF)) else mmu s w))"
proof -
  have m: "mappable (s\<lparr>page_lock := 1\<rparr>) v" using assms(2) by simp
  show ?thesis using set_entry_mmu[OF m] set_entry_ok[OF m] entry_of_flags[OF assms(4)] assms(5)
    by (simp add: paging_map_stores[OF assms(1-3)])
qed

text \<open>A directory at 0x1000 that maps itself and has one table, at 0x2000, whose frames the caller fills.\<close>
definition small_paging :: "(u32 \<Rightarrow> u32) \<Rightarrow> paging" where
  "small_paging m = \<lparr>page_lock = 0, cr3 = 0x1000,
     pmem = (\<lambda>a. if a AND - 4096 = 0x1000 then (if a = 0x1FFC then 0x1003 else if a = 0x1000 then 0x2003 else 0) else m a)\<rparr>"

lemma small_pde: "unat d < 1024 \<Longrightarrow> pde (small_paging m) d = (if d = 1023 then 0x1003 else if d = 0 then 0x2003 else 0)"
  using slot_eq_iff[of "0x1000" "0x1000" d 1023] slot_eq_iff[of "0x1000" "0x1000" d 0]
    plus_low(1)[of "0x1000", OF _ four_less, of d]
  by (auto simp: pde_def small_paging_def)

lemma small_table: "has_table (small_paging m) d \<longleftrightarrow> d = 1023 \<or> d = 0"
  by (auto simp: has_table_def small_pde split: if_split_asm)

lemma small_mappable: "unat v < 4194304 \<Longrightarrow> mappable (small_paging m) v"
proof -
  assume v: "unat v < 4194304"
  have "va_dir v = 0" using v by (simp add: word_unat_eq_iff va_dir_def unat_drop_bit)
  moreover have "d = e" if "has_table (small_paging m) d" "has_table (small_paging m) e"
      "frame_of (pde (small_paging m) d) = frame_of (pde (small_paging m) e)" for d e
    using that by (auto simp: small_table small_pde frame_of_def)
  moreover have "self_mapped (small_paging m)"
    by (simp add: self_mapped_pde small_pde) (simp add: small_paging_def frame_of_def)
  moreover have "cr3 (small_paging m) = 0x1000" by (simp add: small_paging_def)
  moreover have "cr3 (small_paging m) AND 0xFFF = 0" unfolding \<open>cr3 (small_paging m) = 0x1000\<close> by simp
  ultimately have "tables_ok (small_paging m)" unfolding tables_ok_def by blast
  then show ?thesis using \<open>va_dir v = 0\<close> by (simp add: mappable_def small_table)
qed

lemma small_entry: "va_dir v = 0 \<Longrightarrow> entry (small_paging m) v = m (0x2000 + 4 * va_tab v)"
  using plus_low(1)[of "0x2000" "4 * va_tab v", OF _ four_less[OF va_tab_less]]
  by (simp add: entry_def small_pde) (simp add: small_paging_def frame_of_def)

theorem paging_map_translates_witness:
  "\<exists>s'. paging_map (\<lambda>_ _. None) 0x9000 0x5000 3 (small_paging (\<lambda>_. 0)) = Some (True, s') \<and> page_lock s' = 0 \<and> tables_ok s' \<and>
    (\<forall>w. mmu s' w = (if same_page 0x5000 w then Some (frame_of 0x9000 + (w AND 0xFFF))
       else mmu (small_paging (\<lambda>_. 0)) w))"
  by (rule paging_map_translates)
    (simp_all add: small_mappable small_entry va_dir_def pe_flags_def, simp add: small_paging_def)

text \<open>The guard against mapping a page twice reads bit 23 of the entry, a bit of the frame's address, and
  not the present bit: a page mapped to a frame below 8 MiB is silently remapped, with result true.\<close>
lemma paging_map_remaps:
  assumes "page_lock s = 0" and "mappable s v" and "pe_flags (entry s v) AND 1 = 0"
    and "flags < 4096" and "flags AND 1 \<noteq> 0" and "phys < 0x800000"
  shows "\<exists>s1 s2. paging_map fa phys v flags s = Some (True, s1) \<and> mmu s1 v = Some (frame_of phys + (v AND 0xFFF)) \<and>
    paging_map fa phys2 v flags s1 = Some (True, s2) \<and> mmu s2 v = Some (frame_of phys2 + (v AND 0xFFF))"
proof -
  let ?x = "frame_of phys OR ucast flags"
  let ?s1 = "unlock (set_entry (s\<lparr>page_lock := 1\<rparr>) v ?x)"
  have m: "mappable (s\<lparr>page_lock := 1\<rparr>) v" using assms(2) by simp
  have m1: "mappable ?s1 v" using set_entry_mappable[OF m] m by (simp add: unlock_def)
  have "pe_flags ?x = 0"
  proof -
    have "drop_bit 23 phys = 0" "drop_bit 23 (ucast flags :: u32) = 0"
      using assms(4,6) by (simp_all add: word_unat_eq_iff unat_drop_bit word_less_nat_alt)
    then show ?thesis by (simp add: pe_flags_def frame_of_def drop_bit_or drop_bit_and)
  qed
  then have e1: "pe_flags (entry ?s1 v) AND 1 = 0"
    using set_entry_entry[OF m] by (simp add: unlock_def)
  have m2: "mappable (?s1\<lparr>page_lock := 1\<rparr>) v" using m1 by simp
  show ?thesis
    using paging_map_stores[OF assms(1-3), of fa phys flags] paging_map_stores[OF _ m1 e1, of fa phys2 flags]
      set_entry_mmu[OF m, of ?x v] set_entry_mmu[OF m2, of "frame_of phys2 OR ucast flags" v]
      entry_of_flags[OF assms(4)] assms(5)
    by (simp add: same_page_def)
qed

lemma paging_map_remaps_witness:
  "\<exists>s1 s2. paging_map (\<lambda>_ _. None) 0x9000 0x5000 3 (small_paging (\<lambda>_. 0)) = Some (True, s1) \<and>
    mmu s1 0x5000 = Some (frame_of 0x9000 + (0x5000 AND 0xFFF)) \<and>
    paging_map (\<lambda>_ _. None) 0xA000 0x5000 3 s1 = Some (True, s2) \<and> mmu s2 0x5000 = Some (frame_of 0xA000 + (0x5000 AND 0xFFF))"
  by (rule paging_map_remaps)
    (simp_all add: small_mappable small_entry va_dir_def pe_flags_def, simp add: small_paging_def)

subsection \<open>paging_unmap\<close>

definition counted :: "u32 \<Rightarrow> bool" where "counted e \<longleftrightarrow> pe_flags e \<noteq> 0 \<and> pe_address e \<noteq> 0"

lemma count_entries_number:
  assumes "tables_ok s" and "has_table s d"
  shows "i + n \<le> 1024 \<Longrightarrow> count_entries d i n c s =
    Some (c + of_nat (length (filter (\<lambda>j. counted (pmem s (frame_of (pde s d) + 4 * of_nat j))) [i..<i + n])))"
proof (induction n arbitrary: i c)
  case (Suc n)
  have "unat (of_nat i :: u32) < 1024" using Suc.prems by (simp add: unat_of_nat32)
  from vload_tab[OF assms this]
  show ?case using Suc.IH[of "Suc i"] Suc.prems by (simp add: upt_rec[of i] counted_def)
qed simp

definition unmapped_entry :: "u32 \<Rightarrow> u32" where
  "unmapped_entry e = (let e1 = e AND NOT 0xFFFFF in if pe_flags e1 AND 1 \<noteq> 0 then e1 AND NOT 0x800000 else e1)"

lemma unmapped_entry_absent: "unmapped_entry e AND 1 = 0" "\<not> counted (unmapped_entry e)"
  by (simp_all add: unmapped_entry_def counted_def pe_address_def Let_def and.assoc)

text \<open>Whether another page of the directory entry keeps the table in the eyes of the count.\<close>
definition table_counted :: "'a paging_scheme \<Rightarrow> u32 \<Rightarrow> bool" where
  "table_counted s v \<longleftrightarrow> (\<exists>j<1024. of_nat j \<noteq> va_tab v \<and> counted (pmem s (frame_of (pde s (va_dir v)) + 4 * of_nat j)))"

lemma set_entry_read:
  assumes "unat t < 1024"
  shows "pmem (set_entry s v x) (frame_of (pde s (va_dir v)) + 4 * t) =
    (if t = va_tab v then x else pmem s (frame_of (pde s (va_dir v)) + 4 * t))"
  using slot_eq_iff[OF frame_of_low frame_of_low assms va_tab_less, of "pde s (va_dir v)" "pde s (va_dir v)" v]
  by (simp add: set_entry_def)

lemma unmap_count:
  assumes "mappable s v"
  shows "\<exists>c. count_entries (va_dir v) 0 1024 0 (set_entry s v (unmapped_entry e)) = Some c \<and> (c = 0 \<longleftrightarrow> \<not> table_counted s v)"
proof -
  let ?s = "set_entry s v (unmapped_entry e)"
  let ?P = "\<lambda>j. counted (pmem ?s (frame_of (pde ?s (va_dir v)) + 4 * of_nat j))"
  let ?n = "length (filter ?P [0..<1024])"
  have P: "?P j \<longleftrightarrow> of_nat j \<noteq> va_tab v \<and> counted (pmem s (frame_of (pde s (va_dir v)) + 4 * of_nat j))" if "j < 1024" for j
    using that by (simp add: set_entry_pde[OF assms va_dir_less] set_entry_read unat_of_nat32 unmapped_entry_absent)
  have "has_table ?s (va_dir v)" using assms by (simp add: set_entry_table) (simp add: mappable_def)
  from count_entries_number[OF set_entry_ok[OF assms] this, of 0 1024 0]
  have "count_entries (va_dir v) 0 1024 0 ?s = Some (of_nat ?n)" by simp
  moreover have "?n \<le> 1024" using length_filter_le[of ?P "[0..<1024]"] by simp
  then have "(of_nat ?n :: u32) = 0 \<longleftrightarrow> ?n = 0"
    using unat_of_nat32[of ?n] by (auto simp: word_unat_eq_iff)
  moreover have "?n = 0 \<longleftrightarrow> \<not> table_counted s v"
    unfolding table_counted_def length_0_conv filter_empty_conv using P by auto
  ultimately show ?thesis by blast
qed

lemma mmu_no_table: "pde s (va_dir w) = 0 \<Longrightarrow> mmu s w = None"
  by (simp add: mmu_pde)

lemma drop_table:
  assumes "self_mapped s" and "unat d < 1024"
  shows "vstore (dir_slot d) 0 s = Some (s\<lparr>pmem := (pmem s)(cr3 s + 4 * d := 0)\<rparr>)"
  by (simp add: vstore_def mmu_dir_slot assms)

text \<open>What the release does: \<open>frame_dealloc\<close> is given the table and leaves the tables alone.\<close>
definition dealloc_keeps :: "(u32 \<Rightarrow> u32 \<Rightarrow> 'a paging_scheme \<Rightarrow> 'a paging_scheme option) \<Rightarrow> u32 \<Rightarrow> bool" where
  "dealloc_keeps fd a \<longleftrightarrow> (\<forall>t. \<exists>t'. fd a 1 t = Some t' \<and> pmem t' = pmem t \<and> cr3 t' = cr3 t)"

lemma paging_unmap_steps:
  assumes "page_lock s = 0" and m: "mappable s v"
  shows "paging_unmap fd v s = do {
     let s2 = set_entry (s\<lparr>page_lock := 1\<rparr>) v (unmapped_entry (entry s v));
     page_count \<leftarrow> count_entries (va_dir v) 0 1024 0 s2;
     s3 \<leftarrow> (if page_count = 0 then do {
                s3 \<leftarrow> fd (frame_of (pde s (va_dir v))) 1 s2;
                vstore (dir_slot (va_dir v)) 0 s3 }
              else Some s2);
     Some (True, unlock s3) }"
proof -
  let ?s = "s\<lparr>page_lock := 1\<rparr>"
  have m1: "mappable ?s v" using m by (simp only: mappable_lock)
  note m2 = set_entry_mappable[OF m1, of _ v, THEN iffD2, OF m1]
  note facts = vload_pde[OF m1] vload_entry[OF m1] vstore_entry[OF m1] mappable_bits[OF m1]
    vload_entry[OF m2] vstore_entry[OF m2] vload_pde[OF m2] set_entry_entry[OF m1] set_entry_again[OF m1]
    set_entry_pde[OF m1 va_dir_less]
  show ?thesis
  proof (cases "pe_flags (entry s v AND NOT 0xFFFFF) AND 1 \<noteq> 0")
    case True
    then show ?thesis using assms(1) facts
      by (simp add: paging_unmap_def spin_lock_def unmapped_entry_def Let_def frame_of_def cong: if_cong)
  next
    case False
    then show ?thesis using assms(1) facts
      by (simp add: paging_unmap_def spin_lock_def unmapped_entry_def Let_def frame_of_def cong: if_cong)
  qed
qed

text \<open>C11: \<open>paging_unmap\<close> ends the translation of the page and, while the count sees another page in the table, of no other.\<close>
theorem paging_unmap_clears:
  assumes "page_lock s = 0" and m: "mappable s v" and "table_counted s v"
  shows "\<exists>s'. paging_unmap fd v s = Some (True, s') \<and> page_lock s' = 0 \<and>
    (\<forall>w. mmu s' w = (if same_page v w then None else mmu s w))"
proof -
  have m1: "mappable (s\<lparr>page_lock := 1\<rparr>) v" using m by simp
  have tc: "table_counted (s\<lparr>page_lock := 1\<rparr>) v" using assms(3) by (simp add: table_counted_def)
  show ?thesis using unmap_count[OF m1, of "entry s v"] tc set_entry_mmu[OF m1]
    by (auto simp: paging_unmap_steps[OF assms(1,2)] unmapped_entry_absent Let_def)
qed

text \<open>C12: The count takes the high bits of an entry for its flags, so pages in frames below 8 MiB do not count:
  unmapping one of them releases a table that is in use, and every page of the directory entry is lost.\<close>
theorem paging_unmap_releases_used_table:
  assumes "page_lock s = 0" and m: "mappable s v" and k: "dealloc_keeps fd (frame_of (pde s (va_dir v)))"
    and low: "\<forall>j<1024. pmem s (frame_of (pde s (va_dir v)) + 4 * of_nat j) < 0x800000"
  shows "\<exists>s'. paging_unmap fd v s = Some (True, s') \<and> page_lock s' = 0 \<and> (\<forall>w. va_dir w = va_dir v \<longrightarrow> mmu s' w = None)"
proof -
  let ?s = "s\<lparr>page_lock := 1\<rparr>" and ?x = "unmapped_entry (entry s v)"
  have m1: "mappable ?s v" using m by simp
  have "drop_bit 23 e = 0" if "e < 0x800000" for e :: u32
    using that by (simp add: word_unat_eq_iff unat_drop_bit word_less_nat_alt)
  then have "\<not> table_counted ?s v" using low by (simp add: table_counted_def counted_def pe_flags_def)
  then have c: "count_entries (va_dir v) 0 1024 0 (set_entry ?s v ?x) = Some 0"
    using unmap_count[OF m1, of "entry s v"] by auto
  obtain t where t: "fd (frame_of (pde s (va_dir v))) 1 (set_entry ?s v ?x) = Some t"
      and tp: "pmem t = pmem (set_entry ?s v ?x)" and tc: "cr3 t = cr3 (set_entry ?s v ?x)"
    using k unfolding dealloc_keeps_def by blast
  have "pde t d = pde (set_entry ?s v ?x) d" for d by (simp only: pde_def tp tc)
  then have "self_mapped t"
    using tables_ok_self[OF set_entry_ok[OF m1]] unfolding self_mapped_pde tc by simp
  from drop_table[OF this va_dir_less]
  have "paging_unmap fd v s = Some (True, unlock (t\<lparr>pmem := (pmem t)(cr3 t + 4 * va_dir v := 0)\<rparr>))"
    by (simp add: paging_unmap_steps[OF assms(1,2)] c t)
  moreover have "mmu (unlock (t\<lparr>pmem := (pmem t)(cr3 t + 4 * va_dir v := 0)\<rparr>)) w = None" if "va_dir w = va_dir v" for w
    unfolding unlock_simps by (rule mmu_no_table) (simp add: pde_def that)
  ultimately show ?thesis by simp
qed

theorem paging_unmap_clears_witness:
  "\<exists>s'. paging_unmap (\<lambda>_ _. Some) 0x5000 (small_paging (\<lambda>a. if a = 0x2004 then 0x800FFF else 0)) = Some (True, s') \<and> page_lock s' = 0 \<and>
    (\<forall>w. mmu s' w = (if same_page 0x5000 w then None else mmu (small_paging (\<lambda>a. if a = 0x2004 then 0x800FFF else 0)) w))"
proof (rule paging_unmap_clears)
  let ?s = "small_paging (\<lambda>a. if a = 0x2004 then 0x800FFF else 0)"
  show "table_counted ?s 0x5000"
    unfolding table_counted_def
    by (rule exI[of _ 1], simp add: va_dir_def va_tab_def small_pde)
      (simp add: small_paging_def frame_of_def counted_def pe_flags_def pe_address_def)
qed (simp_all add: small_mappable, simp add: small_paging_def)

theorem paging_unmap_releases_used_table_witness:
  "\<exists>s'. paging_unmap (\<lambda>_ _. Some) 0x5000 (small_paging (\<lambda>_. 0x9003)) = Some (True, s') \<and> page_lock s' = 0 \<and>
    (\<forall>w. va_dir w = va_dir 0x5000 \<longrightarrow> mmu s' w = None)"
proof (rule paging_unmap_releases_used_table)
  show "\<forall>j<1024. pmem (small_paging (\<lambda>_. 0x9003)) (frame_of (pde (small_paging (\<lambda>_. 0x9003)) (va_dir 0x5000)) + 4 * of_nat j) < 0x800000"
    by (simp add: va_dir_def small_pde) (simp add: small_paging_def)
qed (simp_all add: small_mappable dealloc_keeps_def, simp add: small_paging_def)

end
