(* ===== verification/Files.thy ===== *)
theory Files
  imports CString CList
begin

text \<open>
  \<open>src/src/kernel/fs/file.c\<close> (the tree of files and their stat tables), \<open>ref.c\<close> (a task's
  references to files) and \<open>fs.c\<close>. The objects of each C type are a map from addresses to
  records; an address without an object cannot be dereferenced. Paths and names are lists of
  characters without their NUL, character arrays are lists of bytes with every access checked.
  The allocator is an argument \<open>M\<close> that acts on the heap \<open>'h\<close>.
\<close>

record 'h mem_ops =
  o_malloc :: "u32 \<Rightarrow> 'h \<Rightarrow> (u32 \<times> 'h) option"
  o_realloc :: "u32 \<Rightarrow> u8 list \<Rightarrow> u32 \<Rightarrow> 'h \<Rightarrow> (u32 \<times> u8 list \<times> 'h) option"
  o_free :: "u32 \<Rightarrow> 'h \<Rightarrow> 'h option"

definition MAXFILEPATH :: nat where "MAXFILEPATH = 128"

definition O_RD :: u8 where "O_RD = 1"
definition O_WRT :: u8 where "O_WRT = 2"
definition O_STAT :: u8 where "O_STAT = 8"
definition FID_INVALID :: u32 where "FID_INVALID = - 1"

text \<open>\<open>stat_table_t\<close> is the two lists \<open>f_keys\<close> and \<open>f_vals\<close>.\<close>
record file_t =
  f_fs :: u32
  f_name :: "u8 list"
  f_data :: u32
  f_keys :: clist
  f_vals :: clist
  f_next :: u32
  f_child :: u32

record file_ref =
  r_fid :: u32
  r_file :: u32
  r_index :: u32
  r_task :: u32
  r_flags :: u8

record file_ref_pair =
  p_fid :: u32
  p_ref :: u32

record file_ref_table =
  max_fid :: u32
  t_pairs :: clist

text \<open>The only table of file system operations the program has is \<open>vfs_ops\<close>; \<open>No_ops\<close> is the zeroed one.\<close>
datatype fs_ops = No_ops | Vfs_ops

record fs =
  fs_op :: fs_ops
  fs_data :: u32

record vfs_node =
  vn_data :: u32
  vn_len :: u32

record mount_node =
  m_path :: "u8 list"
  m_children :: clist
  m_fs :: u32

text \<open>\<open>root_node\<close> is a global, at the address \<open>root_ptr\<close>; \<open>task_files\<close> is the \<open>files\<close> of each task.\<close>
record 'h fstate =
  heap :: 'h
  mem :: mem
  files :: "u32 \<Rightarrow> file_t option"
  refs :: "u32 \<Rightarrow> file_ref option"
  pairs :: "u32 \<Rightarrow> file_ref_pair option"
  fss :: "u32 \<Rightarrow> fs option"
  vnodes :: "u32 \<Rightarrow> vfs_node option"
  mounts :: "u32 \<Rightarrow> mount_node option"
  root_ptr :: u32
  current_task :: u32
  task_files :: "u32 \<Rightarrow> file_ref_table option"

subsection \<open>Character arrays\<close>

text \<open>Writing characters one by one, from index \<open>t\<close> on.\<close>
fun store_str :: "u8 list \<Rightarrow> nat \<Rightarrow> u8 list \<Rightarrow> u8 list option" where
  "store_str buf t [] = Some buf"
| "store_str buf t (c # cs) = do { buf' \<leftarrow> aset buf t c; store_str buf' (Suc t) cs }"

text \<open>\<open>strlen\<close> and the string up to the NUL, if the array has one.\<close>
definition buf_str :: "u8 list \<Rightarrow> u8 list option" where
  "buf_str buf = (if 0 \<in> set buf then Some (takeWhile (\<lambda>c. c \<noteq> 0) buf) else None)"

text \<open>\<open>strcmp(a, b) == 0\<close> on two arrays.\<close>
fun buf_eq :: "u8 list \<Rightarrow> u8 list \<Rightarrow> bool option" where
  "buf_eq (x # a) (y # b) = (if x = 0 \<or> x \<noteq> y then Some (x = y) else buf_eq a b)"
| "buf_eq _ _ = None"

subsection \<open>file.c: the tree\<close>

definition file_alloc :: "'h mem_ops \<Rightarrow> u8 list \<Rightarrow> u32 \<Rightarrow> u32 \<Rightarrow> 'h fstate \<Rightarrow> (u32 \<times> 'h fstate) option" where
  "file_alloc M name fsp data s =
     (let len = min (length name) MAXFILEPATH + 1 in
      if len > MAXFILEPATH then Some (NULL, s)
      else do {
        (p, h) \<leftarrow> o_malloc M (sizeof file_layout) (heap s);
        let s1 = s\<lparr>heap := h\<rparr>;
        if p = NULL then Some (NULL, s1)
        else Some (p, s1\<lparr>files := (files s1)(p \<mapsto>
          \<lparr>f_fs = fsp, f_name = name @ replicate (MAXFILEPATH - length name) 0, f_data = data,
           f_keys = list_init, f_vals = list_init, f_next = NULL, f_child = NULL\<rparr>)\<rparr>) })"

definition file_add_friend :: "u32 \<Rightarrow> u32 \<Rightarrow> 'h fstate \<Rightarrow> 'h fstate option" where
  "file_add_friend root friend s = do {
     r \<leftarrow> files s root;
     f \<leftarrow> files s friend;
     let s1 = s\<lparr>files := (files s)(friend \<mapsto> f\<lparr>f_next := f_next r\<rparr>)\<rparr>;
     r1 \<leftarrow> files s1 root;
     Some (s1\<lparr>files := (files s1)(root \<mapsto> r1\<lparr>f_next := friend\<rparr>)\<rparr>) }"

definition file_add_child :: "u32 \<Rightarrow> u32 \<Rightarrow> 'h fstate \<Rightarrow> 'h fstate option" where
  "file_add_child root child s = do {
     r \<leftarrow> files s root;
     if f_child r = NULL then Some (s\<lparr>files := (files s)(root \<mapsto> r\<lparr>f_child := child\<rparr>)\<rparr>)
     else do {
       c \<leftarrow> files s child;
       let s1 = s\<lparr>files := (files s)(child \<mapsto> c\<lparr>f_next := f_child r\<rparr>)\<rparr>;
       r1 \<leftarrow> files s1 root;
       Some (s1\<lparr>files := (files s1)(root \<mapsto> r1\<lparr>f_child := child\<rparr>)\<rparr>) } }"

partial_function (option) count_friends_loop :: "(u32 \<Rightarrow> file_t option) \<Rightarrow> u32 \<Rightarrow> u32 \<Rightarrow> u32 option" where
  "count_friends_loop fs file count =
     (if file = NULL then Some count
      else do { f \<leftarrow> fs file; count_friends_loop fs (f_next f) (count + 1) })"

definition file_count_friends :: "u32 \<Rightarrow> 'h fstate \<Rightarrow> u32 option" where
  "file_count_friends file s = count_friends_loop (files s) file 0"

definition file_stat_set :: "'h mem_ops \<Rightarrow> u32 \<Rightarrow> u32 \<Rightarrow> u32 \<Rightarrow> 'h fstate \<Rightarrow> 'h fstate option" where
  "file_stat_set M file key data s = do {
     f \<leftarrow> files s file;
     index \<leftarrow> list_find (f_keys f) key;
     if sint index \<ge> 0 then do {
       buf \<leftarrow> store32 (l_buf (f_vals f)) (4 * unat index) data;
       Some (s\<lparr>files := (files s)(file \<mapsto> f\<lparr>f_vals := (f_vals f)\<lparr>l_buf := buf\<rparr>\<rparr>)\<rparr>) }
     else do {
       (keys, h1) \<leftarrow> list_add (o_realloc M) (f_keys f) key (heap s);
       (vals, h2) \<leftarrow> list_add (o_realloc M) (f_vals f) data h1;
       Some (s\<lparr>heap := h2, files := (files s)(file \<mapsto> f\<lparr>f_keys := keys, f_vals := vals\<rparr>)\<rparr>) } }"

definition file_stat_get :: "u32 \<Rightarrow> u32 \<Rightarrow> 'h fstate \<Rightarrow> u32 option" where
  "file_stat_get file key s = do {
     f \<leftarrow> files s file;
     index \<leftarrow> list_find (f_keys f) key;
     if sint index < 0 then Some NULL else load32 (l_buf (f_vals f)) (4 * unat index) }"

text \<open>The search among the friends of \<open>file\<close>; NULL when none has the name.\<close>
partial_function (option) friend_search :: "(u32 \<Rightarrow> file_t option) \<Rightarrow> u8 list \<Rightarrow> u32 \<Rightarrow> u32 option" where
  "friend_search fs last_file search =
     (if search = NULL then Some NULL
      else do {
        f \<leftarrow> fs search;
        eq \<leftarrow> buf_eq (f_name f) last_file;
        if eq then Some search else friend_search fs last_file (f_next f) })"

text \<open>What is left of the path is copied over \<open>last_file\<close>, without a NUL.\<close>
definition resolve_end :: "u8 list \<Rightarrow> u8 list \<Rightarrow> u32 \<Rightarrow> (u32 \<times> u8 list \<times> u32) option" where
  "resolve_end pth last_file prev = do { l \<leftarrow> store_str last_file 0 pth; Some (NULL, l, prev) }"

text \<open>The result is the file found, the contents of \<open>last_file\<close> and \<open>*prev_file\<close>. \<open>'/'\<close> is 47.\<close>
function resolve_loop :: "(u32 \<Rightarrow> file_t option) \<Rightarrow> u32 \<Rightarrow> u8 list \<Rightarrow> u8 list \<Rightarrow> u32 \<Rightarrow> (u32 \<times> u8 list \<times> u32) option" where
  "resolve_loop fs file pth last_file prev =
     (if file = NULL \<or> pth = [] then resolve_end pth last_file prev
      else do {
        let name = takeWhile (\<lambda>c. c \<noteq> 47) pth;
        let rest = tl (dropWhile (\<lambda>c. c \<noteq> 47) pth);
        l1 \<leftarrow> store_str last_file 0 name;
        l2 \<leftarrow> aset l1 (length name) 0;
        found \<leftarrow> friend_search fs l2 file;
        if found = NULL then resolve_end rest l2 prev
        else if rest = [] then Some (found, l2, prev)
        else do { f \<leftarrow> fs found; resolve_loop fs (f_child f) rest l2 found } })"
  by pat_completeness auto
termination
proof (relation "measure (\<lambda>(fs, file, pth, last_file, prev). length pth)")
  show "wf (measure (\<lambda>(fs :: u32 \<Rightarrow> file_t option, file :: u32, pth :: u8 list, last_file :: u8 list, prev :: u32). length pth))"
    by simp
next
  fix fp prev last_file and pth :: "u8 list" and fs :: "u32 \<Rightarrow> file_t option" and name rest l1 l2 found f
  assume "\<not> (fp = NULL \<or> pth = [])" and "rest = tl (dropWhile (\<lambda>c. c \<noteq> 47) pth)"
  moreover have "length (dropWhile (\<lambda>c. c \<noteq> (47 :: u8)) pth) \<le> length pth" by (rule length_dropWhile_le)
  ultimately have "length rest < length pth" by (cases pth) (auto simp: length_tl)
  then show "((fs, f_child f, rest, l2, found), fs, fp, pth, last_file, prev)
      \<in> measure (\<lambda>(fs, file, pth, last_file, prev). length pth)" by simp
qed

declare resolve_loop.simps [simp del]

definition file_resolve :: "u32 \<Rightarrow> u8 list \<Rightarrow> u8 list \<Rightarrow> 'h fstate \<Rightarrow> (u32 \<times> u8 list \<times> u32) option" where
  "file_resolve file pth last_file s = resolve_loop (files s) file pth last_file file"

subsection \<open>ref.c\<close>

definition file_ref_new :: "'h mem_ops \<Rightarrow> u32 \<Rightarrow> u8 \<Rightarrow> 'h fstate \<Rightarrow> (u32 \<times> 'h fstate) option" where
  "file_ref_new M file flags s = do {
     (ref, h1) \<leftarrow> o_malloc M (sizeof file_ref_layout) (heap s);
     if ref = NULL then Some (NULL, s\<lparr>heap := h1\<rparr>)
     else do {
       t \<leftarrow> task_files s (current_task s);
       let fid = max_fid t;
       let t1 = t\<lparr>max_fid := fid + 1\<rparr>;
       (pair, h2) \<leftarrow> o_malloc M (sizeof file_ref_pair_layout) h1;
       if pair = NULL then do {
         h3 \<leftarrow> o_free M ref h2;
         Some (NULL, s\<lparr>heap := h3, task_files := (task_files s)(current_task s \<mapsto> t1)\<rparr>) }
       else do {
         (l, h3) \<leftarrow> list_add (o_realloc M) (t_pairs t1) pair h2;
         Some (ref, s\<lparr>heap := h3,
           refs := (refs s)(ref \<mapsto> \<lparr>r_fid = fid, r_file = file, r_index = 0, r_task = current_task s, r_flags = flags\<rparr>),
           pairs := (pairs s)(pair \<mapsto> \<lparr>p_fid = fid, p_ref = ref\<rparr>),
           task_files := (task_files s)(current_task s \<mapsto> t1\<lparr>t_pairs := l\<rparr>)\<rparr>) } } }"

text \<open>The pair with a given fid: its index in the list and its address.\<close>
fun find_pair :: "(u32 \<Rightarrow> file_ref_pair option) \<Rightarrow> clist \<Rightarrow> u32 \<Rightarrow> nat \<Rightarrow> nat \<Rightarrow> (nat \<times> u32) option option" where
  "find_pair ps l fid i 0 = Some None"
| "find_pair ps l fid i (Suc n) = do {
     pair \<leftarrow> load32 (l_buf l) (4 * i);
     p \<leftarrow> ps pair;
     if p_fid p = fid then Some (Some (i, pair)) else find_pair ps l fid (Suc i) n }"

text \<open>The \<open>task\<close> argument is not used.\<close>
definition file_ref_resolve :: "u32 \<Rightarrow> u32 \<Rightarrow> 'h fstate \<Rightarrow> u32 option" where
  "file_ref_resolve task fid s =
     (if fid = FID_INVALID then Some NULL
      else do {
        t \<leftarrow> task_files s (current_task s);
        r \<leftarrow> find_pair (pairs s) (t_pairs t) fid 0 (unat (l_index (t_pairs t)));
        case r of None \<Rightarrow> Some NULL | Some (i, pair) \<Rightarrow> do { p \<leftarrow> pairs s pair; Some (p_ref p) } })"

definition file_ref_close :: "'h mem_ops \<Rightarrow> u32 \<Rightarrow> 'h fstate \<Rightarrow> 'h fstate option" where
  "file_ref_close M ref s = do {
     rf \<leftarrow> refs s ref;
     t \<leftarrow> task_files s (current_task s);
     r \<leftarrow> find_pair (pairs s) (t_pairs t) (r_fid rf) 0 (unat (l_index (t_pairs t)));
     s1 \<leftarrow> (case r of None \<Rightarrow> Some s
       | Some (i, pair) \<Rightarrow> do {
           rt \<leftarrow> task_files s (r_task rf);
           l \<leftarrow> list_rem (t_pairs rt) (of_nat i);
           h1 \<leftarrow> o_free M pair (heap s);
           Some (s\<lparr>heap := h1, pairs := (pairs s)(pair := None),
             task_files := (task_files s)(r_task rf \<mapsto> rt\<lparr>t_pairs := l\<rparr>)\<rparr>) });
     h2 \<leftarrow> o_free M ref (heap s1);
     Some (s1\<lparr>heap := h2, refs := (refs s1)(ref := None)\<rparr>) }"

subsection \<open>fs.c\<close>

definition fs_init :: "'h mem_ops \<Rightarrow> fs_ops \<Rightarrow> 'h fstate \<Rightarrow> (u32 \<times> 'h fstate) option" where
  "fs_init M op s = do {
     (p, h) \<leftarrow> o_malloc M (sizeof fs_layout) (heap s);
     let s1 = s\<lparr>heap := h\<rparr>;
     if p = NULL then Some (NULL, s1)
     else Some (p, s1\<lparr>fss := (fss s1)(p \<mapsto> \<lparr>fs_op = op, fs_data = NULL\<rparr>)\<rparr>) }"

end
