(* ===== verification/Vfs.thy ===== *)
theory Vfs
  imports Files CMath
begin

text \<open>
  \<open>src/src/kernel/fs/mount.c\<close> (the tree of mounted file systems), \<open>vfs.c\<close> (the file system held in
  memory) and the calls of \<open>file.c\<close> that find a file system and pass the request on to its operations.
  \<open>'/'\<close> is the character 47. Arrays that the code leaves uninitialised are arguments.
\<close>

subsection \<open>mount.c\<close>

text \<open>\<open>&path[n]\<close> as a string: undefined beyond the NUL.\<close>
definition str_from :: "nat \<Rightarrow> u8 list \<Rightarrow> u8 list option" where
  "str_from n str = (if n \<le> length str then Some (drop n str) else None)"

text \<open>The \<open>for\<close> loop goes on with the children of the child it found, at the next index.\<close>
partial_function (option) child_loop :: "(u32 \<Rightarrow> mount_node option) \<Rightarrow> u8 list option \<Rightarrow> u32 \<Rightarrow> nat \<Rightarrow> bool \<Rightarrow> (u32 \<times> bool) option" where
  "child_loop ms suffix cur i dirty = do {
     c \<leftarrow> ms cur;
     if i < unat (l_index (m_children c)) then do {
       child \<leftarrow> load32 (l_buf (m_children c)) (4 * i);
       m \<leftarrow> ms child;
       str \<leftarrow> suffix;
       eq \<leftarrow> buf_eq (str @ [0]) (m_path m);
       if eq then child_loop ms suffix child (i + 1) True
       else child_loop ms suffix cur (i + 1) dirty }
     else Some (cur, dirty) }"

partial_function (option) mount_loop :: "(u32 \<Rightarrow> mount_node option) \<Rightarrow> u8 list \<Rightarrow> u8 list \<Rightarrow> u32 \<Rightarrow> (u8 list \<times> u32) option" where
  "mount_loop ms pth found_path cur = do {
     c \<leftarrow> ms cur;
     found \<leftarrow> buf_str found_path;
     p \<leftarrow> buf_str (m_path c);
     found_path1 \<leftarrow> store_str found_path (length found) (p @ [0]);
     found1 \<leftarrow> buf_str found_path1;
     (curr1, dirty) \<leftarrow> child_loop ms (str_from (length found1) pth) cur 0 False;
     if dirty then mount_loop ms pth found_path1 curr1 else Some (found_path1, curr1) }"

text \<open>The result is the file system, \<open>found_path\<close> and \<open>*curr\<close>.\<close>
definition mount_find :: "u8 list \<Rightarrow> u8 list \<Rightarrow> 'h fstate \<Rightarrow> (u32 \<times> u8 list \<times> u32) option" where
  "mount_find pth found_path s = do {
     (found, cur) \<leftarrow> mount_loop (mounts s) pth found_path (root_ptr s);
     c \<leftarrow> mounts s cur;
     Some (m_fs c, found, cur) }"

text \<open>The path and the children set are those of \<open>root_node\<close>, not those of \<open>node\<close>.\<close>
definition mount_node_init :: "u32 \<Rightarrow> u32 \<Rightarrow> u8 list \<Rightarrow> 'h fstate \<Rightarrow> 'h fstate option" where
  "mount_node_init node fs pth s = do {
     let ms = (mounts s)(node \<mapsto> \<lparr>m_path = replicate MAXFILEPATH 0, m_children = list_init, m_fs = NULL\<rparr>);
     if length pth > MAXFILEPATH then Some (s\<lparr>mounts := ms\<rparr>)
     else do {
       r \<leftarrow> ms (root_ptr s);
       b \<leftarrow> store_str (m_path r) 0 (pth @ [0]);
       let ms1 = ms(root_ptr s \<mapsto> r\<lparr>m_path := b, m_children := list_init\<rparr>);
       n \<leftarrow> ms1 node;
       Some (s\<lparr>mounts := ms1(node \<mapsto> n\<lparr>m_fs := fs\<rparr>)\<rparr>) } }"

text \<open>A path that is NULL is \<open>None\<close>.\<close>
definition mount_node_new :: "'h mem_ops \<Rightarrow> u32 \<Rightarrow> u8 list option \<Rightarrow> 'h fstate \<Rightarrow> (u32 \<times> 'h fstate) option" where
  "mount_node_new M fs pth s = do {
     (node, h) \<leftarrow> o_malloc M (sizeof mount_node_layout) (heap s);
     let s1 = s\<lparr>heap := h\<rparr>;
     if node = NULL then Some (NULL, s1)
     else do { p \<leftarrow> pth; s2 \<leftarrow> mount_node_init node fs p s1; Some (node, s2) } }"

definition mount_root :: "u32 \<Rightarrow> 'h fstate \<Rightarrow> 'h fstate option" where
  "mount_root fs s = mount_node_init (root_ptr s) fs [47] s"

text \<open>\<open>found_path\<close> is not initialised: \<open>stack\<close> is what the array holds.\<close>
definition mount :: "'h mem_ops \<Rightarrow> u8 list \<Rightarrow> u8 list \<Rightarrow> u32 \<Rightarrow> 'h fstate \<Rightarrow> 'h fstate option" where
  "mount M stack pth fs s =
     (if length pth > MAXFILEPATH then Some s
      else do {
        (_, found_path, leaf) \<leftarrow> mount_find pth stack s;
        found \<leftarrow> buf_str found_path;
        rest \<leftarrow> str_from (length found) pth;
        (dup, h1) \<leftarrow> o_malloc M (of_nat (length rest) + 1) (heap s);
        (node, s2) \<leftarrow> mount_node_new M fs (if dup = NULL then None else Some rest) (s\<lparr>heap := h1\<rparr>);
        if node = NULL then Some s2
        else do {
          n \<leftarrow> mounts s2 leaf;
          (l, h3) \<leftarrow> list_add (o_realloc M) (m_children n) node (heap s2);
          Some (s2\<lparr>heap := h3, mounts := (mounts s2)(leaf \<mapsto> n\<lparr>m_children := l\<rparr>)\<rparr>) } })"

subsection \<open>vfs.c\<close>

text \<open>The file is created when it does not exist and is opened for writing.\<close>
definition vfs_create :: "'h mem_ops \<Rightarrow> u32 \<Rightarrow> u8 list \<Rightarrow> u32 \<Rightarrow> 'h fstate \<Rightarrow> (u32 \<times> 'h fstate) option" where
  "vfs_create M fs curr_file prev_file s = do {
     (vfs, h) \<leftarrow> o_malloc M (sizeof vfs_node_layout) (heap s);
     if vfs = NULL then None
     else do {
       let s1 = s\<lparr>heap := h, vnodes := (vnodes s)(vfs \<mapsto> \<lparr>vn_data = NULL, vn_len = 0\<rparr>)\<rparr>;
       (file, s2) \<leftarrow> file_alloc M curr_file fs vfs s1;
       s3 \<leftarrow> file_add_child prev_file file s2;
       Some (file, s3) } }"

definition vfs_open :: "'h mem_ops \<Rightarrow> u32 \<Rightarrow> u8 list \<Rightarrow> u8 \<Rightarrow> 'h fstate \<Rightarrow> (u32 \<times> 'h fstate) option" where
  "vfs_open M fs pth flags s = do {
     f \<leftarrow> fss s fs;
     (file, curr_file, prev_file) \<leftarrow> file_resolve (fs_data f) pth (replicate MAXFILEPATH 0) s;
     let open_ref = (\<lambda>file s.
       if flags AND O_RD = O_RD \<or> flags AND O_WRT = O_WRT then file_ref_new M file flags s
       else if flags AND O_STAT = O_STAT then file_ref_new M file flags s
       else Some (NULL, s));
     if prev_file = NULL then Some (NULL, s)
     else if file = NULL \<and> flags AND O_WRT = 0 then Some (NULL, s)
     else if file = NULL \<and> flags AND O_WRT = O_WRT then do {
       name \<leftarrow> buf_str curr_file;
       if 47 \<in> set name then Some (NULL, s)
       else do { (file1, s1) \<leftarrow> vfs_create M fs name prev_file s; open_ref file1 s1 } }
     else open_ref file s }"

text \<open>The multi-character constants \<open>'LIST'\<close>, \<open>'NAME'\<close> and \<open>'SIZE'\<close>.\<close>
definition STAT_LIST :: u32 where "STAT_LIST = 0x4C495354"
definition STAT_NAME :: u32 where "STAT_NAME = 0x4E414D45"
definition STAT_SIZE :: u32 where "STAT_SIZE = 0x53495A45"

definition vfs_read_stat_size :: "file_t \<Rightarrow> u32 \<Rightarrow> u32 option" where
  "vfs_read_stat_size f key =
     (if key = STAT_LIST then Some (4 * l_index (f_keys f))
      else if key = STAT_NAME then do { name \<leftarrow> buf_str (f_name f); Some (of_nat (length name) + 1) }
      else if key = STAT_SIZE then Some 4
      else Some 0)"

text \<open>\<open>memcpy\<close> into the caller's buffer, from an object given as its bytes.\<close>
fun store_bytes :: "mem \<Rightarrow> u32 \<Rightarrow> u8 list \<Rightarrow> mem option" where
  "store_bytes m p [] = Some m"
| "store_bytes m p (b # bs) = do { m1 \<leftarrow> mset m p b; store_bytes m1 (p + 1) bs }"

definition vfs_read_stat :: "file_t \<Rightarrow> vfs_node \<Rightarrow> u32 \<Rightarrow> u32 \<Rightarrow> 'h fstate \<Rightarrow> (u32 \<times> 'h fstate) option" where
  "vfs_read_stat f node buffer key s = do {
     sz \<leftarrow> vfs_read_stat_size f key;
     if buffer = NULL then Some (sz, s)
     else do {
       data \<leftarrow> (if key = STAT_LIST then
                  (if l_data (f_keys f) = NULL then Some None
                   else do { bs \<leftarrow> bget (l_buf (f_keys f)) 0 (unat sz); Some (Some bs) })
                else if key = STAT_NAME then do { bs \<leftarrow> bget (f_name f) 0 (unat sz); Some (Some bs) }
                else if key = STAT_SIZE then Some (Some (le32 (vn_len node)))
                else Some None);
       case data of None \<Rightarrow> Some (0, s)
       | Some bs \<Rightarrow> do { m \<leftarrow> store_bytes (mem s) buffer bs; Some (sz, s\<lparr>mem := m\<rparr>) } } }"

text \<open>\<open>RD_START\<close> is -1 and \<open>RD_END\<close> is -2.\<close>
definition vfs_read :: "u32 \<Rightarrow> u32 \<Rightarrow> u32 \<Rightarrow> 'h fstate \<Rightarrow> (u32 \<times> 'h fstate) option" where
  "vfs_read ref buffer size0 s = do {
     r \<leftarrow> refs s ref;
     f \<leftarrow> files s (r_file r);
     if f_data f = NULL then Some (0, s)
     else do {
       node \<leftarrow> vnodes s (f_data f);
       if r_flags r AND O_STAT = O_STAT then vfs_read_stat f node buffer size0 s
       else let
         len = vn_len node;
         index = r_index r;
         set_index = (\<lambda>i. s\<lparr>refs := (refs s)(ref \<mapsto> r\<lparr>r_index := i\<rparr>)\<rparr>);
         copy = (\<lambda>n. do {
           let read_size = cmin (len - index) n;
           m \<leftarrow> (if read_size > 0 then do { (m, _) \<leftarrow> memcpy (mem s) buffer (vn_data node + index) read_size; Some m }
                 else Some (mem s));
           Some (read_size, set_index (index + read_size)\<lparr>mem := m\<rparr>) })
         in
         if sint size0 < 0 then
           (if size0 = - 1 then Some (index, set_index 0)
            else if size0 = - 2 then
              (if buffer = NULL then Some (len - index, set_index len) else copy (len - index))
            else Some (0, s))
         else copy size0 } }"

definition vfs_write :: "u32 \<Rightarrow> u32 \<Rightarrow> u32 \<Rightarrow> 'h fstate \<Rightarrow> (u32 \<times> 'h fstate) option" where
  "vfs_write ref buffer n s = Some (0, s)"

definition vfs_close :: "'h mem_ops \<Rightarrow> u32 \<Rightarrow> 'h fstate \<Rightarrow> 'h fstate option" where
  "vfs_close M ref s = file_ref_close M ref s"

partial_function (option) list_refs_loop :: "'h mem_ops \<Rightarrow> u32 \<Rightarrow> u32 list \<Rightarrow> nat \<Rightarrow> 'h fstate \<Rightarrow> (u32 list \<times> nat \<times> 'h fstate) option" where
  "list_refs_loop M search out index s =
     (if search = NULL then Some (out, index, s)
      else do {
        (ref, s1) \<leftarrow> file_ref_new M search O_STAT s;
        out1 \<leftarrow> aset out index ref;
        f \<leftarrow> files s1 search;
        list_refs_loop M (f_next f) out1 (index + 1) s1 })"

text \<open>\<open>out\<close> is the array \<open>files\<close>, \<open>None\<close> where that is NULL.\<close>
definition vfs_list :: "'h mem_ops \<Rightarrow> u32 \<Rightarrow> u8 list \<Rightarrow> u32 list option \<Rightarrow> 'h fstate \<Rightarrow> (u32 \<times> u32 list \<times> 'h fstate) option" where
  "vfs_list M fs pth out s = do {
     f \<leftarrow> fss s fs;
     (file, _, _) \<leftarrow> file_resolve (fs_data f) pth (replicate MAXFILEPATH 0) s;
     if file = NULL then Some (0, (case out of None \<Rightarrow> [] | Some a \<Rightarrow> a), s)
     else do {
       d \<leftarrow> files s file;
       case out of
         None \<Rightarrow> do { n \<leftarrow> file_count_friends (f_child d) s; Some (n, [], s) }
       | Some a \<Rightarrow> do {
           (a1, n, s1) \<leftarrow> list_refs_loop M (f_child d) a 0 s;
           Some (of_nat n, a1, s1) } } }"

definition vfs_init :: "'h mem_ops \<Rightarrow> 'h fstate \<Rightarrow> 'h fstate option" where
  "vfs_init M s = do {
     (vfs, s1) \<leftarrow> fs_init M Vfs_ops s;
     (node, h) \<leftarrow> o_malloc M (sizeof vfs_node_layout) (heap s1);
     if node = NULL then None
     else do {
       let s2 = s1\<lparr>heap := h, vnodes := (vnodes s1)(node \<mapsto> \<lparr>vn_data = NULL, vn_len = 0\<rparr>)\<rparr>;
       (file, s3) \<leftarrow> file_alloc M [] vfs node s2;
       v \<leftarrow> fss s3 vfs;
       mount_root vfs (s3\<lparr>fss := (fss s3)(vfs \<mapsto> v\<lparr>fs_data := file\<rparr>)\<rparr>) } }"

subsection \<open>file.c: the calls\<close>

text \<open>\<open>&path[strlen(found_path) - 1]\<close>: what the file system is given.\<close>
definition path_in_fs :: "u8 list \<Rightarrow> u8 list \<Rightarrow> u8 list option" where
  "path_in_fs found_path pth = do {
     found \<leftarrow> buf_str found_path;
     if found = [] then None else str_from (length found - 1) pth }"

definition file_open :: "'h mem_ops \<Rightarrow> u8 list \<Rightarrow> u8 \<Rightarrow> 'h fstate \<Rightarrow> (u32 \<times> 'h fstate) option" where
  "file_open M pth flags s = do {
     (fs, found_path, _) \<leftarrow> mount_find pth (replicate MAXFILEPATH 0) s;
     if fs = NULL then Some (FID_INVALID, s)
     else do {
       f \<leftarrow> fss s fs;
       rest \<leftarrow> path_in_fs found_path pth;
       (ref, s1) \<leftarrow> (case fs_op f of No_ops \<Rightarrow> None | Vfs_ops \<Rightarrow> vfs_open M fs rest flags s);
       if ref = NULL then Some (FID_INVALID, s1)
       else do { r \<leftarrow> refs s1 ref; Some (r_fid r, s1) } } }"

text \<open>The operations of the file system that holds the file of a reference.\<close>
definition ref_ops :: "u32 \<Rightarrow> 'h fstate \<Rightarrow> fs_ops option" where
  "ref_ops ref s = do { r \<leftarrow> refs s ref; f \<leftarrow> files s (r_file r); fs \<leftarrow> fss s (f_fs f); Some (fs_op fs) }"

definition file_read :: "u32 \<Rightarrow> u32 \<Rightarrow> u32 \<Rightarrow> 'h fstate \<Rightarrow> (u32 \<times> 'h fstate) option" where
  "file_read fid buffer n s = do {
     ref \<leftarrow> file_ref_resolve (current_task s) fid s;
     if ref = NULL then Some (0, s)
     else do { ops \<leftarrow> ref_ops ref s; case ops of No_ops \<Rightarrow> None | Vfs_ops \<Rightarrow> vfs_read ref buffer n s } }"

definition file_write :: "u32 \<Rightarrow> u32 \<Rightarrow> u32 \<Rightarrow> 'h fstate \<Rightarrow> (u32 \<times> 'h fstate) option" where
  "file_write fid buffer n s = do {
     ref \<leftarrow> file_ref_resolve (current_task s) fid s;
     if ref = NULL then Some (0, s)
     else do { ops \<leftarrow> ref_ops ref s; case ops of No_ops \<Rightarrow> None | Vfs_ops \<Rightarrow> vfs_write ref buffer n s } }"

fun fids_loop :: "(u32 \<Rightarrow> file_ref option) \<Rightarrow> u32 list \<Rightarrow> nat \<Rightarrow> nat \<Rightarrow> u32 list \<Rightarrow> u32 list option" where
  "fids_loop rs tmp i 0 fids = Some fids"
| "fids_loop rs tmp i (Suc n) fids = do {
     ref \<leftarrow> aget tmp i;
     r \<leftarrow> rs ref;
     fids1 \<leftarrow> aset fids i (r_fid r);
     fids_loop rs tmp (Suc i) n fids1 }"

text \<open>\<open>fids\<close> is the caller's array; the array from \<open>kmalloc\<close> holds \<open>count\<close> references.\<close>
definition file_list :: "'h mem_ops \<Rightarrow> u8 list \<Rightarrow> u32 list \<Rightarrow> 'h fstate \<Rightarrow> (u32 \<times> u32 list \<times> 'h fstate) option" where
  "file_list M pth fids s = do {
     (fs, found_path, _) \<leftarrow> mount_find pth (replicate MAXFILEPATH 0) s;
     if fs = NULL then Some (FID_INVALID, fids, s)
     else do {
       f \<leftarrow> fss s fs;
       rest \<leftarrow> path_in_fs found_path pth;
       if fs_op f = No_ops then None
       else do {
         (cnt, _, s1) \<leftarrow> vfs_list M fs rest None s;
         (tmp, h) \<leftarrow> o_malloc M (4 * cnt) (heap s1);
         if tmp = NULL then Some (0, fids, s1\<lparr>heap := h\<rparr>)
         else do {
           (_, a, s2) \<leftarrow> vfs_list M fs rest (Some (replicate (unat cnt) 0)) (s1\<lparr>heap := h\<rparr>);
           fids1 \<leftarrow> fids_loop (refs s2) a 0 (unat cnt) fids;
           h2 \<leftarrow> o_free M tmp (heap s2);
           Some (cnt, fids1, s2\<lparr>heap := h2\<rparr>) } } } }"

definition file_close :: "'h mem_ops \<Rightarrow> u32 \<Rightarrow> 'h fstate \<Rightarrow> 'h fstate option" where
  "file_close M fid s = do {
     ref \<leftarrow> file_ref_resolve (current_task s) fid s;
     if ref = NULL then Some s
     else do { ops \<leftarrow> ref_ops ref s; case ops of No_ops \<Rightarrow> None | Vfs_ops \<Rightarrow> vfs_close M ref s } }"

subsection \<open>Path resolution refines lookup in a tree of names\<close>

datatype ftree = FTree (ft_ptr: u32) (ft_name: "u8 list") (ft_children: "ftree list")

text \<open>An array of \<open>n\<close> bytes that holds the string.\<close>
definition holds_str :: "nat \<Rightarrow> u8 list \<Rightarrow> u8 list \<Rightarrow> bool" where
  "holds_str n buf str \<longleftrightarrow> length buf = n \<and> 0 \<notin> set str \<and> (\<exists>rest. buf = str @ 0 # rest)"

fun forest :: "(u32 \<Rightarrow> file_t option) \<Rightarrow> u32 \<Rightarrow> ftree list \<Rightarrow> bool" where
  "forest fs p [] \<longleftrightarrow> p = NULL"
| "forest fs p (FTree q name cs # ts) \<longleftrightarrow> p = q \<and> q \<noteq> NULL \<and>
     (\<exists>f. fs q = Some f \<and> holds_str MAXFILEPATH (f_name f) name \<and> forest fs (f_child f) cs \<and> forest fs (f_next f) ts)"

fun lookup :: "ftree list \<Rightarrow> u8 list list \<Rightarrow> u32" where
  "lookup ts [] = NULL"
| "lookup ts (n # ns) = (case find (\<lambda>t. ft_name t = n) ts of None \<Rightarrow> NULL
     | Some t \<Rightarrow> if ns = [] then ft_ptr t else lookup (ft_children t) ns)"

text \<open>The components of a path; a slash at its end adds none.\<close>
function components :: "u8 list \<Rightarrow> u8 list list" where
  "components pth = (if pth = [] then []
     else takeWhile (\<lambda>c. c \<noteq> 47) pth # components (tl (dropWhile (\<lambda>c. c \<noteq> 47) pth)))"
  by pat_completeness auto

lemma rest_shorter: "pth \<noteq> [] \<Longrightarrow> length (tl (dropWhile P pth)) < length pth"
  using length_dropWhile_le[of P pth] unfolding length_tl length_greater_0_conv [symmetric] by arith

termination components
  by (relation "measure length", rule wf_measure, unfold in_measure, erule rest_shorter)

declare components.simps [simp del]

lemma components_Nil [simp]: "components [] = []"
  by (subst components.simps) simp

lemma components_eq_Nil [simp]: "components pth = [] \<longleftrightarrow> pth = []"
  by (subst components.simps) simp

lemma buf_eq_str: "0 \<notin> set a \<Longrightarrow> 0 \<notin> set b \<Longrightarrow> buf_eq (a @ 0 # x) (b @ 0 # y) = Some (a = b)"
proof (induction a arbitrary: b)
  case Nil
  then show ?case by (cases b) auto
next
  case (Cons c a)
  then show ?case by (cases b) auto
qed

lemma buf_eq_holds: "holds_str n x a \<Longrightarrow> holds_str m y b \<Longrightarrow> buf_eq x y = Some (a = b)"
  by (auto simp: holds_str_def buf_eq_str)

lemma store_str_ok: "t + length cs \<le> length buf \<Longrightarrow> store_str buf t cs = Some (take t buf @ cs @ drop (t + length cs) buf)"
proof (induction cs arbitrary: t buf)
  case Nil
  then show ?case by simp
next
  case (Cons c cs)
  then have "store_str (buf[t := c]) (Suc t) cs = Some (take (Suc t) (buf[t := c]) @ cs @ drop (Suc t + length cs) (buf[t := c]))"
    by simp
  moreover have "take (Suc t) (buf[t := c]) = take t buf @ [c]" using Cons.prems by (simp add: take_Suc_conv_app_nth)
  ultimately show ?case using Cons.prems by (simp add: aset_in)
qed

lemma store_name:
  assumes "length name < length buf" and "0 \<notin> set name"
  shows "\<exists>l1 l2. store_str buf 0 name = Some l1 \<and> aset l1 (length name) 0 = Some l2 \<and> holds_str (length buf) l2 name
    \<and> l2 = name @ 0 # drop (Suc (length name)) buf"
proof -
  have "buf = take (length name) buf @ buf ! length name # drop (Suc (length name)) buf"
    using assms(1) by (simp add: id_take_nth_drop)
  then have "drop (length name) buf = buf ! length name # drop (Suc (length name)) buf"
    using assms(1) by (simp add: Cons_nth_drop_Suc)
  then show ?thesis using assms
    by (simp add: store_str_ok aset_in holds_str_def list_update_append)
qed

lemma friend_search_find:
  assumes "forest fs p ts" and "holds_str n l name"
  shows "friend_search fs l p = Some (case find (\<lambda>t. ft_name t = name) ts of None \<Rightarrow> NULL | Some t \<Rightarrow> ft_ptr t)"
  using assms(1)
proof (induction ts arbitrary: p)
  case Nil
  then show ?case by (subst friend_search.simps) simp
next
  case (Cons t ts)
  obtain q nm cs where t: "t = FTree q nm cs" by (cases t)
  with Cons.prems obtain f where f: "p = q" "q \<noteq> NULL" "fs q = Some f" "holds_str MAXFILEPATH (f_name f) nm" "forest fs (f_next f) ts"
    by auto
  show ?case using f buf_eq_holds[OF f(4) assms(2)] Cons.IH[OF f(5)]
    by (subst friend_search.simps) (simp add: t)
qed

lemma forest_find:
  "forest fs p ts \<Longrightarrow> find P ts = Some t \<Longrightarrow>
     ft_ptr t \<noteq> NULL \<and> (\<exists>f. fs (ft_ptr t) = Some f \<and> forest fs (f_child f) (ft_children t))"
proof (induction ts arbitrary: p)
  case (Cons u ts)
  then show ?case by (cases u) (auto split: if_splits)
qed simp

lemma resolve_end_ok: "length pth \<le> length l \<Longrightarrow> \<exists>l'. resolve_end pth l prev = Some (NULL, l', prev)"
  by (simp add: resolve_end_def store_str_ok)

lemma resolve_loop_lookup:
  assumes "forest fs p ts" and "0 \<notin> set pth" and "length pth < length l"
  shows "\<exists>l' prev'. resolve_loop fs p pth l prev = Some (lookup ts (components pth), l', prev')"
  using assms
proof (induction "length pth" arbitrary: pth p ts l prev rule: less_induct)
  case less
  show ?case
  proof (cases "pth = []")
    case True
    then show ?thesis using resolve_end_ok[of "[]" l prev] by (subst resolve_loop.simps) auto
  next
    case False
    show ?thesis
    proof (cases "p = NULL")
      case True
      then have "ts = []" using less.prems(1) by (cases ts) (auto elim: forest.elims)
      then show ?thesis using True resolve_end_ok[of pth l prev] less.prems(3) False
        by (subst resolve_loop.simps, subst components.simps) auto
    next
      case nz: False
      let ?name = "takeWhile (\<lambda>c. c \<noteq> 47) pth" and ?rest = "tl (dropWhile (\<lambda>c. c \<noteq> 47) pth)"
      have len: "length ?name < length l" using less.prems(3) length_takeWhile_le[of _ pth] le_less_trans by blast
      have "0 \<notin> set ?name" using less.prems(2) by (meson set_takeWhileD)
      from store_name[OF len this] obtain l1 l2 where
        l: "store_str l 0 ?name = Some l1" "aset l1 (length ?name) 0 = Some l2" "holds_str (length l) l2 ?name" by blast
      have l2: "length l2 = length l" using l(3) by (simp add: holds_str_def)
      note fs = friend_search_find[OF less.prems(1) l(3)]
      have short: "length ?rest < length pth" by (rule rest_shorter[OF False])
      have r0: "0 \<notin> set ?rest" 
      proof
        assume "0 \<in> set ?rest"
        then have "0 \<in> set (dropWhile (\<lambda>c. c \<noteq> 47) pth)" by (cases "dropWhile (\<lambda>c. c \<noteq> 47) pth") auto
        then show False using less.prems(2) by (auto dest: set_dropWhileD)
      qed
      show ?thesis
      proof (cases "find (\<lambda>t. ft_name t = ?name) ts")
        case None
        have "length ?rest \<le> length l2" using short less.prems(3) l2 by linarith
        from resolve_end_ok[OF this, of prev] obtain l' where "resolve_end ?rest l2 prev = Some (NULL, l', prev)" by blast
        then show ?thesis using nz False l fs None
          by (subst resolve_loop.simps, subst components.simps) (simp add: Let_def)
      next
        case (Some t)
        from forest_find[OF less.prems(1) this] obtain f where
          f: "ft_ptr t \<noteq> NULL" "fs (ft_ptr t) = Some f" "forest fs (f_child f) (ft_children t)" by blast
        show ?thesis
        proof (cases "?rest = []")
          case True
          then show ?thesis using nz False l fs f Some
            by (subst resolve_loop.simps, subst components.simps) (simp add: Let_def)
        next
          case nr: False
          from less.hyps[OF short f(3) r0, of l2 "ft_ptr t"] short less.prems(3) l2
          obtain l' prev' where "resolve_loop fs (f_child f) ?rest l2 (ft_ptr t) =
              Some (lookup (ft_children t) (components ?rest), l', prev')" by auto
          then show ?thesis using nz False l fs f Some nr
            by (subst resolve_loop.simps, subst components.simps) (simp add: Let_def)
        qed
      qed
    qed
  qed
qed

text \<open>C16: For every tree of files and every path that fits the array, \<open>file_resolve\<close> returns the file that
  the names of the path lead to (the first friend with the name, at each level), and NULL where there is none.\<close>
theorem file_resolve_lookup:
  assumes "forest (files s) p ts" and "0 \<notin> set pth" and "length pth < length l"
  shows "\<exists>l' prev'. file_resolve p pth l s = Some (lookup ts (components pth), l', prev')"
  unfolding file_resolve_def by (rule resolve_loop_lookup[OF assms])


text \<open>The tree "" with a file "ab" that has a file "c".\<close>
definition sample_file :: "u8 list \<Rightarrow> u32 \<Rightarrow> u32 \<Rightarrow> file_t" where
  "sample_file name nxt child = \<lparr>f_fs = 0x10, f_name = name @ replicate (MAXFILEPATH - length name) 0, f_data = NULL,
     f_keys = list_init, f_vals = list_init, f_next = nxt, f_child = child\<rparr>"

definition sample_files :: "u32 \<Rightarrow> file_t option" where
  "sample_files = [0x100 \<mapsto> sample_file [] NULL 0x200, 0x200 \<mapsto> sample_file [97, 98] NULL 0x300, 0x300 \<mapsto> sample_file [99] NULL NULL]"

definition sample_fstate :: "unit fstate" where
  "sample_fstate = \<lparr>heap = (), mem = (\<lambda>_. None), files = sample_files, refs = (\<lambda>_. None), pairs = (\<lambda>_. None),
     fss = [0x10 \<mapsto> \<lparr>fs_op = Vfs_ops, fs_data = 0x100\<rparr>], vnodes = (\<lambda>_. None), mounts = (\<lambda>_. None), root_ptr = 0x20,
     current_task = 0x30, task_files = [0x30 \<mapsto> \<lparr>max_fid = 0, t_pairs = list_init\<rparr>]\<rparr>"

definition sample_tree :: "ftree list" where
  "sample_tree = [FTree 0x100 [] [FTree 0x200 [97, 98] [FTree 0x300 [99] []]]]"

lemma holds_str_padded: "0 \<notin> set name \<Longrightarrow> length name < n \<Longrightarrow> holds_str n (name @ replicate (n - length name) 0) name"
  by (cases "n - length name") (auto simp: holds_str_def)

lemma sample_forest: "forest (files sample_fstate) 0x100 sample_tree"
proof -
  have h: "holds_str MAXFILEPATH (f_name (sample_file name nxt child)) name" if "0 \<notin> set name" "length name < 128" for name nxt child
    using holds_str_padded[of name MAXFILEPATH] that by (simp add: sample_file_def MAXFILEPATH_def)
  show ?thesis unfolding sample_tree_def
    using h[of "[]" NULL "0x200"] h[of "[97, 98]" NULL "0x300"] h[of "[99]" NULL NULL]
    by (simp add: sample_fstate_def sample_files_def) (simp add: sample_file_def)
qed

theorem file_resolve_lookup_witness:
  "\<exists>l' prev'. file_resolve 0x100 [47, 97, 98, 47, 99] (replicate 128 0) sample_fstate =
     Some (lookup sample_tree (components [47, 97, 98, 47, 99]), l', prev')"
  by (rule file_resolve_lookup[OF sample_forest]) simp_all

text \<open>A file that is not there, in a directory that is.\<close>
lemma resolve_new:
  assumes nz: "root \<noteq> NULL" "d \<noteq> NULL" and f: "files s root = Some fr" "holds_str MAXFILEPATH (f_name fr) []" "f_child fr = d"
    and fd: "files s d = Some fd" "holds_str MAXFILEPATH (f_name fd) dn" "f_child fd = NULL"
    and dn: "0 \<notin> set dn" "47 \<notin> set dn" and n: "n \<noteq> []" and len: "length dn + length n < length l" and l: "length l = MAXFILEPATH"
  shows "\<exists>junk. file_resolve root (47 # dn @ 47 # n) l s = Some (NULL, n @ drop (length n) (dn @ 0 # junk), d)"
proof -
  have tw: "takeWhile (\<lambda>c. c \<noteq> 47) (dn @ 47 # n) = dn" "dropWhile (\<lambda>c. c \<noteq> 47) (dn @ 47 # n) = 47 # n"
    using dn(2) by (auto simp: takeWhile_append dropWhile_append)
  obtain l1 where l1: "aset l 0 0 = Some l1" "holds_str (length l) l1 []"
    using store_name[of "[]" l] len by fastforce
  then have ll: "length l1 = length l" by (simp add: holds_str_def)
  from store_name[of dn l1] dn len ll obtain l2 l3 where
    l3: "store_str l1 0 dn = Some l2" "aset l2 (length dn) 0 = Some l3" "holds_str (length l1) l3 dn"
      "l3 = dn @ 0 # drop (Suc (length dn)) l1" by auto
  have s1: "friend_search (files s) l1 root = Some root"
    using nz f buf_eq_holds[OF f(2) l1(2)] by (subst friend_search.simps) simp
  have s2: "friend_search (files s) l3 d = Some d"
    using nz fd buf_eq_holds[OF fd(2) l3(3)] by (subst friend_search.simps) simp
  have e: "resolve_end n l3 d = Some (NULL, n @ drop (length n) l3, d)"
    using len ll l3(3) by (simp add: resolve_end_def store_str_ok holds_str_def)
  have r3: "resolve_loop (files s) NULL n l3 d = Some (NULL, n @ drop (length n) l3, d)"
    using e by (subst resolve_loop.simps) simp
  have r2: "resolve_loop (files s) d (dn @ 47 # n) l1 root = Some (NULL, n @ drop (length n) l3, d)"
    using nz n l3 s2 fd r3 by (subst resolve_loop.simps) (simp add: tw)
  have "file_resolve root (47 # dn @ 47 # n) l s = Some (NULL, n @ drop (length n) l3, d)"
    using nz l1 s1 f r2 unfolding file_resolve_def by (subst resolve_loop.simps) simp
  then show ?thesis using l3(4) by blast
qed

definition bump_ops :: "u32 mem_ops" where
  "bump_ops = \<lparr>o_malloc = (\<lambda>n h. Some (h, h + n)), o_realloc = (\<lambda>p bs n h. Some (h, bs @ replicate (unat n - length bs) 0, h + n)),
     o_free = (\<lambda>p h. Some h)\<rparr>"

definition bump_fstate :: "u32 fstate" where
  "bump_fstate = \<lparr>heap = 0x1000, mem = (\<lambda>_. None), files = sample_files(0x200 \<mapsto> sample_file [97, 98] NULL NULL),
     refs = (\<lambda>_. None), pairs = (\<lambda>_. None), fss = [0x10 \<mapsto> \<lparr>fs_op = Vfs_ops, fs_data = 0x100\<rparr>],
     vnodes = (\<lambda>_. None), mounts = (\<lambda>_. None), root_ptr = 0x20, current_task = 0x30,
     task_files = [0x30 \<mapsto> \<lparr>max_fid = 0, t_pairs = list_init\<rparr>]\<rparr>"

text \<open>Opening a new file for writing in an empty directory does not give it its name: what is left of the
  path is copied over the directory's name without a NUL, so a name shorter than the directory's keeps its tail.\<close>
lemma vfs_open_new_name:
  assumes "fss s fs = Some f" and "fs_data f = root" and "root \<noteq> NULL" "d \<noteq> NULL"
    and "files s root = Some fr" "holds_str MAXFILEPATH (f_name fr) []" "f_child fr = d"
    and "files s d = Some fd" "holds_str MAXFILEPATH (f_name fd) dn" "f_child fd = NULL"
    and "47 \<notin> set dn" and "n \<noteq> []" "0 \<notin> set n" "47 \<notin> set n" "length n < length dn" "length dn + length n < MAXFILEPATH"
  shows "vfs_open M fs (47 # dn @ 47 # n) O_WRT s =
    do { (file, s1) \<leftarrow> vfs_create M fs (n @ drop (length n) dn) d s; file_ref_new M file O_WRT s1 }"
proof -
  have z: "0 \<notin> set dn" using assms(9) by (simp add: holds_str_def)
  obtain junk where r: "file_resolve root (47 # dn @ 47 # n) (replicate MAXFILEPATH 0) s
      = Some (NULL, n @ drop (length n) (dn @ 0 # junk), d)"
    using resolve_new[OF assms(3,4,5,6,7,8,9,10) z assms(11,12), of "replicate MAXFILEPATH 0"] assms(16) by auto
  have zs: "0 \<notin> set (n @ drop (length n) dn)" "47 \<notin> set (n @ drop (length n) dn)"
    using z assms(11,13,14) by (auto dest: in_set_dropD)
  have "buf_str ((n @ drop (length n) dn) @ 0 # junk) = Some (n @ drop (length n) dn)"
    using zs(1) unfolding buf_str_def by (subst takeWhile_append2) auto
  moreover have "(n @ drop (length n) dn) @ 0 # junk = n @ drop (length n) (dn @ 0 # junk)" using assms(15) by simp
  ultimately have b: "buf_str (n @ drop (length n) (dn @ 0 # junk)) = Some (n @ drop (length n) dn)" by simp
  show ?thesis using assms(1,2,4) r b zs(2) by (simp add: vfs_open_def O_WRT_def O_RD_def Let_def)
qed

lemma vfs_open_new_name_witness:
  "vfs_open bump_ops 0x10 (47 # [97, 98] @ 47 # [100]) O_WRT bump_fstate =
    do { (file, s1) \<leftarrow> vfs_create bump_ops 0x10 ([100] @ drop (length [100 :: u8]) [97, 98]) 0x200 bump_fstate;
         file_ref_new bump_ops file O_WRT s1 }"
proof (rule vfs_open_new_name)
  show "fs_data \<lparr>fs_op = Vfs_ops, fs_data = 0x100\<rparr> = 0x100" by simp
  show "holds_str MAXFILEPATH (f_name (sample_file [] NULL 0x200)) []"
    using holds_str_padded[of "[]" MAXFILEPATH] by (simp add: sample_file_def MAXFILEPATH_def)
  show "holds_str MAXFILEPATH (f_name (sample_file [97, 98] NULL NULL)) [97, 98]"
    using holds_str_padded[of "[97, 98]" MAXFILEPATH] by (simp add: sample_file_def MAXFILEPATH_def)
qed (simp_all add: bump_fstate_def sample_files_def sample_file_def MAXFILEPATH_def)

subsection \<open>Reading a file\<close>

lemma unat_word_inverse: "of_nat (unat (w :: u32)) = w"
  by simp

lemma memcpy_slice:
  assumes "bytes_at m p content" and "i + k \<le> length content" and "length content < 4294967296"
    and "mapped m (span d k)" and "span d k \<inter> span (p + of_nat i) k = {}"
  shows "\<exists>m'. memcpy m d (p + of_nat i) (of_nat k) = Some (m', d + of_nat k)
    \<and> bytes_at m' d (take k (drop i content)) \<and> (\<forall>q. q \<notin> span d k \<longrightarrow> m' q = m q)"
proof -
  have "content = take i content @ take k (drop i content) @ drop (i + k) content"
    by (metis add.commute append_take_drop_id drop_drop)
  with assms(1) have "bytes_at m p (take i content @ take k (drop i content) @ drop (i + k) content)" by simp
  then have "bytes_at m (p + of_nat i) (take k (drop i content))"
    using assms(2) by (simp only: bytes_at_append) simp
  moreover have "length (take k (drop i content)) = k" using assms(2) by simp
  ultimately show ?thesis
    using memcpy_loop_copies[of m "p + of_nat i" "take k (drop i content)" d] assms fwd_safe_disjoint[OF assms(5)]
    by (simp add: memcpy_def unat_of_nat32)
qed

text \<open>C18: \<open>vfs_read\<close> copies the next part of the file, as much as was asked for and is left, into the buffer
  and nothing beyond it, and advances the reference by what it copied; at the end of the file it reads nothing.\<close>
theorem vfs_read_slice:
  assumes "refs s ref = Some r" and "files s (r_file r) = Some f" and "f_data f \<noteq> NULL" and "vnodes s (f_data f) = Some node"
    and "r_flags r AND O_STAT \<noteq> O_STAT" and "sint n \<ge> 0"
    and "bytes_at (mem s) (vn_data node) content" and "length content = unat (vn_len node)" and "unat (r_index r) \<le> length content"
    and "mapped (mem s) (span buffer (min (length content - unat (r_index r)) (unat n)))"
    and "span buffer (min (length content - unat (r_index r)) (unat n))
      \<inter> span (vn_data node + r_index r) (min (length content - unat (r_index r)) (unat n)) = {}"
  shows "\<exists>k s'. k = min (length content - unat (r_index r)) (unat n) \<and> vfs_read ref buffer n s = Some (of_nat k, s')
    \<and> bytes_at (mem s') buffer (take k (drop (unat (r_index r)) content))
    \<and> refs s' ref = Some (r\<lparr>r_index := r_index r + of_nat k\<rparr>)
    \<and> (\<forall>q. q \<notin> span buffer k \<longrightarrow> mem s' q = mem s q)"
proof -
  let ?i = "unat (r_index r)"
  let ?k = "min (length content - ?i) (unat n)"
  have d: "unat (vn_len node - r_index r) = length content - ?i"
    using assms(8,9) by (simp add: unat_diff_le)
  have k: "cmin (vn_len node - r_index r) n = of_nat ?k"
  proof -
    have "unat (cmin (vn_len node - r_index r) n) = ?k" by (simp add: cmin_unat d)
    then have "of_nat (unat (cmin (vn_len node - r_index r) n)) = (of_nat ?k :: u32)" by (rule arg_cong)
    then show ?thesis unfolding unat_word_inverse .
  qed
  have len: "length content < 4294967296" using assms(8) by simp
  have i: "of_nat ?i = r_index r" by simp
  have "?i + ?k \<le> length content" using assms(9) by linarith
  from memcpy_slice[OF assms(7) this len assms(10)] assms(11) obtain m' where
    m': "memcpy (mem s) buffer (vn_data node + r_index r) (of_nat ?k) = Some (m', buffer + of_nat ?k)"
      "bytes_at m' buffer (take ?k (drop ?i content))" "\<forall>q. q \<notin> span buffer ?k \<longrightarrow> m' q = mem s q"
    unfolding i by auto
  show ?thesis
  proof (cases "of_nat ?k > (0 :: u32)")
    case True
    then show ?thesis using assms(1-6) m' k
      by (intro exI[of _ ?k] exI[of _ "s\<lparr>refs := (refs s)(ref \<mapsto> r\<lparr>r_index := r_index r + of_nat ?k\<rparr>), mem := m'\<rparr>"])
        (simp add: vfs_read_def Let_def)
  next
    case False
    have "?k < 4294967296" using len by linarith
    then have "?k = 0" using False unat_of_nat32[of ?k] by (auto simp: word_less_nat_alt min_def)
    then show ?thesis using assms(1-6) k
      by (intro exI[of _ ?k] exI[of _ "s\<lparr>refs := (refs s)(ref \<mapsto> r\<lparr>r_index := r_index r + of_nat ?k\<rparr>), mem := mem s\<rparr>"])
        (simp add: vfs_read_def Let_def)
  qed
qed

text \<open>Three bytes at 0x1000, a buffer of two at 0x2000 and a reference at the second byte.\<close>
definition reading_ref :: file_ref where
  "reading_ref = \<lparr>r_fid = 0, r_file = 0x300, r_index = 1, r_task = 0x30, r_flags = O_RD\<rparr>"

definition reading_file :: file_t where
  "reading_file = (sample_file [99] NULL NULL)\<lparr>f_data := 0x500\<rparr>"

definition reading_fstate :: "unit fstate" where
  "reading_fstate = sample_fstate\<lparr>
     mem := [0x1000 \<mapsto> 7, 0x1001 \<mapsto> 8, 0x1002 \<mapsto> 9, 0x2000 \<mapsto> 0, 0x2001 \<mapsto> 0],
     files := [0x300 \<mapsto> reading_file],
     vnodes := [0x500 \<mapsto> \<lparr>vn_data = 0x1000, vn_len = 3\<rparr>],
     refs := [0x400 \<mapsto> reading_ref]\<rparr>"

theorem vfs_read_slice_witness:
  "\<exists>k s'. k = min (length [7, 8, 9 :: u8] - unat (r_index reading_ref)) (unat (2 :: u32))
    \<and> vfs_read 0x400 0x2000 2 reading_fstate = Some (of_nat k, s')
    \<and> bytes_at (mem s') 0x2000 (take k (drop (unat (r_index reading_ref)) [7, 8, 9]))
    \<and> refs s' 0x400 = Some (reading_ref\<lparr>r_index := r_index reading_ref + of_nat k\<rparr>)
    \<and> (\<forall>q. q \<notin> span 0x2000 k \<longrightarrow> mem s' q = mem reading_fstate q)"
proof (rule vfs_read_slice)
  let ?k = "min (length [7, 8, 9 :: u8] - unat (r_index reading_ref)) (unat (2 :: u32))"
  have k: "?k = Suc (Suc 0)" by (simp add: reading_ref_def)
  have sp: "span 0x2000 ?k = {0x2000, 0x2001}" "span (0x1000 + r_index reading_ref) ?k = {0x1001, 0x1002}"
    unfolding k span_Suc span_0 by (simp_all add: reading_ref_def)
  show "refs reading_fstate 0x400 = Some reading_ref" by (simp add: reading_fstate_def)
  show "files reading_fstate (r_file reading_ref) = Some reading_file"
    by (simp add: reading_fstate_def reading_ref_def)
  show "f_data reading_file \<noteq> NULL" by (simp add: reading_file_def)
  show "vnodes reading_fstate (f_data reading_file) = Some \<lparr>vn_data = 0x1000, vn_len = 3\<rparr>"
    by (simp add: reading_fstate_def reading_file_def)
  show "r_flags reading_ref AND O_STAT \<noteq> O_STAT" by (simp add: reading_ref_def O_RD_def O_STAT_def)
  show "bytes_at (mem reading_fstate) (vn_data \<lparr>vn_data = 0x1000, vn_len = 3\<rparr>) [7, 8, 9]"
    by (simp add: reading_fstate_def)
  show "mapped (mem reading_fstate) (span 0x2000 ?k)"
    unfolding sp by (simp add: reading_fstate_def)
  have "vn_data \<lparr>vn_data = 0x1000, vn_len = 3\<rparr> = 0x1000" by simp
  then show "span 0x2000 ?k \<inter> span (vn_data \<lparr>vn_data = 0x1000, vn_len = 3\<rparr> + r_index reading_ref) ?k = {}"
    by (simp only: sp) simp
qed (simp_all add: reading_ref_def)

subsection \<open>Mounting\<close>

text \<open>\<open>mount_node_init\<close> writes the path and empties the list of children of \<open>root_node\<close>, whatever node it
  initialises: a mount forgets every mount before it, and the new node has an empty path, which is never found.\<close>
lemma mount_node_init_clobbers_root:
  assumes "mounts s (root_ptr s) = Some r" and "length (m_path r) = MAXFILEPATH" and "node \<noteq> root_ptr s"
    and "0 \<notin> set pth" and "length pth < MAXFILEPATH"
  shows "\<exists>s' r' n'. mount_node_init node fs pth s = Some s'
    \<and> mounts s' (root_ptr s) = Some r' \<and> m_children r' = list_init \<and> buf_str (m_path r') = Some pth \<and> m_fs r' = m_fs r
    \<and> mounts s' node = Some n' \<and> m_fs n' = fs \<and> buf_str (m_path n') = Some []
    \<and> (\<forall>c str. c \<noteq> 0 \<longrightarrow> buf_eq (c # str @ [0]) (m_path n') = Some False)"
proof -
  have b: "store_str (m_path r) 0 (pth @ [0]) = Some ((pth @ [0]) @ drop (length (pth @ [0])) (m_path r))"
    using assms(2,5) by (simp add: store_str_ok)
  have z: "replicate MAXFILEPATH (0 :: u8) = 0 # replicate 127 0"
    by (simp add: MAXFILEPATH_def eval_nat_numeral)
  have "buf_str ((pth @ [0]) @ drop (length (pth @ [0])) (m_path r)) = Some pth"
    using assms(4) by (auto simp: buf_str_def takeWhile_append)
  then show ?thesis using assms b by (auto simp: mount_node_init_def z buf_str_def)
qed

lemma mount_node_init_clobbers_root_witness:
  "\<exists>s' r' n'. mount_node_init 0x600 0x11 [100] (sample_fstate\<lparr>mounts := [0x20 \<mapsto> \<lparr>m_path = 47 # replicate 127 0, m_children = list_init\<lparr>l_index := 1\<rparr>, m_fs = 0x10\<rparr>]\<rparr>) = Some s'
    \<and> mounts s' 0x20 = Some r' \<and> m_children r' = list_init \<and> buf_str (m_path r') = Some [100] \<and> m_fs r' = 0x10
    \<and> mounts s' 0x600 = Some n' \<and> m_fs n' = 0x11 \<and> buf_str (m_path n') = Some []
    \<and> (\<forall>c str. c \<noteq> 0 \<longrightarrow> buf_eq (c # str @ [0]) (m_path n') = Some False)"
  using mount_node_init_clobbers_root[of "sample_fstate\<lparr>mounts := [0x20 \<mapsto> \<lparr>m_path = 47 # replicate 127 0, m_children = list_init\<lparr>l_index := 1\<rparr>, m_fs = 0x10\<rparr>]\<rparr>"
      "\<lparr>m_path = 47 # replicate 127 0, m_children = list_init\<lparr>l_index := 1\<rparr>, m_fs = 0x10\<rparr>" "0x600" "[100]" "0x11"]
  by (simp add: sample_fstate_def MAXFILEPATH_def)

end
