(* ===== verification/Ports.thy ===== *)
theory Ports
  imports Prelude
begin

text \<open>
  Talking to devices: \<open>src/src/include/arch/i386/io.h\<close> and the 8259 interrupt controllers of
  \<open>src/src/arch/i386/interrupts/pic.c\<close>. A device is what the processor sees of it: every port access and
  every access to a device register is an event, and what a read yields is a function (\<open>device\<close>) of the
  events so far. The events are kept in a record that the states of the drivers extend, oldest event first.
\<close>

datatype io_event = OutB u16 u8 | OutW u16 u16 | OutL u16 u32 | InB u16 u8 | InW u16 u16 | InL u16 u32
  | RegW u32 u32 | RegR u32 u32

datatype io_place = Port u16 | Reg u32

type_synonym device = "io_event list \<Rightarrow> io_place \<Rightarrow> u32"

record io = io_log :: "io_event list"

definition io_event :: "io_event \<Rightarrow> 'a io_scheme \<Rightarrow> 'a io_scheme" where
  "io_event e s = s\<lparr>io_log := io_log s @ [e]\<rparr>"

definition outportb :: "u16 \<Rightarrow> u8 \<Rightarrow> 'a io_scheme \<Rightarrow> 'a io_scheme" where
  "outportb port val = io_event (OutB port val)"

definition outportw :: "u16 \<Rightarrow> u16 \<Rightarrow> 'a io_scheme \<Rightarrow> 'a io_scheme" where
  "outportw port val = io_event (OutW port val)"

definition outportl :: "u16 \<Rightarrow> u32 \<Rightarrow> 'a io_scheme \<Rightarrow> 'a io_scheme" where
  "outportl port val = io_event (OutL port val)"

definition inportb :: "device \<Rightarrow> u16 \<Rightarrow> 'a io_scheme \<Rightarrow> u8 \<times> 'a io_scheme" where
  "inportb dev port s = (let v = ucast (dev (io_log s) (Port port)) in (v, io_event (InB port v) s))"

definition inportw :: "device \<Rightarrow> u16 \<Rightarrow> 'a io_scheme \<Rightarrow> u16 \<times> 'a io_scheme" where
  "inportw dev port s = (let v = ucast (dev (io_log s) (Port port)) in (v, io_event (InW port v) s))"

definition inportl :: "device \<Rightarrow> u16 \<Rightarrow> 'a io_scheme \<Rightarrow> u32 \<times> 'a io_scheme" where
  "inportl dev port s = (let v = dev (io_log s) (Port port) in (v, io_event (InL port v) s))"

text \<open>\<open>io_wait\<close> is two jumps to the next instruction.\<close>
definition io_wait :: "'a io_scheme \<Rightarrow> 'a io_scheme" where
  "io_wait s = s"

text \<open>A device register in memory.\<close>
definition reg_write :: "u32 \<Rightarrow> u32 \<Rightarrow> 'a io_scheme \<Rightarrow> 'a io_scheme" where
  "reg_write addr val = io_event (RegW addr val)"

definition reg_read :: "device \<Rightarrow> u32 \<Rightarrow> 'a io_scheme \<Rightarrow> u32 \<times> 'a io_scheme" where
  "reg_read dev addr s = (let v = dev (io_log s) (Reg addr) in (v, io_event (RegR addr v) s))"

subsection \<open>pic.c\<close>

definition PIC_CMD_1 :: u16 where "PIC_CMD_1 = 0x20"
definition PIC_CMD_2 :: u16 where "PIC_CMD_2 = 0xA0"
definition PIC_DATA_1 :: u16 where "PIC_DATA_1 = 0x21"
definition PIC_DATA_2 :: u16 where "PIC_DATA_2 = 0xA1"
definition PIC_EOI :: u8 where "PIC_EOI = 0x20"
definition PIC_INIT :: u8 where "PIC_INIT = 0x11"
definition PIC_READ_ISR :: u8 where "PIC_READ_ISR = 0x0B"
definition PIC_READ_IRR :: u8 where "PIC_READ_IRR = 0x0A"

definition pic_enable :: "device \<Rightarrow> u32 \<Rightarrow> u32 \<Rightarrow> 'a io_scheme \<Rightarrow> 'a io_scheme" where
  "pic_enable dev master_offset slave_offset s = (let
     (master_mask, s1) = inportb dev PIC_DATA_1 s;
     (slave_mask, s2) = inportb dev PIC_DATA_2 s1;
     s3 = io_wait (outportb PIC_CMD_1 PIC_INIT s2);
     s4 = io_wait (outportb PIC_CMD_2 PIC_INIT s3);
     s5 = io_wait (outportb PIC_DATA_1 (ucast master_offset) s4);
     s6 = io_wait (outportb PIC_DATA_2 (ucast slave_offset) s5);
     s7 = io_wait (outportb PIC_DATA_1 4 s6);
     s8 = io_wait (outportb PIC_DATA_2 2 s7);
     s9 = io_wait (outportb PIC_DATA_1 1 s8);
     s10 = io_wait (outportb PIC_DATA_2 1 s9);
     s11 = io_wait (outportb PIC_DATA_1 master_mask s10)
   in io_wait (outportb PIC_DATA_2 slave_mask s11))"

definition pic_eoi :: "u8 \<Rightarrow> 'a io_scheme \<Rightarrow> 'a io_scheme" where
  "pic_eoi irq s =
     io_wait (outportb PIC_CMD_1 PIC_EOI (if irq \<ge> 8 then outportb PIC_CMD_2 PIC_EOI s else s))"

definition pic_disable :: "'a io_scheme \<Rightarrow> 'a io_scheme" where
  "pic_disable s =
     pic_eoi 8 (io_wait (outportb PIC_DATA_2 0xFF (io_wait (outportb PIC_DATA_1 0xFF s))))"

text \<open>The two status registers. The operands of \<open>|\<close> are read from left to right.\<close>
definition pic_read_regs :: "device \<Rightarrow> u8 \<Rightarrow> 'a io_scheme \<Rightarrow> u16 \<times> 'a io_scheme" where
  "pic_read_regs dev cmd s = (let
     s1 = io_wait (outportb PIC_CMD_2 cmd (outportb PIC_CMD_1 cmd s));
     (hi, s2) = inportb dev PIC_CMD_2 s1;
     (lo, s3) = inportb dev PIC_CMD_1 s2
   in (push_bit 8 (ucast hi) OR ucast lo, s3))"

definition pic_get_irr :: "device \<Rightarrow> 'a io_scheme \<Rightarrow> u16 \<times> 'a io_scheme" where
  "pic_get_irr dev = pic_read_regs dev PIC_READ_IRR"

definition pic_get_isr :: "device \<Rightarrow> 'a io_scheme \<Rightarrow> u16 \<times> 'a io_scheme" where
  "pic_get_isr dev = pic_read_regs dev PIC_READ_ISR"

text \<open>The bit of an interrupt in its controller's mask: \<open>1 << irq\<close> is an \<open>int\<close>, cut to a byte.\<close>
definition pic_bit :: "u8 \<Rightarrow> u8" where
  "pic_bit irq = ucast (push_bit (unat irq) (1 :: u32))"

definition pic_mask :: "device \<Rightarrow> u8 \<Rightarrow> 'a io_scheme \<Rightarrow> 'a io_scheme" where
  "pic_mask dev irq s =
     (if irq \<ge> 8 then (let (m, s1) = inportb dev PIC_DATA_2 s in outportb PIC_DATA_2 (m OR pic_bit (irq - 8)) s1)
      else (let (m, s1) = inportb dev PIC_DATA_1 s in outportb PIC_DATA_1 (m OR pic_bit irq) s1))"

definition pic_unmask :: "device \<Rightarrow> u8 \<Rightarrow> 'a io_scheme \<Rightarrow> 'a io_scheme" where
  "pic_unmask dev irq s =
     (if irq \<ge> 8 then (let (m, s1) = inportb dev PIC_DATA_2 s in outportb PIC_DATA_2 (m AND NOT (pic_bit (irq - 8))) s1)
      else (let (m, s1) = inportb dev PIC_DATA_1 s in outportb PIC_DATA_1 (m AND NOT (pic_bit irq)) s1))"

subsection \<open>Ports that hold what was written to them\<close>

text \<open>The last byte written to a port.\<close>
fun last_out :: "u16 \<Rightarrow> io_event list \<Rightarrow> u8 option" where
  "last_out port [] = None"
| "last_out port (e # es) = (case last_out port es of Some v \<Rightarrow> Some v
     | None \<Rightarrow> (case e of OutB p v \<Rightarrow> if p = port then Some v else None | _ \<Rightarrow> None))"

lemma last_out_snoc:
  "last_out port (es @ [e]) = (case e of OutB p v \<Rightarrow> if p = port then Some v else last_out port es | _ \<Rightarrow> last_out port es)"
proof (induction es)
  case (Cons a es)
  then show ?case by (cases e) (auto split: option.split)
qed (simp split: io_event.split)

lemma last_out_snoc2: "last_out port (es @ [d, OutB p v]) = (if p = port then Some v else last_out port (es @ [d]))"
  using last_out_snoc[of port "es @ [d]" "OutB p v"] by simp

definition pic_remembers :: "device \<Rightarrow> bool" where
  "pic_remembers dev \<longleftrightarrow> (\<forall>log port v. (port = PIC_DATA_1 \<or> port = PIC_DATA_2) \<longrightarrow> last_out port log = Some v
     \<longrightarrow> dev log (Port port) = ucast v)"

text \<open>The interrupts that are masked, as one 16-bit mask.\<close>
definition pic_masked :: "'a io_scheme \<Rightarrow> u8 \<Rightarrow> bool" where
  "pic_masked s irq = (case last_out (if irq \<ge> 8 then PIC_DATA_2 else PIC_DATA_1) (io_log s) of
     None \<Rightarrow> False | Some m \<Rightarrow> bit m (unat irq mod 8))"

lemma pic_bit_iff: "irq < 8 \<Longrightarrow> n < 8 \<Longrightarrow> bit (pic_bit irq) n \<longleftrightarrow> n = unat irq"
  by (auto simp: pic_bit_def bit_simps word_less_nat_alt)

text \<open>C20: On controllers that hold their masks, \<open>pic_mask\<close> masks its interrupt and \<open>pic_unmask\<close> unmasks it, and
  both leave the fifteen others as they were.\<close>
theorem pic_mask_exact:
  assumes "pic_remembers dev" and "irq < 16" and "j < 16"
    and "last_out PIC_DATA_1 (io_log s) \<noteq> None" and "last_out PIC_DATA_2 (io_log s) \<noteq> None"
  shows "(pic_masked (pic_mask dev irq s) j \<longleftrightarrow> j = irq \<or> pic_masked s j)
    \<and> (pic_masked (pic_unmask dev irq s) j \<longleftrightarrow> j \<noteq> irq \<and> pic_masked s j)"
proof -
  obtain a b where ab: "last_out PIC_DATA_1 (io_log s) = Some a" "last_out PIC_DATA_2 (io_log s) = Some b"
    using assms(4,5) by auto
  have d: "dev (io_log s) (Port PIC_DATA_1) = ucast a" "dev (io_log s) (Port PIC_DATA_2) = ucast b"
    using assms(1) ab by (auto simp: pic_remembers_def)
  have ne: "PIC_DATA_1 \<noteq> PIC_DATA_2" by (simp add: PIC_DATA_1_def PIC_DATA_2_def)
  have m: "unat k mod 8 = (if k \<ge> 8 then unat (k - 8) else unat k)" if "k < 16" for k :: u8
    using that by (auto simp: word_less_nat_alt word_le_nat_alt unat_sub mod_if)
  have hi: "j = irq \<longleftrightarrow> unat j mod 8 = unat irq mod 8" if "j \<ge> 8 \<longleftrightarrow> irq \<ge> 8"
    using that assms(2,3) m[of j] m[of irq]
    by (auto simp: word_less_nat_alt word_le_nat_alt word_unat_eq_iff unat_sub split: if_splits)
  have b8: "bit (pic_bit (irq - 8)) (unat j mod 8) \<longleftrightarrow> unat j mod 8 = unat irq mod 8" if "irq \<ge> 8"
    using that assms(2) m[of irq] pic_bit_iff[of "irq - 8" "unat j mod 8"]
    by (auto simp: word_less_nat_alt word_le_nat_alt unat_sub)
  have b0: "bit (pic_bit irq) (unat j mod 8) \<longleftrightarrow> unat j mod 8 = unat irq mod 8" if "\<not> irq \<ge> 8"
    using that m[of irq] assms(2) pic_bit_iff[of irq "unat j mod 8"]
    by (auto simp: word_less_nat_alt word_le_nat_alt)
  have uu: "ucast (ucast (x :: u8) :: u32) = x" for x by (rule bit_word_eqI) (simp add: bit_simps)
  have mix: "j \<noteq> irq" if "j \<ge> 8 \<longleftrightarrow> \<not> irq \<ge> 8" using that by auto
  note defs = pic_masked_def io_event_def outportb_def inportb_def last_out_snoc last_out_snoc2 ab d Let_def uu bit_or_iff bit_and_iff bit_not_iff
  have j8: "unat j mod 8 < 8" by simp
  have mk: "pic_masked (pic_mask dev irq s) j \<longleftrightarrow> j = irq \<or> pic_masked s j"
    by (cases "irq \<ge> 8"; cases "j \<ge> 8") (use hi b8 b0 ne mix in \<open>auto simp: pic_mask_def defs\<close>)
  have um: "pic_masked (pic_unmask dev irq s) j \<longleftrightarrow> j \<noteq> irq \<and> pic_masked s j"
    by (cases "irq \<ge> 8"; cases "j \<ge> 8") (use hi b8 b0 ne mix in \<open>auto simp: pic_unmask_def defs\<close>)
  show ?thesis using mk um by blast
qed

text \<open>A controller pair that reads back the last byte written to each port.\<close>
definition latch_pic :: device where
  "latch_pic log place = (case place of Port p \<Rightarrow> (case last_out p log of None \<Rightarrow> 0 | Some v \<Rightarrow> ucast v) | Reg _ \<Rightarrow> 0)"

theorem pic_mask_exact_witness:
  "(pic_masked (pic_mask latch_pic 11 \<lparr>io_log = [OutB PIC_DATA_1 0, OutB PIC_DATA_2 0]\<rparr>) 12
     \<longleftrightarrow> (12 :: u8) = 11 \<or> pic_masked \<lparr>io_log = [OutB PIC_DATA_1 0, OutB PIC_DATA_2 0]\<rparr> 12)
   \<and> (pic_masked (pic_unmask latch_pic 11 \<lparr>io_log = [OutB PIC_DATA_1 0, OutB PIC_DATA_2 0]\<rparr>) 12
     \<longleftrightarrow> (12 :: u8) \<noteq> 11 \<and> pic_masked \<lparr>io_log = [OutB PIC_DATA_1 0, OutB PIC_DATA_2 0]\<rparr> 12)"
  by (rule pic_mask_exact) (auto simp: pic_remembers_def latch_pic_def PIC_DATA_1_def PIC_DATA_2_def)

end
