(* ===== verification/Interrupts.thy ===== *)
theory Interrupts
  imports Ports
begin

text \<open>
  Interrupt delivery: \<open>idt.c\<close> and the gates \<open>exception.c\<close> installs, the local and the I/O interrupt
  controllers (\<open>lapic.c\<close>, \<open>ioapic.c\<close>) and the dispatch in \<open>irq.c\<close>, all under
  \<open>src/src/arch/i386/interrupts\<close>. A handler either returns or leaves through \<open>irq_exit\<close> with another
  stack (\<open>Jump\<close>), which is how a task switch ends; what a handler does is the argument \<open>call\<close>.
  \<open>vasa_alloc\<close> and \<open>paging_map\<close> are arguments, as is what \<open>cpuid\<close> reports.
\<close>

record idt_gate =
  offset_low :: u16
  selector :: u16
  unused :: u8
  flags :: u8
  offset_high :: u16

text \<open>\<open>apic_msr\<close> is the low word of the model-specific register \<open>IA32_APIC_BASE_MSR\<close>.\<close>
record apic = io +
  gates :: "idt_gate list"
  idtp_size :: u16
  lapic_base :: u32
  ioapic_base :: u32
  apic_msr :: u32

subsection \<open>idt.c\<close>

definition IDT_GATE_COUNT :: nat where "IDT_GATE_COUNT = 256"

definition idt_set_gate :: "u32 \<Rightarrow> u32 \<Rightarrow> u16 \<Rightarrow> u8 \<Rightarrow> 'a apic_scheme \<Rightarrow> 'a apic_scheme" where
  "idt_set_gate gate address sel fl s =
     (if unat gate \<ge> IDT_GATE_COUNT then s
      else s\<lparr>gates := (gates s)[unat gate :=
        \<lparr>offset_low = ucast (address AND 0xFFFF), selector = sel, unused = 0, flags = fl,
         offset_high = ucast (drop_bit 16 address AND 0xFFFF)\<rparr>]\<rparr>)"

definition idt_load :: "'a apic_scheme \<Rightarrow> 'a apic_scheme" where
  "idt_load s = s\<lparr>idtp_size := 8 * of_nat IDT_GATE_COUNT - 1\<rparr>"

fun set_gates_loop :: "(nat \<Rightarrow> u32) \<Rightarrow> (nat \<Rightarrow> u32) \<Rightarrow> nat \<Rightarrow> nat \<Rightarrow> 'a apic_scheme \<Rightarrow> 'a apic_scheme" where
  "set_gates_loop num addr i 0 s = s"
| "set_gates_loop num addr i (Suc n) s = set_gates_loop num addr (Suc i) n (idt_set_gate (num i) (addr i) 0x08 0x8E s)"

text \<open>\<open>idt_empty_entry\<close> is the address of that function.\<close>
definition idt_init :: "u32 \<Rightarrow> 'a apic_scheme \<Rightarrow> 'a apic_scheme" where
  "idt_init idt_empty_entry s = set_gates_loop of_nat (\<lambda>_. idt_empty_entry) 0 IDT_GATE_COUNT s"

text \<open>\<open>stub n\<close> is the address of \<open>exception_stub\<close>\<open>n\<close>.\<close>
definition exception_init :: "(nat \<Rightarrow> u32) \<Rightarrow> 'a apic_scheme \<Rightarrow> 'a apic_scheme" where
  "exception_init stub s = set_gates_loop of_nat stub 0 20 s"

definition irq_init :: "u32 \<Rightarrow> 'a apic_scheme \<Rightarrow> 'a apic_scheme" where
  "irq_init irq_common_stub s = set_gates_loop (\<lambda>i. of_nat i + 0x20) (\<lambda>_. irq_common_stub) 0 16 s"

subsection \<open>lapic.c\<close>

definition APIC_REG_ID :: u32 where [simp]: "APIC_REG_ID = 0x20"
definition APIC_REG_VERSION :: u32 where [simp]: "APIC_REG_VERSION = 0x30"
definition APIC_REG_TASK_PRIORITY :: u32 where [simp]: "APIC_REG_TASK_PRIORITY = 0x80"
definition APIC_REG_END_OF_INTERRUPT :: u32 where [simp]: "APIC_REG_END_OF_INTERRUPT = 0xB0"
definition APIC_REG_LOGICAL_DESTINATION :: u32 where [simp]: "APIC_REG_LOGICAL_DESTINATION = 0xD0"
definition APIC_REG_DESTINATION_FORMAT :: u32 where [simp]: "APIC_REG_DESTINATION_FORMAT = 0xE0"
definition APIC_REG_SPURIOUS_INTERRUPT :: u32 where [simp]: "APIC_REG_SPURIOUS_INTERRUPT = 0xF0"
definition APIC_REG_INSERVICE_ROUTINE :: u32 where [simp]: "APIC_REG_INSERVICE_ROUTINE = 0x100"
definition APIC_REG_ERROR_STATUS :: u32 where [simp]: "APIC_REG_ERROR_STATUS = 0x280"
definition APIC_REG_INTERRUPT_CMD_LOW :: u32 where [simp]: "APIC_REG_INTERRUPT_CMD_LOW = 0x300"
definition APIC_REG_INTERRUPT_CMD_HIGH :: u32 where [simp]: "APIC_REG_INTERRUPT_CMD_HIGH = 0x310"
definition APIC_ICR_CMD_INIT :: u32 where [simp]: "APIC_ICR_CMD_INIT = 0x500"
definition APIC_ICR_CMD_STARTUP :: u32 where [simp]: "APIC_ICR_CMD_STARTUP = 0x600"
definition APIC_ICR_PHYSICAL :: u32 where [simp]: "APIC_ICR_PHYSICAL = 0"
definition APIC_ICR_SEND_PENDING :: u32 where [simp]: "APIC_ICR_SEND_PENDING = 0x1000"
definition APIC_ICR_ASSERT :: u32 where [simp]: "APIC_ICR_ASSERT = 0x4000"
definition APIC_ICR_EDGE :: u32 where [simp]: "APIC_ICR_EDGE = 0"

definition bit_APIC :: u32 where [simp]: "bit_APIC = 0x200"
definition IA32_APIC_BASE_MSR_X2APIC :: u32 where [simp]: "IA32_APIC_BASE_MSR_X2APIC = 0x400"
definition IA32_APIC_BASE_MSR_ENABLE :: u32 where [simp]: "IA32_APIC_BASE_MSR_ENABLE = 0x800"

definition apic_supported :: "u32 option \<Rightarrow> bool" where
  "apic_supported cpuid_edx = (case cpuid_edx of None \<Rightarrow> False | Some edx \<Rightarrow> edx AND bit_APIC \<noteq> 0)"

definition lapic_is_x2apic :: "'a apic_scheme \<Rightarrow> bool" where
  "lapic_is_x2apic s \<longleftrightarrow> apic_msr s AND IA32_APIC_BASE_MSR_X2APIC = IA32_APIC_BASE_MSR_X2APIC"

definition lapic_set_base :: "u32 \<Rightarrow> 'a apic_scheme \<Rightarrow> 'a apic_scheme" where
  "lapic_set_base apic s = s\<lparr>apic_msr := (apic AND 0xfffff000) OR IA32_APIC_BASE_MSR_ENABLE\<rparr>"

definition lapic_get_base :: "'a apic_scheme \<Rightarrow> u32" where
  "lapic_get_base s = apic_msr s AND 0xfffff000"

definition lapic_register_readl :: "device \<Rightarrow> u32 \<Rightarrow> 'a apic_scheme \<Rightarrow> u32 \<times> 'a apic_scheme" where
  "lapic_register_readl dev reg s = reg_read dev (lapic_base s + reg) s"

text \<open>Every write is followed by a read of the id register.\<close>
definition lapic_register_writel :: "device \<Rightarrow> u32 \<Rightarrow> u32 \<Rightarrow> 'a apic_scheme \<Rightarrow> 'a apic_scheme" where
  "lapic_register_writel dev reg value s =
     snd (lapic_register_readl dev APIC_REG_ID (reg_write (lapic_base s + reg) value s))"

definition lapic_get_id :: "device \<Rightarrow> 'a apic_scheme \<Rightarrow> u32 \<times> 'a apic_scheme" where
  "lapic_get_id dev s = (let (v, s1) = lapic_register_readl dev APIC_REG_ID s in (drop_bit 24 v, s1))"

text \<open>The wait for the delivery status (\<open>APIC_ICR_SEND_PENDING\<close>); undefined if the device never clears it.\<close>
partial_function (option) lapic_wait :: "device \<Rightarrow> 'a apic_scheme \<Rightarrow> 'a apic_scheme option" where
  "lapic_wait dev s = (let (v, s1) = lapic_register_readl dev APIC_REG_INTERRUPT_CMD_LOW s in
     if v AND APIC_ICR_SEND_PENDING \<noteq> 0 then lapic_wait dev s1 else Some s1)"

definition lapic_send :: "device \<Rightarrow> u32 \<Rightarrow> u32 \<Rightarrow> 'a apic_scheme \<Rightarrow> 'a apic_scheme option" where
  "lapic_send dev apic cmd s =
     lapic_wait dev (lapic_register_writel dev APIC_REG_INTERRUPT_CMD_LOW cmd (lapic_register_writel dev APIC_REG_INTERRUPT_CMD_HIGH (push_bit 24 apic) s))"

definition lapic_send_init :: "device \<Rightarrow> u32 \<Rightarrow> 'a apic_scheme \<Rightarrow> 'a apic_scheme option" where
  "lapic_send_init dev apic = lapic_send dev apic (APIC_ICR_CMD_INIT OR APIC_ICR_PHYSICAL OR APIC_ICR_EDGE OR APIC_ICR_ASSERT)"

definition lapic_send_startup :: "device \<Rightarrow> u32 \<Rightarrow> u32 \<Rightarrow> 'a apic_scheme \<Rightarrow> 'a apic_scheme option" where
  "lapic_send_startup dev apic vec = lapic_send dev apic (vec OR APIC_ICR_CMD_STARTUP OR APIC_ICR_PHYSICAL OR APIC_ICR_EDGE OR APIC_ICR_ASSERT)"

definition lapic_eoi :: "device \<Rightarrow> 'a apic_scheme \<Rightarrow> 'a apic_scheme" where
  "lapic_eoi dev = lapic_register_writel dev APIC_REG_END_OF_INTERRUPT 0"

definition lapic_is_enabled :: "'a apic_scheme \<Rightarrow> bool" where
  "lapic_is_enabled s \<longleftrightarrow> apic_msr s AND IA32_APIC_BASE_MSR_ENABLE > 0 \<and> lapic_base s \<noteq> 0"

definition lapic_enable_spurious_interrupt :: "device \<Rightarrow> u32 \<Rightarrow> 'a apic_scheme \<Rightarrow> 'a apic_scheme" where
  "lapic_enable_spurious_interrupt dev intr = lapic_register_writel dev APIC_REG_SPURIOUS_INTERRUPT (intr OR 0x100)"

text \<open>\<open>__builtin_ctz\<close>: the index of the lowest bit that is set; undefined for 0.\<close>
definition ctz :: "u32 \<Rightarrow> nat option" where
  "ctz w = find (\<lambda>i. bit w i) [0..<32]"

fun lapic_isr_loop :: "device \<Rightarrow> nat \<Rightarrow> nat \<Rightarrow> 'a apic_scheme \<Rightarrow> (int \<times> 'a apic_scheme) option" where
  "lapic_isr_loop dev i 0 s = Some (- 1, s)"
| "lapic_isr_loop dev i (Suc n) s =
     (let (isr, s1) = lapic_register_readl dev (APIC_REG_INSERVICE_ROUTINE + 0x10 * of_nat i) s in
      if isr > 0 then do { b \<leftarrow> ctz isr; Some (int (i * 32 + b) - 0x20, s1) }
      else lapic_isr_loop dev (Suc i) n s1)"

definition lapic_inservice_routine :: "device \<Rightarrow> 'a apic_scheme \<Rightarrow> (int \<times> 'a apic_scheme) option" where
  "lapic_inservice_routine dev s = lapic_isr_loop dev 0 8 s"

definition lapic_clear_error :: "device \<Rightarrow> 'a apic_scheme \<Rightarrow> 'a apic_scheme" where
  "lapic_clear_error dev s = lapic_register_writel dev APIC_REG_ERROR_STATUS 0 (lapic_register_writel dev APIC_REG_ERROR_STATUS 0
     (snd (lapic_register_readl dev APIC_REG_ERROR_STATUS s)))"

text \<open>\<open>PAGE_PRESENT | PAGE_RW\<close> is 3 and \<open>MEM_PCI\<close> the third memory type; the last reads are for the messages.\<close>
definition lapic_enable :: "device \<Rightarrow> (u32 \<Rightarrow> u32 \<Rightarrow> 'a apic_scheme \<Rightarrow> (u32 \<times> 'a apic_scheme) option)
    \<Rightarrow> (u32 \<Rightarrow> u32 \<Rightarrow> u16 \<Rightarrow> 'a apic_scheme \<Rightarrow> (bool \<times> 'a apic_scheme) option) \<Rightarrow> u32 \<Rightarrow> 'a apic_scheme \<Rightarrow> 'a apic_scheme option" where
  "lapic_enable dev vasa_alloc paging_map irq_empty_stub s = do {
     let base = lapic_get_base s;
     (virt, s1) \<leftarrow> vasa_alloc 4096 0 s;
     if virt = 0 then Some s1
     else do {
       (ok, s2) \<leftarrow> paging_map base virt 3 s1;
       if \<not> ok then Some s2
       else let
         s3 = s2\<lparr>lapic_base := virt\<rparr>;
         s4 = lapic_register_writel dev APIC_REG_TASK_PRIORITY 0 s3;
         s5 = lapic_register_writel dev APIC_REG_DESTINATION_FORMAT 0xFFFFFFFF s4;
         s6 = lapic_register_writel dev APIC_REG_LOGICAL_DESTINATION (push_bit 24 1) s5;
         s7 = idt_set_gate 0xFF irq_empty_stub 0x08 0x8E s6;
         s8 = lapic_enable_spurious_interrupt dev 0xFF s7;
         s9 = snd (lapic_register_readl dev APIC_REG_ID s8)
       in Some (snd (lapic_register_readl dev APIC_REG_VERSION s9)) } }"

subsection \<open>ioapic.c\<close>

definition IOAPIC_IOREGSEL :: u32 where [simp]: "IOAPIC_IOREGSEL = 0x00"
definition IOAPIC_IOREGWIN :: u32 where [simp]: "IOAPIC_IOREGWIN = 0x10"
definition IOAPIC_REG_IOAPICID :: u8 where [simp]: "IOAPIC_REG_IOAPICID = 0"
definition IOAPIC_REG_IOAPICVER :: u8 where [simp]: "IOAPIC_REG_IOAPICVER = 1"
definition IOAPIC_REG_IOREDTBL :: u32 where [simp]: "IOAPIC_REG_IOREDTBL = 0x10"

definition ioapic_register_writel :: "u8 \<Rightarrow> u32 \<Rightarrow> 'a apic_scheme \<Rightarrow> 'a apic_scheme" where
  "ioapic_register_writel off val s = reg_write (ioapic_base s + IOAPIC_IOREGWIN) val (reg_write (ioapic_base s + IOAPIC_IOREGSEL) (ucast off) s)"

definition ioapic_register_readl :: "device \<Rightarrow> u8 \<Rightarrow> 'a apic_scheme \<Rightarrow> u32 \<times> 'a apic_scheme" where
  "ioapic_register_readl dev off s = reg_read dev (ioapic_base s + IOAPIC_IOREGWIN) (reg_write (ioapic_base s + IOAPIC_IOREGSEL) (ucast off) s)"

definition ioapic_get_id :: "device \<Rightarrow> 'a apic_scheme \<Rightarrow> u32 \<times> 'a apic_scheme" where
  "ioapic_get_id dev s = (let (v, s1) = ioapic_register_readl dev IOAPIC_REG_IOAPICID s in (drop_bit 24 v AND 0xF, s1))"

definition ioapic_get_version :: "device \<Rightarrow> 'a apic_scheme \<Rightarrow> u32 \<times> 'a apic_scheme" where
  "ioapic_get_version dev s = (let (v, s1) = ioapic_register_readl dev IOAPIC_REG_IOAPICVER s in (v AND 0xFF, s1))"

definition ioapic_get_irqs :: "device \<Rightarrow> 'a apic_scheme \<Rightarrow> u32 \<times> 'a apic_scheme" where
  "ioapic_get_irqs dev s = (let (v, s1) = ioapic_register_readl dev IOAPIC_REG_IOAPICVER s in ((drop_bit 16 v AND 0xFF) + 1, s1))"

text \<open>A redirection entry is its two words: vector, delivery mode, destination mode, status, polarity, IRR,
  trigger and mask in the low one, the destination in the top byte of the high one.\<close>
record redirect_entry =
  redir_low :: u32
  redir_high :: u32

definition ioapic_get_redirect_entry :: "device \<Rightarrow> u8 \<Rightarrow> 'a apic_scheme \<Rightarrow> redirect_entry \<times> 'a apic_scheme" where
  "ioapic_get_redirect_entry dev irq s = (let
     reg = IOAPIC_REG_IOREDTBL + 2 * ucast irq :: u32;
     (lo, s1) = ioapic_register_readl dev (ucast reg) s;
     (hi, s2) = ioapic_register_readl dev (ucast (reg + 1)) s1
   in (\<lparr>redir_low = lo, redir_high = hi\<rparr>, s2))"

definition ioapic_set_redirect_entry :: "u8 \<Rightarrow> redirect_entry \<Rightarrow> 'a apic_scheme \<Rightarrow> 'a apic_scheme" where
  "ioapic_set_redirect_entry irq redir s = (let reg = IOAPIC_REG_IOREDTBL + 2 * ucast irq :: u32 in
     ioapic_register_writel (ucast (reg + 1)) (redir_high redir) (ioapic_register_writel (ucast reg) (redir_low redir) s))"

definition ioapic_enable_irq :: "device \<Rightarrow> u32 \<Rightarrow> u8 \<Rightarrow> 'a apic_scheme \<Rightarrow> 'a apic_scheme" where
  "ioapic_enable_irq dev irq vector s = (let
     (redir, s1) = ioapic_get_redirect_entry dev (ucast irq) s;
     lo = (redir_low redir AND NOT 0x10FFF) OR ucast vector;
     hi = redir_high redir AND 0x00FFFFFF
   in ioapic_set_redirect_entry (ucast irq) \<lparr>redir_low = lo, redir_high = hi\<rparr> s1)"

text \<open>The loop asks the device for the number of entries before every round.\<close>
partial_function (option) ioapic_mask_loop :: "device \<Rightarrow> u32 \<Rightarrow> 'a apic_scheme \<Rightarrow> 'a apic_scheme option" where
  "ioapic_mask_loop dev i s = (let (n, s1) = ioapic_get_irqs dev s in
     if i < n then (let (redir, s2) = ioapic_get_redirect_entry dev (ucast i) s1 in
       ioapic_mask_loop dev (i + 1) (ioapic_set_redirect_entry (ucast i) (redir\<lparr>redir_low := redir_low redir OR 0x10000\<rparr>) s2))
     else Some s1)"

definition ioapic_setup :: "device \<Rightarrow> (u32 \<Rightarrow> u32 \<Rightarrow> 'a apic_scheme \<Rightarrow> (u32 \<times> 'a apic_scheme) option)
    \<Rightarrow> (u32 \<Rightarrow> u32 \<Rightarrow> u16 \<Rightarrow> 'a apic_scheme \<Rightarrow> (bool \<times> 'a apic_scheme) option) \<Rightarrow> u32 \<Rightarrow> 'a apic_scheme \<Rightarrow> 'a apic_scheme option" where
  "ioapic_setup dev vasa_alloc paging_map base s = do {
     (virt, s1) \<leftarrow> vasa_alloc 4096 0 s;
     if virt = 0 then Some s1
     else do {
       (ok, s2) \<leftarrow> paging_map base virt 3 s1;
       if \<not> ok then Some s2
       else let
         s3 = s2\<lparr>ioapic_base := virt\<rparr>;
         s4 = snd (ioapic_get_id dev s3);
         s5 = snd (ioapic_get_version dev s4);
         s6 = snd (ioapic_get_irqs dev s5)
       in ioapic_mask_loop dev 0 s6 } }"

subsection \<open>irq.c\<close>

text \<open>How a handler ends: it returns, or it restores the registers from another stack and never returns.\<close>
datatype flow = Return | Jump u32

record irq = apic +
  irq_current_regs :: u32
  irq_happening :: bool
  irq_handlers :: "u32 list"

definition irq_send_eoi :: "device \<Rightarrow> u16 \<Rightarrow> 'a irq_scheme \<Rightarrow> 'a irq_scheme" where
  "irq_send_eoi dev irq s = (if lapic_is_enabled s then lapic_eoi dev s else pic_eoi (ucast irq) s)"

definition irq_get_current :: "device \<Rightarrow> 'a irq_scheme \<Rightarrow> (int \<times> 'a irq_scheme) option" where
  "irq_get_current dev s =
     (if lapic_is_enabled s then lapic_inservice_routine dev s
      else let (isr, s1) = pic_get_isr dev s in do { b \<leftarrow> ctz (ucast (isr AND NOT 4)); Some (int b, s1) })"

definition irq_is_happening :: "'a irq_scheme \<Rightarrow> bool" where
  "irq_is_happening s = irq_happening s"

definition irq_get_current_regs :: "'a irq_scheme \<Rightarrow> u32" where
  "irq_get_current_regs s = irq_current_regs s"

definition irq_register :: "u8 \<Rightarrow> u32 \<Rightarrow> 'a irq_scheme \<Rightarrow> 'a irq_scheme option" where
  "irq_register num handler s = do {
     hs \<leftarrow> aset (irq_handlers s) (unat num) handler;
     Some (s\<lparr>irq_handlers := hs\<rparr>) }"

text \<open>\<open>call handler frame\<close> runs a handler. A handler that jumps leaves the rest undone.\<close>
definition irq_general_handler :: "device \<Rightarrow> (u32 \<Rightarrow> u32 \<Rightarrow> 'a irq_scheme \<Rightarrow> (flow \<times> 'a irq_scheme) option) \<Rightarrow> u32
    \<Rightarrow> 'a irq_scheme \<Rightarrow> (flow \<times> 'a irq_scheme) option" where
  "irq_general_handler dev call frame s = do {
     let s1 = s\<lparr>irq_current_regs := frame, irq_happening := True\<rparr>;
     (irq, s2) \<leftarrow> irq_get_current dev s1;
     (fl, s3) \<leftarrow> (if irq < 16 then
          (if irq < 0 then None
           else do {
             handler \<leftarrow> aget (irq_handlers s2) (nat irq);
             if handler \<noteq> NULL then call handler frame s2 else Some (Return, s2) })
        else Some (Return, s2));
     case fl of Jump r \<Rightarrow> Some (Jump r, s3)
     | Return \<Rightarrow> Some (Return, (irq_send_eoi dev (of_int irq) s3)\<lparr>irq_happening := False, irq_current_regs := NULL\<rparr>) }"

end
