(* ===== verification/Clock.thy ===== *)
theory Clock
  imports Interrupts Layout
begin

text \<open>
  \<open>src/src/kernel/time/clock.c\<close>, the list of timed callbacks, and \<open>src/src/arch/i386/time/pit.c\<close>, the
  interval timer that drives it. Events live in a map from addresses; what \<open>kmalloc\<close> returns is not
  initialised, so its contents (\<open>garbage\<close>) are an argument. A callback may jump away like any
  interrupt handler, and then nothing after it is done.
\<close>

datatype clock_type = CLOCK_COUNTDOWN | CLOCK_ONCE_OFF

record clock_event =
  e_prev :: u32
  e_next :: u32
  e_callback :: u32
  e_counter :: u32
  e_initial :: u32
  e_type :: clock_type

record clock = irq +
  clock_root :: u32
  events :: "u32 \<Rightarrow> clock_event option"
  sleep_counter :: u32
  ms_per_tick :: u32

definition event_upd :: "u32 \<Rightarrow> (clock_event \<Rightarrow> clock_event) \<Rightarrow> 'a clock_scheme \<Rightarrow> 'a clock_scheme option" where
  "event_upd p f s = do { e \<leftarrow> events s p; Some (s\<lparr>events := (events s)(p \<mapsto> f e)\<rparr>) }"

text \<open>What happens to an event that is due, before its callback runs.\<close>
definition clock_due :: "(u32 \<Rightarrow> 'a clock_scheme \<Rightarrow> 'a clock_scheme option) \<Rightarrow> u32 \<Rightarrow> 'a clock_scheme \<Rightarrow> 'a clock_scheme option" where
  "clock_due kfree current s = do {
     e \<leftarrow> events s current;
     case e_type e of
       CLOCK_COUNTDOWN \<Rightarrow> event_upd current (\<lambda>e. e\<lparr>e_counter := e_initial e\<rparr>) s
     | CLOCK_ONCE_OFF \<Rightarrow> do {
         s1 \<leftarrow> (if e_prev e \<noteq> NULL then event_upd (e_prev e) (\<lambda>p. p\<lparr>e_next := e_next e\<rparr>) s else Some s);
         e1 \<leftarrow> events s1 current;
         s2 \<leftarrow> (if e_next e1 \<noteq> NULL then event_upd (e_next e1) (\<lambda>n. n\<lparr>e_prev := e_prev e1\<rparr>) s1 else Some s1);
         e2 \<leftarrow> events s2 current;
         let s3 = (if current = clock_root s2 then s2\<lparr>clock_root := e_next e2\<rparr> else s2);
         s4 \<leftarrow> kfree current s3;
         Some (s4\<lparr>events := (events s4)(current := None)\<rparr>) } }"

text \<open>A counter is signed. The next event is read from the current one after its callback.\<close>
partial_function (option) clock_loop ::
  "(u32 \<Rightarrow> 'a clock_scheme \<Rightarrow> 'a clock_scheme option) \<Rightarrow> (u32 \<Rightarrow> 'a clock_scheme \<Rightarrow> (flow \<times> 'a clock_scheme) option)
    \<Rightarrow> u32 \<Rightarrow> u32 \<Rightarrow> 'a clock_scheme \<Rightarrow> (flow \<times> 'a clock_scheme) option" where
  "clock_loop kfree call amount current s =
     (if current = NULL then Some (Return, s)
      else do {
        s1 \<leftarrow> event_upd current (\<lambda>e. e\<lparr>e_counter := e_counter e - amount\<rparr>) s;
        e \<leftarrow> events s1 current;
        (fl, s3) \<leftarrow> (if sint (e_counter e) \<le> 0 then do {
             s2 \<leftarrow> clock_due kfree current s1;
             call (e_callback e) s2 }
           else Some (Return, s1));
        case fl of Jump r \<Rightarrow> Some (Jump r, s3)
        | Return \<Rightarrow> do { e3 \<leftarrow> events s3 current; clock_loop kfree call amount (e_next e3) s3 } })"

definition clock_advance ::
  "(u32 \<Rightarrow> 'a clock_scheme \<Rightarrow> 'a clock_scheme option) \<Rightarrow> (u32 \<Rightarrow> 'a clock_scheme \<Rightarrow> (flow \<times> 'a clock_scheme) option)
    \<Rightarrow> u32 \<Rightarrow> 'a clock_scheme \<Rightarrow> (flow \<times> 'a clock_scheme) option" where
  "clock_advance kfree call amount s = clock_loop kfree call amount (clock_root s) s"

text \<open>The previous event of the root is dereferenced.\<close>
definition clock_add :: "(u32 \<Rightarrow> 'a clock_scheme \<Rightarrow> (u32 \<times> 'a clock_scheme) option) \<Rightarrow> clock_event \<Rightarrow> u32 \<Rightarrow> u32
    \<Rightarrow> 'a clock_scheme \<Rightarrow> (u32 \<times> 'a clock_scheme) option" where
  "clock_add kmalloc garbage time callback s = do {
     (event, s0) \<leftarrow> kmalloc (sizeof clock_event_layout) s;
     if event = NULL then Some (NULL, s0)
     else do {
       let s1 = s0\<lparr>events := (events s0)(event \<mapsto> garbage)\<rparr>;
       s2 \<leftarrow> (if clock_root s1 \<noteq> NULL then do {
            r \<leftarrow> events s1 (clock_root s1);
            s2 \<leftarrow> event_upd event (\<lambda>e. e\<lparr>e_prev := e_prev r\<rparr>) s1;
            e \<leftarrow> events s2 event;
            s3 \<leftarrow> event_upd (e_prev e) (\<lambda>p. p\<lparr>e_next := event\<rparr>) s2;
            s4 \<leftarrow> event_upd (clock_root s3) (\<lambda>r. r\<lparr>e_prev := event\<rparr>) s3;
            event_upd event (\<lambda>e. e\<lparr>e_next := clock_root s4\<rparr>) s4 }
          else event_upd event (\<lambda>e. e\<lparr>e_next := NULL, e_prev := NULL\<rparr>) s1);
       let s3 = s2\<lparr>clock_root := event\<rparr>;
       s4 \<leftarrow> event_upd event (\<lambda>e. e\<lparr>e_counter := time, e_initial := time, e_callback := callback\<rparr>) s3;
       Some (event, s4) } }"

definition clock_add_typed :: "clock_type \<Rightarrow> (u32 \<Rightarrow> 'a clock_scheme \<Rightarrow> (u32 \<times> 'a clock_scheme) option) \<Rightarrow> clock_event \<Rightarrow> u32 \<Rightarrow> u32
    \<Rightarrow> 'a clock_scheme \<Rightarrow> (bool \<times> 'a clock_scheme) option" where
  "clock_add_typed ty kmalloc garbage time callback s = do {
     (event, s1) \<leftarrow> clock_add kmalloc garbage time callback s;
     if event = NULL then Some (False, s1)
     else do { s2 \<leftarrow> event_upd event (\<lambda>e. e\<lparr>e_type := ty\<rparr>) s1; Some (True, s2) } }"

definition clock_add_countdown :: "(u32 \<Rightarrow> 'a clock_scheme \<Rightarrow> (u32 \<times> 'a clock_scheme) option) \<Rightarrow> clock_event \<Rightarrow> u32 \<Rightarrow> u32
    \<Rightarrow> 'a clock_scheme \<Rightarrow> (bool \<times> 'a clock_scheme) option" where
  "clock_add_countdown = clock_add_typed CLOCK_COUNTDOWN"

definition clock_add_once_off :: "(u32 \<Rightarrow> 'a clock_scheme \<Rightarrow> (u32 \<times> 'a clock_scheme) option) \<Rightarrow> clock_event \<Rightarrow> u32 \<Rightarrow> u32
    \<Rightarrow> 'a clock_scheme \<Rightarrow> (bool \<times> 'a clock_scheme) option" where
  "clock_add_once_off = clock_add_typed CLOCK_ONCE_OFF"

definition clock_init :: "'a clock_scheme \<Rightarrow> 'a clock_scheme" where
  "clock_init s = s\<lparr>clock_root := NULL\<rparr>"

subsection \<open>pit.c\<close>

definition PIT_CMD_CHAN :: u16 where "PIT_CMD_CHAN = 0x43"
definition PIT_DATA_CHAN_0 :: u16 where [simp]: "PIT_DATA_CHAN_0 = 0x40"
definition PIT_DATA_CHAN_1 :: u16 where [simp]: "PIT_DATA_CHAN_1 = 0x41"
definition PIT_DATA_CHAN_2 :: u16 where [simp]: "PIT_DATA_CHAN_2 = 0x42"
definition PIT_MODE_BINARY :: u8 where [simp]: "PIT_MODE_BINARY = 0"
definition PIT_OP_MODE_SQUARE_GEN :: u8 where [simp]: "PIT_OP_MODE_SQUARE_GEN = 3"
definition PIT_ACC_MODE_LOHIBYTE :: u8 where [simp]: "PIT_ACC_MODE_LOHIBYTE = 3"
definition PIT_SEL_CHAN_0 :: u8 where [simp]: "PIT_SEL_CHAN_0 = 0"
definition PIT_BASE_FREQ :: u32 where "PIT_BASE_FREQ = 1193181"

definition pit_handle_interrupt ::
  "(u32 \<Rightarrow> 'a clock_scheme \<Rightarrow> 'a clock_scheme option) \<Rightarrow> (u32 \<Rightarrow> 'a clock_scheme \<Rightarrow> (flow \<times> 'a clock_scheme) option)
    \<Rightarrow> 'a clock_scheme \<Rightarrow> (flow \<times> 'a clock_scheme) option" where
  "pit_handle_interrupt kfree call s = do {
     (fl, s1) \<leftarrow> clock_advance kfree call (ms_per_tick s) s;
     case fl of Jump r \<Rightarrow> Some (Jump r, s1)
     | Return \<Rightarrow> Some (Return, if sleep_counter s1 > 0 then s1\<lparr>sleep_counter := sleep_counter s1 - 1\<rparr> else s1) }"

text \<open>\<open>pit_cmd_t\<close>: binary mode in bit 0, operating mode in bits 1-3, access mode in 4-5, channel in 6-7.\<close>
definition pit_cmd :: "u8 \<Rightarrow> u8 \<Rightarrow> u8 \<Rightarrow> u8 \<Rightarrow> u8" where
  "pit_cmd bin_mode operating_mode access_mode select_channel =
     (bin_mode AND 1) OR push_bit 1 (operating_mode AND 7) OR push_bit 4 (access_mode AND 3) OR push_bit 6 (select_channel AND 3)"

definition pit_cmd_send :: "u8 \<Rightarrow> 'a io_scheme \<Rightarrow> 'a io_scheme" where
  "pit_cmd_send data s = io_wait (outportb PIT_CMD_CHAN data s)"

definition pit_data_read :: "device \<Rightarrow> u8 \<Rightarrow> 'a io_scheme \<Rightarrow> u8 \<times> 'a io_scheme" where
  "pit_data_read dev channel s =
     (if channel = 0 then inportb dev PIT_DATA_CHAN_0 s
      else if channel = 1 then inportb dev PIT_DATA_CHAN_1 s
      else if channel = 2 then inportb dev PIT_DATA_CHAN_2 s
      else (0, s))"

definition pit_data_send :: "u8 \<Rightarrow> u8 \<Rightarrow> 'a io_scheme \<Rightarrow> 'a io_scheme" where
  "pit_data_send channel data s = io_wait
     (if channel = 0 then outportb PIT_DATA_CHAN_0 data s
      else if channel = 1 then outportb PIT_DATA_CHAN_1 data s
      else if channel = 2 then outportb PIT_DATA_CHAN_2 data s
      else s)"

text \<open>The wait ends only if interrupts bring the counter to 0: \<open>tick\<close> is what happens between two looks at it.\<close>
partial_function (option) pit_wait :: "('a clock_scheme \<Rightarrow> 'a clock_scheme option) \<Rightarrow> 'a clock_scheme \<Rightarrow> 'a clock_scheme option" where
  "pit_wait tick s = (if sleep_counter s > 0 then do { s1 \<leftarrow> tick s; pit_wait tick s1 } else Some s)"

definition pit_sleep :: "('a clock_scheme \<Rightarrow> 'a clock_scheme option) \<Rightarrow> u32 \<Rightarrow> 'a clock_scheme \<Rightarrow> 'a clock_scheme option" where
  "pit_sleep tick ms s =
     (if sleep_counter s \<noteq> 0 then Some s
      else if ms_per_tick s = 0 then None
      else pit_wait tick (s\<lparr>sleep_counter := ms div ms_per_tick s\<rparr>))"

definition pit_start :: "u16 \<Rightarrow> 'a clock_scheme \<Rightarrow> 'a clock_scheme" where
  "pit_start frequency s =
     (if frequency = 0 then s
      else let
        divisor = ucast (PIT_BASE_FREQ div ucast frequency) :: u16;
        s1 = pit_cmd_send (pit_cmd PIT_MODE_BINARY PIT_OP_MODE_SQUARE_GEN PIT_ACC_MODE_LOHIBYTE PIT_SEL_CHAN_0) s;
        s2 = pit_data_send 0 (ucast (divisor AND 0xFF)) s1;
        s3 = pit_data_send 0 (ucast (drop_bit 8 divisor AND 0xFF)) s2
      in s3\<lparr>ms_per_tick := 1000 div ucast frequency\<rparr>)"

text \<open>\<open>handler\<close> is the address of \<open>pit_handle_interrupt\<close>.\<close>
definition pit_init :: "u32 \<Rightarrow> 'a clock_scheme \<Rightarrow> 'a clock_scheme option" where
  "pit_init handler s = do {
     s1 \<leftarrow> irq_register 0 handler s;
     Some ((pit_start 500 s1)\<lparr>sleep_counter := 0\<rparr>) }"

subsection \<open>One event\<close>

lemma event_upd_Some: "events s p = Some e \<Longrightarrow> event_upd p f s = Some (s\<lparr>events := (events s)(p \<mapsto> f e)\<rparr>)"
  by (simp add: event_upd_def)

text \<open>The state with the counter of its only event at \<open>c\<close>.\<close>
definition set_counter :: "u32 \<Rightarrow> u32 \<Rightarrow> 'a clock_scheme \<Rightarrow> 'a clock_scheme" where
  "set_counter p c s = s\<lparr>events := (events s)(p := map_option (\<lambda>e. e\<lparr>e_counter := c\<rparr>) (events s p))\<rparr>"

text \<open>\<open>n\<close> advances; a jump ends them.\<close>
fun advances :: "('s \<Rightarrow> (flow \<times> 's) option) \<Rightarrow> nat \<Rightarrow> 's \<Rightarrow> (flow \<times> 's) option" where
  "advances step 0 s = Some (Return, s)"
| "advances step (Suc n) s = do {
     (fl, s1) \<leftarrow> step s;
     case fl of Jump r \<Rightarrow> Some (Jump r, s1) | Return \<Rightarrow> advances step n s1 }"

definition one_event :: "u32 \<Rightarrow> clock_event \<Rightarrow> 'a clock_scheme \<Rightarrow> bool" where
  "one_event p e s \<longleftrightarrow> p \<noteq> NULL \<and> clock_root s = p \<and> events s p = Some e \<and> e_next e = NULL \<and> e_type e = CLOCK_COUNTDOWN"

lemma advance_waits:
  assumes "one_event p e s" and "unat a < unat (e_counter e)" and "unat (e_counter e) < 2147483648"
  shows "clock_advance kfree call a s = Some (Return, set_counter p (e_counter e - a) s)
    \<and> one_event p (e\<lparr>e_counter := e_counter e - a\<rparr>) (set_counter p (e_counter e - a) s)"
proof -
  have "unat (e_counter e - a) = unat (e_counter e) - unat a" using assms(2) by (simp add: unat_diff_le)
  then have "0 < unat (e_counter e - a)" "unat (e_counter e - a) < 2147483648" using assms(2,3) by linarith+
  then have "\<not> sint (e_counter e - a) \<le> 0" using sint_small[of "e_counter e - a"] by linarith
  then show ?thesis using assms(1)
    by (simp add: clock_advance_def clock_loop.simps[of _ _ _ p] clock_loop.simps[of _ _ _ NULL] event_upd_Some one_event_def set_counter_def)
qed

lemma advance_fires:
  assumes "one_event p e s" and "unat (e_counter e) \<le> unat a" and "unat a < 2147483648"
  shows "clock_advance kfree call a s = do {
    (fl, s1) \<leftarrow> call (e_callback e) (set_counter p (e_initial e) s);
    case fl of Jump r \<Rightarrow> Some (Jump r, s1)
    | Return \<Rightarrow> do { e1 \<leftarrow> events s1 p; clock_loop kfree call a (e_next e1) s1 } }"
proof -
  have "sint (e_counter e - a) \<le> 0"
  proof (cases "e_counter e = a")
    case False
    then have "unat (e_counter e) < unat a" using assms(2) by (metis le_neq_implies_less unsigned_word_eqI)
    then have g: "unat (e_counter e - a) \<ge> 2147483648"
      using assms(3) by (simp add: unat_sub_if_size size_word.rep_eq)
    then have "sint (e_counter e - a) < 0" by (rule sint_big)
    then show ?thesis by simp
  qed simp
  then show ?thesis using assms(1)
    by (simp add: clock_advance_def clock_loop.simps[of _ _ _ p] event_upd_Some one_event_def set_counter_def clock_due_def)
qed

lemma advances_Suc: "advances f (Suc n) s = do {
     (fl, t) \<leftarrow> advances f n s;
     case fl of Jump r \<Rightarrow> Some (Jump r, t) | Return \<Rightarrow> f t }"
proof (induction n arbitrary: s)
  case 0
  show ?case by (cases "f s") (auto split: flow.split)
next
  case (Suc n)
  show ?case
  proof (cases "f s")
    case (Some r)
    obtain fl t where r: "r = (fl, t)" by (cases r)
    show ?thesis
    proof (cases fl)
      case Return
      then show ?thesis using Suc.IH[of t] Some r by simp
    qed (use Some r in simp)
  qed simp
qed

lemma set_counter_id: "events s p = Some e \<Longrightarrow> set_counter p (e_counter e) s = s"
  by (simp add: set_counter_def fun_upd_idem_iff)

lemma set_counter_again [simp]: "set_counter p c (set_counter p d s) = set_counter p c s"
  by (simp add: set_counter_def option.map_comp comp_def)

lemma advances_wait:
  "one_event p e s \<Longrightarrow> n * unat a < unat (e_counter e) \<Longrightarrow> unat (e_counter e) < 2147483648 \<Longrightarrow>
   advances (clock_advance kfree call a) n s = Some (Return, set_counter p (e_counter e - of_nat n * a) s)
   \<and> one_event p (e\<lparr>e_counter := e_counter e - of_nat n * a\<rparr>) (set_counter p (e_counter e - of_nat n * a) s)"
proof (induction n arbitrary: e s)
  case 0
  then show ?case by (simp add: set_counter_id one_event_def)
next
  case (Suc n)
  have a: "unat a < unat (e_counter e)" using Suc.prems(2) by simp
  note w = advance_waits[OF Suc.prems(1) a Suc.prems(3), of kfree call]
  let ?e = "e\<lparr>e_counter := e_counter e - a\<rparr>"
  have u: "unat (e_counter ?e) = unat (e_counter e) - unat a" using a by (simp add: unat_diff_le)
  then have "n * unat a < unat (e_counter ?e)" "unat (e_counter ?e) < 2147483648" using Suc.prems(2,3) by simp_all
  from Suc.IH[OF w[THEN conjunct2] this] show ?case using w by (simp add: algebra_simps)
qed

text \<open>C17: A countdown, alone in the list, whose counter needs between \<open>n\<close> and \<open>n + 1\<close> ticks: the first \<open>n\<close> ticks only
  count, and the next one resets the counter and runs the callback, once.\<close>
theorem clock_countdown_fires:
  assumes "one_event p e s" and "n * unat a < unat (e_counter e)" and "unat (e_counter e) \<le> Suc n * unat a"
    and "unat (e_counter e) < 2147483648" and "unat a < 2147483648"
    and "call (e_callback e) (set_counter p (e_initial e) s) = Some (fl, s1)"
    and "events s1 p = Some e1" and "e_next e1 = NULL"
  shows "advances (clock_advance kfree call a) n s = Some (Return, set_counter p (e_counter e - of_nat n * a) s)
    \<and> advances (clock_advance kfree call a) (Suc n) s = Some (fl, s1)"
proof -
  note w = advances_wait[OF assms(1,2,4), of kfree call]
  let ?c = "e_counter e - of_nat n * a"
  have na: "unat (of_nat n * a) = n * unat a"
  proof -
    have "n * unat a < 2147483648" using assms(2,4) by linarith
    moreover have "n \<le> n * unat a" if "unat a \<noteq> 0" using that by simp
    ultimately have "n < 4294967296" if "unat a \<noteq> 0" using that by linarith
    then show ?thesis using \<open>n * unat a < 2147483648\<close>
      by (cases "unat a = 0") (simp_all add: unat_times_nowrap unat_of_nat32 unsigned_eq_0_iff)
  qed
  have "unat (e_counter (e\<lparr>e_counter := ?c\<rparr>)) \<le> unat a"
    using assms(2,3) by (simp add: unat_diff_le na)
  from advance_fires[OF w[THEN conjunct2] this assms(5), of kfree call]
  have step: "clock_advance kfree call a (set_counter p ?c s) = Some (fl, s1)"
    using assms(6-8) by (simp add: clock_loop.simps[of _ _ _ NULL] split: flow.split)
  show ?thesis unfolding advances_Suc using w step by simp
qed

text \<open>The scheduler's 10 ms countdown at 2 ms per tick.\<close>
definition ten_ms :: clock_event where
  "ten_ms = \<lparr>e_prev = NULL, e_next = NULL, e_callback = 7, e_counter = 10, e_initial = 10, e_type = CLOCK_COUNTDOWN\<rparr>"

definition ticking :: clock where
  "ticking = \<lparr>io_log = [], gates = [], idtp_size = 0, lapic_base = 0, ioapic_base = 0, apic_msr = 0, irq_current_regs = 0,
     irq_happening = False, irq_handlers = [], clock_root = 0x40, events = [0x40 \<mapsto> ten_ms], sleep_counter = 0, ms_per_tick = 2\<rparr>"

theorem clock_countdown_fires_witness:
  "advances (clock_advance (\<lambda>_. Some) (\<lambda>_ s. Some (Return, s)) 2) 4 ticking = Some (Return, set_counter 0x40 (e_counter ten_ms - of_nat 4 * 2) ticking)
    \<and> advances (clock_advance (\<lambda>_. Some) (\<lambda>_ s. Some (Return, s)) 2) (Suc 4) ticking = Some (Return, set_counter 0x40 (e_initial ten_ms) ticking)"
  by (rule clock_countdown_fires[of _ _ _ _ _ _ _ _ ten_ms])
    (simp_all add: one_event_def ticking_def ten_ms_def set_counter_def)

text \<open>The list never holds two events: adding one to a list whose root has no predecessor, as every first
  event has, stores through NULL.\<close>
lemma clock_add_second_faults:
  assumes "clock_root s \<noteq> NULL" and "events s (clock_root s) = Some r" and "e_prev r = NULL" and "events s NULL = None"
    and "\<And>p s'. kmalloc 24 s = Some (p, s') \<Longrightarrow> p \<noteq> NULL \<and> p \<noteq> clock_root s \<and> s' = s"
  shows "clock_add kmalloc garbage time callback s = None"
proof (cases "kmalloc 24 s")
  case (Some x)
  obtain p s' where x: "x = (p, s')" by (cases x)
  then have "p \<noteq> NULL" "clock_root s \<noteq> p" "s' = s" using Some assms(5)[of p s'] by auto
  then show ?thesis using Some x assms(1-4)
    by (simp add: clock_add_def event_upd_def Let_def)
qed (simp add: clock_add_def)

lemma clock_add_second_faults_witness:
  "clock_add (\<lambda>_ s. Some (0x80, s)) ten_ms 5 8 ticking = None"
  by (rule clock_add_second_faults[of ticking ten_ms]) (simp_all add: ticking_def ten_ms_def)

lemma once_off_reads_freed_event:
  assumes "p \<noteq> NULL" and "clock_root s = p" and "events s p = Some e" and "e_prev e = NULL" and "e_next e = NULL"
    and "e_type e = CLOCK_ONCE_OFF" and "sint (e_counter e - a) \<le> 0"
    and "\<And>q t. kfree q t = Some t" and "\<And>f t. call f t = Some (Return, t)"
  shows "clock_advance kfree call a s = None"
  using assms by (simp add: clock_advance_def clock_loop.simps[of _ _ _ p] event_upd_def clock_due_def)

end
