(* ===== verification/Tasks.thy ===== *)
theory Tasks
  imports Clock Files
begin

text \<open>
  Tasks: \<open>src/src/kernel/tasks/task.c\<close>, the round robin of \<open>scheduler.c\<close>, and their processor side in
  \<open>src/src/arch/i386/tasks\<close> (\<open>cpu_task.c\<close>, \<open>tss.c\<close>), with the register frame that \<open>irq_exit\<close> of
  \<open>stub.asm\<close> restores. The stacks are a map of aligned words. The services of the memory management and
  of paging are the fields of the argument \<open>E\<close>.
\<close>

definition TASK_STATE_PREEMPT :: u32 where "TASK_STATE_PREEMPT = 0"
definition TASK_STATE_ZOMBIE :: u32 where "TASK_STATE_ZOMBIE = 3"
definition TASK_STATE_STARTED :: u32 where "TASK_STATE_STARTED = 4"
definition MAX_TASKS :: int where "MAX_TASKS = 131071"
definition TASK_STACK_SIZE :: u32 where "TASK_STACK_SIZE = 4096"

record cpu_task =
  cr3_phys :: u32
  cr3_virt :: u32
  stack_bottom :: u32
  stack_top :: u32
  user_regs :: u32
  int_stack_bottom :: u32
  int_stack_top :: u32

record task =
  tk_previous :: u32
  tk_next :: u32
  tk_name :: u32
  tk_pid :: int
  tk_state :: u32
  tk_cpu :: cpu_task
  tk_files :: file_ref_table

record sched = clock +
  tasks :: "u32 \<Rightarrow> task option"
  task_pid_table :: "int \<Rightarrow> u32"
  sched_current :: u32
  first_run :: bool
  words :: "u32 \<Rightarrow> u32 option"
  tss_esp0 :: u32
  tss_ss0 :: u16
  tss_iopb_offset :: u16

record 's task_env =
  env_dev :: device
  env_malloc :: "u32 \<Rightarrow> 's \<Rightarrow> (u32 \<times> 's) option"
  env_free :: "u32 \<Rightarrow> 's \<Rightarrow> 's option"
  env_memmap :: "u32 \<Rightarrow> u32 \<Rightarrow> 's \<Rightarrow> (u32 \<times> 's) option"
  env_memunmap :: "u32 \<Rightarrow> u32 \<Rightarrow> 's \<Rightarrow> 's option"
  env_dir_copy :: "'s \<Rightarrow> ((u32 \<times> u32) option \<times> 's) option"
  env_load_dir :: "u32 \<Rightarrow> 's \<Rightarrow> 's option"

definition task_upd :: "u32 \<Rightarrow> (task \<Rightarrow> task) \<Rightarrow> 'a sched_scheme \<Rightarrow> 'a sched_scheme option" where
  "task_upd p f s = do { t \<leftarrow> tasks s p; Some (s\<lparr>tasks := (tasks s)(p \<mapsto> f t)\<rparr>) }"

definition cpu_upd :: "u32 \<Rightarrow> (cpu_task \<Rightarrow> cpu_task) \<Rightarrow> 'a sched_scheme \<Rightarrow> 'a sched_scheme option" where
  "cpu_upd p f = task_upd p (\<lambda>t. t\<lparr>tk_cpu := f (tk_cpu t)\<rparr>)"

subsection \<open>tss.c\<close>

definition tss_update :: "u32 \<Rightarrow> 'a sched_scheme \<Rightarrow> 'a sched_scheme" where
  "tss_update esp0 s = s\<lparr>tss_esp0 := esp0\<rparr>"

definition tss_init :: "'a sched_scheme \<Rightarrow> 'a sched_scheme" where
  "tss_init s = tss_update 0 (s\<lparr>tss_ss0 := 0x10, tss_iopb_offset := of_nat (size_of tss_layout)\<rparr>)"

subsection \<open>The stacks\<close>

definition put_word :: "u32 \<Rightarrow> u32 \<Rightarrow> 'a sched_scheme \<Rightarrow> 'a sched_scheme option" where
  "put_word p v s = (if words s p = None then None else Some (s\<lparr>words := (words s)(p \<mapsto> v)\<rparr>))"

text \<open>A 16-bit field in the low or the high half of a word.\<close>
definition put_low :: "u32 \<Rightarrow> u16 \<Rightarrow> 'a sched_scheme \<Rightarrow> 'a sched_scheme option" where
  "put_low p v s = do { w \<leftarrow> words s p; put_word p ((w AND 0xFFFF0000) OR ucast v) s }"

definition put_high :: "u32 \<Rightarrow> u16 \<Rightarrow> 'a sched_scheme \<Rightarrow> 'a sched_scheme option" where
  "put_high p v s = do { w \<leftarrow> words s p; put_word p ((w AND 0xFFFF) OR push_bit 16 (ucast v)) s }"

fun zero_words :: "u32 \<Rightarrow> nat \<Rightarrow> 'a sched_scheme \<Rightarrow> 'a sched_scheme option" where
  "zero_words p 0 s = Some s"
| "zero_words p (Suc n) s = do { s1 \<leftarrow> put_word p 0 s; zero_words (p + 4) n s1 }"

text \<open>What the pops of \<open>irq_exit\<close>, \<open>popad\<close> and \<open>iret\<close> load: twelve words and then \<open>eip\<close>, \<open>cs\<close> and \<open>eflags\<close>.\<close>
record cpu_regs =
  x_gs :: u16
  x_fs :: u16
  x_es :: u16
  x_ds :: u16
  x_eip :: u32
  x_cs :: u16
  x_eflags :: u32

definition irq_exit :: "(u32 \<Rightarrow> u32 option) \<Rightarrow> u32 \<Rightarrow> cpu_regs option" where
  "irq_exit m esp = do {
     gs \<leftarrow> m esp; fs \<leftarrow> m (esp + 4); es \<leftarrow> m (esp + 8); ds \<leftarrow> m (esp + 12);
     eip \<leftarrow> m (esp + 48); cs \<leftarrow> m (esp + 52); eflags \<leftarrow> m (esp + 56);
     Some \<lparr>x_gs = ucast gs, x_fs = ucast fs, x_es = ucast es, x_ds = ucast ds,
           x_eip = eip, x_cs = ucast cs, x_eflags = eflags\<rparr> }"

subsection \<open>cpu_task.c\<close>

definition irq_save_regs :: "u32 \<Rightarrow> 'a sched_scheme \<Rightarrow> 'a sched_scheme option" where
  "irq_save_regs task s = cpu_upd task (\<lambda>c. c\<lparr>user_regs := irq_get_current_regs s\<rparr>) s"

text \<open>A failure frees the address of \<open>cpu\<close>. \<open>MMAP_RW | MMAP_URGENT\<close> is 6.\<close>
definition cpu_task_alloc :: "'a sched_scheme task_env \<Rightarrow> u32 \<Rightarrow> 'a sched_scheme \<Rightarrow> 'a sched_scheme option" where
  "cpu_task_alloc E task s = do {
     (b, s1) \<leftarrow> env_memmap E TASK_STACK_SIZE 6 s;
     s2 \<leftarrow> cpu_upd task (\<lambda>c. c\<lparr>int_stack_bottom := b\<rparr>) s1;
     if b = 0 then env_free E (task + offsetof task_layout ''cpu'') s2
     else do {
       s3 \<leftarrow> cpu_upd task (\<lambda>c. c\<lparr>int_stack_top := b + TASK_STACK_SIZE\<rparr>) s2;
       (d, s4) \<leftarrow> env_dir_copy E s3;
       s5 \<leftarrow> (case d of None \<Rightarrow> Some s4
         | Some (p, v) \<Rightarrow> cpu_upd task (\<lambda>c. c\<lparr>cr3_phys := p, cr3_virt := v\<rparr>) s4);
       zero_words b 1024 s5 } }"

definition cpu_task_dealloc :: "'a sched_scheme task_env \<Rightarrow> u32 \<Rightarrow> 'a sched_scheme \<Rightarrow> 'a sched_scheme option" where
  "cpu_task_dealloc E task s = do {
     t \<leftarrow> tasks s task;
     s1 \<leftarrow> (if stack_bottom (tk_cpu t) \<noteq> 0 then env_memunmap E (stack_bottom (tk_cpu t)) TASK_STACK_SIZE s else Some s);
     t1 \<leftarrow> tasks s1 task;
     (if int_stack_bottom (tk_cpu t1) \<noteq> 0 then env_memunmap E (int_stack_bottom (tk_cpu t1)) TASK_STACK_SIZE s1 else Some s1) }"

text \<open>The fields of \<open>irq_regs_t\<close>, which is not packed: \<open>gs\<close>, \<open>fs\<close>, \<open>es\<close>, \<open>ds\<close> are the halves of the first two words.\<close>
definition init_frame :: "u32 \<Rightarrow> u32 \<Rightarrow> 'a sched_scheme \<Rightarrow> 'a sched_scheme option" where
  "init_frame tos address s = do {
     s1 \<leftarrow> put_word (tos + offsetof irq_regs_layout ''eflags'') 0x202 s;
     s2 \<leftarrow> put_low (tos + offsetof irq_regs_layout ''cs'') 0x8 s1;
     s3 \<leftarrow> put_word (tos + offsetof irq_regs_layout ''eip'') address s2;
     s4 \<leftarrow> put_word (tos + offsetof irq_regs_layout ''ebp'') tos s3;
     s5 \<leftarrow> put_word (tos + offsetof irq_regs_layout ''esp'') tos s4;
     s6 \<leftarrow> put_high (tos + 4) 0x10 s5;
     s7 \<leftarrow> put_high tos 0x10 s6;
     s8 \<leftarrow> put_low (tos + 4) 0x10 s7;
     put_high tos 0x10 s8 }"

definition cpu_task_kernel_init :: "'a sched_scheme task_env \<Rightarrow> u32 \<Rightarrow> u32 \<Rightarrow> 'a sched_scheme \<Rightarrow> 'a sched_scheme option" where
  "cpu_task_kernel_init E task address s = do {
     (b, s1) \<leftarrow> env_memmap E TASK_STACK_SIZE 6 s;
     s2 \<leftarrow> cpu_upd task (\<lambda>c. c\<lparr>stack_bottom := b\<rparr>) s1;
     if b = 0 then cpu_task_dealloc E task s2
     else do {
       s3 \<leftarrow> zero_words b 1024 s2;
       let tos = b + TASK_STACK_SIZE - sizeof irq_regs_layout;
       s4 \<leftarrow> cpu_upd task (\<lambda>c. c\<lparr>stack_top := tos, user_regs := tos\<rparr>) s3;
       init_frame tos address s4 } }"

definition cpu_task_deschedule :: "u32 \<Rightarrow> 'a sched_scheme \<Rightarrow> 'a sched_scheme option" where
  "cpu_task_deschedule task s = irq_save_regs task s"

text \<open>It does not return: the stack pointer is set to the saved registers and \<open>irq_exit\<close> takes over.\<close>
definition cpu_task_schedule :: "'a sched_scheme task_env \<Rightarrow> u32 \<Rightarrow> 'a sched_scheme \<Rightarrow> (flow \<times> 'a sched_scheme) option" where
  "cpu_task_schedule E task s = do {
     t \<leftarrow> tasks s task;
     let s1 = tss_update (int_stack_top (tk_cpu t)) s;
     s2 \<leftarrow> env_load_dir E (cr3_phys (tk_cpu t)) s1;
     let s3 = irq_send_eoi (env_dev E) 0 s2;
     t3 \<leftarrow> tasks s3 task;
     Some (Jump (user_regs (tk_cpu t3)), s3) }"

subsection \<open>scheduler.c\<close>

definition scheduler_advance :: "'a sched_scheme task_env \<Rightarrow> 'a sched_scheme \<Rightarrow> (flow \<times> 'a sched_scheme) option" where
  "scheduler_advance E s =
     (if \<not> irq_is_happening s then Some (Return, s)
      else do {
        let previous = sched_current s;
        p \<leftarrow> tasks s previous;
        let cur = tk_next p;
        let s1 = s\<lparr>sched_current := cur\<rparr>;
        c \<leftarrow> tasks s1 cur;
        if cur \<noteq> previous \<or> tk_state c = TASK_STATE_STARTED then do {
          s2 \<leftarrow> task_upd cur (\<lambda>t. t\<lparr>tk_state := TASK_STATE_PREEMPT\<rparr>) s1;
          s3 \<leftarrow> (if \<not> first_run s2 then cpu_task_deschedule previous s2 else Some (s2\<lparr>first_run := False\<rparr>));
          cpu_task_schedule E cur s3 }
        else Some (Return, s1) })"

definition scheduler_add :: "u32 \<Rightarrow> 'a sched_scheme \<Rightarrow> 'a sched_scheme option" where
  "scheduler_add task s = do {
     c \<leftarrow> tasks s (sched_current s);
     s1 \<leftarrow> task_upd task (\<lambda>t. t\<lparr>tk_next := tk_next c\<rparr>) s;
     task_upd (sched_current s1) (\<lambda>t. t\<lparr>tk_next := task\<rparr>) s1 }"

text \<open>\<open>advance\<close> is the address of \<open>scheduler_advance\<close>.\<close>
definition scheduler_init :: "'a sched_scheme task_env \<Rightarrow> clock_event \<Rightarrow> u32 \<Rightarrow> u32 \<Rightarrow> 'a sched_scheme \<Rightarrow> 'a sched_scheme option" where
  "scheduler_init E garbage advance first s = do {
     s1 \<leftarrow> task_upd first (\<lambda>t. t\<lparr>tk_next := first\<rparr>) (s\<lparr>sched_current := first\<rparr>);
     (_, s2) \<leftarrow> clock_add_countdown (env_malloc E) garbage 10 advance s1;
     Some s2 }"

subsection \<open>task.c\<close>

function pid_loop :: "(int \<Rightarrow> u32) \<Rightarrow> int \<Rightarrow> int" where
  "pid_loop tab i = (if i < MAX_TASKS then (if tab i = NULL then i else pid_loop tab (i + 1)) else - 1)"
  by pat_completeness auto
termination by (relation "measure (\<lambda>(_, i). nat (MAX_TASKS - i))") auto

declare pid_loop.simps [simp del]

definition pid_find_empty :: "'a sched_scheme \<Rightarrow> int" where
  "pid_find_empty s = pid_loop (task_pid_table s) 0"

definition task_create :: "'a sched_scheme task_env \<Rightarrow> u32 \<Rightarrow> 'a sched_scheme \<Rightarrow> (u32 \<times> 'a sched_scheme) option" where
  "task_create E name s = do {
     (task, s1) \<leftarrow> env_malloc E (sizeof task_layout) s;
     if task = NULL then Some (NULL, s1)
     else do {
       let pid = pid_find_empty s1;
       let t = \<lparr>tk_previous = NULL, tk_next = NULL, tk_name = name, tk_pid = pid, tk_state = TASK_STATE_STARTED,
          tk_cpu = \<lparr>cr3_phys = NULL, cr3_virt = NULL, stack_bottom = 0, stack_top = 0, user_regs = NULL,
                    int_stack_bottom = 0, int_stack_top = 0\<rparr>,
          tk_files = \<lparr>max_fid = 0, t_pairs = list_init\<rparr>\<rparr>;
       let s2 = s1\<lparr>tasks := (tasks s1)(task \<mapsto> t)\<rparr>;
       if pid < 0 then do { s3 \<leftarrow> env_free E task s2; Some (NULL, s3\<lparr>tasks := (tasks s3)(task := None)\<rparr>) }
       else do { s3 \<leftarrow> cpu_task_alloc E task s2; Some (task, s3) } } }"

definition task_kernel_create :: "'a sched_scheme task_env \<Rightarrow> u32 \<Rightarrow> u32 \<Rightarrow> 'a sched_scheme \<Rightarrow> (u32 \<times> 'a sched_scheme) option" where
  "task_kernel_create E name address s = do {
     (task, s1) \<leftarrow> task_create E name s;
     if task = NULL then Some (NULL, s1)
     else do { s2 \<leftarrow> cpu_task_kernel_init E task address s1; Some (task, s2) } }"

text \<open>The table has \<open>MAX_TASKS\<close> entries: the guard lets one index too many through.\<close>
definition task_kill :: "int \<Rightarrow> 'a sched_scheme \<Rightarrow> 'a sched_scheme option" where
  "task_kill pid s =
     (if pid < 0 \<or> pid > MAX_TASKS then Some s
      else if pid = MAX_TASKS then None
      else let task = task_pid_table s pid in
        if task = NULL then Some s
        else do {
          t \<leftarrow> tasks s task;
          if tk_state t = TASK_STATE_ZOMBIE then Some s
          else task_upd task (\<lambda>t. t\<lparr>tk_state := TASK_STATE_ZOMBIE\<rparr>) s })"

definition task_dealloc :: "'a sched_scheme task_env \<Rightarrow> u32 \<Rightarrow> 'a sched_scheme \<Rightarrow> 'a sched_scheme option" where
  "task_dealloc E task s =
     (if task = NULL then Some s
      else do {
        t \<leftarrow> tasks s task;
        let s1 = (if tk_pid t \<noteq> - 1 then s\<lparr>task_pid_table := (task_pid_table s)(tk_pid t := NULL)\<rparr> else s);
        s2 \<leftarrow> (if tk_previous t \<noteq> NULL then task_upd (tk_previous t) (\<lambda>p. p\<lparr>tk_next := tk_next t\<rparr>) s1 else Some s1);
        t2 \<leftarrow> tasks s2 task;
        s3 \<leftarrow> (if tk_next t2 \<noteq> NULL then task_upd (tk_next t2) (\<lambda>n. n\<lparr>tk_previous := tk_previous t2\<rparr>) s2 else Some s2);
        s4 \<leftarrow> cpu_task_dealloc E task s3;
        s5 \<leftarrow> env_free E task s4;
        Some (s5\<lparr>tasks := (tasks s5)(task := None)\<rparr>) })"

definition task_init :: "'a sched_scheme task_env \<Rightarrow> clock_event \<Rightarrow> u32 \<Rightarrow> u32 \<Rightarrow> u32 \<Rightarrow> 'a sched_scheme \<Rightarrow> 'a sched_scheme option" where
  "task_init E garbage advance name initial_task_fn s = do {
     let s1 = s\<lparr>task_pid_table := (\<lambda>_. NULL)\<rparr>;
     (task, s2) \<leftarrow> task_kernel_create E name initial_task_fn s1;
     if task = NULL then Some s2 else scheduler_init E garbage advance task s2 }"

subsection \<open>Round robin\<close>

definition next_task :: "'a sched_scheme \<Rightarrow> u32 \<Rightarrow> u32" where
  "next_task s p = (case tasks s p of None \<Rightarrow> NULL | Some t \<Rightarrow> tk_next t)"

text \<open>The tasks in the order in which they will run, the current one first.\<close>
definition ring :: "'a sched_scheme \<Rightarrow> u32 list \<Rightarrow> bool" where
  "ring s xs \<longleftrightarrow> xs \<noteq> [] \<and> distinct xs \<and> (\<forall>x\<in>set xs. tasks s x \<noteq> None)
     \<and> path (next_task s) (sched_current s) xs (hd xs) \<and> sched_current s = hd xs"

text \<open>\<open>paging_load_directory\<close> comes back without having changed anything.\<close>
definition load_returns :: "'a sched_scheme task_env \<Rightarrow> bool" where
  "load_returns E \<longleftrightarrow> (\<forall>d s. env_load_dir E d s = Some s)"

lemma eoi_keeps [simp]:
  "tasks (irq_send_eoi dev i s) = tasks s" "sched_current (irq_send_eoi dev i s) = sched_current s"
  "irq_happening (irq_send_eoi dev i s) = irq_happening s" "first_run (irq_send_eoi dev i s) = first_run s"
  "irq_current_regs (irq_send_eoi dev i s) = irq_current_regs s" "tss_esp0 (irq_send_eoi dev i s) = tss_esp0 s"
  by (simp_all add: irq_send_eoi_def lapic_eoi_def lapic_register_writel_def lapic_register_readl_def reg_read_def reg_write_def
      io_event_def pic_eoi_def io_wait_def outportb_def Let_def)

text \<open>What a switch to \<open>y\<close> does to the tasks: the old task's registers are kept unless this is the first run.\<close>
definition switched :: "u32 \<Rightarrow> u32 \<Rightarrow> 'a sched_scheme \<Rightarrow> u32 \<Rightarrow> task option" where
  "switched x y s = (let m = (tasks s)(y := map_option (\<lambda>t. t\<lparr>tk_state := TASK_STATE_PREEMPT\<rparr>) (tasks s y)) in
     if first_run s then m
     else m(x := map_option (\<lambda>t. t\<lparr>tk_cpu := (tk_cpu t)\<lparr>user_regs := irq_current_regs s\<rparr>\<rparr>) (m x)))"

lemma next_switched: "(case switched x y s p of None \<Rightarrow> NULL | Some t \<Rightarrow> tk_next t) = next_task s p"
  by (simp add: switched_def next_task_def Let_def split: option.split)

lemma scheduler_advance_switch:
  assumes "load_returns E" and "irq_happening s" and "tasks s (sched_current s) = Some t"
    and "tk_next t \<noteq> sched_current s" and "tasks s (tk_next t) = Some u"
  shows "\<exists>s'. scheduler_advance E s = Some (Jump (user_regs (tk_cpu u)), s') \<and> sched_current s' = tk_next t
    \<and> tasks s' = switched (sched_current s) (tk_next t) s \<and> \<not> first_run s' \<and> irq_happening s'
    \<and> irq_current_regs s' = irq_current_regs s \<and> tss_esp0 s' = int_stack_top (tk_cpu u)"
  using assms by (cases "first_run s") (simp_all add: scheduler_advance_def irq_is_happening_def load_returns_def task_upd_def cpu_upd_def cpu_task_deschedule_def irq_save_regs_def irq_get_current_regs_def cpu_task_schedule_def tss_update_def switched_def Let_def)


lemma ring_step:
  assumes "ring s (x # y # zs)" and "sched_current s' = y" and "tasks s' = switched x y s"
  shows "ring s' (y # zs @ [x])"
proof -
  have n: "next_task s' = next_task s"
    using next_switched[of x y s] by (simp add: next_task_def [of s'] assms(3) fun_eq_iff)
  have "tasks s' p \<noteq> None" if "tasks s p \<noteq> None" for p
    using that by (auto simp: assms(3) switched_def Let_def)
  moreover have "path (next_task s) y ((y # zs) @ [x]) y"
    using assms(1) unfolding path_append by (auto simp: ring_def)
  ultimately show ?thesis using assms(1,2) unfolding ring_def n by auto
qed

lemma ring_switch:
  assumes "load_returns E" and "irq_happening s" and "ring s (x # y # zs)"
  shows "\<exists>r s'. scheduler_advance E s = Some (Jump r, s') \<and> ring s' (y # zs @ [x]) \<and> irq_happening s'"
proof -
  obtain t where t: "tasks s x = Some t" using assms(3) by (auto simp: ring_def)
  obtain u where u: "tasks s y = Some u" using assms(3) by (auto simp: ring_def)
  have x: "sched_current s = x" "tk_next t = y" "y \<noteq> x"
    using assms(3) t by (auto simp: ring_def next_task_def)
  obtain s' where s': "scheduler_advance E s = Some (Jump (user_regs (tk_cpu u)), s')" "sched_current s' = y"
      "tasks s' = switched x y s" "irq_happening s'"
    using scheduler_advance_switch[OF assms(1,2), of t u] t u x by auto
  show ?thesis using s' ring_step[OF assms(3) s'(2,3)] by blast
qed

text \<open>Successive runs of the scheduler's callback.\<close>
fun switches :: "'a sched_scheme task_env \<Rightarrow> nat \<Rightarrow> 'a sched_scheme \<Rightarrow> 'a sched_scheme option" where
  "switches E 0 s = Some s"
| "switches E (Suc n) s = do { (_, s1) \<leftarrow> scheduler_advance E s; switches E n s1 }"

text \<open>C15: The scheduler refines a rotating queue: after \<open>n\<close> switches the ring of tasks has been rotated \<open>n\<close>
  times, so every task of the ring becomes the current one within as many switches as there are tasks.\<close>
theorem scheduler_round_robin:
  assumes "load_returns E" and "irq_happening s" and "ring s xs" and "2 \<le> length xs"
  shows "\<exists>s'. switches E n s = Some s' \<and> ring s' (rotate n xs) \<and> sched_current s' = xs ! (n mod length xs)"
proof -
  have "\<exists>s'. switches E n s = Some s' \<and> ring s' (rotate n xs)" using assms(2-4)
  proof (induction n arbitrary: s xs)
    case 0
    then show ?case by simp
  next
    case (Suc n)
    then obtain x y zs where xs: "xs = x # y # zs" by (cases xs; cases "tl xs") auto
    obtain r s1 where s1: "scheduler_advance E s = Some (Jump r, s1)" "ring s1 (y # zs @ [x])" "irq_happening s1"
      using ring_switch[OF assms(1) Suc.prems(1)] Suc.prems(2) unfolding xs by blast
    from Suc.IH[OF s1(3,2)] obtain s' where "switches E n s1 = Some s'" "ring s' (rotate n (y # zs @ [x]))"
      using Suc.prems(3) by (auto simp: xs)
    moreover have "rotate (Suc n) xs = rotate n (y # zs @ [x])" by (simp add: xs rotate1_rotate_swap)
    ultimately show ?case using s1(1) by simp
  qed
  then obtain s' where "switches E n s = Some s'" "ring s' (rotate n xs)" by blast
  moreover have "hd (rotate n xs) = xs ! (n mod length xs)" using assms(4) hd_rotate_conv_nth[of xs n] by fastforce
  ultimately show ?thesis by (auto simp: ring_def)
qed

subsection \<open>A freed task\<close>

text \<open>\<open>scheduler_add\<close> links tasks forward only, so \<open>task_dealloc\<close> leaves the freed task in the ring: the
  task before it still points to it, and the next switch from there goes to a task that no longer exists.\<close>
lemma task_dealloc_dangles:
  assumes "ring s (x # y # zs)" and "tasks s y = Some t" and "tk_previous t = NULL"
    and "stack_bottom (tk_cpu t) = 0" and "int_stack_bottom (tk_cpu t) = 0" and "\<And>p t. env_free E p t = Some t"
    and "irq_happening s"
  shows "\<exists>s'. task_dealloc E y s = Some s' \<and> sched_current s' = x \<and> next_task s' x = y \<and> tasks s' y = None
    \<and> scheduler_advance E s' = None"
proof -
  obtain u where u: "tasks s x = Some u" using assms(1) by (auto simp: ring_def)
  have f: "sched_current s = x" "tk_next u = y" "y \<noteq> x" "x \<noteq> NULL" "y \<noteq> NULL"
    using assms(1) u by (auto simp: ring_def next_task_def)
  have "tk_next t = NULL \<or> tasks s (tk_next t) \<noteq> None"
  proof (cases zs)
    case Nil
    then have "tk_next t = x" using assms(1,2) by (auto simp: ring_def next_task_def)
    then show ?thesis using u by simp
  next
    case (Cons z zs')
    then have "tk_next t = z" using assms(1,2) by (auto simp: ring_def next_task_def)
    then show ?thesis using assms(1) Cons by (auto simp: ring_def)
  qed
  note defs = task_dealloc_def cpu_task_dealloc_def task_upd_def Let_def scheduler_advance_def irq_is_happening_def next_task_def
  have ty: "tk_next t \<noteq> y"
    using assms(1,2) by (cases zs) (auto simp: ring_def next_task_def)
  show ?thesis
  proof (cases "tk_next t = NULL")
    case True
    then show ?thesis using assms(2-7) u f by (cases "tk_pid t = - 1") (simp_all add: defs)
  next
    case False
    with \<open>tk_next t = NULL \<or> tasks s (tk_next t) \<noteq> None\<close> obtain v where v: "tasks s (tk_next t) = Some v" by blast
    then show ?thesis using False ty assms(2-7) u f
      by (cases "tk_pid t = - 1"; cases "tk_next t = x") (simp_all add: defs)
  qed
qed

subsection \<open>The timer interrupt\<close>

text \<open>What runs behind the two addresses the kernel registers: the interval timer's handler for interrupt 0 and
  the scheduler as the clock's callback.\<close>
definition kernel_callback :: "'a sched_scheme task_env \<Rightarrow> u32 \<Rightarrow> u32 \<Rightarrow> 'a sched_scheme \<Rightarrow> (flow \<times> 'a sched_scheme) option" where
  "kernel_callback E adv f s = (if f = adv then scheduler_advance E s else None)"

definition kernel_handler :: "'a sched_scheme task_env \<Rightarrow> u32 \<Rightarrow> u32 \<Rightarrow> u32 \<Rightarrow> u32 \<Rightarrow> 'a sched_scheme \<Rightarrow> (flow \<times> 'a sched_scheme) option" where
  "kernel_handler E pit adv h frame s =
     (if h = pit then pit_handle_interrupt (env_free E) (kernel_callback E adv) s else None)"

lemma ring_cong: "tasks s' = tasks s \<Longrightarrow> sched_current s' = sched_current s \<Longrightarrow> ring s' xs = ring s xs"
proof -
  assume a: "tasks s' = tasks s" "sched_current s' = sched_current s"
  then have "next_task s' = next_task s" by (simp add: next_task_def fun_eq_iff)
  with a show ?thesis by (simp add: ring_def)
qed

text \<open>C13: The interrupt at which the scheduler's countdown ends preempts the current task: its registers are those
  the interrupt pushed, the next task of the ring runs, and the countdown starts again. It leaves through the
  new task's stack, so \<open>irq_happening\<close> stays set for good.\<close>
theorem timer_interrupt_preempts:
  assumes "load_returns E" and ring: "ring s (x # y # zs)" and one: "one_event p e s" and "e_callback e = adv"
    and "unat (e_counter e) \<le> unat (ms_per_tick s)" and "unat (ms_per_tick s) < 2147483648"
    and "irq_handlers s = pit # hs" and "pit \<noteq> NULL" and "\<not> first_run s"
    and "irq_get_current dev (s\<lparr>irq_current_regs := frame, irq_happening := True\<rparr>)
      = Some (0, s\<lparr>irq_current_regs := frame, irq_happening := True, io_log := l\<rparr>)"
  shows "\<exists>r s' t u. irq_general_handler dev (kernel_handler E pit adv) frame s = Some (Jump r, s') \<and> ring s' (y # zs @ [x])
    \<and> tasks s' x = Some t \<and> user_regs (tk_cpu t) = frame \<and> tasks s' y = Some u \<and> r = user_regs (tk_cpu u)
    \<and> irq_happening s'"
proof -
  let ?s = "s\<lparr>irq_current_regs := frame, irq_happening := True, io_log := l\<rparr>"
  let ?c = "set_counter p (e_initial e) ?s"
  have o: "one_event p e ?s" using one by (simp add: one_event_def)
  have r: "ring ?c (x # y # zs)" using ring ring_cong[of ?c s] by (simp add: set_counter_def)
  obtain t where t: "tasks s x = Some t" using ring by (auto simp: ring_def)
  obtain u where u: "tasks s y = Some u" using ring by (auto simp: ring_def)
  have x: "sched_current s = x" "tk_next t = y" "y \<noteq> x" using ring t by (auto simp: ring_def next_task_def)
  have "\<exists>s'. scheduler_advance E ?c = Some (Jump (user_regs (tk_cpu u)), s') \<and> sched_current s' = y
      \<and> tasks s' = switched x y ?c \<and> irq_happening s'"
    using scheduler_advance_switch[OF assms(1), of ?c t u] t u x by (auto simp: set_counter_def)
  then obtain s' where s': "scheduler_advance E ?c = Some (Jump (user_regs (tk_cpu u)), s')" "sched_current s' = y"
      "tasks s' = switched x y ?c" "irq_happening s'" by blast
  have "ring s' (y # zs @ [x])" by (rule ring_step[OF r s'(2,3)])
  moreover have "tasks s' x = Some (t\<lparr>tk_cpu := (tk_cpu t)\<lparr>user_regs := frame\<rparr>\<rparr>)"
      "tasks s' y = Some (u\<lparr>tk_state := TASK_STATE_PREEMPT\<rparr>)"
    using s'(3) t u x assms(9) by (simp_all add: switched_def set_counter_def)
  moreover have "clock_advance (env_free E) (kernel_callback E adv) (ms_per_tick ?s) ?s = Some (Jump (user_regs (tk_cpu u)), s')"
    using advance_fires[OF o, of "ms_per_tick ?s"] assms(4-6) s'(1) by (simp add: kernel_callback_def)
  then have "irq_general_handler dev (kernel_handler E pit adv) frame s = Some (Jump (user_regs (tk_cpu u)), s')"
    using assms(7,8,10) by (simp add: irq_general_handler_def kernel_handler_def pit_handle_interrupt_def aget_in)
  ultimately show ?thesis using s'(4) by auto
qed

subsection \<open>A new kernel task\<close>

text \<open>The stack alone.\<close>
definition mput :: "u32 \<Rightarrow> u32 \<Rightarrow> (u32 \<Rightarrow> u32 option) \<Rightarrow> (u32 \<Rightarrow> u32 option) option" where
  "mput p v m = (if m p = None then None else Some (m(p \<mapsto> v)))"

lemma put_words:
  "put_word p v (s\<lparr>words := m\<rparr>) = map_option (\<lambda>m. s\<lparr>words := m\<rparr>) (mput p v m)"
  "put_low p h (s\<lparr>words := m\<rparr>) = do { w \<leftarrow> m p; map_option (\<lambda>m. s\<lparr>words := m\<rparr>) (mput p ((w AND 0xFFFF0000) OR ucast h) m) }"
  "put_high p h (s\<lparr>words := m\<rparr>) = do { w \<leftarrow> m p; map_option (\<lambda>m. s\<lparr>words := m\<rparr>) (mput p ((w AND 0xFFFF) OR push_bit 16 (ucast h)) m) }"
  by (auto simp: put_word_def put_low_def put_high_def mput_def split: bind_splits)

lemma mput_Some: "m p = Some w \<Longrightarrow> mput p v m = Some (m(p \<mapsto> v))"
  by (simp add: mput_def)

lemma init_frame_words:
  assumes "m tos = Some 0" "m (tos + 4) = Some 0" "m (tos + 16) = Some 0" "m (tos + 20) = Some 0"
    "m (tos + 48) = Some 0" "m (tos + 52) = Some 0" "m (tos + 56) = Some 0"
  shows "init_frame tos address (s\<lparr>words := m\<rparr>) = Some (s\<lparr>words := m(tos + 56 \<mapsto> 0x202, tos + 52 \<mapsto> 8, tos + 48 \<mapsto> address,
     tos + 16 \<mapsto> tos, tos + 20 \<mapsto> tos, tos + 4 \<mapsto> 0x100010, tos \<mapsto> 0x100000)\<rparr>)"
  unfolding init_frame_def by (simp add: put_words mput_Some assms)

text \<open>The registers a new task starts with. The frame \<open>cpu_task_kernel_init\<close> builds does not fit what \<open>irq_exit\<close> pops: the segment
  registers are 16-bit fields of the struct but 32-bit words on the stack, so \<open>ds\<close> and \<open>es\<close> are null.\<close>
definition first_regs :: "u32 \<Rightarrow> cpu_regs" where
  "first_regs address = cpu_regs.make 0 0x10 0 0 address 8 0x202"

lemma init_frame_exit:
  assumes "\<forall>i<17. words s (tos + 4 * of_nat i) = Some 0"
  shows "\<exists>w. init_frame tos address s = Some (s\<lparr>words := w\<rparr>) \<and> irq_exit w tos = Some (first_regs address)
    \<and> dom (words s) \<subseteq> dom w"
proof -
  have w: "words s (tos + of_nat (4 * i)) = Some 0" if "i < 17" for i using assms that by simp
  have ws: "words s tos = Some 0" "words s (tos + 4) = Some 0" "words s (tos + 8) = Some 0" "words s (tos + 12) = Some 0"
    "words s (tos + 16) = Some 0" "words s (tos + 20) = Some 0" "words s (tos + 48) = Some 0" "words s (tos + 52) = Some 0"
    "words s (tos + 56) = Some 0"
    using w[of 0] w[of 1] w[of 2] w[of 3] w[of 4] w[of 5] w[of 12] w[of 13] w[of 14] by simp_all
  have "init_frame tos address s = Some (s\<lparr>words := (words s)(tos + 56 \<mapsto> 0x202, tos + 52 \<mapsto> 8, tos + 48 \<mapsto> address,
     tos + 16 \<mapsto> tos, tos + 20 \<mapsto> tos, tos + 4 \<mapsto> 0x100010, tos \<mapsto> 0x100000)\<rparr>)"
    using init_frame_words[of "words s" tos address s] ws by simp
  then show ?thesis by (intro exI) (auto simp: irq_exit_def ws first_regs_def cpu_regs.defs)
qed

lemma kernel_task_starts_with_null_ds:
  assumes "\<forall>i<17. words s (tos + 4 * of_nat i) = Some 0"
  shows "\<exists>s'. init_frame tos address s = Some s' \<and> irq_exit (words s') tos =
    Some \<lparr>x_gs = 0, x_fs = 0x10, x_es = 0, x_ds = 0, x_eip = address, x_cs = 8, x_eflags = 0x202\<rparr>"
proof -
  obtain w where "init_frame tos address s = Some (s\<lparr>words := w\<rparr>)" "irq_exit w tos = Some (first_regs address)"
    using init_frame_exit[OF assms] by blast
  then show ?thesis by (simp add: first_regs_def cpu_regs.defs)
qed

text \<open>Two tasks, and a controller that reports interrupt 0.\<close>
definition idle_cpu :: cpu_task where
  "idle_cpu = \<lparr>cr3_phys = NULL, cr3_virt = NULL, stack_bottom = 0, stack_top = 0, user_regs = 0, int_stack_bottom = 0, int_stack_top = 0\<rparr>"

definition task_to :: "u32 \<Rightarrow> u32 \<Rightarrow> task" where
  "task_to nxt regs = \<lparr>tk_previous = NULL, tk_next = nxt, tk_name = NULL, tk_pid = 0, tk_state = TASK_STATE_STARTED,
     tk_cpu = idle_cpu\<lparr>user_regs := regs\<rparr>, tk_files = \<lparr>max_fid = 0, t_pairs = list_init\<rparr>\<rparr>"

definition two_tasks :: sched where
  "two_tasks = \<lparr>io_log = [], gates = [], idtp_size = 0, lapic_base = 0, ioapic_base = 0, apic_msr = 0, irq_current_regs = 0,
     irq_happening = True, irq_handlers = [0x90, 0], clock_root = 0x40, events = [0x40 \<mapsto> ten_ms\<lparr>e_counter := 2\<rparr>],
     sleep_counter = 0, ms_per_tick = 2, tasks = [0x100 \<mapsto> task_to 0x200 0x1000, 0x200 \<mapsto> task_to 0x100 0x2000],
     task_pid_table = (\<lambda>_. NULL), sched_current = 0x100, first_run = False, words = (\<lambda>_. Some 0),
     tss_esp0 = 0, tss_ss0 = 0, tss_iopb_offset = 0\<rparr>"

definition idle_env :: "sched task_env" where
  "idle_env = \<lparr>env_dev = (\<lambda>_ _. 1), env_malloc = (\<lambda>_ s. Some (NULL, s)), env_free = (\<lambda>_. Some), env_memmap = (\<lambda>_ _ s. Some (0, s)),
     env_memunmap = (\<lambda>_ _. Some), env_dir_copy = (\<lambda>s. Some (None, s)), env_load_dir = (\<lambda>_. Some)\<rparr>"

lemma two_tasks_ring: "ring two_tasks (0x100 # 0x200 # [])"
  by (simp add: ring_def two_tasks_def next_task_def task_to_def)

theorem scheduler_round_robin_witness:
  "\<exists>s'. switches idle_env 3 two_tasks = Some s' \<and> ring s' (rotate 3 [0x100, 0x200])
     \<and> sched_current s' = [0x100, 0x200] ! (3 mod length [0x100 :: u32, 0x200])"
  by (rule scheduler_round_robin[OF _ _ two_tasks_ring]) (simp_all add: load_returns_def idle_env_def two_tasks_def)

lemma task_dealloc_dangles_witness:
  "\<exists>s'. task_dealloc idle_env 0x200 two_tasks = Some s' \<and> sched_current s' = 0x100 \<and> next_task s' 0x100 = 0x200 \<and> tasks s' 0x200 = None
    \<and> scheduler_advance idle_env s' = None"
  by (rule task_dealloc_dangles[OF two_tasks_ring, of "task_to 0x100 0x2000"])
    (simp_all add: two_tasks_def idle_env_def task_to_def idle_cpu_def)

lemma kernel_task_starts_with_null_ds_witness:
  "\<exists>s'. init_frame 0x8000 0xC0100000 two_tasks = Some s' \<and> irq_exit (words s') 0x8000 =
    Some \<lparr>x_gs = 0, x_fs = 0x10, x_es = 0, x_ds = 0, x_eip = 0xC0100000, x_cs = 8, x_eflags = 0x202\<rparr>"
  by (rule kernel_task_starts_with_null_ds) (simp add: two_tasks_def)

lemma two_tasks_irq:
  "irq_get_current (\<lambda>_ _. 1) (two_tasks\<lparr>irq_current_regs := 0x7000, irq_happening := True\<rparr>) =
     Some (0, two_tasks\<lparr>irq_current_regs := 0x7000, irq_happening := True,
       io_log := [OutB 0x20 0x0B, OutB 0xA0 0x0B, InB 0xA0 1, InB 0x20 1]\<rparr>)"
  by (simp add: irq_get_current_def lapic_is_enabled_def two_tasks_def pic_get_isr_def pic_read_regs_def inportb_def outportb_def
      io_event_def io_wait_def PIC_CMD_1_def PIC_CMD_2_def PIC_READ_ISR_def Let_def ctz_def upt_rec[of 0])

theorem timer_interrupt_preempts_witness:
  "\<exists>r s' t u. irq_general_handler (\<lambda>_ _. 1) (kernel_handler idle_env 0x90 7) 0x7000 two_tasks = Some (Jump r, s') \<and> ring s' (0x200 # [] @ [0x100])
    \<and> tasks s' 0x100 = Some t \<and> user_regs (tk_cpu t) = 0x7000 \<and> tasks s' 0x200 = Some u \<and> r = user_regs (tk_cpu u)
    \<and> irq_happening s'"
  by (rule timer_interrupt_preempts[OF _ two_tasks_ring, of _ "0x40" "ten_ms\<lparr>e_counter := 2\<rparr>" 7 "0x90" "[0]" _ _
        "[OutB 0x20 0x0B, OutB 0xA0 0x0B, InB 0xA0 1, InB 0x20 1]"])
    (simp_all only: two_tasks_irq, simp_all add: load_returns_def idle_env_def two_tasks_def one_event_def ten_ms_def)

end
