(* ===== verification/Memmap.thy ===== *)
theory Memmap
  imports Frame Paging Vasa CMath
begin

text \<open>
  \<open>src/src/arch/i386/mem/map.c\<close>: where the frame allocator, the page tables and the virtual address
  space allocator come together. The state \<open>mm\<close> holds the state of each of them; the two allocators
  keep their nodes in one heap, \<open>mm_heap\<close>, which is put in their own states while they run. Where the
  nodes come from is the argument \<open>E\<close>, because the caches that hold them call \<open>memmap\<close> themselves when
  they run empty. The loop that backs a region with frames needs a source of frames, \<open>frame_source\<close>;
  the frame allocator is one.
\<close>

record mm = paging +
  mm_vasa :: vasa
  mm_frame :: frame
  mm_heap :: kheap

record mm_env =
  vasa_get :: "kheap \<Rightarrow> (u32 \<times> kheap) option"
  vasa_put :: "u32 \<Rightarrow> kheap \<Rightarrow> kheap option"
  fnode_get :: "kheap \<Rightarrow> (u32 \<times> kheap) option"
  fnode_put :: "u32 \<Rightarrow> kheap \<Rightarrow> kheap option"

definition in_vasa :: "(vasa \<Rightarrow> ('b \<times> vasa) option) \<Rightarrow> mm \<Rightarrow> ('b \<times> mm) option" where
  "in_vasa f s = do { (r, v) \<leftarrow> f ((mm_vasa s)\<lparr>v_heap := mm_heap s\<rparr>); Some (r, s\<lparr>mm_vasa := v, mm_heap := v_heap v\<rparr>) }"

definition in_frame :: "(frame \<Rightarrow> ('b \<times> frame) option) \<Rightarrow> mm \<Rightarrow> ('b \<times> mm) option" where
  "in_frame f s = do { (r, v) \<leftarrow> f ((mm_frame s)\<lparr>fa_heap := mm_heap s\<rparr>); Some (r, s\<lparr>mm_frame := v, mm_heap := fa_heap v\<rparr>) }"

definition mm_frame_alloc :: "mm_env \<Rightarrow> u32 \<Rightarrow> mm \<Rightarrow> (u32 \<times> mm) option" where
  "mm_frame_alloc E n = in_frame (frame_alloc (fnode_get E) (fnode_put E) n)"

definition mm_frame_dealloc :: "mm_env \<Rightarrow> u32 \<Rightarrow> u32 \<Rightarrow> mm \<Rightarrow> mm option" where
  "mm_frame_dealloc E a n s = do {
     (_, s') \<leftarrow> in_frame (\<lambda>f. do { f' \<leftarrow> frame_dealloc (fnode_get E) (fnode_put E) a n f; Some ((), f') }) s;
     Some s' }"

definition mm_vasa_mark :: "mm_env \<Rightarrow> u32 \<Rightarrow> u32 \<Rightarrow> bool \<Rightarrow> u32 \<Rightarrow> mm \<Rightarrow> (bool \<times> mm) option" where
  "mm_vasa_mark E base len used flags = in_vasa (vasa_mark (vasa_get E) (vasa_put E) base len used flags)"

subsection \<open>The memory map of the boot loader\<close>

text \<open>\<open>rd\<close> reads the words the boot loader left in memory. An entry is \<open>size\<close>, \<open>addr_low\<close>, \<open>addr_high\<close>,
  \<open>len_low\<close>, \<open>len_high\<close>, \<open>type\<close>. Only the first chunk that is available and does not start at 0 is added.\<close>
partial_function (option) map_entries :: "mm_env \<Rightarrow> (u32 \<Rightarrow> u32 option) \<Rightarrow> u32 \<Rightarrow> u32 \<Rightarrow> mm \<Rightarrow> mm option" where
  "map_entries E rd base base_end s =
     (if base < base_end then do {
        addr \<leftarrow> rd (base + offsetof multiboot_mmap_entry_layout ''addr_low'');
        len \<leftarrow> rd (base + offsetof multiboot_mmap_entry_layout ''len_low'');
        ty \<leftarrow> rd (base + offsetof multiboot_mmap_entry_layout ''type'');
        if ty = 1 \<and> addr \<noteq> 0 then do {
          (_, s') \<leftarrow> in_frame (\<lambda>f. do { f' \<leftarrow> frame_add_chunk (fnode_get E) (fnode_put E) addr len f; Some ((), f') }) s;
          Some s' }
        else do { size \<leftarrow> rd base; map_entries E rd (base + (size + 4)) base_end s } }
      else Some s)"

definition memmap_to_frames :: "mm_env \<Rightarrow> (u32 \<Rightarrow> u32 option) \<Rightarrow> u32 \<Rightarrow> u32 \<Rightarrow> mm \<Rightarrow> mm option" where
  "memmap_to_frames E rd kernel_base multiboot s = do {
     mmap_addr \<leftarrow> rd (multiboot + offsetof multiboot_info_layout ''mmap_addr'');
     mmap_length \<leftarrow> rd (multiboot + offsetof multiboot_info_layout ''mmap_length'');
     let base = mmap_addr + kernel_base;
     map_entries E rd base (base + mmap_length) s }"

subsection \<open>memmap\<close>

definition MMAP_URGENT :: u32 where "MMAP_URGENT = push_bit 2 1"
definition MMAP_CONTINUOUS :: u32 where "MMAP_CONTINUOUS = push_bit 3 1"
definition MMAP_ALLOCATED :: u32 where "MMAP_ALLOCATED = push_bit 4 1"

text \<open>\<open>PAGE_RW | PAGE_PRESENT\<close>.\<close>
definition map_flags :: u16 where "map_flags = 2 OR 1"

text \<open>Mapping \<open>n\<close> pages from \<open>virt + i * PAGE_SIZE\<close> on: to a run of frames, and to frames allocated one by one.\<close>
fun map_run :: "(u32 \<Rightarrow> 'a paging_scheme \<Rightarrow> (u32 \<times> 'a paging_scheme) option) \<Rightarrow> (u32 \<Rightarrow> u32 \<Rightarrow> 'a paging_scheme \<Rightarrow> 'a paging_scheme option)
    \<Rightarrow> u32 \<Rightarrow> u32 \<Rightarrow> u32 \<Rightarrow> nat \<Rightarrow> nat \<Rightarrow> 'a paging_scheme \<Rightarrow> (bool \<times> 'a paging_scheme) option" where
  "map_run fa fd pages page_cnt virt i 0 s = Some (True, s)"
| "map_run fa fd pages page_cnt virt i (Suc n) s = do {
     (ok, s1) \<leftarrow> paging_map fa (pages + of_nat i * PAGE_SIZE) (virt + of_nat i * PAGE_SIZE) map_flags s;
     if \<not> ok then do { s2 \<leftarrow> fd pages page_cnt s1; Some (False, s2) }
     else map_run fa fd pages page_cnt virt (Suc i) n s1 }"

fun map_each :: "(u32 \<Rightarrow> 'a paging_scheme \<Rightarrow> (u32 \<times> 'a paging_scheme) option) \<Rightarrow> (u32 \<Rightarrow> u32 \<Rightarrow> 'a paging_scheme \<Rightarrow> 'a paging_scheme option)
    \<Rightarrow> u32 \<Rightarrow> nat \<Rightarrow> nat \<Rightarrow> 'a paging_scheme \<Rightarrow> (bool \<times> 'a paging_scheme) option" where
  "map_each fa fd virt i 0 s = Some (True, s)"
| "map_each fa fd virt i (Suc n) s = do {
     (page, s1) \<leftarrow> fa 1 s;
     if page = NULL then do { s2 \<leftarrow> fd page 1 s1; Some (False, s2) }
     else do {
       (ok, s2) \<leftarrow> paging_map fa page (virt + of_nat i * PAGE_SIZE) map_flags s1;
       if \<not> ok then do { s3 \<leftarrow> fd page 1 s2; Some (False, s3) }
       else map_each fa fd virt (Suc i) n s2 } }"

definition memmap_back :: "mm_env \<Rightarrow> u32 \<Rightarrow> u32 \<Rightarrow> u32 \<Rightarrow> mm \<Rightarrow> (u32 \<times> mm) option" where
  "memmap_back E virt_start virt_end flags s = do {
     let page_cnt = cmax 1 ((virt_end - virt_start) div PAGE_SIZE);
     if flags AND MMAP_URGENT \<noteq> 0 then
       (if flags AND MMAP_CONTINUOUS \<noteq> 0 then do {
          (pages, s1) \<leftarrow> mm_frame_alloc E page_cnt s;
          if pages = NULL then Some (NULL, s1)
          else do {
            (ok, s2) \<leftarrow> map_run (mm_frame_alloc E) (mm_frame_dealloc E) pages page_cnt virt_start 0 (unat page_cnt) s1;
            Some (if ok then virt_start else NULL, s2) } }
        else do {
          (ok, s1) \<leftarrow> map_each (mm_frame_alloc E) (mm_frame_dealloc E) virt_start 0 (unat page_cnt) s;
          Some (if ok then virt_start else NULL, s1) })
     else Some (virt_start, s) }"

text \<open>\<open>MEM_RAM\<close> is 0.\<close>
definition memmap :: "mm_env \<Rightarrow> u32 \<Rightarrow> u32 \<Rightarrow> u32 \<Rightarrow> mm \<Rightarrow> (u32 \<times> mm) option" where
  "memmap E start len flags0 s = do {
     let virt_start = start AND NOT 0xFFF;
     let virt_end = (start + len) AND NOT 0xFFF;
     let virt_len = virt_end - virt_start;
     let flags = (if flags0 AND MMAP_URGENT \<noteq> 0 then flags0 OR MMAP_ALLOCATED else flags0);
     if start = NULL then do {
       (p, s1) \<leftarrow> in_vasa (vasa_alloc (vasa_get E) (vasa_put E) 0 virt_len flags) s;
       if p = NULL then Some (NULL, s1) else memmap_back E p (p + virt_len) flags s1 }
     else do {
       (ok, s1) \<leftarrow> mm_vasa_mark E virt_start virt_len True flags s;
       if \<not> ok then Some (NULL, s1) else memmap_back E virt_start virt_end flags s1 } }"

subsection \<open>memunmap\<close>

partial_function (option) unmap_run :: "mm_env \<Rightarrow> u32 \<Rightarrow> u32 \<Rightarrow> mm \<Rightarrow> (bool \<times> mm) option" where
  "unmap_run E page virt_end s =
     (if page < virt_end then do {
        (ok, s1) \<leftarrow> paging_unmap (mm_frame_dealloc E) page s;
        if \<not> ok then Some (False, s1) else unmap_run E (page + PAGE_SIZE) virt_end s1 }
      else Some (True, s))"

partial_function (option) unmap_each :: "mm_env \<Rightarrow> u32 \<Rightarrow> u32 \<Rightarrow> mm \<Rightarrow> (bool \<times> mm) option" where
  "unmap_each E page virt_end s =
     (if page < virt_end then do {
        physical \<leftarrow> paging_find_physical page s;
        s1 \<leftarrow> mm_frame_dealloc E physical 1 s;
        (ok, s2) \<leftarrow> paging_unmap (mm_frame_dealloc E) page s1;
        if \<not> ok then Some (False, s2) else unmap_each E (page + PAGE_SIZE) virt_end s2 }
      else Some (True, s))"

definition memunmap :: "mm_env \<Rightarrow> u32 \<Rightarrow> u32 \<Rightarrow> mm \<Rightarrow> mm option" where
  "memunmap E start len s =
     (if start = NULL then Some s
      else do {
        let virt_start = start AND NOT 0xFFF;
        let virt_end = (start + len) AND NOT 0xFFF;
        flags \<leftarrow> vasa_get_flags virt_start ((mm_vasa s)\<lparr>v_heap := mm_heap s\<rparr>);
        (ok, s1) \<leftarrow>
          (if flags AND MMAP_ALLOCATED \<noteq> 0 then
             (if flags AND MMAP_CONTINUOUS \<noteq> 0 then do {
                physical \<leftarrow> paging_find_physical virt_start s;
                s1 \<leftarrow> mm_frame_dealloc E physical ((virt_end - virt_start) div PAGE_SIZE) s;
                unmap_run E virt_start virt_end s1 }
              else unmap_each E virt_start virt_end s)
           else Some (True, s));
        if \<not> ok then Some s1
        else do { (_, s2) \<leftarrow> mm_vasa_mark E virt_start len False 0 s1; Some s2 } })"

subsection \<open>Backing a region with frames\<close>

text \<open>\<open>avail s n F\<close>: the next \<open>n\<close> calls of the allocator give pages out of the free pages \<open>F\<close>; it keeps
  its state apart from the page tables.\<close>
locale frame_source =
  fixes falloc :: "u32 \<Rightarrow> 'a paging_scheme \<Rightarrow> (u32 \<times> 'a paging_scheme) option"
    and avail :: "'a paging_scheme \<Rightarrow> nat \<Rightarrow> u32 multiset \<Rightarrow> bool"
  assumes take_page: "avail s (Suc n) F \<Longrightarrow> \<exists>a s' F'. falloc 1 s = Some (a, s') \<and> a \<noteq> NULL \<and> F = add_mset a F'
      \<and> avail s' n F' \<and> pmem s' = pmem s \<and> cr3 s' = cr3 s \<and> page_lock s' = page_lock s"
    and avail_pmem: "avail (s\<lparr>pmem := m\<rparr>) n F = avail s n F"
    and avail_lock: "avail (s\<lparr>page_lock := l\<rparr>) n F = avail s n F"

text \<open>What the page tables say depends on no other part of the state.\<close>
lemma tables_same:
  assumes "pmem s' = pmem s" and "cr3 s' = cr3 s"
  shows "mmu s' w = mmu s w" "entry s' w = entry s w" "mappable s' w = mappable s w" "tables_ok s' = tables_ok s"
proof -
  have p: "pde s' d = pde s d" for d using assms by (simp add: pde_def)
  show t: "tables_ok s' = tables_ok s"
    using tables_ok_cong[of s s'] tables_ok_cong[of s' s] assms p by auto
  show "mmu s' w = mmu s w" "entry s' w = entry s w" using assms p by (simp_all add: mmu_pde entry_def)
  have "has_table s' d = has_table s d" for d using p by (simp add: has_table_def)
  then show "mappable s' w = mappable s w" using t by (simp add: mappable_def)
qed

definition page_at :: "u32 \<Rightarrow> nat \<Rightarrow> u32" where
  "page_at virt j = virt + of_nat j * PAGE_SIZE"

lemma page_at_no: "unat virt + j * 4096 < 4294967296 \<Longrightarrow> unat (page_at virt j) div 4096 = unat virt div 4096 + j"
proof -
  assume a: "unat virt + j * 4096 < 4294967296"
  then have j: "unat (of_nat j :: u32) = j" by (intro unat_of_nat32) simp
  then have "unat (of_nat j * PAGE_SIZE) = j * 4096"
    using unat_times_nowrap[of "of_nat j" PAGE_SIZE] a by (simp add: PAGE_SIZE_def)
  then have "unat (page_at virt j) = unat virt + j * 4096"
    unfolding page_at_def using a by (simp add: unat_plus_nowrap)
  then show ?thesis by simp
qed

lemma same_page_no: "same_page v w \<Longrightarrow> unat v div 4096 = unat w div 4096"
proof -
  assume s: "same_page v w"
  have "unat x div 4096 = 1024 * unat (va_dir x) + unat (va_tab x)" for x
  proof -
    have "unat (va_dir x) = unat x div 4096 div 1024"
      unfolding va_dir_def unat_drop_bit by (simp add: div_mult2_eq [symmetric])
    moreover have "unat (va_tab x) = unat x div 4096 mod 1024"
      unfolding va_tab_def unat_and_1023 unat_drop_bit by simp
    ultimately show ?thesis by simp
  qed
  then show ?thesis using s by (simp add: same_page_def)
qed

lemma pages_differ:
  assumes "unat virt + n * 4096 \<le> 4294967296" and "j < n" "k < n" "j \<noteq> k"
  shows "\<not> same_page (page_at virt j) (page_at virt k)"
proof
  assume "same_page (page_at virt j) (page_at virt k)"
  then have "unat (page_at virt j) div 4096 = unat (page_at virt k) div 4096" by (rule same_page_no)
  then show False using page_at_no[of virt j] page_at_no[of virt k] assms by simp
qed

lemma set_entry_entry_other:
  assumes "mappable s v" and "mappable s w" and "\<not> same_page v w"
  shows "entry (set_entry s v x) w = entry s w"
proof -
  have "frame_of (pde s (va_dir w)) = frame_of (pde s (va_dir v)) \<longleftrightarrow> va_dir w = va_dir v"
    using assms(1,2) unfolding mappable_def tables_ok_def by metis
  then show ?thesis using assms
      slot_eq_iff[OF frame_of_low frame_of_low va_tab_less va_tab_less, of "pde s (va_dir w)" w "pde s (va_dir v)" v]
    by (simp add: entry_def set_entry_pde va_dir_less) (auto simp: set_entry_def same_page_def)
qed

lemma map_flags_ok: "map_flags < 4096" "map_flags AND 1 \<noteq> 0"
  by (simp_all add: map_flags_def)

definition map_page :: "u32 \<Rightarrow> u32 \<Rightarrow> 'a paging_scheme \<Rightarrow> 'a paging_scheme" where
  "map_page phys v s = unlock (set_entry (s\<lparr>page_lock := 1\<rparr>) v (frame_of phys OR ucast map_flags))"

lemma paging_map_page:
  assumes "page_lock s = 0" and "mappable s v" and "pe_flags (entry s v) AND 1 = 0"
  shows "paging_map fa phys v map_flags s = Some (True, map_page phys v s)"
    and "page_lock (map_page phys v s) = 0" and "cr3 (map_page phys v s) = cr3 s"
    and "mappable (map_page phys v s) w = mappable s w" and "tables_ok (map_page phys v s)"
    and "mmu (map_page phys v s) w = (if same_page v w then Some (frame_of phys + (w AND 0xFFF)) else mmu s w)"
    and "mappable s w \<Longrightarrow> \<not> same_page v w \<Longrightarrow> entry (map_page phys v s) w = entry s w"
    and "map_page phys v s = s\<lparr>pmem := pmem (map_page phys v s), page_lock := 0\<rparr>"
proof -
  have m: "mappable (s\<lparr>page_lock := 1\<rparr>) v" using assms(2) by simp
  show "paging_map fa phys v map_flags s = Some (True, map_page phys v s)"
    unfolding map_page_def by (rule paging_map_stores[OF assms(1-3)])
  show "page_lock (map_page phys v s) = 0" "cr3 (map_page phys v s) = cr3 s" "tables_ok (map_page phys v s)"
    using set_entry_ok[OF m] by (simp_all add: map_page_def)
  show "mappable (map_page phys v s) w = mappable s w" using set_entry_mappable[OF m] by (simp add: map_page_def unlock_def)
  show "mmu (map_page phys v s) w = (if same_page v w then Some (frame_of phys + (w AND 0xFFF)) else mmu s w)"
    using set_entry_mmu[OF m] entry_of_flags[OF map_flags_ok(1)] map_flags_ok(2) by (simp add: map_page_def)
  show "entry (map_page phys v s) w = entry s w" if "mappable s w" "\<not> same_page v w"
    using set_entry_entry_other[OF m _ that(2)] that(1) by (simp add: map_page_def unlock_def)
  show "map_page phys v s = s\<lparr>pmem := pmem (map_page phys v s), page_lock := 0\<rparr>"
    by (simp add: map_page_def set_entry_def unlock_def spin_unlock_def)
qed

context frame_source
begin

lemma avail_mapped_page: "page_lock s = 0 \<Longrightarrow> mappable s v \<Longrightarrow> pe_flags (entry s v) AND 1 = 0
    \<Longrightarrow> avail s n F \<Longrightarrow> avail (map_page phys v s) n F"
  using avail_pmem avail_lock paging_map_page(8) by metis

lemma map_each_maps:
  assumes "page_lock s = 0" and "tables_ok s" and "avail s n F" and "unat virt + (i + n) * 4096 \<le> 4294967296"
    and "\<And>j. i \<le> j \<Longrightarrow> j < i + n \<Longrightarrow> mappable s (page_at virt j) \<and> pe_flags (entry s (page_at virt j)) AND 1 = 0"
  shows "\<exists>s' as F'. map_each falloc fd virt i n s = Some (True, s') \<and> page_lock s' = 0 \<and> tables_ok s'
    \<and> length as = n \<and> F = F' + mset as
    \<and> (\<forall>j < n. \<forall>w. same_page (page_at virt (i + j)) w \<longrightarrow> mmu s' w = Some (frame_of (as ! j) + (w AND 0xFFF)))
    \<and> (\<forall>w. (\<forall>j < n. \<not> same_page (page_at virt (i + j)) w) \<longrightarrow> mmu s' w = mmu s w)"
  using assms
proof (induction n arbitrary: i s F)
  case 0
  then show ?case by (intro exI[of _ s] exI[of _ "[]"] exI[of _ F]) simp
next
  case (Suc n)
  let ?v = "page_at virt i"
  obtain a s1 F1 where a: "falloc 1 s = Some (a, s1)" "a \<noteq> NULL" "F = add_mset a F1" "avail s1 n F1"
      "pmem s1 = pmem s" "cr3 s1 = cr3 s" "page_lock s1 = page_lock s" using take_page[OF Suc.prems(3)] by blast
  note same = tables_same[OF a(5,6)]
  have l1: "page_lock s1 = 0" using a(7) Suc.prems(1) by simp
  have v1: "mappable s1 ?v" "pe_flags (entry s1 ?v) AND 1 = 0" using Suc.prems(5)[of i] by (simp_all add: same)
  note mp = paging_map_page[OF l1 v1]
  let ?s2 = "map_page a ?v s1"
  have st: "map_each falloc fd virt i (Suc n) s = map_each falloc fd virt (Suc i) n ?s2"
    using a(1,2) mp(1)[of falloc a] by (simp add: page_at_def)
  have nd: "\<not> same_page ?v (page_at virt j)" if "Suc i \<le> j" "j < Suc i + n" for j
    using pages_differ[of virt "i + Suc n" i j] Suc.prems(4) that by simp
  have av: "avail ?s2 n F1" by (rule avail_mapped_page[OF l1 v1 a(4)])
  have pages: "mappable ?s2 (page_at virt j) \<and> pe_flags (entry ?s2 (page_at virt j)) AND 1 = 0"
    if "Suc i \<le> j" "j < Suc i + n" for j
    using Suc.prems(5)[of j] that nd[OF that] mp(4)[of a "page_at virt j"] mp(7)[where phys = a and w = "page_at virt j"] by (simp add: same)
  have le: "unat virt + (Suc i + n) * 4096 \<le> 4294967296" using Suc.prems(4) by simp
  obtain s' as F' where r: "map_each falloc fd virt (Suc i) n ?s2 = Some (True, s')" "page_lock s' = 0" "tables_ok s'"
      "length as = n" "F1 = F' + mset as"
      "\<forall>j < n. \<forall>w. same_page (page_at virt (Suc i + j)) w \<longrightarrow> mmu s' w = Some (frame_of (as ! j) + (w AND 0xFFF))"
      "\<forall>w. (\<forall>j < n. \<not> same_page (page_at virt (Suc i + j)) w) \<longrightarrow> mmu s' w = mmu ?s2 w"
    using Suc.IH[OF mp(2,5) av le pages] by blast
  have new: "mmu s' w = Some (frame_of ((a # as) ! j) + (w AND 0xFFF))"
    if j: "j < Suc n" and w: "same_page (page_at virt (i + j)) w" for j w
  proof (cases j)
    case 0
    have "\<not> same_page (page_at virt (Suc i + k)) w" if "k < n" for k
      using nd[of "Suc i + k"] that w 0 by (auto simp: same_page_def)
    then have "mmu s' w = mmu ?s2 w" using r(7) by blast
    then show ?thesis using mp(6)[of a w] w 0 by simp
  next
    case (Suc k)
    then show ?thesis using r(6) j w by simp
  qed
  have old: "mmu s' w = mmu s w" if "\<forall>j < Suc n. \<not> same_page (page_at virt (i + j)) w" for w
  proof -
    have "\<not> same_page (page_at virt (Suc i + k)) w" if "k < n" for k
      using \<open>\<forall>j < Suc n. \<not> same_page (page_at virt (i + j)) w\<close>[rule_format, of "Suc k"] that by simp
    then have "mmu s' w = mmu ?s2 w" using r(7) by blast
    then show ?thesis using mp(6)[of a w] that[rule_format, of 0] by (simp add: same)
  qed
  show ?case using st r(1-5) new old a(3)
    by (intro exI[of _ s'] exI[of _ "a # as"] exI[of _ F']) simp
qed

end

subsection \<open>The frame allocator as a source of frames\<close>

text \<open>The free pages are \<open>F\<close>, at least \<open>n\<close> and page 0 not among them, and the slab of the node cache has more
  than \<open>n\<close> free nodes. How the free pages lie in chunks does not matter: a single page never merges chunks.\<close>
definition mm_avail :: "nat \<Rightarrow> mm \<Rightarrow> nat \<Rightarrow> u32 multiset \<Rightarrow> bool" where
  "mm_avail cpu s n F \<longleftrightarrow> (\<exists>R xs Ls. frame_ok (slub_nodes cpu ''cache_pfa_node'' 2) ((mm_frame s)\<lparr>fa_heap := mm_heap s\<rparr>) R xs Ls
     \<and> fa_lock (mm_frame s) = 0 \<and> free_pages Ls = F \<and> NULL \<notin># F \<and> n \<le> size F \<and> n < length xs)"

lemma frame_ok_env: "frame_holds (s\<lparr>fa_lock := l\<rparr>) Ls = frame_holds s Ls"
  by (simp add: frame_holds_def)

lemma pages_from_nonempty: "pages_from c Ls \<noteq> {#} \<Longrightarrow> \<exists>i < length Ls. Ls ! i \<noteq> []"
proof (induction Ls arbitrary: c)
  case (Cons xs Ls)
  then show ?case
  proof (cases "xs = []")
    case True
    with Cons.prems have "pages_from (Suc c) Ls \<noteq> {#}" by (simp add: list_pages_def)
    with Cons.IH show ?thesis by (metis Suc_less_eq length_Cons nth_Cons_Suc)
  qed auto
qed simp

lemma mm_take_page:
  assumes "fnode_get E = frame_node_alloc mmp cpu large True" and "mm_avail cpu s (Suc n) F"
  shows "\<exists>a s' F'. mm_frame_alloc E 1 s = Some (a, s') \<and> a \<noteq> NULL \<and> F = add_mset a F'
      \<and> mm_avail cpu s' n F' \<and> pmem s' = pmem s \<and> cr3 s' = cr3 s \<and> page_lock s' = page_lock s"
proof -
  let ?f = "(mm_frame s)\<lparr>fa_heap := mm_heap s\<rparr>"
  obtain R xs0 Ls where ok0: "frame_ok (slub_nodes cpu ''cache_pfa_node'' 2) ?f R xs0 Ls" and l: "fa_lock (mm_frame s) = 0"
    and F: "free_pages Ls = F" "NULL \<notin># F" "Suc n \<le> size F" "Suc n < length xs0"
    using assms(2) unfolding mm_avail_def by blast
  obtain x y xs where xs: "xs0 = x # y # xs" using F(4) by (cases xs0; cases "tl xs0") auto
  have ok: "frame_ok (slub_nodes cpu ''cache_pfa_node'' 2) ?f R (x # y # xs) Ls" using ok0 xs by simp
  have len: "length Ls = 20" using ok by (simp add: frame_ok_def frame_holds_def)
  have "free_pages Ls \<noteq> {#}" using F by auto
  then have ne: "\<not> (\<forall>i < 20. 1 \<le> Suc i \<longrightarrow> Ls ! i = [])"
    using pages_from_nonempty[of 1 Ls] len by (auto simp: free_pages_def)
  have "\<exists>a f'. frame_alloc (fnode_get E) (fnode_put E) (of_nat 1) ?f = Some (a, f') \<and> fa_lock f' = 0
    \<and> (if \<forall>i < 20. 1 \<le> Suc i \<longrightarrow> Ls ! i = [] then a = NULL
       else \<exists>xs' Ls'. frame_ok (slub_nodes cpu ''cache_pfa_node'' 2) f' R xs' Ls'
         \<and> frame_took a 1 Ls Ls' \<and> Suc (length xs) \<le> length xs')"
    unfolding assms(1) by (rule frame_alloc_took[OF ok _ _ _ no_merge_1]) (simp_all add: l)
  then obtain a f' xs' Ls' where r: "frame_alloc (fnode_get E) (fnode_put E) 1 ?f = Some (a, f')" "fa_lock f' = 0"
      "frame_ok (slub_nodes cpu ''cache_pfa_node'' 2) f' R xs' Ls'" "frame_took a 1 Ls Ls'" "Suc (length xs) \<le> length xs'"
    unfolding if_not_P[OF ne] of_nat_1 by blast
  have F': "F = add_mset a (free_pages Ls')"
    using frame_took_pages[OF r(4) len] F(1) by (simp add: chunk_pages_def)
  have "mm_avail cpu (s\<lparr>mm_frame := f', mm_heap := fa_heap f'\<rparr>) n (free_pages Ls')"
    unfolding mm_avail_def
  proof (intro exI conjI)
    show "frame_ok (slub_nodes cpu ''cache_pfa_node'' 2) (mm_frame (s\<lparr>mm_frame := f', mm_heap := fa_heap f'\<rparr>)
        \<lparr>fa_heap := mm_heap (s\<lparr>mm_frame := f', mm_heap := fa_heap f'\<rparr>)\<rparr>) R xs' Ls'" using r(3) by simp
  qed (use F F' r(2,5) xs in auto)
  moreover have "a \<noteq> NULL" using F(2) F' by auto
  ultimately show ?thesis using r(1) F'
    by (intro exI[of _ a] exI[of _ "s\<lparr>mm_frame := f', mm_heap := fa_heap f'\<rparr>"] exI[of _ "free_pages Ls'"])
      (simp add: mm_frame_alloc_def in_frame_def)
qed

definition cache_env :: "(u32 \<Rightarrow> slub \<Rightarrow> (u32 \<times> slub) option) \<Rightarrow> nat \<Rightarrow> (u32 \<Rightarrow> kheap \<Rightarrow> (u32 \<times> kheap) option) \<Rightarrow>
    (u32 \<Rightarrow> kheap \<Rightarrow> (bool \<times> kheap) option) \<Rightarrow> (u32 \<Rightarrow> kheap \<Rightarrow> kheap option) \<Rightarrow> mm_env" where
  "cache_env mmp cpu large lfree kf = \<lparr>vasa_get = vasa_node_alloc mmp cpu large, vasa_put = kf,
     fnode_get = frame_node_alloc mmp cpu large True, fnode_put = frame_node_free lfree True\<rparr>"

interpretation mm_frames: frame_source "mm_frame_alloc (cache_env mmp cpu large lfree kf)" "mm_avail cpu" for mmp cpu large lfree kf
proof
  show "\<exists>a s' F'. mm_frame_alloc (cache_env mmp cpu large lfree kf) 1 s = Some (a, s') \<and> a \<noteq> NULL \<and> F = add_mset a F'
      \<and> mm_avail cpu s' n F' \<and> pmem s' = pmem s \<and> cr3 s' = cr3 s \<and> page_lock s' = page_lock s"
    if "mm_avail cpu s (Suc n) F" for s n F
    by (rule mm_take_page[OF _ that]) (simp add: cache_env_def)
qed (simp_all add: mm_avail_def)

subsection \<open>The property\<close>

text \<open>C1: \<open>memmap\<close> of any whole number of pages, at an address it chooses itself, with \<open>MMAP_URGENT\<close> and without
  \<open>MMAP_CONTINUOUS\<close>, backs every page of the region the address space allocator returns with a frame of its own,
  taken from the free frames, and changes no other translation. It holds where the page tables of the region
  exist and have no entry for its pages (\<open>paging_map\<close> does not clear a table it allocates), where enough frames
  are free, whichever way they lie in chunks, but not page 0, which \<open>memmap\<close> would take for none, and where the node cache has a free node for each.\<close>
theorem memmap_urgent:
  assumes "in_vasa (vasa_alloc (vasa_get E) (vasa_put E) 0 (of_nat n * PAGE_SIZE) (flags OR MMAP_ALLOCATED)) s = Some (p, s1)"
    and "E = cache_env mmp cpu large lfree kf" and "p \<noteq> NULL"
    and "flags AND MMAP_URGENT \<noteq> 0" and "flags AND MMAP_CONTINUOUS = 0"
    and "1 \<le> n" and "unat p + n * 4096 \<le> 4294967296"
    and "page_lock s1 = 0" and "tables_ok s1" and "mm_avail cpu s1 n F"
    and "\<forall>j < n. mappable s1 (page_at p j) \<and> pe_flags (entry s1 (page_at p j)) AND 1 = 0"
  shows "\<exists>s' frames F'. memmap E NULL (of_nat n * PAGE_SIZE) flags s = Some (p, s')
    \<and> length frames = n \<and> F = F' + mset frames
    \<and> (\<forall>j < n. \<forall>w. same_page (page_at p j) w \<longrightarrow> mmu s' w = Some (frame_of (frames ! j) + (w AND 0xFFF)))
    \<and> (\<forall>w. (\<forall>j < n. \<not> same_page (page_at p j) w) \<longrightarrow> mmu s' w = mmu s1 w)"
proof -
  have "n < 1048577" using assms(7) by linarith
  moreover have "n \<noteq> 1048576"
  proof
    assume "n = 1048576"
    with assms(7) have "unat p = 0" by simp
    with assms(3) show False by (simp add: unat_eq_zero)
  qed
  ultimately have n: "n < 1048576" by linarith
  then have un: "unat (of_nat n :: u32) = n" by (intro unat_of_nat32) simp
  then have ul: "unat (of_nat n * PAGE_SIZE) = n * 4096"
    using unat_times_nowrap[of "of_nat n" PAGE_SIZE] n by (simp add: PAGE_SIZE_def)
  then have al: "(of_nat n * PAGE_SIZE) AND - 4096 = of_nat n * PAGE_SIZE"
    by (intro page_and_not) (simp add: word_unat_eq_iff unat_and_4095)
  have "unat ((of_nat n * PAGE_SIZE) div PAGE_SIZE) = n" using ul by (simp add: unat_div PAGE_SIZE_def)
  then have dv: "(of_nat n * PAGE_SIZE) div PAGE_SIZE = of_nat n" using un by (simp only: word_unat_eq_iff)
  have "\<not> (1 :: u32) > of_nat n" using un assms(6) by (simp add: word_less_nat_alt)
  then have cnt: "unat (cmax 1 ((of_nat n * PAGE_SIZE) div PAGE_SIZE)) = n"
    using un unfolding dv by (simp add: cmax_def word_less_nat_alt)
  have "MMAP_ALLOCATED AND MMAP_URGENT = 0" "MMAP_ALLOCATED AND MMAP_CONTINUOUS = 0"
    by (simp_all add: MMAP_URGENT_def MMAP_ALLOCATED_def MMAP_CONTINUOUS_def push_bit_eq_mult)
  then have fl: "(flags OR MMAP_ALLOCATED) AND MMAP_URGENT \<noteq> 0" "(flags OR MMAP_ALLOCATED) AND MMAP_CONTINUOUS = 0"
    using assms(4,5) by (simp_all add: bit.conj_disj_distrib2)
  have le: "unat p + (0 + n) * 4096 \<le> 4294967296" using assms(7) by simp
  have pg: "mappable s1 (page_at p j) \<and> pe_flags (entry s1 (page_at p j)) AND 1 = 0" if "0 \<le> j" "j < 0 + n" for j
    using assms(11) that by simp
  obtain s' as F' where r: "map_each (mm_frame_alloc E) (mm_frame_dealloc E) p 0 n s1 = Some (True, s')"
      "length as = n" "F = F' + mset as"
      "\<forall>j < n. \<forall>w. same_page (page_at p (0 + j)) w \<longrightarrow> mmu s' w = Some (frame_of (as ! j) + (w AND 0xFFF))"
      "\<forall>w. (\<forall>j < n. \<not> same_page (page_at p (0 + j)) w) \<longrightarrow> mmu s' w = mmu s1 w"
    using mm_frames.map_each_maps[OF assms(8,9,10) le pg, of mmp large lfree kf "mm_frame_dealloc E"]
    unfolding assms(2) by blast
  have "memmap E NULL (of_nat n * PAGE_SIZE) flags s = memmap_back E p (p + of_nat n * PAGE_SIZE) (flags OR MMAP_ALLOCATED) s1"
    using assms(1,3,4) al by (simp add: memmap_def)
  also have "\<dots> = Some (p, s')"
    using fl r(1) cnt by (simp add: memmap_back_def)
  finally show ?thesis using r(2-) by auto
qed

text \<open>One page of address space at 0x5000, whose node is at 0x9000, and the frames and the slab of
  \<open>cache_frame\<close>.\<close>
definition sample_cells :: cells where
  "sample_cells = (smem (slub (fa_heap cache_frame)))(0x9000 \<mapsto> 0, 0x9004 \<mapsto> 0, 0x9008 \<mapsto> 0x5000, 0x900C \<mapsto> 0x1000, 0x9010 \<mapsto> 0)"

definition sample_mm :: mm where
  "sample_mm = \<lparr>page_lock = 0, cr3 = cr3 (small_paging (\<lambda>_. 0)), pmem = pmem (small_paging (\<lambda>_. 0)),
     mm_vasa = \<lparr>free_head = 0x9000, used_head = NULL, v_lock = 0, v_heap = fa_heap cache_frame\<rparr>,
     mm_frame = cache_frame, mm_heap = hset (fa_heap cache_frame) sample_cells\<rparr>"

definition taken_heap :: kheap where
  "taken_heap = hset (fa_heap cache_frame)
     (sample_cells(0x9000 \<mapsto> 0, 0x9004 \<mapsto> 0, 0x9008 \<mapsto> 0x5000, 0x900C \<mapsto> 0x1000, 0x9010 \<mapsto> MMAP_URGENT OR MMAP_ALLOCATED))"

definition taken_mm :: mm where
  "taken_mm = sample_mm\<lparr>mm_vasa := \<lparr>free_head = NULL, used_head = 0x9000, v_lock = 0, v_heap = taken_heap\<rparr>,
     mm_heap := taken_heap\<rparr>"

lemma vset_some: "vmem s p \<noteq> None \<Longrightarrow> vset p v s = Some (vs_upd p v s)"
  by (rule vset_eq)

lemma hset_hset [simp]: "hset (hset h m) m' = hset h m'"
  by (simp add: hset_def)

lemma sample_vasa_taken:
  "in_vasa (vasa_alloc (vasa_get E) (vasa_put E) 0 (of_nat 1 * PAGE_SIZE) (MMAP_URGENT OR MMAP_ALLOCATED)) sample_mm
    = Some (0x5000, taken_mm)"
proof -
  let ?fl = "MMAP_URGENT OR MMAP_ALLOCATED"
  define v where "v = \<lparr>free_head = 0x9000, used_head = NULL, v_lock = 0, v_heap = hset (fa_heap cache_frame) sample_cells\<rparr>"
  have pad: "pad_of ?fl = 0" by (simp add: pad_of_def has_flag_def MMAP_URGENT_def MMAP_ALLOCATED_def push_bit_eq_mult)
  have c: "vmem v 0x9000 = Some 0" "vmem v 0x9004 = Some 0" "vmem v 0x9008 = Some 0x5000" "vmem v 0x900C = Some 0x1000"
    "vmem v 0x9010 = Some 0" by (simp_all add: v_def sample_cells_def)
  have "vasa_alloc (vasa_get E) (vasa_put E) 0 0x1000 ?fl v =
     Some (0x5000, \<lparr>free_head = NULL, used_head = 0x9000, v_lock = 0, v_heap = taken_heap\<rparr>)"
    unfolding vasa_alloc_def
    using c pad
    by (simp add: spin_lock_def v_def, subst alloc_find.simps)
      (simp add: vn_length_def hget_def alloc_pad_def alloc_cut_def vn_next_def vn_base_def vset_chunk_def vset_some
        vasa_add_node_def add_node_loop.simps[of _ _ True NULL NULL] vs_upd_def set_head_def taken_heap_def spin_unlock_def)
  then show ?thesis
    by (simp add: in_vasa_def v_def sample_mm_def taken_mm_def PAGE_SIZE_def)
qed

lemma sample_avail: "mm_avail 0 taken_mm 1 (free_pages cache_chunks)"
proof -
  have "slab_ready 0 ''cache_pfa_node'' taken_heap [0x2008, 0x2010] 0 \<lparr>full = NULL, semi = 0x2000, empty = NULL\<rparr> [0x2018] 1022"
    by (simp add: slab_ready_def taken_heap_def hset_def sample_cells_def cache_frame_def get_cpu_def aget_def SLAB_NEXT_def slab_free_def nxt_of_def)
  then have "slub_nodes 0 ''cache_pfa_node'' 2 taken_heap {0x2000, 0x2004, 0x2018} [0x2008, 0x2010]"
    unfolding slub_nodes_def
    by (intro conjI exI[of _ "0 :: nat"] exI[of _ "\<lparr>full = NULL, semi = 0x2000, empty = NULL\<rparr>"] exI[of _ "[0x2018]"]
        exI[of _ 1022]) (auto simp: node_cells_2 taken_heap_def sample_cells_def cache_frame_def)
  moreover have "frame_holds (cache_frame\<lparr>fa_heap := taken_heap\<rparr>) cache_chunks"
    by (auto simp: frame_holds_def taken_heap_def sample_cells_def cache_frame_def cache_chunks_def nth_list_update)
  ultimately have "frame_ok (slub_nodes 0 ''cache_pfa_node'' 2) (cache_frame\<lparr>fa_heap := taken_heap\<rparr>) {0x2000, 0x2004, 0x2018} [0x2008, 0x2010] cache_chunks"
    by (simp add: frame_ok_def nodes_apart_def node_cells_2 cache_chunks_nodes)
  moreover have "NULL \<notin># free_pages cache_chunks" "1 \<le> size (free_pages cache_chunks)"
    unfolding cache_chunks_pages by (simp_all add: chunk_pages_not_null)
  ultimately show ?thesis
    unfolding mm_avail_def
    by (intro exI[of _ "{0x2000, 0x2004, 0x2018}"] exI[of _ "[0x2008, 0x2010]"] exI[of _ cache_chunks])
      (simp add: taken_mm_def sample_mm_def, simp add: cache_frame_def)
qed

theorem memmap_urgent_witness:
  "\<exists>s' frames F'. memmap (cache_env (\<lambda>fl s. None) 0 (\<lambda>n k. None) (\<lambda>p k. None) (\<lambda>p k. None)) NULL (of_nat 1 * PAGE_SIZE) MMAP_URGENT sample_mm
      = Some (0x5000, s')
    \<and> length frames = 1 \<and> free_pages cache_chunks = F' + mset frames
    \<and> (\<forall>j < 1. \<forall>w. same_page (page_at 0x5000 j) w \<longrightarrow> mmu s' w = Some (frame_of (frames ! j) + (w AND 0xFFF)))
    \<and> (\<forall>w. (\<forall>j < 1. \<not> same_page (page_at 0x5000 j) w) \<longrightarrow> mmu s' w = mmu taken_mm w)"
proof (rule memmap_urgent[OF sample_vasa_taken refl _ _ _ _ _ _ _ sample_avail])
  have same: "pmem taken_mm = pmem (small_paging (\<lambda>_. 0))" "cr3 taken_mm = cr3 (small_paging (\<lambda>_. 0))"
    by (simp_all add: taken_mm_def sample_mm_def)
  have sm: "mappable (small_paging (\<lambda>_. 0)) 0x5000" by (rule small_mappable) simp
  then have m: "mappable taken_mm 0x5000" unfolding tables_same(3)[OF same] .
  then show "tables_ok taken_mm" by (simp add: mappable_def)
  have "entry taken_mm 0x5000 = 0" unfolding tables_same(2)[OF same]
    by (subst small_entry) (simp_all add: va_dir_def)
  then show "\<forall>j < 1. mappable taken_mm (page_at 0x5000 j) \<and> pe_flags (entry taken_mm (page_at 0x5000 j)) AND 1 = 0"
    using m by (simp add: page_at_def pe_flags_def)
qed (simp_all add: taken_mm_def sample_mm_def MMAP_URGENT_def MMAP_CONTINUOUS_def push_bit_eq_mult)

text \<open>Less than a page is no page: the address space allocator is asked for nothing and gives NULL.\<close>
lemma memmap_less_than_page: "len < 4096 \<Longrightarrow> \<exists>s'. memmap E NULL len flags s = Some (NULL, s')"
  by (simp add: memmap_def and_not_4095_small vasa_alloc_def in_vasa_def)

end
