(* ===== verification/Console.thy ===== *)
theory Console
  imports CString Spinlock Ports
begin

text \<open>
  The two places the kernel's messages go: the text screen (\<open>src/src/drivers/vga.c\<close>), whose cells are
  two bytes each in memory, and the serial port (\<open>src/src/drivers/rs232.c\<close>). \<open>terminal_row\<close> and
  \<open>terminal_column\<close> are \<open>int\<close>s; loops that wait for the port may not end.
\<close>

record console = io +
  cmem :: mem
  terminal_row :: u32
  terminal_column :: u32
  terminal_color :: u8
  terminal_buffer :: u32
  line_lock :: u32
  print_lock :: u32

subsection \<open>vga.c\<close>

definition VGA_WIDTH :: u32 where "VGA_WIDTH = 80"
definition VGA_HEIGHT :: u32 where "VGA_HEIGHT = 25"

definition vga_entry_color :: "u8 \<Rightarrow> u8 \<Rightarrow> u8" where
  "vga_entry_color fg bg = fg OR push_bit 4 bg"

definition vga_entry :: "u8 \<Rightarrow> u8 \<Rightarrow> u16" where
  "vga_entry uc color = ucast uc OR push_bit 8 (ucast color)"

text \<open>\<open>terminal_buffer[index] = w\<close>.\<close>
definition put_cell :: "u32 \<Rightarrow> u16 \<Rightarrow> 'a console_scheme \<Rightarrow> 'a console_scheme option" where
  "put_cell index w s = do {
     m1 \<leftarrow> mset (cmem s) (terminal_buffer s + 2 * index) (ucast w);
     m2 \<leftarrow> mset m1 (terminal_buffer s + 2 * index + 1) (ucast (drop_bit 8 w));
     Some (s\<lparr>cmem := m2\<rparr>) }"

fun clear_cells :: "nat \<Rightarrow> nat \<Rightarrow> 'a console_scheme \<Rightarrow> 'a console_scheme option" where
  "clear_cells index 0 s = Some s"
| "clear_cells index (Suc n) s = do { s1 \<leftarrow> put_cell (of_nat index) (vga_entry 32 (terminal_color s)) s; clear_cells (Suc index) n s1 }"

text \<open>The two loops visit the cells in order.\<close>
definition vga_init :: "'a console_scheme \<Rightarrow> 'a console_scheme option" where
  "vga_init s = clear_cells 0 (unat (VGA_HEIGHT * VGA_WIDTH))
     (s\<lparr>terminal_row := 0, terminal_column := 0, terminal_color := vga_entry_color 7 0, terminal_buffer := 0xC00B8000\<rparr>)"

definition vga_setcolor :: "u8 \<Rightarrow> 'a console_scheme \<Rightarrow> 'a console_scheme" where
  "vga_setcolor color s = s\<lparr>terminal_color := color\<rparr>"

definition vga_setchar :: "u8 \<Rightarrow> u8 \<Rightarrow> u32 \<Rightarrow> u32 \<Rightarrow> 'a console_scheme \<Rightarrow> 'a console_scheme option" where
  "vga_setchar c color x y = put_cell (y * VGA_WIDTH + x) (vga_entry c color)"

definition vga_scroll :: "'a console_scheme \<Rightarrow> 'a console_scheme option" where
  "vga_scroll s =
     (if VGA_HEIGHT \<le>s terminal_row s then do {
        let temp = terminal_row s - VGA_HEIGHT + 1;
        (m1, _) \<leftarrow> memcpy (cmem s) (terminal_buffer s) (terminal_buffer s + 2 * (temp * VGA_WIDTH)) ((VGA_HEIGHT - temp) * VGA_WIDTH * 2);
        (m2, _) \<leftarrow> memsetw m1 (terminal_buffer s + 2 * ((VGA_HEIGHT - temp) * VGA_WIDTH)) (vga_entry 32 (terminal_color s)) VGA_WIDTH;
        Some (s\<lparr>cmem := m2, terminal_row := VGA_HEIGHT - 1\<rparr>) }
      else Some s)"

definition vga_putchar :: "u8 \<Rightarrow> 'a console_scheme \<Rightarrow> 'a console_scheme option" where
  "vga_putchar c s = do {
     s1 \<leftarrow> (if c \<noteq> 10 then vga_setchar c (terminal_color s) (terminal_column s) (terminal_row s) s else Some s);
     let col = terminal_column s1 + 1;
     let s2 = (if col = VGA_WIDTH \<or> c = 10 then s1\<lparr>terminal_row := terminal_row s1 + 1, terminal_column := 0\<rparr>
               else s1\<lparr>terminal_column := col\<rparr>);
     vga_scroll s2 }"

fun vga_write_loop :: "u8 list \<Rightarrow> nat \<Rightarrow> nat \<Rightarrow> 'a console_scheme \<Rightarrow> 'a console_scheme option" where
  "vga_write_loop data i 0 s = Some s"
| "vga_write_loop data i (Suc n) s = do { c \<leftarrow> aget data i; s1 \<leftarrow> vga_putchar c s; vga_write_loop data (Suc i) n s1 }"

text \<open>\<open>data\<close> is the array of characters; a negative \<open>size\<close> writes nothing.\<close>
definition vga_write :: "u8 list \<Rightarrow> u32 \<Rightarrow> 'a console_scheme \<Rightarrow> 'a console_scheme option" where
  "vga_write data size0 s = do {
     l \<leftarrow> spin_lock (line_lock s);
     s1 \<leftarrow> vga_write_loop data 0 (nat (sint size0)) (s\<lparr>line_lock := l\<rparr>);
     Some (s1\<lparr>line_lock := spin_unlock (line_lock s1)\<rparr>) }"

text \<open>The length of the string is that of the characters before the NUL.\<close>
definition vga_writestring :: "u8 list \<Rightarrow> 'a console_scheme \<Rightarrow> 'a console_scheme option" where
  "vga_writestring data s = do {
     l \<leftarrow> spin_lock (line_lock s);
     s1 \<leftarrow> vga_write data (of_nat (length (takeWhile (\<lambda>c. c \<noteq> 0) data))) (s\<lparr>line_lock := l\<rparr>);
     Some (s1\<lparr>line_lock := spin_unlock (line_lock s1)\<rparr>) }"

subsection \<open>rs232.c\<close>

definition RS232_PORT_COM1 :: u16 where "RS232_PORT_COM1 = 0x3F8"
definition RS232_IO_INTR :: u16 where [simp]: "RS232_IO_INTR = 1"
definition RS232_IO_INT_IDENT :: u16 where [simp]: "RS232_IO_INT_IDENT = 2"
definition RS232_IO_LCR :: u16 where [simp]: "RS232_IO_LCR = 3"
definition RS232_IO_MCR :: u16 where [simp]: "RS232_IO_MCR = 4"
definition RS232_IO_LSR :: u16 where [simp]: "RS232_IO_LSR = 5"
definition RS232_IO_BAUD_LO :: u16 where [simp]: "RS232_IO_BAUD_LO = 0"
definition RS232_IO_BAUD_HI :: u16 where [simp]: "RS232_IO_BAUD_HI = 1"
definition RS232_DEFAULT_BAUD :: u32 where [simp]: "RS232_DEFAULT_BAUD = 115200"
definition RS232_LSR_DR :: u8 where [simp]: "RS232_LSR_DR = 1"
definition RS232_LSR_TEMT :: u8 where [simp]: "RS232_LSR_TEMT = 0x40"

text \<open>\<open>RS232_DEFAULT_BAUD / baud\<close> is an \<open>int\<close> division, cut to 16 bits.\<close>
definition rs232_port_set_baud :: "device \<Rightarrow> u16 \<Rightarrow> u16 \<Rightarrow> 'a io_scheme \<Rightarrow> 'a io_scheme option" where
  "rs232_port_set_baud dev port baud s =
     (if baud = 0 then None
      else let
        divisor = ucast (RS232_DEFAULT_BAUD div ucast baud) :: u16;
        (lcr, s1) = inportb dev (port + RS232_IO_LCR) s;
        s2 = outportb (port + RS232_IO_LCR) 0x80 s1;
        s3 = outportb (port + RS232_IO_BAUD_LO) (ucast (divisor AND 0xFF)) s2;
        s4 = outportb (port + RS232_IO_BAUD_HI) (ucast (drop_bit 8 divisor AND 0xFF)) s3
      in Some (outportb (port + RS232_IO_LCR) lcr s4))"

definition rs232_data_received :: "device \<Rightarrow> u16 \<Rightarrow> 'a io_scheme \<Rightarrow> bool \<times> 'a io_scheme" where
  "rs232_data_received dev port s = (let (v, s1) = inportb dev (port + RS232_IO_LSR) s in (v AND RS232_LSR_DR = 0, s1))"

definition rs232_transmit_ready :: "device \<Rightarrow> u16 \<Rightarrow> 'a io_scheme \<Rightarrow> bool \<times> 'a io_scheme" where
  "rs232_transmit_ready dev port s = (let (v, s1) = inportb dev (port + RS232_IO_LSR) s in (v AND RS232_LSR_TEMT \<noteq> 0, s1))"

partial_function (option) rs232_write_single :: "device \<Rightarrow> u16 \<Rightarrow> u8 \<Rightarrow> 'a io_scheme \<Rightarrow> 'a io_scheme option" where
  "rs232_write_single dev port data s =
     (let (ready, s1) = rs232_transmit_ready dev port s in
      if \<not> ready then rs232_write_single dev port data (io_wait s1) else Some (outportb port data s1))"

partial_function (option) rs232_read_single :: "device \<Rightarrow> u16 \<Rightarrow> 'a io_scheme \<Rightarrow> (u8 \<times> 'a io_scheme) option" where
  "rs232_read_single dev port s =
     (let (received, s1) = rs232_data_received dev port s in
      if \<not> received then rs232_read_single dev port (io_wait s1) else Some (inportb dev port s1))"

definition rs232_port_init :: "device \<Rightarrow> u16 \<Rightarrow> 'a io_scheme \<Rightarrow> 'a io_scheme option" where
  "rs232_port_init dev port s = do {
     s1 \<leftarrow> rs232_port_set_baud dev port 38400 (outportb (port + RS232_IO_INTR) 0 s);
     Some (outportb (port + RS232_IO_MCR) 0x0B (outportb (port + RS232_IO_INT_IDENT) 0xC7 s1)) }"

definition rs232_init :: "device \<Rightarrow> 'a io_scheme \<Rightarrow> 'a io_scheme option" where
  "rs232_init dev s = rs232_port_init dev RS232_PORT_COM1 s"

subsection \<open>Cells in memory\<close>

definition le16 :: "u16 \<Rightarrow> u8 list" where
  "le16 w = [ucast w, ucast (drop_bit 8 w)]"

abbreviation cell_bytes :: "u16 list \<Rightarrow> u8 list" where
  "cell_bytes ws \<equiv> concat (map le16 ws)"

definition cells_at :: "mem \<Rightarrow> u32 \<Rightarrow> u16 list \<Rightarrow> bool" where
  "cells_at m p ws \<longleftrightarrow> bytes_at m p (cell_bytes ws)"

lemma length_cell_bytes [simp]: "length (cell_bytes ws) = 2 * length ws"
  by (induction ws) (simp_all add: le16_def)

lemma cells_at_append: "cells_at m p (us @ vs) \<longleftrightarrow> cells_at m p us \<and> cells_at m (p + 2 * of_nat (length us)) vs"
  by (simp add: cells_at_def bytes_at_append)

lemma cells_at_Cons: "cells_at m p (w # ws) \<longleftrightarrow> m p = Some (ucast w) \<and> m (p + 1) = Some (ucast (drop_bit 8 w)) \<and> cells_at m (p + 2) ws"
  by (simp add: cells_at_def le16_def add.assoc)

lemma cells_at_keep:
  assumes "cells_at m p ws" and "\<forall>q\<in>span p (2 * length ws). m' q = m q"
  shows "cells_at m' p ws"
  using assms bytes_at_cong[of m p "cell_bytes ws" m'] by (simp add: cells_at_def)

lemma in_span_iff:
  assumes "unat p + n \<le> 4294967296"
  shows "q \<in> span p n \<longleftrightarrow> unat p \<le> unat q \<and> unat q < unat p + n"
proof
  assume "q \<in> span p n"
  then obtain i where i: "i < n" "q = p + of_nat i" by (auto simp: span_def)
  have "unat (of_nat i :: u32) = i" using i assms by (intro unat_of_nat32) simp
  then have "unat q = unat p + i" using i assms by (simp add: unat_plus_nowrap)
  then show "unat p \<le> unat q \<and> unat q < unat p + n" using i by simp
next
  assume a: "unat p \<le> unat q \<and> unat q < unat p + n"
  then have "q = p + of_nat (unat q - unat p)" by (simp add: word_unat_eq_iff)
  then show "q \<in> span p n" unfolding span_def using a by (intro image_eqI[of _ _ "unat q - unat p"]) auto
qed

lemma unat_plus_1: "unat (s :: u32) + 1 < 4294967296 \<Longrightarrow> unat (s + 1) = unat s + 1"
  using unat_plus_nowrap[of s 1] by simp

lemma unat_plus_2: "unat (s :: u32) + 2 < 4294967296 \<Longrightarrow> unat (s + 2) = unat s + 2"
  using unat_plus_nowrap[of s 2] by simp

lemma fwd_safe_below: "unat d < unat s \<Longrightarrow> unat s + n \<le> 4294967296 \<Longrightarrow> fwd_safe d s n"
proof (induction n arbitrary: d s)
  case (Suc n)
  have u: "unat (s + 1) = unat s + 1" if "n > 0" using Suc.prems that by (intro unat_plus_1) simp
  have v: "unat (d + 1) = unat d + 1" using Suc.prems by (intro unat_plus_1) simp
  show ?case
  proof (cases "n = 0")
    case False
    then have "d \<notin> span (s + 1) n" using Suc.prems u by (subst in_span_iff) auto
    moreover have "fwd_safe (d + 1) (s + 1) n" using Suc.prems u v False by (intro Suc.IH) auto
    ultimately show ?thesis by simp
  qed simp
qed simp

text \<open>Writing one cell of an array of cells.\<close>
lemma put_cell_at:
  assumes "cells_at (cmem s) (terminal_buffer s) (us @ v # vs)" and "length us + length vs < 1000000"
    and "unat (terminal_buffer s) + 2 * length (us @ v # vs) \<le> 4294967296"
  shows "\<exists>m. put_cell (of_nat (length us)) w s = Some (s\<lparr>cmem := m\<rparr>) \<and> cells_at m (terminal_buffer s) (us @ w # vs)"
proof -
  let ?p = "terminal_buffer s + 2 * of_nat (length us)"
  have "unat (2 * of_nat (length us) :: u32) = 2 * length us"
    using assms(2) unat_times_nowrap[of 2 "of_nat (length us)"] unat_of_nat32[of "length us"] by simp
  then have up: "unat ?p = unat (terminal_buffer s) + 2 * length us" using assms(3) by (simp add: unat_plus_nowrap)
  then have up1: "unat (?p + 1) = unat ?p + 1" using assms(3) by (intro unat_plus_1) simp
  have up2: "unat (?p + 2) = unat ?p + 2" if "vs \<noteq> []"
  proof -
    have "1 \<le> length vs" using that by (cases vs) auto
    then show ?thesis using up assms(3) by (intro unat_plus_2) (cases vs; simp)
  qed
  from assms(1) have c: "cells_at (cmem s) (terminal_buffer s) us" "cmem s ?p = Some (ucast v)"
      "cmem s (?p + 1) = Some (ucast (drop_bit 8 v))" "cells_at (cmem s) (?p + 2) vs"
    by (simp_all add: cells_at_append cells_at_Cons add.assoc)
  have ne: "?p \<noteq> ?p + 1" by simp
  let ?m = "(cmem s)(?p \<mapsto> ucast w, ?p + 1 \<mapsto> ucast (drop_bit 8 w))"
  have "put_cell (of_nat (length us)) w s = Some (s\<lparr>cmem := ?m\<rparr>)"
    using c(2,3) by (simp add: put_cell_def mset_def)
  moreover have "cells_at ?m (terminal_buffer s) us"
    by (rule cells_at_keep[OF c(1)]) (use up up1 assms(3) in \<open>auto simp: in_span_iff\<close>)
  moreover have "cells_at ?m (?p + 2) vs"
  proof (cases "vs = []")
    case False
    show ?thesis
      by (rule cells_at_keep[OF c(4)]) (use up up1 up2[OF False] assms(3) in \<open>auto simp: in_span_iff\<close>)
  qed (simp add: cells_at_def)
  ultimately show ?thesis by (auto simp: cells_at_append cells_at_Cons add.assoc)
qed

subsection \<open>A page of text\<close>

text \<open>The lines of a text: broken at newlines and at 80 characters; the last line is the one the text ends in.\<close>
fun wrap :: "u8 list list \<Rightarrow> u8 list \<Rightarrow> u8 list \<Rightarrow> u8 list list \<times> u8 list" where
  "wrap ls l [] = (ls, l)"
| "wrap ls l (c # cs) =
     (if c = 10 then wrap (ls @ [l]) [] cs
      else if length l + 1 = 80 then wrap (ls @ [l @ [c]]) [] cs
      else wrap ls (l @ [c]) cs)"

definition line_cells :: "u8 \<Rightarrow> u8 list \<Rightarrow> u16 list" where
  "line_cells color l = map (\<lambda>c. vga_entry c color) l @ replicate (80 - length l) (vga_entry 32 color)"

text \<open>The screen shows the last 25 lines, from the top.\<close>
definition shown :: "u8 list list \<Rightarrow> u8 list list" where
  "shown ls = drop (length ls - 25) ls"

definition page_cells :: "u8 \<Rightarrow> u8 list list \<Rightarrow> u16 list" where
  "page_cells color ls = concat (map (line_cells color) (shown ls))
     @ replicate (80 * (25 - length (shown ls))) (vga_entry 32 color)"

definition shows_page :: "u8 list list \<Rightarrow> u8 list \<Rightarrow> 'a console_scheme \<Rightarrow> bool" where
  "shows_page ls l s \<longleftrightarrow> terminal_buffer s = 0xC00B8000
     \<and> cells_at (cmem s) 0xC00B8000 (page_cells (terminal_color s) (ls @ [l]))
     \<and> (\<forall>x\<in>set ls. length x \<le> 80) \<and> length l < 80
     \<and> terminal_row s = of_nat (min (length ls) 24) \<and> terminal_column s = of_nat (length l)"

lemma length_line_cells: "length l \<le> 80 \<Longrightarrow> length (line_cells color l) = 80"
  by (simp add: line_cells_def)

lemma length_lines: "\<forall>x\<in>set ls. length x \<le> 80 \<Longrightarrow> length (concat (map (line_cells color) ls)) = 80 * length ls"
  by (induction ls) (simp_all add: length_line_cells)

lemma length_shown: "length (shown ls) = min (length ls) 25"
  by (simp add: shown_def)

lemma in_shown: "x \<in> set (shown ls) \<Longrightarrow> x \<in> set ls"
  unfolding shown_def by (rule in_set_dropD)

lemma shown_snoc: "shown (ls @ [l]) = drop (length ls - 24) ls @ [l]"
  by (simp add: shown_def)

text \<open>The cells before the current line, the line's, and the blank ones behind it.\<close>
lemma page_cells_snoc:
  "page_cells color (ls @ [l]) = concat (map (line_cells color) (drop (length ls - 24) ls)) @ line_cells color l
     @ replicate (80 * (24 - min (length ls) 24)) (vga_entry 32 color)"
proof -
  have "length (shown (ls @ [l])) = Suc (min (length ls) 24)" by (simp add: length_shown)
  then have "25 - length (shown (ls @ [l])) = 24 - min (length ls) 24" by simp
  then show ?thesis unfolding page_cells_def shown_snoc by simp
qed

lemma above_length: "\<forall>x\<in>set ls. length x \<le> 80 \<Longrightarrow> length (concat (map (line_cells color) (drop (length ls - 24) ls))) = 80 * min (length ls) 24"
  by (subst length_lines) (auto dest: in_set_dropD)

lemma putchar_cell:
  assumes "shows_page ls l s" and "length l < 80"
  shows "\<exists>m. vga_setchar c (terminal_color s) (terminal_column s) (terminal_row s) s = Some (s\<lparr>cmem := m\<rparr>)
    \<and> cells_at m 0xC00B8000 (page_cells (terminal_color s) (ls @ [l @ [c]]))"
proof -
  let ?A = "concat (map (line_cells (terminal_color s)) (drop (length ls - 24) ls))"
  let ?B = "replicate (80 * (24 - min (length ls) 24)) (vga_entry 32 (terminal_color s))"
  let ?us = "?A @ map (\<lambda>c. vga_entry c (terminal_color s)) l"
  let ?vs = "replicate (80 - length (l @ [c])) (vga_entry 32 (terminal_color s)) @ ?B"
  have p: "terminal_buffer s = 0xC00B8000" "cells_at (cmem s) 0xC00B8000 (page_cells (terminal_color s) (ls @ [l]))"
    and ls: "\<forall>x\<in>set ls. length x \<le> 80" and rc: "terminal_row s = of_nat (min (length ls) 24)" "terminal_column s = of_nat (length l)"
    using assms(1) unfolding shows_page_def by blast+
  have lu: "length ?us = 80 * min (length ls) 24 + length l" using above_length[OF ls] by simp
  have "80 - length l = Suc (80 - length (l @ [c]))" using assms(2) by simp
  then have old: "page_cells (terminal_color s) (ls @ [l]) = ?us @ vga_entry 32 (terminal_color s) # ?vs"
    unfolding page_cells_snoc line_cells_def by simp
  have new: "page_cells (terminal_color s) (ls @ [l @ [c]]) = ?us @ vga_entry c (terminal_color s) # ?vs"
    unfolding page_cells_snoc line_cells_def by simp
  have "length ?us \<le> 2000" using lu assms(2) by simp
  moreover have "length ?vs \<le> 2000" by simp
  ultimately have small: "length ?us + length ?vs < 1000000" "unat (terminal_buffer s) + 2 * length (?us @ vga_entry 32 (terminal_color s) # ?vs) \<le> 4294967296"
    unfolding p(1) by simp_all
  have ix: "terminal_row s * VGA_WIDTH + terminal_column s = of_nat (length ?us)"
    unfolding lu rc VGA_WIDTH_def by simp
  show ?thesis
    using put_cell_at[of s ?us "vga_entry 32 (terminal_color s)" ?vs "vga_entry c (terminal_color s)", OF _ small] p old
    unfolding vga_setchar_def ix new by simp
qed

lemma memsetw_loop_fills:
  assumes "mapped m (span p (2 * n))" and "unat p + 2 * n < 4294967296"
  shows "\<exists>m'. memsetw_loop m p w n = Some m' \<and> cells_at m' p (replicate n w) \<and> (\<forall>q. q \<notin> span p (2 * n) \<longrightarrow> m' q = m q)"
  using assms
proof (induction n arbitrary: m p)
  case 0
  then show ?case by (simp add: cells_at_def)
next
  case (Suc n)
  let ?m = "m(p \<mapsto> ucast w, p + 1 \<mapsto> ucast (drop_bit 8 w))"
  have u: "unat (p + 1) = unat p + 1" "unat (p + 2) = unat p + 2"
    using Suc.prems(2) by (auto intro: unat_plus_1 unat_plus_2)
  have sp: "span p (2 * Suc n) = insert p (insert (p + 1) (span (p + 2) (2 * n)))"
    by (simp add: span_Suc add.assoc)
  have pm: "m p \<noteq> None" "m (p + 1) \<noteq> None" "mapped ?m (span (p + 2) (2 * n))"
  proof -
    have "m q \<noteq> None" if "q = p \<or> q = p + 1 \<or> q \<in> span (p + 2) (2 * n)" for q
      using Suc.prems(1) that unfolding mapped_def sp by blast
    then show "m p \<noteq> None" "m (p + 1) \<noteq> None" "mapped ?m (span (p + 2) (2 * n))" by (auto simp: mapped_def)
  qed
  have le: "unat (p + 2) + 2 * n < 4294967296" using Suc.prems(2) u by simp
  obtain m' where m': "memsetw_loop ?m (p + 2) w n = Some m'" "cells_at m' (p + 2) (replicate n w)"
      "\<forall>q. q \<notin> span (p + 2) (2 * n) \<longrightarrow> m' q = ?m q"
    using Suc.IH[OF pm(3) le] by blast
  have "p \<notin> span (p + 2) (2 * n)" "p + 1 \<notin> span (p + 2) (2 * n)"
    using u Suc.prems(2) by (simp_all add: in_span_iff)
  moreover have "memsetw_loop m p w (Suc n) = Some m'" using pm(1,2) m'(1) by (auto simp: mset_def)
  ultimately show ?case using m'(2,3) unfolding sp by (intro exI[of _ m']) (auto simp: cells_at_Cons simp del: memsetw_loop.simps)
qed

lemma cells_at_mapped: "cells_at m p ws \<Longrightarrow> mapped m (span p (2 * length ws))"
  using bytes_at_mapped[of m p "cell_bytes ws"] by (simp add: cells_at_def)

text \<open>Scrolling by one line.\<close>
lemma vga_scroll_line:
  assumes "cells_at (cmem s) (terminal_buffer s) (us @ vs)" and "length us = 80" and "length vs = 1920"
    and "terminal_row s = 25" and "unat (terminal_buffer s) + 4000 < 4294967296"
  shows "\<exists>m. vga_scroll s = Some (s\<lparr>cmem := m, terminal_row := 24\<rparr>)
    \<and> cells_at m (terminal_buffer s) (vs @ replicate 80 (vga_entry 32 (terminal_color s)))"
proof -
  let ?p = "terminal_buffer s" and ?w = "vga_entry 32 (terminal_color s)"
  have mp: "mapped (cmem s) (span ?p 4000)" using cells_at_mapped[OF assms(1)] assms(2,3) by simp
  have u: "unat (?p + 160) = unat ?p + 160" "unat (?p + 3840) = unat ?p + 3840"
    using assms(5) unat_plus_nowrap[of ?p 160] unat_plus_nowrap[of ?p 3840] by simp_all
  have b: "bytes_at (cmem s) (?p + 160) (cell_bytes vs)" using assms(1,2) unfolding cells_at_append by (simp add: cells_at_def)
  have "mapped (cmem s) (span ?p (length (cell_bytes vs)))"
    using mp assms(3,5) by (auto simp: mapped_def in_span_iff)
  moreover have "fwd_safe ?p (?p + 160) (length (cell_bytes vs))"
    using u(1) assms(3,5) by (intro fwd_safe_below) simp_all
  ultimately obtain m1 where m1: "memcpy_loop (cmem s) ?p (?p + 160) 3840 = Some (m1, ?p + 3840)"
      "cells_at m1 ?p vs" "\<forall>q. q \<notin> span ?p 3840 \<longrightarrow> m1 q = cmem s q"
    using memcpy_loop_copies[OF b, of ?p] assms(3) by (auto simp: cells_at_def)
  have "mapped m1 (span (?p + 3840) (2 * 80))"
    using mp m1(3) u(2) assms(5) by (auto simp: mapped_def in_span_iff)
  then obtain m2 where m2: "memsetw_loop m1 (?p + 3840) ?w 80 = Some m2" "cells_at m2 (?p + 3840) (replicate 80 ?w)"
      "\<forall>q. q \<notin> span (?p + 3840) (2 * 80) \<longrightarrow> m2 q = m1 q"
    using memsetw_loop_fills[of m1 "?p + 3840" 80 ?w] u(2) assms(5) by auto
  have "cells_at m2 ?p vs"
    by (rule cells_at_keep[OF m1(2)]) (use m2(3) u(2) assms(3,5) in \<open>auto simp: in_span_iff\<close>)
  then have "cells_at m2 ?p (vs @ replicate 80 ?w)" using m2(2) assms(3) by (simp add: cells_at_append)
  moreover have "VGA_HEIGHT \<le>s terminal_row s" using assms(4) by (simp add: VGA_HEIGHT_def)
  ultimately show ?thesis using m1(1) m2(1) assms(4)
    by (intro exI[of _ m2]) (simp add: vga_scroll_def VGA_HEIGHT_def VGA_WIDTH_def memcpy_def memsetw_def)
qed

lemma vga_scroll_none: "n < 25 \<Longrightarrow> terminal_row s = of_nat n \<Longrightarrow> vga_scroll s = Some s"
proof -
  assume n: "n < 25" "terminal_row s = of_nat n"
  have "unat (of_nat n :: u32) = n" using n(1) by (intro unat_of_nat32) simp
  then have "sint (of_nat n :: u32) = int n" using n(1) sint_small[of "of_nat n"] by simp
  then show ?thesis using n by (simp add: vga_scroll_def VGA_HEIGHT_def word_sle_eq)
qed

text \<open>Going on to the next line.\<close>
lemma next_line:
  assumes "terminal_buffer s = 0xC00B8000" and "cells_at (cmem s) 0xC00B8000 (page_cells (terminal_color s) (ls @ [l]))"
    and "\<forall>x\<in>set ls. length x \<le> 80" and "length l \<le> 80" and "terminal_row s = of_nat (min (length ls) 24) + 1" and "terminal_column s = 0"
  shows "\<exists>s'. vga_scroll s = Some s' \<and> shows_page (ls @ [l]) [] s'"
proof (cases "length ls < 24")
  case True
  have "page_cells (terminal_color s) ((ls @ [l]) @ [[]]) = page_cells (terminal_color s) (ls @ [l])"
  proof -
    have "24 - min (length ls) 24 = Suc (23 - length ls)" using True by simp
    then show ?thesis using True
      unfolding page_cells_snoc[of _ "ls @ [l]"] page_cells_snoc[of _ ls]
      by (simp add: line_cells_def replicate_add)
  qed
  then show ?thesis using vga_scroll_none[of "Suc (length ls)" s] assms True
    by (intro exI[of _ s]) (auto simp: shows_page_def)
next
  case False
  obtain x rest where x: "drop (length ls - 24) ls = x # rest" using False by (cases "drop (length ls - 24) ls") auto
  have "length (x # rest) = 24" using False unfolding x[symmetric] by simp
  then have lr: "length rest = 23" by simp
  let ?us = "line_cells (terminal_color s) x" and ?vs = "concat (map (line_cells (terminal_color s)) (rest @ [l]))"
  have old: "page_cells (terminal_color s) (ls @ [l]) = ?us @ ?vs" using False x by (simp add: page_cells_snoc)
  have xr: "length x \<le> 80" "\<forall>y\<in>set (rest @ [l]). length y \<le> 80"
    using x assms(3,4) in_set_dropD[of _ "length ls - 24" ls] by auto
  have "drop (length (ls @ [l]) - 24) (ls @ [l]) = rest @ [l]"
  proof -
    have "length (ls @ [l]) - 24 = Suc (length ls - 24)" using False by simp
    moreover have "drop (Suc (length ls - 24)) ls = rest" using x by (metis drop_Suc list.sel(3) tl_drop)
    ultimately show ?thesis using False by simp
  qed
  then have new: "page_cells (terminal_color s) ((ls @ [l]) @ [[]]) = ?vs @ replicate 80 (vga_entry 32 (terminal_color s))"
    using False unfolding page_cells_snoc[of _ "ls @ [l]"] by (simp add: line_cells_def)
  have c: "cells_at (cmem s) (terminal_buffer s) (?us @ ?vs)" using assms(1,2) old by simp
  have len: "length ?us = 80" "length ?vs = 1920"
    using length_line_cells[OF xr(1)] length_lines[OF xr(2)] lr by simp_all
  have "terminal_row s = 25" "unat (terminal_buffer s) + 4000 < 4294967296" using False assms(1,5) by simp_all
  from vga_scroll_line[OF c len this] obtain m where m: "vga_scroll s = Some (s\<lparr>cmem := m, terminal_row := 24\<rparr>)"
      "cells_at m (terminal_buffer s) (?vs @ replicate 80 (vga_entry 32 (terminal_color s)))" by blast
  then show ?thesis using assms new False by (auto simp: shows_page_def)
qed

lemma vga_putchar_page:
  assumes "shows_page ls l s"
  shows "\<exists>s'. vga_putchar c s = Some s' \<and> (case wrap ls l [c] of (ls', l') \<Rightarrow> shows_page ls' l' s')"
proof -
  have p: "terminal_buffer s = 0xC00B8000" "cells_at (cmem s) 0xC00B8000 (page_cells (terminal_color s) (ls @ [l]))"
    and ls: "\<forall>x\<in>set ls. length x \<le> 80" and l: "length l < 80"
    and rc: "terminal_row s = of_nat (min (length ls) 24)" "terminal_column s = of_nat (length l)"
    using assms unfolding shows_page_def by blast+
  have colU: "unat (of_nat (length l) + 1 :: u32) = length l + 1"
    using l unat_of_nat32[of "length l"] by (subst unat_plus_1) simp_all
  have col: "of_nat (length l) + 1 = (80 :: u32) \<longleftrightarrow> length l + 1 = 80" using colU by (simp add: word_unat_eq_iff)
  show ?thesis
  proof (cases "c = 10")
    case True
    let ?s = "s\<lparr>terminal_row := terminal_row s + 1, terminal_column := 0\<rparr>"
    have "\<exists>s'. vga_scroll ?s = Some s' \<and> shows_page (ls @ [l]) [] s'"
      by (rule next_line) (use p ls l rc in auto)
    then show ?thesis using True by (simp add: vga_putchar_def Let_def)
  next
    case False
    obtain m where m: "vga_setchar c (terminal_color s) (terminal_column s) (terminal_row s) s = Some (s\<lparr>cmem := m\<rparr>)"
        "cells_at m 0xC00B8000 (page_cells (terminal_color s) (ls @ [l @ [c]]))"
      using putchar_cell[OF assms l] by blast
    show ?thesis
    proof (cases "length l + 1 = 80")
      case True
      let ?s = "s\<lparr>cmem := m, terminal_row := terminal_row s + 1, terminal_column := 0\<rparr>"
      have "\<exists>s'. vga_scroll ?s = Some s' \<and> shows_page (ls @ [l @ [c]]) [] s'"
        by (rule next_line) (use p m ls l rc in auto)
      then show ?thesis using \<open>c \<noteq> 10\<close> m(1) True col rc(2)
        by (simp add: vga_putchar_def Let_def VGA_WIDTH_def)
    next
      case False
      let ?s = "s\<lparr>cmem := m, terminal_column := terminal_column s + 1\<rparr>"
      have "vga_scroll ?s = Some ?s" using rc by (intro vga_scroll_none[of "min (length ls) 24"]) simp_all
      moreover have "shows_page ls (l @ [c]) ?s" using p m ls l rc False by (simp add: shows_page_def)
      ultimately show ?thesis using \<open>c \<noteq> 10\<close> m(1) False col rc(2)
        by (simp add: vga_putchar_def Let_def VGA_WIDTH_def)
    qed
  qed
qed

fun print_screen :: "u8 list \<Rightarrow> 'a console_scheme \<Rightarrow> 'a console_scheme option" where
  "print_screen [] s = Some s"
| "print_screen (c # cs) s = do { s1 \<leftarrow> vga_putchar c s; print_screen cs s1 }"

lemma wrap_append: "wrap ls l (xs @ ys) = (case wrap ls l xs of (ls', l') \<Rightarrow> wrap ls' l' ys)"
  by (induction ls l xs rule: wrap.induct) simp_all

lemma print_screen_page:
  assumes "shows_page ls l s"
  shows "\<exists>s'. print_screen cs s = Some s' \<and> (case wrap ls l cs of (ls', l') \<Rightarrow> shows_page ls' l' s')"
  using assms
proof (induction cs arbitrary: ls l s)
  case (Cons c cs)
  obtain ls1 l1 where w: "wrap ls l [c] = (ls1, l1)" by fastforce
  obtain s1 where s1: "vga_putchar c s = Some s1" "shows_page ls1 l1 s1"
    using vga_putchar_page[OF Cons.prems, of c] w by auto
  have "wrap ls l (c # cs) = wrap ls1 l1 cs" using wrap_append[of ls l "[c]" cs] w by simp
  then show ?case using Cons.IH[OF s1(2)] s1(1) by simp
qed simp

text \<open>\<open>vga_init\<close> blanks the screen.\<close>
lemma clear_cells_blank:
  assumes "mapped (cmem s) (span (terminal_buffer s + 2 * of_nat i) (2 * n))" and "unat (terminal_buffer s) + 2 * (i + n) < 4294967296"
  shows "\<exists>m. clear_cells i n s = Some (s\<lparr>cmem := m\<rparr>)
    \<and> cells_at m (terminal_buffer s + 2 * of_nat i) (replicate n (vga_entry 32 (terminal_color s)))
    \<and> (\<forall>q. q \<notin> span (terminal_buffer s + 2 * of_nat i) (2 * n) \<longrightarrow> m q = cmem s q)"
  using assms
proof (induction n arbitrary: i s)
  case 0
  then show ?case by (intro exI[of _ "cmem s"]) (simp add: cells_at_def)
next
  case (Suc n)
  let ?p = "terminal_buffer s + 2 * of_nat i" and ?w = "vga_entry 32 (terminal_color s)"
  let ?m = "(cmem s)(?p \<mapsto> ucast ?w, ?p + 1 \<mapsto> ucast (drop_bit 8 ?w))"
  have "unat (2 * of_nat i :: u32) = 2 * i"
    using Suc.prems(2) unat_times_nowrap[of 2 "of_nat i"] unat_of_nat32[of i] by simp
  then have up: "unat ?p = unat (terminal_buffer s) + 2 * i" using Suc.prems(2) by (simp add: unat_plus_nowrap)
  then have u: "unat (?p + 1) = unat ?p + 1" "unat (?p + 2) = unat ?p + 2"
    using Suc.prems(2) by (auto intro: unat_plus_1 unat_plus_2)
  have sp: "span ?p (2 * Suc n) = insert ?p (insert (?p + 1) (span (?p + 2) (2 * n)))"
    by (simp add: span_Suc add.assoc)
  have nn: "cmem s q \<noteq> None" if "q = ?p \<or> q = ?p + 1 \<or> q \<in> span (?p + 2) (2 * n)" for q
    using Suc.prems(1) that unfolding mapped_def sp by blast
  have pc: "put_cell (of_nat i) ?w s = Some (s\<lparr>cmem := ?m\<rparr>)"
    using nn[of ?p] nn[of "?p + 1"] by (auto simp: put_cell_def mset_def)
  have p2: "terminal_buffer s + 2 * of_nat (Suc i) = ?p + 2" by (simp add: algebra_simps)
  define s1 where "s1 = s\<lparr>cmem := ?m\<rparr>"
  have s1: "cmem s1 = ?m" "terminal_buffer s1 = terminal_buffer s" "terminal_color s1 = terminal_color s"
    "\<And>m. s1\<lparr>cmem := m\<rparr> = s\<lparr>cmem := m\<rparr>" by (simp_all add: s1_def)
  have "mapped ?m (span (?p + 2) (2 * n))" using nn by (auto simp: mapped_def)
  then have "mapped (cmem s1) (span (terminal_buffer s1 + 2 * of_nat (Suc i)) (2 * n))" unfolding s1(1,2) p2 .
  moreover have "unat (terminal_buffer s1) + 2 * (Suc i + n) < 4294967296" using Suc.prems(2) s1(2) by simp
  ultimately obtain m where m: "clear_cells (Suc i) n s1 = Some (s\<lparr>cmem := m\<rparr>)"
      "cells_at m (?p + 2) (replicate n ?w)" "\<forall>q. q \<notin> span (?p + 2) (2 * n) \<longrightarrow> m q = ?m q"
    using Suc.IH[of s1 "Suc i"] unfolding s1 p2 by blast
  have "?p \<notin> span (?p + 2) (2 * n)" "?p + 1 \<notin> span (?p + 2) (2 * n)"
    using u up Suc.prems(2) by (simp_all add: in_span_iff)
  then show ?case using pc m unfolding sp s1_def by (intro exI[of _ m]) (auto simp: cells_at_Cons)
qed

lemma vga_init_page:
  assumes "mapped (cmem s) (span 0xC00B8000 4000)"
  shows "\<exists>s'. vga_init s = Some s' \<and> shows_page [] [] s' \<and> line_lock s' = line_lock s"
proof -
  let ?s = "s\<lparr>terminal_row := 0, terminal_column := 0, terminal_color := vga_entry_color 7 0, terminal_buffer := 0xC00B8000\<rparr>"
  define n :: nat where "n = unat (VGA_HEIGHT * VGA_WIDTH)"
  have n: "n = 80 * 25" by (simp add: n_def VGA_HEIGHT_def VGA_WIDTH_def)
  have "\<exists>m. clear_cells 0 n ?s = Some (?s\<lparr>cmem := m\<rparr>)
    \<and> cells_at m (terminal_buffer ?s + 2 * of_nat 0) (replicate n (vga_entry 32 (terminal_color ?s)))
    \<and> (\<forall>q. q \<notin> span (terminal_buffer ?s + 2 * of_nat 0) (2 * n) \<longrightarrow> m q = cmem ?s q)"
    by (rule clear_cells_blank) (use assms n in simp_all)
  then obtain m where m: "clear_cells 0 n ?s = Some (?s\<lparr>cmem := m\<rparr>)"
      "cells_at m 0xC00B8000 (replicate n (vga_entry 32 (vga_entry_color 7 0)))" by auto
  have "n = 80 + 80 * (24 - min (length ([] :: u8 list list)) 24)" using n by simp
  then have "replicate n x = replicate 80 x @ replicate (80 * (24 - min (length ([] :: u8 list list)) 24)) x" for x :: u16
    by (simp only: replicate_add)
  then have "page_cells c ([] @ [[]]) = replicate n (vga_entry 32 c)" for c
    unfolding page_cells_snoc line_cells_def by simp
  then show ?thesis using m by (simp add: vga_init_def n_def[symmetric] shows_page_def)
qed

lemma vga_write_loop_prints:
  "i + n \<le> length data \<Longrightarrow> vga_write_loop data i n s = print_screen (take n (drop i data)) s"
proof (induction n arbitrary: i s)
  case (Suc n)
  have "take (Suc n) (drop i data) = data ! i # take n (drop (Suc i) data)"
    using Suc.prems by (simp add: Cons_nth_drop_Suc[symmetric])
  then show ?case using Suc by (cases "vga_putchar (data ! i) s") (simp_all add: aget_in)
qed simp

text \<open>C38: After \<open>vga_init\<close>, writing any text leaves in the screen memory the last 25 of the text's lines, broken
  at newlines and after 80 characters, on blank ground, and the cursor where the text ends; no store leaves the
  screen, and the lock is free again.\<close>
theorem vga_write_shows_text:
  assumes "mapped (cmem s) (span 0xC00B8000 4000)" and "line_lock s = 0" and "length msg < 2147483648"
  shows "\<exists>s1 s2. vga_init s = Some s1 \<and> vga_write msg (of_nat (length msg)) s1 = Some s2 \<and> line_lock s2 = 0
    \<and> (case wrap [] [] msg of (ls, l) \<Rightarrow>
         cells_at (cmem s2) 0xC00B8000 (page_cells (terminal_color s2) (ls @ [l]))
         \<and> terminal_row s2 = of_nat (min (length ls) 24) \<and> terminal_column s2 = of_nat (length l) \<and> length l < 80)"
proof -
  obtain s1 where s1: "vga_init s = Some s1" "shows_page [] [] s1" "line_lock s1 = line_lock s"
    using vga_init_page[OF assms(1)] by blast
  have "shows_page [] [] (s1\<lparr>line_lock := 1\<rparr>)" using s1(2) by (simp add: shows_page_def)
  note pr = print_screen_page[OF this, of msg]
  obtain ls l where w: "wrap [] [] msg = (ls, l)" by fastforce
  obtain s2 where s2: "print_screen msg (s1\<lparr>line_lock := 1\<rparr>) = Some s2" "shows_page ls l s2"
    using pr unfolding w prod.case by blast
  have "unat (of_nat (length msg) :: u32) = length msg" using assms(3) by (intro unat_of_nat32) simp
  then have "nat (sint (of_nat (length msg) :: u32)) = length msg" using assms(3) by (simp add: sint_small)
  then have "vga_write msg (of_nat (length msg)) s1 = Some (s2\<lparr>line_lock := 0\<rparr>)"
    using s1(3) s2(1) assms(2) vga_write_loop_prints[of 0 "length msg" msg "s1\<lparr>line_lock := 1\<rparr>"]
    by (simp add: vga_write_def spin_lock_def spin_unlock_def)
  then show ?thesis using s1(1) s2(2) unfolding w shows_page_def by simp
qed

definition blank_console :: console where
  "blank_console = \<lparr>io_log = [], cmem = (\<lambda>p. Some 0), terminal_row = 0, terminal_column = 0, terminal_color = 0,
     terminal_buffer = 0, line_lock = 0, print_lock = 0\<rparr>"

theorem vga_write_shows_text_witness:
  "\<exists>s1 s2. vga_init blank_console = Some s1 \<and> vga_write [72, 105, 10, 33] (of_nat (length [72, 105, 10, 33 :: u8])) s1 = Some s2 \<and> line_lock s2 = 0
    \<and> (case wrap [] [] [72, 105, 10, 33 :: u8] of (ls, l) \<Rightarrow>
         cells_at (cmem s2) 0xC00B8000 (page_cells (terminal_color s2) (ls @ [l]))
         \<and> terminal_row s2 = of_nat (min (length ls) 24) \<and> terminal_column s2 = of_nat (length l) \<and> length l < 80)"
  by (rule vga_write_shows_text) (simp_all add: blank_console_def mapped_def)

subsection \<open>What goes wrong\<close>

text \<open>\<open>vga_writestring\<close> takes \<open>line_lock\<close> and calls \<open>vga_write\<close>, which takes it again: it never returns.\<close>
lemma vga_writestring_deadlocks: "vga_writestring data s = None"
  by (simp add: vga_writestring_def vga_write_def spin_lock_def)

text \<open>Before \<open>vga_init\<close> the buffer is NULL, so a message printed then is stored at address 0.\<close>
lemma vga_putchar_before_init:
  assumes "terminal_buffer s = NULL" and "terminal_row s = 0" "terminal_column s = 0" and "c \<noteq> 10" and "cmem s 0 = Some a" "cmem s 1 = Some b"
  shows "\<exists>s'. vga_putchar c s = Some s' \<and> cmem s' 0 = Some c"
proof -
  have "(ucast (vga_entry c d) :: u8) = c" for d
    by (auto intro!: bit_word_eqI simp: vga_entry_def bit_simps)
  then show ?thesis using assms
    by (simp add: vga_putchar_def vga_setchar_def put_cell_def mset_def Let_def VGA_WIDTH_def vga_scroll_def VGA_HEIGHT_def word_sle_eq)
qed

text \<open>The line status bit is set when data has arrived, but \<open>rs232_data_received\<close> tests it for 0: a read is
  done exactly when there is nothing to read.\<close>
lemma rs232_read_inverted:
  assumes "dev (io_log s) (Port (port + 5)) AND 1 = 0"
  shows "\<exists>c s'. rs232_read_single dev port s = Some (c, s')"
proof -
  have "(ucast (dev (io_log s) (Port (port + 5))) :: u8) AND 1 = ucast (dev (io_log s) (Port (port + 5)) AND 1)"
    by (simp add: unsigned_and_eq)
  then have "(ucast (dev (io_log s) (Port (port + 5))) :: u8) AND 1 = 0" using assms by simp
  then show ?thesis
    by (subst rs232_read_single.simps) (simp add: rs232_data_received_def inportb_def Let_def)
qed

end
