(* ===== verification/Kprint.thy ===== *)
theory Kprint
  imports Console CMath
begin

text \<open>
  \<open>src/src/std/kprint.c\<close>: the kernel's formatted output, to the screen and the serial port. A string is an
  array of characters with its NUL, read element by element; the arguments of \<open>kprintf\<close> are what \<open>va_arg\<close>
  finds, words or strings. Numbers are built backwards in an array, as in the code.
\<close>

definition kputch :: "device \<Rightarrow> u8 \<Rightarrow> 'a console_scheme \<Rightarrow> 'a console_scheme option" where
  "kputch dev c s = do { s1 \<leftarrow> vga_putchar c s; rs232_write_single dev RS232_PORT_COM1 c s1 }"

definition hex_chars :: "bool \<Rightarrow> u8 list" where
  "hex_chars capital =
     (if capital then [48, 49, 50, 51, 52, 53, 54, 55, 56, 57, 65, 66, 67, 68, 69, 70, 0]
      else [48, 49, 50, 51, 52, 53, 54, 55, 56, 57, 97, 98, 99, 100, 101, 102, 0])"

definition kputch_hex :: "device \<Rightarrow> u8 \<Rightarrow> bool \<Rightarrow> bool \<Rightarrow> 'a console_scheme \<Rightarrow> 'a console_scheme option" where
  "kputch_hex dev c capital pad s = do {
     let high = unat (drop_bit 4 (c AND 0xF0));
     let low = unat (c AND 0x0F);
     s1 \<leftarrow> (if high \<noteq> 0 \<or> pad then do { d \<leftarrow> aget (hex_chars capital) high; kputch dev d s } else Some s);
     d \<leftarrow> aget (hex_chars capital) low;
     kputch dev d s1 }"

function kputs :: "device \<Rightarrow> u8 list \<Rightarrow> nat \<Rightarrow> 'a console_scheme \<Rightarrow> 'a console_scheme option" where
  "kputs dev str i s =
     (if i < length str then
        if str ! i \<noteq> 0 then do { s1 \<leftarrow> kputch dev (str ! i) s; kputs dev str (Suc i) s1 } else Some s
      else None)"
  by pat_completeness auto
termination by (relation "measure (\<lambda>(_, str, i, _). length str - i)") auto

declare kputs.simps [simp del]

text \<open>The loop that stores the digits; \<open>n\<close> is positive where it runs. \<open>index\<close> may go below the array.\<close>
function int_digits :: "u32 \<Rightarrow> u8 list \<Rightarrow> int \<Rightarrow> (u8 list \<times> int) option" where
  "int_digits n tmp index =
     (if n > 0 then
        (if index < 0 then None
         else do { tmp1 \<leftarrow> aset tmp (nat index) (48 + ucast (n mod 10)); int_digits (n div 10) tmp1 (index - 1) })
      else Some (tmp, index))"
  by pat_completeness auto
termination
  by (relation "measure (\<lambda>(n, _, _). unat n)") (auto simp: unat_div word_gt_0_no word_less_nat_alt)

declare int_digits.simps [simp del]

text \<open>\<open>-n\<close> of the smallest \<open>long\<close> is taken to wrap around to itself; the loop then does not run.\<close>
definition kprint_int :: "device \<Rightarrow> u32 \<Rightarrow> 'a console_scheme \<Rightarrow> 'a console_scheme option" where
  "kprint_int dev n0 s =
     (if n0 = 0 then kputch dev 48 s
      else do {
        let negative = sint n0 < 0;
        let n = (if sint n0 < 0 then - n0 else n0);
        (tmp, index) \<leftarrow> int_digits (if sint n > 0 then n else 0) (replicate 13 0) 11;
        (tmp1, index1) \<leftarrow> (if negative then
            (if index < 0 then None else do { t \<leftarrow> aset tmp (nat index) 45; Some (t, index - 1) })
          else Some (tmp, index));
        if index1 + 1 < 0 then None else kputs dev tmp1 (nat (index1 + 1)) s })"

definition kprint_uint :: "device \<Rightarrow> u32 \<Rightarrow> 'a console_scheme \<Rightarrow> 'a console_scheme option" where
  "kprint_uint dev n s =
     (if n = 0 then kputch dev 48 s
      else do {
        (tmp, index) \<leftarrow> int_digits n (replicate 12 0) 10;
        if index + 1 < 0 then None else kputs dev tmp (nat (index + 1)) s })"

text \<open>The bytes of \<open>n\<close> from the top: the \<open>k\<close> lowest ones are still to be printed.\<close>
fun hex_bytes :: "device \<Rightarrow> u32 \<Rightarrow> bool \<Rightarrow> bool \<Rightarrow> bool \<Rightarrow> nat \<Rightarrow> 'a console_scheme \<Rightarrow> 'a console_scheme option" where
  "hex_bytes dev n capital pad first 0 s = Some s"
| "hex_bytes dev n capital pad first (Suc i) s =
     (let byte = ucast (drop_bit (8 * i) n AND 0xFF) in
      if first \<and> byte = 0 then hex_bytes dev n capital pad first i s
      else do {
        s1 \<leftarrow> kputch_hex dev byte capital (if \<not> first then True else pad) s;
        hex_bytes dev n capital pad False i s1 })"

definition kprint_hex_uint :: "device \<Rightarrow> u32 \<Rightarrow> bool \<Rightarrow> bool \<Rightarrow> 'a console_scheme \<Rightarrow> 'a console_scheme option" where
  "kprint_hex_uint dev n capital pad s =
     (if n = 0 then kputch dev 48 s else hex_bytes dev n capital pad True 4 s)"

function scale_down :: "u32 \<Rightarrow> u32" where
  "scale_down v = (if v \<ge> 1024 then scale_down (v div 1024) else v)"
  by pat_completeness auto
termination
proof (relation "measure unat")
  fix v :: u32 assume "1024 \<le> v"
  then have "1024 \<le> unat v" by (simp add: word_le_nat_alt)
  then show "(v div 1024, v) \<in> measure unat" by (simp add: unat_div)
qed simp

declare scale_down.simps [simp del]

definition kprint_memory :: "device \<Rightarrow> u32 \<Rightarrow> 'a console_scheme \<Rightarrow> 'a console_scheme option" where
  "kprint_memory dev val s = do {
     let base = log2 val div 10;
     let bases = [75, 77, 71, 84, 80, 69, 90, 89, 0 :: u8];
     prefix \<leftarrow> (if base \<noteq> 0 \<and> base < 8 then aget bases (base - 1) else Some 0);
     s1 \<leftarrow> kprint_uint dev (if base > 0 then scale_down val else val) s;
     s2 \<leftarrow> (if prefix \<noteq> 0 then kputch dev prefix s1 else Some s1);
     kputch dev 66 s2 }"

datatype karg = Word u32 | Str "u8 list"

definition arg_word :: "karg list \<Rightarrow> (u32 \<times> karg list) option" where
  "arg_word args = (case args of Word w # rest \<Rightarrow> Some (w, rest) | _ \<Rightarrow> None)"

definition arg_str :: "karg list \<Rightarrow> (u8 list \<times> karg list) option" where
  "arg_str args = (case args of Str cs # rest \<Rightarrow> Some (cs, rest) | _ \<Rightarrow> None)"

text \<open>The conversion after \<open>%\<close>: \<open>d\<close> 100, \<open>i\<close> 105, \<open>m\<close> 109, \<open>u\<close> 117, \<open>s\<close> 115, \<open>c\<close> 99, \<open>p\<close> 112, \<open>x\<close> 120, \<open>X\<close> 88.
  Any other character, \<open>%\<close> and NUL among them, prints nothing.\<close>
definition kprint_conv :: "device \<Rightarrow> u8 \<Rightarrow> karg list \<Rightarrow> 'a console_scheme \<Rightarrow> (karg list \<times> 'a console_scheme) option" where
  "kprint_conv dev c args s =
     (if c = 100 \<or> c = 105 then do { (w, rest) \<leftarrow> arg_word args; s1 \<leftarrow> kprint_int dev w s; Some (rest, s1) }
      else if c = 109 then do { (w, rest) \<leftarrow> arg_word args; s1 \<leftarrow> kprint_memory dev w s; Some (rest, s1) }
      else if c = 117 then do { (w, rest) \<leftarrow> arg_word args; s1 \<leftarrow> kprint_uint dev w s; Some (rest, s1) }
      else if c = 115 then do { (str, rest) \<leftarrow> arg_str args; s1 \<leftarrow> kputs dev str 0 s; Some (rest, s1) }
      else if c = 99 then do { (w, rest) \<leftarrow> arg_word args; s1 \<leftarrow> kputch dev (ucast w) s; Some (rest, s1) }
      else if c = 112 \<or> c = 120 then do { (w, rest) \<leftarrow> arg_word args; s1 \<leftarrow> kprint_hex_uint dev w False False s; Some (rest, s1) }
      else if c = 88 then do { (w, rest) \<leftarrow> arg_word args; s1 \<leftarrow> kprint_hex_uint dev w True False s; Some (rest, s1) }
      else Some (args, s))"

function kprintf_loop :: "device \<Rightarrow> u8 list \<Rightarrow> nat \<Rightarrow> karg list \<Rightarrow> 'a console_scheme \<Rightarrow> 'a console_scheme option" where
  "kprintf_loop dev fmt i args s =
     (if i < length fmt then
        (if fmt ! i = 0 then Some s
         else if fmt ! i = 37 then
           (if i + 1 < length fmt then do {
              (rest, s1) \<leftarrow> kprint_conv dev (fmt ! (i + 1)) args s;
              kprintf_loop dev fmt (i + 2) rest s1 }
            else None)
         else do { s1 \<leftarrow> kputch dev (fmt ! i) s; kprintf_loop dev fmt (i + 1) args s1 })
      else None)"
  by pat_completeness auto
termination by (relation "measure (\<lambda>(_, fmt, i, _, _). length fmt - i)") auto

declare kprintf_loop.simps [simp del]

definition kprintf :: "device \<Rightarrow> u8 list \<Rightarrow> karg list \<Rightarrow> 'a console_scheme \<Rightarrow> 'a console_scheme option" where
  "kprintf dev fmt args s = do {
     l \<leftarrow> spin_lock (print_lock s);
     s1 \<leftarrow> kprintf_loop dev fmt 0 args (s\<lparr>print_lock := l\<rparr>);
     Some (s1\<lparr>print_lock := spin_unlock (print_lock s1)\<rparr>) }"

subsection \<open>What is printed\<close>

fun print_chars :: "device \<Rightarrow> u8 list \<Rightarrow> 'a console_scheme \<Rightarrow> 'a console_scheme option" where
  "print_chars dev [] s = Some s"
| "print_chars dev (c # cs) s = do { s1 \<leftarrow> kputch dev c s; print_chars dev cs s1 }"

lemma print_chars_append: "print_chars dev (xs @ ys) s = do { s1 \<leftarrow> print_chars dev xs s; print_chars dev ys s1 }"
proof (induction xs arbitrary: s)
  case (Cons x xs)
  then show ?case by (cases "kputch dev x s") simp_all
qed simp

lemma print_nothing [simp]: "(m :: 'a console_scheme option) \<bind> print_chars dev [] = m"
  by (cases m) simp_all

lemma kputs_prints:
  "drop i str = cs @ 0 # rest \<Longrightarrow> 0 \<notin> set cs \<Longrightarrow> kputs dev str i s = print_chars dev cs s"
proof (induction cs arbitrary: i s)
  case Nil
  then have "i < length str" "str ! i = 0"
    by (metis append_Nil drop_eq_Nil linorder_not_less list.distinct(1)) (metis Nil.prems(1) append_Nil drop_eq_Nil linorder_not_less list.distinct(1) nth_via_drop)
  then show ?case by (simp add: kputs.simps)
next
  case (Cons c cs)
  then have i: "i < length str" "str ! i = c" "drop (Suc i) str = cs @ 0 # rest"
    by (metis append_Cons drop_eq_Nil linorder_not_less list.distinct(1), metis append_Cons nth_via_drop,
        metis append_Cons drop_Suc drop_tl list.sel(3) tl_drop)
  then show ?case using Cons by (subst kputs.simps) (cases "kputch dev c s"; simp)
qed

text \<open>The decimal digits of a number, highest first.\<close>
fun dec :: "nat \<Rightarrow> u8 list" where
  "dec n = (if n = 0 then [] else dec (n div 10) @ [48 + of_nat (n mod 10)])"

declare dec.simps [simp del]

text \<open>Reading a number back: a sign and digits.\<close>
fun dec_value :: "int \<Rightarrow> u8 list \<Rightarrow> int option" where
  "dec_value v [] = Some v"
| "dec_value v (c # cs) = (if 48 \<le> c \<and> c \<le> 57 then dec_value (10 * v + int (unat c - 48)) cs else None)"

definition parse_int :: "u8 list \<Rightarrow> int option" where
  "parse_int cs = (case cs of [] \<Rightarrow> None | c # ds \<Rightarrow>
     if c = 45 then (if ds = [] then None else map_option uminus (dec_value 0 ds)) else dec_value 0 cs)"

lemma digit_char:
  assumes "d < 10"
  shows "unat (48 + of_nat d :: u8) = 48 + d"
proof -
  have "unat (of_nat d :: u8) = d" using assms by (simp add: unat_of_nat take_bit_nat_eq_self_iff)
  then show ?thesis using assms by (simp add: unat_word_ariths)
qed

lemma digit_range:
  assumes "d < 10" shows "48 \<le> (48 + of_nat d :: u8)" "(48 + of_nat d :: u8) \<le> 57" "(48 + of_nat d :: u8) \<noteq> 0" "(48 + of_nat d :: u8) \<noteq> 45"
  using digit_char[OF assms] assms by (auto simp: word_le_nat_alt word_unat_eq_iff)

lemma dec_value_snoc: "d < 10 \<Longrightarrow> dec_value v (cs @ [48 + of_nat d]) = map_option (\<lambda>x. 10 * x + int d) (dec_value v cs)"
  by (induction cs arbitrary: v) (simp_all add: digit_range digit_char)

lemma dec_value_dec: "dec_value 0 (dec n) = Some (int n)"
proof (induction n rule: less_induct)
  case (less n)
  show ?case
  proof (cases "n = 0")
    case False
    then have "dec_value 0 (dec (n div 10)) = Some (int (n div 10))" by (intro less) simp
    then show ?thesis using False
      by (subst dec.simps) (simp add: dec_value_snoc zdiv_int zmod_int)
  qed (simp add: dec.simps)
qed

lemma dec_digits: "c \<in> set (dec n) \<Longrightarrow> c \<noteq> 0 \<and> c \<noteq> 45"
proof (induction n rule: less_induct)
  case (less n)
  show ?case
  proof (cases "n = 0")
    case False
    then consider "c \<in> set (dec (n div 10))" | "c = 48 + of_nat (n mod 10)" using less.prems by (subst (asm) dec.simps) auto
    then show ?thesis
    proof cases
      case 1
      then show ?thesis using less.IH[of "n div 10"] False by simp
    next
      case 2
      then show ?thesis using digit_range[of "n mod 10"] by simp
    qed
  qed (use less.prems in \<open>simp add: dec.simps\<close>)
qed

lemma dec_lead: "n > 0 \<Longrightarrow> dec n \<noteq> [] \<and> hd (dec n) \<noteq> 48"
proof (induction n rule: less_induct)
  case (less n)
  show ?case
  proof (cases "n < 10")
    case True
    then show ?thesis using less.prems digit_char[of n] by (subst (1 2) dec.simps) (auto simp: dec.simps word_unat_eq_iff)
  next
    case False
    then have "dec (n div 10) \<noteq> [] \<and> hd (dec (n div 10)) \<noteq> 48" by (intro less) auto
    then show ?thesis using less.prems by (subst (1 2) dec.simps) simp
  qed
qed

lemma dec_length: "n < 10 ^ k \<Longrightarrow> length (dec n) \<le> k"
proof (induction k arbitrary: n)
  case (Suc k)
  then have "n div 10 < 10 ^ k" by (simp add: less_mult_imp_div_less mult.commute)
  then show ?case using Suc.IH[of "n div 10"] by (subst dec.simps) simp
qed (simp add: dec.simps)

lemma dec_length_word: "length (dec (unat (n :: u32))) \<le> 10"
proof -
  have "unat n < 10 ^ 10" by (rule less_trans[OF unat_lt_2p32]) simp
  then show ?thesis by (rule dec_length)
qed

text \<open>The loop writes the digits in front of what is in the array behind \<open>index\<close>.\<close>
lemma int_digits_dec:
  assumes "length (dec (unat n)) \<le> k" and "k \<le> length tmp"
  shows "int_digits n tmp (int k - 1)
    = Some (take (k - length (dec (unat n))) tmp @ dec (unat n) @ drop k tmp, int (k - length (dec (unat n))) - 1)"
  using assms
proof (induction "unat n" arbitrary: n tmp k rule: less_induct)
  case less
  show ?case
  proof (cases "n = 0")
    case True
    then show ?thesis by (simp add: int_digits.simps dec.simps)
  next
    case False
    then have pos: "unat n > 0" by (simp add: unat_gt_0)
    have ud: "unat (n div 10) = unat n div 10" "unat (n mod 10) = unat n mod 10" by (simp_all add: unat_div unat_mod)
    have D: "dec (unat n) = dec (unat (n div 10)) @ [48 + of_nat (unat n mod 10)]"
      using pos by (subst dec.simps) (simp add: ud)
    obtain k' where k: "k = Suc k'" using less.prems(1) D by (cases k) auto
    have c: "(48 + ucast (n mod 10) :: u8) = 48 + of_nat (unat n mod 10)"
      unfolding ud(2)[symmetric] by (simp add: unsigned_ucast_eq of_nat_unat)
    let ?t = "tmp[k' := 48 + ucast (n mod 10)]"
    have "k' < length tmp" using less.prems(2) k by simp
    then have st: "int_digits n tmp (int k - 1) = int_digits (n div 10) ?t (int k' - 1)"
      using False k by (subst int_digits.simps) (simp add: aset_in word_greater_zero_iff)
    have "unat (n div 10) < unat n" using pos by (simp add: ud)
    then have "int_digits (n div 10) ?t (int k' - 1)
      = Some (take (k' - length (dec (unat (n div 10)))) ?t @ dec (unat (n div 10)) @ drop k' ?t, int (k' - length (dec (unat (n div 10)))) - 1)"
      using less.prems D k by (intro less.hyps) simp_all
    moreover have "drop k' ?t = (48 + of_nat (unat n mod 10)) # drop k tmp"
      using \<open>k' < length tmp\<close> k c by (simp add: Cons_nth_drop_Suc[symmetric])
    ultimately show ?thesis using st D k by simp
  qed
qed

lemma unat_minus_neg:
  assumes "sint (n :: u32) < 0" and "n \<noteq> 0x80000000"
  shows "int (unat (- n)) = - sint n" and "unat (- n) < 2147483648"
proof -
  have r: "of_int (sint n) = n" by simp
  have "- (2 ^ 31) \<le> sint n" using sint_greater_eq[of n] by simp
  moreover have "sint n \<noteq> - 2147483648"
  proof
    assume "sint n = - 2147483648"
    then have "n = of_int (- 2147483648)" using r by metis
    then show False using assms(2) by simp
  qed
  ultimately have k: "0 \<le> - sint n" "- sint n < 2147483648" using assms(1) by simp_all
  have "- n = of_int (- sint n)" using r by simp
  then have "uint (- n) = uint (of_int (- sint n) :: u32)" by simp
  also have "\<dots> = take_bit 32 (- sint n)" by (simp only: unsigned_of_int) simp
  finally have "uint (- n) = take_bit 32 (- sint n)" .
  then have "uint (- n) = - sint n" using k by (simp add: take_bit_int_eq_self_iff)
  moreover have "int (unat (- n)) = uint (- n)" by (rule of_nat_unat)
  ultimately show "int (unat (- n)) = - sint n" "unat (- n) < 2147483648" using k by linarith+
qed

lemma parse_dec: "n > 0 \<Longrightarrow> parse_int (dec n) = Some (int n) \<and> parse_int (45 # dec n) = Some (- int n)"
  using dec_lead[of n] dec_digits[of _ n] dec_value_dec[of n] by (cases "dec n") (auto simp: parse_int_def)

lemma kprint_int_prints:
  assumes "n \<noteq> 0x80000000"
  shows "\<exists>cs. (\<forall>s :: 'a console_scheme. kprint_int dev n s = print_chars dev cs s) \<and> parse_int cs = Some (sint n)
    \<and> length cs \<le> 11 \<and> (cs = [48] \<or> hd cs \<noteq> 48 \<and> \<not> (\<exists>ds. cs = 45 # 48 # ds))"
proof -
  have A: "int_digits m (replicate 13 0) 11
      = Some (replicate (12 - length (dec (unat m))) 0 @ dec (unat m) @ [0], int (12 - length (dec (unat m))) - 1)" for m
    using int_digits_dec[of m 12 "replicate 13 0"] dec_length_word[of m] by (simp add: min_def)
  have P: "kputs dev (replicate k 0 @ cs @ [0]) k s = print_chars dev cs s" if "0 \<notin> set cs" for k cs and s :: "'a console_scheme"
    using that by (intro kputs_prints[of _ _ _ "[]"]) simp_all
  have nz: "0 \<notin> set (dec m)" "45 \<notin> set (dec m)" for m using dec_digits by blast+
  consider "n = 0" | "n \<noteq> 0" "sint n < 0" | "sint n > 0" by (metis linorder_neqE signed_eq_0_iff)
  then show ?thesis
  proof cases
    case 1
    have "kprint_int dev n s = print_chars dev [48] s" for s :: "'a console_scheme"
      using 1 by (cases "kputch dev 48 s") (simp_all add: kprint_int_def)
    then show ?thesis by (intro exI[of _ "[48]"]) (simp add: parse_int_def 1)
  next
    case 2
    define m where "m = unat (- n)"
    have m: "int m = - sint n" "m < 2147483648" using unat_minus_neg[OF 2(2) assms] by (simp_all add: m_def)
    then have m0: "m > 0" using 2(2) by linarith
    have sm: "sint (- n) = int m" using sint_small[of "- n"] m(2) by (simp add: m_def)
    let ?L = "length (dec m)"
    have L: "?L \<le> 10" using dec_length_word[of "- n"] by (simp add: m_def)
    have ni: "nat (11 - int ?L) = 11 - ?L" using L by (simp add: nat_diff_distrib)
    have "(replicate (12 - ?L) 0 @ dec m @ [0])[11 - ?L := 45] = replicate (11 - ?L) 0 @ 45 # dec m @ [0 :: u8]"
    proof -
      have "12 - ?L = Suc (11 - ?L)" using L by simp
      then have "replicate (12 - ?L) (0 :: u8) = replicate (11 - ?L) 0 @ [0]" by (simp only: replicate_Suc replicate_append_same)
      then show ?thesis by (simp add: list_update_append)
    qed
    then have "kprint_int dev n s = kputs dev (replicate (11 - ?L) 0 @ (45 # dec m) @ [0]) (11 - ?L) s" for s :: "'a console_scheme"
      using 2 A[of "- n"] sm m0 L ni by (simp add: kprint_int_def m_def[symmetric] aset_in Let_def)
    then have "kprint_int dev n s = print_chars dev (45 # dec m) s" for s :: "'a console_scheme" using P[of "45 # dec m"] nz by simp
    then show ?thesis using parse_dec[OF m0] m(1) L dec_lead[OF m0]
      by (intro exI[of _ "45 # dec m"]) (auto simp: hd_conv_nth neq_Nil_conv)
  next
    case 3
    define m where "m = unat n"
    have "\<not> 2147483648 \<le> unat n" using sint_big[of n] 3 by auto
    then have m1: "int m = sint n" using sint_small[of n] by (simp add: m_def)
    then have m: "int m = sint n" "m > 0" using 3 by linarith+
    have L: "length (dec m) \<le> 10" using dec_length_word[of n] by (simp add: m_def)
    have "n \<noteq> 0" using 3 by auto
    moreover have ni: "nat (12 - int (length (dec m))) = 12 - length (dec m)" using L by (simp add: nat_diff_distrib)
    ultimately have "kprint_int dev n s = kputs dev (replicate (12 - length (dec m)) 0 @ dec m @ [0]) (12 - length (dec m)) s" for s :: "'a console_scheme"
      using 3 A[of n] L ni by (simp add: kprint_int_def m_def[symmetric] Let_def)
    then have "kprint_int dev n s = print_chars dev (dec m) s" for s :: "'a console_scheme" using P[of "dec m"] nz by simp
    then show ?thesis using parse_dec[OF m(2)] m(1) L dec_lead[OF m(2)] nz(2)[of m]
      by (intro exI[of _ "dec m"]) (auto simp: neq_Nil_conv)
  qed
qed

text \<open>The decimal digits \<open>kprint_int\<close> prints read back as its argument, for every number but the smallest;
  there is no leading zero, and its array is large enough for the longest of them.\<close>
lemma kprint_int_roundtrip:
  assumes "n \<noteq> 0x80000000"
  shows "\<exists>cs. kprint_int dev n s = print_chars dev cs s \<and> parse_int cs = Some (sint n)
    \<and> length cs \<le> 11 \<and> (cs = [48] \<or> hd cs \<noteq> 48 \<and> \<not> (\<exists>ds. cs = 45 # 48 # ds))"
  using kprint_int_prints[OF assms] by blast

lemma kprint_int_roundtrip_witness:
  "\<exists>cs. kprint_int (\<lambda>_ _. 0x40) (- 120) blank_console = print_chars (\<lambda>_ _. 0x40) cs blank_console
    \<and> parse_int cs = Some (sint (- 120 :: u32)) \<and> length cs \<le> 11 \<and> (cs = [48] \<or> hd cs \<noteq> 48 \<and> \<not> (\<exists>ds. cs = 45 # 48 # ds))"
  by (rule kprint_int_roundtrip) simp

text \<open>The smallest number has no positive counterpart: only its sign is printed.\<close>
lemma kprint_int_smallest: "kprint_int dev 0x80000000 s = print_chars dev [45] s"
proof -
  have r: "replicate 13 (0 :: u8) = replicate 11 0 @ [0, 0]" by (simp add: numeral_eq_Suc)
  have "kputs dev ((replicate 13 0)[11 := 45]) 11 s = print_chars dev [45] s"
    unfolding r by (intro kputs_prints[of _ _ _ "[]"]) (simp_all add: list_update_append)
  then show ?thesis by (simp add: kprint_int_def int_digits.simps aset_in Let_def)
qed

lemma kprint_uint_prints:
  "kprint_uint dev n s = print_chars dev (if n = 0 then [48] else dec (unat n)) s"
proof -
  let ?L = "length (dec (unat n))"
  have "?L \<le> 10" by (rule dec_length_word)
  then have "int_digits n (replicate 12 0) 10 = Some (replicate (11 - ?L) 0 @ dec (unat n) @ [0], int (11 - ?L) - 1)"
    using int_digits_dec[of n 11 "replicate 12 0"] by (simp add: min_def)
  moreover have "kputs dev (replicate (11 - ?L) 0 @ dec (unat n) @ [0]) (11 - ?L) s = print_chars dev (dec (unat n)) s"
    using dec_digits by (intro kputs_prints[of _ _ _ "[]"]) auto
  ultimately show ?thesis by (cases "kputch dev 48 s") (simp_all add: kprint_uint_def)
qed

text \<open>A \<open>%\<close> at the end of the format: its NUL is skipped, and what lies behind it is taken for the format.\<close>
lemma kprintf_percent_at_end: "kprintf dev [37, 0] args s = None"
  by (cases "spin_lock (print_lock s)") (simp_all add: kprintf_def kprintf_loop.simps kprint_conv_def)

text \<open>\<open>%%\<close> prints nothing.\<close>
lemma kprintf_percent_percent: "print_lock s = 0 \<Longrightarrow> kprintf dev [37, 37, 0] args s = Some (s\<lparr>print_lock := 0\<rparr>)"
  by (simp add: kprintf_def kprintf_loop.simps kprint_conv_def spin_lock_def spin_unlock_def)

text \<open>A handler that prints while \<open>kprintf\<close> holds the lock waits for ever.\<close>
lemma kprintf_locked: "print_lock s \<noteq> 0 \<Longrightarrow> kprintf dev fmt args s = None"
  by (simp add: kprintf_def spin_lock_def)

subsection \<open>Hexadecimal numbers\<close>

definition hex_digit :: "u8 \<Rightarrow> int option" where
  "hex_digit c = (if 48 \<le> c \<and> c \<le> 57 then Some (int (unat c - 48))
     else if 97 \<le> c \<and> c \<le> 102 then Some (int (unat c - 87))
     else if 65 \<le> c \<and> c \<le> 70 then Some (int (unat c - 55)) else None)"

fun hex_value :: "int \<Rightarrow> u8 list \<Rightarrow> int option" where
  "hex_value v [] = Some v"
| "hex_value v (c # cs) = (case hex_digit c of None \<Rightarrow> None | Some d \<Rightarrow> hex_value (16 * v + d) cs)"

lemma hex_value_append: "hex_value v (xs @ ys) = (case hex_value v xs of None \<Rightarrow> None | Some w \<Rightarrow> hex_value w ys)"
  by (induction xs arbitrary: v) (auto split: option.splits)

lemma hex_chars_all: "list_all (\<lambda>k. hex_digit (hex_chars cap ! k) = Some (int k)) [0..<16]"
proof -
  have "[0..<16] = [0, 1, 2, 3, 4, 5, 6, 7, 8, 9, 10, 11, 12, 13, 14, 15 :: nat]" by (simp add: upt_conv_Cons)
  then show ?thesis by (cases cap) (simp_all add: hex_chars_def hex_digit_def)
qed

lemma hex_chars_digit: "k < 16 \<Longrightarrow> aget (hex_chars cap) k = Some (hex_chars cap ! k) \<and> hex_digit (hex_chars cap ! k) = Some (int k)"
  using hex_chars_all[of cap] by (simp add: list_all_iff aget_def) (simp add: hex_chars_def)

lemma byte_nibbles:
  fixes c :: u8
  shows "unat (drop_bit 4 (c AND 0xF0)) = unat c div 16" and "unat (c AND 0x0F) = unat c mod 16"
proof -
  have "c AND 0x0F = take_bit 4 c" by (simp add: take_bit_eq_mask mask_eq_exp_minus_1)
  then show "unat (c AND 0x0F) = unat c mod 16" by (simp add: take_bit_eq_mod unat_mod)
  have "drop_bit 4 (c AND 0xF0) = drop_bit 4 c AND 0x0F" by (simp add: drop_bit_and)
  also have "\<dots> = take_bit 4 (drop_bit 4 c)" by (simp add: take_bit_eq_mask mask_eq_exp_minus_1)
  also have "\<dots> = drop_bit 4 c"
    by (rule bit_word_eqI) (auto simp: bit_simps dest: bit_imp_le_length)
  finally have "drop_bit 4 (c AND 0xF0) = drop_bit 4 c" .
  moreover have "unat (drop_bit 4 c) = unat c div 16" by (subst unat_drop_bit_eq) (simp add: drop_bit_eq_div)
  ultimately show "unat (drop_bit 4 (c AND 0xF0)) = unat c div 16" by metis
qed

definition byte_chars :: "bool \<Rightarrow> u8 \<Rightarrow> bool \<Rightarrow> u8 list" where
  "byte_chars cap c pad = (if unat c div 16 \<noteq> 0 \<or> pad then [hex_chars cap ! (unat c div 16)] else []) @ [hex_chars cap ! (unat c mod 16)]"

lemma unat_byte_div: "unat (c :: u8) div 16 < 16"
proof -
  have "unat c < 256" using unsigned_less[of c] by simp
  then show ?thesis by linarith
qed

lemma kputch_hex_prints: "kputch_hex dev c cap pad s = print_chars dev (byte_chars cap c pad) s"
proof -
  have "unat c mod 16 < 16" by simp
  note h = hex_chars_digit[OF unat_byte_div[of c], of cap] hex_chars_digit[OF this, of cap]
  show ?thesis unfolding kputch_hex_def Let_def byte_nibbles byte_chars_def
    using h by (cases "kputch dev (hex_chars cap ! (unat c div 16)) s") simp_all
qed

lemma byte_chars_value: "hex_value v (byte_chars cap c True) = Some (256 * v + int (unat c))"
  and byte_chars_lead: "hex_value 0 (byte_chars cap c False) = Some (int (unat c))"
proof -
  have "unat c mod 16 < 16" by simp
  note h = hex_chars_digit[OF unat_byte_div[of c], of cap] hex_chars_digit[OF this, of cap]
  have d: "16 * int (unat c div 16) + int (unat c mod 16) = int (unat c)"
    using arg_cong[OF mult_div_mod_eq[of 16 "unat c"], of int] by (simp only: of_nat_add of_nat_mult of_nat_numeral)
  have "hex_value v (byte_chars cap c True) = Some (256 * v + (16 * int (unat c div 16) + int (unat c mod 16)))"
    using h by (simp add: byte_chars_def del: of_nat_unat zdiv_int zmod_int)
  then show "hex_value v (byte_chars cap c True) = Some (256 * v + int (unat c))" unfolding d .
  have "hex_value 0 (byte_chars cap c False) = Some (16 * int (unat c div 16) + int (unat c mod 16))"
  proof (cases "unat c div 16 = 0")
    case True
    show ?thesis unfolding byte_chars_def True using h(2) by simp
  next
    case False
    then show ?thesis unfolding byte_chars_def using h by simp
  qed
  then show "hex_value 0 (byte_chars cap c False) = Some (int (unat c))" unfolding d .
qed

lemma unat_byte: "unat (ucast (drop_bit (8 * i) (n :: u32) AND 0xFF) :: u8) = unat n div 256 ^ i mod 256"
proof -
  have "drop_bit (8 * i) n AND 0xFF = take_bit 8 (drop_bit (8 * i) n)" by (simp add: take_bit_eq_mask mask_eq_exp_minus_1)
  moreover have "(2 :: nat) ^ (8 * i) = 256 ^ i" by (simp add: power_mult)
  ultimately have "unat (drop_bit (8 * i) n AND 0xFF) = unat n div 256 ^ i mod 256"
    by (simp add: unat_mod unat_drop_bit take_bit_eq_mod)
  then show ?thesis by (simp add: unsigned_ucast_eq take_bit_nat_eq_self_iff)
qed

lemma mod_256_Suc: "m mod 256 ^ Suc i = 256 ^ i * (m div 256 ^ i mod 256) + m mod 256 ^ i" for m :: nat
  using mod_mult2_eq[of m "256 ^ i" 256] by (simp add: mult.commute)

lemma hex_bytes_prints:
  "\<exists>cs. hex_bytes dev n cap False False i = (print_chars dev cs :: 'a console_scheme \<Rightarrow> 'a console_scheme option)
    \<and> (\<forall>v. hex_value v cs = Some (256 ^ i * v + int (unat n mod 256 ^ i)))"
proof (induction i)
  case 0
  then show ?case by (intro exI[of _ "[]"] conjI ext) simp_all
next
  case (Suc i)
  let ?b = "ucast (drop_bit (8 * i) n AND 0xFF) :: u8"
  obtain cs where cs: "hex_bytes dev n cap False False i = (print_chars dev cs :: 'a console_scheme \<Rightarrow> 'a console_scheme option)"
     "\<forall>v. hex_value v cs = Some (256 ^ i * v + int (unat n mod 256 ^ i))" using Suc.IH by blast
  have "hex_bytes dev n cap False False (Suc i) s = print_chars dev (byte_chars cap ?b True @ cs) s" for s :: "'a console_scheme"
    using cs(1) by (simp add: Let_def kputch_hex_prints print_chars_append)
  moreover have "hex_value v (byte_chars cap ?b True @ cs) = Some (256 ^ Suc i * v + int (unat n mod 256 ^ Suc i))" for v
    unfolding hex_value_append byte_chars_value option.case cs(2)[rule_format] mod_256_Suc unat_byte
    by (simp add: algebra_simps)
  ultimately show ?case by (intro exI[of _ "byte_chars cap ?b True @ cs"] conjI ext) blast+
qed

lemma hex_lead_digit: "0 < k \<Longrightarrow> k < 16 \<Longrightarrow> hex_chars cap ! k \<noteq> 48"
  using hex_chars_digit[of k cap] by (auto simp: hex_digit_def)

lemma hex_first_prints:
  fixes s :: "'a console_scheme"
  shows "unat n mod 256 ^ i \<noteq> 0 \<Longrightarrow> \<exists>cs. hex_bytes dev n cap False True i s = print_chars dev cs s
    \<and> hex_value 0 cs = Some (int (unat n mod 256 ^ i)) \<and> cs \<noteq> [] \<and> hd cs \<noteq> 48"
proof (induction i arbitrary: s)
  case (Suc i)
  let ?b = "ucast (drop_bit (8 * i) n AND 0xFF) :: u8"
  show ?case
  proof (cases "?b = 0")
    case True
    then have "unat n div 256 ^ i mod 256 = 0" using unat_byte[of i n] by simp
    then have "unat n mod 256 ^ Suc i = unat n mod 256 ^ i" unfolding mod_256_Suc by simp
    then show ?thesis using Suc True by simp
  next
    case False
    obtain cs where cs: "hex_bytes dev n cap False False i = (print_chars dev cs :: 'a console_scheme \<Rightarrow> 'a console_scheme option)"
       "\<forall>v. hex_value v cs = Some (256 ^ i * v + int (unat n mod 256 ^ i))"
      using hex_bytes_prints[of dev n cap i] by blast
    have "hex_bytes dev n cap False True (Suc i) s = print_chars dev (byte_chars cap ?b False @ cs) s"
      using False cs(1) by (simp add: Let_def kputch_hex_prints print_chars_append)
    moreover have "hex_value 0 (byte_chars cap ?b False @ cs) = Some (int (unat n mod 256 ^ Suc i))"
      unfolding hex_value_append byte_chars_lead option.case cs(2)[rule_format] mod_256_Suc unat_byte
      by (simp add: algebra_simps)
    moreover have "hd (byte_chars cap ?b False) \<noteq> 48"
    proof -
      have "unat ?b \<noteq> 0" using False by (simp only: unat_eq_zero) simp
      then show ?thesis using hex_lead_digit[of "unat ?b div 16"] hex_lead_digit[of "unat ?b mod 16"] unat_byte_div[of ?b]
        by (auto simp: byte_chars_def)
    qed
    moreover have "byte_chars cap ?b False \<noteq> []" by (simp add: byte_chars_def)
    ultimately show ?thesis by (intro exI[of _ "byte_chars cap ?b False @ cs"]) simp
  qed
qed simp

text \<open>What \<open>kprint_hex_uint\<close> prints reads back as its argument, in either case of letters, without leading zeros.\<close>
lemma kprint_hex_roundtrip:
  "\<exists>cs. kprint_hex_uint dev n cap False s = print_chars dev cs s \<and> hex_value 0 cs = Some (uint n)
    \<and> cs \<noteq> [] \<and> (hd cs = 48 \<longleftrightarrow> n = 0)"
proof (cases "n = 0")
  case True
  then show ?thesis by (intro exI[of _ "[48]"]) (simp add: kprint_hex_uint_def hex_digit_def)
next
  case False
  have "unat n mod 256 ^ 4 = unat n" using unat_lt_2p32[of n] by simp
  moreover have "unat n \<noteq> 0" using False by (simp add: unat_eq_zero)
  ultimately show ?thesis using hex_first_prints[of n 4 dev cap s] False
    by (auto simp: kprint_hex_uint_def)
qed

subsection \<open>Formats that print\<close>

text \<open>A format that takes its arguments one by one: \<open>%d\<close>, \<open>%u\<close>, \<open>%p\<close>, \<open>%x\<close> with a word for each.\<close>
fun fmt_args :: "u8 list \<Rightarrow> karg list \<Rightarrow> bool" where
  "fmt_args [] args = False"
| "fmt_args (c # cs) args =
     (if c = 0 then True
      else if c = 37 then
        (case (cs, args) of
           (d # ds, Word w # rest) \<Rightarrow> d \<in> {100, 117, 112, 120} \<and> fmt_args ds rest
         | _ \<Rightarrow> False)
      else fmt_args cs args)"

lemma hex_bytes_some:
  "\<exists>cs. hex_bytes dev n cap pad first i = (print_chars dev cs :: 'a console_scheme \<Rightarrow> 'a console_scheme option)"
proof (induction i arbitrary: first)
  case 0
  then show ?case by (intro exI[of _ "[]"] ext) simp
next
  case (Suc i)
  let ?b = "ucast (drop_bit (8 * i) n AND 0xFF) :: u8"
  obtain cs where cs: "hex_bytes dev n cap pad False i = (print_chars dev cs :: 'a console_scheme \<Rightarrow> 'a console_scheme option)"
    using Suc.IH by blast
  show ?case
  proof (cases "first \<and> ?b = 0")
    case True
    then have "hex_bytes dev n cap pad first (Suc i) = (hex_bytes dev n cap pad first i :: 'a console_scheme \<Rightarrow> _)"
      by (intro ext) (simp add: Let_def)
    then show ?thesis using Suc.IH by metis
  next
    case False
    have "hex_bytes dev n cap pad first (Suc i) s
        = print_chars dev (byte_chars cap ?b (if \<not> first then True else pad) @ cs) s" for s :: "'a console_scheme"
      using False cs by (cases first) (simp_all add: Let_def kputch_hex_prints print_chars_append)
    then show ?thesis by blast
  qed
qed

lemma kprint_int_some:
  "\<exists>cs. kprint_int dev n = (print_chars dev cs :: 'a console_scheme \<Rightarrow> 'a console_scheme option)"
proof (cases "n = 0x80000000")
  case True
  then show ?thesis using kprint_int_smallest by blast
next
  case False
  then show ?thesis using kprint_int_prints[OF False, where 'a = 'a] by blast
qed

lemma kprint_conv_some:
  assumes "d \<in> {100, 117, 112, 120}"
  shows "\<exists>cs. \<forall>s :: 'a console_scheme. kprint_conv dev d (Word w # rest) s = do { s1 \<leftarrow> print_chars dev cs s; Some (rest, s1) }"
proof -
  obtain cs where i: "kprint_int dev w = (print_chars dev cs :: 'a console_scheme \<Rightarrow> _)" using kprint_int_some by blast
  obtain ds where h: "hex_bytes dev w False False True 4 = (print_chars dev ds :: 'a console_scheme \<Rightarrow> _)" using hex_bytes_some by blast
  have x: "kprint_hex_uint dev w False False = (print_chars dev (if w = 0 then [48] else ds) :: 'a console_scheme \<Rightarrow> _)"
    by (intro ext) (simp add: kprint_hex_uint_def h)
  show ?thesis using assms i x
    by (auto simp: kprint_conv_def arg_word_def kprint_uint_prints intro: exI[of _ cs] exI[of _ "if w = 0 then [48] else dec (unat w)"]
        exI[of _ "if w = 0 then [48] else ds"])
qed

lemma fmt_prints:
  "fmt_args (drop i fmt) args \<Longrightarrow> \<exists>cs. kprintf_loop dev fmt i args = (print_chars dev cs :: 'a console_scheme \<Rightarrow> 'a console_scheme option)"
proof (induction "length fmt - i" arbitrary: i args rule: less_induct)
  case less
  then obtain c cs where d: "drop i fmt = c # cs" by (cases "drop i fmt") simp_all
  then have i: "i < length fmt" "fmt ! i = c" "drop (Suc i) fmt = cs"
    by (metis drop_all leI list.distinct(1), metis nth_via_drop, metis drop_Suc list.sel(3) tl_drop)
  have fmt: "fmt_args (c # cs) args" using less.prems d by simp
  consider "c = 0" | "c = 37" | "c \<noteq> 0" "c \<noteq> 37" by blast
  then show ?case
  proof cases
    case 1
    then show ?thesis using i by (intro exI[of _ "[]"] ext) (simp add: kprintf_loop.simps)
  next
    case 2
    then obtain d ds w rest where a: "cs = d # ds" "args = Word w # rest" "d \<in> {100, 117, 112, 120}" "fmt_args ds rest"
      using fmt by (auto split: list.splits karg.splits)
    then have j: "Suc i < length fmt" "fmt ! Suc i = d" "drop (i + 2) fmt = ds"
      using i(3) by (metis drop_all leI list.distinct(1), metis i(3) nth_via_drop, metis add_2_eq_Suc' drop_Suc i(3) list.sel(3) tl_drop)
    obtain xs where xs: "\<forall>s :: 'a console_scheme. kprint_conv dev d (Word w # rest) s = do { s1 \<leftarrow> print_chars dev xs s; Some (rest, s1) }"
      using kprint_conv_some[OF a(3)] by blast
    have shorter: "length fmt - (i + 2) < length fmt - i" using i(1) by linarith
    obtain ys where ys: "kprintf_loop dev fmt (i + 2) rest = (print_chars dev ys :: 'a console_scheme \<Rightarrow> _)"
      using less.hyps[OF shorter] a(4) j(3) by metis
    have "kprintf_loop dev fmt i args s = print_chars dev (xs @ ys) s" for s :: "'a console_scheme"
      using i j(1,2) 2 a(2) xs ys by (subst kprintf_loop.simps) (cases "print_chars dev xs s"; simp add: print_chars_append)
    then show ?thesis by blast
  next
    case 3
    have shorter: "length fmt - Suc i < length fmt - i" using i(1) by linarith
    obtain ys where ys: "kprintf_loop dev fmt (Suc i) args = (print_chars dev ys :: 'a console_scheme \<Rightarrow> _)"
      using less.hyps[OF shorter, of args] fmt i(3) 3 by auto
    have "kprintf_loop dev fmt i args s = print_chars dev (c # ys) s" for s :: "'a console_scheme"
      using i 3 ys by (subst kprintf_loop.simps) simp
    then show ?thesis by blast
  qed
qed

end
