(* ===== verification/Acpi.thy ===== *)
theory Acpi
  imports Interrupts CString Buffer Layout
begin

text \<open>
  \<open>src/src/arch/i386/interrupts/acpi.c\<close>: finding the ACPI tables, checking them, and reading the processors,
  I/O APICs and interrupt overrides out of them. Tables are bytes in \<open>amem\<close>, the memory the kernel sees; mapping a
  table (\<open>vasa_alloc\<close>, \<open>paging_map\<close>, arguments) may change what it sees. A root table may list root tables:
  \<open>acpi_parse_table\<close> and \<open>acpi_parse_rsdt\<close> call each other without bound, as in the source, and a table that leads
  back to itself is parsed for ever (the value \<open>None\<close>).
\<close>

record acpi = apic +
  amem :: mem
  cpu_count :: u32
  acpi_irq_redir :: "u32 list"

definition rd32 :: "mem \<Rightarrow> u32 \<Rightarrow> u32 option" where
  "rd32 m p = do { a \<leftarrow> m p; b \<leftarrow> m (p + 1); c \<leftarrow> m (p + 2); d \<leftarrow> m (p + 3); Some (of_le32 [a, b, c, d]) }"

definition ACPI_SIGNATURE_RSDP1 :: u32 where "ACPI_SIGNATURE_RSDP1 = 0x20445352"
definition ACPI_SIGNATURE_RSDP2 :: u32 where "ACPI_SIGNATURE_RSDP2 = 0x20525450"
definition ACPI_SIGNATURE_RSDT :: u32 where "ACPI_SIGNATURE_RSDT = 0x54445352"
definition ACPI_SIGNATURE_FADP :: u32 where "ACPI_SIGNATURE_FADP = 0x46414350"
definition ACPI_SIGNATURE_APIC :: u32 where "ACPI_SIGNATURE_APIC = 0x41504943"

text \<open>The sizes of \<open>acpi_sdt_t\<close>, \<open>acpi_madt_t\<close> and \<open>rsdp_desc_t\<close>, and where their fields are.\<close>
definition sizeof_sdt :: u32 where "sizeof_sdt = sizeof acpi_sdt_layout"
definition sizeof_madt :: u32 where "sizeof_madt = sizeof acpi_madt_layout"
definition sizeof_rsdp :: u32 where "sizeof_rsdp = sizeof rsdp_desc_layout"

text \<open>The loop runs from 0xC00E0000 to 0xC00FFFFF in steps of 16.\<close>
fun rsdp_scan :: "mem \<Rightarrow> u32 \<Rightarrow> nat \<Rightarrow> u32 option" where
  "rsdp_scan m i 0 = Some NULL"
| "rsdp_scan m i (Suc n) = do {
     sig1 \<leftarrow> rd32 m i;
     hit \<leftarrow> (if sig1 = ACPI_SIGNATURE_RSDP1 then do { sig2 \<leftarrow> rd32 m (i + 4); Some (sig2 = ACPI_SIGNATURE_RSDP2) } else Some False);
     if hit then Some i else rsdp_scan m (i + 16) n }"

definition rsdp_locate :: "'a acpi_scheme \<Rightarrow> u32 option" where
  "rsdp_locate s = rsdp_scan (amem s) 0xC00E0000 0x2000"

definition acpi_map_ptr :: "(u32 \<Rightarrow> u32 \<Rightarrow> 'a acpi_scheme \<Rightarrow> (u32 \<times> 'a acpi_scheme) option)
    \<Rightarrow> (u32 \<Rightarrow> u32 \<Rightarrow> u16 \<Rightarrow> 'a acpi_scheme \<Rightarrow> (bool \<times> 'a acpi_scheme) option) \<Rightarrow> u32 \<Rightarrow> u32 \<Rightarrow> 'a acpi_scheme \<Rightarrow> (u32 \<times> 'a acpi_scheme) option" where
  "acpi_map_ptr vasa_alloc paging_map phys len s = do {
     (virt, s1) \<leftarrow> vasa_alloc 4096 0 s;
     if virt = NULL then Some (NULL, s1)
     else do {
       (ok, s2) \<leftarrow> paging_map phys virt 3 s1;
       if \<not> ok then Some (NULL, s2) else Some (virt + (phys AND 0xFFF), s2) } }"

text \<open>The index of the loop is an \<open>int\<close> compared with an \<open>unsigned long\<close>. C leaves its overflow at \<open>2 ^ 31\<close> undefined; here
  it wraps, as it does in the registers of the i386, where \<open>bytes + i\<close> is the same address either way.\<close>
fun validate_loop :: "mem \<Rightarrow> u32 \<Rightarrow> nat \<Rightarrow> u32 \<Rightarrow> u32 option" where
  "validate_loop m p 0 validate = Some validate"
| "validate_loop m p (Suc n) validate = do { b \<leftarrow> m p; validate_loop m (p + 1) n (validate + ucast b) }"

definition acpi_validate :: "mem \<Rightarrow> u32 \<Rightarrow> u32 \<Rightarrow> bool option" where
  "acpi_validate m ptr len = do { v \<leftarrow> validate_loop m ptr (unat len) 0; Some (v AND 0xFF = 0) }"

text \<open>One record of the table: where the next one starts, or \<open>None\<close> when the parser stops. A record of length 0
  stops it, as do the types 8 to 10; an unknown type is stepped over byte by byte.\<close>
definition madt_record :: "device \<Rightarrow> (u32 \<Rightarrow> u32 \<Rightarrow> 'a acpi_scheme \<Rightarrow> (u32 \<times> 'a acpi_scheme) option)
    \<Rightarrow> (u32 \<Rightarrow> u32 \<Rightarrow> u16 \<Rightarrow> 'a acpi_scheme \<Rightarrow> (bool \<times> 'a acpi_scheme) option) \<Rightarrow> u32 \<Rightarrow> 'a acpi_scheme
    \<Rightarrow> (u32 option \<times> 'a acpi_scheme) option" where
  "madt_record dev vasa_alloc paging_map head s = do {
     ty \<leftarrow> amem s head;
     if ty \<le> 7 then do {
       len \<leftarrow> amem s (head + 1);
       if len = 0 then Some (None, s)
       else do {
         s1 \<leftarrow> (if ty = 0 then Some (s\<lparr>cpu_count := cpu_count s + 1\<rparr>)
           else if ty = 1 then do { address \<leftarrow> rd32 (amem s) (head + offsetof acpi_madt_ioapic_layout ''address''); ioapic_setup dev vasa_alloc paging_map address s }
           else if ty = 2 then do {
             irq_src \<leftarrow> amem s (head + offsetof acpi_madt_iso_layout ''irq_src'');
             interrupt \<leftarrow> rd32 (amem s) (head + offsetof acpi_madt_iso_layout ''interrupt'');
             r \<leftarrow> aset (acpi_irq_redir s) (unat irq_src) interrupt;
             Some (s\<lparr>acpi_irq_redir := r\<rparr>) }
           else if ty = 7 then do {
             let p = head + 12 + 4;
             m1 \<leftarrow> mset (amem s) p (le32 p ! 0);
             m2 \<leftarrow> mset m1 (p + 1) (le32 p ! 1);
             m3 \<leftarrow> mset m2 (p + 2) (le32 p ! 2);
             m4 \<leftarrow> mset m3 (p + 3) (le32 p ! 3);
             Some (s\<lparr>amem := m4\<rparr>) }
           else Some s);
         len1 \<leftarrow> amem s1 (head + 1);
         Some (Some (head + ucast len1), s1) } }
     else if ty \<le> 10 then Some (None, s)
     else Some (Some (head + 1), s) }"

partial_function (option) madt_loop :: "device \<Rightarrow> (u32 \<Rightarrow> u32 \<Rightarrow> 'a acpi_scheme \<Rightarrow> (u32 \<times> 'a acpi_scheme) option)
    \<Rightarrow> (u32 \<Rightarrow> u32 \<Rightarrow> u16 \<Rightarrow> 'a acpi_scheme \<Rightarrow> (bool \<times> 'a acpi_scheme) option) \<Rightarrow> u32 \<Rightarrow> u32 \<Rightarrow> 'a acpi_scheme
    \<Rightarrow> 'a acpi_scheme option" where
  "madt_loop dev vasa_alloc paging_map head records_end s =
     (if head < records_end then do {
        (nxt, s1) \<leftarrow> madt_record dev vasa_alloc paging_map head s;
        case nxt of None \<Rightarrow> Some s1 | Some h \<Rightarrow> madt_loop dev vasa_alloc paging_map h records_end s1 }
      else Some s)"

definition acpi_parse_madt :: "device \<Rightarrow> (u32 \<Rightarrow> u32 \<Rightarrow> 'a acpi_scheme \<Rightarrow> (u32 \<times> 'a acpi_scheme) option)
    \<Rightarrow> (u32 \<Rightarrow> u32 \<Rightarrow> u16 \<Rightarrow> 'a acpi_scheme \<Rightarrow> (bool \<times> 'a acpi_scheme) option) \<Rightarrow> u32 \<Rightarrow> 'a acpi_scheme
    \<Rightarrow> 'a acpi_scheme option" where
  "acpi_parse_madt dev vasa_alloc paging_map madt s = do {
     len \<leftarrow> rd32 (amem s) (madt + offsetof acpi_sdt_layout ''length'');
     let start = madt + sizeof_madt;
     madt_loop dev vasa_alloc paging_map start (start + (len - sizeof_madt)) (s\<lparr>cpu_count := 0\<rparr>) }"

partial_function (option) acpi_wait :: "device \<Rightarrow> u16 \<Rightarrow> 'a acpi_scheme \<Rightarrow> 'a acpi_scheme option" where
  "acpi_wait dev port s = (let (v, s1) = inportw dev port s in if v AND 1 = 0 then acpi_wait dev port s1 else Some s1)"

definition acpi_parse_fadt :: "device \<Rightarrow> u32 \<Rightarrow> 'a acpi_scheme \<Rightarrow> 'a acpi_scheme option" where
  "acpi_parse_fadt dev fadt s = do {
     smi_cmd_port \<leftarrow> rd32 (amem s) (fadt + offsetof acpi_fadt_layout ''smi_cmd_port'');
     acpi_enable \<leftarrow> amem s (fadt + offsetof acpi_fadt_layout ''acpi_enable'');
     acpi_disable \<leftarrow> amem s (fadt + offsetof acpi_fadt_layout ''acpi_disable'');
     if smi_cmd_port = 0 \<or> (acpi_enable = 0 \<and> acpi_disable = 0) then Some s
     else do {
       pm1a_ctrl_block \<leftarrow> rd32 (amem s) (fadt + offsetof acpi_fadt_layout ''pm1a_ctrl_block'');
       let (res, s1) = inportw dev (ucast pm1a_ctrl_block) s;
       if res AND 1 = 0 then acpi_wait dev (ucast pm1a_ctrl_block) (outportb (ucast smi_cmd_port) acpi_enable s1)
       else Some s1 } }"

partial_function (option) rsdt_loop :: "(u32 \<Rightarrow> u32 \<Rightarrow> 'a acpi_scheme \<Rightarrow> (u32 \<times> 'a acpi_scheme) option)
    \<Rightarrow> (u32 \<Rightarrow> u32 \<Rightarrow> u16 \<Rightarrow> 'a acpi_scheme \<Rightarrow> (bool \<times> 'a acpi_scheme) option)
    \<Rightarrow> (u32 \<Rightarrow> 'a acpi_scheme \<Rightarrow> 'a acpi_scheme option) \<Rightarrow> u32 \<Rightarrow> u32 \<Rightarrow> 'a acpi_scheme \<Rightarrow> 'a acpi_scheme option" where
  "rsdt_loop vasa_alloc paging_map parse_table ptr ptrs_end s =
     (if ptr < ptrs_end then do {
        phys_sdt \<leftarrow> rd32 (amem s) ptr;
        (sdt, s1) \<leftarrow> acpi_map_ptr vasa_alloc paging_map phys_sdt sizeof_sdt s;
        s2 \<leftarrow> (if sdt = NULL then Some s1 else parse_table sdt s1);
        rsdt_loop vasa_alloc paging_map parse_table (ptr + 4) ptrs_end s2 }
      else Some s)"

definition acpi_parse_rsdt :: "(u32 \<Rightarrow> u32 \<Rightarrow> 'a acpi_scheme \<Rightarrow> (u32 \<times> 'a acpi_scheme) option)
    \<Rightarrow> (u32 \<Rightarrow> u32 \<Rightarrow> u16 \<Rightarrow> 'a acpi_scheme \<Rightarrow> (bool \<times> 'a acpi_scheme) option)
    \<Rightarrow> (u32 \<Rightarrow> 'a acpi_scheme \<Rightarrow> 'a acpi_scheme option) \<Rightarrow> u32 \<Rightarrow> 'a acpi_scheme \<Rightarrow> (bool \<times> 'a acpi_scheme) option" where
  "acpi_parse_rsdt vasa_alloc paging_map parse_table rsdt s = do {
     len \<leftarrow> rd32 (amem s) (rsdt + offsetof acpi_sdt_layout ''length'');
     valid \<leftarrow> acpi_validate (amem s) rsdt len;
     if \<not> valid then Some (False, s)
     else do {
       let start = rsdt + sizeof_sdt;
       s1 \<leftarrow> rsdt_loop vasa_alloc paging_map parse_table start (start + (len - sizeof_sdt)) s;
       Some (True, s1) } }"

text \<open>A call that the tables do not make has no influence on the parser of a root table, so the two may call each other.\<close>
lemma rsdt_loop_more:
  assumes "rsdt_loop va pm parse ptr e s = Some s'" and "\<And>p s s'. parse p s = Some s' \<Longrightarrow> parse' p s = Some s'"
  shows "rsdt_loop va pm parse' ptr e s = Some s'"
proof -
  let ?P = "\<lambda>va pm parse ptr e s s'. (\<forall>p s s'. parse p s = Some s' \<longrightarrow> parse' p s = Some s') \<longrightarrow> rsdt_loop va pm parse' ptr e s = Some s'"
  have "?P va pm parse ptr e s s'"
  proof (rule rsdt_loop.raw_induct[where P = ?P, OF _ assms(1)], intro impI)
    fix loop va pm parse ptr e s s'
    assume IH: "\<And>va pm parse ptr e s s'. loop va pm parse ptr e s = Some s' \<Longrightarrow> ?P va pm parse ptr e s s'"
      and more: "\<forall>p s s'. parse p s = Some s' \<longrightarrow> parse' p s = Some s'"
      and body: "(if ptr < e then do {
          phys_sdt \<leftarrow> rd32 (amem s) ptr;
          (sdt, s1) \<leftarrow> acpi_map_ptr va pm phys_sdt sizeof_sdt s;
          s2 \<leftarrow> (if sdt = NULL then Some s1 else parse sdt s1);
          loop va pm parse (ptr + 4) e s2 }
        else Some s) = Some s'"
    show "rsdt_loop va pm parse' ptr e s = Some s'"
    proof (cases "ptr < e")
      case True
      with body obtain phys sdt s1 s2 where b: "rd32 (amem s) ptr = Some phys" "acpi_map_ptr va pm phys sizeof_sdt s = Some (sdt, s1)"
          "(if sdt = NULL then Some s1 else parse sdt s1) = Some s2" "loop va pm parse (ptr + 4) e s2 = Some s'"
        by (auto split: bind_splits)
      have "(if sdt = NULL then Some s1 else parse' sdt s1) = Some s2" using b(3) more by (auto split: if_splits)
      moreover have "rsdt_loop va pm parse' (ptr + 4) e s2 = Some s'" using IH[OF b(4)] more by blast
      ultimately show ?thesis using True b(1,2) by (subst rsdt_loop.simps) simp
    next
      case False
      then show ?thesis using body by (subst rsdt_loop.simps) simp
    qed
  qed
  with assms(2) show ?thesis by blast
qed

lemma acpi_parse_rsdt_more:
  assumes "acpi_parse_rsdt va pm parse rsdt s = Some r" and "\<And>p s s'. parse p s = Some s' \<Longrightarrow> parse' p s = Some s'"
  shows "acpi_parse_rsdt va pm parse' rsdt s = Some r"
proof -
  have L: "rsdt_loop va pm parse p e s = Some s' \<Longrightarrow> rsdt_loop va pm parse' p e s = Some s'" for p e s s'
    by (rule rsdt_loop_more[OF _ assms(2)])
  from assms(1) show ?thesis by (auto simp: acpi_parse_rsdt_def Let_def split: bind_splits if_splits dest: L)
qed

lemma acpi_parse_rsdt_mono [partial_function_mono]:
  assumes "\<And>p s. mono_option (\<lambda>f. B f p s)"
  shows "mono_option (\<lambda>f. acpi_parse_rsdt va pm (B f) rsdt s)"
proof (rule monotoneI)
  fix f g :: "'b \<Rightarrow> 'c option" assume "option.le_fun f g"
  then have B: "option_ord (B f p s) (B g p s)" for p s using assms by (blast dest: monotoneD)
  have "B g p s = Some s'" if "B f p s = Some s'" for p s s' using B[of p s] that by (auto simp: flat_ord_def)
  then have "acpi_parse_rsdt va pm (B g) rsdt s = Some r" if "acpi_parse_rsdt va pm (B f) rsdt s = Some r" for r
    using that by (blast intro: acpi_parse_rsdt_more)
  then show "option_ord (acpi_parse_rsdt va pm (B f) rsdt s) (acpi_parse_rsdt va pm (B g) rsdt s)"
    by (cases "acpi_parse_rsdt va pm (B f) rsdt s") (auto simp: flat_ord_def)
qed

text \<open>The signature is read from the first byte down. \<open>HPET\<close> and unknown tables only print a message.\<close>
partial_function (option) acpi_parse_table :: "device \<Rightarrow> (u32 \<Rightarrow> u32 \<Rightarrow> 'a acpi_scheme \<Rightarrow> (u32 \<times> 'a acpi_scheme) option)
    \<Rightarrow> (u32 \<Rightarrow> u32 \<Rightarrow> u16 \<Rightarrow> 'a acpi_scheme \<Rightarrow> (bool \<times> 'a acpi_scheme) option)
    \<Rightarrow> u32 \<Rightarrow> 'a acpi_scheme \<Rightarrow> 'a acpi_scheme option" where
  "acpi_parse_table dev vasa_alloc paging_map ptr s = do {
     a \<leftarrow> amem s ptr; b \<leftarrow> amem s (ptr + 1); c \<leftarrow> amem s (ptr + 2); d \<leftarrow> amem s (ptr + 3);
     let name = (push_bit 24 (ucast a) OR push_bit 16 (ucast b) OR push_bit 8 (ucast c) OR ucast d :: u32);
     if name = ACPI_SIGNATURE_RSDT then do {
       (_, s1) \<leftarrow> acpi_parse_rsdt vasa_alloc paging_map (\<lambda>p s. acpi_parse_table dev vasa_alloc paging_map p s) ptr s;
       Some s1 }
     else if name = ACPI_SIGNATURE_FADP then acpi_parse_fadt dev ptr s
     else if name = ACPI_SIGNATURE_APIC then acpi_parse_madt dev vasa_alloc paging_map ptr s
     else Some s }"

definition acpi_irq_remap :: "u32 \<Rightarrow> 'a acpi_scheme \<Rightarrow> u32 option" where
  "acpi_irq_remap irq s = do {
     r \<leftarrow> aget (acpi_irq_redir s) (unat irq);
     Some (if r \<noteq> 0xFFFFFFFF then r else irq) }"

definition acpi_init :: "device \<Rightarrow> (u32 \<Rightarrow> u32 \<Rightarrow> 'a acpi_scheme \<Rightarrow> (u32 \<times> 'a acpi_scheme) option)
    \<Rightarrow> (u32 \<Rightarrow> u32 \<Rightarrow> u16 \<Rightarrow> 'a acpi_scheme \<Rightarrow> (bool \<times> 'a acpi_scheme) option) \<Rightarrow> 'a acpi_scheme
    \<Rightarrow> (bool \<times> 'a acpi_scheme) option" where
  "acpi_init dev vasa_alloc paging_map s = do {
     rsdp \<leftarrow> rsdp_locate s;
     if rsdp = NULL then Some (False, s)
     else do {
       valid \<leftarrow> acpi_validate (amem s) rsdp sizeof_rsdp;
       if \<not> valid then Some (False, s)
       else do {
         phys \<leftarrow> rd32 (amem s) (rsdp + offsetof rsdp_desc_layout ''rsdt'');
         (rsdt, s1) \<leftarrow> acpi_map_ptr vasa_alloc paging_map phys (sizeof_sdt + 4) s;
         if rsdt = NULL then Some (False, s1)
         else do {
           (_, s2) \<leftarrow> acpi_parse_rsdt vasa_alloc paging_map (acpi_parse_table dev vasa_alloc paging_map) rsdt s1;
           Some (True, s2) } } } }"

subsection \<open>The checksum\<close>

lemma validate_loop_sum:
  assumes "bytes_at m p bs"
  shows "\<exists>w. validate_loop m p (length bs) v = Some w \<and> unat w mod 256 = (unat v + sum_list (map unat bs)) mod 256"
  using assms
proof (induction bs arbitrary: p v)
  case (Cons b bs)
  then obtain w where w: "validate_loop m (p + 1) (length bs) (v + ucast b) = Some w"
      "unat w mod 256 = (unat (v + ucast b) + sum_list (map unat bs)) mod 256" by force
  have "unat (v + ucast b) mod 256 = (unat v + unat b) mod 256"
    by (simp add: unat_word_ariths mod_mod_cancel)
  then have "unat w mod 256 = (unat v + unat b + sum_list (map unat bs)) mod 256"
    using w(2) by (metis mod_add_left_eq)
  then show ?case using w(1) Cons.prems by (simp add: add.assoc)
qed simp

lemma unat_low_byte: "(w :: u32) AND 0xFF = 0 \<longleftrightarrow> unat w mod 256 = 0"
proof -
  have "w AND 0xFF = take_bit 8 w" by (simp add: take_bit_eq_mask mask_eq_exp_minus_1)
  then have "unat (w AND 0xFF) = unat w mod 256" by (simp add: take_bit_eq_mod unat_mod)
  then show ?thesis by (metis unat_eq_zero)
qed

lemma acpi_validate_sum:
  assumes "bytes_at m p bs" and "length bs < 4294967296"
  shows "acpi_validate m p (of_nat (length bs)) = Some (sum_list (map unat bs) mod 256 = 0)"
  using validate_loop_sum[OF assms(1), of 0] unat_of_nat32[OF assms(2)]
  by (auto simp: acpi_validate_def unat_low_byte)

text \<open>C39: \<open>acpi_validate\<close> accepts exactly the tables whose bytes add up to 0 modulo 256, and so rejects every table that
  differs from an accepted one in one byte.\<close>
theorem acpi_validate_detects:
  assumes "bytes_at m p (us @ b # vs)" and "bytes_at m' p (us @ c # vs)" and "b \<noteq> c" and "length (us @ b # vs) < 4294967296"
  shows "\<exists>valid valid'. acpi_validate m p (of_nat (length (us @ b # vs))) = Some valid
    \<and> acpi_validate m' p (of_nat (length (us @ b # vs))) = Some valid'
    \<and> (valid \<longleftrightarrow> sum_list (map unat (us @ b # vs)) mod 256 = 0) \<and> \<not> (valid \<and> valid')"
proof -
  have l: "length (us @ c # vs) < 4294967296" "length (us @ b # vs) = length (us @ c # vs)" using assms(4) by simp_all
  let ?r = "sum_list (map unat us) + sum_list (map unat vs)"
  have "\<not> ((?r + unat b) mod 256 = 0 \<and> (?r + unat c) mod 256 = 0)"
  proof
    assume "(?r + unat b) mod 256 = 0 \<and> (?r + unat c) mod 256 = 0"
    then have "(?r + unat b) mod 256 = (?r + unat c) mod 256" by simp
    then have "unat b mod 256 = unat c mod 256" by (simp add: nat_mod_eq_iff)
    moreover have "unat b < 256" "unat c < 256" using unsigned_less[of b] unsigned_less[of c] by simp_all
    ultimately show False using assms(3) by (simp add: word_unat_eq_iff)
  qed
  moreover have "sum_list (map unat (us @ b # vs)) = ?r + unat b" "sum_list (map unat (us @ c # vs)) = ?r + unat c"
    by simp_all
  ultimately have "\<not> (sum_list (map unat (us @ b # vs)) mod 256 = 0 \<and> sum_list (map unat (us @ c # vs)) mod 256 = 0)"
    by (simp only: simp_thms)
  then show ?thesis
    using acpi_validate_sum[OF assms(1,4)] acpi_validate_sum[OF assms(2) l(1)] unfolding l(2) by blast
qed

theorem acpi_validate_detects_witness:
  "\<exists>valid valid'. acpi_validate [8 \<mapsto> 250, 9 \<mapsto> 6] 8 (of_nat (length ([] @ 250 # [6 :: u8]))) = Some valid
    \<and> acpi_validate [8 \<mapsto> 251, 9 \<mapsto> 6] 8 (of_nat (length ([] @ 250 # [6 :: u8]))) = Some valid'
    \<and> (valid \<longleftrightarrow> sum_list (map unat ([] @ 250 # [6 :: u8])) mod 256 = 0) \<and> \<not> (valid \<and> valid')"
  by (rule acpi_validate_detects[of _ _ _ _ _ _ 251]) simp_all

subsection \<open>The records of the MADT\<close>

type_synonym madt_rec = "u8 \<times> u8 list"

definition rec_bytes :: "madt_rec \<Rightarrow> u8 list" where
  "rec_bytes r = fst r # of_nat (length (snd r) + 2) # snd r"

text \<open>A record the parser handles as a whole: type 0 to 6, and long enough for the fields that are read.\<close>
definition rec_ok :: "madt_rec \<Rightarrow> bool" where
  "rec_ok r \<longleftrightarrow> fst r \<le> 6 \<and> length (snd r) \<le> 253 \<and> (fst r = 1 \<or> fst r = 2 \<longrightarrow> 6 \<le> length (snd r))"

text \<open>What each record means.\<close>
definition rec_effect :: "(u32 \<Rightarrow> 'a acpi_scheme \<Rightarrow> 'a acpi_scheme option) \<Rightarrow> madt_rec \<Rightarrow> 'a acpi_scheme \<Rightarrow> 'a acpi_scheme option" where
  "rec_effect setup r s =
     (if fst r = 0 then Some (s\<lparr>cpu_count := cpu_count s + 1\<rparr>)
      else if fst r = 1 then setup (of_le32 (take 4 (drop 2 (snd r)))) s
      else if fst r = 2 then do { l \<leftarrow> aset (acpi_irq_redir s) (unat (snd r ! 1)) (of_le32 (take 4 (drop 2 (snd r)))); Some (s\<lparr>acpi_irq_redir := l\<rparr>) }
      else Some s)"

fun rec_effects :: "(u32 \<Rightarrow> 'a acpi_scheme \<Rightarrow> 'a acpi_scheme option) \<Rightarrow> madt_rec list \<Rightarrow> 'a acpi_scheme \<Rightarrow> 'a acpi_scheme option" where
  "rec_effects setup [] s = Some s"
| "rec_effects setup (r # rs) s = do { s1 \<leftarrow> rec_effect setup r s; rec_effects setup rs s1 }"

text \<open>What ends the parse before the end of the table: the first byte of a record of type 8, 9 or 10, or a record of
  length 0.\<close>
definition madt_stop :: "u8 list \<Rightarrow> bool" where
  "madt_stop bs \<longleftrightarrow> (case bs of [] \<Rightarrow> True
     | ty # bs' \<Rightarrow> 8 \<le> ty \<and> ty \<le> 10 \<or> ty \<le> 7 \<and> (case bs' of [] \<Rightarrow> False | len # _ \<Rightarrow> len = 0))"

lemma madt_record_stop:
  assumes "bytes_at (amem s) head bs" and "madt_stop bs" and "bs \<noteq> []"
  shows "madt_record dev va pm head s = Some (None, s)"
proof -
  have "\<not> 8 \<le> ty" if "ty \<le> 7" for ty :: u8 using that by (simp add: word_le_nat_alt)
  with assms show ?thesis by (auto simp: madt_stop_def madt_record_def split: list.splits)
qed

lemma bytes_at_nth: "bytes_at m p bs \<Longrightarrow> i < length bs \<Longrightarrow> m (p + of_nat i) = Some (bs ! i)"
proof (induction bs arbitrary: p i)
  case (Cons b bs)
  show ?case
  proof (cases i)
    case (Suc k)
    then show ?thesis using Cons.IH[of "p + 1" k] Cons.prems by (simp add: add.assoc)
  qed (use Cons.prems in simp)
qed simp

lemma rd32_bytes:
  assumes "bytes_at m p bs" and "i + 4 \<le> length bs"
  shows "rd32 m (p + of_nat i) = Some (of_le32 (take 4 (drop i bs)))"
proof -
  have t: "take 4 (drop i bs) = [bs ! i, bs ! (i + 1), bs ! (i + 2), bs ! (i + 3)]"
    using assms(2) by (intro nth_equalityI) (auto simp: less_Suc_eq numeral_eq_Suc nth_Cons split: nat.splits)
  have "m (p + of_nat i + of_nat k) = Some (bs ! (i + k))" if "k < 4" for k
    using bytes_at_nth[OF assms(1), of "i + k"] assms(2) that by (simp add: add.assoc)
  from this[of 0] this[of 1] this[of 2] this[of 3] show ?thesis
    unfolding t by (simp add: rd32_def add.assoc)
qed

lemma rec_len:
  assumes "length body \<le> 253"
  shows "unat (of_nat (length body + 2) :: u8) = length body + 2"
proof -
  have "unat (of_nat (length body + 2) :: u8) = take_bit 8 (length body + 2)" by (simp only: unat_of_nat) (simp add: take_bit_eq_mod)
  then show ?thesis using assms by (simp add: take_bit_nat_eq_self_iff)
qed

lemma madt_record_effect:
  assumes "bytes_at (amem s) head (rec_bytes r)" and "rec_ok r"
    and keep: "\<And>a s'. ioapic_setup dev va pm a s = Some s' \<Longrightarrow> amem s' (head + 1) = amem s (head + 1)"
  shows "madt_record dev va pm head s =
    do { s1 \<leftarrow> rec_effect (ioapic_setup dev va pm) r s; Some (Some (head + of_nat (length (rec_bytes r))), s1) }"
proof -
  obtain ty body where r: "r = (ty, body)" by (cases r)
  have ok: "ty \<le> 6" "length body \<le> 253" "ty = 1 \<or> ty = 2 \<Longrightarrow> 6 \<le> length body" using assms(2) by (auto simp: rec_ok_def r)
  let ?l = "of_nat (length body + 2) :: u8"
  note b = assms(1)[unfolded r rec_bytes_def fst_conv snd_conv]
  have m: "amem s head = Some ty" "amem s (head + 1) = Some ?l" using b by simp_all
  have l0: "?l \<noteq> 0" using rec_len[OF ok(2)] by (metis add_is_0 unat_0 zero_neq_numeral)
  have "unat (ucast ?l :: u32) = length body + 2" using rec_len[OF ok(2)] by simp
  moreover have "unat (of_nat (length body + 2) :: u32) = length body + 2" using ok(2) by (intro unat_of_nat32) simp
  ultimately have lu: "(ucast ?l :: u32) = of_nat (length (rec_bytes r))" by (simp add: word_unat_eq_iff rec_bytes_def r)
  have t7: "ty \<le> 7" "ty \<noteq> 7" using ok(1) by (auto intro: order_trans)
  have a: "rd32 (amem s) (head + 4) = Some (of_le32 (take 4 (drop 2 body)))" "amem s (head + 3) = Some (body ! 1)"
    if "ty = 1 \<or> ty = 2"
    using rd32_bytes[OF b, of 4] bytes_at_nth[OF b, of 3] ok(3)[OF that] by simp_all
  have ln: "amem s1 (head + 1) = Some ?l" if "rec_effect (ioapic_setup dev va pm) r s = Some s1" for s1
    using that m(2) keep by (auto simp: rec_effect_def split: if_splits Option.bind_splits)
  consider "ty = 0" | "ty = 1" | "ty = 2" | "ty \<noteq> 0" "ty \<noteq> 1" "ty \<noteq> 2" by blast
  then show ?thesis
  proof cases
    case 2
    show ?thesis
    proof (cases "ioapic_setup dev va pm (of_le32 (take 4 (drop 2 body))) s")
      case (Some s1)
      then show ?thesis using 2 m l0 a ln[of s1] lu unfolding madt_record_def by (simp add: r rec_effect_def del: of_nat_add)
    qed (use 2 m l0 a in \<open>simp add: madt_record_def r rec_effect_def del: of_nat_add\<close>)
  next
    case 3
    then show ?thesis using m l0 a lu unfolding madt_record_def by (cases "aset (acpi_irq_redir s) (unat (body ! 1)) (of_le32 (take 4 (drop 2 body)))") (simp_all add: r rec_effect_def del: of_nat_add)
  qed (use m l0 lu t7 in \<open>simp_all add: madt_record_def r rec_effect_def del: of_nat_add\<close>)
qed

lemma rec_length: "rec_ok r \<Longrightarrow> 2 \<le> length (rec_bytes r) \<and> length (rec_bytes r) \<le> 255"
  by (simp add: rec_ok_def rec_bytes_def)

definition setup_keeps :: "(u32 \<Rightarrow> 'a acpi_scheme \<Rightarrow> 'a acpi_scheme option) \<Rightarrow> u32 set \<Rightarrow> bool" where
  "setup_keeps setup A \<longleftrightarrow> (\<forall>a s s' q. setup a s = Some s' \<longrightarrow> q \<in> A \<longrightarrow> amem s' q = amem s q)"

lemma rec_effect_keeps:
  assumes "setup_keeps setup A" and "rec_effect setup r s = Some s1" and "q \<in> A"
  shows "amem s1 q = amem s q"
  using assms unfolding setup_keeps_def by (auto simp: rec_effect_def split: if_splits Option.bind_splits)

lemma madt_loop_effects:
  assumes "bytes_at (amem s) head (concat (map rec_bytes rs) @ tail)" and "\<forall>r\<in>set rs. rec_ok r" and "madt_stop tail"
    and "unat head + (length (concat (map rec_bytes rs)) + length tail) < 4294967296"
    and "records_end = head + of_nat (length (concat (map rec_bytes rs)) + length tail)"
    and "setup_keeps (ioapic_setup dev va pm) (span head (length (concat (map rec_bytes rs)) + length tail))"
  shows "madt_loop dev va pm head records_end s = rec_effects (ioapic_setup dev va pm) rs s"
  using assms
proof (induction rs arbitrary: head s)
  case Nil
  show ?case
  proof (cases "tail = []")
    case False
    have "unat records_end = unat head + length tail"
      using Nil.prems(4,5) by (simp add: unat_plus_nowrap unat_of_nat32)
    then have "head < records_end" using False by (simp add: word_less_nat_alt)
    then show ?thesis using madt_record_stop[of s head tail dev va pm] Nil.prems(1,3) False by (simp add: madt_loop.simps)
  qed (use Nil.prems in \<open>simp add: madt_loop.simps\<close>)
next
  case (Cons r rs)
  let ?n = "length (rec_bytes r)" and ?m = "length (concat (map rec_bytes rs)) + length tail"
  have ok: "rec_ok r" and n: "2 \<le> ?n" using Cons.prems(2) rec_length[of r] by auto
  have len: "length (concat (map rec_bytes (r # rs))) + length tail = ?n + ?m" by simp
  note le = Cons.prems(4)[unfolded len]
  have un: "unat (of_nat ?n :: u32) = ?n" "unat (of_nat (?n + ?m) :: u32) = ?n + ?m" using le by (auto intro!: unat_of_nat32 simp del: of_nat_add)
  have uh: "unat (head + of_nat ?n) = unat head + ?n" using un(1) le by (simp add: unat_plus_nowrap)
  have ur: "unat records_end = unat head + (?n + ?m)"
    unfolding Cons.prems(5) len using un(2) le by (subst unat_plus_nowrap) (simp_all del: of_nat_add)
  have lt: "head < records_end" using ur n unfolding word_less_nat_alt by linarith
  have b: "bytes_at (amem s) head (rec_bytes r)" "bytes_at (amem s) (head + of_nat ?n) (concat (map rec_bytes rs) @ tail)"
    using Cons.prems(1) by (simp_all add: bytes_at_append)
  have sp: "q \<in> span head (?n + ?m) \<longleftrightarrow> q \<in> span head ?n \<or> q \<in> span (head + of_nat ?n) ?m" for q
  proof
    assume "q \<in> span head (?n + ?m)"
    then obtain i where i: "i < ?n + ?m" "q = head + of_nat i" by (auto simp: span_def)
    show "q \<in> span head ?n \<or> q \<in> span (head + of_nat ?n) ?m"
    proof (cases "i < ?n")
      case False
      then have "i = ?n + (i - ?n)" by simp
      then have "q = head + of_nat ?n + of_nat (i - ?n)" using i(2) by (metis add.assoc of_nat_add)
      then show ?thesis using i(1) False unfolding span_def by (intro disjI2 image_eqI[of _ _ "i - ?n"]) auto
    qed (use i in \<open>auto simp: span_def\<close>)
  next
    assume "q \<in> span head ?n \<or> q \<in> span (head + of_nat ?n) ?m"
    then show "q \<in> span head (?n + ?m)"
    proof
      assume "q \<in> span (head + of_nat ?n) ?m"
      then obtain i where "i < ?m" "q = head + of_nat (?n + i)" by (auto simp: span_def add.assoc)
      then show ?thesis unfolding span_def by (intro image_eqI[of _ _ "?n + i"]) auto
    qed (auto simp: span_def)
  qed
  have k: "setup_keeps (ioapic_setup dev va pm) (span head (?n + ?m))" using Cons.prems(6) unfolding len .
  then have k2: "setup_keeps (ioapic_setup dev va pm) (span (head + of_nat ?n) ?m)"
    unfolding setup_keeps_def sp by blast
  have "head + 1 \<in> span head (?n + ?m)" unfolding span_def using n by (intro image_eqI[of _ _ 1]) auto
  then have kp: "amem s' (head + 1) = amem s (head + 1)" if "ioapic_setup dev va pm a s = Some s'" for a s'
    using k that unfolding setup_keeps_def by blast
  note step = madt_record_effect[OF b(1) ok kp, of dev va pm]
  show ?case
  proof (cases "rec_effect (ioapic_setup dev va pm) r s")
    case None
    then show ?thesis using lt step by (subst madt_loop.simps) simp
  next
    case (Some s1)
    have "bytes_at (amem s1) (head + of_nat ?n) (concat (map rec_bytes rs) @ tail)"
      by (rule bytes_at_cong[OF b(2)]) (use rec_effect_keeps[OF k2 Some] in auto)
    moreover have "records_end = head + of_nat ?n + of_nat ?m" using Cons.prems(5) by (simp add: add.assoc)
    ultimately have "madt_loop dev va pm (head + of_nat ?n) records_end s1 = rec_effects (ioapic_setup dev va pm) rs s1"
      using Cons.IH[of s1 "head + of_nat ?n"] Cons.prems(2,3) uh le k2 by simp
    then show ?thesis using lt step Some by (subst madt_loop.simps) simp
  qed
qed

text \<open>C29: On a table whose bytes are the records \<open>rs\<close>, of types 0 to 6, and behind them nothing, or the first byte of a
  record of type 8, 9 or 10, at which the parser gives up, or a record of length 0, \<open>acpi_parse_madt\<close> does what the
  records \<open>rs\<close> say, in their order and no more: it counts the processors, sets up each I/O APIC and stores each
  interrupt override (which is undefined for a source that is none of the 16 interrupts), and it ends there. Setting
  up an I/O APIC must leave the bytes of the table alone. Tables with a record of type 7, in which the parser
  writes, or above 10, which it steps through byte by byte, are not covered.\<close>
theorem acpi_parse_madt_records:
  assumes "rd32 (amem s) (madt + 4) = Some (of_nat (44 + (length (concat (map rec_bytes rs)) + length tail)))"
    and "bytes_at (amem s) (madt + 44) (concat (map rec_bytes rs) @ tail)" and "\<forall>r\<in>set rs. rec_ok r" and "madt_stop tail"
    and "unat madt + 44 + (length (concat (map rec_bytes rs)) + length tail) < 4294967296"
    and "setup_keeps (ioapic_setup dev va pm) (span (madt + 44) (length (concat (map rec_bytes rs)) + length tail))"
  shows "acpi_parse_madt dev va pm madt s = rec_effects (ioapic_setup dev va pm) rs (s\<lparr>cpu_count := 0\<rparr>)"
proof -
  let ?n = "length (concat (map rec_bytes rs)) + length tail"
  have u: "unat (madt + 44) = unat madt + 44" using unat_plus_nowrap[of madt 44] assms(5) by simp
  have "madt_loop dev va pm (madt + 44) (madt + 44 + of_nat ?n) (s\<lparr>cpu_count := 0\<rparr>)
    = rec_effects (ioapic_setup dev va pm) rs (s\<lparr>cpu_count := 0\<rparr>)"
    by (rule madt_loop_effects[where tail = tail]) (use assms u in simp_all)
  then show ?thesis using assms(1) by (simp add: acpi_parse_madt_def sizeof_madt_def sizeof_sdt_def add.assoc)
qed

text \<open>Two processors, an I/O APIC at 0xFEC00000, interrupt 0 wired to input 2, and a processor of type 9 (x2APIC).\<close>
definition sample_recs :: "madt_rec list" where
  "sample_recs = [(0, [0, 0, 1, 0, 0, 0]), (0, [1, 1, 1, 0, 0, 0]), (1, [2, 0, 0, 0, 0xC0, 0xFE, 0, 0, 0, 0]),
     (2, [0, 0, 2, 0, 0, 0, 0, 0])]"

definition sample_tail :: "u8 list" where
  "sample_tail = [9, 16, 0, 0, 2, 0, 0, 0, 1, 0, 0, 0, 2, 0, 0, 0]"

definition sample_acpi :: acpi where
  "sample_acpi = \<lparr>io_log = [], gates = [], idtp_size = 0, lapic_base = 0, ioapic_base = 0, apic_msr = 0,
     amem = (\<lambda>p. if p = 0x1004 then Some 98 else if 0x1004 < p \<and> p < 0x1008 then Some 0
        else if 0x102C \<le> p \<and> unat p < 0x102C + 54 then Some ((concat (map rec_bytes sample_recs) @ sample_tail) ! (unat p - 0x102C)) else None),
     cpu_count = 0, acpi_irq_redir = replicate 16 0xFFFFFFFF\<rparr>"

abbreviation (input) "sample_vasa \<equiv> \<lambda>_ _ s. Some (0xE0000000 :: u32, s)"
abbreviation (input) "sample_map \<equiv> \<lambda>_ _ _ s. Some (True, s)"

lemma io_keeps_amem [simp]:
  "amem (reg_write a v s) = amem s" "amem (snd (reg_read dev a s)) = amem s"
  by (cases s; simp add: io_event_def reg_write_def reg_read_def Let_def)+

lemma ioapic_keeps_amem [simp]:
  "amem (ioapic_register_writel r v s) = amem s" "amem (snd (ioapic_register_readl dev r s)) = amem s"
  "amem (snd (ioapic_get_id dev s)) = amem s" "amem (snd (ioapic_get_version dev s)) = amem s" "amem (snd (ioapic_get_irqs dev s)) = amem s"
  "amem (snd (ioapic_get_redirect_entry dev q s)) = amem s" "amem (ioapic_set_redirect_entry q e s) = amem s"
  by (simp_all add: ioapic_register_writel_def ioapic_register_readl_def ioapic_get_id_def ioapic_get_version_def ioapic_get_irqs_def
      ioapic_get_redirect_entry_def ioapic_set_redirect_entry_def case_prod_beta Let_def)

lemma ioapic_mask_loop_amem:
  assumes "ioapic_mask_loop dev i s = Some s'"
  shows "amem s' = amem s"
  by (rule ioapic_mask_loop.raw_induct[where P = "\<lambda>dev i s s'. amem s' = amem s", OF _ assms])
    (auto simp: case_prod_beta Let_def split: if_splits)

lemma sample_setup_keeps: "setup_keeps (ioapic_setup dev sample_vasa sample_map) A"
  by (auto simp: setup_keeps_def ioapic_setup_def Let_def dest!: ioapic_mask_loop_amem)

theorem acpi_parse_madt_records_witness:
  "acpi_parse_madt (\<lambda>_ _. 0) sample_vasa sample_map 0x1000 sample_acpi
    = rec_effects (ioapic_setup (\<lambda>_ _. 0) sample_vasa sample_map) sample_recs (sample_acpi\<lparr>cpu_count := 0\<rparr>)"
proof (rule acpi_parse_madt_records[where tail = sample_tail])
  show "rd32 (amem sample_acpi) (0x1000 + 4) = Some (of_nat (44 + (length (concat (map rec_bytes sample_recs)) + length sample_tail)))"
    by (simp add: sample_acpi_def sample_recs_def sample_tail_def rd32_def rec_bytes_def)
  show "bytes_at (amem sample_acpi) (0x1000 + 44) (concat (map rec_bytes sample_recs) @ sample_tail)"
    by (simp add: sample_acpi_def sample_recs_def sample_tail_def rec_bytes_def)
  show "madt_stop sample_tail" by (simp add: madt_stop_def sample_tail_def)
qed (simp_all add: sample_recs_def sample_tail_def rec_ok_def rec_bytes_def sample_setup_keeps)

end
