(* ===== verification/Pci.thy ===== *)
theory Pci
  imports Ports Layout
begin

text \<open>
  \<open>src/src/kernel/devices/pci/pci.c\<close>: reading the configuration space through the ports 0xCF8 and 0xCFC, the
  records of the devices found, and their list. The records live in maps from addresses; \<open>kmalloc\<close>, \<open>kfree\<close> and
  what a fresh record contains are the operations of a \<open>pci_ops\<close>. Configuration values are read in the code's
  order; the operands of \<open>|\<close> from left to right. The messages of \<open>pci_probe\<close> are not
  printed; the names in them are those of \<open>src/src/include/kernel/pci_str.h\<close>.
\<close>

record pci_device =
  pd_bus :: u16
  pd_slot :: u16
  pd_function :: u16
  pd_vendor :: u16
  pd_device :: u16
  pd_status :: u16
  pd_command :: u16
  pd_class :: u8
  pd_subclass :: u8
  pd_prog_if :: u8
  pd_revision :: u8
  pd_bist :: u8
  pd_header_type :: u8
  pd_multi_fn :: u8
  pd_latency_timer :: u8
  pd_cacheline_size :: u8
  pd_extra :: u32
  pd_dev_id :: u32

record pci_normal =
  pn_baseaddr_0 :: u32
  pn_baseaddr_1 :: u32
  pn_baseaddr_2 :: u32
  pn_baseaddr_3 :: u32
  pn_baseaddr_4 :: u32
  pn_baseaddr_5 :: u32
  pn_cardbus_cis :: u32
  pn_subsystem :: u16
  pn_subsystem_vendor :: u16
  pn_expansion_rom :: u32
  pn_capability :: u8
  pn_interrupt_line :: u8
  pn_interrupt_pin :: u8
  pn_min_grant :: u8
  pn_max_latency :: u8

record pci_pcipci =
  pp_baseaddr_0 :: u32
  pp_baseaddr_1 :: u32
  pp_primary_bus :: u8
  pp_secondary_bus :: u8
  pp_subordinate_bus :: u8
  pp_secondary_latency :: u8
  pp_io_base :: u8
  pp_io_limit :: u8
  pp_secondary_status :: u16
  pp_memory_base :: u16
  pp_memory_limit :: u16
  pp_prefetch_mem_base :: u16
  pp_prefetch_mem_limit :: u16
  pp_prefetch_base :: u16
  pp_prefetch_limit :: u16
  pp_io_upperbase :: u16
  pp_io_upperlimit :: u16
  pp_capability :: u16
  pp_expansion_rom :: u16
  pp_interrupt_line :: u8
  pp_interrupt_pin :: u8
  pp_bridge_control :: u16

record pci_devlist =
  dl_devices :: "u32 list"
  dl_size :: u32
  dl_max :: u32

text \<open>The list \<open>devlist\<close> points to is held as a value; \<open>None\<close> before \<open>pci_init\<close>.\<close>
record pci = io +
  pci_devs :: "u32 \<Rightarrow> pci_device option"
  pci_normals :: "u32 \<Rightarrow> pci_normal option"
  pci_bridges :: "u32 \<Rightarrow> pci_pcipci option"
  devlist :: "pci_devlist option"

record 's pci_ops =
  p_kmalloc :: "u32 \<Rightarrow> 's \<Rightarrow> (u32 \<times> 's) option"
  p_kfree :: "u32 \<Rightarrow> 's \<Rightarrow> 's option"
  p_device :: pci_device
  p_normal :: pci_normal
  p_pcipci :: pci_pcipci
  p_list :: "u32 list"

definition PCI_CONFIG_ADDRESS :: u16 where "PCI_CONFIG_ADDRESS = 0xCF8"
definition PCI_CONFIG_DATA :: u16 where "PCI_CONFIG_DATA = 0xCFC"
definition PCI_MAXDEVS :: u32 where "PCI_MAXDEVS = 64"

definition pci_address :: "u8 \<Rightarrow> u8 \<Rightarrow> u8 \<Rightarrow> u8 \<Rightarrow> u32" where
  "pci_address bus slot func off =
     push_bit 16 (ucast bus) OR push_bit 11 (ucast slot) OR push_bit 8 (ucast func) OR (ucast off AND 0xfc) OR push_bit 31 1"

definition pci_config_read :: "device \<Rightarrow> u8 \<Rightarrow> u8 \<Rightarrow> u8 \<Rightarrow> u8 \<Rightarrow> 'a io_scheme \<Rightarrow> u16 \<times> 'a io_scheme" where
  "pci_config_read dev bus slot func off s = (let
     s1 = outportl PCI_CONFIG_ADDRESS (pci_address bus slot func off) s;
     (data, s2) = inportl dev PCI_CONFIG_DATA s1
   in (ucast (drop_bit (unat (push_bit 3 (off AND 2))) data AND 0xffff), s2))"

definition pci_config_write :: "u8 \<Rightarrow> u8 \<Rightarrow> u8 \<Rightarrow> u8 \<Rightarrow> u16 \<Rightarrow> 'a io_scheme \<Rightarrow> 'a io_scheme" where
  "pci_config_write bus slot func off data s =
     outportl PCI_CONFIG_DATA (ucast data) (outportl PCI_CONFIG_ADDRESS (pci_address bus slot func off) s)"

text \<open>\<open>pci_config_read(.., lo) | (pci_config_read(.., hi) << 16)\<close>.\<close>
definition pci_config_read2 :: "device \<Rightarrow> u8 \<Rightarrow> u8 \<Rightarrow> u8 \<Rightarrow> u8 \<Rightarrow> u8 \<Rightarrow> 'a io_scheme \<Rightarrow> u32 \<times> 'a io_scheme" where
  "pci_config_read2 dev bus slot func lo hi s = (let
     (l, s1) = pci_config_read dev bus slot func lo s;
     (h, s2) = pci_config_read dev bus slot func hi s1
   in (ucast l OR push_bit 16 (ucast h), s2))"

text \<open>The header's common part: the stores to \<open>dev_obj\<close>, in order.\<close>
definition pci_read_device :: "device \<Rightarrow> u8 \<Rightarrow> u8 \<Rightarrow> u8 \<Rightarrow> pci_device \<Rightarrow> 'a io_scheme \<Rightarrow> pci_device \<times> 'a io_scheme" where
  "pci_read_device dev b sl f d s = (let
     (device, s1) = pci_config_read dev b sl f 2 s;
     (command, s2) = pci_config_read dev b sl f 4 s1;
     (status, s3) = pci_config_read dev b sl f 6 s2;
     (revision, s4) = pci_config_read dev b sl f 8 s3;
     (prog_if, s5) = pci_config_read dev b sl f 8 s4;
     (subclass, s6) = pci_config_read dev b sl f 10 s5;
     (cls, s7) = pci_config_read dev b sl f 10 s6;
     (cacheline_size, s8) = pci_config_read dev b sl f 12 s7;
     (latency_timer, s9) = pci_config_read dev b sl f 12 s8;
     (header_type, s10) = pci_config_read dev b sl f 14 s9;
     (multi_fn, s11) = pci_config_read dev b sl f 14 s10;
     (bist, s12) = pci_config_read dev b sl f 14 s11
   in (d\<lparr>pd_device := device, pd_command := command, pd_status := status,
         pd_revision := ucast (revision AND 0xFF), pd_prog_if := ucast (drop_bit 8 prog_if AND 0xFF),
         pd_subclass := ucast (subclass AND 0xFF), pd_class := ucast (drop_bit 8 cls AND 0xFF),
         pd_cacheline_size := ucast (cacheline_size AND 0xFF), pd_latency_timer := ucast (drop_bit 8 latency_timer AND 0xFF),
         pd_header_type := ucast (header_type AND 0x7F), pd_multi_fn := ucast (drop_bit 7 multi_fn AND 1),
         pd_bist := ucast (drop_bit 8 bist AND 0xFF)\<rparr>, s12))"

definition pci_read_normal :: "device \<Rightarrow> u8 \<Rightarrow> u8 \<Rightarrow> u8 \<Rightarrow> pci_normal \<Rightarrow> 'a io_scheme \<Rightarrow> pci_normal \<times> 'a io_scheme" where
  "pci_read_normal dev b sl f n s = (let
     (baseaddr_0, s1) = pci_config_read2 dev b sl f 0x10 0x12 s;
     (baseaddr_1, s2) = pci_config_read2 dev b sl f 0x14 0x16 s1;
     (baseaddr_2, s3) = pci_config_read2 dev b sl f 0x18 0x18 s2;
     (baseaddr_3, s4) = pci_config_read2 dev b sl f 0x1C 0x1E s3;
     (baseaddr_4, s5) = pci_config_read2 dev b sl f 0x20 0x22 s4;
     (baseaddr_5, s6) = pci_config_read2 dev b sl f 0x24 0x26 s5;
     (cardbus_cis, s7) = pci_config_read2 dev b sl f 0x28 0x2A s6;
     (subsystem_vendor, s8) = pci_config_read dev b sl f 0x2C s7;
     (subsystem, s9) = pci_config_read dev b sl f 0x2E s8;
     (rom_hi, s10) = pci_config_read dev b sl f 0x30 s9;
     (rom_lo, s11) = pci_config_read dev b sl f 0x32 s10;
     (capability, s12) = pci_config_read dev b sl f 0x34 s11;
     (interrupt_line, s13) = pci_config_read dev b sl f 0x3C s12;
     (interrupt_pin, s14) = pci_config_read dev b sl f 0x3D s13;
     (min_grant, s15) = pci_config_read dev b sl f 0x3E s14;
     (max_latency, s16) = pci_config_read dev b sl f 0x3F s15
   in (n\<lparr>pn_baseaddr_0 := baseaddr_0, pn_baseaddr_1 := baseaddr_1, pn_baseaddr_2 := baseaddr_2, pn_baseaddr_3 := baseaddr_3,
         pn_baseaddr_4 := baseaddr_4, pn_baseaddr_5 := baseaddr_5, pn_cardbus_cis := cardbus_cis,
         pn_subsystem_vendor := subsystem_vendor, pn_subsystem := subsystem,
         pn_expansion_rom := push_bit 16 (ucast rom_hi) OR ucast rom_lo, pn_capability := ucast (capability AND 0xFF),
         pn_interrupt_line := ucast (interrupt_line AND 0xFF), pn_interrupt_pin := ucast (interrupt_pin AND 0xFF),
         pn_min_grant := ucast (min_grant AND 0xFF), pn_max_latency := ucast (max_latency AND 0xFF)\<rparr>, s16))"

definition pci_read_pcipci :: "device \<Rightarrow> u8 \<Rightarrow> u8 \<Rightarrow> u8 \<Rightarrow> pci_pcipci \<Rightarrow> 'a io_scheme \<Rightarrow> pci_pcipci \<times> 'a io_scheme" where
  "pci_read_pcipci dev b sl f n s = (let
     (baseaddr_0, s1) = pci_config_read2 dev b sl f 0x10 0x12 s;
     (baseaddr_1, s2) = pci_config_read2 dev b sl f 0x14 0x16 s1;
     (primary_bus, s3) = pci_config_read dev b sl f 0x18 s2;
     (secondary_bus, s4) = pci_config_read dev b sl f 0x18 s3;
     (subordinate_bus, s5) = pci_config_read dev b sl f 0x1A s4;
     (secondary_latency, s6) = pci_config_read dev b sl f 0x1A s5;
     (io_base, s7) = pci_config_read dev b sl f 0x1C s6;
     (io_limit, s8) = pci_config_read dev b sl f 0x1C s7;
     (secondary_status, s9) = pci_config_read dev b sl f 0x1E s8;
     (prefetch_mem_base, s10) = pci_config_read dev b sl f 0x24 s9;
     (prefetch_mem_limit, s11) = pci_config_read dev b sl f 0x26 s10;
     (prefetch_base, s12) = pci_config_read2 dev b sl f 0x28 0x2A s11;
     (prefetch_limit, s13) = pci_config_read2 dev b sl f 0x2C 0x2E s12;
     (io_upperbase, s14) = pci_config_read dev b sl f 0x30 s13;
     (io_upperlimit, s15) = pci_config_read dev b sl f 0x32 s14;
     (capability, s16) = pci_config_read dev b sl f 0x34 s15;
     (expansion_rom, s17) = pci_config_read2 dev b sl f 0x38 0x3A s16;
     (interrupt_line, s18) = pci_config_read dev b sl f 0x3C s17;
     (interrupt_pin, s19) = pci_config_read dev b sl f 0x3C s18;
     (bridge_control, s20) = pci_config_read dev b sl f 0x3E s19
   in (n\<lparr>pp_baseaddr_0 := baseaddr_0, pp_baseaddr_1 := baseaddr_1,
         pp_primary_bus := ucast (primary_bus AND 0xFF), pp_secondary_bus := ucast (drop_bit 8 secondary_bus AND 0xFF),
         pp_subordinate_bus := ucast (subordinate_bus AND 0xFF), pp_secondary_latency := ucast (drop_bit 8 secondary_latency AND 0xFF),
         pp_io_base := ucast (io_base AND 0xFF), pp_io_limit := ucast (drop_bit 8 io_limit AND 0xFF),
         pp_secondary_status := secondary_status, pp_prefetch_mem_base := prefetch_mem_base, pp_prefetch_mem_limit := prefetch_mem_limit,
         pp_prefetch_base := ucast prefetch_base, pp_prefetch_limit := ucast prefetch_limit,
         pp_io_upperbase := io_upperbase, pp_io_upperlimit := io_upperlimit, pp_capability := capability AND 0xFF,
         pp_expansion_rom := ucast expansion_rom, pp_interrupt_line := ucast (interrupt_line AND 0xFF),
         pp_interrupt_pin := ucast (drop_bit 8 interrupt_pin AND 0xFF), pp_bridge_control := bridge_control\<rparr>, s20))"

text \<open>The addresses \<open>kmalloc\<close> returns are not compared with NULL before they are stored through. \<open>extra\<close> of a
  CardBus bridge is not set.\<close>
definition pci_device_new :: "'a pci_scheme pci_ops \<Rightarrow> device \<Rightarrow> u16 \<Rightarrow> u16 \<Rightarrow> u16 \<Rightarrow> 'a pci_scheme \<Rightarrow> (u32 \<times> 'a pci_scheme) option" where
  "pci_device_new ops dev bus slot function s = (let
     b = ucast bus; sl = ucast slot; f = ucast function;
     (vendor, s1) = pci_config_read dev b sl f 0 s in
     if vendor = 0xFFFF then Some (NULL, s1)
     else do {
       (p, s2) \<leftarrow> p_kmalloc ops (sizeof pci_device_layout) s1;
       if p = NULL then None
       else do {
         let (d, s3) = pci_read_device dev b sl f
           ((p_device ops)\<lparr>pd_bus := bus, pd_slot := slot, pd_function := function, pd_vendor := vendor\<rparr>) s2;
         let s4 = s3\<lparr>pci_devs := (pci_devs s3)(p \<mapsto> d)\<rparr>;
         if pd_header_type d = 0 then do {
           (q, s5) \<leftarrow> p_kmalloc ops (sizeof pci_device_normal_layout) s4;
           if q = NULL then None
           else do {
             let (n, s6) = pci_read_normal dev b sl f (p_normal ops) s5;
             let s7 = s6\<lparr>pci_normals := (pci_normals s6)(q \<mapsto> n)\<rparr>;
             Some (p, s7\<lparr>pci_devs := (pci_devs s7)(p \<mapsto> d\<lparr>pd_extra := q\<rparr>)\<rparr>) } }
         else if pd_header_type d = 1 then do {
           (q, s5) \<leftarrow> p_kmalloc ops (sizeof pci_device_pcipci_layout) s4;
           if q = NULL then None
           else do {
             let (n, s6) = pci_read_pcipci dev b sl f (p_pcipci ops) s5;
             let s7 = s6\<lparr>pci_bridges := (pci_bridges s6)(q \<mapsto> n)\<rparr>;
             Some (p, s7\<lparr>pci_devs := (pci_devs s7)(p \<mapsto> d\<lparr>pd_extra := q\<rparr>)\<rparr>) } }
         else if pd_header_type d = 2 then Some (p, s4)
         else do {
           s5 \<leftarrow> p_kfree ops p s4;
           Some (NULL, s5\<lparr>pci_devs := (pci_devs s5)(p := None)\<rparr>) } } })"

definition pci_device_base_addr :: "u32 \<Rightarrow> u32 \<Rightarrow> 'a pci_scheme \<Rightarrow> u32 option" where
  "pci_device_base_addr p n s = do {
     d \<leftarrow> pci_devs s p;
     if pd_header_type d = 0 then
       (if n = 0 then map_option pn_baseaddr_0 (pci_normals s (pd_extra d))
        else if n = 1 then map_option pn_baseaddr_1 (pci_normals s (pd_extra d))
        else if n = 2 then map_option pn_baseaddr_2 (pci_normals s (pd_extra d))
        else if n = 3 then map_option pn_baseaddr_3 (pci_normals s (pd_extra d))
        else if n = 4 then map_option pn_baseaddr_4 (pci_normals s (pd_extra d))
        else if n = 5 then map_option pn_baseaddr_5 (pci_normals s (pd_extra d))
        else Some 0)
     else if pd_header_type d = 1 then
       (if n = 0 then map_option pp_baseaddr_0 (pci_bridges s (pd_extra d))
        else if n = 1 then map_option pp_baseaddr_1 (pci_bridges s (pd_extra d))
        else Some 0)
     else Some 0 }"

definition pci_device_read_cmd :: "device \<Rightarrow> u32 \<Rightarrow> 'a pci_scheme \<Rightarrow> (u16 \<times> 'a pci_scheme) option" where
  "pci_device_read_cmd dev p s = do {
     d \<leftarrow> pci_devs s p;
     Some (pci_config_read dev (ucast (pd_bus d)) (ucast (pd_slot d)) (ucast (pd_function d)) 4 s) }"

definition pci_device_write_cmd :: "u32 \<Rightarrow> u16 \<Rightarrow> 'a pci_scheme \<Rightarrow> 'a pci_scheme option" where
  "pci_device_write_cmd p val s = do {
     d \<leftarrow> pci_devs s p;
     Some (pci_config_write (ucast (pd_bus d)) (ucast (pd_slot d)) (ucast (pd_function d)) 4 val s) }"

text \<open>The list's block is indexed with its \<open>int\<close> size; the identifier is the index.\<close>
definition pci_devlist_add :: "u32 \<Rightarrow> 'a pci_scheme \<Rightarrow> 'a pci_scheme option" where
  "pci_devlist_add p s = do {
     l \<leftarrow> devlist s;
     if dl_max l \<le>s dl_size l + 1 then Some s
     else do {
       ds \<leftarrow> (if dl_size l <s 0 then None else aset (dl_devices l) (unat (dl_size l)) p);
       d \<leftarrow> pci_devs s p;
       let l1 = l\<lparr>dl_devices := ds, dl_size := dl_size l + 1\<rparr>;
       Some (s\<lparr>devlist := Some l1, pci_devs := (pci_devs s)(p \<mapsto> d\<lparr>pd_dev_id := dl_size l1 - 1\<rparr>)\<rparr>) } }"

definition pci_devlist_new :: "'a pci_scheme pci_ops \<Rightarrow> u32 \<Rightarrow> 'a pci_scheme \<Rightarrow> (pci_devlist \<times> 'a pci_scheme) option" where
  "pci_devlist_new ops maxdevs s = do {
     (p, s1) \<leftarrow> p_kmalloc ops (sizeof pci_devlist_layout) s;
     if p = NULL then None
     else do {
       (q, s2) \<leftarrow> p_kmalloc ops (4 * maxdevs) s1;
       Some (\<lparr>dl_devices = (if q = NULL then [] else take (unat maxdevs) (p_list ops)), dl_size = 0, dl_max = maxdevs\<rparr>, s2) } }"

text \<open>The three loops of \<open>pci_probe\<close>, each with the number of rounds left.\<close>
fun probe_functions :: "'a pci_scheme pci_ops \<Rightarrow> device \<Rightarrow> u32 \<Rightarrow> u32 \<Rightarrow> u32 \<Rightarrow> nat \<Rightarrow> 'a pci_scheme \<Rightarrow> 'a pci_scheme option" where
  "probe_functions ops dev bus slot function 0 s = Some s"
| "probe_functions ops dev bus slot function (Suc n) s = do {
     (p, s1) \<leftarrow> pci_device_new ops dev (ucast bus) (ucast slot) (ucast function) s;
     s2 \<leftarrow> (if p = NULL then Some s1 else pci_devlist_add p s1);
     probe_functions ops dev bus slot (function + 1) n s2 }"

fun probe_slots :: "'a pci_scheme pci_ops \<Rightarrow> device \<Rightarrow> u32 \<Rightarrow> u32 \<Rightarrow> nat \<Rightarrow> 'a pci_scheme \<Rightarrow> 'a pci_scheme option" where
  "probe_slots ops dev bus slot 0 s = Some s"
| "probe_slots ops dev bus slot (Suc n) s = do {
     s1 \<leftarrow> probe_functions ops dev bus slot 0 8 s;
     probe_slots ops dev bus (slot + 1) n s1 }"

fun probe_buses :: "'a pci_scheme pci_ops \<Rightarrow> device \<Rightarrow> u32 \<Rightarrow> nat \<Rightarrow> 'a pci_scheme \<Rightarrow> 'a pci_scheme option" where
  "probe_buses ops dev bus 0 s = Some s"
| "probe_buses ops dev bus (Suc n) s = do {
     s1 \<leftarrow> probe_slots ops dev bus 0 32 s;
     probe_buses ops dev (bus + 1) n s1 }"

definition pci_probe :: "'a pci_scheme pci_ops \<Rightarrow> device \<Rightarrow> 'a pci_scheme \<Rightarrow> 'a pci_scheme option" where
  "pci_probe ops dev s = probe_buses ops dev 0 256 s"

fun pci_get_loop :: "u16 \<Rightarrow> u16 \<Rightarrow> u32 list \<Rightarrow> nat \<Rightarrow> nat \<Rightarrow> 'a pci_scheme \<Rightarrow> u32 option" where
  "pci_get_loop vendor dvc ds i 0 s = Some NULL"
| "pci_get_loop vendor dvc ds i (Suc n) s = do {
     p \<leftarrow> aget ds i;
     d \<leftarrow> pci_devs s p;
     if pd_vendor d = vendor \<and> pd_device d = dvc then Some p else pci_get_loop vendor dvc ds (Suc i) n s }"

definition pci_get :: "u16 \<Rightarrow> u16 \<Rightarrow> 'a pci_scheme \<Rightarrow> u32 option" where
  "pci_get vendor dvc s = do { l \<leftarrow> devlist s; pci_get_loop vendor dvc (dl_devices l) 0 (nat (sint (dl_size l))) s }"

definition pci_init :: "'a pci_scheme pci_ops \<Rightarrow> device \<Rightarrow> 'a pci_scheme \<Rightarrow> 'a pci_scheme option" where
  "pci_init ops dev s = do {
     (l, s1) \<leftarrow> pci_devlist_new ops PCI_MAXDEVS s;
     pci_probe ops dev (s1\<lparr>devlist := Some l\<rparr>) }"


subsection \<open>Names of the classes: pci_str.h\<close>

definition pci_class_codes1 :: "(u32 \<times> string) list" where
  "pci_class_codes1 =
    [(0x00, ''Unclassified''), (0x01, ''Mass Storage Controller''), (0x02, ''Network Controller''),
     (0x03, ''Display Controller''), (0x04, ''Multimedia Controller''), (0x05, ''Memory Controller''),
     (0x06, ''Bridge Device''), (0x07, ''Simple Communication Controller''), (0x08, ''Base System Peripheral''),
     (0x09, ''Input Device Controller''), (0x0A, ''Docking Station''), (0x0B, ''Processor''),
     (0x0C, ''Serial Bus Controller''), (0x0D, ''Wireless Controller''), (0x0E, ''Intelligent Controller''),
     (0x0F, ''Satellite Communication Controller''), (0x10, ''Encryption Controller''),
     (0x11, ''Signal Processing Controller''), (0x12, ''Processing Accelerator''),
     (0x13, ''Non-Essential Instrumentation''), (0x40, ''Co-Processor'')]"

definition pci_class_codes2 :: "(u32 \<times> string) list" where
  "pci_class_codes2 =
    [(0x0000, ''Non-VGA-Compatible Device''), (0x0001, ''VGA-Compatible Device''),
     (0x0100, ''SCSI Bus Controller''), (0x0101, ''IDE Controller''), (0x0102, ''Floppy Disk Controller''),
     (0x0103, ''IPI Bus Controller''), (0x0104, ''RAID Controller''), (0x0105, ''ATA Controller''),
     (0x0106, ''Serial ATA''), (0x0107, ''Serial Attached SCSI''), (0x0108, ''Non-Volatile Memory Controller''),
     (0x0180, ''Other''), (0x0200, ''Ethernet Controller''), (0x0201, ''Token Ring Controller''),
     (0x0202, ''FDDI Controller''), (0x0203, ''ATM Controller''), (0x0204, ''ISDN Controller''),
     (0x0205, ''WorldFip Controller''), (0x0206, ''PICMG 2.14 Multi Computing''),
     (0x0207, ''Infiniband Controller''), (0x0208, ''Fabric Controller''), (0x0280, ''Other''),
     (0x0300, ''VGA Campatible Controller''), (0x0301, ''XGA Controller''), (0x0302, ''3D Controller''),
     (0x0380, ''Other''), (0x0400, ''Multimedia Video Controller''), (0x0401, ''Multimedia Audio Controller''),
     (0x0402, ''Computer Telephony Device''), (0x0403, ''Audio Device''), (0x0480, ''Other''),
     (0x0500, ''RAM Controller''), (0x0501, ''Flash Controller''), (0x0580, ''Other''), (0x0600, ''Host Bridge''),
     (0x0601, ''ISA Bridge''), (0x0602, ''EISA Bridge''), (0x0603, ''MCA Bridge''), (0x0604, ''PCI-to-PCI bridge''),
     (0x0605, ''PCMCIA Bridge''), (0x0606, ''NuBus Bridge''), (0x0607, ''CardBus Bridge''),
     (0x0608, ''RACEway Bridge''), (0x0609, ''PCI-to-PCI Bridge''), (0x060A, ''InfiniBand-to-PCI Host Bridge''),
     (0x0680, ''Other''), (0x0700, ''Serial Controller''), (0x0701, ''Parallel Controller''),
     (0x0702, ''Multiport Serial Controller''), (0x0703, ''Modem''), (0x0704, ''IEEE 488.1/2 (GPIB) Controller''),
     (0x0705, ''Smart Card''), (0x0780, ''Other''), (0x0800, ''PIC''), (0x0801, ''DMA Controller''),
     (0x0802, ''Timer''), (0x0803, ''RTC Controller''), (0x0804, ''PCI Hot-Plug Controller''),
     (0x0805, ''SD Host Controller''), (0x0806, ''IOMMU''), (0x0880, ''Other''), (0x0900, ''Keyboard Controller''),
     (0x0901, ''Digitizer Pen''), (0x0902, ''Mouse Controller''), (0x0903, ''Scanner Controller''),
     (0x0904, ''Gameport Controller''), (0x0980, ''Other''), (0x0A00, ''Docking Station''), (0x0A80, ''Generic''),
     (0x0B00, ''386''), (0x0B01, ''486''), (0x0B02, ''Pentium''), (0x0B10, ''Alpha''), (0x0B20, ''PowerPC''),
     (0x0B30, ''MIPS''), (0x0B40, ''Co-Processor''), (0x0C00, ''FireWire Controller''), (0x0C01, ''ACCESS Bus''),
     (0x0C02, ''SSA''), (0x0C03, ''USB Controller''), (0x0C04, ''Fibre Channel''), (0x0C05, ''SMBus''),
     (0x0C06, ''InfiniBand''), (0x0C07, ''IPMI Interface''), (0x0C08, ''SERCOS Interface''), (0x0C09, ''CANbus''),
     (0x0D00, ''iRDA Compatible Controller''), (0x0D01, ''Consumer IR Controller''),
     (0x0D11, ''Bluetooth Controller''), (0x0D12, ''Broadband Controller''),
     (0x0D20, ''Ethernet Controller (802.1a)''), (0x0D21, ''Ethernet Controller (802.1b)''), (0x0D80, ''Other''),
     (0x0E00, ''I20''), (0x0F01, ''Satellite TV Controller''), (0x0F02, ''Satellite Audio Controller''),
     (0x0F03, ''Satellite Voice Controller''), (0x0F04, ''Satellite Data Controller''), (0x1100, ''DPIO Modules''),
     (0x1101, ''Performance Counters''), (0x1110, ''Communication Synchronizer''),
     (0x1120, ''Signal Processing Management''), (0x1180, ''Other'')]"

text \<open>The first entry with the code.\<close>
fun pci_msg :: "(u32 \<times> string) list \<Rightarrow> u32 \<Rightarrow> string" where
  "pci_msg [] code = ''Unknown''"
| "pci_msg ((c, m) # es) code = (if c = code then m else pci_msg es code)"

definition pci_class_string :: "u8 \<Rightarrow> string" where
  "pci_class_string cls = pci_msg pci_class_codes1 (ucast cls)"

definition pci_subclass_string :: "u8 \<Rightarrow> u8 \<Rightarrow> string" where
  "pci_subclass_string cls subcls = pci_msg pci_class_codes2 (push_bit 8 (ucast cls) OR ucast subcls)"

subsection \<open>What the configuration space holds\<close>

text \<open>A host bridge: what is read after an address was written is \<open>cfg\<close> of the address.\<close>
definition pci_bus :: "device \<Rightarrow> (u32 \<Rightarrow> u32) \<Rightarrow> bool" where
  "pci_bus dev cfg \<longleftrightarrow> (\<forall>log a. dev (log @ [OutL PCI_CONFIG_ADDRESS a]) (Port PCI_CONFIG_DATA) = cfg a)"

definition cfg32 :: "(u32 \<Rightarrow> u32) \<Rightarrow> u8 \<Rightarrow> u8 \<Rightarrow> u8 \<Rightarrow> u8 \<Rightarrow> u32" where
  "cfg32 cfg b sl f off = cfg (pci_address b sl f off)"

definition cfg16 :: "(u32 \<Rightarrow> u32) \<Rightarrow> u8 \<Rightarrow> u8 \<Rightarrow> u8 \<Rightarrow> u8 \<Rightarrow> u16" where
  "cfg16 cfg b sl f off = ucast (drop_bit (8 * (unat off mod 4)) (cfg32 cfg b sl f off))"

definition cfg8 :: "(u32 \<Rightarrow> u32) \<Rightarrow> u8 \<Rightarrow> u8 \<Rightarrow> u8 \<Rightarrow> u8 \<Rightarrow> u8" where
  "cfg8 cfg b sl f off = ucast (drop_bit (8 * (unat off mod 4)) (cfg32 cfg b sl f off))"

lemma io_log_frame: "io_event e s = s\<lparr>io_log := io_log s @ [e]\<rparr>"
  by (simp add: io_event_def)

definition logged :: "'a io_scheme \<Rightarrow> 'a io_scheme \<Rightarrow> bool" where
  "logged s t \<longleftrightarrow> (\<exists>es. t = s\<lparr>io_log := io_log s @ es\<rparr>)"

lemma logged_refl [simp]: "logged s s"
  unfolding logged_def by (rule exI[of _ "[]"]) simp

lemma logged_trans: "logged s t \<Longrightarrow> logged t u \<Longrightarrow> logged s u"
  by (auto simp: logged_def)

text \<open>The state after one look at the configuration space.\<close>
definition looked :: "(u32 \<Rightarrow> u32) \<Rightarrow> u8 \<Rightarrow> u8 \<Rightarrow> u8 \<Rightarrow> u8 \<Rightarrow> 'a io_scheme \<Rightarrow> 'a io_scheme" where
  "looked cfg b sl f off s =
     io_event (InL PCI_CONFIG_DATA (cfg32 cfg b sl f off)) (outportl PCI_CONFIG_ADDRESS (pci_address b sl f off) s)"

lemma logged_event: "logged s t \<Longrightarrow> logged s (io_event e t)"
  by (auto simp: logged_def io_event_def)

lemma logged_looked [simp]: "logged s t \<Longrightarrow> logged s (looked cfg b sl f off t)"
  by (simp add: looked_def outportl_def logged_event)

lemma low_half: "ucast (x AND 0xFFFF) = (ucast x :: u16)" for x :: u32
proof -
  have "ucast (x AND mask 16) = (ucast x :: u16)" by (rule bit_word_eqI) (auto simp: bit_simps)
  then show ?thesis by (simp add: mask_eq_exp_minus_1)
qed

lemma config_read:
  assumes "pci_bus dev cfg"
  shows "pci_config_read dev b sl f off s
    = (ucast (drop_bit (unat (push_bit 3 (off AND 2))) (cfg32 cfg b sl f off)), looked cfg b sl f off s)"
proof -
  let ?a = "OutL PCI_CONFIG_ADDRESS (pci_address b sl f off)"
  have "dev (io_log s @ [?a]) (Port PCI_CONFIG_DATA) = cfg32 cfg b sl f off"
    using assms by (simp add: pci_bus_def cfg32_def)
  then show ?thesis
    by (simp add: pci_config_read_def inportl_def outportl_def looked_def io_event_def low_half Let_def)
qed

text \<open>The half words at even offsets.\<close>
lemma config_read_even:
  assumes "pci_bus dev cfg" and "unat (push_bit 3 (off AND 2)) = 8 * (unat off mod 4)"
  shows "pci_config_read dev b sl f off s = (cfg16 cfg b sl f off, looked cfg b sl f off s)"
  by (simp only: config_read[OF assms(1)] assms(2) cfg16_def)

lemma cfg_halves:
  "ucast (cfg16 cfg b sl f off) OR push_bit 16 (ucast (cfg16 cfg b sl f (off + 2))) = cfg32 cfg b sl f off"
  if "cfg32 cfg b sl f (off + 2) = cfg32 cfg b sl f off" "unat off mod 4 = 0" "unat (off + 2) mod 4 = 2"
  using that by (auto intro!: bit_word_eqI simp: cfg16_def bit_simps)

lemma low_byte: "ucast (x AND 0xFF) = (ucast x :: u8)" for x :: u16
proof -
  have "ucast (x AND mask 8) = (ucast x :: u8)" by (rule bit_word_eqI) (auto simp: bit_simps)
  then show ?thesis by (simp add: mask_eq_exp_minus_1)
qed

lemma low_seven: "ucast (x AND 0x7F) = (ucast x :: u8) AND 0x7F" for x :: u16
proof -
  have "ucast (x AND mask 7) = (ucast x :: u8) AND mask 7" by (rule bit_word_eqI) (auto simp: bit_simps)
  then show ?thesis by (simp add: mask_eq_exp_minus_1)
qed

lemma bit_seven: "ucast (drop_bit 7 x AND 1) = drop_bit 7 (ucast x :: u8)" for x :: u16
proof -
  have "ucast (drop_bit 7 x AND mask 1) = drop_bit 7 (ucast x :: u8)"
    by (rule bit_word_eqI) (auto simp: bit_simps)
  then show ?thesis by (simp add: mask_eq_exp_minus_1)
qed

lemma cfg_low: "ucast (cfg16 cfg b sl f off) = cfg8 cfg b sl f off" if "unat off mod 4 < 3"
  using that by (auto intro!: bit_word_eqI simp: cfg16_def cfg8_def bit_simps ac_simps)

lemma cfg_high: "ucast (drop_bit 8 (cfg16 cfg b sl f off)) = cfg8 cfg b sl f (off + 1)"
  if "cfg32 cfg b sl f (off + 1) = cfg32 cfg b sl f off" "unat (off + 1) mod 4 = unat off mod 4 + 1" "unat off mod 4 < 3"
  using that by (auto intro!: bit_word_eqI simp: cfg16_def cfg8_def bit_simps ac_simps)

lemmas cfg_offsets = cfg32_def pci_address_def

text \<open>The rules evaluate at each offset: which half word is read, and that its bytes belong to the same double word.\<close>
lemmas cfg_read = config_read_even pci_config_read2_def low_byte cfg_low cfg_high cfg_halves cfg_offsets

lemma read_device:
  assumes "pci_bus dev cfg"
  shows "\<exists>t. pci_read_device dev b sl f d s =
    (d\<lparr>pd_device := cfg16 cfg b sl f 2, pd_command := cfg16 cfg b sl f 4, pd_status := cfg16 cfg b sl f 6,
       pd_revision := cfg8 cfg b sl f 8, pd_prog_if := cfg8 cfg b sl f 9,
       pd_subclass := cfg8 cfg b sl f 10, pd_class := cfg8 cfg b sl f 11,
       pd_cacheline_size := cfg8 cfg b sl f 12, pd_latency_timer := cfg8 cfg b sl f 13,
       pd_header_type := cfg8 cfg b sl f 14 AND 0x7F, pd_multi_fn := drop_bit 7 (cfg8 cfg b sl f 14),
       pd_bist := cfg8 cfg b sl f 15\<rparr>, t) \<and> logged s t"
proof -
  have h: "ucast (drop_bit 8 (cfg16 cfg b sl f off) AND 0xFF) = cfg8 cfg b sl f (off + 1)"
    if "cfg32 cfg b sl f (off + 1) = cfg32 cfg b sl f off" "unat (off + 1) mod 4 = unat off mod 4 + 1" "unat off mod 4 < 3" for off
    using cfg_high[OF that] by (simp add: low_byte)
  have l: "ucast (cfg16 cfg b sl f off AND 0xFF) = cfg8 cfg b sl f off" if "unat off mod 4 < 3" for off
    using cfg_low[OF that] by (simp add: low_byte)
  have "ucast (cfg16 cfg b sl f 14 AND 0x7F) = cfg8 cfg b sl f 14 AND 0x7F"
    using cfg_low[of 14 cfg b sl f] by (simp add: low_seven)
  moreover have "ucast (drop_bit 7 (cfg16 cfg b sl f 14) AND 1) = drop_bit 7 (cfg8 cfg b sl f 14)"
    using cfg_low[of 14 cfg b sl f] by (simp add: bit_seven)
  ultimately show ?thesis
    using h[of 8] h[of 10] h[of 12] h[of 14]
    by (simp add: pci_read_device_def config_read_even[OF assms] l cfg_offsets)
qed

lemma read_normal:
  assumes "pci_bus dev cfg"
  shows "\<exists>t. pci_read_normal dev b sl f n s =
    (n\<lparr>pn_baseaddr_0 := cfg32 cfg b sl f 0x10, pn_baseaddr_1 := cfg32 cfg b sl f 0x14,
       pn_baseaddr_2 := ucast (cfg16 cfg b sl f 0x18) OR push_bit 16 (ucast (cfg16 cfg b sl f 0x18)),
       pn_baseaddr_3 := cfg32 cfg b sl f 0x1C, pn_baseaddr_4 := cfg32 cfg b sl f 0x20, pn_baseaddr_5 := cfg32 cfg b sl f 0x24,
       pn_cardbus_cis := cfg32 cfg b sl f 0x28,
       pn_subsystem_vendor := cfg16 cfg b sl f 0x2C, pn_subsystem := cfg16 cfg b sl f 0x2E,
       pn_expansion_rom := push_bit 16 (ucast (cfg16 cfg b sl f 0x30)) OR ucast (cfg16 cfg b sl f 0x32),
       pn_capability := cfg8 cfg b sl f 0x34, pn_interrupt_line := cfg8 cfg b sl f 0x3C, pn_interrupt_pin := cfg8 cfg b sl f 0x3C,
       pn_min_grant := cfg8 cfg b sl f 0x3E, pn_max_latency := cfg8 cfg b sl f 0x3E\<rparr>, t) \<and> logged s t"
proof -
  have h:
    "ucast (cfg16 cfg b sl f 0x10) OR push_bit 16 (ucast (cfg16 cfg b sl f 0x12)) = cfg32 cfg b sl f 0x10"
    "ucast (cfg16 cfg b sl f 0x14) OR push_bit 16 (ucast (cfg16 cfg b sl f 0x16)) = cfg32 cfg b sl f 0x14"
    "ucast (cfg16 cfg b sl f 0x1C) OR push_bit 16 (ucast (cfg16 cfg b sl f 0x1E)) = cfg32 cfg b sl f 0x1C"
    "ucast (cfg16 cfg b sl f 0x20) OR push_bit 16 (ucast (cfg16 cfg b sl f 0x22)) = cfg32 cfg b sl f 0x20"
    "ucast (cfg16 cfg b sl f 0x24) OR push_bit 16 (ucast (cfg16 cfg b sl f 0x26)) = cfg32 cfg b sl f 0x24"
    "ucast (cfg16 cfg b sl f 0x28) OR push_bit 16 (ucast (cfg16 cfg b sl f 0x2A)) = cfg32 cfg b sl f 0x28"
    using cfg_halves[of cfg b sl f 16] cfg_halves[of cfg b sl f 20] cfg_halves[of cfg b sl f 28] cfg_halves[of cfg b sl f 32] cfg_halves[of cfg b sl f 36] cfg_halves[of cfg b sl f 40]
    by (simp_all add: cfg_offsets)
  have l: "ucast (cfg16 cfg b sl f off AND 0xFF) = cfg8 cfg b sl f off" if "unat off mod 4 < 3" for off
    using cfg_low[OF that] by (simp add: low_byte)
  have odd: "pci_config_read dev b sl f 0x3D s = (cfg16 cfg b sl f 0x3C, looked cfg b sl f 0x3D s)"
    "pci_config_read dev b sl f 0x3F s = (cfg16 cfg b sl f 0x3E, looked cfg b sl f 0x3F s)" for s :: "'a io_scheme"
    by (simp_all add: config_read[OF assms] cfg16_def cfg_offsets)
  show ?thesis
    by (simp add: pci_read_normal_def pci_config_read2_def odd config_read_even[OF assms] l h)
qed

text \<open>Every name of the two tables is found under its code: no code has two names.\<close>
lemma pci_msg_distinct: "distinct (map fst es) \<Longrightarrow> (c, m) \<in> set es \<Longrightarrow> pci_msg es c = m"
  by (induction es c rule: pci_msg.induct) (auto simp: image_iff)

lemma class_codes2:
  "map fst pci_class_codes2 =
    [0x0000, 0x0001, 0x0100, 0x0101, 0x0102, 0x0103, 0x0104, 0x0105, 0x0106, 0x0107, 0x0108, 0x0180, 0x0200,
     0x0201, 0x0202, 0x0203, 0x0204, 0x0205, 0x0206, 0x0207, 0x0208, 0x0280, 0x0300, 0x0301, 0x0302, 0x0380,
     0x0400, 0x0401, 0x0402, 0x0403, 0x0480, 0x0500, 0x0501, 0x0580, 0x0600, 0x0601, 0x0602, 0x0603, 0x0604,
     0x0605, 0x0606, 0x0607, 0x0608, 0x0609, 0x060A, 0x0680, 0x0700, 0x0701, 0x0702, 0x0703, 0x0704, 0x0705,
     0x0780, 0x0800, 0x0801, 0x0802, 0x0803, 0x0804, 0x0805, 0x0806, 0x0880, 0x0900, 0x0901, 0x0902, 0x0903,
     0x0904, 0x0980, 0x0A00, 0x0A80, 0x0B00, 0x0B01, 0x0B02, 0x0B10, 0x0B20, 0x0B30, 0x0B40, 0x0C00, 0x0C01,
     0x0C02, 0x0C03, 0x0C04, 0x0C05, 0x0C06, 0x0C07, 0x0C08, 0x0C09, 0x0D00, 0x0D01, 0x0D11, 0x0D12, 0x0D20,
     0x0D21, 0x0D80, 0x0E00, 0x0F01, 0x0F02, 0x0F03, 0x0F04, 0x1100, 0x1101, 0x1110, 0x1120, 0x1180]"
  by (simp only: pci_class_codes2_def list.map fst_conv)

lemma pci_subclass_string_names:
  assumes "(c, m) \<in> set pci_class_codes2"
  shows "pci_subclass_string (ucast (drop_bit 8 c)) (ucast c) = m"
proof -
  have "list_all (\<lambda>c. take_bit 16 c = c) (map fst pci_class_codes2)" unfolding class_codes2 by simp
  then have "take_bit 16 c = c" using assms by (auto simp: list_all_iff)
  moreover have "push_bit 8 (ucast (ucast (drop_bit 8 c) :: u8)) OR ucast (ucast c :: u8) = take_bit 16 c"
    by (rule bit_word_eqI) (auto simp: bit_simps not_le)
  moreover have "sorted_wrt (<) (map fst pci_class_codes2)"
    unfolding class_codes2 by (simp add: sorted_wrt2_simps del: sorted_wrt.simps(2))
  then have "distinct (map fst pci_class_codes2)" by (simp add: strict_sorted_iff)
  ultimately show ?thesis using assms pci_msg_distinct by (auto simp: pci_subclass_string_def)
qed

text \<open>A write ignores which half of the double word was meant, and always writes all of it.\<close>
lemma pci_config_write_upper_half: "pci_config_write b sl f 6 data s = pci_config_write b sl f 4 data s"
  by (simp add: pci_config_write_def pci_address_def)

subsection \<open>A device as the configuration space describes it\<close>

text \<open>What a kernel heap promises: the next addresses it hands out, none of them NULL or handed out twice. The heap
  is the part of the state that the driver does not see.\<close>
definition pci_pool :: "'a pci_scheme pci_ops \<Rightarrow> (u32 list \<Rightarrow> 'a \<Rightarrow> bool) \<Rightarrow> bool" where
  "pci_pool ops avail \<longleftrightarrow> (\<forall>x xs n s. avail (x # xs) (pci.more s) \<longrightarrow> x \<noteq> NULL \<and> x \<notin> set xs
     \<and> (\<exists>m. p_kmalloc ops n s = Some (x, s\<lparr>pci.more := m\<rparr>) \<and> avail xs m))"

lemma pci_poolD:
  assumes "pci_pool ops avail" and "avail (x # xs) (pci.more s)"
  obtains m where "p_kmalloc ops n s = Some (x, s\<lparr>pci.more := m\<rparr>)" "avail xs m" "x \<noteq> NULL" "x \<notin> set xs"
  using assms unfolding pci_pool_def by blast

definition function_device :: "(u32 \<Rightarrow> u32) \<Rightarrow> u16 \<Rightarrow> u16 \<Rightarrow> u16 \<Rightarrow> u32 \<Rightarrow> u32 \<Rightarrow> pci_device" where
  "function_device cfg bus slot function extra dev_id =
     (let b = ucast bus; sl = ucast slot; f = ucast function in
      \<lparr>pd_bus = bus, pd_slot = slot, pd_function = function,
       pd_vendor = cfg16 cfg b sl f 0, pd_device = cfg16 cfg b sl f 2,
       pd_status = cfg16 cfg b sl f 6, pd_command = cfg16 cfg b sl f 4,
       pd_class = cfg8 cfg b sl f 11, pd_subclass = cfg8 cfg b sl f 10,
       pd_prog_if = cfg8 cfg b sl f 9, pd_revision = cfg8 cfg b sl f 8,
       pd_bist = cfg8 cfg b sl f 15, pd_header_type = cfg8 cfg b sl f 14 AND 0x7F,
       pd_multi_fn = drop_bit 7 (cfg8 cfg b sl f 14), pd_latency_timer = cfg8 cfg b sl f 13,
       pd_cacheline_size = cfg8 cfg b sl f 12, pd_extra = extra, pd_dev_id = dev_id\<rparr>)"

lemma device_read:
  assumes "pci_bus dev cfg"
  shows "\<exists>t. pci_read_device dev (ucast bus) (ucast slot) (ucast fn)
      (d\<lparr>pd_bus := bus, pd_slot := slot, pd_function := fn, pd_vendor := cfg16 cfg (ucast bus) (ucast slot) (ucast fn) 0\<rparr>) s
    = (function_device cfg bus slot fn (pd_extra d) (pd_dev_id d), t) \<and> logged s t"
  using read_device[OF assms, of "ucast bus" "ucast slot" "ucast fn"
      "d\<lparr>pd_bus := bus, pd_slot := slot, pd_function := fn,
         pd_vendor := cfg16 cfg (ucast bus) (ucast slot) (ucast fn) 0\<rparr>" s]
  by (cases d) (simp add: function_device_def Let_def)

lemma function_device_simps [simp]:
  "pd_header_type (function_device cfg bus slot fn extra dev_id) = cfg8 cfg (ucast bus) (ucast slot) (ucast fn) 14 AND 0x7F"
  "(function_device cfg bus slot fn extra dev_id)\<lparr>pd_extra := q\<rparr> = function_device cfg bus slot fn q dev_id"
  "(function_device cfg bus slot fn extra dev_id)\<lparr>pd_dev_id := i\<rparr> = function_device cfg bus slot fn extra i"
  by (simp_all add: function_device_def Let_def)

definition function_normal :: "(u32 \<Rightarrow> u32) \<Rightarrow> u8 \<Rightarrow> u8 \<Rightarrow> u8 \<Rightarrow> pci_normal" where
  "function_normal cfg b sl f =
     \<lparr>pn_baseaddr_0 = cfg32 cfg b sl f 0x10, pn_baseaddr_1 = cfg32 cfg b sl f 0x14,
      pn_baseaddr_2 = ucast (cfg16 cfg b sl f 0x18) OR push_bit 16 (ucast (cfg16 cfg b sl f 0x18)),
      pn_baseaddr_3 = cfg32 cfg b sl f 0x1C, pn_baseaddr_4 = cfg32 cfg b sl f 0x20,
      pn_baseaddr_5 = cfg32 cfg b sl f 0x24, pn_cardbus_cis = cfg32 cfg b sl f 0x28,
      pn_subsystem = cfg16 cfg b sl f 0x2E, pn_subsystem_vendor = cfg16 cfg b sl f 0x2C,
      pn_expansion_rom = push_bit 16 (ucast (cfg16 cfg b sl f 0x30)) OR ucast (cfg16 cfg b sl f 0x32),
      pn_capability = cfg8 cfg b sl f 0x34, pn_interrupt_line = cfg8 cfg b sl f 0x3C, pn_interrupt_pin = cfg8 cfg b sl f 0x3C,
      pn_min_grant = cfg8 cfg b sl f 0x3E, pn_max_latency = cfg8 cfg b sl f 0x3E\<rparr>"

lemma normal_read:
  assumes "pci_bus dev cfg"
  shows "\<exists>t. pci_read_normal dev b sl f n s = (function_normal cfg b sl f, t) \<and> logged s t"
  using read_normal[OF assms, of b sl f n s] by (cases n) (simp add: function_normal_def)

lemma pcipci_read:
  assumes "pci_bus dev cfg"
  shows "\<exists>m t. pci_read_pcipci dev b sl f n s = (m, t) \<and> logged s t"
  unfolding pci_read_pcipci_def pci_config_read2_def config_read[OF assms] Let_def by simp

lemma new_device:
  assumes "ucast bus = b" "ucast slot = sl" "ucast fn = f" and "pci_bus dev cfg" and "pci_pool ops avail" and "avail (p # q # ps) (pci.more s)"
    and "cfg16 cfg b sl f 0 \<noteq> 0xFFFF" and "cfg8 cfg b sl f 14 AND 0x7F \<in> {0, 1, 2}"
  shows "\<exists>s' e xs. pci_device_new ops dev bus slot fn s = Some (p, s')
    \<and> pci_devs s' = (pci_devs s)(p \<mapsto> function_device cfg bus slot fn e (pd_dev_id (p_device ops)))
    \<and> devlist s' = devlist s \<and> avail xs (pci.more s') \<and> (xs = ps \<or> xs = q # ps) \<and> p \<notin> set xs
    \<and> (cfg8 cfg b sl f 14 AND 0x7F = 0 \<longrightarrow> e = q
        \<and> pci_normals s' = (pci_normals s)(q \<mapsto> function_normal cfg b sl f) \<and> pci_bridges s' = pci_bridges s)"
proof -
  note bus = assms(4) and pool = assms(5)
  have v: "pci_config_read dev b sl f 0 s = (cfg16 cfg b sl f 0, looked cfg b sl f 0 s)"
    by (simp add: config_read_even[OF bus])
  let ?s1 = "looked cfg b sl f 0 s"
  have same1: "pci_devs ?s1 = pci_devs s" "pci_normals ?s1 = pci_normals s" "pci_bridges ?s1 = pci_bridges s"
    "devlist ?s1 = devlist s" "pci.more ?s1 = pci.more s"
    by (simp_all add: looked_def outportl_def io_event_def)
  obtain m where m: "p_kmalloc ops 32 ?s1 = Some (p, ?s1\<lparr>pci.more := m\<rparr>)" "avail (q # ps) m" "p \<noteq> NULL" "p \<notin> set (q # ps)"
    using pci_poolD[OF pool, of p "q # ps" ?s1] assms(6) same1 by auto
  let ?d = "function_device cfg bus slot fn (pd_extra (p_device ops)) (pd_dev_id (p_device ops))"
  obtain t where t: "pci_read_device dev b sl f ((p_device ops)\<lparr>pd_bus := bus, pd_slot := slot, pd_function := fn,
      pd_vendor := cfg16 cfg b sl f 0\<rparr>) (?s1\<lparr>pci.more := m\<rparr>) = (?d, t)" "logged (?s1\<lparr>pci.more := m\<rparr>) t"
    using device_read[OF bus, of bus slot fn "p_device ops" "?s1\<lparr>pci.more := m\<rparr>"] assms(1-3) by auto
  let ?s4 = "t\<lparr>pci_devs := (pci_devs t)(p \<mapsto> ?d)\<rparr>"
  have same4: "pci_devs t = pci_devs s" "pci_normals t = pci_normals s" "pci_bridges t = pci_bridges s" "devlist t = devlist s" "pci.more t = m"
    using t(2) same1 by (auto simp: logged_def)
  have hd: "pd_header_type ?d = cfg8 cfg b sl f 14 AND 0x7F" by (simp add: assms(1-3))
  obtain m2 where m2: "avail ps m2" "q \<noteq> NULL"
      and take2: "\<And>n. \<exists>m. p_kmalloc ops n ?s4 = Some (q, ?s4\<lparr>pci.more := m\<rparr>) \<and> avail ps m"
    using pool m(2) same4 unfolding pci_pool_def by fastforce
  consider "cfg8 cfg b sl f 14 AND 0x7F = 0" | "cfg8 cfg b sl f 14 AND 0x7F = 1" | "cfg8 cfg b sl f 14 AND 0x7F = 2"
    using assms(8) by auto
  then show ?thesis
  proof cases
    case 1
    obtain m3 where m3: "p_kmalloc ops 44 ?s4 = Some (q, ?s4\<lparr>pci.more := m3\<rparr>)" "avail ps m3" using take2 by blast
    obtain u where n: "pci_read_normal dev b sl f (p_normal ops) (?s4\<lparr>pci.more := m3\<rparr>) = (function_normal cfg b sl f, u)"
        "logged (?s4\<lparr>pci.more := m3\<rparr>) u"
      using normal_read[OF bus] by blast
    have "pci_devs u = (pci_devs s)(p \<mapsto> ?d)" "pci_normals u = pci_normals s" "pci_bridges u = pci_bridges s"
      "devlist u = devlist s" "pci.more u = m3"
      using n(2) same4 by (auto simp: logged_def)
    then show ?thesis
      using assms(7) m(3,4) m2 m3(2) hd 1
      by (simp add: pci_device_new_def assms(1-3) v m(1) t(1) m3(1) n(1)) blast
  next
    case 2
    obtain m3 where m3: "p_kmalloc ops 40 ?s4 = Some (q, ?s4\<lparr>pci.more := m3\<rparr>)" "avail ps m3" using take2 by blast
    obtain n u where n: "pci_read_pcipci dev b sl f (p_pcipci ops) (?s4\<lparr>pci.more := m3\<rparr>) = (n, u)"
        "logged (?s4\<lparr>pci.more := m3\<rparr>) u"
      using pcipci_read[OF bus] by blast
    have "pci_devs u = (pci_devs s)(p \<mapsto> ?d)" "devlist u = devlist s" "pci.more u = m3"
      using n(2) same4 by (auto simp: logged_def)
    then show ?thesis
      using assms(7) m(3,4) m2 m3(2) hd 2
      by (simp add: pci_device_new_def assms(1-3) v m(1) t(1) m3(1) n(1)) blast
  next
    case 3
    then show ?thesis
      using assms(7) m(2-4) m2 hd same4
      by (simp add: pci_device_new_def assms(1-3) v m(1) t(1)) (intro conjI exI[of _ "pd_extra (p_device ops)"] exI[of _ "q # ps"], simp_all)
  qed
qed

text \<open>C36: A function with an ordinary header is read into a new record: identification, class, status and interrupt
  line are the bytes of its configuration space, and so are five of the six base addresses; the third base address
  repeats its low half, the expansion ROM address has its halves exchanged, and the interrupt pin and the maximal
  latency are copies of the byte before them.\<close>
theorem pci_device_new_reads:
  assumes "pci_bus dev cfg" and "pci_pool ops avail" and "avail (p # q # ps) (pci.more s)"
    and "cfg16 cfg (ucast bus) (ucast slot) (ucast fn) 0 \<noteq> 0xFFFF"
    and "cfg8 cfg (ucast bus) (ucast slot) (ucast fn) 14 AND 0x7F = 0"
  shows "\<exists>s'. pci_device_new ops dev bus slot fn s = Some (p, s')
    \<and> pci_devs s' = (pci_devs s)(p \<mapsto> function_device cfg bus slot fn q (pd_dev_id (p_device ops)))
    \<and> pci_normals s' = (pci_normals s)(q \<mapsto> function_normal cfg (ucast bus) (ucast slot) (ucast fn))
    \<and> pci_bridges s' = pci_bridges s \<and> devlist s' = devlist s"
proof -
  have "cfg8 cfg (ucast bus) (ucast slot) (ucast fn) 14 AND 0x7F \<in> {0, 1, 2}" using assms(5) by simp
  from new_device[OF refl refl refl assms(1-4) this] show ?thesis using assms(5) by blast
qed

definition one_device :: "u32 \<Rightarrow> u32" where
  "one_device a = (let reg = take_bit 8 a in
     if drop_bit 8 a = 0x800018 then (if reg = 0 then 0x813910EC else if reg = 0x10 then 0xC001 else if reg = 0x3C then 0x10B else 0)
     else 0xFFFFFFFF)"

definition config_host :: "(u32 \<Rightarrow> u32) \<Rightarrow> device" where
  "config_host cfg log place = (case last log of OutL p a \<Rightarrow> cfg a | _ \<Rightarrow> 0)"

text \<open>A heap that hands out the addresses of a list.\<close>
definition list_ops :: "u32 list pci_scheme pci_ops" where
  "list_ops = \<lparr>p_kmalloc = (\<lambda>n s. case pci.more s of [] \<Rightarrow> Some (NULL, s) | x # xs \<Rightarrow> Some (x, s\<lparr>pci.more := xs\<rparr>)),
     p_kfree = (\<lambda>p s. Some s), p_device = undefined, p_normal = undefined, p_pcipci = undefined, p_list = replicate 64 0\<rparr>"

lemma list_pool: "pci_pool list_ops (\<lambda>xs m. m = xs \<and> distinct xs \<and> NULL \<notin> set xs)"
  by (auto simp: pci_pool_def list_ops_def)

lemma config_host_bus: "pci_bus (config_host cfg) cfg"
  by (simp add: pci_bus_def config_host_def)

theorem pci_device_new_reads_witness:
  "\<exists>s'. pci_device_new list_ops (config_host one_device) 0 3 0
      \<lparr>io_log = [], pci_devs = Map.empty, pci_normals = Map.empty, pci_bridges = Map.empty, devlist = None, \<dots> = [0x100, 0x200]\<rparr> = Some (0x100, s')
    \<and> pci_devs s' = Map.empty(0x100 \<mapsto> function_device one_device 0 3 0 0x200 (pd_dev_id (p_device list_ops)))
    \<and> pci_normals s' = Map.empty(0x200 \<mapsto> function_normal one_device (ucast (0 :: u16)) (ucast (3 :: u16)) (ucast (0 :: u16)))
    \<and> pci_bridges s' = Map.empty \<and> devlist s' = None"
  using pci_device_new_reads[OF config_host_bus list_pool, where p = 256 and q = 512 and ps = "[]" and cfg = one_device and bus = 0 and slot = 3
      and fn = 0 and s = "\<lparr>io_log = [], pci_devs = Map.empty, pci_normals = Map.empty, pci_bridges = Map.empty, devlist = None, \<dots> = [0x100, 0x200]\<rparr>"]
  by (simp add: cfg16_def cfg8_def cfg32_def pci_address_def one_device_def)

subsection \<open>All functions are found\<close>

fun functions_from :: "u32 \<Rightarrow> u32 \<Rightarrow> u32 \<Rightarrow> nat \<Rightarrow> (u16 \<times> u16 \<times> u16) list" where
  "functions_from bus slot fn 0 = []"
| "functions_from bus slot fn (Suc n) = (ucast bus, ucast slot, ucast fn) # functions_from bus slot (fn + 1) n"

fun slots_from :: "u32 \<Rightarrow> u32 \<Rightarrow> nat \<Rightarrow> (u16 \<times> u16 \<times> u16) list" where
  "slots_from bus slot 0 = []"
| "slots_from bus slot (Suc n) = functions_from bus slot 0 8 @ slots_from bus (slot + 1) n"

fun buses_from :: "u32 \<Rightarrow> nat \<Rightarrow> (u16 \<times> u16 \<times> u16) list" where
  "buses_from bus 0 = []"
| "buses_from bus (Suc n) = slots_from bus 0 32 @ buses_from (bus + 1) n"

fun probe_all :: "'a pci_scheme pci_ops \<Rightarrow> device \<Rightarrow> (u16 \<times> u16 \<times> u16) list \<Rightarrow> 'a pci_scheme \<Rightarrow> 'a pci_scheme option" where
  "probe_all ops dev [] s = Some s"
| "probe_all ops dev ((bus, slot, fn) # fs) s = do {
     (p, s1) \<leftarrow> pci_device_new ops dev bus slot fn s;
     s2 \<leftarrow> (if p = NULL then Some s1 else pci_devlist_add p s1);
     probe_all ops dev fs s2 }"

lemma probe_all_append: "probe_all ops dev (fs @ gs) s = do { s1 \<leftarrow> probe_all ops dev fs s; probe_all ops dev gs s1 }"
  by (induction ops dev fs s rule: probe_all.induct) (auto split: bind_splits prod.splits)

lemma probe_functions_all: "probe_functions ops dev bus slot fn n s = probe_all ops dev (functions_from bus slot fn n) s"
  by (induction n arbitrary: fn s) (auto split: bind_splits)

lemma probe_slots_all: "probe_slots ops dev bus slot n s = probe_all ops dev (slots_from bus slot n) s"
  by (induction n arbitrary: slot s) (auto simp: probe_functions_all probe_all_append simp del: functions_from.simps split: bind_splits)

lemma probe_buses_all: "probe_buses ops dev bus n s = probe_all ops dev (buses_from bus n) s"
  by (induction n arbitrary: bus s) (auto simp: probe_slots_all probe_all_append simp del: slots_from.simps split: bind_splits)

abbreviation pci_present :: "(u32 \<Rightarrow> u32) \<Rightarrow> u16 \<times> u16 \<times> u16 \<Rightarrow> bool" where
  "pci_present cfg fn \<equiv> (case fn of (b, sl, f) \<Rightarrow> cfg16 cfg (ucast b) (ucast sl) (ucast f) 0 \<noteq> 0xFFFF)"

definition fn_holds :: "(u32 \<Rightarrow> u32) \<Rightarrow> 'a pci_scheme \<Rightarrow> u32 \<Rightarrow> u16 \<times> u16 \<times> u16 \<Rightarrow> bool" where
  "fn_holds cfg s p fn \<longleftrightarrow> (case fn of (b, sl, f) \<Rightarrow> \<exists>e i. pci_devs s p = Some (function_device cfg b sl f e i))"

text \<open>The list holds the first 63 of the functions found so far, and \<open>k\<close> allocations are still possible.\<close>
definition probe_inv :: "(u32 \<Rightarrow> u32) \<Rightarrow> (u32 list \<Rightarrow> 'a \<Rightarrow> bool) \<Rightarrow> nat \<Rightarrow> (u16 \<times> u16 \<times> u16) list \<Rightarrow> 'a pci_scheme \<Rightarrow> bool" where
  "probe_inv cfg avail k fs s \<longleftrightarrow> (\<exists>ps l xs. devlist s = Some l \<and> dl_max l = 64 \<and> dl_size l = of_nat (length ps)
     \<and> 64 \<le> length (dl_devices l) \<and> take (length ps) (dl_devices l) = ps \<and> list_all2 (fn_holds cfg s) ps (take 63 fs)
     \<and> avail xs (pci.more s) \<and> k \<le> length xs \<and> set ps \<inter> set xs = {})"

lemma probe_absent:
  assumes "pci_bus dev cfg" and "probe_inv cfg avail k fs s" and "\<not> pci_present cfg (b, sl, f)"
  shows "\<exists>s'. probe_all ops dev [(b, sl, f)] s = Some s' \<and> probe_inv cfg avail k fs s'"
proof -
  let ?t = "looked cfg (ucast b) (ucast sl) (ucast f) 0 s"
  have "pci_device_new ops dev b sl f s = Some (NULL, ?t)"
    using assms(3) by (simp add: pci_device_new_def config_read_even[OF assms(1)])
  moreover have "devlist ?t = devlist s" "pci_devs ?t = pci_devs s" "pci.more ?t = pci.more s"
    by (simp_all add: looked_def outportl_def io_event_def)
  ultimately show ?thesis
    using assms(2) by (simp add: probe_inv_def fn_holds_def[abs_def])
qed

lemma devlist_add_fits:
  assumes "devlist s = Some l" and "dl_max l = 64" and "dl_size l = of_nat n" and "n < 63" and "64 \<le> length (dl_devices l)"
    and "pci_devs s p = Some d"
  shows "pci_devlist_add p s = Some (s\<lparr>devlist := Some (l\<lparr>dl_devices := (dl_devices l)[n := p], dl_size := of_nat (Suc n)\<rparr>),
    pci_devs := (pci_devs s)(p \<mapsto> d\<lparr>pd_dev_id := of_nat n\<rparr>)\<rparr>)"
proof -
  have "\<not> (64 :: u32) \<le>s of_nat n + 1" "\<not> (of_nat n :: u32) <s 0" "unat (of_nat n :: u32) = n"
  proof -
    have e: "of_nat n + 1 = (of_nat (Suc n) :: u32)" by simp
    have u: "unat (of_nat n :: u32) = n" "unat (of_nat n + 1 :: u32) = Suc n"
      unfolding e using assms(4) by (auto intro!: unat_of_nat32 simp del: of_nat_Suc)
    then show "unat (of_nat n :: u32) = n" by simp
    show "\<not> (64 :: u32) \<le>s of_nat n + 1" "\<not> (of_nat n :: u32) <s 0"
      using sint_small[of "of_nat n + 1"] sint_small[of "of_nat n"] u assms(4) by (simp_all add: word_sle_eq word_sless_alt)
  qed
  then show ?thesis using assms by (simp add: pci_devlist_add_def aset_def ac_simps)
qed

lemma fn_holds_keep:
  assumes "list_all2 (fn_holds cfg s) ps fs" and "\<And>a. a \<in> set ps \<Longrightarrow> pci_devs t a = pci_devs s a"
  shows "list_all2 (fn_holds cfg t) ps fs"
  using assms(1) by (rule list.rel_mono_strong) (simp add: fn_holds_def assms(2) split: prod.splits)

lemma probe_present:
  assumes "pci_bus dev cfg" and "pci_pool ops avail" and "probe_inv cfg avail (k + 2) fs s" and "pci_present cfg (b, sl, f)"
    and "cfg8 cfg (ucast b) (ucast sl) (ucast f) 14 AND 0x7F \<in> {0, 1, 2}"
  shows "\<exists>s'. probe_all ops dev [(b, sl, f)] s = Some s' \<and> probe_inv cfg avail k (fs @ [(b, sl, f)]) s'"
proof -
  obtain ps l xs where i: "devlist s = Some l" "dl_max l = 64" "dl_size l = of_nat (length ps)" "64 \<le> length (dl_devices l)"
      "take (length ps) (dl_devices l) = ps" "list_all2 (fn_holds cfg s) ps (take 63 fs)" "avail xs (pci.more s)"
      "k + 2 \<le> length xs" "set ps \<inter> set xs = {}"
    using assms(3) unfolding probe_inv_def by blast
  obtain p q ys where xs: "xs = p # q # ys" using i(8) by (cases xs; cases "tl xs") auto
  have v: "cfg16 cfg (ucast b) (ucast sl) (ucast f) 0 \<noteq> 0xFFFF" using assms(4) by simp
  obtain s' e zs where n: "pci_device_new ops dev b sl f s = Some (p, s')"
      "pci_devs s' = (pci_devs s)(p \<mapsto> function_device cfg b sl f e (pd_dev_id (p_device ops)))"
      "devlist s' = devlist s" "avail zs (pci.more s')" "zs = ys \<or> zs = q # ys" "p \<notin> set zs"
    using new_device[OF refl refl refl assms(1,2) i(7)[unfolded xs] v assms(5)] by blast
  have p0: "p \<noteq> NULL" using pci_poolD[OF assms(2), of p "q # ys" s] i(7) xs by auto
  have zs: "k \<le> length zs" "set ps \<inter> set zs = {}" "p \<notin> set ps" using n(5) i(8,9) xs by auto
  have len: "length ps = min 63 (length fs)" using list_all2_lengthD[OF i(6)] by simp
  show ?thesis
  proof (cases "length ps < 63")
    case True
    let ?l = "l\<lparr>dl_devices := (dl_devices l)[length ps := p], dl_size := of_nat (Suc (length ps))\<rparr>"
    let ?t = "s'\<lparr>devlist := Some ?l, pci_devs := (pci_devs s')(p \<mapsto> function_device cfg b sl f e (of_nat (length ps)))\<rparr>"
    have a: "pci_devlist_add p s' = Some ?t"
      using devlist_add_fits[of s' l "length ps" p] i(1-4) n(2,3) True by simp
    have fs: "take 63 fs = fs" "take 63 (fs @ [(b, sl, f)]) = fs @ [(b, sl, f)]" using True len by simp_all
    have "list_all2 (fn_holds cfg ?t) ps fs"
      by (rule fn_holds_keep[OF i(6)[unfolded fs(1)]]) (use zs(3) n(2) in auto)
    then have "list_all2 (fn_holds cfg ?t) (ps @ [p]) (take 63 (fs @ [(b, sl, f)]))"
      unfolding fs(2) by (rule list_all2_appendI) (auto simp: fn_holds_def)
    moreover have "take (length (ps @ [p])) (dl_devices ?l) = ps @ [p]"
      using i(4,5) True by (simp add: take_Suc_conv_app_nth)
    ultimately have "probe_inv cfg avail k (fs @ [(b, sl, f)]) ?t"
      unfolding probe_inv_def using i(2,4) zs n(4,6)
      by (intro exI[of _ "ps @ [p]"] exI[of _ ?l] exI[of _ zs]) simp
    then show ?thesis using n(1) p0 a by simp
  next
    case False
    then have f63: "length ps = 63" using len by simp
    have "(64 :: u32) \<le>s 63 + 1" by simp
    then have a: "pci_devlist_add p s' = Some s'" using i(1-3) n(3) f63 by (simp add: pci_devlist_add_def)
    have "take 63 (fs @ [(b, sl, f)]) = take 63 fs" using f63 len by simp
    moreover have "list_all2 (fn_holds cfg s') ps (take 63 fs)"
      by (rule fn_holds_keep[OF i(6)]) (use zs(3) n(2) in auto)
    ultimately have "probe_inv cfg avail k (fs @ [(b, sl, f)]) s'"
      unfolding probe_inv_def using i(1-5) n(3,4) zs(1,2) by (intro exI[of _ ps] exI[of _ l] exI[of _ zs]) simp
    then show ?thesis using n(1) p0 a by simp
  qed
qed

lemma probe_all_inv:
  assumes "pci_bus dev cfg" and "pci_pool ops avail"
    and "\<forall>(b, sl, f)\<in>set gs. pci_present cfg (b, sl, f) \<longrightarrow> cfg8 cfg (ucast b) (ucast sl) (ucast f) 14 AND 0x7F \<in> {0, 1, 2}"
    and "probe_inv cfg avail (k + 2 * length gs) fs s"
  shows "\<exists>s'. probe_all ops dev gs s = Some s' \<and> probe_inv cfg avail k (fs @ filter (pci_present cfg) gs) s'"
  using assms(3,4)
proof (induction gs arbitrary: fs s)
  case (Cons g gs)
  obtain b sl f where g: "g = (b, sl, f)" by (cases g)
  have weaken: "probe_inv cfg avail (k + 2 * length gs) fs' t" if "probe_inv cfg avail (k + 2 * length gs + 2) fs' t" for fs' t
    using that unfolding probe_inv_def by (meson add_leD1)
  have "\<exists>t. probe_all ops dev [g] s = Some t \<and> probe_inv cfg avail (k + 2 * length gs) (fs @ filter (pci_present cfg) [g]) t"
  proof (cases "pci_present cfg g")
    case True
    then show ?thesis
      using probe_present[OF assms(1,2), of "k + 2 * length gs" fs s b sl f] Cons.prems unfolding g by (simp add: ac_simps)
  next
    case False
    then show ?thesis
      using probe_absent[OF assms(1) weaken, of fs s b sl f ops] Cons.prems(2) unfolding g by (simp add: ac_simps)
  qed
  then obtain t where t: "probe_all ops dev [g] s = Some t" "probe_inv cfg avail (k + 2 * length gs) (fs @ filter (pci_present cfg) [g]) t"
    by blast
  have "\<exists>s'. probe_all ops dev gs t = Some s' \<and> probe_inv cfg avail k ((fs @ filter (pci_present cfg) [g]) @ filter (pci_present cfg) gs) s'"
    by (rule Cons.IH) (use Cons.prems(1) t(2) in auto)
  then show ?case using t(1) probe_all_append[of ops dev "[g]" gs s] by auto
qed simp

text \<open>The functions of all buses, in the order \<open>pci_probe\<close> asks for them.\<close>
definition pci_functions :: "(u16 \<times> u16 \<times> u16) list" where
  "pci_functions = concat (map (\<lambda>b. concat (map (\<lambda>sl. map (\<lambda>f. (of_nat b, of_nat sl, of_nat f)) [0..<8]) [0..<32])) [0..<256])"

lemma ucast_of_nat32: "(ucast (of_nat n :: u32) :: u16) = of_nat n"
  by (rule bit_word_eqI) (simp add: bit_simps)

lemma functions_from_map: "functions_from bus slot (of_nat m) n = map (\<lambda>f. (ucast bus, ucast slot, of_nat f)) [m..<m + n]"
proof (induction n arbitrary: m)
  case (Suc n)
  have "[m..<m + Suc n] = m # [Suc m..<Suc m + n]" by (simp add: upt_rec)
  moreover have "(of_nat m + 1 :: u32) = of_nat (Suc m)" by simp
  ultimately show ?case using Suc[of "Suc m"] by (simp add: ucast_of_nat32 del: of_nat_Suc)
qed simp

lemma slots_from_map:
  "slots_from bus (of_nat m) n = concat (map (\<lambda>sl. map (\<lambda>f. (ucast bus, of_nat sl, of_nat f)) [0..<8]) [m..<m + n])"
proof (induction n arbitrary: m)
  case (Suc n)
  have "[m..<m + Suc n] = m # [Suc m..<Suc m + n]" by (simp add: upt_rec)
  moreover have "(of_nat m + 1 :: u32) = of_nat (Suc m)" by simp
  ultimately show ?case
    using Suc[of "Suc m"] functions_from_map[of bus "of_nat m" 0 8]
    by (simp add: ucast_of_nat32 del: of_nat_Suc functions_from.simps)
qed simp

lemma buses_from_map:
  "buses_from (of_nat m) n
    = concat (map (\<lambda>b. concat (map (\<lambda>sl. map (\<lambda>f. (of_nat b, of_nat sl, of_nat f)) [0..<8]) [0..<32])) [m..<m + n])"
proof (induction n arbitrary: m)
  case (Suc n)
  have "[m..<m + Suc n] = m # [Suc m..<Suc m + n]" by (simp add: upt_rec)
  moreover have "(of_nat m + 1 :: u32) = of_nat (Suc m)" by simp
  ultimately show ?case
    using Suc[of "Suc m"] slots_from_map[of "of_nat m" 0 32]
    by (simp add: ucast_of_nat32 del: of_nat_Suc slots_from.simps)
qed simp

lemma pci_probe_all: "pci_probe ops dev s = probe_all ops dev pci_functions s"
  using buses_from_map[of 0 256] by (simp add: pci_probe_def probe_buses_all pci_functions_def del: buses_from.simps)

lemma length_concat_const: "(\<And>x. x \<in> set xs \<Longrightarrow> length (h x) = k) \<Longrightarrow> length (concat (map h xs)) = length xs * k"
  by (induction xs) auto

lemma length_pci_functions: "length pci_functions = 65536"
proof -
  let ?sl = "\<lambda>b sl :: nat. map (\<lambda>f. (of_nat b :: u16, of_nat sl :: u16, of_nat f :: u16)) [0..<8]"
  have "length (concat (map (?sl b) [0..<32])) = 256" for b
    using length_concat_const[of "[0..<32]" "?sl b" 8] by simp
  then show ?thesis
    using length_concat_const[of "[0..<256]" "\<lambda>b. concat (map (?sl b) [0..<32])" 256] by (simp add: pci_functions_def)
qed

lemma pci_get_loop_finds:
  assumes "list_all2 (fn_holds cfg s) ps fs" and "take (length ps) (drop i ds) = ps"
  shows "\<exists>p. pci_get_loop vendor dvc ds i (length ps) s = Some p \<and>
    (case find (\<lambda>(b, sl, f). cfg16 cfg (ucast b) (ucast sl) (ucast f) 0 = vendor \<and> cfg16 cfg (ucast b) (ucast sl) (ucast f) 2 = dvc) fs of
       None \<Rightarrow> p = NULL | Some fn \<Rightarrow> p \<in> set ps \<and> fn_holds cfg s p fn)"
  using assms
proof (induction ps arbitrary: fs i)
  case (Cons p ps)
  from Cons.prems(1) obtain fn gs where fs: "fs = fn # gs" "fn_holds cfg s p fn" "list_all2 (fn_holds cfg s) ps gs"
    by (auto simp: list_all2_Cons1)
  obtain b sl f where fn: "fn = (b, sl, f)" by (cases fn)
  obtain e j where d: "pci_devs s p = Some (function_device cfg b sl f e j)" using fs(2) by (auto simp: fn_holds_def fn)
  have i: "i < length ds" "ds ! i = p" "take (length ps) (drop (Suc i) ds) = ps"
  proof -
    have "drop i ds \<noteq> []" using Cons.prems(2) by auto
    then show l: "i < length ds" by simp
    have "drop i ds = ds ! i # drop (Suc i) ds" using l by (simp add: Cons_nth_drop_Suc)
    then show "ds ! i = p" "take (length ps) (drop (Suc i) ds) = ps" using Cons.prems(2) by simp_all
  qed
  show ?case
  proof (cases "cfg16 cfg (ucast b) (ucast sl) (ucast f) 0 = vendor \<and> cfg16 cfg (ucast b) (ucast sl) (ucast f) 2 = dvc")
    case True
    then show ?thesis using fs(2) d i by (simp add: fs(1) fn aget_def function_device_def Let_def)
  next
    case False
    then show ?thesis using Cons.IH[OF fs(3) i(3)] d i
      by (auto simp: fs(1) fn aget_def function_device_def Let_def split: option.splits)
  qed
qed simp

text \<open>C37: After \<open>pci_init\<close>, \<open>pci_get\<close> returns the record of the first function, in the order of buses, slots and
  functions, that has the vendor and the device asked for, and NULL when there is none, as long as it is among the
  first 63 functions: the list has room for no more. No read of the configuration space, no allocation and no access
  to the list goes wrong.\<close>
theorem pci_get_finds:
  assumes "pci_bus dev cfg" and "pci_pool ops avail" and "avail xs (pci.more s)" and "131074 \<le> length xs"
    and "length (p_list ops) = 64"
    and "\<forall>(b, sl, f)\<in>set pci_functions. cfg16 cfg (ucast b) (ucast sl) (ucast f) 0 \<noteq> 0xFFFF
      \<longrightarrow> cfg8 cfg (ucast b) (ucast sl) (ucast f) 14 AND 0x7F \<in> {0, 1, 2}"
  shows "\<exists>s'. pci_init ops dev s = Some s' \<and> (\<forall>vendor dvc. \<exists>p. pci_get vendor dvc s' = Some p \<and>
    (case find (\<lambda>(b, sl, f). cfg16 cfg (ucast b) (ucast sl) (ucast f) 0 = vendor \<and> cfg16 cfg (ucast b) (ucast sl) (ucast f) 2 = dvc)
       (take 63 (filter (\<lambda>(b, sl, f). cfg16 cfg (ucast b) (ucast sl) (ucast f) 0 \<noteq> 0xFFFF) pci_functions)) of
       None \<Rightarrow> p = NULL
     | Some (b, sl, f) \<Rightarrow> \<exists>e i. pci_devs s' p = Some (function_device cfg b sl f e i)))"
proof -
  obtain p q ys where xs: "xs = p # q # ys" using assms(4) by (cases xs; cases "tl xs") auto
  obtain m1 where m1: "p_kmalloc ops 12 s = Some (p, s\<lparr>pci.more := m1\<rparr>)" "avail (q # ys) m1" "p \<noteq> NULL"
    using pci_poolD[OF assms(2)] assms(3) xs by metis
  obtain m2 where m2: "p_kmalloc ops (4 * PCI_MAXDEVS) (s\<lparr>pci.more := m1\<rparr>) = Some (q, s\<lparr>pci.more := m2\<rparr>)" "avail ys m2" "q \<noteq> NULL"
    using pci_poolD[OF assms(2), of q ys "s\<lparr>pci.more := m1\<rparr>"] m1(2) by auto
  let ?l = "\<lparr>dl_devices = p_list ops, dl_size = 0, dl_max = 64\<rparr>"
  let ?s = "s\<lparr>pci.more := m2, devlist := Some ?l\<rparr>"
  have new: "pci_devlist_new ops PCI_MAXDEVS s = Some (?l, s\<lparr>pci.more := m2\<rparr>)"
    using m1(1,3) m2(1,3) assms(5) by (simp add: pci_devlist_new_def PCI_MAXDEVS_def)
  have inv: "probe_inv cfg avail (0 + 2 * length pci_functions) [] ?s"
    unfolding probe_inv_def length_pci_functions using m2(2) assms(4,5) xs
    by (intro exI[of _ "[]"] exI[of _ ?l] exI[of _ ys]) simp
  have hdr: "\<forall>(b, sl, f)\<in>set pci_functions. pci_present cfg (b, sl, f)
      \<longrightarrow> cfg8 cfg (ucast b) (ucast sl) (ucast f) 14 AND 0x7F \<in> {0, 1, 2}"
    using assms(6) by simp
  obtain s' where s': "probe_all ops dev pci_functions ?s = Some s'"
      "probe_inv cfg avail 0 (filter (pci_present cfg) pci_functions) s'"
    using probe_all_inv[OF assms(1,2) hdr inv] unfolding append_Nil by blast
  obtain ps l where i: "devlist s' = Some l" "dl_size l = of_nat (length ps)" "take (length ps) (dl_devices l) = ps"
      "list_all2 (fn_holds cfg s') ps (take 63 (filter (pci_present cfg) pci_functions))"
    using s'(2) unfolding probe_inv_def by blast
  have "length ps \<le> 63" using list_all2_lengthD[OF i(4)] by simp
  then have n: "nat (sint (dl_size l)) = length ps"
    using unat_of_nat32[of "length ps"] sint_small[of "dl_size l"] i(2) by simp
  have "\<exists>p. pci_get vendor dvc s' = Some p \<and>
    (case find (\<lambda>(b, sl, f). cfg16 cfg (ucast b) (ucast sl) (ucast f) 0 = vendor \<and> cfg16 cfg (ucast b) (ucast sl) (ucast f) 2 = dvc)
       (take 63 (filter (pci_present cfg) pci_functions)) of
       None \<Rightarrow> p = NULL
     | Some (b, sl, f) \<Rightarrow> \<exists>e i. pci_devs s' p = Some (function_device cfg b sl f e i))" for vendor dvc
    using pci_get_loop_finds[OF i(4), of 0 "dl_devices l" vendor dvc] i(1,3) n
    by (auto simp: pci_get_def fn_holds_def split: option.splits)
  moreover have "pci_init ops dev s = Some s'" using new s'(1) by (simp add: pci_init_def pci_probe_all)
  ultimately show ?thesis by blast
qed

theorem pci_get_finds_witness:
  "\<exists>s'. pci_init list_ops (config_host one_device)
      \<lparr>io_log = [], pci_devs = Map.empty, pci_normals = Map.empty, pci_bridges = Map.empty, devlist = None,
       \<dots> = map of_nat [1..<131075]\<rparr> = Some s' \<and> (\<forall>vendor dvc. \<exists>p. pci_get vendor dvc s' = Some p \<and>
    (case find (\<lambda>(b, sl, f). cfg16 one_device (ucast b) (ucast sl) (ucast f) 0 = vendor \<and> cfg16 one_device (ucast b) (ucast sl) (ucast f) 2 = dvc)
       (take 63 (filter (\<lambda>(b, sl, f). cfg16 one_device (ucast b) (ucast sl) (ucast f) 0 \<noteq> 0xFFFF) pci_functions)) of
       None \<Rightarrow> p = NULL
     | Some (b, sl, f) \<Rightarrow> \<exists>e i. pci_devs s' p = Some (function_device one_device b sl f e i)))"
proof (rule pci_get_finds[OF config_host_bus list_pool])
  let ?xs = "map of_nat [1..<131075] :: u32 list"
  have "inj_on (of_nat :: nat \<Rightarrow> u32) {1..<131075}"
    by (rule inj_on_inverseI[of _ unat]) (simp add: unat_of_nat32)
  moreover have "NULL \<notin> set ?xs"
  proof
    assume "NULL \<in> set ?xs"
    then obtain n where "n \<in> {1..<131075}" "(of_nat n :: u32) = 0" by auto
    then show False using unat_of_nat32[of n] by simp
  qed
  ultimately show "pci.more \<lparr>io_log = [], pci_devs = Map.empty, pci_normals = Map.empty, pci_bridges = Map.empty, devlist = None, \<dots> = ?xs\<rparr> = ?xs
      \<and> distinct ?xs \<and> NULL \<notin> set ?xs"
    by (simp add: distinct_map)
  show "131074 \<le> length ?xs" by simp
  show "length (p_list list_ops) = 64" by (simp add: list_ops_def)
  show "\<forall>(b, sl, f)\<in>set pci_functions. cfg16 one_device (ucast b) (ucast sl) (ucast f) 0 \<noteq> 0xFFFF
      \<longrightarrow> cfg8 one_device (ucast b) (ucast sl) (ucast f) 14 AND 0x7F \<in> {0, 1, 2}"
    by (auto simp: cfg8_def cfg16_def cfg32_def one_device_def pci_address_def take_bit_push_bit)
qed

end
