(* ===== verification/Ps2.thy ===== *)
theory Ps2
  imports Kprint Interrupts
begin

text \<open>
  The PS/2 controller, keyboard and mouse: \<open>src/src/drivers/ps2/\<close> (\<open>io.c\<close>, \<open>cmd.c\<close>, \<open>kb.c\<close>, \<open>mouse.c\<close>, \<open>init.c\<close>)
  and the key table of \<open>src/src/include/drivers/scancodes.h\<close>. The console the interrupt handlers print on is part of the
  state and shares the log of the devices. Waiting for the controller may not end.
\<close>

record ps2 = irq +
  ps2_tty :: console
  ps2_first_device :: bool
  ps2_second_device :: bool
  mouse_state :: "u8 list"
  mouse_index :: u8

definition PS2_DATA_PORT :: u16 where "PS2_DATA_PORT = 0x60"
definition PS2_STAT_PORT :: u16 where "PS2_STAT_PORT = 0x64"

definition PS2_CMD_WRITE_IN_PORT_2 :: u8 where "PS2_CMD_WRITE_IN_PORT_2 = 0xD4"
definition PS2_CMD_READ_CONF :: u8 where "PS2_CMD_READ_CONF = 0x20"
definition PS2_CMD_WRITE_CONF :: u8 where "PS2_CMD_WRITE_CONF = 0x60"
definition PS2_CMD_DISABLE_PORT2 :: u8 where "PS2_CMD_DISABLE_PORT2 = 0xA7"
definition PS2_CMD_ENABLE_PORT2 :: u8 where "PS2_CMD_ENABLE_PORT2 = 0xA8"
definition PS2_CMD_TEST_PORT2 :: u8 where "PS2_CMD_TEST_PORT2 = 0xA9"
definition PS2_CMD_SELF_TEST :: u8 where "PS2_CMD_SELF_TEST = 0xAA"
definition PS2_CMD_TEST_PORT1 :: u8 where "PS2_CMD_TEST_PORT1 = 0xAB"
definition PS2_CMD_DISABLE_PORT1 :: u8 where "PS2_CMD_DISABLE_PORT1 = 0xAD"
definition PS2_CMD_ENABLE_PORT1 :: u8 where "PS2_CMD_ENABLE_PORT1 = 0xAE"
definition PS2_DEV_IDENTIFY :: u8 where "PS2_DEV_IDENTIFY = 0xF2"
definition PS2_DEV_ENABLE_SCAN :: u8 where "PS2_DEV_ENABLE_SCAN = 0xF4"
definition PS2_DEV_DISABLE_SCAN :: u8 where "PS2_DEV_DISABLE_SCAN = 0xF5"
definition PS2_DEV_DEFAULTS :: u8 where "PS2_DEV_DEFAULTS = 0xF6"
definition PS2_DEV_RESET_PORT :: u8 where "PS2_DEV_RESET_PORT = 0xFF"
definition PS2_RES_OK :: u8 where "PS2_RES_OK = 0xFA"
definition PS2_RES_TESTOK :: u8 where "PS2_RES_TESTOK = 0xAA"
definition PS2_CONF_INT1 :: u8 where "PS2_CONF_INT1 = 0x01"
definition PS2_CONF_INT2 :: u8 where "PS2_CONF_INT2 = 0x02"
definition PS2_CONF_CLOCK2 :: u8 where "PS2_CONF_CLOCK2 = 0x20"
definition PS2_CONF_TRANSL :: u8 where "PS2_CONF_TRANSL = 0x40"
definition PS2_STAT_OUTPUT :: u8 where "PS2_STAT_OUTPUT = 0x01"
definition PS2_STAT_INPUT :: u8 where "PS2_STAT_INPUT = 0x02"

subsection \<open>io.c\<close>

definition ps2_read_status :: "device \<Rightarrow> 'a io_scheme \<Rightarrow> u8 \<times> 'a io_scheme" where
  "ps2_read_status dev = inportb dev PS2_STAT_PORT"

partial_function (option) ps2_wait_output :: "device \<Rightarrow> 'a io_scheme \<Rightarrow> 'a io_scheme option" where
  "ps2_wait_output dev s =
     (let (st, s1) = ps2_read_status dev s in if st AND PS2_STAT_OUTPUT = 0 then ps2_wait_output dev s1 else Some s1)"

partial_function (option) ps2_wait_input :: "device \<Rightarrow> 'a io_scheme \<Rightarrow> 'a io_scheme option" where
  "ps2_wait_input dev s =
     (let (st, s1) = ps2_read_status dev s in if st AND PS2_STAT_INPUT \<noteq> 0 then ps2_wait_input dev s1 else Some s1)"

definition ps2_read_data :: "device \<Rightarrow> 'a io_scheme \<Rightarrow> (u8 \<times> 'a io_scheme) option" where
  "ps2_read_data dev s = do { s1 \<leftarrow> ps2_wait_output dev s; Some (inportb dev PS2_DATA_PORT s1) }"

definition ps2_write_data :: "device \<Rightarrow> u8 \<Rightarrow> 'a io_scheme \<Rightarrow> 'a io_scheme option" where
  "ps2_write_data dev data s = do { s1 \<leftarrow> ps2_wait_input dev s; Some (outportb PS2_DATA_PORT data s1) }"

partial_function (option) ps2_flush_buffer :: "device \<Rightarrow> 'a io_scheme \<Rightarrow> 'a io_scheme option" where
  "ps2_flush_buffer dev s =
     (let (st, s1) = ps2_read_status dev s in
      if st AND PS2_STAT_OUTPUT \<noteq> 0 then ps2_flush_buffer dev (snd (inportb dev PS2_DATA_PORT s1)) else Some s1)"

definition ps2_write_command :: "device \<Rightarrow> u8 \<Rightarrow> u8 \<Rightarrow> bool \<Rightarrow> 'a io_scheme \<Rightarrow> (u8 \<times> 'a io_scheme) option" where
  "ps2_write_command dev command data response s = do {
     let s1 = outportb PS2_STAT_PORT command s;
     s2 \<leftarrow> (if data \<noteq> 0 then ps2_write_data dev data s1 else Some s1);
     if response then ps2_read_data dev s2 else Some (0, s2) }"

definition ps2_write_device_command :: "device \<Rightarrow> u8 \<Rightarrow> u8 \<Rightarrow> 'a io_scheme \<Rightarrow> (u8 \<times> 'a io_scheme) option" where
  "ps2_write_device_command dev port cmd s = do {
     (_, s1) \<leftarrow> (if port = 2 then ps2_write_command dev PS2_CMD_WRITE_IN_PORT_2 0 False s else Some (0, s));
     s2 \<leftarrow> ps2_write_data dev cmd s1;
     ps2_read_data dev s2 }"

subsection \<open>kb.c\<close>

text \<open>128 entries; those not listed are 0. From 0x80 on they stand for keys without a character.\<close>
definition kb_us :: "u32 list" where
  "kb_us =
    [0, 27, 49, 50, 51, 52, 53, 54, 55, 56, 57, 48, 45, 61, 8, 9, 113, 119, 101, 114, 116, 121, 117,
     105, 111, 112, 91, 93, 10, 0x80, 97, 115, 100, 102, 103, 104, 106, 107, 108, 59, 39, 96, 0x81, 0,
     122, 120, 99, 118, 98, 110, 109, 44, 46, 47, 0x82, 42, 0x83, 32, 0x84, 0x85, 0x86, 0x87, 0x88,
     0x89, 0x8A, 0x8B, 0x8C, 0x8D, 0x8E, 0x8F, 0x90, 55, 56, 57, 45, 52, 53, 54, 43, 49, 50, 51, 48, 46,
     0x91, 0x92]
    @ replicate 42 0"

text \<open>\<open>kprintf\<close> on the console of the state.\<close>
definition tty_print :: "device \<Rightarrow> u8 list \<Rightarrow> karg list \<Rightarrow> 'a ps2_scheme \<Rightarrow> 'a ps2_scheme option" where
  "tty_print dev fmt args s = do {
     c \<leftarrow> kprintf dev fmt args ((ps2_tty s)\<lparr>io_log := io_log s\<rparr>);
     Some (s\<lparr>ps2_tty := c, io_log := io_log c\<rparr>) }"

text \<open>A format that is a line of text.\<close>
definition line_fmt :: "string \<Rightarrow> u8 list" where
  "line_fmt txt = map of_char txt @ [10, 0]"

text \<open>One scancode: bit 7 says that the key was released.\<close>
definition kb_key :: "device \<Rightarrow> u8 \<Rightarrow> 'a ps2_scheme \<Rightarrow> 'a ps2_scheme option" where
  "kb_key dev scancode s = do {
     let down = (scancode AND 0x80 = 0);
     a \<leftarrow> aget kb_us (unat (scancode AND NOT 0x80));
     let ascii = (ucast a :: u8);
     if ascii > 0x7F then Some s
     else if down then tty_print dev [37, 99, 0] [Word (ucast ascii)] s
     else Some s }"

partial_function (option) ps2_kb_interrupt :: "device \<Rightarrow> 'a ps2_scheme \<Rightarrow> 'a ps2_scheme option" where
  "ps2_kb_interrupt dev s =
     (let (st, s1) = ps2_read_status dev s in
      if st AND PS2_STAT_OUTPUT \<noteq> 0 then do {
        (scancode, s2) \<leftarrow> ps2_read_data dev s1;
        s3 \<leftarrow> kb_key dev scancode s2;
        ps2_kb_interrupt dev s3 }
      else Some s1)"

definition ps2_kb_setup :: "u32 \<Rightarrow> u8 \<Rightarrow> 'a ps2_scheme \<Rightarrow> (bool \<times> 'a ps2_scheme) option" where
  "ps2_kb_setup kb_interrupt port s = do { s1 \<leftarrow> irq_register 1 kb_interrupt s; Some (True, s1) }"

subsection \<open>mouse.c\<close>

text \<open>\<open>(sign ? 0xFFFFFF00 : 0) | byte\<close>, an \<open>int32_t\<close>.\<close>
definition mouse_delta :: "u8 \<Rightarrow> u8 \<Rightarrow> u8 \<Rightarrow> u32" where
  "mouse_delta sign st byte = (if st AND sign \<noteq> 0 then 0xFFFFFF00 else 0) OR ucast byte"

definition mouse_print :: "device \<Rightarrow> u8 list \<Rightarrow> 'a ps2_scheme \<Rightarrow> 'a ps2_scheme option" where
  "mouse_print dev m s = do {
     st \<leftarrow> aget m 0; xm \<leftarrow> aget m 1; ym \<leftarrow> aget m 2;
     s1 \<leftarrow> (if st AND 1 \<noteq> 0 then tty_print dev [108, 101, 102, 116, 32, 0] [] s else Some s);
     s2 \<leftarrow> (if st AND 4 \<noteq> 0 then tty_print dev [99, 101, 110, 116, 101, 114, 32, 0] [] s1 else Some s1);
     s3 \<leftarrow> (if st AND 2 \<noteq> 0 then tty_print dev [114, 105, 103, 104, 116, 32, 0] [] s2 else Some s2);
     tty_print dev [37, 100, 32, 37, 100, 10, 0] [Word (mouse_delta 0x10 st xm), Word (mouse_delta 0x20 st ym)] s3 }"

definition ps2_mouse_read :: "device \<Rightarrow> 'a ps2_scheme \<Rightarrow> 'a ps2_scheme option" where
  "ps2_mouse_read dev s = do {
     (b, s1) \<leftarrow> ps2_read_data dev s;
     m \<leftarrow> aset (mouse_state s1) (unat (mouse_index s1)) b;
     let s2 = s1\<lparr>mouse_state := m, mouse_index := mouse_index s1 + 1\<rparr>;
     if mouse_index s2 = 3 then mouse_print dev m (s2\<lparr>mouse_index := 0\<rparr>) else Some s2 }"

partial_function (option) ps2_mouse_interrupt :: "device \<Rightarrow> 'a ps2_scheme \<Rightarrow> 'a ps2_scheme option" where
  "ps2_mouse_interrupt dev s =
     (let (st, s1) = ps2_read_status dev s in
      if st AND PS2_STAT_OUTPUT \<noteq> 0 then do { s2 \<leftarrow> ps2_mouse_read dev s1; ps2_mouse_interrupt dev s2 }
      else Some s1)"

definition ps2_mouse_setup :: "device \<Rightarrow> u32 \<Rightarrow> u8 \<Rightarrow> 'a ps2_scheme \<Rightarrow> (bool \<times> 'a ps2_scheme) option" where
  "ps2_mouse_setup dev mouse_interrupt port s = do {
     s0 \<leftarrow> tty_print dev (line_fmt ''ps/2 mouse up on port %d'') [Word (ucast port)] s;
     (r1, s1) \<leftarrow> ps2_write_device_command dev port PS2_DEV_DEFAULTS s0;
     if r1 \<noteq> PS2_RES_OK then Some (False, s1)
     else do {
       (r2, s2) \<leftarrow> ps2_write_device_command dev port PS2_DEV_ENABLE_SCAN s1;
       if r2 \<noteq> PS2_RES_OK then Some (False, s2)
       else do { s3 \<leftarrow> irq_register 12 mouse_interrupt s2; Some (True, s3) } } }"

subsection \<open>cmd.c\<close>

definition ps2_read_configuration :: "device \<Rightarrow> 'a io_scheme \<Rightarrow> (u8 \<times> 'a io_scheme) option" where
  "ps2_read_configuration dev = ps2_write_command dev PS2_CMD_READ_CONF 0 True"

definition ps2_write_configuration :: "device \<Rightarrow> u8 \<Rightarrow> 'a io_scheme \<Rightarrow> 'a io_scheme option" where
  "ps2_write_configuration dev byte s = map_option snd (ps2_write_command dev PS2_CMD_WRITE_CONF byte False s)"

definition ps2_toggle_port :: "device \<Rightarrow> u8 \<Rightarrow> bool \<Rightarrow> 'a io_scheme \<Rightarrow> 'a io_scheme option" where
  "ps2_toggle_port dev port toggle s = do {
     s1 \<leftarrow> ps2_flush_buffer dev s;
     if port = 1 then map_option snd (ps2_write_command dev (if toggle then PS2_CMD_ENABLE_PORT1 else PS2_CMD_DISABLE_PORT1) 0 False s1)
     else if port = 2 then map_option snd (ps2_write_command dev (if toggle then PS2_CMD_ENABLE_PORT2 else PS2_CMD_DISABLE_PORT2) 0 False s1)
     else Some s1 }"

definition ps2_self_test :: "device \<Rightarrow> 'a io_scheme \<Rightarrow> (bool \<times> 'a io_scheme) option" where
  "ps2_self_test dev s = do { (r, s1) \<leftarrow> ps2_write_command dev PS2_CMD_SELF_TEST 0 True s; Some (r = 0x55, s1) }"

definition ps2_test_devices :: "device \<Rightarrow> 'a ps2_scheme \<Rightarrow> (bool \<times> 'a ps2_scheme) option" where
  "ps2_test_devices dev s = do {
     s1 \<leftarrow> ps2_flush_buffer dev s;
     (r, s2) \<leftarrow> ps2_write_command dev PS2_CMD_TEST_PORT1 0 True s1;
     let success = (r = 0);
     let s3 = s2\<lparr>ps2_first_device := success\<rparr>;
     if ps2_second_device s3 then do {
       (r2, s4) \<leftarrow> ps2_write_command dev PS2_CMD_TEST_PORT2 0 True s3;
       Some (success \<or> r2 = 0, s4\<lparr>ps2_second_device := (r2 = 0)\<rparr>) }
     else Some (success, s3) }"

definition ps2_reset_devices :: "device \<Rightarrow> 'a ps2_scheme \<Rightarrow> (bool \<times> 'a ps2_scheme) option" where
  "ps2_reset_devices dev s = do {
     s1 \<leftarrow> ps2_flush_buffer dev s;
     (success, s2) \<leftarrow> (if ps2_first_device s1 then do {
         (response, t) \<leftarrow> ps2_write_device_command dev 1 PS2_DEV_RESET_PORT s1;
         (selftest, t2) \<leftarrow> ps2_read_data dev t;
         Some (response = PS2_RES_OK \<and> selftest = PS2_RES_TESTOK, t2) }
       else Some (True, s1));
     if ps2_second_device s2 then do {
       (response, t) \<leftarrow> ps2_write_device_command dev 2 PS2_DEV_RESET_PORT s2;
       (selftest, t2) \<leftarrow> ps2_read_data dev t;
       Some (success \<or> (response = PS2_RES_OK \<and> selftest = PS2_RES_TESTOK), t2) }
     else Some (success, s2) }"

definition ps2_get_device_type :: "device \<Rightarrow> u8 \<Rightarrow> 'a ps2_scheme \<Rightarrow> (u16 \<times> 'a ps2_scheme) option" where
  "ps2_get_device_type dev port s = do {
     s1 \<leftarrow> ps2_flush_buffer dev s;
     (r, s2) \<leftarrow> ps2_write_device_command dev port PS2_DEV_DISABLE_SCAN s1;
     if r \<noteq> PS2_RES_OK then do { s3 \<leftarrow> tty_print dev (line_fmt ''ps/2 failed to disable scanning'') [] s2; Some (0xFF, s3) }
     else do {
       (r2, s3) \<leftarrow> ps2_write_device_command dev port PS2_DEV_IDENTIFY s2;
       if r2 \<noteq> PS2_RES_OK then do { s4 \<leftarrow> tty_print dev (line_fmt ''ps/2 failed to identify'') [] s3; Some (0xFF, s4) }
       else do {
         (lo, s4) \<leftarrow> ps2_read_data dev s3;
         (res, s5) \<leftarrow> (if lo = 0xAB
           then do { (b, t) \<leftarrow> ps2_read_data dev s4; Some (push_bit 8 (ucast lo) OR ucast b :: u16, t) }
           else Some (ucast lo, s4));
         s6 \<leftarrow> tty_print dev (line_fmt ''ps2 port %d: %x'') [Word (ucast port), Word (ucast res)] s5;
         Some (res, s6) } } }"

definition ps2_setup :: "device \<Rightarrow> 'a ps2_scheme \<Rightarrow> (bool \<times> 'a ps2_scheme) option" where
  "ps2_setup dev s = do {
     s1 \<leftarrow> ps2_toggle_port dev 1 False s;
     s2 \<leftarrow> ps2_toggle_port dev 2 False s1;
     s3 \<leftarrow> ps2_flush_buffer dev s2;
     (conf0, s4) \<leftarrow> ps2_read_configuration dev s3;
     let conf = conf0 AND NOT PS2_CONF_INT1 AND NOT PS2_CONF_INT2 AND NOT PS2_CONF_TRANSL;
     s5 \<leftarrow> ps2_write_configuration dev conf s4;
     let s6 = s5\<lparr>ps2_second_device := (conf AND PS2_CONF_CLOCK2 \<noteq> 0)\<rparr>;
     (ok, s7) \<leftarrow> ps2_self_test dev s6;
     if \<not> ok then do { t \<leftarrow> tty_print dev (line_fmt ''ps2 failed self test'') [] s7; Some (False, t) }
     else do {
       s8 \<leftarrow> (if ps2_second_device s7 then do {
           t \<leftarrow> ps2_toggle_port dev 2 True s7;
           (conf, t1) \<leftarrow> ps2_read_configuration dev (io_wait t);
           if conf AND PS2_CONF_CLOCK2 \<noteq> 0 then Some (t1\<lparr>ps2_second_device := False\<rparr>)
           else ps2_toggle_port dev 2 False t1 }
         else Some s7);
       (ok, s9) \<leftarrow> ps2_test_devices dev s8;
       if \<not> ok then do { t \<leftarrow> tty_print dev (line_fmt ''ps2 failed device tests'') [] s9; Some (False, t) }
       else do {
         s10 \<leftarrow> (if ps2_first_device s9 then ps2_toggle_port dev 1 True s9 else Some s9);
         s11 \<leftarrow> (if ps2_second_device s10 then ps2_toggle_port dev 2 True s10 else Some s10);
         (conf, s12) \<leftarrow> ps2_read_configuration dev s11;
         s13 \<leftarrow> ps2_write_configuration dev
           (conf OR (if ps2_first_device s12 then PS2_CONF_INT1 else 0) OR (if ps2_second_device s12 then PS2_CONF_INT2 else 0)
            OR PS2_CONF_TRANSL) s12;
         (ok, s14) \<leftarrow> ps2_reset_devices dev s13;
         if ok then Some (True, s14)
         else do { t \<leftarrow> tty_print dev (line_fmt ''ps2 failed reset devices'') [] s14; Some (False, t) } } } }"

text \<open>The two types of mouse and keyboard identifiers that have a driver.\<close>
definition ps2_setup_device :: "device \<Rightarrow> u32 \<Rightarrow> u32 \<Rightarrow> u8 \<Rightarrow> bool \<Rightarrow> 'a ps2_scheme \<Rightarrow> (bool \<times> 'a ps2_scheme) option" where
  "ps2_setup_device dev kb_interrupt mouse_interrupt port success s = do {
     (ty, s1) \<leftarrow> ps2_get_device_type dev port s;
     if ty = 0xAB41 \<or> ty = 0xABC1 \<or> ty = 0xAB83 then (if success then ps2_kb_setup kb_interrupt port s1 else Some (False, s1))
     else if ty = 0x0000 \<or> ty = 0x0003 \<or> ty = 0x0004 then (if success then ps2_mouse_setup dev mouse_interrupt port s1 else Some (False, s1))
     else Some (success, s1) }"

definition ps2_setup_devices :: "device \<Rightarrow> u32 \<Rightarrow> u32 \<Rightarrow> 'a ps2_scheme \<Rightarrow> (bool \<times> 'a ps2_scheme) option" where
  "ps2_setup_devices dev kb_interrupt mouse_interrupt s = do {
     (success, s1) \<leftarrow> (if ps2_first_device s then ps2_setup_device dev kb_interrupt mouse_interrupt 1 True s else Some (True, s));
     if ps2_second_device s1 then ps2_setup_device dev kb_interrupt mouse_interrupt 2 success s1 else Some (success, s1) }"

subsection \<open>init.c\<close>

definition ps2_init :: "device \<Rightarrow> u32 \<Rightarrow> u32 \<Rightarrow> 'a ps2_scheme \<Rightarrow> 'a ps2_scheme option" where
  "ps2_init dev kb_interrupt mouse_interrupt s = do {
     (ok, s1) \<leftarrow> ps2_setup dev s;
     if \<not> ok then Some s1
     else do {
       (ok, s2) \<leftarrow> ps2_setup_devices dev kb_interrupt mouse_interrupt s1;
       if \<not> ok then Some s2 else tty_print dev (line_fmt ''ps/2 controller enabled.'') [] s2 } }"

subsection \<open>What was read and written\<close>

definition port_reads :: "u16 \<Rightarrow> io_event list \<Rightarrow> u8 list" where
  "port_reads port log = concat (map (\<lambda>e. case e of InB p v \<Rightarrow> if p = port then [v] else [] | _ \<Rightarrow> []) log)"

definition port_writes :: "u16 \<Rightarrow> io_event list \<Rightarrow> u8 list" where
  "port_writes port log = concat (map (\<lambda>e. case e of OutB p v \<Rightarrow> if p = port then [v] else [] | _ \<Rightarrow> []) log)"

lemma port_events [simp]:
  "port_reads p [] = []" "port_writes p [] = []"
  "port_reads p (InB q v # es) = (if q = p then v # port_reads p es else port_reads p es)"
  "port_writes p (InB q v # es) = port_writes p es"
  "port_reads p (OutB q v # es) = port_reads p es"
  "port_writes p (OutB q v # es) = (if q = p then v # port_writes p es else port_writes p es)"
  "port_reads p (es @ fs) = port_reads p es @ port_reads p fs"
  "port_writes p (es @ fs) = port_writes p es @ port_writes p fs"
  by (simp_all add: port_reads_def port_writes_def)

text \<open>A controller whose output buffer delivers \<open>bs\<close>, byte by byte, and says so in its status.\<close>
definition output_buffer :: "device \<Rightarrow> u8 list \<Rightarrow> bool" where
  "output_buffer dev bs \<longleftrightarrow> (\<forall>log. let k = length (port_reads PS2_DATA_PORT log) in
     (ucast (dev log (Port PS2_STAT_PORT)) :: u8) AND PS2_STAT_OUTPUT = (if k < length bs then 1 else 0)
     \<and> (k < length bs \<longrightarrow> ucast (dev log (Port PS2_DATA_PORT)) = bs ! k))"

definition pending :: "u8 list \<Rightarrow> 'a io_scheme \<Rightarrow> u8 list" where
  "pending bs s = drop (length (port_reads PS2_DATA_PORT (io_log s))) bs"

lemma status_read:
  assumes "output_buffer dev bs"
  shows "\<exists>st s1. ps2_read_status dev s = (st, s1) \<and> (st AND PS2_STAT_OUTPUT = 0 \<longleftrightarrow> pending bs s = [])
    \<and> s1 = s\<lparr>io_log := io_log s @ [InB PS2_STAT_PORT st]\<rparr> \<and> pending bs s1 = pending bs s"
proof -
  have ports: "PS2_STAT_PORT \<noteq> PS2_DATA_PORT" by (simp add: PS2_STAT_PORT_def PS2_DATA_PORT_def)
  have "(ucast (dev (io_log s) (Port PS2_STAT_PORT)) :: u8) AND PS2_STAT_OUTPUT
      = (if length (port_reads PS2_DATA_PORT (io_log s)) < length bs then 1 else 0)"
    using assms by (simp add: output_buffer_def Let_def)
  then show ?thesis using ports
    by (auto simp: ps2_read_status_def inportb_def io_event_def Let_def pending_def)
qed

lemma data_port:
  assumes "output_buffer dev bs" and "pending bs s = b # rest"
  shows "\<exists>s1. inportb dev PS2_DATA_PORT s = (b, s1)
    \<and> s1 = s\<lparr>io_log := io_log s @ [InB PS2_DATA_PORT b]\<rparr> \<and> pending bs s1 = rest"
proof -
  let ?k = "length (port_reads PS2_DATA_PORT (io_log s))"
  have d: "drop ?k bs = b # rest" using assms(2) by (simp add: pending_def)
  then have k: "?k < length bs" by (metis drop_all leI list.distinct(1))
  then have "bs ! ?k = b" using d by (metis nth_via_drop)
  then have "(ucast (dev (io_log s) (Port PS2_DATA_PORT)) :: u8) = b"
    using assms(1) k by (simp add: output_buffer_def Let_def)
  moreover have "drop (Suc ?k) bs = rest" using d by (metis drop_Suc list.sel(3) tl_drop)
  ultimately show ?thesis by (simp add: inportb_def io_event_def Let_def pending_def)
qed

lemma data_read:
  assumes "output_buffer dev bs" and "pending bs s = b # rest"
  shows "\<exists>st s1. ps2_read_data dev s = Some (b, s1)
    \<and> s1 = s\<lparr>io_log := io_log s @ [InB PS2_STAT_PORT st, InB PS2_DATA_PORT b]\<rparr> \<and> pending bs s1 = rest"
proof -
  obtain st s1 where s1: "ps2_read_status dev s = (st, s1)" "st AND PS2_STAT_OUTPUT \<noteq> 0"
      "s1 = s\<lparr>io_log := io_log s @ [InB PS2_STAT_PORT st]\<rparr>" "pending bs s1 = b # rest"
    using status_read[OF assms(1), of s] assms(2) by auto
  have "ps2_wait_output dev s = Some s1" by (subst ps2_wait_output.simps) (simp add: s1(1,2))
  then show ?thesis using data_port[OF assms(1) s1(4)] s1(3) by (auto simp: ps2_read_data_def)
qed

text \<open>C32: Flushing the output buffer of the PS/2 controller ends when the controller has finitely many bytes to
  deliver: the bytes still pending are read, in order, nothing else of the state changes, and none is pending
  afterwards.\<close>
theorem ps2_flush_ends:
  assumes "output_buffer dev bs"
  shows "\<exists>s'. ps2_flush_buffer dev s = Some s' \<and> s' = s\<lparr>io_log := io_log s'\<rparr>
    \<and> port_reads PS2_DATA_PORT (io_log s') = port_reads PS2_DATA_PORT (io_log s) @ pending bs s \<and> pending bs s' = []"
proof (induction "pending bs s" arbitrary: s)
  case Nil
  obtain st s1 where "ps2_read_status dev s = (st, s1)" "st AND PS2_STAT_OUTPUT = 0"
      "s1 = s\<lparr>io_log := io_log s @ [InB PS2_STAT_PORT st]\<rparr>" "pending bs s1 = []"
    using status_read[OF assms, of s] Nil by auto
  then show ?case using Nil
    by (subst ps2_flush_buffer.simps) (simp add: PS2_STAT_PORT_def PS2_DATA_PORT_def)
next
  case (Cons b rest)
  obtain st s1 where s1: "ps2_read_status dev s = (st, s1)" "st AND PS2_STAT_OUTPUT \<noteq> 0"
      "s1 = s\<lparr>io_log := io_log s @ [InB PS2_STAT_PORT st]\<rparr>" "pending bs s1 = b # rest"
    using status_read[OF assms, of s] Cons(2) by auto
  obtain s2 where s2: "inportb dev PS2_DATA_PORT s1 = (b, s2)" "s2 = s1\<lparr>io_log := io_log s1 @ [InB PS2_DATA_PORT b]\<rparr>"
      "pending bs s2 = rest"
    using data_port[OF assms s1(4)] by blast
  obtain s' where s': "ps2_flush_buffer dev s2 = Some s'" "s' = s2\<lparr>io_log := io_log s'\<rparr>"
      "port_reads PS2_DATA_PORT (io_log s') = port_reads PS2_DATA_PORT (io_log s2) @ rest" "pending bs s' = []"
    using Cons(1)[OF s2(3)[symmetric]] s2(3) by auto
  have "ps2_flush_buffer dev s = Some s'"
    by (subst ps2_flush_buffer.simps) (simp add: s1(1,2) s2(1) s'(1))
  moreover have "s' = s\<lparr>io_log := io_log s'\<rparr>" using s'(2) s1(3) s2(2) by (cases s) (metis io.surjective io.update_convs(1))
  ultimately show ?case using s'(3,4) s1(3) s2(2) Cons(2)[symmetric] by (simp add: PS2_STAT_PORT_def PS2_DATA_PORT_def)
qed

subsection \<open>Printing on a port that is ready\<close>

definition serial_ready :: "device \<Rightarrow> bool" where
  "serial_ready dev \<longleftrightarrow> (\<forall>log. (ucast (dev log (Port (RS232_PORT_COM1 + 5))) :: u8) AND 0x40 \<noteq> 0)"

lemma vga_scroll_keeps: "vga_scroll s = Some t \<Longrightarrow> io_log t = io_log s \<and> print_lock t = print_lock s"
  by (auto simp: vga_scroll_def Let_def split: if_splits bind_split_asm prod.split_asm)

lemma vga_setchar_keeps: "vga_setchar c color x y s = Some t \<Longrightarrow> io_log t = io_log s \<and> print_lock t = print_lock s"
  by (auto simp: vga_setchar_def put_cell_def split: bind_split_asm)

lemma vga_putchar_keeps:
  assumes "vga_putchar c s = Some t"
  shows "io_log t = io_log s \<and> print_lock t = print_lock s"
proof -
  obtain s1 where s1: "(if c \<noteq> 10 then vga_setchar c (terminal_color s) (terminal_column s) (terminal_row s) s else Some s) = Some s1"
    using assms by (cases "if c \<noteq> 10 then vga_setchar c (terminal_color s) (terminal_column s) (terminal_row s) s else Some s")
      (simp_all add: vga_putchar_def)
  have "io_log s1 = io_log s \<and> print_lock s1 = print_lock s"
    using s1 vga_setchar_keeps[of c "terminal_color s" "terminal_column s" "terminal_row s" s s1] by (cases "c = 10") simp_all
  then show ?thesis
    using assms vga_scroll_keeps[of _ t] unfolding vga_putchar_def s1 by (auto simp: Let_def split: if_split_asm)
qed

lemma kputch_ready:
  assumes "serial_ready dev" and "shows_page ls l s"
  shows "\<exists>v s'. kputch dev c s = Some s' \<and> io_log s' = io_log s @ [InB (RS232_PORT_COM1 + 5) v, OutB RS232_PORT_COM1 c]
    \<and> print_lock s' = print_lock s \<and> (case wrap ls l [c] of (ls', l') \<Rightarrow> shows_page ls' l' s')"
proof -
  obtain ls1 l1 where w: "wrap ls l [c] = (ls1, l1)" by fastforce
  obtain t where t: "vga_putchar c s = Some t" "shows_page ls1 l1 t"
    using vga_putchar_page[OF assms(2), of c] w by auto
  let ?v = "ucast (dev (io_log t) (Port (RS232_PORT_COM1 + 5))) :: u8"
  have "rs232_write_single dev RS232_PORT_COM1 c t
      = Some (t\<lparr>io_log := io_log t @ [InB (RS232_PORT_COM1 + 5) ?v, OutB RS232_PORT_COM1 c]\<rparr>)"
    using assms(1) by (subst rs232_write_single.simps)
      (simp add: rs232_transmit_ready_def inportb_def outportb_def io_event_def Let_def serial_ready_def)
  moreover have "shows_page ls' l' (t\<lparr>io_log := x\<rparr>) = shows_page ls' l' t" for ls' l' x by (simp add: shows_page_def)
  ultimately show ?thesis using t vga_putchar_keeps[OF t(1)]
    by (intro exI[of _ ?v] exI[of _ "t\<lparr>io_log := io_log t @ [InB (RS232_PORT_COM1 + 5) ?v, OutB RS232_PORT_COM1 c]\<rparr>"])
      (simp add: kputch_def w del: wrap.simps)
qed

lemma print_chars_ready:
  assumes "serial_ready dev" and "shows_page ls l s"
  shows "\<exists>s'. print_chars dev cs s = Some s' \<and> port_writes RS232_PORT_COM1 (io_log s') = port_writes RS232_PORT_COM1 (io_log s) @ cs
    \<and> port_reads PS2_DATA_PORT (io_log s') = port_reads PS2_DATA_PORT (io_log s)
    \<and> print_lock s' = print_lock s \<and> (case wrap ls l cs of (ls', l') \<Rightarrow> shows_page ls' l' s')"
  using assms(2)
proof (induction cs arbitrary: ls l s)
  case (Cons c cs)
  obtain ls1 l1 where w: "wrap ls l [c] = (ls1, l1)" by fastforce
  obtain v s1 where s1: "kputch dev c s = Some s1" "io_log s1 = io_log s @ [InB (RS232_PORT_COM1 + 5) v, OutB RS232_PORT_COM1 c]"
      "print_lock s1 = print_lock s" "shows_page ls1 l1 s1"
    using kputch_ready[OF assms(1) Cons.prems, of c] w by auto
  have "wrap ls l (c # cs) = wrap ls1 l1 cs" using wrap_append[of ls l "[c]" cs] w by simp
  then show ?case using Cons.IH[OF s1(4)] s1(1-3) by (auto simp: RS232_PORT_COM1_def PS2_DATA_PORT_def)
qed simp

text \<open>The console of the state shows a text and can be printed on.\<close>
definition tty_shows :: "u8 list list \<Rightarrow> u8 list \<Rightarrow> 'a ps2_scheme \<Rightarrow> bool" where
  "tty_shows ls l s \<longleftrightarrow> shows_page ls l (ps2_tty s) \<and> print_lock (ps2_tty s) = 0"

lemma tty_log_fields [simp]:
  "ps2_tty (io_log_update f s) = ps2_tty s" "io_log (ps2_tty_update g s) = io_log s"
  by (cases s, simp)+

text \<open>A format that prints \<open>cs\<close>.\<close>
lemma tty_prints:
  assumes "serial_ready dev" and "tty_shows ls l s"
    and "\<And>c :: console. kprintf_loop dev fmt 0 args c = print_chars dev cs c"
  shows "\<exists>s'. tty_print dev fmt args s = Some s' \<and> mouse_index s' = mouse_index s \<and> mouse_state s' = mouse_state s
    \<and> port_writes RS232_PORT_COM1 (io_log s') = port_writes RS232_PORT_COM1 (io_log s) @ cs
    \<and> pending bs s' = pending bs s \<and> (case wrap ls l cs of (ls', l') \<Rightarrow> tty_shows ls' l' s')"
proof -
  let ?c = "(ps2_tty s)\<lparr>io_log := io_log s, print_lock := 1\<rparr>"
  have "shows_page ls l ?c" using assms(2) by (simp add: tty_shows_def shows_page_def)
  from print_chars_ready[OF assms(1) this, of cs] obtain c where c: "print_chars dev cs ?c = Some c"
      "port_writes RS232_PORT_COM1 (io_log c) = port_writes RS232_PORT_COM1 (io_log s) @ cs"
      "port_reads PS2_DATA_PORT (io_log c) = port_reads PS2_DATA_PORT (io_log s)"
      "case wrap ls l cs of (ls', l') \<Rightarrow> shows_page ls' l' c" by auto
  have "kprintf dev fmt args ((ps2_tty s)\<lparr>io_log := io_log s\<rparr>) = Some (c\<lparr>print_lock := 0\<rparr>)"
    using assms(2,3) c(1) by (simp add: kprintf_def tty_shows_def spin_lock_def spin_unlock_def)
  moreover have "shows_page ls' l' (c\<lparr>print_lock := 0\<rparr>) = shows_page ls' l' c" for ls' l' by (simp add: shows_page_def)
  ultimately show ?thesis using c by (auto simp: tty_print_def pending_def tty_shows_def)
qed

subsection \<open>The keyboard\<close>

text \<open>The keys of a US keyboard that have a character, with the scancodes of set 1: the first code of a run of keys, and their
  characters without shift. The last one is the keypad.\<close>
definition us_layout :: "(nat \<times> string) list" where
  "us_layout =
    [(0x01, [CHR 0x1B]), (0x02, ''1234567890-=''), (0x0E, [CHR 0x08, CHR 0x09]), (0x10, ''qwertyuiop[]''), (0x1C, [CHR 0x0A]),
     (0x1E, ''asdfghjkl;'' @ [CHR 0x27, CHR 0x60]), (0x2B, [CHR 0x5C]), (0x2C, ''zxcvbnm,./''), (0x37, ''*''), (0x39, '' ''),
     (0x47, ''789-456+1230.'')]"

fun layout_char :: "(nat \<times> string) list \<Rightarrow> nat \<Rightarrow> char option" where
  "layout_char [] k = None"
| "layout_char ((n, cs) # rows) k = (if n \<le> k \<and> k < n + length cs then Some (cs ! (k - n)) else layout_char rows k)"

text \<open>Ctrl, the shifts, Alt, Caps, F1 to F10, Num, Scroll, and two codes no key has.\<close>
definition silent_keys :: "nat list" where
  "silent_keys = [0x1D, 0x2A, 0x36, 0x38] @ [0x3A..<0x47] @ [0x54, 0x55]"

text \<open>What the handler prints for a scancode. A key that is released and a key without a character print nothing, one with a
  character prints it, but for the backslash; that key, F11, F12 and whatever else has the code 0 or one from 0x56 on print a NUL.\<close>
definition key_text :: "u8 \<Rightarrow> u8 list" where
  "key_text sc = (let k = unat sc in
     if 0x80 \<le> k \<or> k \<in> set silent_keys then []
     else if k = 0x2B then [0]
     else case layout_char us_layout k of Some c \<Rightarrow> [of_char c] | None \<Rightarrow> [0])"

definition key_chars :: "u8 \<Rightarrow> u8 list" where
  "key_chars sc = (if sc AND 0x80 = 0 \<and> ucast (kb_us ! unat sc) \<le> (0x7F :: u8) then [ucast (kb_us ! unat sc)] else [])"

lemma key_chars_text: "key_chars sc = key_text sc"
proof -
  have "list_all (\<lambda>k. key_chars (of_nat k) = key_text (of_nat k)) [0..<256]" by code_simp
  moreover have "unat sc \<in> set [0..<256]" using unsigned_less[of sc] by simp
  ultimately have "key_chars (of_nat (unat sc)) = key_text (of_nat (unat sc))" unfolding list_all_iff by (rule bspec)
  moreover have "of_nat (unat sc) = sc" by simp
  ultimately show ?thesis by metis
qed

lemma length_kb_us: "length kb_us = 128"
  by (simp add: kb_us_def)

lemma key_index: "(sc :: u8) AND NOT 0x80 = take_bit 7 sc"
proof -
  have "NOT 0x80 = (0x7F :: u8)" by simp
  then show ?thesis by (simp only: take_bit_eq_mask mask_eq_exp_minus_1) simp
qed

lemma key_down: "sc AND 0x80 = 0 \<Longrightarrow> (sc :: u8) AND NOT 0x80 = sc"
proof -
  assume a: "sc AND 0x80 = 0"
  have "sc = sc AND (0x80 OR NOT 0x80)" by (simp only: bit.disj_cancel_right and.right_neutral)
  also have "\<dots> = sc AND NOT 0x80" by (simp only: bit.conj_disj_distrib a or.left_neutral)
  finally show ?thesis by simp
qed

lemma ucast_up_down: "ucast (ucast c :: u32) = (c :: u8)"
  by (rule bit_word_eqI) (simp add: bit_simps)

lemma kb_key_types:
  assumes "serial_ready dev" and "tty_shows ls l s"
  shows "\<exists>s'. kb_key dev sc s = Some s' \<and> mouse_index s' = mouse_index s \<and> mouse_state s' = mouse_state s
    \<and> port_writes RS232_PORT_COM1 (io_log s') = port_writes RS232_PORT_COM1 (io_log s) @ key_chars sc
    \<and> pending bs s' = pending bs s \<and> (case wrap ls l (key_chars sc) of (ls', l') \<Rightarrow> tty_shows ls' l' s')"
proof -
  have "unat (take_bit 7 sc) < 128" by (simp add: unsigned_take_bit_eq take_bit_nat_def)
  then have a: "aget kb_us (unat (sc AND NOT 0x80)) = Some (kb_us ! unat (sc AND NOT 0x80))"
    unfolding key_index by (simp only: aget_def length_kb_us if_True)
  let ?c = "ucast (kb_us ! unat sc) :: u8"
  show ?thesis
  proof (cases "key_chars sc = []")
    case True
    then have "kb_key dev sc s = Some s" using a key_down[of sc] by (auto simp: kb_key_def key_chars_def Let_def not_le split: if_splits)
    then show ?thesis using True assms(2) by simp
  next
    case False
    then have k: "sc AND 0x80 = 0" "\<not> ?c > 0x7F" "key_chars sc = [?c]" by (auto simp: key_chars_def not_less split: if_splits)
    then have "kb_key dev sc s = tty_print dev [37, 99, 0] [Word (ucast ?c)] s"
      using a key_down[of sc] by (simp add: kb_key_def Let_def)
    moreover have "kprintf_loop dev [37, 99, 0] 0 [Word (ucast ?c)] c = print_chars dev [?c] c" for c :: console
      using ucast_up_down[of ?c] by (cases "kputch dev ?c c") (simp_all add: kprintf_loop.simps kprint_conv_def arg_word_def)
    ultimately show ?thesis using tty_prints[OF assms, of _ _ "[?c]"] k(3) by simp
  qed
qed

lemma kb_interrupt_chars:
  assumes "output_buffer dev bs" and "serial_ready dev" and "tty_shows ls l s"
  shows "\<exists>s'. ps2_kb_interrupt dev s = Some s'
    \<and> port_writes RS232_PORT_COM1 (io_log s') = port_writes RS232_PORT_COM1 (io_log s) @ concat (map key_chars (pending bs s))
    \<and> pending bs s' = [] \<and> (case wrap ls l (concat (map key_chars (pending bs s))) of (ls', l') \<Rightarrow> tty_shows ls' l' s')"
  using assms(3)
proof (induction "pending bs s" arbitrary: s ls l)
  case Nil
  obtain st s1 where s1: "ps2_read_status dev s = (st, s1)" "st AND PS2_STAT_OUTPUT = 0"
      "s1 = s\<lparr>io_log := io_log s @ [InB PS2_STAT_PORT st]\<rparr>" "pending bs s1 = []"
    using status_read[OF assms(1), of s] Nil by auto
  have "ps2_kb_interrupt dev s = Some s1" by (subst ps2_kb_interrupt.simps) (simp add: s1(1,2))
  then show ?case using s1(3,4) Nil by (simp add: tty_shows_def)
next
  case (Cons b rest)
  obtain st s1 where s1: "ps2_read_status dev s = (st, s1)" "st AND PS2_STAT_OUTPUT \<noteq> 0"
      "s1 = s\<lparr>io_log := io_log s @ [InB PS2_STAT_PORT st]\<rparr>" "pending bs s1 = b # rest"
    using status_read[OF assms(1), of s] Cons(2) by auto
  obtain s2 st2 where s2: "ps2_read_data dev s1 = Some (b, s2)"
      "s2 = s1\<lparr>io_log := io_log s1 @ [InB PS2_STAT_PORT st2, InB PS2_DATA_PORT b]\<rparr>" "pending bs s2 = rest"
    using data_read[OF assms(1) s1(4)] by blast
  have t2: "tty_shows ls l s2" using Cons(3) s1(3) s2(2) by (simp add: tty_shows_def)
  obtain ls1 l1 where w: "wrap ls l (key_chars b) = (ls1, l1)" by fastforce
  obtain s3 where s3: "kb_key dev b s2 = Some s3" "pending bs s3 = rest" "tty_shows ls1 l1 s3"
      "port_writes RS232_PORT_COM1 (io_log s3) = port_writes RS232_PORT_COM1 (io_log s2) @ key_chars b"
    using kb_key_types[OF assms(2) t2, of b bs] w s2(3) by auto
  have "ps2_kb_interrupt dev s = ps2_kb_interrupt dev s3"
    by (subst ps2_kb_interrupt.simps) (simp add: s1(1,2) s2(1) s3(1))
  moreover have "wrap ls l (concat (map key_chars (b # rest))) = wrap ls1 l1 (concat (map key_chars rest))"
    using wrap_append[of ls l "key_chars b"] w by simp
  ultimately show ?case
    using Cons(1)[OF s3(2)[symmetric] s3(3)] s3(2,4) s1(3) s2(2) Cons(2)[symmetric] by simp
qed

text \<open>C30: The keyboard interrupt handler empties the buffer and prints, on the serial port and on the screen, the characters that
  the keys pressed have on a US keyboard (\<open>us_layout\<close>, the keypad always as numbers); a released key and the keys without a
  character up to Scroll Lock, and the codes 0x54 and 0x55, print nothing; the backslash key, F11, F12, the code 0 and all codes from 0x56 on print a NUL character
  (\<open>key_text\<close>). It returns for every sequence of scancodes.\<close>
theorem ps2_kb_types:
  assumes "output_buffer dev bs" and "serial_ready dev" and "tty_shows ls l s"
  shows "\<exists>s'. ps2_kb_interrupt dev s = Some s'
    \<and> port_writes RS232_PORT_COM1 (io_log s') = port_writes RS232_PORT_COM1 (io_log s) @ concat (map key_text (pending bs s))
    \<and> pending bs s' = [] \<and> (case wrap ls l (concat (map key_text (pending bs s))) of (ls', l') \<Rightarrow> tty_shows ls' l' s')"
  using kb_interrupt_chars[OF assms] unfolding key_chars_text .

subsection \<open>The mouse\<close>

text \<open>A movement is a number of nine bits in two's complement, its sign in the first byte of the packet.\<close>
lemma mouse_delta_value:
  "sint (mouse_delta sign st b) = int (unat b) - (if st AND sign \<noteq> 0 then 256 else 0)"
proof -
  have b: "unat b < 256" using unsigned_less[of b] by simp
  show ?thesis
  proof (cases "st AND sign = 0")
    case True
    then show ?thesis using sint_small[of "ucast b"] b by (simp add: mouse_delta_def)
  next
    case False
    have "push_bit 8 w + ucast b = (push_bit 8 w OR ucast b :: u32)" for w
      by (rule disjunctive_add) (auto simp: bit_simps dest: bit_imp_le_length)
    from this[of "0xFFFFFF"] have "0xFFFFFF00 OR ucast b = (ucast b + 0xFFFFFF00 :: u32)" by (simp add: ac_simps)
    moreover have "(0xFFFFFF00 :: u32) = - 256" by simp
    moreover have "of_int (int (unat b) - 256) = (ucast b + - 256 :: u32)" by simp
    ultimately have "0xFFFFFF00 OR ucast b = (of_int (int (unat b) - 256) :: u32)" by (simp only:)
    moreover have "sint (of_int (int (unat b) - 256) :: u32) = int (unat b) - 256"
    proof -
      have "(int (unat b) - 256 + 2147483648) mod 4294967296 = int (unat b) - 256 + 2147483648"
        by (rule mod_pos_pos_trivial) (use b in linarith)+
      then show ?thesis by (subst int_word_sint) simp
    qed
    ultimately show ?thesis using False by (simp only: mouse_delta_def if_True simp_thms)
  qed
qed

lemma mouse_delta_prints:
  "\<exists>xs. (\<forall>c :: console. kprint_int dev (mouse_delta sign st b) c = print_chars dev xs c)
    \<and> parse_int xs = Some (int (unat b) - (if st AND sign \<noteq> 0 then 256 else 0))"
proof -
  have "unat b < 256" using unsigned_less[of b] by simp
  then have "sint (mouse_delta sign st b) \<noteq> sint (0x80000000 :: u32)" 
    unfolding mouse_delta_value by (auto, (use uint_ge_0[of b] in linarith)+)
  then have "mouse_delta sign st b \<noteq> 0x80000000" by metis
  from kprint_int_prints[OF this] show ?thesis unfolding mouse_delta_value by blast
qed

text \<open>What is printed for a packet of three bytes.\<close>
definition packet_text :: "u8 \<times> u8 \<times> u8 \<Rightarrow> u8 list \<Rightarrow> bool" where
  "packet_text p cs \<longleftrightarrow> (case p of (st, x, y) \<Rightarrow> \<exists>xs ys.
     cs = (if st AND 1 \<noteq> 0 then [108, 101, 102, 116, 32] else []) @ (if st AND 4 \<noteq> 0 then [99, 101, 110, 116, 101, 114, 32] else [])
       @ (if st AND 2 \<noteq> 0 then [114, 105, 103, 104, 116, 32] else []) @ xs @ 32 # ys @ [10]
     \<and> parse_int xs = Some (int (unat x) - (if st AND 0x10 \<noteq> 0 then 256 else 0))
     \<and> parse_int ys = Some (int (unat y) - (if st AND 0x20 \<noteq> 0 then 256 else 0)))"

text \<open>A format without conversions prints itself.\<close>
lemma plain_prints:
  "drop i fmt = cs @ [0] \<Longrightarrow> 0 \<notin> set cs \<Longrightarrow> 37 \<notin> set cs \<Longrightarrow> kprintf_loop dev fmt i args = (print_chars dev cs :: 'a console_scheme \<Rightarrow> _)"
proof (induction cs arbitrary: i)
  case Nil
  then have "i < length fmt" by (metis append_Nil drop_all leI list.distinct(1))
  then have "fmt ! i = 0" using Nil.prems(1) by (simp add: Cons_nth_drop_Suc[symmetric])
  then show ?case using \<open>i < length fmt\<close> by (intro ext) (simp add: kprintf_loop.simps)
next
  case (Cons c cs)
  then have i: "i < length fmt" by (metis append_Cons drop_all leI list.distinct(1))
  then have "fmt ! i = c" "drop (Suc i) fmt = cs @ [0]" using Cons.prems(1) by (simp_all add: Cons_nth_drop_Suc[symmetric])
  moreover from this have "kprintf_loop dev fmt (Suc i) args = (print_chars dev cs :: 'a console_scheme \<Rightarrow> _)" using Cons by simp
  ultimately show ?case using Cons.prems i by (intro ext, subst kprintf_loop.simps) simp
qed

lemma line_prints:
  assumes "\<And>c :: console. kprint_int dev v c = print_chars dev xs c" and "\<And>c :: console. kprint_int dev w c = print_chars dev ys c"
  shows "kprintf_loop dev [37, 100, 32, 37, 100, 10, 0] 0 [Word v, Word w] c = print_chars dev (xs @ 32 # ys @ [10]) (c :: console)"
proof -
  let ?f = "[37, 100, 32, 37, 100, 10, 0] :: u8 list"
  have k5: "kprintf_loop dev ?f 5 [] = print_chars dev [10]" by (rule plain_prints) simp_all
  have k3: "kprintf_loop dev ?f 3 [Word w] = (\<lambda>c :: console. print_chars dev (ys @ [10]) c)"
    by (rule ext, subst kprintf_loop.simps) (simp add: kprint_conv_def arg_word_def assms k5 print_chars_append)
  have k2: "kprintf_loop dev ?f 2 [Word w] = (\<lambda>c :: console. print_chars dev (32 # ys @ [10]) c)"
    by (rule ext, subst kprintf_loop.simps) (simp add: k3 numeral_3_eq_3[symmetric] numeral_2_eq_2)
  show ?thesis
    by (subst kprintf_loop.simps) (simp add: kprint_conv_def arg_word_def assms k2 numeral_2_eq_2[symmetric] print_chars_append)
qed

lemma mouse_print_text:
  assumes "serial_ready dev" and "tty_shows ls l s"
  shows "\<exists>cs s'. packet_text (st, x, y) cs \<and> mouse_print dev [st, x, y] s = Some s'
    \<and> mouse_index s' = mouse_index s \<and> mouse_state s' = mouse_state s
    \<and> port_writes RS232_PORT_COM1 (io_log s') = port_writes RS232_PORT_COM1 (io_log s) @ cs
    \<and> pending bs s' = pending bs s \<and> (case wrap ls l cs of (ls', l') \<Rightarrow> tty_shows ls' l' s')"
proof -
  have word: "\<exists>s'. (if b then tty_print dev fmt [] t else Some t) = Some s' \<and> mouse_index s' = mouse_index t \<and> mouse_state s' = mouse_state t
      \<and> port_writes RS232_PORT_COM1 (io_log s') = port_writes RS232_PORT_COM1 (io_log t) @ (if b then cs else [])
      \<and> pending bs s' = pending bs t \<and> (case wrap ks k (if b then cs else []) of (ls', l') \<Rightarrow> tty_shows ls' l' s')"
    if "tty_shows ks k t" "fmt = cs @ [0]" "0 \<notin> set cs" "37 \<notin> set cs" for b cs fmt t ks k
  proof -
    have "kprintf_loop dev fmt 0 [] c = print_chars dev cs c" for c :: console
      by (simp add: plain_prints[of 0 "cs @ [0]" cs dev "[]"] that)
    from tty_prints[OF assms(1) that(1) this, of bs] show ?thesis using that(1) by (cases b) simp_all
  qed
  obtain xs where xs: "\<And>c :: console. kprint_int dev (mouse_delta 0x10 st x) c = print_chars dev xs c"
      "parse_int xs = Some (int (unat x) - (if st AND 0x10 \<noteq> 0 then 256 else 0))"
    using mouse_delta_prints by blast
  obtain ys where ys: "\<And>c :: console. kprint_int dev (mouse_delta 0x20 st y) c = print_chars dev ys c"
      "parse_int ys = Some (int (unat y) - (if st AND 0x20 \<noteq> 0 then 256 else 0))"
    using mouse_delta_prints by blast
  define t1 t2 t3 where "t1 = (if st AND 1 \<noteq> 0 then [108, 101, 102, 116, 32] else [] :: u8 list)"
    and "t2 = (if st AND 4 \<noteq> 0 then [99, 101, 110, 116, 101, 114, 32] else [] :: u8 list)"
    and "t3 = (if st AND 2 \<noteq> 0 then [114, 105, 103, 104, 116, 32] else [] :: u8 list)"
  obtain ls1 l1 where w1: "wrap ls l t1 = (ls1, l1)" by fastforce
  obtain ls2 l2 where w2: "wrap ls1 l1 t2 = (ls2, l2)" by fastforce
  obtain ls3 l3 where w3: "wrap ls2 l2 t3 = (ls3, l3)" by fastforce
  obtain s1 where s1: "(if st AND 1 \<noteq> 0 then tty_print dev [108, 101, 102, 116, 32, 0] [] s else Some s) = Some s1"
      "mouse_index s1 = mouse_index s" "mouse_state s1 = mouse_state s" "pending bs s1 = pending bs s" "tty_shows ls1 l1 s1"
      "port_writes RS232_PORT_COM1 (io_log s1) = port_writes RS232_PORT_COM1 (io_log s) @ t1"
    using word[OF assms(2), of "[108, 101, 102, 116, 32, 0]" "[108, 101, 102, 116, 32]" "st AND 1 \<noteq> 0"] w1 unfolding t1_def[symmetric] by auto
  obtain s2 where s2: "(if st AND 4 \<noteq> 0 then tty_print dev [99, 101, 110, 116, 101, 114, 32, 0] [] s1 else Some s1) = Some s2"
      "mouse_index s2 = mouse_index s1" "mouse_state s2 = mouse_state s1" "pending bs s2 = pending bs s1" "tty_shows ls2 l2 s2"
      "port_writes RS232_PORT_COM1 (io_log s2) = port_writes RS232_PORT_COM1 (io_log s1) @ t2"
    using word[OF s1(5), of "[99, 101, 110, 116, 101, 114, 32, 0]" "[99, 101, 110, 116, 101, 114, 32]" "st AND 4 \<noteq> 0"] w2 unfolding t2_def[symmetric] by auto
  obtain s3 where s3: "(if st AND 2 \<noteq> 0 then tty_print dev [114, 105, 103, 104, 116, 32, 0] [] s2 else Some s2) = Some s3"
      "mouse_index s3 = mouse_index s2" "mouse_state s3 = mouse_state s2" "pending bs s3 = pending bs s2" "tty_shows ls3 l3 s3"
      "port_writes RS232_PORT_COM1 (io_log s3) = port_writes RS232_PORT_COM1 (io_log s2) @ t3"
    using word[OF s2(5), of "[114, 105, 103, 104, 116, 32, 0]" "[114, 105, 103, 104, 116, 32]" "st AND 2 \<noteq> 0"] w3 unfolding t3_def[symmetric] by auto
  let ?cs = "t1 @ t2 @ t3 @ xs @ 32 # ys @ [10]"
  have w: "wrap ls l ?cs = wrap ls3 l3 (xs @ 32 # ys @ [10])" using w1 w2 w3 by (simp add: wrap_append)
  have "packet_text (st, x, y) ?cs" 
    unfolding packet_text_def prod.case t1_def t2_def t3_def using xs(2) ys(2) by (intro exI[of _ xs] exI[of _ ys] conjI refl)
  moreover have "mouse_print dev [st, x, y] s
      = tty_print dev [37, 100, 32, 37, 100, 10, 0] [Word (mouse_delta 0x10 st x), Word (mouse_delta 0x20 st y)] s3"
    by (simp only: mouse_print_def aget_def list.size) (simp add: s1(1) s2(1) s3(1))
  ultimately show ?thesis
    using tty_prints[OF assms(1) s3(5) line_prints[OF xs(1) ys(1)], of bs] s1(2-6) s2(2-6) s3(2-6)
    by (intro exI[of _ ?cs]) (simp add: w)
qed

text \<open>One byte of a packet.\<close>
lemma mouse_byte:
  assumes "output_buffer dev bs" and "pending bs s = b # rest" and "length (mouse_state s) = 3" and "mouse_index s < 3"
  shows "\<exists>s'. ps2_mouse_read dev s = (let s1 = s'\<lparr>mouse_state := (mouse_state s)[unat (mouse_index s) := b], mouse_index := mouse_index s + 1\<rparr>
      in if mouse_index s1 = 3 then mouse_print dev (mouse_state s1) (s1\<lparr>mouse_index := 0\<rparr>) else Some s1)
    \<and> pending bs s' = rest \<and> ps2_tty s' = ps2_tty s
    \<and> port_writes RS232_PORT_COM1 (io_log s') = port_writes RS232_PORT_COM1 (io_log s)"
proof -
  obtain st s1 where s1: "ps2_read_data dev s = Some (b, s1)"
      "s1 = s\<lparr>io_log := io_log s @ [InB PS2_STAT_PORT st, InB PS2_DATA_PORT b]\<rparr>" "pending bs s1 = rest"
    using data_read[OF assms(1,2)] by blast
  have "unat (mouse_index s) < 3" using assms(4) by (simp add: word_less_nat_alt)
  then have "aset (mouse_state s1) (unat (mouse_index s1)) b = Some ((mouse_state s)[unat (mouse_index s) := b])"
    using assms(3) s1(2) by (simp add: aset_def)
  then show ?thesis using s1 by (intro exI[of _ s1]) (simp add: ps2_mouse_read_def Let_def)
qed

lemma mouse_interrupt_step:
  assumes "output_buffer dev bs" and "pending bs s \<noteq> []"
  shows "\<exists>st. ps2_mouse_interrupt dev s = ps2_mouse_read dev (s\<lparr>io_log := io_log s @ [InB PS2_STAT_PORT st]\<rparr>) \<bind> ps2_mouse_interrupt dev"
  using status_read[OF assms(1), of s] assms(2) by (subst ps2_mouse_interrupt.simps) auto

lemma status_pending [simp]: "pending bs (s\<lparr>io_log := io_log s @ [InB PS2_STAT_PORT st]\<rparr>) = pending bs s"
  by (simp add: pending_def PS2_STAT_PORT_def PS2_DATA_PORT_def)

lemma mouse_step:
  assumes "output_buffer dev bs" and "pending bs s = b # rest" and "length (mouse_state s) = 3" and "mouse_index s < 3"
  shows "\<exists>s'. ps2_mouse_interrupt dev s = (let s1 = s'\<lparr>mouse_state := (mouse_state s)[unat (mouse_index s) := b], mouse_index := mouse_index s + 1\<rparr>
      in if mouse_index s1 = 3 then mouse_print dev (mouse_state s1) (s1\<lparr>mouse_index := 0\<rparr>) else Some s1) \<bind> ps2_mouse_interrupt dev
    \<and> pending bs s' = rest \<and> ps2_tty s' = ps2_tty s
    \<and> port_writes RS232_PORT_COM1 (io_log s') = port_writes RS232_PORT_COM1 (io_log s)"
proof -
  have "pending bs s \<noteq> []" using assms(2) by simp
  then obtain st where st: "ps2_mouse_interrupt dev s
      = ps2_mouse_read dev (s\<lparr>io_log := io_log s @ [InB PS2_STAT_PORT st]\<rparr>) \<bind> ps2_mouse_interrupt dev"
    using mouse_interrupt_step[OF assms(1)] by blast
  let ?s = "s\<lparr>io_log := io_log s @ [InB PS2_STAT_PORT st]\<rparr>"
  have "pending bs ?s = b # rest" using assms(2) by simp
  from mouse_byte[OF assms(1) this] assms(3,4) obtain s' where s': "ps2_mouse_read dev ?s
        = (let s1 = s'\<lparr>mouse_state := (mouse_state s)[unat (mouse_index s) := b], mouse_index := mouse_index s + 1\<rparr>
      in if mouse_index s1 = 3 then mouse_print dev (mouse_state s1) (s1\<lparr>mouse_index := 0\<rparr>) else Some s1)"
      "pending bs s' = rest" "ps2_tty s' = ps2_tty s"
      "port_writes RS232_PORT_COM1 (io_log s') = port_writes RS232_PORT_COM1 (io_log s)" by fastforce
  show ?thesis unfolding st s'(1) using s'(2-4) by blast
qed

text \<open>A whole packet, read from the state between two packets.\<close>
lemma mouse_packet:
  assumes "output_buffer dev bs" and "serial_ready dev" and "tty_shows ls l s" and "pending bs s = st # x # y # rest"
    and "length (mouse_state s) = 3" and "mouse_index s = 0"
  shows "\<exists>s3 cs. ps2_mouse_interrupt dev s = ps2_mouse_interrupt dev s3 \<and> pending bs s3 = rest
    \<and> packet_text (st, x, y) cs \<and> port_writes RS232_PORT_COM1 (io_log s3) = port_writes RS232_PORT_COM1 (io_log s) @ cs
    \<and> mouse_index s3 = 0 \<and> length (mouse_state s3) = 3 \<and> (case wrap ls l cs of (ls', l') \<Rightarrow> tty_shows ls' l' s3)"
proof -
  obtain t1 where t1: "ps2_mouse_interrupt dev s = ps2_mouse_interrupt dev (t1\<lparr>mouse_state := (mouse_state s)[0 := st], mouse_index := 1\<rparr>)"
      "pending bs t1 = x # y # rest" "ps2_tty t1 = ps2_tty s" "port_writes RS232_PORT_COM1 (io_log t1) = port_writes RS232_PORT_COM1 (io_log s)"
    using mouse_step[OF assms(1,4,5)] assms(6) by auto
  let ?s1 = "t1\<lparr>mouse_state := (mouse_state s)[0 := st], mouse_index := 1\<rparr>"
  have p1: "pending bs ?s1 = x # y # rest" using t1(2) by (simp add: pending_def)
  obtain t2 where t2: "ps2_mouse_interrupt dev ?s1 = ps2_mouse_interrupt dev (t2\<lparr>mouse_state := (mouse_state s)[0 := st, 1 := x], mouse_index := 2\<rparr>)"
      "pending bs t2 = y # rest" "ps2_tty t2 = ps2_tty s" "port_writes RS232_PORT_COM1 (io_log t2) = port_writes RS232_PORT_COM1 (io_log s)"
    using mouse_step[OF assms(1) p1] assms(5) t1(3,4) by auto
  let ?s2 = "t2\<lparr>mouse_state := (mouse_state s)[0 := st, 1 := x], mouse_index := 2\<rparr>"
  have p2: "pending bs ?s2 = y # rest" using t2(2) by (simp add: pending_def)
  have full: "(mouse_state s)[0 := st, 1 := x, 2 := y] = [st, x, y]"
    using assms(5) by (auto simp: length_Suc_conv numeral_3_eq_3 numeral_2_eq_2)
  obtain t3 where t3: "ps2_mouse_interrupt dev ?s2
      = mouse_print dev [st, x, y] (t3\<lparr>mouse_state := [st, x, y], mouse_index := 0\<rparr>) \<bind> ps2_mouse_interrupt dev"
      "pending bs t3 = rest" "ps2_tty t3 = ps2_tty s" "port_writes RS232_PORT_COM1 (io_log t3) = port_writes RS232_PORT_COM1 (io_log s)"
    using mouse_step[OF assms(1) p2] assms(5) t2(3,4) full by auto
  let ?s3 = "t3\<lparr>mouse_state := [st, x, y], mouse_index := 0\<rparr>"
  have "tty_shows ls l ?s3" using assms(3) t3(3) by (simp add: tty_shows_def)
  from mouse_print_text[OF assms(2) this, of st x y bs] obtain cs s' where "packet_text (st, x, y) cs"
      "mouse_print dev [st, x, y] ?s3 = Some s'" "mouse_index s' = 0" "mouse_state s' = [st, x, y]"
      "port_writes RS232_PORT_COM1 (io_log s') = port_writes RS232_PORT_COM1 (io_log s) @ cs"
      "pending bs s' = pending bs ?s3" "case wrap ls l cs of (ls', l') \<Rightarrow> tty_shows ls' l' s'"
    using t3(4) by auto
  moreover from this have "pending bs s' = rest" using t3(2) by (simp add: pending_def)
  ultimately show ?thesis using t1(1) t2(1) t3(1) by auto
qed


text \<open>C31: The mouse interrupt handler cuts the bytes into packets of three. For each packet it prints the buttons that
  are down and then two numbers that read back as the movements, the values of nine bits in two's complement
  whose signs are in the first byte; between packets its index is 0 again.\<close>
theorem ps2_mouse_packets:
  assumes "output_buffer dev bs" and "serial_ready dev" and "tty_shows ls l s"
    and "pending bs s = concat (map (\<lambda>(st, x, y). [st, x, y]) ps)" and "length (mouse_state s) = 3" and "mouse_index s = 0"
  shows "\<exists>s' css. ps2_mouse_interrupt dev s = Some s' \<and> list_all2 packet_text ps css
    \<and> port_writes RS232_PORT_COM1 (io_log s') = port_writes RS232_PORT_COM1 (io_log s) @ concat css
    \<and> mouse_index s' = 0 \<and> length (mouse_state s') = 3 \<and> pending bs s' = []
    \<and> (case wrap ls l (concat css) of (ls', l') \<Rightarrow> tty_shows ls' l' s')"
  using assms(3-6)
proof (induction ps arbitrary: s ls l)
  case Nil
  obtain st s1 where s1: "ps2_read_status dev s = (st, s1)" "st AND PS2_STAT_OUTPUT = 0"
      "s1 = s\<lparr>io_log := io_log s @ [InB PS2_STAT_PORT st]\<rparr>" "pending bs s1 = []"
    using status_read[OF assms(1), of s] Nil(2) by auto
  have "ps2_mouse_interrupt dev s = Some s1" by (subst ps2_mouse_interrupt.simps) (simp add: s1(1,2))
  then show ?case using s1(3,4) Nil by (simp add: tty_shows_def)
next
  case (Cons p ps)
  obtain st x y where p: "p = (st, x, y)" by (cases p)
  let ?rest = "concat (map (\<lambda>(st, x, y). [st, x, y]) ps)"
  have "pending bs s = st # x # y # ?rest" using Cons.prems(2) p by simp
  from mouse_packet[OF assms(1,2) Cons.prems(1) this Cons.prems(3,4)] obtain s3 cs where s3:
      "ps2_mouse_interrupt dev s = ps2_mouse_interrupt dev s3" "pending bs s3 = ?rest" "packet_text (st, x, y) cs"
      "port_writes RS232_PORT_COM1 (io_log s3) = port_writes RS232_PORT_COM1 (io_log s) @ cs"
      "mouse_index s3 = 0" "length (mouse_state s3) = 3" "case wrap ls l cs of (ls', l') \<Rightarrow> tty_shows ls' l' s3"
    by (elim exE conjE) (rule that)
  obtain ls1 l1 where w: "wrap ls l cs = (ls1, l1)" by fastforce
  have t: "tty_shows ls1 l1 s3" using s3(7) w by simp
  obtain s' css where s': "ps2_mouse_interrupt dev s3 = Some s'" "list_all2 packet_text ps css"
      "port_writes RS232_PORT_COM1 (io_log s') = port_writes RS232_PORT_COM1 (io_log s3) @ concat css"
      "mouse_index s' = 0" "length (mouse_state s') = 3" "pending bs s' = []"
      "case wrap ls1 l1 (concat css) of (ls', l') \<Rightarrow> tty_shows ls' l' s'"
    using Cons.IH[OF t s3(2,6,5)] by (elim exE conjE) (rule that)
  have "wrap ls l (concat (cs # css)) = wrap ls1 l1 (concat css)" using w by (simp add: wrap_append)
  then show ?case using s3(1,3,4) s' p by (intro exI[of _ s'] exI[of _ "cs # css"]) simp
qed

subsection \<open>A controller with bytes to read\<close>

definition byte_controller :: "u8 list \<Rightarrow> device" where
  "byte_controller bs log p = (case p of
     Port q \<Rightarrow> let k = length (port_reads PS2_DATA_PORT log) in
       if q = PS2_STAT_PORT then (if k < length bs then 1 else 0)
       else if q = PS2_DATA_PORT then (if k < length bs then ucast (bs ! k) else 0)
       else 0x40
   | _ \<Rightarrow> 0)"

definition ps2_on :: "console \<Rightarrow> ps2" where
  "ps2_on c = \<lparr>io_log = [], gates = [], idtp_size = 0, lapic_base = 0, ioapic_base = 0, apic_msr = 0, irq_current_regs = 0,
     irq_happening = False, irq_handlers = [], ps2_tty = c\<lparr>print_lock := 0\<rparr>, ps2_first_device = True, ps2_second_device = True,
     mouse_state = [0, 0, 0], mouse_index = 0\<rparr>"

lemma byte_controller_delivers: "output_buffer (byte_controller bs) bs" "serial_ready (byte_controller bs)"
  by (simp_all add: output_buffer_def serial_ready_def byte_controller_def PS2_STAT_PORT_def PS2_DATA_PORT_def
      PS2_STAT_OUTPUT_def RS232_PORT_COM1_def Let_def ucast_up_down)

lemma fresh_console: "\<exists>c. tty_shows [] [] (ps2_on c) \<and> pending bs (ps2_on c) = bs"
proof -
  obtain c :: console where "shows_page [] [] c" using vga_init_page[of blank_console] by (auto simp: blank_console_def mapped_def)
  then show ?thesis by (intro exI[of _ c]) (simp add: tty_shows_def ps2_on_def shows_page_def pending_def)
qed

theorem ps2_flush_ends_witness:
  "\<exists>s'. ps2_flush_buffer (byte_controller [1, 2, 3]) \<lparr>io_log = []\<rparr> = Some s' \<and> port_reads PS2_DATA_PORT (io_log s') = [1, 2, 3]"
  using ps2_flush_ends[OF byte_controller_delivers(1), of "[1, 2, 3]" "\<lparr>io_log = []\<rparr>"] by (auto simp: pending_def)

theorem ps2_kb_types_witness:
  "\<exists>c s'. ps2_kb_interrupt (byte_controller [0x23, 0xA3, 0x17, 0x3B, 0x1C, 0x57]) (ps2_on c) = Some s'
    \<and> port_writes RS232_PORT_COM1 (io_log s') = [104, 105, 10, 0] \<and> tty_shows [[104, 105]] [0] s'"
proof -
  let ?bs = "[0x23, 0xA3, 0x17, 0x3B, 0x1C, 0x57] :: u8 list"
  obtain c where c: "tty_shows [] [] (ps2_on c)" "pending ?bs (ps2_on c) = ?bs" using fresh_console by blast
  have k: "concat (map key_text ?bs) = [104, 105, 10, 0]" by code_simp
  have w: "wrap [] [] [104, 105, 10, 0] = ([[104, 105]], [0])" by simp
  have l: "io_log (ps2_on c) = []" by (simp add: ps2_on_def)
  show ?thesis
    using ps2_kb_types[OF byte_controller_delivers[of ?bs] c(1)] unfolding c(2) k w prod.case l by auto
qed

theorem ps2_mouse_packets_witness:
  "\<exists>c s' css. ps2_mouse_interrupt (byte_controller [0x09, 5, 0, 0x38, 0xFF, 0xFE]) (ps2_on c) = Some s'
    \<and> list_all2 packet_text [(0x09, 5, 0), (0x38, 0xFF, 0xFE)] css \<and> port_writes RS232_PORT_COM1 (io_log s') = concat css"
proof -
  let ?ps = "[(0x09, 5, 0), (0x38, 0xFF, 0xFE)] :: (u8 \<times> u8 \<times> u8) list" and ?bs = "[0x09, 5, 0, 0x38, 0xFF, 0xFE] :: u8 list"
  obtain c where c: "tty_shows [] [] (ps2_on c)" "pending ?bs (ps2_on c) = ?bs" using fresh_console by blast
  have p: "pending ?bs (ps2_on c) = concat (map (\<lambda>(st, x, y). [st, x, y]) ?ps)" using c(2) by simp
  have l: "io_log (ps2_on c) = []" "length (mouse_state (ps2_on c)) = 3" "mouse_index (ps2_on c) = 0" by (simp_all add: ps2_on_def)
  show ?thesis
    using ps2_mouse_packets[OF byte_controller_delivers[of ?bs] c(1) p l(2,3)] unfolding l by auto
qed

subsection \<open>Lines the code misses\<close>

text \<open>A data byte of 0 is taken for no data: after the configuration of a controller whose bits are all to be cleared,
  the controller still waits for the byte.\<close>
lemma ps2_write_configuration_zero:
  "ps2_write_configuration dev 0 s = Some (outportb PS2_STAT_PORT PS2_CMD_WRITE_CONF s)"
  by (simp add: ps2_write_configuration_def ps2_write_command_def)

text \<open>Set 1 gives the keys F11 and F12 the codes 0x57 and 0x58; the table has them at 0x54 and 0x55.\<close>
lemma kb_us_f11: "kb_us ! 0x54 = 0x91 \<and> kb_us ! 0x55 = 0x92 \<and> kb_us ! 0x57 = 0 \<and> kb_us ! 0x58 = 0"
  by (simp add: kb_us_def)

end
