(* ===== verification/Rtl8139.thy ===== *)
theory Rtl8139
  imports Ps2 Pci Acpi Ring Memmap
begin

text \<open>
  The network driver: \<open>src/src/drivers/rtl8139/cmd.c\<close> and \<open>init.c\<close>. The state extends that of the keyboard and
  mouse drivers, whose console and interrupt table it shares, by the lists of the PCI code, the redirections of
  ACPI, the memory the driver and the card see, and the device records. The bit fields of the registers are the bits
  gcc gives them, from the lowest on. \<open>kmalloc\<close>, \<open>kfree\<close>, \<open>memmap\<close> and \<open>paging_find_physical\<close> are the operations of
  an \<open>rtl_ops\<close>, with the address of the interrupt handler and of the test packet on the stack.
\<close>

record rtl8139_dev =
  io_addr :: u32
  mem_addr :: u32
  rt_irq :: u8
  pci_dev :: u32
  recv_buff_virt :: u32
  recv_buff_phys :: u32
  tx_buff_virt :: "u32 list"
  tx_buff_phys :: "u32 list"
  curr_buff :: u8
  rt_ring :: "ring option"
  mac :: "u8 list"

record rtl = ps2 +
  rt_pci :: pci
  rt_acpi :: acpi
  rt_mem :: mem
  rt_devs :: "u32 \<Rightarrow> rtl8139_dev option"
  g_dev :: u32

record 's rtl_ops =
  r_kmalloc :: "u32 \<Rightarrow> 's \<Rightarrow> u32 \<times> 's"
  r_kfree :: "u32 \<Rightarrow> 's \<Rightarrow> 's"
  r_memmap :: "u32 \<Rightarrow> u32 \<Rightarrow> u32 \<Rightarrow> 's \<Rightarrow> (u32 \<times> 's) option"
  r_find_physical :: "u32 \<Rightarrow> 's \<Rightarrow> u32 option"
  r_handler :: u32
  r_test :: u32

definition MMAP_RW :: u32 where "MMAP_RW = push_bit 1 1"

definition RTL8139_REG_MAC :: u32 where "RTL8139_REG_MAC = 0x00"
definition RTL8139_REG_TSD :: u32 where "RTL8139_REG_TSD = 0x10"
definition RTL8139_REG_TSAD :: u32 where "RTL8139_REG_TSAD = 0x20"
definition RTL8139_REG_RBSTART :: u32 where "RTL8139_REG_RBSTART = 0x30"
definition RTL8139_REG_CMD :: u32 where "RTL8139_REG_CMD = 0x37"
definition RTL8139_REG_IMR :: u32 where "RTL8139_REG_IMR = 0x3C"
definition RTL8139_REG_ISR :: u32 where "RTL8139_REG_ISR = 0x3E"
definition RTL8139_REG_TCR :: u32 where "RTL8139_REG_TCR = 0x40"
definition RTL8139_REG_RCR :: u32 where "RTL8139_REG_RCR = 0x44"
definition RTL8139_REG_CONF1 :: u32 where "RTL8139_REG_CONF1 = 0x52"
definition RTL8139_CMD_RESET :: u8 where "RTL8139_CMD_RESET = 0x10"
definition RTL8139_BUFF_SIZE :: u32 where "RTL8139_BUFF_SIZE = 0x3000"
definition RTL8139_MAX_PACKET :: u32 where "RTL8139_MAX_PACKET = 1792"
definition RTL8139_RECV_BUFF :: u32 where "RTL8139_RECV_BUFF = 10 * 0x3000"

text \<open>The bit fields.\<close>
definition cmd_te :: u8 where "cmd_te = push_bit 2 1"
definition cmd_re :: u8 where "cmd_re = push_bit 3 1"
definition cmd_rst :: u8 where "cmd_rst = push_bit 4 1"
definition int_rok :: u16 where "int_rok = 1"
definition int_tok :: u16 where "int_tok = push_bit 2 1"
definition tsd_own :: u32 where "tsd_own = push_bit 13 1"
definition tsd_tok :: u32 where "tsd_tok = push_bit 15 1"
definition tcr_mxdma2 :: "u32 \<Rightarrow> u32" where "tcr_mxdma2 v = push_bit 8 (v AND 7)"
definition tcr_loopback :: "u32 \<Rightarrow> u32" where "tcr_loopback v = push_bit 17 (v AND 3)"
definition tcr_ifg :: "u32 \<Rightarrow> u32" where "tcr_ifg v = push_bit 24 (v AND 3)"
text \<open>\<open>aap\<close>, \<open>apm\<close>, \<open>am\<close>, \<open>ab\<close>, \<open>ar\<close>, \<open>aer\<close> and, above \<open>sel9356\<close>, \<open>wrap\<close>.\<close>
definition rcr_all :: u32 where "rcr_all = 0x3F OR push_bit 7 1"

text \<open>The flags of a packet's header in the order they are printed; \<open>crc\<close> has two bits, \<open>resv\<close> six.\<close>
definition packet_flags :: "(u32 \<times> string) list" where
  "packet_flags = [(1, ''rok ''), (push_bit 1 1, ''fae ''), (push_bit 2 3, ''crc ''), (push_bit 4 1, ''lng ''),
     (push_bit 5 1, ''runt ''), (push_bit 6 1, ''ise ''), (push_bit 13 1, ''bar ''), (push_bit 14 1, ''pam ''),
     (push_bit 15 1, ''mar '')]"

definition packet_len :: "u32 \<Rightarrow> u32" where
  "packet_len header = drop_bit 16 header"

definition text_fmt :: "string \<Rightarrow> u8 list" where
  "text_fmt txt = map of_char txt @ [0]"

definition dev_upd :: "u32 \<Rightarrow> (rtl8139_dev \<Rightarrow> rtl8139_dev) \<Rightarrow> 'a rtl_scheme \<Rightarrow> 'a rtl_scheme option" where
  "dev_upd p f s = do { d \<leftarrow> rt_devs s p; Some (s\<lparr>rt_devs := (rt_devs s)(p \<mapsto> f d)\<rparr>) }"

text \<open>A register of the card.\<close>
definition reg_port :: "rtl8139_dev \<Rightarrow> u32 \<Rightarrow> u16" where
  "reg_port d reg = ucast (io_addr d + reg)"

definition on_pci :: "(pci \<Rightarrow> ('b \<times> pci) option) \<Rightarrow> 'a rtl_scheme \<Rightarrow> ('b \<times> 'a rtl_scheme) option" where
  "on_pci f s = do { (r, p) \<leftarrow> f ((rt_pci s)\<lparr>io_log := io_log s\<rparr>); Some (r, s\<lparr>rt_pci := p, io_log := io_log p\<rparr>) }"

text \<open>\<open>n\<close> bytes of memory, and storing bytes.\<close>
fun get_bytes :: "mem \<Rightarrow> u32 \<Rightarrow> nat \<Rightarrow> u8 list option" where
  "get_bytes m p 0 = Some []"
| "get_bytes m p (Suc n) = do { b \<leftarrow> m p; bs \<leftarrow> get_bytes m (p + 1) n; Some (b # bs) }"

fun set_bytes :: "mem \<Rightarrow> u32 \<Rightarrow> u8 list \<Rightarrow> mem option" where
  "set_bytes m p [] = Some m"
| "set_bytes m p (b # bs) = do { m' \<leftarrow> CString.mset m p b; set_bytes m' (p + 1) bs }"

subsection \<open>cmd.c\<close>

definition rtl8139_poweron :: "device \<Rightarrow> u32 \<Rightarrow> 'a rtl_scheme \<Rightarrow> 'a rtl_scheme option" where
  "rtl8139_poweron dev p s = do {
     d \<leftarrow> rt_devs s p;
     let s1 = io_wait (outportb (reg_port d RTL8139_REG_CONF1) 0 s);
     tty_print dev (line_fmt ''rtl8139: device power on'') [] s1 }"

partial_function (option) reset_wait :: "device \<Rightarrow> u16 \<Rightarrow> 'a io_scheme \<Rightarrow> 'a io_scheme option" where
  "reset_wait dev port s =
     (let (reg, s1) = inportb dev port (io_wait s) in if reg AND cmd_rst \<noteq> 0 then reset_wait dev port s1 else Some s1)"

definition rtl8139_softreset :: "device \<Rightarrow> u32 \<Rightarrow> 'a rtl_scheme \<Rightarrow> 'a rtl_scheme option" where
  "rtl8139_softreset dev p s = do {
     d \<leftarrow> rt_devs s p;
     let s1 = io_wait (outportb (reg_port d RTL8139_REG_CMD) RTL8139_CMD_RESET s);
     s2 \<leftarrow> tty_print dev (line_fmt ''rtl8139: sent software restart'') [] s1;
     s3 \<leftarrow> reset_wait dev (reg_port d RTL8139_REG_CMD) s2;
     tty_print dev (line_fmt ''rtl8139: reset complete'') [] s3 }"

fun load_tx :: "rtl8139_dev \<Rightarrow> nat \<Rightarrow> nat \<Rightarrow> 'a io_scheme \<Rightarrow> 'a io_scheme option" where
  "load_tx d i 0 s = Some s"
| "load_tx d i (Suc n) s = do {
     phys \<leftarrow> aget (tx_buff_phys d) i;
     load_tx d (Suc i) n (io_wait (outportl (reg_port d (RTL8139_REG_TSAD + of_nat i * 4)) phys s)) }"

definition rtl8139_load_buffer :: "device \<Rightarrow> u32 \<Rightarrow> 'a rtl_scheme \<Rightarrow> 'a rtl_scheme option" where
  "rtl8139_load_buffer dev p s = do {
     d \<leftarrow> rt_devs s p;
     let s1 = io_wait (outportl (reg_port d RTL8139_REG_RBSTART) (recv_buff_phys d) s);
     s2 \<leftarrow> tty_print dev (line_fmt ''rtl8139: receive buffer set'') [] s1;
     s3 \<leftarrow> load_tx d 0 4 s2;
     tty_print dev (line_fmt ''rtl8139: tx buffer set'') [] s3 }"

definition rtl8139_set_int :: "device \<Rightarrow> u32 \<Rightarrow> 'a rtl_scheme \<Rightarrow> 'a rtl_scheme option" where
  "rtl8139_set_int dev p s = do {
     d \<leftarrow> rt_devs s p;
     let s1 = io_wait (outportw (reg_port d RTL8139_REG_IMR) (int_tok OR int_rok) s);
     tty_print dev (line_fmt ''rtl8139: enabled tok and rok in imr'') [] s1 }"

fun read_mac :: "device \<Rightarrow> rtl8139_dev \<Rightarrow> nat \<Rightarrow> nat \<Rightarrow> 'a io_scheme \<Rightarrow> u8 list \<times> 'a io_scheme" where
  "read_mac dev d i 0 s = ([], s)"
| "read_mac dev d i (Suc n) s =
     (let (b, s1) = inportb dev (reg_port d (RTL8139_REG_MAC + of_nat i)) s; (bs, s2) = read_mac dev d (Suc i) n s1
      in (b # bs, s2))"

definition rtl8139_read_mac :: "device \<Rightarrow> u32 \<Rightarrow> 'a rtl_scheme \<Rightarrow> 'a rtl_scheme option" where
  "rtl8139_read_mac dev p s = do {
     d \<leftarrow> rt_devs s p;
     let (m, s1) = read_mac dev d 0 6 s;
     s2 \<leftarrow> dev_upd p (\<lambda>d. d\<lparr>mac := m\<rparr>) s1;
     tty_print dev (line_fmt ''rtl8139: mac %x:%x:%x:%x:%x:%x'') (map (\<lambda>b. Word (ucast b)) m) s2 }"

definition rtl8139_set_rcr :: "device \<Rightarrow> u32 \<Rightarrow> 'a rtl_scheme \<Rightarrow> 'a rtl_scheme option" where
  "rtl8139_set_rcr dev p s = do {
     d \<leftarrow> rt_devs s p;
     let s1 = io_wait (outportl (reg_port d RTL8139_REG_RCR) rcr_all s);
     tty_print dev (line_fmt ''rtl8139: recv all packets / wrap disabled'') [] s1 }"

definition rtl8139_set_tcr :: "device \<Rightarrow> u32 \<Rightarrow> 'a rtl_scheme \<Rightarrow> 'a rtl_scheme option" where
  "rtl8139_set_tcr dev p s = do {
     d \<leftarrow> rt_devs s p;
     let s1 = io_wait (outportl (reg_port d RTL8139_REG_TCR) (tcr_mxdma2 3 OR tcr_loopback 3 OR tcr_ifg 3) s);
     tty_print dev (line_fmt ''rtl8139: tx reg set'') [] s1 }"

definition rtl8139_enable_rxtx :: "device \<Rightarrow> u32 \<Rightarrow> 'a rtl_scheme \<Rightarrow> 'a rtl_scheme option" where
  "rtl8139_enable_rxtx dev p s = do {
     d \<leftarrow> rt_devs s p;
     let s1 = io_wait (outportb (reg_port d RTL8139_REG_CMD) (cmd_re OR cmd_te) s);
     tty_print dev (line_fmt ''rtl8139: enabling rx & tx'') [] s1 }"

definition rtl8139_reg_irq :: "'a rtl_scheme rtl_ops \<Rightarrow> device \<Rightarrow> u32 \<Rightarrow> 'a rtl_scheme \<Rightarrow> 'a rtl_scheme option" where
  "rtl8139_reg_irq ops dev p s = do {
     d \<leftarrow> rt_devs s p;
     s1 \<leftarrow> irq_register (rt_irq d) (r_handler ops) s;
     tty_print dev (line_fmt ''rtl8139: registered irq'') [] s1 }"

definition rtl8139_get_tsd :: "device \<Rightarrow> rtl8139_dev \<Rightarrow> u32 \<Rightarrow> 'a io_scheme \<Rightarrow> u32 \<times> 'a io_scheme" where
  "rtl8139_get_tsd dev d desc = inportl dev (reg_port d (RTL8139_REG_TSD + desc * 4))"

definition rtl8139_get_isr :: "device \<Rightarrow> rtl8139_dev \<Rightarrow> bool \<Rightarrow> 'a io_scheme \<Rightarrow> u16 \<times> 'a io_scheme" where
  "rtl8139_get_isr dev d ack s = (let
     (isr, s1) = inportw dev (reg_port d RTL8139_REG_ISR) s
   in (isr, if ack then outportw (reg_port d RTL8139_REG_ISR) isr s1 else s1))"

subsection \<open>init.c\<close>

fun print_flags :: "device \<Rightarrow> (u32 \<times> string) list \<Rightarrow> u32 \<Rightarrow> 'a ps2_scheme \<Rightarrow> 'a ps2_scheme option" where
  "print_flags dev [] header s = Some s"
| "print_flags dev ((m, txt) # fs) header s = do {
     s1 \<leftarrow> (if header AND m \<noteq> 0 then tty_print dev (text_fmt txt) [] s else Some s);
     print_flags dev fs header s1 }"

text \<open>The packet at the start of the receive buffer. \<open>data\<close> points into that buffer, and is what \<open>ring_read\<close> copies to.\<close>
definition receive :: "device \<Rightarrow> 'a rtl_scheme \<Rightarrow> 'a rtl_scheme option" where
  "receive dev s = do {
     s1 \<leftarrow> tty_print dev (line_fmt ''rtl8139: rok and roll'') [] s;
     d \<leftarrow> rt_devs s1 (g_dev s1);
     header \<leftarrow> rd32 (rt_mem s1) (recv_buff_virt d);
     crc \<leftarrow> rd32 (rt_mem s1) (recv_buff_virt d + packet_len header);
     let dat = recv_buff_virt d + 4;
     s2 \<leftarrow> tty_print dev (line_fmt ''rtl8139: found %d bytes'') [Word (packet_len header)] s1;
     s3 \<leftarrow> tty_print dev (line_fmt ''rtl8139: crc %x'') [Word crc] s2;
     s4 \<leftarrow> tty_print dev (text_fmt ''rtl8139: header flags: '') [] s3;
     s5 \<leftarrow> print_flags dev packet_flags header s4;
     s6 \<leftarrow> tty_print dev (line_fmt '''') [] s5;
     r \<leftarrow> rt_ring d;
     buff \<leftarrow> get_bytes (rt_mem s6) dat (unat (RTL8139_BUFF_SIZE - 4));
     (_, buff1, r1) \<leftarrow> ring_read r buff (packet_len header - 4);
     m \<leftarrow> set_bytes (rt_mem s6) dat buff1;
     dev_upd (g_dev s6) (\<lambda>d. d\<lparr>rt_ring := Some r1\<rparr>) (s6\<lparr>rt_mem := m\<rparr>) }"

fun report_sent :: "device \<Rightarrow> nat \<Rightarrow> nat \<Rightarrow> 'a rtl_scheme \<Rightarrow> 'a rtl_scheme option" where
  "report_sent dev i 0 s = Some s"
| "report_sent dev i (Suc n) s = do {
     d \<leftarrow> rt_devs s (g_dev s);
     let (tsd, s1) = rtl8139_get_tsd dev d (of_nat i) s;
     s2 \<leftarrow> (if tsd AND tsd_tok \<noteq> 0 then tty_print dev (line_fmt ''rtl8139: packet sent from descriptor %d'') [Word (of_nat i)] s1
           else Some s1);
     report_sent dev (Suc i) n s2 }"

definition rtl8139_interrupt :: "device \<Rightarrow> 'a rtl_scheme \<Rightarrow> 'a rtl_scheme option" where
  "rtl8139_interrupt dev s = do {
     d \<leftarrow> rt_devs s (g_dev s);
     let (isr, s1) = rtl8139_get_isr dev d True s;
     s2 \<leftarrow> tty_print dev (line_fmt ''rtl8139: isr=%x'') [Word (ucast isr)] s1;
     s3 \<leftarrow> (if isr AND int_rok \<noteq> 0 then receive dev s2 else Some s2);
     if isr AND int_tok \<noteq> 0 then report_sent dev 0 4 s3 else Some s3 }"

partial_function (option) tsd_wait :: "device \<Rightarrow> u16 \<Rightarrow> u32 \<Rightarrow> 'a io_scheme \<Rightarrow> (u32 \<times> 'a io_scheme) option" where
  "tsd_wait dev port m s =
     (let (tsd, s1) = inportl dev port s; s2 = io_wait s1 in
      if tsd AND m = 0 then tsd_wait dev port m s2 else Some (tsd, s2))"

text \<open>The descriptor is written as a whole: all its fields but the size are cleared.\<close>
definition rtl8139_send_packet :: "device \<Rightarrow> u32 \<Rightarrow> u32 \<Rightarrow> u32 \<Rightarrow> 'a rtl_scheme \<Rightarrow> 'a rtl_scheme option" where
  "rtl8139_send_packet dev p dat len s =
     (if len > RTL8139_MAX_PACKET then
        tty_print dev (line_fmt ''rtl8139: cant send packet of %d len max is %d'') [Word len, Word RTL8139_MAX_PACKET] s
      else do {
        s1 \<leftarrow> tty_print dev (line_fmt ''rtl8139: sending %d bytes'') [Word len] s;
        d \<leftarrow> rt_devs s1 p;
        let desc = curr_buff d;
        buf \<leftarrow> aget (tx_buff_virt d) (unat desc);
        s2 \<leftarrow> dev_upd p (\<lambda>d. d\<lparr>curr_buff := (desc + 1) mod 4\<rparr>) s1;
        let tsd_port = reg_port d (RTL8139_REG_TSD + ucast desc * 4);
        (_, s3) \<leftarrow> tsd_wait dev tsd_port tsd_own s2;
        (m, _) \<leftarrow> memcpy (rt_mem s3) buf dat len;
        let s4 = outportl tsd_port (len AND mask 13) (s3\<lparr>rt_mem := m\<rparr>);
        s5 \<leftarrow> tty_print dev (line_fmt ''rtl8139: data sent'') [] s4;
        (_, s6) \<leftarrow> tsd_wait dev tsd_port tsd_own s5;
        s7 \<leftarrow> tty_print dev (line_fmt ''rtl8139: dma complete'') [] s6;
        (_, s8) \<leftarrow> tsd_wait dev tsd_port tsd_tok s7;
        tty_print dev (line_fmt ''rtl8139: send complete'') [] s8 })"

text \<open>\<open>Some None\<close> when the memory cannot be mapped. The flags are \<open>MMAP_RW | MMAP_URGENT\<close>.\<close>
definition rtl8139_alloc_buffer :: "'a rtl_scheme rtl_ops \<Rightarrow> 'a rtl_scheme \<Rightarrow> ((u32 \<times> u32) option \<times> 'a rtl_scheme) option" where
  "rtl8139_alloc_buffer ops s = do {
     (virt, s1) \<leftarrow> r_memmap ops NULL RTL8139_BUFF_SIZE (MMAP_RW OR MMAP_URGENT) s;
     if virt = NULL then Some (None, s1)
     else do { phys \<leftarrow> r_find_physical ops virt s1; Some (Some (virt, phys), s1) } }"

fun init_tx :: "'a rtl_scheme rtl_ops \<Rightarrow> device \<Rightarrow> u32 \<Rightarrow> nat \<Rightarrow> nat \<Rightarrow> 'a rtl_scheme \<Rightarrow> (bool \<times> 'a rtl_scheme) option" where
  "init_tx ops dev p i 0 s = Some (True, s)"
| "init_tx ops dev p i (Suc n) s = do {
     (b, s1) \<leftarrow> rtl8139_alloc_buffer ops s;
     case b of
       None \<Rightarrow> do { s2 \<leftarrow> tty_print dev (text_fmt ''rtl8139: failed to get recv buffer'') [] s1; Some (False, s2) }
     | Some (virt, phys) \<Rightarrow> do {
         s2 \<leftarrow> dev_upd p (\<lambda>d. d\<lparr>tx_buff_virt := (tx_buff_virt d)[i := virt], tx_buff_phys := (tx_buff_phys d)[i := phys]\<rparr>) s1;
         s3 \<leftarrow> tty_print dev (line_fmt ''rtl8139: tx buffer at %p (mapped at %p)'') [Word phys, Word virt] s2;
         init_tx ops dev p (Suc i) n s3 } }"

definition rtl8139_init_buffer :: "'a rtl_scheme rtl_ops \<Rightarrow> device \<Rightarrow> u32 \<Rightarrow> 'a rtl_scheme \<Rightarrow> 'a rtl_scheme option" where
  "rtl8139_init_buffer ops dev p s = do {
     (b, s1) \<leftarrow> rtl8139_alloc_buffer ops s;
     case b of
       None \<Rightarrow> tty_print dev (text_fmt ''rtl8139: failed to get recv buffer'') [] s1
     | Some (virt, phys) \<Rightarrow> do {
         s2 \<leftarrow> dev_upd p (\<lambda>d. d\<lparr>recv_buff_virt := virt, recv_buff_phys := phys\<rparr>) s1;
         s3 \<leftarrow> tty_print dev (line_fmt ''rtl8139: recv buffer at %p (mapped at %p)'') [Word phys, Word virt] s2;
         (ok, s4) \<leftarrow> init_tx ops dev p 0 4 s3;
         if \<not> ok then Some s4
         else do {
           let (r, s5) = ring_init (r_kmalloc ops) (r_kfree ops) RTL8139_RECV_BUFF s4;
           s6 \<leftarrow> dev_upd p (\<lambda>d. d\<lparr>rt_ring := r\<rparr>) s5;
           if r = None then tty_print dev (line_fmt ''rtl8139: failed to init netbuf'') [] s6
           else tty_print dev (line_fmt ''rtl8139: net buf of %d bytes allocated'') [Word RTL8139_RECV_BUFF] s6 } } }"

definition rtl8139_startup :: "'a rtl_scheme rtl_ops \<Rightarrow> device \<Rightarrow> u32 \<Rightarrow> 'a rtl_scheme \<Rightarrow> 'a rtl_scheme option" where
  "rtl8139_startup ops dev p s = do {
     s1 \<leftarrow> tty_print dev (line_fmt ''rtl8139: performing startup'') [] s;
     s2 \<leftarrow> rtl8139_poweron dev p s1;
     s3 \<leftarrow> rtl8139_softreset dev p s2;
     s4 \<leftarrow> rtl8139_enable_rxtx dev p s3;
     s5 \<leftarrow> rtl8139_set_rcr dev p s4;
     s6 \<leftarrow> rtl8139_set_tcr dev p s5;
     s7 \<leftarrow> rtl8139_init_buffer ops dev p s6;
     s8 \<leftarrow> rtl8139_load_buffer dev p s7;
     s9 \<leftarrow> rtl8139_read_mac dev p s8;
     s10 \<leftarrow> rtl8139_reg_irq ops dev p s9;
     s11 \<leftarrow> rtl8139_set_int dev p s10;
     tty_print dev (line_fmt ''rtl8139: startup complete'') [] s11 }"

fun load_bases :: "device \<Rightarrow> u32 \<Rightarrow> nat \<Rightarrow> nat \<Rightarrow> 'a rtl_scheme \<Rightarrow> 'a rtl_scheme option" where
  "load_bases dev p i 0 s = Some s"
| "load_bases dev p i (Suc n) s = do {
     d \<leftarrow> rt_devs s p;
     base \<leftarrow> pci_device_base_addr (pci_dev d) (of_nat i) (rt_pci s);
     s1 \<leftarrow> (if base = 0 then Some s
       else if base AND 1 = 1 then do {
         t \<leftarrow> dev_upd p (\<lambda>d. d\<lparr>io_addr := base AND 0xFFFC\<rparr>) s;
         tty_print dev (line_fmt ''rtl8139: io addr %p'') [Word (base AND 0xFFFC)] t }
       else do {
         t \<leftarrow> dev_upd p (\<lambda>d. d\<lparr>mem_addr := base AND 0xFFFFFFF0\<rparr>) s;
         tty_print dev (line_fmt ''rtl8139: mem addr %p'') [Word (base AND 0xFFFFFFF0)] t });
     load_bases dev p (Suc i) n s1 }"

definition rtl8139_init_pci :: "device \<Rightarrow> u32 \<Rightarrow> 'a rtl_scheme \<Rightarrow> 'a rtl_scheme option" where
  "rtl8139_init_pci dev p s = do {
     d \<leftarrow> rt_devs s p;
     pd \<leftarrow> pci_devs (rt_pci s) (pci_dev d);
     if pd_header_type pd \<noteq> 0 then
       tty_print dev (line_fmt ''rtl8139: header_type of pci must be 0, is %d'') [Word (ucast (pd_header_type pd))] s
     else do {
       header \<leftarrow> pci_normals (rt_pci s) (pd_extra pd);
       irq \<leftarrow> acpi_irq_remap (ucast (pn_interrupt_line header)) (rt_acpi s);
       s1 \<leftarrow> dev_upd p (\<lambda>d. d\<lparr>rt_irq := ucast irq\<rparr>) s;
       s2 \<leftarrow> tty_print dev (line_fmt ''rtl8139: irq %d'') [Word (ucast (ucast irq :: u8))] s1;
       s3 \<leftarrow> load_bases dev p 0 6 s2;
       (cmd, s4) \<leftarrow> on_pci (pci_device_read_cmd dev (pci_dev d)) s3;
       s5 \<leftarrow> tty_print dev (line_fmt ''cmd_reg: %x'') [Word (ucast cmd)] s4;
       (_, s6) \<leftarrow> on_pci (\<lambda>t. map_option (\<lambda>t'. ((), t')) (pci_device_write_cmd (pci_dev d) (cmd OR push_bit 2 1) t)) s5;
       s7 \<leftarrow> tty_print dev (line_fmt ''rtl8139: attempted to enable bus mastering'') [] s6;
       (cmd1, s8) \<leftarrow> on_pci (pci_device_read_cmd dev (pci_dev d)) s7;
       s9 \<leftarrow> (if cmd1 AND push_bit 2 1 = 0 then do {
           t \<leftarrow> tty_print dev (line_fmt ''rtl8139: failed to enable bus mastering'') [] s8;
           dev_upd p (\<lambda>d. d\<lparr>io_addr := 0, mem_addr := 0\<rparr>) t }
         else Some s8);
       tty_print dev (line_fmt ''rtl8139: bus mastering enabled.'') [] s9 } }"

definition rtl8139_pci_ready :: "rtl8139_dev \<Rightarrow> bool" where
  "rtl8139_pci_ready d \<longleftrightarrow> io_addr d \<noteq> 0 \<and> mem_addr d \<noteq> 0"

text \<open>The record after \<open>MEMZERO\<close>.\<close>
definition zero_dev :: rtl8139_dev where
  "zero_dev = \<lparr>io_addr = 0, mem_addr = 0, rt_irq = 0, pci_dev = NULL, recv_buff_virt = NULL, recv_buff_phys = NULL,
     tx_buff_virt = replicate 4 NULL, tx_buff_phys = replicate 4 NULL, curr_buff = 0, rt_ring = None, mac = replicate 6 0\<rparr>"

definition rtl8139_init :: "'a rtl_scheme rtl_ops \<Rightarrow> device \<Rightarrow> 'a rtl_scheme \<Rightarrow> 'a rtl_scheme option" where
  "rtl8139_init ops dev s = do {
     pd \<leftarrow> pci_get 0x10EC 0x8139 (rt_pci s);
     if pd = NULL then tty_print dev (line_fmt ''rtl8139: no device found'') [] s
     else do {
       let (p, s1) = r_kmalloc ops (sizeof rtl8139_dev_layout) s;
       if p = NULL then tty_print dev (line_fmt ''rtl8139: failed to alloc device'') [] s1
       else do {
         s2 \<leftarrow> rtl8139_init_pci dev p (s1\<lparr>rt_devs := (rt_devs s1)(p \<mapsto> zero_dev\<lparr>pci_dev := pd\<rparr>)\<rparr>);
         d \<leftarrow> rt_devs s2 p;
         if \<not> rtl8139_pci_ready d then do {
           s3 \<leftarrow> tty_print dev (line_fmt ''rtl8139: failed to find io/mem address'') [] s2;
           Some (r_kfree ops p s3) }
         else do {
           s3 \<leftarrow> rtl8139_startup ops dev p (s2\<lparr>g_dev := p\<rparr>);
           m \<leftarrow> set_bytes (rt_mem s3) (r_test ops) (map of_nat [0..<80]);
           rtl8139_send_packet dev p (r_test ops) 80 (s3\<lparr>rt_mem := m\<rparr>) } } } }"

subsection \<open>Messages and polls\<close>

text \<open>What is read, and what is written to the serial port.\<close>
fun quiet_event :: "io_event \<Rightarrow> bool" where
  "quiet_event (InB p v) = True"
| "quiet_event (InW p v) = True"
| "quiet_event (InL p v) = True"
| "quiet_event (OutB p v) = (p = RS232_PORT_COM1)"
| "quiet_event _ = False"

definition tty_ok :: "'a ps2_scheme \<Rightarrow> bool" where
  "tty_ok s \<longleftrightarrow> (\<exists>ls l. tty_shows ls l s)"

text \<open>\<open>t\<close> is \<open>s\<close> after messages and reads.\<close>
definition said :: "'a ps2_scheme \<Rightarrow> 'a ps2_scheme \<Rightarrow> bool" where
  "said s t \<longleftrightarrow> (\<exists>c es. t = s\<lparr>ps2_tty := c, io_log := io_log s @ es\<rparr> \<and> list_all quiet_event es \<and> tty_ok t)"

text \<open>What is written to the ports of words and double words.\<close>
definition reg_writes :: "io_event list \<Rightarrow> (u16 \<times> u32) list" where
  "reg_writes log = concat (map (\<lambda>e. case e of OutL p v \<Rightarrow> [(p, v)] | OutW p v \<Rightarrow> [(p, ucast v)] | _ \<Rightarrow> []) log)"

lemma reg_writes_append [simp]: "reg_writes (xs @ ys) = reg_writes xs @ reg_writes ys"
  by (simp add: reg_writes_def)

lemma reg_writes_quiet: "list_all quiet_event es \<Longrightarrow> reg_writes es = []"
proof (induction es)
  case (Cons e es)
  then show ?case by (cases e) (simp_all add: reg_writes_def)
qed (simp add: reg_writes_def)

lemma said_refl: "tty_ok s \<Longrightarrow> said s s"
  unfolding said_def by (rule exI[of _ "ps2_tty s"], rule exI[of _ "[]"]) simp

lemma said_trans:
  assumes "said s t" and "said t u"
  shows "said s u"
proof -
  obtain c es where t: "t = s\<lparr>ps2_tty := c, io_log := io_log s @ es\<rparr>" "list_all quiet_event es"
    using assms(1) unfolding said_def by (elim exE conjE) (rule that)
  obtain d fs where u: "u = t\<lparr>ps2_tty := d, io_log := io_log t @ fs\<rparr>" "list_all quiet_event fs" "tty_ok u"
    using assms(2) unfolding said_def by (elim exE conjE) (rule that)
  have "u = s\<lparr>ps2_tty := d, io_log := io_log s @ (es @ fs)\<rparr>" unfolding u(1) t(1) by simp
  then show ?thesis unfolding said_def using t(2) u(2,3)
    by (intro exI[of _ d] exI[of _ "es @ fs"] conjI) simp_all
qed

lemma said_ok: "said s t \<Longrightarrow> tty_ok t"
  by (auto simp: said_def)

lemma said_fields:
  fixes s t :: "'a rtl_scheme"
  assumes "said s t"
  shows "rt_devs t = rt_devs s" "rt_mem t = rt_mem s" "g_dev t = g_dev s" "irq_handlers t = irq_handlers s"
    "reg_writes (io_log t) = reg_writes (io_log s)"
  using assms by (auto simp: said_def reg_writes_quiet)

lemma print_chars_quiet:
  assumes "serial_ready dev" and "shows_page ls l s"
  shows "\<exists>s' es. print_chars dev cs s = Some s' \<and> io_log s' = io_log s @ es \<and> list_all quiet_event es
    \<and> print_lock s' = print_lock s \<and> (\<exists>ls' l'. shows_page ls' l' s')"
  using assms(2)
proof (induction cs arbitrary: ls l s)
  case Nil
  then show ?case by auto
next
  case (Cons c cs)
  obtain ls1 l1 where w: "wrap ls l [c] = (ls1, l1)" by fastforce
  obtain v s1 where s1: "kputch dev c s = Some s1" "io_log s1 = io_log s @ [InB (RS232_PORT_COM1 + 5) v, OutB RS232_PORT_COM1 c]"
      "print_lock s1 = print_lock s" "shows_page ls1 l1 s1"
    using kputch_ready[OF assms(1) Cons.prems, of c] w by auto
  obtain s' es where "print_chars dev cs s1 = Some s'" "io_log s' = io_log s1 @ es" "list_all quiet_event es"
      "print_lock s' = print_lock s1" "\<exists>ls' l'. shows_page ls' l' s'"
    using Cons.IH[OF s1(4)] by (elim exE conjE) (rule that; blast)
  then show ?case using s1(1-3)
    by (intro exI[of _ s'] exI[of _ "InB (RS232_PORT_COM1 + 5) v # OutB RS232_PORT_COM1 c # es"]) simp
qed

lemma says:
  assumes "serial_ready dev" and "tty_ok s" and "fmt_args fmt args"
  shows "\<exists>t. tty_print dev fmt args s = Some t \<and> said s t"
proof -
  obtain ls l where tty: "tty_shows ls l s" using assms(2) unfolding tty_ok_def by (elim exE) (rule that)
  obtain cs where cs: "kprintf_loop dev fmt 0 args = (print_chars dev cs :: console \<Rightarrow> console option)"
    using fmt_prints[of 0 fmt args dev] assms(3) by auto
  let ?c = "(ps2_tty s)\<lparr>io_log := io_log s, print_lock := 1\<rparr>"
  have "shows_page ls l ?c" using tty by (simp add: tty_shows_def shows_page_def)
  from print_chars_quiet[OF assms(1) this, of cs] obtain c es where c: "print_chars dev cs ?c = Some c"
      "io_log c = io_log s @ es" "list_all quiet_event es" "\<exists>ls' l'. shows_page ls' l' c"
    by auto
  have k: "kprintf dev fmt args ((ps2_tty s)\<lparr>io_log := io_log s\<rparr>) = Some (c\<lparr>print_lock := 0\<rparr>)"
    using tty cs c(1) by (simp add: kprintf_def tty_shows_def spin_lock_def spin_unlock_def)
  have p: "shows_page ls' l' (c\<lparr>print_lock := 0\<rparr>) = shows_page ls' l' c" for ls' l' by (simp add: shows_page_def)
  let ?t = "s\<lparr>ps2_tty := c\<lparr>print_lock := 0\<rparr>, io_log := io_log s @ es\<rparr>"
  have "tty_ok ?t" using c(4) p by (auto simp: tty_ok_def tty_shows_def)
  then have "said s ?t" using c(3) unfolding said_def by blast
  then show ?thesis using k c(2) by (simp add: tty_print_def)
qed

text \<open>The log after \<open>n\<close> reads of a port.\<close>
fun polled :: "device \<Rightarrow> u16 \<Rightarrow> nat \<Rightarrow> io_event list \<Rightarrow> io_event list" where
  "polled dev port 0 log = log"
| "polled dev port (Suc n) log = polled dev port n (log @ [InL port (dev log (Port port))])"

text \<open>A card that sets a bit of a register after a while, if it is polled.\<close>
definition reports :: "device \<Rightarrow> u16 \<Rightarrow> u32 \<Rightarrow> bool" where
  "reports dev port m \<longleftrightarrow> (\<forall>log. \<exists>n. dev (polled dev port n log) (Port port) AND m \<noteq> 0)"

lemma tsd_wait_polls:
  "dev (polled dev port n (io_log s)) (Port port) AND m \<noteq> 0 \<Longrightarrow>
   \<exists>v es. tsd_wait dev port m s = Some (v, s\<lparr>io_log := io_log s @ es\<rparr>) \<and> list_all quiet_event es"
proof (induction n arbitrary: s)
  case 0
  then show ?case by (subst tsd_wait.simps, intro exI[of _ "dev (io_log s) (Port port)"] exI[of _ "[InL port (dev (io_log s) (Port port))]"])
      (simp add: inportl_def io_event_def io_wait_def Let_def)
next
  case (Suc n)
  let ?v = "dev (io_log s) (Port port)" and ?s = "s\<lparr>io_log := io_log s @ [InL port (dev (io_log s) (Port port))]\<rparr>"
  show ?case
  proof (cases "?v AND m = 0")
    case True
    have "tsd_wait dev port m s = tsd_wait dev port m ?s"
      using True by (subst tsd_wait.simps) (simp add: inportl_def io_event_def io_wait_def Let_def)
    moreover obtain v es where "tsd_wait dev port m ?s = Some (v, ?s\<lparr>io_log := io_log ?s @ es\<rparr>)" "list_all quiet_event es"
      using Suc.IH[of ?s] Suc.prems by auto
    ultimately show ?thesis by (intro exI[of _ v] exI[of _ "InL port ?v # es"]) simp
  next
    case False
    then show ?thesis by (subst tsd_wait.simps, intro exI[of _ ?v] exI[of _ "[InL port ?v]"])
      (simp add: inportl_def io_event_def io_wait_def Let_def)
  qed
qed

lemma tsd_waits:
  assumes "reports dev port m" and "tty_ok s"
  shows "\<exists>v t. tsd_wait dev port m s = Some (v, t) \<and> said s t"
proof -
  obtain n where "dev (polled dev port n (io_log s)) (Port port) AND m \<noteq> 0" using assms(1) unfolding reports_def by blast
  from tsd_wait_polls[of dev port n s m, OF this] obtain v es where w: "tsd_wait dev port m s = Some (v, s\<lparr>io_log := io_log s @ es\<rparr>)"
      "list_all quiet_event es" by (elim exE conjE) (rule that)
  have "tty_ok (s\<lparr>io_log := io_log s @ es\<rparr>)" using assms(2) by (simp add: tty_ok_def tty_shows_def)
  then have "said s (s\<lparr>io_log := io_log s @ es\<rparr>)"
    unfolding said_def using w(2) by (intro exI[of _ "ps2_tty s"] exI[of _ es] conjI) simp_all
  then show ?thesis using w(1) by blast
qed

subsection \<open>Sending\<close>

lemma span_mono: "m \<le> n \<Longrightarrow> span p m \<subseteq> span p n"
  by (auto simp: span_def)

lemma apart_fwd_safe: "span d n \<inter> span a n = {} \<Longrightarrow> fwd_safe d a n"
  by (induction n arbitrary: d a) (auto simp: span_Suc)

lemma small_size:
  assumes "n \<le> 1792"
  shows "unat (of_nat n :: u32) = n" and "(of_nat n :: u32) AND mask 13 = of_nat n"
proof -
  show u: "unat (of_nat n :: u32) = n" using assms by (intro unat_of_nat32) simp
  have "take_bit 13 (of_nat n :: u32) = of_nat (take_bit 13 n)" by (simp add: take_bit_of_nat)
  also have "take_bit 13 n = n" using assms by (intro take_bit_nat_eq_self) simp
  finally show "(of_nat n :: u32) AND mask 13 = of_nat n" by (simp only: take_bit_eq_mask)
qed

lemma memcpy_loop_dom: "memcpy_loop m d a n = Some (m', e) \<Longrightarrow> dom m' = dom m"
proof (induction n arbitrary: m d a)
  case (Suc n)
  then obtain v w where v: "m a = Some v" "m d = Some w" "memcpy_loop (m(d \<mapsto> v)) (d + 1) (a + 1) n = Some (m', e)"
    by (auto simp: CString.mset_def split: bind_split_asm option.split_asm)
  have "dom m' = insert d (dom m)" using Suc.IH[OF v(3)] by (simp only: dom_fun_upd option.distinct if_False)
  then show ?case using v(2) by (simp only: insert_absorb domI)
qed simp

definition tsd_reg :: "rtl8139_dev \<Rightarrow> nat \<Rightarrow> u16" where
  "tsd_reg d i = reg_port d (RTL8139_REG_TSD + of_nat i * 4)"

text \<open>A card and a driver that are set up.\<close>
definition can_send :: "device \<Rightarrow> rtl8139_dev \<Rightarrow> mem \<Rightarrow> bool" where
  "can_send dev d m \<longleftrightarrow> curr_buff d < 4 \<and> length (tx_buff_virt d) = 4
     \<and> (\<forall>i < 4. reports dev (tsd_reg d i) tsd_own \<and> reports dev (tsd_reg d i) tsd_tok \<and> mapped m (span (tx_buff_virt d ! i) 1792))
     \<and> (\<forall>i < 4. \<forall>j < 4. i \<noteq> j \<longrightarrow> span (tx_buff_virt d ! i) 1792 \<inter> span (tx_buff_virt d ! j) 1792 = {})"

text \<open>The bytes of a packet in memory, apart from the buffers.\<close>
definition packet_in :: "mem \<Rightarrow> rtl8139_dev \<Rightarrow> u32 \<times> u8 list \<Rightarrow> bool" where
  "packet_in m d ap \<longleftrightarrow> bytes_at m (fst ap) (snd ap) \<and> length (snd ap) \<le> 1792
     \<and> (\<forall>i < 4. span (tx_buff_virt d ! i) 1792 \<inter> span (fst ap) (length (snd ap)) = {})"

lemma send_one:
  fixes s :: "'a rtl_scheme"
  assumes "serial_ready dev" and "tty_ok s" and "rt_devs s p = Some d" and "can_send dev d (rt_mem s)" and "packet_in (rt_mem s) d (a, bs)"
  shows "\<exists>t. rtl8139_send_packet dev p a (of_nat (length bs)) s = Some t \<and> tty_ok t
    \<and> rt_devs t = (rt_devs s)(p \<mapsto> d\<lparr>curr_buff := (curr_buff d + 1) mod 4\<rparr>)
    \<and> reg_writes (io_log t) = reg_writes (io_log s) @ [(tsd_reg d (unat (curr_buff d)), of_nat (length bs))]
    \<and> bytes_at (rt_mem t) (tx_buff_virt d ! unat (curr_buff d)) bs
    \<and> (\<forall>q. q \<notin> span (tx_buff_virt d ! unat (curr_buff d)) 1792 \<longrightarrow> rt_mem t q = rt_mem s q)
    \<and> dom (rt_mem t) = dom (rt_mem s)"
proof -
  let ?c = "unat (curr_buff d)" and ?n = "length bs"
  let ?buf = "tx_buff_virt d ! ?c" and ?port = "tsd_reg d ?c"
  have c: "?c < 4" using assms(4) by (simp add: can_send_def word_less_nat_alt)
  have n: "?n \<le> 1792" using assms(5) by (simp add: packet_in_def)
  have len: "\<not> of_nat ?n > RTL8139_MAX_PACKET" using small_size(1)[OF n] n by (simp add: RTL8139_MAX_PACKET_def word_less_nat_alt)
  have port: "reg_port d (RTL8139_REG_TSD + ucast (curr_buff d) * 4) = ?port" by (simp add: tsd_reg_def)
  have own: "reports dev ?port tsd_own" and tok: "reports dev ?port tsd_tok" using assms(4) c by (simp_all add: can_send_def)
  obtain s1 where s1: "tty_print dev (line_fmt ''rtl8139: sending %d bytes'') [Word (of_nat ?n)] s = Some s1" "said s s1"
    using says[OF assms(1,2), of "line_fmt ''rtl8139: sending %d bytes''" "[Word (of_nat ?n)]"] by (auto simp: line_fmt_def)
  let ?s2 = "s1\<lparr>rt_devs := (rt_devs s1)(p \<mapsto> d\<lparr>curr_buff := (curr_buff d + 1) mod 4\<rparr>)\<rparr>"
  have "tty_ok ?s2" using said_ok[OF s1(2)] by (simp add: tty_ok_def tty_shows_def)
  from tsd_waits[OF own this] obtain v3 s3 where s3: "tsd_wait dev ?port tsd_own ?s2 = Some (v3, s3)" "said ?s2 s3"
    by (elim exE conjE) (rule that)
  have mem3: "rt_mem s3 = rt_mem s" using said_fields(2)[OF s3(2)] said_fields(2)[OF s1(2)] by simp
  have "mapped (rt_mem s) (span ?buf 1792)" using assms(4) c by (simp add: can_send_def)
  then have "mapped (rt_mem s) (span ?buf ?n)" using span_mono[OF n, of ?buf] by (auto simp: mapped_def)
  moreover have "span ?buf ?n \<inter> span a ?n = {}"
    using assms(5) c span_mono[OF n, of ?buf] by (auto simp: packet_in_def)
  then have "fwd_safe ?buf a ?n" by (rule apart_fwd_safe)
  moreover have "bytes_at (rt_mem s) a bs" using assms(5) by (simp add: packet_in_def)
  moreover have "?n \<le> 4294967296" using n by simp
  ultimately obtain m where m: "memcpy_loop (rt_mem s) ?buf a ?n = Some (m, ?buf + of_nat ?n)" "bytes_at m ?buf bs"
      "\<forall>q. q \<notin> span ?buf ?n \<longrightarrow> m q = rt_mem s q"
    using memcpy_loop_copies[of "rt_mem s" a bs ?buf] by blast
  let ?s4 = "outportl ?port (of_nat ?n) (s3\<lparr>rt_mem := m\<rparr>)"
  have ok4: "tty_ok ?s4" using said_ok[OF s3(2)] by (simp add: tty_ok_def tty_shows_def outportl_def io_event_def)
  obtain s5 where s5: "tty_print dev (line_fmt ''rtl8139: data sent'') [] ?s4 = Some s5" "said ?s4 s5"
    using says[OF assms(1) ok4, of "line_fmt ''rtl8139: data sent''" "[]"] by (auto simp: line_fmt_def)
  obtain v6 s6 where s6: "tsd_wait dev ?port tsd_own s5 = Some (v6, s6)" "said s5 s6"
    using tsd_waits[OF own said_ok[OF s5(2)]] by (elim exE conjE) (rule that)
  obtain s7 where s7: "tty_print dev (line_fmt ''rtl8139: dma complete'') [] s6 = Some s7" "said s6 s7"
    using says[OF assms(1) said_ok[OF s6(2)], of "line_fmt ''rtl8139: dma complete''" "[]"] by (auto simp: line_fmt_def)
  obtain v8 s8 where s8: "tsd_wait dev ?port tsd_tok s7 = Some (v8, s8)" "said s7 s8"
    using tsd_waits[OF tok said_ok[OF s7(2)]] by (elim exE conjE) (rule that)
  obtain t where t: "tty_print dev (line_fmt ''rtl8139: send complete'') [] s8 = Some t" "said s8 t"
    using says[OF assms(1) said_ok[OF s8(2)], of "line_fmt ''rtl8139: send complete''" "[]"] by (auto simp: line_fmt_def)
  have after: "said ?s4 t" using s5(2) s6(2) s7(2) s8(2) t(2) said_trans by metis
  have d1: "rt_devs s1 p = Some d" using said_fields(1)[OF s1(2)] assms(3) by simp
  have buf: "aget (tx_buff_virt d) ?c = Some ?buf" using assms(4) c by (simp add: can_send_def aget_def)
  have "rtl8139_send_packet dev p a (of_nat ?n) s = Some t"
    using len s1(1) d1 buf s3(1) m(1) mem3 s5(1) s6(1) s7(1) s8(1) t(1)
    by (simp add: rtl8139_send_packet_def dev_upd_def port memcpy_def small_size[OF n])
  moreover have "reg_writes (io_log t) = reg_writes (io_log s) @ [(?port, of_nat ?n)]"
    using said_fields(5)[OF after] said_fields(5)[OF s3(2)] said_fields(5)[OF s1(2)]
    by (simp add: outportl_def io_event_def) (simp add: reg_writes_def)
  moreover have "rt_devs t = (rt_devs s)(p \<mapsto> d\<lparr>curr_buff := (curr_buff d + 1) mod 4\<rparr>)"
    using said_fields(1)[OF after] said_fields(1)[OF s3(2)] said_fields(1)[OF s1(2)] by (simp add: outportl_def io_event_def)
  moreover have "rt_mem t = m" using said_fields(2)[OF after] by (simp add: outportl_def io_event_def)
  ultimately show ?thesis using m(2,3) span_mono[OF n, of ?buf] said_ok[OF t(2)] memcpy_loop_dom[OF m(1)] by blast
qed

text \<open>Packets at the addresses given, one after the other.\<close>
fun send_all :: "device \<Rightarrow> u32 \<Rightarrow> (u32 \<times> u8 list) list \<Rightarrow> 'a rtl_scheme \<Rightarrow> 'a rtl_scheme option" where
  "send_all dev p [] s = Some s"
| "send_all dev p ((a, bs) # ps) s = do { s1 \<leftarrow> rtl8139_send_packet dev p a (of_nat (length bs)) s; send_all dev p ps s1 }"

lemma next_buff: "c < 4 \<Longrightarrow> unat ((c + 1) mod 4 :: u8) = (unat c + 1) mod 4 \<and> (c + 1) mod 4 < 4"
proof -
  assume "c < 4"
  then have "unat c < 4" by (simp add: word_less_nat_alt)
  then have "unat (c + 1) = unat c + 1" by (simp add: unat_word_ariths)
  then show ?thesis by (simp add: unat_mod word_less_nat_alt)
qed

lemma bytes_at_shorter: "length bs \<le> n \<Longrightarrow> bytes_at m p bs \<Longrightarrow> (\<And>q. q \<in> span p n \<Longrightarrow> m' q = m q) \<Longrightarrow> bytes_at m' p bs"
  using bytes_at_cong[of m p bs m'] span_mono[of "length bs" n p] by blast

text \<open>C33: Packets sent one after the other take the four transmit descriptors in turn: for each, the size is written
  to the status register of the next descriptor and to no other register, and the last four packets lie in their
  buffers while the rest of the memory is as before. Sending ends for every card that reports ownership and success
  after finitely many polls.\<close>
theorem rtl8139_sends_in_turn:
  assumes "serial_ready dev" and "tty_ok s" and "rt_devs s p = Some d" and "can_send dev d (rt_mem s)"
    and "\<forall>ap\<in>set ps. packet_in (rt_mem s) d ap"
  shows "\<exists>t. send_all dev p ps s = Some t \<and> tty_ok t
    \<and> reg_writes (io_log t) = reg_writes (io_log s)
        @ map (\<lambda>k. (tsd_reg d ((unat (curr_buff d) + k) mod 4), of_nat (length (snd (ps ! k))))) [0..<length ps]
    \<and> (\<forall>k < length ps. length ps \<le> k + 4 \<longrightarrow> bytes_at (rt_mem t) (tx_buff_virt d ! ((unat (curr_buff d) + k) mod 4)) (snd (ps ! k)))
    \<and> (\<forall>q. (\<forall>k < length ps. q \<notin> span (tx_buff_virt d ! ((unat (curr_buff d) + k) mod 4)) 1792) \<longrightarrow> rt_mem t q = rt_mem s q)"
  using assms(2-5)
proof (induction ps arbitrary: s d)
  case Nil
  then show ?case by simp
next
  case (Cons ap ps)
  obtain a bs where ap: "ap = (a, bs)" by (cases ap)
  let ?c = "unat (curr_buff d)" and ?d = "d\<lparr>curr_buff := (curr_buff d + 1) mod 4\<rparr>"
  let ?buf = "\<lambda>i. span (tx_buff_virt d ! i) 1792"
  have pk: "packet_in (rt_mem s) d (a, bs)" using Cons.prems(4) ap by simp
  obtain s1 where s1: "rtl8139_send_packet dev p a (of_nat (length bs)) s = Some s1" "tty_ok s1"
      "rt_devs s1 = (rt_devs s)(p \<mapsto> ?d)"
      "reg_writes (io_log s1) = reg_writes (io_log s) @ [(tsd_reg d ?c, of_nat (length bs))]"
      "bytes_at (rt_mem s1) (tx_buff_virt d ! ?c) bs" "\<And>q. q \<notin> ?buf ?c \<Longrightarrow> rt_mem s1 q = rt_mem s q"
      "dom (rt_mem s1) = dom (rt_mem s)"
    using send_one[OF assms(1) Cons.prems(1-3) pk] by blast
  have c: "curr_buff d < 4" "?c < 4" using Cons.prems(3) by (simp_all add: can_send_def word_less_nat_alt)
  note nb = next_buff[OF c(1)]
  have same: "tsd_reg ?d i = tsd_reg d i" for i by (simp add: tsd_reg_def reg_port_def)
  have "mapped (rt_mem s1) A = mapped (rt_mem s) A" for A using s1(7) by (auto simp: mapped_def)
  then have cs: "can_send dev ?d (rt_mem s1)" using Cons.prems(3) nb by (simp add: can_send_def same)
  have pks: "\<forall>bp\<in>set ps. packet_in (rt_mem s1) ?d bp"
  proof
    fix bp assume bp: "bp \<in> set ps"
    have pb: "packet_in (rt_mem s) d bp" using Cons.prems(4) bp by simp
    then have "?buf ?c \<inter> span (fst bp) (length (snd bp)) = {}" using c(2) by (simp add: packet_in_def)
    then have eq: "rt_mem s1 q = rt_mem s q" if "q \<in> span (fst bp) (length (snd bp))" for q using that by (intro s1(6)) blast
    have "bytes_at (rt_mem s) (fst bp) (snd bp)" using pb by (simp add: packet_in_def)
    from bytes_at_cong[OF this eq] have "bytes_at (rt_mem s1) (fst bp) (snd bp)" .
    then show "packet_in (rt_mem s1) ?d bp" using pb by (simp add: packet_in_def)
  qed
  have "rt_devs s1 p = Some ?d" using s1(3) by simp
  from Cons.IH[OF s1(2) this cs pks] obtain t where t: "send_all dev p ps s1 = Some t" "tty_ok t"
      "reg_writes (io_log t) = reg_writes (io_log s1)
        @ map (\<lambda>k. (tsd_reg ?d ((unat (curr_buff ?d) + k) mod 4), of_nat (length (snd (ps ! k))))) [0..<length ps]"
      "\<forall>k < length ps. length ps \<le> k + 4 \<longrightarrow> bytes_at (rt_mem t) (tx_buff_virt ?d ! ((unat (curr_buff ?d) + k) mod 4)) (snd (ps ! k))"
      "\<forall>q. (\<forall>k < length ps. q \<notin> span (tx_buff_virt ?d ! ((unat (curr_buff ?d) + k) mod 4)) 1792) \<longrightarrow> rt_mem t q = rt_mem s1 q"
    by (elim exE conjE) (rule that)
  have ix: "(unat (curr_buff ?d) + k) mod 4 = (?c + Suc k) mod 4" for k using nb by (simp add: mod_add_left_eq)
  have sv: "tx_buff_virt ?d = tx_buff_virt d" by simp
  note t' = t(3-5)[unfolded ix same sv]
  have up: "[0..<length (ap # ps)] = 0 # map Suc [0..<length ps]" by (simp only: list.size add_Suc_right add_0_right upt_conv_Cons map_Suc_upt zero_less_Suc)
  have "reg_writes (io_log t) = reg_writes (io_log s)
      @ map (\<lambda>k. (tsd_reg d ((?c + k) mod 4), of_nat (length (snd ((ap # ps) ! k))))) [0..<length (ap # ps)]"
    unfolding t'(1) s1(4) up using c(2) ap by (simp add: comp_def)
  moreover have "bytes_at (rt_mem t) (tx_buff_virt d ! ((?c + k) mod 4)) (snd ((ap # ps) ! k))"
    if k: "k < length (ap # ps)" "length (ap # ps) \<le> k + 4" for k
  proof (cases k)
    case 0
    have "bytes_at (rt_mem t) (tx_buff_virt d ! ?c) bs"
    proof (rule bytes_at_shorter[OF _ s1(5)])
      show "length bs \<le> 1792" using pk by (simp add: packet_in_def)
      fix q assume q: "q \<in> ?buf ?c"
      have "q \<notin> ?buf ((?c + Suc j) mod 4)" if j: "j < length ps" for j
      proof -
        have "Suc j < 4" using j k(2) 0 by simp
        then have "?c \<noteq> (?c + Suc j) mod 4" using c(2) by presburger
        moreover have "(?c + Suc j) mod 4 < 4" by simp
        ultimately have "?buf ?c \<inter> ?buf ((?c + Suc j) mod 4) = {}" using Cons.prems(3) c(2) unfolding can_send_def by blast
        then show ?thesis using q by blast
      qed
      then show "rt_mem t q = rt_mem s1 q" by (intro t'(3)[THEN spec, THEN mp] allI impI)
    qed
    then show ?thesis using 0 c(2) ap by simp
  next
    case (Suc j)
    then show ?thesis using t'(2) k by simp
  qed
  moreover have "rt_mem t q = rt_mem s q" if q: "\<forall>k < length (ap # ps). q \<notin> ?buf ((?c + k) mod 4)" for q
  proof -
    have "q \<notin> ?buf ((?c + 0) mod 4)" using q by blast
    then have "rt_mem s1 q = rt_mem s q" using c(2) by (intro s1(6)) simp
    moreover have "\<forall>k < length ps. q \<notin> ?buf ((?c + Suc k) mod 4)" using q by auto
    from t'(3)[THEN spec, THEN mp, OF this] have "rt_mem t q = rt_mem s1 q" .
    ultimately show ?thesis by simp
  qed
  ultimately show ?case using t(1,2) s1(1) ap by (intro exI[of _ t]) simp
qed

subsection \<open>Receiving\<close>

lemma get_bytes_mapped:
  "mapped m (span p n) \<Longrightarrow> \<exists>bs. get_bytes m p n = Some bs \<and> set_bytes m p bs = Some m"
proof (induction n arbitrary: p)
  case (Suc n)
  then obtain b where b: "m p = Some b" by (auto simp: span_Suc)
  obtain bs where bs: "get_bytes m (p + 1) n = Some bs" "set_bytes m (p + 1) bs = Some m"
    using Suc.IH[of "p + 1"] Suc.prems by (auto simp: span_Suc)
  have "m(p \<mapsto> b) = m" using b by (simp add: fun_upd_idem)
  then show ?case using b bs by (intro exI[of _ "b # bs"]) (simp add: CString.mset_def)
qed simp

lemma span_in: "i < n \<Longrightarrow> p + of_nat i \<in> span p n"
  by (auto simp: span_def)

lemma rd32_mapped:
  assumes "mapped m (span p n)" and "unat off + 4 \<le> n"
  shows "\<exists>v. rd32 m (p + off) = Some v"
proof -
  have "m (p + off + of_nat k) \<noteq> None" if "k < 4" for k
  proof -
    have "p + of_nat (unat off + k) \<in> span p n" using that assms(2) by (intro span_in) simp
    then show ?thesis using assms(1) by (simp add: mapped_def add.assoc)
  qed
  from this[of 0] this[of 1] this[of 2] this[of 3] show ?thesis by (auto simp: rd32_def)
qed

lemma reads_said:
  assumes "tty_ok s" and "quiet_event e"
  shows "said s (s\<lparr>io_log := io_log s @ [e]\<rparr>)"
  unfolding said_def
proof (intro exI conjI)
  show "tty_ok (s\<lparr>io_log := io_log s @ [e]\<rparr>)" using assms(1) by (simp add: tty_ok_def tty_shows_def)
  show "s\<lparr>io_log := io_log s @ [e]\<rparr> = s\<lparr>ps2_tty := ps2_tty s, io_log := io_log s @ [e]\<rparr>" by simp
qed (use assms(2) in simp)

lemma print_flags_said:
  fixes s :: "'a rtl_scheme"
  assumes "serial_ready dev"
  shows "list_all (\<lambda>(m, txt). fmt_args (text_fmt txt) []) fs \<Longrightarrow> tty_ok s \<Longrightarrow> \<exists>t. print_flags dev fs header s = Some t \<and> said s t"
proof (induction fs arbitrary: s)
  case Nil
  then show ?case by (simp add: said_refl)
next
  case (Cons f fs)
  obtain m tx where f: "f = (m, tx)" by (cases f)
  obtain s1 where s1: "(if header AND m \<noteq> 0 then tty_print dev (text_fmt tx) [] s else Some s) = Some s1" "said s s1"
    using says[OF assms Cons.prems(2), of "text_fmt tx" "[]"] said_refl[OF Cons.prems(2)] Cons.prems(1) f by (cases "header AND m = 0") auto
  then show ?case using Cons.IH[OF _ said_ok[OF s1(2)]] Cons.prems(1) f said_trans[OF s1(2)] by auto
qed

lemma packet_flags_texts: "list_all (\<lambda>(m, txt). fmt_args (text_fmt txt) []) packet_flags"
  by (simp add: packet_flags_def text_fmt_def)

lemma report_sent_said:
  fixes s :: "'a rtl_scheme"
  assumes "serial_ready dev"
  shows "tty_ok s \<Longrightarrow> rt_devs s (g_dev s) = Some d \<Longrightarrow> \<exists>t. report_sent dev i n s = Some t \<and> said s t"
proof (induction n arbitrary: i s)
  case 0
  then show ?case by (simp add: said_refl)
next
  case (Suc n)
  let ?e = "InL (reg_port d (RTL8139_REG_TSD + of_nat i * 4)) (dev (io_log s) (Port (reg_port d (RTL8139_REG_TSD + of_nat i * 4))))"
  let ?s1 = "s\<lparr>io_log := io_log s @ [?e]\<rparr>"
  have s1: "\<exists>v. rtl8139_get_tsd dev d (of_nat i) s = (v, ?s1)"
    by (simp add: rtl8139_get_tsd_def inportl_def io_event_def Let_def)
  then obtain v where v: "rtl8139_get_tsd dev d (of_nat i) s = (v, ?s1)" ..
  have said1: "said s ?s1" using Suc.prems(1) by (rule reads_said) simp
  have "\<exists>s2. (if v AND tsd_tok \<noteq> 0 then tty_print dev (line_fmt ''rtl8139: packet sent from descriptor %d'') [Word (of_nat i)] ?s1
      else Some ?s1) = Some s2 \<and> said ?s1 s2"
    using says[OF assms said_ok[OF said1], of "line_fmt ''rtl8139: packet sent from descriptor %d''" "[Word (of_nat i)]"]
      said_refl[OF said_ok[OF said1]] by (auto simp: line_fmt_def)
  then obtain s2 where s2: "(if v AND tsd_tok \<noteq> 0 then tty_print dev (line_fmt ''rtl8139: packet sent from descriptor %d'') [Word (of_nat i)] ?s1
      else Some ?s1) = Some s2" "said ?s1 s2" by (elim exE conjE) (rule that)
  have 02: "said s s2" using said1 s2(2) by (rule said_trans)
  have "rt_devs s2 (g_dev s2) = Some d" using said_fields(1,3)[OF 02] Suc.prems(2) by simp
  from Suc.IH[OF said_ok[OF 02] this, of "Suc i"] obtain t where t: "report_sent dev (Suc i) n s2 = Some t" "said s2 t"
    by (elim exE conjE) (rule that)
  have "report_sent dev i (Suc n) s = Some t" using Suc.prems(2) t(1) v s2(1) by (simp only: report_sent.simps bind.simps Let_def prod.case)
  then show ?case using said_trans[OF 02 t(2)] by blast
qed

text \<open>With nothing in the ring, \<open>ring_read\<close> has nothing to copy, and the buffer stays as the card filled it.\<close>
lemma receive_said:
  fixes s :: "'a rtl_scheme"
  assumes "serial_ready dev" and "tty_ok s" and "rt_devs s (g_dev s) = Some d" and "rt_ring d = Some r"
    and "read_index r = write_index r" and "mapped (rt_mem s) (span (recv_buff_virt d) 0x3000)"
    and "\<forall>header. rd32 (rt_mem s) (recv_buff_virt d) = Some header \<longrightarrow> packet_len header \<le> 0x2FFC"
  shows "\<exists>t. receive dev s = Some t \<and> said s t"
proof -
  let ?m = "rt_mem s" and ?b = "recv_buff_virt d"
  obtain s1 where s1: "tty_print dev (line_fmt ''rtl8139: rok and roll'') [] s = Some s1" "said s s1"
    using says[OF assms(1,2), of "line_fmt ''rtl8139: rok and roll''" "[]"] by (auto simp: line_fmt_def)
  have f1: "rt_devs s1 (g_dev s1) = Some d" "rt_mem s1 = ?m" using said_fields[OF s1(2)] assms(3) by simp_all
  obtain h where h: "rd32 ?m ?b = Some h" using rd32_mapped[OF assms(6), of 0] by auto
  have "unat (packet_len h) \<le> 0x2FFC" using assms(7) h by (simp add: word_le_nat_alt)
  then obtain crc where crc: "rd32 ?m (?b + packet_len h) = Some crc" using rd32_mapped[OF assms(6), of "packet_len h"] by auto
  obtain s2 where s2: "tty_print dev (line_fmt ''rtl8139: found %d bytes'') [Word (packet_len h)] s1 = Some s2" "said s1 s2"
    using says[OF assms(1) said_ok[OF s1(2)], of "line_fmt ''rtl8139: found %d bytes''" "[Word (packet_len h)]"] by (auto simp: line_fmt_def)
  obtain s3 where s3: "tty_print dev (line_fmt ''rtl8139: crc %x'') [Word crc] s2 = Some s3" "said s2 s3"
    using says[OF assms(1) said_ok[OF s2(2)], of "line_fmt ''rtl8139: crc %x''" "[Word crc]"] by (auto simp: line_fmt_def)
  obtain s4 where s4: "tty_print dev (text_fmt ''rtl8139: header flags: '') [] s3 = Some s4" "said s3 s4"
    using says[OF assms(1) said_ok[OF s3(2)], of "text_fmt ''rtl8139: header flags: ''" "[]"] by (auto simp: text_fmt_def)
  obtain s5 where s5: "print_flags dev packet_flags h s4 = Some s5" "said s4 s5"
    using print_flags_said[OF assms(1) packet_flags_texts said_ok[OF s4(2)], of h] by (elim exE conjE) (rule that)
  obtain s6 where s6: "tty_print dev (line_fmt '''') [] s5 = Some s6" "said s5 s6"
    using says[OF assms(1) said_ok[OF s5(2)], of "line_fmt ''''" "[]"] by (auto simp: line_fmt_def)
  have 06: "said s s6" using s1(2) s2(2) s3(2) s4(2) s5(2) s6(2) said_trans by metis
  have f6: "rt_devs s6 (g_dev s6) = Some d" "rt_mem s6 = ?m" using said_fields[OF 06] assms(3) by simp_all
  have "span (?b + 4) 0x2FFC \<subseteq> span ?b 0x3000"
  proof
    fix q assume "q \<in> span (?b + 4) 0x2FFC"
    then obtain i where "i < 0x2FFC" "q = ?b + of_nat (4 + i)" by (auto simp: span_def add.assoc)
    then show "q \<in> span ?b 0x3000" by (simp only: span_in)
  qed
  then have "mapped ?m (span (?b + 4) 0x2FFC)" using assms(6) by (auto simp: mapped_def)
  from get_bytes_mapped[OF this] obtain bs where bs: "get_bytes ?m (?b + 4) 0x2FFC = Some bs" "set_bytes ?m (?b + 4) bs = Some ?m"
    by (elim exE conjE) (rule that)
  have n: "unat (RTL8139_BUFF_SIZE - 4) = 0x2FFC" by (simp add: RTL8139_BUFF_SIZE_def)
  have rr: "ring_read r bs (packet_len h - 4) = Some (0, bs, r)" using assms(5) by (simp add: ring_read_def ring_next_size_def)
  have "d\<lparr>rt_ring := Some r\<rparr> = d" using assms(4) by (cases d) simp
  then have up: "dev_upd (g_dev s6) (\<lambda>d. d\<lparr>rt_ring := Some r\<rparr>) (s6\<lparr>rt_mem := ?m\<rparr>) = Some s6"
    using f6 by (cases s6) (simp add: dev_upd_def fun_upd_idem)
  have "receive dev s = Some s6"
    by (simp only: receive_def s1(1) f1 h crc s2(1) s3(1) s4(1) s5(1) s6(1) assms(4) f6 n bs rr up bind.simps Let_def prod.case)
  then show ?thesis using 06 by blast
qed

text \<open>C34: A received packet never reaches the ring. The interrupt handler acknowledges the interrupt and prints, but it
  reads from the ring where it should write to it: with an empty ring, as \<open>ring_init\<close> makes it, device record and
  memory are afterwards what they were, whatever the card put into the receive buffer, and no register tells the card
  that the packet was taken.\<close>
theorem rtl8139_interrupt_drops:
  fixes s :: "'a rtl_scheme"
  assumes "serial_ready dev" and "tty_ok s" and "rt_devs s (g_dev s) = Some d" and "rt_ring d = Some r"
    and "read_index r = write_index r" and "mapped (rt_mem s) (span (recv_buff_virt d) 0x3000)"
    and "\<forall>header. rd32 (rt_mem s) (recv_buff_virt d) = Some header \<longrightarrow> packet_len header \<le> 0x2FFC"
  shows "\<exists>t isr. rtl8139_interrupt dev s = Some t \<and> rt_devs t = rt_devs s \<and> rt_mem t = rt_mem s \<and> tty_ok t
    \<and> reg_writes (io_log t) = reg_writes (io_log s) @ [(reg_port d RTL8139_REG_ISR, ucast (isr :: u16))]"
proof -
  let ?p = "reg_port d RTL8139_REG_ISR"
  let ?i = "ucast (dev (io_log s) (Port ?p)) :: u16"
  let ?s1 = "s\<lparr>io_log := io_log s @ [InW ?p ?i, OutW ?p ?i]\<rparr>"
  have i: "rtl8139_get_isr dev d True s = (?i, ?s1)"
    by (simp add: rtl8139_get_isr_def inportw_def outportw_def io_event_def Let_def)
  have ok1: "tty_ok ?s1" using assms(2) by (simp add: tty_ok_def tty_shows_def)
  obtain s2 where s2: "tty_print dev (line_fmt ''rtl8139: isr=%x'') [Word (ucast ?i)] ?s1 = Some s2" "said ?s1 s2"
    using says[OF assms(1) ok1, of "line_fmt ''rtl8139: isr=%x''" "[Word (ucast ?i)]"] by (auto simp: line_fmt_def)
  have f2: "rt_devs s2 (g_dev s2) = Some d" "rt_mem s2 = rt_mem s" using said_fields[OF s2(2)] assms(3) by simp_all
  have "\<exists>s3. (if ?i AND int_rok \<noteq> 0 then receive dev s2 else Some s2) = Some s3 \<and> said s2 s3"
    using receive_said[OF assms(1) said_ok[OF s2(2)] f2(1) assms(4,5)] said_refl[OF said_ok[OF s2(2)]] assms(6,7) f2(2) by simp
  then obtain s3 where s3: "(if ?i AND int_rok \<noteq> 0 then receive dev s2 else Some s2) = Some s3" "said s2 s3"
    by (elim exE conjE) (rule that)
  have f3: "rt_devs s3 (g_dev s3) = Some d" using said_fields[OF s3(2)] f2 by simp
  have "\<exists>t. (if ?i AND int_tok \<noteq> 0 then report_sent dev 0 4 s3 else Some s3) = Some t \<and> said s3 t"
    using report_sent_said[OF assms(1) said_ok[OF s3(2)] f3, of 0 4] said_refl[OF said_ok[OF s3(2)]] by simp
  then obtain t where t: "(if ?i AND int_tok \<noteq> 0 then report_sent dev 0 4 s3 else Some s3) = Some t" "said s3 t"
    by (elim exE conjE) (rule that)
  have 1: "said ?s1 t" using s2(2) s3(2) t(2) said_trans by metis
  have "rtl8139_interrupt dev s = Some t"
    by (simp only: rtl8139_interrupt_def assms(3) i s2(1) s3(1) t(1) bind.simps Let_def prod.case)
  moreover have "reg_writes (io_log t) = reg_writes (io_log s) @ [(?p, ucast ?i)]"
    using said_fields(5)[OF 1] by (simp add: reg_writes_def)
  ultimately show ?thesis using said_fields(1,2)[OF 1] said_ok[OF 1] by (intro exI[of _ t] exI[of _ ?i]) simp
qed

subsection \<open>A card\<close>

text \<open>A card at 0xC000 whose status bits are set at every other poll; the serial port is ready.\<close>
definition some_card :: device where
  "some_card log place = (if even (length log) then 0x40 else 0xFFFFFFFF)"

definition some_dev :: rtl8139_dev where
  "some_dev = zero_dev\<lparr>io_addr := 0xC000, recv_buff_virt := 0x10000, tx_buff_virt := [0x1000, 0x4000, 0x7000, 0xA000],
     rt_ring := Some \<lparr>rg_base = 0x20000, rg_len = 16, read_index = 0, write_index = 0, rg_data = replicate 16 0\<rparr>\<rparr>"

text \<open>Two packets at 0x100 and 0x110; in the receive buffer, a packet of 64 bytes.\<close>
definition some_mem :: mem where
  "some_mem = (\<lambda>q. Some 0)(0x100 \<mapsto> 1, 0x101 \<mapsto> 2, 0x110 \<mapsto> 7, 0x10000 \<mapsto> 1, 0x10002 \<mapsto> 68)"

definition rtl_on :: "console \<Rightarrow> rtl" where
  "rtl_on c = \<lparr>io_log = [], gates = [], idtp_size = 0, lapic_base = 0, ioapic_base = 0, apic_msr = 0, irq_current_regs = 0,
     irq_happening = False, irq_handlers = [], ps2_tty = c\<lparr>print_lock := 0\<rparr>, ps2_first_device = True, ps2_second_device = True,
     mouse_state = [0, 0, 0], mouse_index = 0,
     rt_pci = \<lparr>io_log = [], pci_devs = Map.empty, pci_normals = Map.empty, pci_bridges = Map.empty, devlist = None\<rparr>,
     rt_acpi = \<lparr>io_log = [], gates = [], idtp_size = 0, lapic_base = 0, ioapic_base = 0, apic_msr = 0, amem = Map.empty,
       cpu_count = 1, acpi_irq_redir = replicate 16 0xFFFFFFFF\<rparr>,
     rt_mem = some_mem, rt_devs = [0x8000 \<mapsto> some_dev], g_dev = 0x8000\<rparr>"

lemma some_console: "\<exists>c. tty_ok (rtl_on c)"
proof -
  obtain c where "tty_shows [] [] (ps2_on c)" using fresh_console by blast
  then have "tty_shows [] [] (rtl_on c)" by (simp add: tty_shows_def rtl_on_def ps2_on_def)
  then show ?thesis unfolding tty_ok_def by blast
qed

lemma some_card_ready: "serial_ready some_card"
  by (simp add: serial_ready_def some_card_def)

lemma some_card_reports: "reports some_card port tsd_own" "reports some_card port tsd_tok"
proof -
  have "some_card (polled some_card port (if even (length log) then 1 else 0) log) (Port port) = 0xFFFFFFFF" for log
    by (simp add: some_card_def)
  moreover have "0xFFFFFFFF AND tsd_own \<noteq> 0" "0xFFFFFFFF AND tsd_tok \<noteq> 0" by (simp_all add: tsd_own_def tsd_tok_def)
  ultimately show "reports some_card port tsd_own" "reports some_card port tsd_tok" unfolding reports_def by metis+
qed

lemma spans_apart:
  assumes "unat p + n \<le> unat q" and "unat q + m \<le> 4294967296"
  shows "span p n \<inter> span q m = {}" and "span q m \<inter> span p n = {}"
proof -
  have a: "unat (p + of_nat i) = unat p + i" if "i < n" for i
  proof -
    have "unat (of_nat i :: u32) = i" using that assms by (intro unat_of_nat32) simp
    then show ?thesis using that assms by simp
  qed
  have b: "unat (q + of_nat j) = unat q + j" if "j < m" for j
  proof -
    have "unat (of_nat j :: u32) = j" using that assms by (intro unat_of_nat32) simp
    then show ?thesis using that assms by simp
  qed
  have "p + of_nat i \<noteq> q + of_nat j" if "i < n" "j < m" for i j
  proof -
    have "unat p + i \<noteq> unat q + j" using that(1) assms(1) by linarith
    then show ?thesis using a[OF that(1)] b[OF that(2)] by metis
  qed
  then show apart: "span p n \<inter> span q m = {}" by (auto simp: span_def)
  then show "span q m \<inter> span p n = {}" by (simp only: Int_commute)
qed

lemma below_four: "(\<forall>i < 4. P i) \<longleftrightarrow> P 0 \<and> P 1 \<and> P 2 \<and> P (3 :: nat)"
  by (simp add: numeral_eq_Suc All_less_Suc) blast

lemma some_dev_sends: "can_send some_card some_dev some_mem" "packet_in some_mem some_dev (0x100, [1, 2])"
  "packet_in some_mem some_dev (0x110, [7])"
  by (simp_all add: can_send_def packet_in_def below_four some_dev_def zero_dev_def some_mem_def some_card_reports mapped_def
      spans_apart)

theorem rtl8139_sends_in_turn_witness:
  "\<exists>c t. send_all some_card 0x8000 [(0x100, [1, 2]), (0x110, [7])] (rtl_on c) = Some t
    \<and> reg_writes (io_log t) = [(0xC010, 2), (0xC014, 1)] \<and> bytes_at (rt_mem t) 0x1000 [1, 2] \<and> bytes_at (rt_mem t) 0x4000 [7]"
proof -
  obtain c where c: "tty_ok (rtl_on c)" using some_console ..
  have s: "rt_devs (rtl_on c) 0x8000 = Some some_dev" "rt_mem (rtl_on c) = some_mem" "io_log (rtl_on c) = []"
    by (simp_all add: rtl_on_def)
  let ?ps = "[(0x100, [1, 2]), (0x110, [7])] :: (u32 \<times> u8 list) list"
  have "can_send some_card some_dev (rt_mem (rtl_on c))" "\<forall>ap\<in>set ?ps. packet_in (rt_mem (rtl_on c)) some_dev ap"
    using some_dev_sends by (simp_all add: s(2))
  from rtl8139_sends_in_turn[OF some_card_ready c s(1) this] obtain t where t: "send_all some_card 0x8000 ?ps (rtl_on c) = Some t"
      "reg_writes (io_log t) = reg_writes (io_log (rtl_on c)) @ map (\<lambda>k. (tsd_reg some_dev ((unat (curr_buff some_dev) + k) mod 4),
         of_nat (length (snd (?ps ! k))))) [0..<length ?ps]"
      "\<forall>k < length ?ps. length ?ps \<le> k + 4 \<longrightarrow> bytes_at (rt_mem t) (tx_buff_virt some_dev ! ((unat (curr_buff some_dev) + k) mod 4)) (snd (?ps ! k))"
    by (elim exE conjE) (rule that)
  have "[0..<length ?ps] = [0, 1]" by (simp add: upt_conv_Cons)
  then have "reg_writes (io_log t) = [(0xC010, 2), (0xC014, 1)]"
    unfolding t(2) s(3) by (simp add: reg_writes_def tsd_reg_def reg_port_def RTL8139_REG_TSD_def some_dev_def zero_dev_def)
  moreover have "bytes_at (rt_mem t) 0x1000 [1, 2]" "bytes_at (rt_mem t) 0x4000 [7]"
    using t(3)[THEN spec, of 0] t(3)[THEN spec, of 1] by (simp_all add: some_dev_def zero_dev_def)
  ultimately show ?thesis using t(1) by blast
qed

theorem rtl8139_interrupt_drops_witness:
  "\<exists>c t. rd32 (rt_mem (rtl_on c)) 0x10000 = Some (push_bit 16 68 OR 1) \<and> rtl8139_interrupt (\<lambda>log place. 0xFFFFFFFF) (rtl_on c) = Some t
    \<and> rt_devs t = rt_devs (rtl_on c) \<and> rt_mem t = rt_mem (rtl_on c)"
proof -
  obtain c where c: "tty_ok (rtl_on c)" using some_console ..
  have h: "rd32 (rt_mem (rtl_on c)) 0x10000 = Some (push_bit 16 68 OR 1)"
    by (simp add: rtl_on_def rd32_def some_mem_def)
  have ready: "serial_ready (\<lambda>log place. 0xFFFFFFFF)" by (simp add: serial_ready_def)
  let ?r = "\<lparr>rg_base = 0x20000, rg_len = 16, read_index = 0, write_index = 0, rg_data = replicate 16 0\<rparr>"
  have d: "rt_devs (rtl_on c) (g_dev (rtl_on c)) = Some some_dev" "rt_ring some_dev = Some ?r" "read_index ?r = write_index ?r"
    by (simp_all add: rtl_on_def some_dev_def)
  have m: "mapped (rt_mem (rtl_on c)) (span (recv_buff_virt some_dev) 0x3000)"
    by (simp add: rtl_on_def some_mem_def mapped_def)
  have b: "recv_buff_virt some_dev = 0x10000" by (simp add: some_dev_def)
  have l: "\<forall>header. rd32 (rt_mem (rtl_on c)) (recv_buff_virt some_dev) = Some header \<longrightarrow> packet_len header \<le> 0x2FFC"
    unfolding b h by (simp add: packet_len_def)
  show ?thesis using rtl8139_interrupt_drops[OF ready c d m l] h by blast
qed

end
