(* ===== verification/Smp.thy ===== *)
theory Smp
  imports Ps2 Memmap
begin

text \<open>
  \<open>src/src/arch/i386/interrupts/smp.c\<close>: starting the other processors, and what \<open>src/src/arch/i386/boot/ap_boot.asm\<close>
  does to their stacks. The functions are sequential; what the other processors do while \<open>smp_init\<close> polls is its
  argument \<open>others\<close>. The start of the processors as seen by all of them is the step relation at the end, where reading
  and writing \<open>cpu_init_bitmap\<close> are two steps. There the way of a processor from the startup message to \<open>ap_main\<close>, with its stack
  below the mapping, is not modelled: which processors come through it is an argument. The state extends that of the drivers by the console's; \<open>ap_stacks\<close>
  holds the block that \<open>ap_stack_list\<close> points to.
\<close>

record smp = ps2 +
  sm_mem :: mem
  sm_cpu_count :: u32
  ap_stack_list :: u32
  ap_stacks :: "u32 list"
  trampoline_virt :: u32
  cpu_init_bitmap :: u32

text \<open>\<open>s_start\<close> and \<open>s_end\<close> are the addresses of \<open>ap_boot_init\<close> and \<open>ap_boot_end\<close>, \<open>s_junk\<close> what a fresh block contains.\<close>
record 's smp_ops =
  s_kmalloc :: "u32 \<Rightarrow> 's \<Rightarrow> (u32 \<times> 's) option"
  s_kfree :: "u32 \<Rightarrow> 's \<Rightarrow> 's option"
  s_memmap :: "u32 \<Rightarrow> u32 \<Rightarrow> u32 \<Rightarrow> 's \<Rightarrow> (u32 \<times> 's) option"
  s_memunmap :: "u32 \<Rightarrow> u32 \<Rightarrow> 's \<Rightarrow> 's option"
  s_vasa_alloc :: "u32 \<Rightarrow> u32 \<Rightarrow> 's \<Rightarrow> (u32 \<times> 's) option"
  s_vasa_dealloc :: "u32 \<Rightarrow> 's \<Rightarrow> 's option"
  s_paging_map :: "u32 \<Rightarrow> u32 \<Rightarrow> u16 \<Rightarrow> 's \<Rightarrow> (bool \<times> 's) option"
  s_paging_unmap :: "u32 \<Rightarrow> 's \<Rightarrow> 's option"
  s_start :: u32
  s_end :: u32
  s_junk :: "nat \<Rightarrow> u32"

definition ap_stack_size :: u32 where "ap_stack_size = 0x4000"

definition smp_wait :: "'s \<Rightarrow> 's" where
  "smp_wait s = s"

text \<open>The code at \<open>ap_boot_pmode_paging\<close> and the entry of \<open>ap_main\<close>: \<open>esp\<close> is the processor's entry of the list
  plus 8; the call pushes the return address and the function \<open>ebp\<close>, which then is \<open>esp\<close>.\<close>
definition ap_ebp :: "u32 \<Rightarrow> u32" where
  "ap_ebp stack = (let esp = stack + 8; esp = esp - 4; esp = esp - 4 in esp)"

text \<open>Up to one of its two endless loops: whether it is the second one. \<open>1 << id\<close> shifts by the lower five bits.\<close>
definition ap_main :: "device \<Rightarrow> u32 \<Rightarrow> 'a smp_scheme \<Rightarrow> (bool \<times> 'a smp_scheme) option" where
  "ap_main dev ebp s = do {
     let (i, s1) = lapic_get_id dev s;
     let s2 = s1\<lparr>cpu_init_bitmap := cpu_init_bitmap s1 OR push_bit (unat i mod 32) 1\<rparr>;
     let (i, s3) = lapic_get_id dev s2;
     stack \<leftarrow> aget (ap_stacks s3) (unat i);
     if ebp \<noteq> stack then do {
       s4 \<leftarrow> tty_print dev (line_fmt ''smp: failed to properly set stack'') [] s3;
       let (i, s5) = lapic_get_id dev s4;
       stack \<leftarrow> aget (ap_stacks s5) (unat i);
       s6 \<leftarrow> tty_print dev (line_fmt ''smp: expected %p got %p'') [Word stack, Word ebp] s5;
       Some (False, s6) }
     else do {
       let (i, s4) = lapic_get_id dev s3;
       s5 \<leftarrow> tty_print dev (line_fmt ''smp: hello from cpu %d'') [Word i] s4;
       Some (True, s5) } }"

text \<open>The cleanup: \<open>ap_stack_list[i]\<close>, not \<open>[j]\<close>, is unmapped.\<close>
fun unmap_stacks :: "'a smp_scheme smp_ops \<Rightarrow> nat \<Rightarrow> nat \<Rightarrow> nat \<Rightarrow> 'a smp_scheme \<Rightarrow> 'a smp_scheme option" where
  "unmap_stacks ops i j 0 s = Some s"
| "unmap_stacks ops i j (Suc n) s = do {
     sj \<leftarrow> aget (ap_stacks s) j;
     s1 \<leftarrow> (if sj \<noteq> 0 then do { si \<leftarrow> aget (ap_stacks s) i; s_memunmap ops si ap_stack_size s } else Some s);
     unmap_stacks ops i (Suc j) n s1 }"

fun alloc_stacks :: "'a smp_scheme smp_ops \<Rightarrow> device \<Rightarrow> nat \<Rightarrow> nat \<Rightarrow> 'a smp_scheme \<Rightarrow> (bool \<times> 'a smp_scheme) option" where
  "alloc_stacks ops dev i 0 s = Some (True, s)"
| "alloc_stacks ops dev i (Suc n) s = do {
     let (me, s1) = lapic_get_id dev s;
     if of_nat i = me then do {
       l \<leftarrow> aset (ap_stacks s1) i 0;
       alloc_stacks ops dev (Suc i) n (s1\<lparr>ap_stacks := l\<rparr>) }
     else do {
       (stack, s2) \<leftarrow> s_memmap ops NULL ap_stack_size MMAP_URGENT s1;
       l \<leftarrow> aset (ap_stacks s2) i stack;
       let s3 = s2\<lparr>ap_stacks := l\<rparr>;
       if stack = 0 then do {
         s4 \<leftarrow> tty_print dev (line_fmt ''smp: failed to alloc stack for cpu #%d'') [Word (of_nat i)] s3;
         s5 \<leftarrow> unmap_stacks ops i 0 i s4;
         s6 \<leftarrow> s_kfree ops (ap_stack_list s5) s5;
         Some (False, s6) }
       else do {
         s4 \<leftarrow> tty_print dev (line_fmt ''smp: cpu #%d stack at %p'') [Word (of_nat i), Word stack] s3;
         alloc_stacks ops dev (Suc i) n s4 } } }"

definition smp_alloc_stack :: "'a smp_scheme smp_ops \<Rightarrow> device \<Rightarrow> 'a smp_scheme \<Rightarrow> (bool \<times> 'a smp_scheme) option" where
  "smp_alloc_stack ops dev s = do {
     s1 \<leftarrow> tty_print dev (line_fmt ''smp: allocating stacks of size %d...'') [Word ap_stack_size] s;
     (p, s2) \<leftarrow> s_kmalloc ops (4 * sm_cpu_count s1) s1;
     if p = NULL then do {
       s3 \<leftarrow> tty_print dev (line_fmt ''smp: failed to allocate smp stack list'') [] (s2\<lparr>ap_stack_list := p\<rparr>);
       Some (False, s3) }
     else alloc_stacks ops dev 0 (unat (sm_cpu_count s2))
       (s2\<lparr>ap_stack_list := p, ap_stacks := map (s_junk ops) [0..<unat (sm_cpu_count s2)]\<rparr>) }"

definition smp_setup_trampoline :: "'a smp_scheme smp_ops \<Rightarrow> device \<Rightarrow> 'a smp_scheme \<Rightarrow> (bool \<times> 'a smp_scheme) option" where
  "smp_setup_trampoline ops dev s = do {
     let size = s_end ops - s_start ops;
     if size > 0x1000 then do {
       s1 \<leftarrow> tty_print dev (line_fmt ''smp: ap trampoline over a page (%x). skipping.'') [Word size] s;
       Some (False, s1) }
     else do {
       (virt, s1) \<leftarrow> s_vasa_alloc ops 4096 0 s;
       let s2 = s1\<lparr>trampoline_virt := virt\<rparr>;
       if virt = NULL then do {
         s3 \<leftarrow> tty_print dev (line_fmt ''smp: failed to allocate virtual address for trampoline.'') [] s2;
         Some (False, s3) }
       else do {
         (ok, s3) \<leftarrow> s_paging_map ops 0x7000 virt 3 s2;
         if \<not> ok then Some (False, s3)
         else do {
           (m, _) \<leftarrow> memcpy (sm_mem s3) virt (s_start ops) size;
           Some (True, s3\<lparr>sm_mem := m\<rparr>) } } } }"

definition smp_destroy_trampoline :: "'a smp_scheme smp_ops \<Rightarrow> device \<Rightarrow> 'a smp_scheme \<Rightarrow> 'a smp_scheme option" where
  "smp_destroy_trampoline ops dev s =
     (if trampoline_virt s \<noteq> NULL then do {
        s1 \<leftarrow> s_paging_unmap ops (trampoline_virt s) s;
        s2 \<leftarrow> s_vasa_dealloc ops (trampoline_virt s1) s1;
        tty_print dev (line_fmt ''smp: trampoline removed.'') [] (s2\<lparr>trampoline_virt := NULL\<rparr>) }
      else Some s)"

text \<open>Polling the bit of processor \<open>i\<close>.\<close>
partial_function (option) bit_wait :: "('a smp_scheme \<Rightarrow> 'a smp_scheme) \<Rightarrow> nat \<Rightarrow> 'a smp_scheme \<Rightarrow> 'a smp_scheme option" where
  "bit_wait others i s =
     (let s1 = others s in
      if cpu_init_bitmap s1 AND push_bit (i mod 32) 1 = 0 then bit_wait others i s1 else Some s1)"

fun start_cpus :: "('a smp_scheme \<Rightarrow> 'a smp_scheme) \<Rightarrow> device \<Rightarrow> nat \<Rightarrow> nat \<Rightarrow> 'a smp_scheme \<Rightarrow> 'a smp_scheme option" where
  "start_cpus others dev i 0 s = Some s"
| "start_cpus others dev i (Suc n) s = do {
     let (me, s1) = lapic_get_id dev s;
     s2 \<leftarrow> (if of_nat i = me then Some s1
       else do {
         t1 \<leftarrow> tty_print dev (line_fmt ''smp: sending init to cpu %d'') [Word (of_nat i)] s1;
         t2 \<leftarrow> lapic_send_init dev (of_nat i) t1;
         t3 \<leftarrow> tty_print dev (line_fmt ''smp: sending startup to cpu %d'') [Word (of_nat i)] (smp_wait t2);
         t4 \<leftarrow> lapic_send_startup dev (of_nat i) 7 t3;
         t5 \<leftarrow> tty_print dev (line_fmt ''smp: waiting on cpu %d'') [Word (of_nat i)] t4;
         bit_wait others i t5 });
     start_cpus others dev (Suc i) n s2 }"

definition smp_init :: "'a smp_scheme smp_ops \<Rightarrow> ('a smp_scheme \<Rightarrow> 'a smp_scheme) \<Rightarrow> device \<Rightarrow> 'a smp_scheme \<Rightarrow> 'a smp_scheme option" where
  "smp_init ops others dev s =
     (if sm_cpu_count s = 1 then tty_print dev (line_fmt ''smp: only 1 cpu found'') [] s
      else do {
        s1 \<leftarrow> tty_print dev (line_fmt ''smp: enabling...'') [] s;
        (ok, s2) \<leftarrow> smp_setup_trampoline ops dev s1;
        if \<not> ok then Some s2
        else do {
          (ok, s3) \<leftarrow> smp_alloc_stack ops dev s2;
          if \<not> ok then Some s3
          else do {
            s4 \<leftarrow> tty_print dev (line_fmt ''smp: trampoline setup...'') [] s3;
            let (me, s5) = lapic_get_id dev s4;
            let s6 = s5\<lparr>cpu_init_bitmap := cpu_init_bitmap s5 OR push_bit (unat me mod 32) 1\<rparr>;
            s7 \<leftarrow> start_cpus others dev 0 (unat (sm_cpu_count s6)) s6;
            tty_print dev (line_fmt ''smp: all cpus are awake'') [] s7 } } })"

subsection \<open>All processors\<close>

text \<open>The boot processor's loop over the others and their updates of \<open>cpu_init_bitmap\<close>, each a load and a store. \<open>ApBoot\<close> is
  a processor that was sent the startup message and is on its way through \<open>ap_boot.asm\<close>.\<close>
datatype bsp_pc = BspNext nat | BspWait nat | BspDone
datatype ap_pc = ApOff | ApBoot | ApLoad | ApStore u32 | ApUp

record smp_run =
  run_bits :: u32
  run_bsp :: bsp_pc
  run_ap :: "nat \<Rightarrow> ap_pc"

definition bsp_exec :: "nat \<Rightarrow> nat \<Rightarrow> smp_run \<Rightarrow> smp_run" where
  "bsp_exec n me s = (case run_bsp s of
     BspNext i \<Rightarrow> if n \<le> i then s\<lparr>run_bsp := BspDone\<rparr>
       else if i = me then s\<lparr>run_bsp := BspNext (Suc i)\<rparr>
       else s\<lparr>run_bsp := BspWait i, run_ap := (run_ap s)(i := ApBoot)\<rparr>
   | BspWait i \<Rightarrow> if bit (run_bits s) i then s\<lparr>run_bsp := BspNext (Suc i)\<rparr> else s
   | BspDone \<Rightarrow> s)"

text \<open>\<open>live i\<close>: processor \<open>i\<close> is there and comes as far as the update in \<open>ap_main\<close>.\<close>
definition ap_exec :: "(nat \<Rightarrow> bool) \<Rightarrow> nat \<Rightarrow> smp_run \<Rightarrow> smp_run" where
  "ap_exec live i s = (case run_ap s i of
     ApBoot \<Rightarrow> if live i then s\<lparr>run_ap := (run_ap s)(i := ApLoad)\<rparr> else s
   | ApLoad \<Rightarrow> s\<lparr>run_ap := (run_ap s)(i := ApStore (run_bits s))\<rparr>
   | ApStore v \<Rightarrow> s\<lparr>run_bits := v OR push_bit i 1, run_ap := (run_ap s)(i := ApUp)\<rparr>
   | _ \<Rightarrow> s)"

inductive smp_step :: "(nat \<Rightarrow> bool) \<Rightarrow> nat \<Rightarrow> nat \<Rightarrow> smp_run \<Rightarrow> smp_run \<Rightarrow> bool" for live n me where
  bsp: "smp_step live n me s (bsp_exec n me s)"
| ap: "smp_step live n me s (ap_exec live i s)"

definition smp_start :: "nat \<Rightarrow> smp_run" where
  "smp_start me = \<lparr>run_bits = push_bit me 1, run_bsp = BspNext 0, run_ap = \<lambda>i. ApOff\<rparr>"

text \<open>The processors below \<open>k\<close> are up and those above are off.\<close>
definition started :: "nat \<Rightarrow> nat \<Rightarrow> (nat \<Rightarrow> ap_pc) \<Rightarrow> bool" where
  "started me k f \<longleftrightarrow> (\<forall>i < k. i \<noteq> me \<longrightarrow> f i = ApUp) \<and> (\<forall>i > k. f i = ApOff) \<and> f me = ApOff"

definition smp_inv :: "(nat \<Rightarrow> bool) \<Rightarrow> nat \<Rightarrow> nat \<Rightarrow> smp_run \<Rightarrow> bool" where
  "smp_inv live n me s \<longleftrightarrow> (\<forall>i < 32. bit (run_bits s) i \<longleftrightarrow> i = me \<or> run_ap s i = ApUp)
     \<and> (\<forall>i. \<not> live i \<longrightarrow> run_ap s i \<in> {ApOff, ApBoot})
     \<and> (case run_bsp s of
          BspNext k \<Rightarrow> k \<le> n \<and> started me k (run_ap s) \<and> run_ap s k = ApOff
        | BspWait k \<Rightarrow> k < n \<and> k \<noteq> me \<and> started me k (run_ap s) \<and> run_ap s k \<in> {ApBoot, ApLoad, ApStore (run_bits s), ApUp}
        | BspDone \<Rightarrow> started me n (run_ap s) \<and> run_ap s n = ApOff)"

lemma smp_steps:
  "(smp_step live n me)\<^sup>*\<^sup>* s t \<Longrightarrow> (smp_step live n me)\<^sup>*\<^sup>* s (bsp_exec n me t)"
  "(smp_step live n me)\<^sup>*\<^sup>* s t \<Longrightarrow> (smp_step live n me)\<^sup>*\<^sup>* s (ap_exec live i t)"
  by (erule rtranclp.rtrancl_into_rtrancl, rule smp_step.intros)+

lemma started_Suc: "started me k f \<Longrightarrow> f k = ApUp \<or> k = me \<Longrightarrow> started me (Suc k) f \<and> f (Suc k) = ApOff"
  by (auto simp: started_def less_Suc_eq)

lemma started_other:
  assumes "started me k f"
  shows "i \<noteq> k \<Longrightarrow> f i = ApOff \<or> f i = ApUp"
proof -
  assume "i \<noteq> k"
  then consider "i < k" | "i > k" by linarith
  then show ?thesis using assms by cases (cases "i = me"; simp add: started_def)+
qed

lemma smp_inv_bsp:
  assumes "smp_inv live n me s" and "n \<le> 32"
  shows "smp_inv live n me (bsp_exec n me s)"
proof (cases "run_bsp s")
  case (BspNext k)
  have k: "k \<le> n" "started me k (run_ap s)" "run_ap s k = ApOff" using assms(1) BspNext by (simp_all add: smp_inv_def)
  consider "n \<le> k" | "k < n" "k = me" | "k < n" "k \<noteq> me" by linarith
  then show ?thesis
  proof cases
    case 1
    then show ?thesis using assms BspNext k by (simp add: bsp_exec_def smp_inv_def)
  next
    case 2
    then show ?thesis using assms BspNext started_Suc[OF k(2)] by (simp add: bsp_exec_def smp_inv_def)
  next
    case 3
    have "started me k ((run_ap s)(k := ApBoot))" using k(2) 3 by (simp add: started_def)
    then show ?thesis using assms(1) BspNext k 3 by (auto simp: bsp_exec_def smp_inv_def)
  qed
next
  case (BspWait k)
  then show ?thesis using assms started_Suc[of me k "run_ap s"] by (auto simp: bsp_exec_def smp_inv_def)
next
  case BspDone
  then show ?thesis using assms by (simp add: bsp_exec_def)
qed

lemma smp_inv_ap:
  assumes "smp_inv live n me s" and "n \<le> 32"
  shows "smp_inv live n me (ap_exec live i s)"
proof (cases "run_ap s i = ApBoot \<or> run_ap s i = ApLoad \<or> (\<exists>v. run_ap s i = ApStore v)")
  case True
  then have busy: "run_ap s i \<noteq> ApOff" "run_ap s i \<noteq> ApUp" by auto
  have "run_bsp s = BspWait i \<and> i < n \<and> i \<noteq> me \<and> started me i (run_ap s) \<and> run_ap s i \<in> {ApBoot, ApLoad, ApStore (run_bits s)}"
  proof (cases "run_bsp s")
    case (BspNext k)
    then show ?thesis using assms(1) busy started_other[of me k "run_ap s" i] by (cases "i = k") (simp_all add: smp_inv_def)
  next
    case (BspWait k)
    then show ?thesis using assms(1) busy started_other[of me k "run_ap s" i] by (cases "i = k") (simp_all add: smp_inv_def)
  next
    case BspDone
    then show ?thesis using assms(1) busy started_other[of me n "run_ap s" i] by (cases "i = n") (simp_all add: smp_inv_def)
  qed
  then have w: "run_bsp s = BspWait i" "i < n" "i \<noteq> me" "started me i (run_ap s)" "run_ap s i \<in> {ApBoot, ApLoad, ApStore (run_bits s)}"
    by simp_all
  have st: "started me i ((run_ap s)(i := x))" for x using w(3,4) by (simp add: started_def)
  consider "run_ap s i = ApBoot" "\<not> live i" | "run_ap s i = ApBoot" "live i" | "run_ap s i = ApLoad" | "run_ap s i = ApStore (run_bits s)"
    using w(5) by blast
  then show ?thesis
  proof cases
    case 1
    then show ?thesis using assms(1) by (simp add: ap_exec_def)
  next
    case 2
    then show ?thesis using assms(1) w(1-3) st by (auto simp: ap_exec_def smp_inv_def)
  next
    case 3
    then show ?thesis using assms(1) w(1-3) st by (auto simp: ap_exec_def smp_inv_def)
  next
    case 4
    then show ?thesis using assms(1) w(1-3) st by (auto simp: ap_exec_def smp_inv_def bit_simps)
  qed
next
  case False
  then have "ap_exec live i s = s" by (cases "run_ap s i") (simp_all add: ap_exec_def)
  then show ?thesis using assms(1) by simp
qed

lemma smp_inv_start: "smp_inv live n me (smp_start me)"
  by (simp add: smp_inv_def smp_start_def started_def bit_simps)

lemma smp_inv_reachable:
  assumes "(smp_step live n me)\<^sup>*\<^sup>* (smp_start me) s" and "n \<le> 32"
  shows "smp_inv live n me s"
  using assms(1)
proof induction
  case base
  then show ?case by (rule smp_inv_start)
next
  case (step s t)
  then show ?case using smp_inv_bsp smp_inv_ap assms(2) by (auto elim!: smp_step.cases)
qed

text \<open>If every processor is alive the boot processor can get to the end: how many of its steps are left.\<close>
lemma smp_can_finish:
  assumes "n \<le> 32" and "\<forall>i < n. i \<noteq> me \<longrightarrow> live i"
  shows "smp_inv live n me s \<Longrightarrow> run_bsp s = BspNext k \<Longrightarrow> \<exists>t. (smp_step live n me)\<^sup>*\<^sup>* s t \<and> run_bsp t = BspDone"
proof (induction "n - k" arbitrary: s k rule: less_induct)
  case less
  let ?s1 = "bsp_exec n me s"
  have s1: "smp_step live n me s ?s1" by (rule smp_step.bsp)
  have k: "k \<le> n" "run_ap s k = ApOff" using less.prems by (simp_all add: smp_inv_def)
  consider "n \<le> k" | "k < n" "k = me" | "k < n" "k \<noteq> me" by linarith
  then show ?case
  proof cases
    case 1
    then have "run_bsp ?s1 = BspDone" using less.prems(2) by (simp add: bsp_exec_def)
    then show ?thesis using s1 by blast
  next
    case 2
    then have "run_bsp ?s1 = BspNext (Suc k)" using less.prems(2) by (simp add: bsp_exec_def)
    moreover have "n - Suc k < n - k" using 2 by linarith
    ultimately show ?thesis
      using less.hyps smp_inv_bsp[OF less.prems(1) assms(1)] s1 by (meson converse_rtranclp_into_rtranclp)
  next
    case 3
    let ?s3 = "ap_exec live k (ap_exec live k (ap_exec live k ?s1))"
    let ?s4 = "bsp_exec n me ?s3"
    have "live k" using 3 assms(2) by blast
    have e1: "?s1 = s\<lparr>run_bsp := BspWait k, run_ap := (run_ap s)(k := ApBoot)\<rparr>" using less.prems(2) 3 by (simp add: bsp_exec_def)
    have e3: "run_bsp ?s3 = BspWait k" "bit (run_bits ?s3) k" using e1 3 \<open>live k\<close> assms(1) by (simp_all add: ap_exec_def bit_simps)
    then have "run_bsp ?s4 = BspNext (Suc k)" by (simp add: bsp_exec_def)
    moreover have "smp_inv live n me ?s4"
      by (intro smp_inv_bsp smp_inv_ap less.prems(1) assms(1))
    moreover have "n - Suc k < n - k" using 3 by linarith
    ultimately obtain t where t: "(smp_step live n me)\<^sup>*\<^sup>* ?s4 t" "run_bsp t = BspDone" using less.hyps by blast
    have "(smp_step live n me)\<^sup>*\<^sup>* s ?s4"
      by (intro smp_steps rtranclp.rtrancl_refl)
    then show ?thesis using t by (meson rtranclp_trans)
  qed
qed

lemma smp_wait_ends:
  assumes "n \<le> 32" and "smp_inv live n me s" and "run_bsp s = BspWait k" and "live k"
  shows "\<exists>t. (smp_step live n me)\<^sup>*\<^sup>* s t \<and> smp_inv live n me t \<and> run_bsp t = BspNext (Suc k)"
proof -
  have k: "k < n" "run_ap s k \<in> {ApBoot, ApLoad, ApStore (run_bits s), ApUp}" using assms(2,3) by (simp_all add: smp_inv_def)
  let ?u = "ap_exec live k (ap_exec live k (ap_exec live k s))"
  have steps: "(smp_step live n me)\<^sup>*\<^sup>* s ?u" by (intro smp_steps rtranclp.rtrancl_refl)
  have inv: "smp_inv live n me ?u" by (intro smp_inv_ap assms(1,2))
  have "run_bsp ?u = BspWait k \<and> run_ap ?u k = ApUp" using k(2) assms(3,4) by (auto simp: ap_exec_def)
  moreover from this have "bit (run_bits ?u) k" using inv k(1) assms(1) by (auto simp: smp_inv_def)
  ultimately have "run_bsp (bsp_exec n me ?u) = BspNext (Suc k)" by (simp add: bsp_exec_def)
  then show ?thesis
    using smp_steps(1)[OF steps] smp_inv_bsp[OF inv assms(1)] by blast
qed

lemma smp_ends_if:
  assumes "n \<le> 32" and "smp_inv live n me s" and "\<forall>i < n. i \<noteq> me \<longrightarrow> live i"
  shows "\<exists>t. (smp_step live n me)\<^sup>*\<^sup>* s t \<and> run_bsp t = BspDone"
proof (cases "run_bsp s")
  case (BspNext k)
  then show ?thesis using smp_can_finish[OF assms(1,3,2)] by blast
next
  case (BspWait k)
  then have "live k" using assms(2,3) by (simp add: smp_inv_def)
  then show ?thesis using smp_wait_ends[OF assms(1,2) BspWait] smp_can_finish[OF assms(1,3)] by (meson rtranclp_trans)
qed blast

lemma smp_done_all:
  assumes "smp_inv live n me s" and "run_bsp s = BspDone" and "i < n" and "i \<noteq> me"
  shows "run_ap s i = ApUp \<and> live i"
proof -
  have "run_ap s i = ApUp" using assms by (simp add: smp_inv_def started_def)
  then show ?thesis using assms(1) by (auto simp: smp_inv_def)
qed

text \<open>C35: However the processors interleave, with loads and stores of \<open>cpu_init_bitmap\<close> as separate steps, no update of
  it is lost: its bits are those of the boot processor and of the processors that have stored theirs, all of them when the boot
  processor has finished its loop. From every state on the way the loop can still finish just if every processor counted (at most 32,
  with their APIC identifiers from 0 on) is alive, that is, gets through \<open>ap_boot.asm\<close> to the update in \<open>ap_main\<close>, which is an
  argument here: the boot path and its stack are not modelled, and there is no timeout for a processor that fails on it.\<close>
theorem smp_no_update_lost:
  assumes "(smp_step live n me)\<^sup>*\<^sup>* (smp_start me) s" and "me < n" and "n \<le> 32"
  shows "(\<forall>i < n. bit (run_bits s) i \<longleftrightarrow> i = me \<or> run_ap s i = ApUp)
    \<and> (run_bsp s = BspDone \<longrightarrow> (\<forall>i < n. bit (run_bits s) i))
    \<and> ((\<exists>t. (smp_step live n me)\<^sup>*\<^sup>* s t \<and> run_bsp t = BspDone) \<longleftrightarrow> (\<forall>i < n. i \<noteq> me \<longrightarrow> live i))"
proof -
  have inv: "smp_inv live n me s" using assms(1,3) by (rule smp_inv_reachable)
  then have bits: "\<forall>i < n. bit (run_bits s) i \<longleftrightarrow> i = me \<or> run_ap s i = ApUp" using assms(3) by (simp add: smp_inv_def)
  moreover have "\<forall>i < n. bit (run_bits s) i" if "run_bsp s = BspDone"
    using smp_done_all[OF inv that] bits by blast
  moreover have "live i" if "(smp_step live n me)\<^sup>*\<^sup>* s t" "run_bsp t = BspDone" "i < n" "i \<noteq> me" for t i
  proof -
    have "(smp_step live n me)\<^sup>*\<^sup>* (smp_start me) t" using assms(1) that(1) by (rule rtranclp_trans)
    from smp_inv_reachable[OF this assms(3)] show ?thesis using smp_done_all that(2-4) by blast
  qed
  ultimately show ?thesis using smp_ends_if[OF assms(3) inv] by blast
qed

text \<open>Two processors besides the first: the second one has read the bits and not yet stored them, the third one never answers.\<close>
theorem smp_no_update_lost_witness:
  "let live = (\<lambda>i. i < 2); s = ap_exec live 1 (ap_exec live 1 (bsp_exec 3 0 (bsp_exec 3 0 (smp_start 0)))) in
   run_ap s 1 = ApStore 1 \<and> (\<forall>i < 3. bit (run_bits s) i \<longleftrightarrow> i = 0 \<or> run_ap s i = ApUp)
    \<and> \<not> (\<exists>t. (smp_step live 3 0)\<^sup>*\<^sup>* s t \<and> run_bsp t = BspDone)"
proof -
  let ?live = "\<lambda>i::nat. i < 2"
  let ?s = "ap_exec ?live 1 (ap_exec ?live 1 (bsp_exec 3 0 (bsp_exec 3 0 (smp_start 0))))"
  have "(smp_step ?live 3 0)\<^sup>*\<^sup>* (smp_start 0) ?s" by (intro smp_steps rtranclp.rtrancl_refl)
  from smp_no_update_lost[OF this] have p: "(\<forall>i < 3. bit (run_bits ?s) i \<longleftrightarrow> i = 0 \<or> run_ap ?s i = ApUp)
      \<and> ((\<exists>t. (smp_step ?live 3 0)\<^sup>*\<^sup>* ?s t \<and> run_bsp t = BspDone) \<longleftrightarrow> (\<forall>i < (3::nat). i \<noteq> 0 \<longrightarrow> i < 2))" by simp
  have "\<not> (\<forall>i < (3::nat). i \<noteq> 0 \<longrightarrow> i < 2)" by (auto intro: exI[of _ 2])
  moreover have "run_ap ?s 1 = ApStore 1" by (simp add: smp_start_def bsp_exec_def ap_exec_def)
  ultimately show ?thesis using p unfolding Let_def by blast
qed

subsection \<open>Stacks\<close>

text \<open>The check in \<open>ap_main\<close> compares with the lowest address of the stack: the frame of \<open>ap_main\<close> starts there, and
  all it pushes lies below the mapping.\<close>
lemma ap_ebp_bottom: "ap_ebp stack = stack"
  by (simp add: ap_ebp_def)

text \<open>After a failed allocation nothing is unmapped: \<open>memunmap\<close> is called with the NULL just stored.\<close>
lemma unmap_stacks_nothing:
  assumes "\<And>n s. s_memunmap ops NULL n s = Some s"
  shows "i < length (ap_stacks s) \<Longrightarrow> ap_stacks s ! i = 0 \<Longrightarrow> j + n \<le> i \<Longrightarrow> unmap_stacks ops i j n s = Some s"
proof (induction n arbitrary: j)
  case (Suc n)
  then have "aget (ap_stacks s) j = Some (ap_stacks s ! j)" "aget (ap_stacks s) i = Some 0" by (simp_all add: aget_def)
  then show ?case using Suc assms by simp
qed simp

end
