(* ===== verification/Elf.thy ===== *)
theory Elf
  imports Vfs Rtl8139
begin

text \<open>
  \<open>src/src/kernel/tasks/elf.c\<close>: reading the header of an executable through the file calls of \<open>Vfs\<close>. Nothing calls
  it yet. The two headers lie on the stack at the addresses \<open>hdr_at\<close> and \<open>hdr32_at\<close>; both structures are packed, so
  their fields are at the offsets below. \<open>calloc\<close>, \<open>cfree\<close> and \<open>cnew\<close> are the slab calls on \<open>elf cache\<close>.
\<close>

definition ELF_MAGIC :: u32 where "ELF_MAGIC = 0x7f454c46"
definition ELF_CLASS_32 :: u8 where "ELF_CLASS_32 = 1"
definition ELF_ENDIAN_LITTLE :: u8 where "ELF_ENDIAN_LITTLE = 1"
definition ELF_VERSION :: u32 where "ELF_VERSION = 1"
definition ELF_OSABI :: u8 where "ELF_OSABI = 0"
definition ELF_ABIVERSION :: u8 where "ELF_ABIVERSION = 0"
definition ELF_TYPE_EXEC :: u16 where "ELF_TYPE_EXEC = 2"
definition ELF_MACH_X86 :: u16 where "ELF_MACH_X86 = 3"

text \<open>\<open>target\<close> is never set; a fresh record contains \<open>elf_junk\<close>.\<close>
record elf_t =
  elf_file :: u32
  elf_target :: u32
  elf_entry :: u32

record 'h elf_sys =
  es_fs :: "'h fstate"
  es_tty :: console
  es_elfs :: "u32 \<Rightarrow> elf_t option"

text \<open>The fields of \<open>elf_header_t\<close> in its 24 bytes.\<close>
definition hdr_magic :: "u8 list \<Rightarrow> u32" where "hdr_magic h = of_le32 (take 4 h)"
definition hdr_class :: "u8 list \<Rightarrow> u8" where "hdr_class h = h ! 4"
definition hdr_endian :: "u8 list \<Rightarrow> u8" where "hdr_endian h = h ! 5"
definition hdr_hdr_version :: "u8 list \<Rightarrow> u8" where "hdr_hdr_version h = h ! 6"
definition hdr_os_abi :: "u8 list \<Rightarrow> u8" where "hdr_os_abi h = h ! 7"
definition hdr_os_abiversion :: "u8 list \<Rightarrow> u8" where "hdr_os_abiversion h = h ! 8"
definition hdr_type :: "u8 list \<Rightarrow> u16" where "hdr_type h = ucast (h ! 16) OR push_bit 8 (ucast (h ! 17))"
definition hdr_machine :: "u8 list \<Rightarrow> u16" where "hdr_machine h = ucast (h ! 18) OR push_bit 8 (ucast (h ! 19))"
definition hdr_version :: "u8 list \<Rightarrow> u32" where "hdr_version h = of_le32 (take 4 (drop 20 h))"

text \<open>The message of the first check that fails.\<close>
definition elf_check :: "u8 list \<Rightarrow> string option" where
  "elf_check h =
     (if hdr_magic h \<noteq> ELF_MAGIC then Some ''elf: magic incorrect''
      else if hdr_endian h \<noteq> ELF_ENDIAN_LITTLE then Some ''elf: must be little endian''
      else if ucast (hdr_hdr_version h) \<noteq> ELF_VERSION then Some ''elf: version wrong''
      else if hdr_os_abi h \<noteq> ELF_OSABI then Some ''elf: os_abi wrong''
      else if hdr_os_abiversion h \<noteq> ELF_ABIVERSION then Some ''elf: hdr wrong''
      else if hdr_type h \<noteq> ELF_TYPE_EXEC then Some ''elf: type wrong''
      else if hdr_machine h \<noteq> ELF_MACH_X86 then Some ''elf: machine wrong''
      else if hdr_version h \<noteq> ELF_VERSION then Some ''elf: hdr version wrong''
      else None)"

definition elf_print :: "device \<Rightarrow> string \<Rightarrow> 'h elf_sys \<Rightarrow> 'h elf_sys option" where
  "elf_print dev txt s = do { c \<leftarrow> kprintf dev (line_fmt txt) [] (es_tty s); Some (s\<lparr>es_tty := c\<rparr>) }"

text \<open>Reading into a structure of \<open>n\<close> bytes on the stack, zeroed before: the result and the bytes.\<close>
definition read_struct :: "u32 \<Rightarrow> u32 \<Rightarrow> nat \<Rightarrow> 'h fstate \<Rightarrow> (u32 \<times> u8 list \<times> 'h fstate) option" where
  "read_struct fid at n f = do {
     m \<leftarrow> set_bytes (mem f) at (replicate n 0);
     (r, f1) \<leftarrow> file_read fid at (of_nat n) (f\<lparr>mem := m\<rparr>);
     bs \<leftarrow> get_bytes (mem f1) at n;
     Some (r, bs, f1) }"

text \<open>0 is success. The entry point is the first field of \<open>elf_header32_t\<close>.\<close>
definition elf_load_32 :: "u32 \<Rightarrow> u32 \<Rightarrow> 'h elf_sys \<Rightarrow> (u32 \<times> 'h elf_sys) option" where
  "elf_load_32 hdr32_at elf s = do {
     e \<leftarrow> es_elfs s elf;
     (r, bs, f) \<leftarrow> read_struct (elf_file e) hdr32_at (size_of elf_header32_layout) (es_fs s);
     if r \<noteq> sizeof elf_header32_layout then Some (1, s\<lparr>es_fs := f\<rparr>)
     else Some (0, s\<lparr>es_fs := f, es_elfs := (es_elfs s)(elf \<mapsto> e\<lparr>elf_entry := of_le32 (take 4 bs)\<rparr>)\<rparr>) }"

definition elf_load_64 :: "u32 \<Rightarrow> 'h elf_sys \<Rightarrow> u32 \<times> 'h elf_sys" where
  "elf_load_64 elf s = (1, s)"

definition elf_fail :: "'h mem_ops \<Rightarrow> (u32 \<Rightarrow> 'h \<Rightarrow> 'h option) \<Rightarrow> u32 \<Rightarrow> 'h elf_sys \<Rightarrow> (u32 \<times> 'h elf_sys) option" where
  "elf_fail M cfree elf s = do {
     e \<leftarrow> es_elfs s elf;
     f \<leftarrow> file_close M (elf_file e) (es_fs s);
     h \<leftarrow> cfree elf (heap f);
     Some (NULL, s\<lparr>es_fs := f\<lparr>heap := h\<rparr>\<rparr>) }"

definition elf_load :: "'h mem_ops \<Rightarrow> ('h \<Rightarrow> (u32 \<times> 'h) option) \<Rightarrow> (u32 \<Rightarrow> 'h \<Rightarrow> 'h option) \<Rightarrow> device \<Rightarrow> elf_t \<Rightarrow> u32 \<Rightarrow> u32
    \<Rightarrow> u8 list \<Rightarrow> 'h elf_sys \<Rightarrow> (u32 \<times> 'h elf_sys) option" where
  "elf_load M calloc cfree dev elf_junk hdr_at hdr32_at pth s = do {
     (elf, h) \<leftarrow> calloc (heap (es_fs s));
     let f1 = (es_fs s)\<lparr>heap := h\<rparr>;
     if elf = NULL then Some (NULL, s\<lparr>es_fs := f1\<rparr>)
     else do {
       (fid, f2) \<leftarrow> file_open M pth O_RD f1;
       (r, hdr, f3) \<leftarrow> read_struct fid hdr_at (size_of elf_header_layout) f2;
       let s1 = s\<lparr>es_fs := f3, es_elfs := (es_elfs s)(elf \<mapsto> elf_junk\<lparr>elf_file := fid\<rparr>)\<rparr>;
       if r \<noteq> sizeof elf_header_layout then do { s2 \<leftarrow> elf_print dev ''elf: failed to read header'' s1; elf_fail M cfree elf s2 }
       else case elf_check hdr of
         Some txt \<Rightarrow> do { s2 \<leftarrow> elf_print dev txt s1; elf_fail M cfree elf s2 }
       | None \<Rightarrow> do {
           (res, s2) \<leftarrow> (if hdr_class hdr = ELF_CLASS_32 then elf_load_32 hdr32_at elf s1 else Some (elf_load_64 elf s1));
           if res \<noteq> 0 then elf_fail M cfree elf s2 else Some (elf, s2) } } }"

definition elf_init :: "(u32 \<Rightarrow> 'h \<Rightarrow> 'h option) \<Rightarrow> device \<Rightarrow> 'h elf_sys \<Rightarrow> 'h elf_sys option" where
  "elf_init cnew dev s = do {
     h \<leftarrow> cnew 12 (heap (es_fs s));
     elf_print dev ''elf: init done'' (s\<lparr>es_fs := (es_fs s)\<lparr>heap := h\<rparr>\<rparr>) }"

subsection \<open>Which headers are accepted\<close>

text \<open>The constant has its bytes in the wrong order for a little-endian read: a file with the ELF magic is rejected, and
  a header that is accepted has the magic reversed.\<close>
lemma elf_check_rejects_elf: "elf_check (0x7F # 0x45 # 0x4C # 0x46 # rest) = Some ''elf: magic incorrect''"
  by (simp add: elf_check_def hdr_magic_def ELF_MAGIC_def)

lemma of_le32_bytes: "le32 (of_le32 [a, b, c, d]) = [a, b, c, d]"
proof -
  have hi: "8 \<le> n \<Longrightarrow> \<not> bit (x :: u8) n" for x n using bit_imp_le_length[of x n] by auto
  have "ucast (of_le32 [a, b, c, d]) = a" "ucast (drop_bit 8 (of_le32 [a, b, c, d])) = b"
    "ucast (drop_bit 16 (of_le32 [a, b, c, d])) = c" "ucast (drop_bit 24 (of_le32 [a, b, c, d])) = d"
    by (auto intro!: bit_word_eqI simp: bit_simps hi)
  then show ?thesis by (simp only: le32_def)
qed

lemma elf_check_accepts:
  assumes "elf_check h = None" and "24 \<le> length h"
  shows "take 4 h = [0x46, 0x4C, 0x45, 0x7F]"
proof -
  obtain a b c d where h: "take 4 h = [a, b, c, d]"
    using assms(2) by (cases h rule: list.exhaust; cases "tl h"; cases "tl (tl h)"; cases "tl (tl (tl h))") auto
  have "of_le32 [a, b, c, d] = ELF_MAGIC" using assms(1) h by (simp add: elf_check_def hdr_magic_def split: if_splits)
  then have "[a, b, c, d] = le32 ELF_MAGIC" using of_le32_bytes[of a b c d] by simp
  then show ?thesis using h by (simp add: le32_def ELF_MAGIC_def)
qed

end
