(* ===== verification/Kmain.thy ===== *)
theory Kmain
  imports Memmap Elf
begin

text \<open>
  \<open>src/src/arch/i386/kmain.c\<close>: setting up memory, and the test of the file system. \<open>load_memory\<close> runs on the state \<open>mm\<close> of
  \<open>Memmap\<close>; the allocators of nodes change on the way, so it takes \<open>memmap\<close> (for the caches), the CPU number and the large
  allocator instead of an \<open>mm_env\<close>. The properties connect the boot loader's memory map with the early allocator, the frame
  allocator and the address space allocator: what is free afterwards, and how large a machine the early heap is enough for.
  The messages are left out; before \<open>vga_init\<close> they go to address 0.
\<close>

subsection \<open>load_memory\<close>

definition kernel_base :: u32 where "kernel_base = 0xC0000000"

text \<open>The allocators while \<open>cache_init\<close> is not set.\<close>
definition boot_env :: "(u32 \<Rightarrow> slub \<Rightarrow> (u32 \<times> slub) option) \<Rightarrow> nat \<Rightarrow> (u32 \<Rightarrow> kheap \<Rightarrow> (u32 \<times> kheap) option) \<Rightarrow>
    (u32 \<Rightarrow> kheap \<Rightarrow> (bool \<times> kheap) option) \<Rightarrow> mm_env" where
  "boot_env mmp cpu large lfree = \<lparr>vasa_get = vasa_node_alloc mmp cpu large, vasa_put = kfree lfree,
     fnode_get = frame_node_alloc mmp cpu large False, fnode_put = frame_node_free lfree False\<rparr>"

text \<open>The first three calls, with nodes from the early heap. \<open>page_table_base\<close> is a symbol of the linker.\<close>
definition load_memory_early :: "mm_env \<Rightarrow> (u32 \<Rightarrow> u32 option) \<Rightarrow> u32 \<Rightarrow> u32 \<Rightarrow> u32 \<Rightarrow> u32 \<Rightarrow> mm \<Rightarrow> mm option" where
  "load_memory_early E rd multiboot page_table_base kernel_heap_start kernel_heap_size s = do {
     let h = mm_heap s;
     let s1 = s\<lparr>mm_heap := h\<lparr>early := early_kmalloc_init kernel_heap_start kernel_heap_size (early h)\<rparr>\<rparr>;
     s2 \<leftarrow> memmap_to_frames E rd kernel_base multiboot s1;
     (_, s3) \<leftarrow> in_vasa (\<lambda>v. do { v' \<leftarrow> vasa_init (vasa_get E) 0xD0000000 (page_table_base - 0xD0000000) v; Some ((), v') }) s2;
     Some s3 }"

definition load_memory :: "(u32 \<Rightarrow> slub \<Rightarrow> (u32 \<times> slub) option) \<Rightarrow> nat \<Rightarrow> (u32 \<Rightarrow> kheap \<Rightarrow> (u32 \<times> kheap) option) \<Rightarrow>
    (u32 \<Rightarrow> kheap \<Rightarrow> (bool \<times> kheap) option) \<Rightarrow> (u32 \<Rightarrow> u32 option) \<Rightarrow> u32 \<Rightarrow> u32 \<Rightarrow> u32 \<Rightarrow> u32 \<Rightarrow> mm \<Rightarrow> mm option" where
  "load_memory mmp cpu large lfree rd multiboot page_table_base kernel_heap_start kernel_heap_size s = do {
     s1 \<leftarrow> load_memory_early (boot_env mmp cpu large lfree) rd multiboot page_table_base kernel_heap_start kernel_heap_size s;
     (_, s2) \<leftarrow> in_frame (\<lambda>f. do { f' \<leftarrow> frame_init mmp cpu f; Some ((), f') }) s1;
     sl \<leftarrow> kmalloc_init mmp cpu (slub (mm_heap s2));
     let s3 = s2\<lparr>mm_heap := (mm_heap s2)\<lparr>slub := sl\<rparr>\<rparr>;
     (_, s4) \<leftarrow> in_vasa (\<lambda>v. do { v' \<leftarrow> vasa_switch mmp cpu v; Some ((), v') }) s3;
     Some (s4\<lparr>mm_heap := kmem_swap (mm_heap s4)\<rparr>) }"

subsection \<open>The test of the file system\<close>

text \<open>The file system and the console that \<open>kprintf\<close> prints on.\<close>
record 'h late_sys =
  ls_fs :: "'h fstate"
  ls_tty :: console

definition late_print :: "device \<Rightarrow> string \<Rightarrow> karg list \<Rightarrow> 'h late_sys \<Rightarrow> 'h late_sys option" where
  "late_print dev txt args s = do { c \<leftarrow> kprintf dev (line_fmt txt) args (ls_tty s); Some (s\<lparr>ls_tty := c\<rparr>) }"

definition quick_create :: "'h mem_ops \<Rightarrow> device \<Rightarrow> u8 list \<Rightarrow> 'h late_sys \<Rightarrow> 'h late_sys option" where
  "quick_create M dev pth s = do {
     (fid, f1) \<leftarrow> file_open M pth O_WRT (ls_fs s);
     f2 \<leftarrow> file_close M fid f1;
     late_print dev ''created file %s'' [Str (pth @ [0])] (s\<lparr>ls_fs := f2\<rparr>) }"

text \<open>The loop over the files; \<open>name_at\<close> is the address of the array \<open>name\<close>, and the size given to \<open>file_read\<close> is the key.\<close>
fun print_names :: "device \<Rightarrow> u32 \<Rightarrow> u32 list \<Rightarrow> 'h late_sys \<Rightarrow> 'h late_sys option" where
  "print_names dev name_at [] s = Some s"
| "print_names dev name_at (fid # fids) s = do {
     (_, f1) \<leftarrow> file_read fid name_at STAT_NAME (ls_fs s);
     buf \<leftarrow> get_bytes (mem f1) name_at MAXFILEPATH;
     s1 \<leftarrow> late_print dev ''- %s'' [Str buf] (s\<lparr>ls_fs := f1\<rparr>);
     print_names dev name_at fids s1 }"

text \<open>The first call of \<open>file_list\<close> gets NULL, an array without places.\<close>
definition quick_list :: "'h mem_ops \<Rightarrow> device \<Rightarrow> u32 \<Rightarrow> u8 list \<Rightarrow> 'h late_sys \<Rightarrow> 'h late_sys option" where
  "quick_list M dev name_at pth s = do {
     s1 \<leftarrow> late_print dev ''ls: %s'' [Str (pth @ [0])] s;
     (cnt, _, f1) \<leftarrow> file_list M pth [] (ls_fs s1);
     (lst, h) \<leftarrow> o_malloc M (4 * cnt) (heap f1);
     (_, fids, f2) \<leftarrow> file_list M pth (if lst = NULL then [] else replicate (unat cnt) 0) (f1\<lparr>heap := h\<rparr>);
     m \<leftarrow> set_bytes (mem f2) name_at (replicate MAXFILEPATH 0);
     print_names dev name_at (take (unat cnt) fids) (s1\<lparr>ls_fs := f2\<lparr>mem := m\<rparr>\<rparr>) }"

definition str :: "string \<Rightarrow> u8 list" where "str txt = map of_char txt"

fun on_paths :: "(u8 list \<Rightarrow> 's \<Rightarrow> 's option) \<Rightarrow> string list \<Rightarrow> 's \<Rightarrow> 's option" where
  "on_paths f [] s = Some s"
| "on_paths f (p # ps) s = do { s1 \<leftarrow> f (str p) s; on_paths f ps s1 }"

definition file_test :: "'h mem_ops \<Rightarrow> device \<Rightarrow> u32 \<Rightarrow> 'h late_sys \<Rightarrow> 'h late_sys option" where
  "file_test M dev name_at s = do {
     s1 \<leftarrow> late_print dev ''doing file tests'' [] s;
     s2 \<leftarrow> on_paths (quick_create M dev)
       [''/test'', ''/asdf'', ''/test/test.txt'', ''/test/asdf.txt'', ''/asdf/test.txt'', ''/asdf/asdf'', ''/asdf/asdf/test.txt''] s1;
     on_paths (quick_list M dev name_at) [''/'', ''/test'', ''/asdf'', ''/asdf/asdf''] s2 }"

subsection \<open>The region that is used\<close>

text \<open>The entries from \<open>base\<close> on up to the first one that is available and does not start at 0.\<close>
inductive first_region :: "(u32 \<Rightarrow> u32 option) \<Rightarrow> u32 \<Rightarrow> u32 \<Rightarrow> u32 \<Rightarrow> u32 \<Rightarrow> bool" for rd base_end addr len where
  found: "base < base_end \<Longrightarrow> rd (base + 4) = Some addr \<Longrightarrow> rd (base + 12) = Some len \<Longrightarrow> rd (base + 20) = Some 1
    \<Longrightarrow> addr \<noteq> 0 \<Longrightarrow> first_region rd base_end addr len base"
| skipped: "base < base_end \<Longrightarrow> rd (base + 4) = Some a \<Longrightarrow> rd (base + 12) = Some l \<Longrightarrow> rd (base + 20) = Some ty
    \<Longrightarrow> \<not> (ty = 1 \<and> a \<noteq> 0) \<Longrightarrow> rd base = Some sz \<Longrightarrow> first_region rd base_end addr len (base + (sz + 4))
    \<Longrightarrow> first_region rd base_end addr len base"

lemma map_entries_first:
  "first_region rd base_end addr len base \<Longrightarrow> map_entries E rd base base_end s = do {
     (_, s') \<leftarrow> in_frame (\<lambda>f. do { f' \<leftarrow> frame_add_chunk (fnode_get E) (fnode_put E) addr len f; Some ((), f') }) s; Some s' }"
proof (induction rule: first_region.induct)
  case (found base)
  then show ?case by (subst map_entries.simps) simp
next
  case (skipped base a l ty sz)
  then show ?case by (subst map_entries.simps) auto
qed

definition boot_region :: "(u32 \<Rightarrow> u32 option) \<Rightarrow> u32 \<Rightarrow> u32 \<Rightarrow> u32 \<Rightarrow> bool" where
  "boot_region rd multiboot addr len \<longleftrightarrow> (\<exists>a l. rd (multiboot + 48) = Some a \<and> rd (multiboot + 44) = Some l
     \<and> first_region rd (a + kernel_base + l) addr len (a + kernel_base))"

lemma memmap_to_frames_region:
  assumes "boot_region rd multiboot addr len"
  shows "memmap_to_frames E rd kernel_base multiboot s = do {
     (_, s') \<leftarrow> in_frame (\<lambda>f. do { f' \<leftarrow> frame_add_chunk (fnode_get E) (fnode_put E) addr len f; Some ((), f') }) s; Some s' }"
  using assms map_entries_first by (auto simp: boot_region_def memmap_to_frames_def)

subsection \<open>The early heap as a source of nodes\<close>

text \<open>The bytes the boot code reserves, as the early allocator is initialised with them.\<close>
definition heap_at :: "kheap \<Rightarrow> u32 \<Rightarrow> u32 \<Rightarrow> bool" where
  "heap_at h start sz \<longleftrightarrow> kern_mem_early h \<and> start \<noteq> 0 \<and> unat start + unat sz < 4294967296
     \<and> (\<forall>i < unat sz. hmem h (start + of_nat i) \<noteq> None)"

definition blocks :: "u32 \<Rightarrow> u32 \<Rightarrow> nat \<Rightarrow> u32 list" where
  "blocks start n k = map (\<lambda>i. start + of_nat i * n) [0..<k]"

lemma early_heap_nodes:
  assumes h: "heap_at h start sz" "early h = \<lparr>early_memory_base = start, early_memory_end = start + sz\<rparr>" and k: "0 < k" "k < 1024" and n: "n * (4 * k) \<le> unat sz"
  shows "early_nodes k h {} (blocks start (4 * of_nat k) n)"
proof -
  have un: "unat (of_nat k :: u32) = k" using k by (intro unat_of_nat32) simp
  have u4: "unat (4 * of_nat k :: u32) = 4 * k" using unat_times_nowrap[of 4 "of_nat k"] k un by simp
  note e = h(2)
  have ue: "unat (start + sz) = unat start + unat sz" using h by (intro unat_plus_nowrap) (simp add: heap_at_def)
  have inv: "early_inv (early h)" using h e ue by (simp add: early_inv_def early_kmalloc_active_def heap_at_def word_le_nat_alt)
  have av: "early_avail (4 * of_nat k) (early h) (blocks start (4 * of_nat k) n)"
    unfolding early_avail_def
  proof (intro conjI inv)
    show "0 < (4 * of_nat k :: u32)" using u4 k(1) by (simp add: word_less_nat_alt)
    show "length (blocks start (4 * of_nat k) n) * unat (4 * of_nat k :: u32) \<le> early_room (early h)"
      using n u4 e ue by (simp add: early_room_def blocks_def)
  qed (simp add: blocks_def e)
  have "hmem h p \<noteq> None" if x: "x \<in> set (blocks start (4 * of_nat k) n)" and p: "p \<in> node_cells k x" for x p
  proof -
    obtain i where i: "i < n" "x = blocks start (4 * of_nat k) n ! i" using x by (auto simp: in_set_conv_nth blocks_def)
    obtain j where j: "j < k" "p = x + 4 * of_nat j" using p by (auto simp: node_cells_def)
    have "unat p = unat start + i * (4 * k) + 4 * j"
      using early_nodes_cell[OF av _ j(1) k(2), of i] i j(2) by (simp add: e blocks_def)
    then have p: "unat p = unat start + (i * (4 * k) + 4 * j)" by simp
    have "(i + 1) * (4 * k) \<le> n * (4 * k)" using i(1) by (intro mult_le_mono1) simp
    then have lt: "i * (4 * k) + 4 * j < unat sz" using n j(1) by (simp add: algebra_simps)
    then have "unat (of_nat (i * (4 * k) + 4 * j) :: u32) = i * (4 * k) + 4 * j" using unat_lt_2p32[of sz] by (intro unat_of_nat32) linarith
    then have "p = start + of_nat (i * (4 * k) + 4 * j)"
      using p h lt unat_plus_nowrap[of start "of_nat (i * (4 * k) + 4 * j)"]
      by (simp add: heap_at_def word_unat_eq_iff)
    then show ?thesis using h lt unfolding heap_at_def by metis
  qed
  with av h show ?thesis by (auto simp: early_nodes_def heap_at_def)
qed

subsection \<open>The first phase\<close>

lemma blocks_nth: "i < k \<Longrightarrow> blocks start n k ! i = start + of_nat i * n" "length (blocks start n k) = k"
  by (simp_all add: blocks_def)

lemma early_nodes_hset [simp]: "early_nodes k (hset h m) R xs \<longleftrightarrow>
    kern_mem_early h \<and> R = {} \<and> early_avail (4 * of_nat k) (early h) xs \<and> (\<forall>x\<in>set xs. \<forall>p\<in>node_cells k x. m p \<noteq> None)"
  by (simp add: early_nodes_def hset_def)

text \<open>What is left for nodes of two words can be used for nodes of five.\<close>
lemma early_nodes_5:
  assumes "early_nodes 2 h {} xs" and "20 * n \<le> 8 * length xs" and "xs \<noteq> []"
  shows "early_nodes 5 h {} (blocks (hd xs) 20 n)"
    and "\<forall>x\<in>set (blocks (hd xs) 20 n). \<forall>p\<in>node_cells 5 x. \<exists>y\<in>set xs. p \<in> node_cells 2 y"
proof -
  have av: "early_avail 8 (early h) xs" and km: "kern_mem_early h"
    and mp: "\<forall>x\<in>set xs. \<forall>p\<in>node_cells 2 x. hmem h p \<noteq> None" using assms(1) by (simp_all add: early_nodes_def)
  have hd: "hd xs = early_memory_base (early h)" using av assms(3) by (cases xs) (auto simp: early_avail_def)
  have room: "8 * length xs \<le> early_room (early h)" and inv: "early_inv (early h)" using av by (simp_all add: early_avail_def)
  have a5: "early_avail 20 (early h) (blocks (hd xs) 20 n)"
    unfolding early_avail_def using room inv hd assms(2) by (simp add: blocks_nth)
  have "\<exists>y\<in>set xs. p \<in> node_cells 2 y" if x: "x \<in> set (blocks (hd xs) 20 n)" and p: "p \<in> node_cells 5 x" for x p
  proof -
    obtain i where i: "i < n" "x = blocks (hd xs) 20 n ! i" using x by (auto simp: in_set_conv_nth blocks_nth)
    obtain j where j: "j < 5" "p = x + 4 * of_nat j" using p by (auto simp: node_cells_def)
    let ?w = "i * 5 + j"
    have u: "unat p = unat (hd xs) + 4 * ?w"
      using early_nodes_cell[of 5 "early h" "blocks (hd xs) 20 n" i j] a5 i j by (simp add: blocks_nth hd)
    have w: "?w div 2 < length xs" using i(1) j(1) assms(2) by linarith
    have "unat (xs ! (?w div 2) + 4 * of_nat (?w mod 2)) = unat (hd xs) + 8 * (?w div 2) + 4 * (?w mod 2)"
      using early_nodes_cell[of 2 "early h" xs "?w div 2" "?w mod 2"] av w by (simp add: hd)
    also have "\<dots> = unat p" using u by presburger
    finally have "p = xs ! (?w div 2) + 4 * of_nat (?w mod 2)" by (simp only: word_unat_eq_iff)
    then have "p \<in> node_cells 2 (xs ! (?w div 2))" by (auto simp: node_cells_def)
    with nth_mem[OF w] show ?thesis by blast
  qed
  then show c: "\<forall>x\<in>set (blocks (hd xs) 20 n). \<forall>p\<in>node_cells 5 x. \<exists>y\<in>set xs. p \<in> node_cells 2 y" by blast
  with mp have "\<forall>x\<in>set (blocks (hd xs) 20 n). \<forall>p\<in>node_cells 5 x. hmem h p \<noteq> None" by blast
  then show "early_nodes 5 h {} (blocks (hd xs) 20 n)" using a5 km by (simp add: early_nodes_def)
qed

text \<open>\<open>vasa_init\<close> leaves one free chunk, whose node is the next block.\<close>
lemma vasa_init_one_chunk:
  assumes "early_nodes 5 (v_heap v) {} (x # y # ys)"
  shows "\<exists>v'. vasa_init (vasa_node_alloc mmp cpu large) start len v = Some v' \<and> v_lock v' = v_lock v
    \<and> vasa_ok (vasa_nodes cpu) v' {} (y # ys) [(x, start, len)] []
    \<and> (\<forall>p. p \<notin> node_cells 5 x \<longrightarrow> vmem v' p = vmem v p)"
proof -
  have act: "early_kmalloc_active (early (v_heap v))" using assms by (simp add: early_nodes_def early_avail_def early_inv_def)
  have nodes: "vasa_nodes cpu (v_heap v) {} (x # y # ys)" using assms act by (simp add: vasa_nodes_def)
  obtain h where h: "vasa_node_alloc mmp cpu large (v_heap v) = Some (x, h)" "vasa_nodes cpu h {} (y # ys)" "x \<noteq> NULL"
      "\<forall>p. p \<notin> {} \<longrightarrow> hmem h p = hmem (v_heap v) p"
      "\<forall>p\<in>node_cells 5 x. hmem h p \<noteq> None \<and> p \<notin> {} \<and> (\<forall>z\<in>set (y # ys). p \<notin> node_cells 5 z)"
    using vasa_src.alloc_fresh[OF nodes, of mmp large] by blast
  let ?v = "v\<lparr>v_heap := h\<rparr>"
  have g: "vgood (vasa_nodes cpu) ?v {} (y # ys) {x}" using h(2,5) by (simp add: vgood_def)
  have c: "x \<in> node_cells 5 x" "x + 8 \<in> node_cells 5 x" "x + 12 \<in> node_cells 5 x" "x + 16 \<in> node_cells 5 x" by (auto simp: node_cells_5)
  let ?v1 = "vs_upd x NULL ?v" let ?v2 = "vs_upd (x + 8) start ?v1" let ?v3 = "vs_upd (x + 12) len ?v2"
  note g1 = vasa_src.good_vset[OF g singletonI c(1), of NULL]
  note g2 = vasa_src.good_vset[OF g1(2) singletonI c(2), of start]
  note g3 = vasa_src.good_vset[OF g2(2) singletonI c(3), of len]
  let ?w = "?v3\<lparr>free_head := x, used_head := NULL\<rparr>"
  have "vasa_init (vasa_node_alloc mmp cpu large) start len v = Some ?w"
    using h(1) g1(1) g2(1) g3(1) by (simp add: vasa_init_def vasa_new_def)
  moreover have "vmem ?v (x + 16) \<noteq> None" using h(5) c(4) by simp
  then have "vasa_ok (vasa_nodes cpu) ?w {} (y # ys) [(x, start, len)] []"
    using g3(2) h(3) by (simp add: vasa_ok_def vgood_def apart5_def)
  moreover have "\<forall>p. p \<notin> node_cells 5 x \<longrightarrow> vmem ?w p = vmem v p" using h(4) c by auto
  ultimately show ?thesis by auto
qed

subsection \<open>The properties\<close>

lemma empty_lists_ok:
  assumes "early_nodes 2 (fa_heap f) {} xs" and "free_lists f = replicate 20 0"
  shows "frame_ok (early_nodes 2) f {} xs (replicate 20 [])"
proof -
  have "concat (replicate 20 ([] :: (u32 \<times> u32) list)) = []" by simp
  then show ?thesis using assms by (simp add: frame_ok_def frame_holds_def nodes_apart_def frame_nodes_def)
qed

lemma free_pages_empty: "free_pages (replicate 20 []) = {#}"
  by (simp add: free_pages_def numeral_eq_Suc)

text \<open>C3: After the first phase of \<open>load_memory\<close> the whole pages of the region the boot loader reports are free, each once, in
  well-formed free lists, and the address space from 0xD0000000 to the page tables is one free chunk, with more nodes to
  come, provided the early heap has 8 bytes for every 20 pages and 64 more; the page tables are as before. Boot map, early
  allocator, frame allocator and address space allocator work together.\<close>
theorem boot_memory:
  assumes "boot_region rd multiboot addr len" and "4096 < unat len"
    and "heap_at (mm_heap s) start sz" and "(unat len div 4096 + 19) div 20 * 8 + 64 \<le> unat sz"
    and "free_lists (mm_frame s) = replicate 20 0"
  shows "\<exists>s' Ls node ys. load_memory_early (boot_env mmp cpu large lfree) rd multiboot table start sz s = Some s'
    \<and> frame_holds ((mm_frame s')\<lparr>fa_heap := mm_heap s'\<rparr>) Ls
    \<and> free_pages Ls = mset (map (\<lambda>i. addr + of_nat i * PAGE_SIZE) [0..<unat len div 4096])
    \<and> vasa_ok (vasa_nodes cpu) ((mm_vasa s')\<lparr>v_heap := mm_heap s'\<rparr>) {} ys [(node, 0xD0000000, table - 0xD0000000)] []
    \<and> length ys = 2 \<and> pmem s' = pmem s \<and> cr3 s' = cr3 s"
proof -
  let ?E = "boot_env mmp cpu large lfree"
  define h1 where "h1 = (mm_heap s)\<lparr>early := early_kmalloc_init start sz (early (mm_heap s))\<rparr>"
  define xs where "xs = blocks start 8 (unat sz div 8)"
  let ?f = "(mm_frame s)\<lparr>fa_heap := h1\<rparr>"
  have ha: "heap_at h1 start sz" using assms(3) by (simp add: h1_def heap_at_def)
  have ea: "early h1 = \<lparr>early_memory_base = start, early_memory_end = start + sz\<rparr>" by (simp add: h1_def early_kmalloc_init_def)
  have "early_nodes 2 h1 {} xs" using early_heap_nodes[OF ha ea, of 2 "unat sz div 8"] by (simp add: xs_def)
  then have ok: "frame_ok (early_nodes 2) ?f {} xs (replicate 20 [])" using assms(5) by (intro empty_lists_ok) simp_all
  have lx: "(unat len div 4096 + 19) div 20 + 8 \<le> length xs" using assms(4) by (simp add: xs_def blocks_nth)
  then have "(unat len div 4096 + 19) div 20 < length xs" by simp
  from frame_early.add_chunk[OF ok this assms(2), of mmp cpu large "fnode_put ?E" addr]
  obtain f' xs' Ls where f': "frame_add_chunk (fnode_get ?E) (fnode_put ?E) addr len ?f = Some f'"
      "frame_ok (early_nodes 2) f' {} xs' Ls" "free_pages Ls = mset (chunk_pages addr (unat len div 4096))"
      "length xs - (unat len div 4096 + 19) div 20 \<le> length xs'"
    by (auto simp: boot_env_def frame_node_alloc_early free_pages_empty)
  have l8: "8 \<le> length xs'" using f'(4) lx by simp
  have e2: "early_nodes 2 (fa_heap f') {} xs'" using f'(2) by (simp add: frame_ok_def)
  define x where "x = blocks (hd xs') 20 3 ! 0"
  define ys where "ys = tl (blocks (hd xs') 20 3)"
  have bl: "blocks (hd xs') 20 3 = x # ys" "length ys = 2" by (simp_all add: x_def ys_def blocks_def numeral_eq_Suc)
  then obtain y ys' where ys: "ys = y # ys'" by (cases ys) auto
  have "xs' \<noteq> []" "20 * 3 \<le> 8 * length xs'" using l8 by auto
  note n5 = early_nodes_5[OF e2 this(2,1)]
  let ?v = "(mm_vasa s)\<lparr>v_heap := fa_heap f'\<rparr>"
  have "early_nodes 5 (v_heap ?v) {} (x # y # ys')" using n5(1) bl(1) ys by simp
  from vasa_init_one_chunk[OF this, of mmp cpu large "0xD0000000" "table - 0xD0000000"]
  obtain v' where v': "vasa_init (vasa_get ?E) 0xD0000000 (table - 0xD0000000) ?v = Some v'"
      "vasa_ok (vasa_nodes cpu) v' {} ys [(x, 0xD0000000, table - 0xD0000000)] []"
      "\<forall>p. p \<notin> node_cells 5 x \<longrightarrow> vmem v' p = hmem (fa_heap f') p"
    by (auto simp: boot_env_def ys)
  let ?s = "s\<lparr>mm_frame := f', mm_vasa := v', mm_heap := v_heap v'\<rparr>"
  have run: "load_memory_early ?E rd multiboot table start sz s = Some ?s"
    using f'(1) v'(1) by (simp add: load_memory_early_def memmap_to_frames_region[OF assms(1)] in_frame_def in_vasa_def h1_def)
  have apart: "p \<notin> node_cells 5 x" if "n \<in> set (frame_nodes Ls)" "p \<in> node_cells 2 n" for n p
  proof
    assume "p \<in> node_cells 5 x"
    then obtain z where z: "z \<in> set xs'" "p \<in> node_cells 2 z" using n5(2) bl(1) by (metis list.set_intros(1))
    have na: "nodes_apart 2 (frame_nodes Ls) {} xs'" using f'(2) by (simp add: frame_ok_def)
    then have "z \<noteq> n" using z(1) that(1) by (auto simp: nodes_apart_def)
    with na z(1) that have "p \<notin> node_cells 2 z" unfolding nodes_apart_def by (metis UnI1)
    with z(2) show False by blast
  qed
  have fh: "frame_holds (f'\<lparr>fa_heap := v_heap v'\<rparr>) Ls"
    unfolding frame_holds_def
  proof (intro conjI allI impI)
    fix i assume i: "i < (20 :: nat)"
    have h: "frame_holds f' Ls" using f'(2) by (simp add: frame_ok_def)
    then have "fnodes (hmem (fa_heap f')) (free_lists f' ! i) (Ls ! i)" using i by (simp add: frame_holds_def)
    then have "fnodes (vmem v') (free_lists f' ! i) (Ls ! i)"
    proof (rule fnodes_cong)
      fix n q assume n: "n \<in> fst ` set (Ls ! i)" "q \<in> node_cells 2 n"
      have "n \<in> set (frame_nodes Ls)" using h i n(1) by (intro in_frame_nodes) (simp_all add: frame_holds_def)
      with n(2) apart show "vmem v' q = hmem (fa_heap f') q" using v'(3) by blast
    qed
    then show "fnodes (hmem (fa_heap (f'\<lparr>fa_heap := v_heap v'\<rparr>))) (free_lists (f'\<lparr>fa_heap := v_heap v'\<rparr>) ! i) (Ls ! i)" by simp
  qed (use f'(2) in \<open>simp_all add: frame_ok_def frame_holds_def\<close>)
  have "v'\<lparr>v_heap := v_heap v'\<rparr> = v'" by simp
  then show ?thesis using run fh f'(3) v'(2) bl(2)
    by (intro exI[of _ ?s] exI[of _ Ls] exI[of _ x] exI[of _ ys]) (simp add: chunk_pages_def)
qed

text \<open>The memory map of a machine: the first entry starts at 0, the second is the region at 1 MB.\<close>
definition boot_words :: "u32 \<Rightarrow> u32 \<Rightarrow> u32 option" where
  "boot_words len = [0x10030 \<mapsto> 0x9000, 0x1002C \<mapsto> 48,
     0xC0009000 \<mapsto> 20, 0xC0009004 \<mapsto> 0, 0xC000900C \<mapsto> 0x9FC00, 0xC0009014 \<mapsto> 1,
     0xC000901C \<mapsto> 0x100000, 0xC0009024 \<mapsto> len, 0xC000902C \<mapsto> 1]"

lemma boot_words_region: "boot_region (boot_words len) 0x10000 0x100000 len"
  unfolding boot_region_def
proof (intro exI conjI)
  show "first_region (boot_words len) (0x9000 + kernel_base + 48) 0x100000 len (0x9000 + kernel_base)"
    by (rule first_region.skipped[where a = 0 and l = "0x9FC00" and ty = 1 and sz = 20],
        (simp_all add: boot_words_def kernel_base_def)[6], rule first_region.found)
      (simp_all add: boot_words_def kernel_base_def)
qed (simp_all add: boot_words_def)

definition boot_mm :: mm where
  "boot_mm = \<lparr>page_lock = 0, cr3 = 0x1000, pmem = (\<lambda>_. 0),
     mm_vasa = \<lparr>free_head = NULL, used_head = NULL, v_lock = 0, v_heap = fa_heap boot_frame\<rparr>,
     mm_frame = boot_frame, mm_heap = fa_heap boot_frame\<rparr>"

lemma boot_mm_heap: "heap_at (mm_heap boot_mm) 0xC0110000 0x6000" "free_lists (mm_frame boot_mm) = replicate 20 0"
  by (simp_all add: heap_at_def boot_mm_def boot_frame_def)

theorem boot_memory_witness:
  "\<exists>s' Ls node ys. load_memory_early (boot_env (\<lambda>fl s. None) 0 (\<lambda>n k. None) (\<lambda>p k. None)) (boot_words 0x7F00000) 0x10000 0xFFC00000 0xC0110000 0x6000 boot_mm = Some s'
    \<and> frame_holds ((mm_frame s')\<lparr>fa_heap := mm_heap s'\<rparr>) Ls
    \<and> free_pages Ls = mset (map (\<lambda>i. 0x100000 + of_nat i * PAGE_SIZE) [0..<unat (0x7F00000 :: u32) div 4096])
    \<and> vasa_ok (vasa_nodes 0) ((mm_vasa s')\<lparr>v_heap := mm_heap s'\<rparr>) {} ys [(node, 0xD0000000, 0xFFC00000 - 0xD0000000)] []
    \<and> length ys = 2 \<and> pmem s' = pmem boot_mm \<and> cr3 s' = cr3 boot_mm"
  by (rule boot_memory[OF boot_words_region _ boot_mm_heap(1) _ boot_mm_heap(2)]) simp_all

text \<open>One node per call of \<open>frame_add_free_item\<close>, from an early heap that has an end.\<close>
lemma add_new_early:
  assumes "frame_add_free_item (frame_node_alloc mmp cpu large False) nf a c True f = Some f'" and "c \<le> 20"
    and "kern_mem_early (fa_heap f)" and "early_inv (early (fa_heap f))" and "unat (early_memory_end (early (fa_heap f))) + 8 < 4294967296"
  shows "8 \<le> early_room (early (fa_heap f)) \<and> kern_mem_early (fa_heap f') \<and> early_inv (early (fa_heap f'))
    \<and> early_memory_end (early (fa_heap f')) = early_memory_end (early (fa_heap f))
    \<and> early_room (early (fa_heap f')) + 8 = early_room (early (fa_heap f))"
proof -
  let ?e = "early (fa_heap f)"
  have "\<not> c > 20" using assms(2) by simp
  with assms(1) obtain l n h where nn: "frame_new_node (frame_node_alloc mmp cpu large False) a l (fa_heap f) = Some (n, h)"
      and f': "fa_heap f' = h"
    by (subst (asm) frame_add_free_item.simps) (auto simp: Let_def split: if_splits bind_splits)
  from nn obtain h1 where h1: "kmalloc mmp cpu large 8 (fa_heap f) = Some (n, h1)"
      and e: "early h = early h1" "kern_mem_early h = kern_mem_early h1"
    by (auto simp: frame_new_node_def frame_node_alloc_def hput_def hset_def split: bind_splits)
  from h1 assms(3) obtain e1 where e1: "early_kmalloc 8 ?e = Some (n, e1)" "h1 = (fa_heap f)\<lparr>early := e1\<rparr>"
    by (auto simp: kmalloc_def lift_early_def split: bind_splits)
  have u: "unat (early_memory_base ?e + 8) = unat (early_memory_base ?e) + 8"
    using assms(4,5) unat_plus_nowrap[of "early_memory_base ?e" 8] by (simp add: early_inv_def word_le_nat_alt)
  have fit: "unat (8 :: u32) \<le> early_room ?e"
    using e1(1) assms(4) u by (auto simp: early_kmalloc_def early_inv_def early_room_def word_less_nat_alt split: if_splits)
  from early_kmalloc_fits[OF assms(4) fit] e1(1) have e1': "e1 = ?e\<lparr>early_memory_base := early_memory_base ?e + 8\<rparr>" by simp
  show ?thesis using early_kmalloc_inv[OF assms(4) fit e1(1)] fit f' e e1(2) assms(3) e1' u
    by (auto simp: early_room_def)
qed

lemma chunk_loop_runs_out:
  assumes "kern_mem_early (fa_heap f)" and "early_inv (early (fa_heap f))" and "unat (early_memory_end (early (fa_heap f))) + 8 < 4294967296"
    and "early_room (early (fa_heap f)) div 8 < (unat n div 4096 + 19) div 20"
  shows "frame_chunk_loop (frame_node_alloc mmp cpu large False) nf a n f = None"
  using assms
proof (induction "unat n" arbitrary: n a f rule: less_induct)
  case less
  let ?P = "unat n div 4096"
  let ?na = "frame_node_alloc mmp cpu large False"
  define c where "c = min 20 ?P"
  have P: "4096 \<le> unat n" using less.prems(4) by (cases "unat n < 4096") simp_all
  note L = largest_chunk[OF P, folded c_def]
  have cc: "of_nat c \<le> (20 :: u32)" using L(3) by (simp add: word_le_nat_alt unat_of_nat32)
  show ?case
  proof (cases "frame_add_free_item ?na nf a (of_nat c) True f")
    case None
    then show ?thesis using P L(1) by (subst frame_chunk_loop.simps) (simp add: PAGE_SIZE_def word_le_nat_alt)
  next
    case (Some f')
    note n = add_new_early[OF Some cc less.prems(1-3)]
    have "early_room (early (fa_heap f')) div 8 + 1 = early_room (early (fa_heap f)) div 8" using n by linarith
    then have "early_room (early (fa_heap f')) div 8 < (unat (n - of_nat c * PAGE_SIZE) div 4096 + 19) div 20"
      using less.prems(4) L(6,7) by simp
    with n less.prems(3) have "frame_chunk_loop ?na nf (a + of_nat c * PAGE_SIZE) (n - of_nat c * PAGE_SIZE) f' = None"
      by (intro less.hyps[OF L(5)]) simp_all
    with Some P L(1) show ?thesis by (subst frame_chunk_loop.simps) (simp add: PAGE_SIZE_def word_le_nat_alt)
  qed
qed

text \<open>C40: \<open>load_memory\<close> does not return when the region has more chunks of 20 pages than the early heap has places for their
  nodes of 8 bytes: with the 0x6000 bytes of \<open>boot/early_heap.asm\<close>, when the region is larger than 240 MB.\<close>
theorem boot_runs_out:
  assumes "boot_region rd multiboot addr len" and "heap_at (mm_heap s) start sz" and "unat start + unat sz + 8 < 4294967296"
    and "4096 < unat len" and "unat sz div 8 < (unat len div 4096 + 19) div 20"
  shows "load_memory mmp cpu large lfree rd multiboot table start sz s = None"
proof -
  define f where "f = (mm_frame s)\<lparr>fa_heap := (mm_heap s)\<lparr>early := early_kmalloc_init start sz (early (mm_heap s))\<rparr>, fa_base := addr\<rparr>"
  have e: "early (fa_heap f) = \<lparr>early_memory_base = start, early_memory_end = start + sz\<rparr>" by (simp add: f_def early_kmalloc_init_def)
  have u: "unat (start + sz) = unat start + unat sz" using assms(3) by (intro unat_plus_nowrap) simp
  have r: "early_room (early (fa_heap f)) = unat sz" by (simp add: early_room_def e u)
  have k: "kern_mem_early (fa_heap f)" using assms(2) by (simp add: f_def heap_at_def)
  have i: "early_inv (early (fa_heap f))" "unat (early_memory_end (early (fa_heap f))) + 8 < 4294967296"
    unfolding e using assms(2,3) u by (simp_all add: heap_at_def early_inv_def early_kmalloc_active_def word_le_nat_alt)
  from chunk_loop_runs_out[OF k i, of len mmp cpu large] r assms(5)
  have l: "frame_chunk_loop (frame_node_alloc mmp cpu large False) nf addr len f = None" for nf by simp
  have "\<not> len \<le> PAGE_SIZE" using assms(4) by (simp add: PAGE_SIZE_def word_le_nat_alt)
  then have "load_memory_early (boot_env mmp cpu large lfree) rd multiboot table start sz s = None"
    using l by (simp add: load_memory_early_def memmap_to_frames_region[OF assms(1)] in_frame_def boot_env_def frame_add_chunk_def f_def)
  then show ?thesis by (simp add: load_memory_def)
qed

theorem boot_runs_out_witness:
  "load_memory (\<lambda>fl s. None) 0 (\<lambda>n k. None) (\<lambda>p k. None) (boot_words 0xFF00000) 0x10000 0xFFC00000 0xC0110000 0x6000 boot_mm = None"
  by (rule boot_runs_out[OF boot_words_region boot_mm_heap(1)]) simp_all

end
