(* ===== verification/Slab.thy ===== *)
theory Slab
  imports Kmalloc
begin

text \<open>
  \<open>src/src/kernel/mem/slab.c\<close> (with \<open>src/src/include/mem/slab.h\<close>): the allocator that \<open>BRACKOS_CONF_SLAB\<close> selects instead of
  \<open>slub.c\<close>. Slabs and their memory are as in \<open>Slub\<close>, whose macros and loops over a slab are the same text in both files; a
  cache has one set of slab lists instead of one per processor. The names of the operations start with \<open>slab_\<close> here, since
  both files define the same functions. Proved is that allocation agrees with \<open>slub.c\<close> seen from one processor, and that
  freeing does not: it ties the free list into a circle.
\<close>

text \<open>\<open>sizeof(mem_cache_t)\<close>.\<close>
definition sizeof_slab_cache :: u32 where "sizeof_slab_cache = sizeof slab_mem_cache_layout"

record slab_cache =
  sc_name :: string
  sc_size :: u32
  sc_min :: u32
  sc_full :: u32
  sc_semi :: u32
  sc_empty :: u32
  sc_construct :: "(u32 \<Rightarrow> cells \<Rightarrow> cells option) option"

text \<open>The caches in the order of the links, headed by \<open>cache_cache\<close>.\<close>
record slab_state =
  sb_caches :: "slab_cache list"
  sb_mem :: cells

definition set_cache :: "nat \<Rightarrow> slab_cache \<Rightarrow> slab_state \<Rightarrow> slab_state option" where
  "set_cache i c s = do { cs \<leftarrow> aset (sb_caches s) i c; Some (s\<lparr>sb_caches := cs\<rparr>) }"

text \<open>\<open>MMAP_URGENT\<close>: unlike \<open>slub.c\<close> this file does not ask for an address that is a multiple of two pages.\<close>
definition slab_urgent :: u32 where "slab_urgent = push_bit 2 1"

definition slab_mem_slab_new :: "(u32 \<Rightarrow> slab_state \<Rightarrow> (u32 \<times> slab_state) option) \<Rightarrow> u32 \<Rightarrow> slab_state \<Rightarrow> (u32 \<times> slab_state) option" where
  "slab_mem_slab_new memmap n s = do {
     (slab, s1) \<leftarrow> memmap slab_urgent s;
     if slab = NULL then Some (NULL, s1)
     else if n = 0 then None
     else do {
       let tail = slab + 8;
       m1 \<leftarrow> wr (sb_mem s1) (slab + 4) tail;
       m2 \<leftarrow> wr m1 slab (SLAB_CREATE_NEXT NULL ((SLAB_SIZE - 8 - 1) div n));
       m3 \<leftarrow> link_objects m2 tail n (unat ((SLAB_SIZE - 8 - 1) div n));
       Some (slab, s1\<lparr>sb_mem := m3\<rparr>) } }"

definition slab_mem_slab_free_count :: "cells \<Rightarrow> u32 \<Rightarrow> u32 option" where
  "slab_mem_slab_free_count m slab = do { object \<leftarrow> m (slab + 4); free_count_loop m object 0 }"

definition slab_mem_cache_free_count :: "cells \<Rightarrow> slab_cache \<Rightarrow> u32 option" where
  "slab_mem_cache_free_count m c = do { k \<leftarrow> semi_count_loop m (sc_semi c) 0; empty_count_loop m (sc_empty c) k }"

fun slab_find_cache :: "string \<Rightarrow> slab_cache list \<Rightarrow> nat option" where
  "slab_find_cache name [] = None"
| "slab_find_cache name (c # cs) = (if sc_name c = name then Some 0 else map_option Suc (slab_find_cache name cs))"

text \<open>The three blocks of \<open>mem_cache_alloc\<close>, as in \<open>Slub\<close>.\<close>
definition slab_refill :: "(u32 \<Rightarrow> slab_state \<Rightarrow> (u32 \<times> slab_state) option) \<Rightarrow> nat \<Rightarrow> slab_state \<Rightarrow> (bool \<times> slab_state) option" where
  "slab_refill memmap i s = do {
     c \<leftarrow> aget (sb_caches s) i;
     if sc_semi c \<noteq> NULL then Some (True, s)
     else if sc_empty c = NULL then do {
       (slab, s1) \<leftarrow> slab_mem_slab_new memmap (sc_size c) s;
       if slab = NULL then Some (False, s1)
       else do {
         c1 \<leftarrow> aget (sb_caches s1) i;
         s2 \<leftarrow> set_cache i (c1\<lparr>sc_semi := slab\<rparr>) s1;
         Some (True, s2) } }
     else do {
       let slab = sc_empty c;
       nxt \<leftarrow> sb_mem s slab;
       m \<leftarrow> wr (sb_mem s) slab (SLAB_CREATE_NEXT NULL (SLAB_COUNT nxt));
       s1 \<leftarrow> set_cache i (c\<lparr>sc_empty := SLAB_NEXT nxt, sc_semi := slab\<rparr>) (s\<lparr>sb_mem := m\<rparr>);
       Some (True, s1) } }"

definition slab_take_object :: "nat \<Rightarrow> slab_state \<Rightarrow> (u32 \<times> slab_state) option" where
  "slab_take_object i s = do {
     c \<leftarrow> aget (sb_caches s) i;
     let slab = sc_semi c;
     object \<leftarrow> sb_mem s (slab + 4);
     nxt \<leftarrow> sb_mem s object;
     m1 \<leftarrow> wr (sb_mem s) (slab + 4) nxt;
     if nxt = NULL then do {
       h \<leftarrow> m1 slab;
       m2 \<leftarrow> wr m1 slab (SLAB_CREATE_NEXT (sc_full c) (SLAB_COUNT h));
       s1 \<leftarrow> set_cache i (c\<lparr>sc_semi := SLAB_NEXT h, sc_full := slab\<rparr>) (s\<lparr>sb_mem := m2\<rparr>);
       Some (object, s1) }
     else Some (object, s\<lparr>sb_mem := m1\<rparr>) }"

definition slab_keep_minimum :: "(u32 \<Rightarrow> slab_state \<Rightarrow> (u32 \<times> slab_state) option) \<Rightarrow> nat \<Rightarrow> slab_state \<Rightarrow> slab_state option" where
  "slab_keep_minimum memmap i s = do {
     c \<leftarrow> aget (sb_caches s) i;
     if sc_min c > 0 then do {
       free_count \<leftarrow> slab_mem_cache_free_count (sb_mem s) c;
       if free_count < sc_min c then do {
         (slab, s1) \<leftarrow> slab_mem_slab_new memmap (sc_size c) s;
         if slab \<noteq> NULL then do {
           c1 \<leftarrow> aget (sb_caches s1) i;
           h \<leftarrow> sb_mem s1 slab;
           m \<leftarrow> wr (sb_mem s1) slab (SLAB_CREATE_NEXT (sc_empty c1) (SLAB_COUNT h));
           set_cache i (c1\<lparr>sc_empty := slab\<rparr>) (s1\<lparr>sb_mem := m\<rparr>) }
         else Some s1 }
       else Some s }
     else Some s }"

definition slab_mem_cache_alloc :: "(u32 \<Rightarrow> slab_state \<Rightarrow> (u32 \<times> slab_state) option) \<Rightarrow> string \<Rightarrow> slab_state \<Rightarrow> (u32 \<times> slab_state) option" where
  "slab_mem_cache_alloc memmap name s =
     (case slab_find_cache name (sb_caches s) of
        None \<Rightarrow> Some (NULL, s)
      | Some i \<Rightarrow> do {
          (ok, s1) \<leftarrow> slab_refill memmap i s;
          if \<not> ok then Some (NULL, s1)
          else do {
            (object, s2) \<leftarrow> slab_take_object i s1;
            c \<leftarrow> aget (sb_caches s2) i;
            s3 \<leftarrow> (case sc_construct c of
                     None \<Rightarrow> Some s2
                   | Some f \<Rightarrow> do { m \<leftarrow> f object (sb_mem s2); Some (s2\<lparr>sb_mem := m\<rparr>) });
            s4 \<leftarrow> slab_keep_minimum memmap i s3;
            Some (object, s4) } })"

text \<open>The object is linked in front of the first free object below it.\<close>
partial_function (option) slab_dealloc_loop ::
  "cells \<Rightarrow> u32 \<Rightarrow> u32 \<Rightarrow> u32 \<Rightarrow> u32 \<Rightarrow> u32 \<Rightarrow> (cells \<times> u32 \<times> u32 \<times> u32) option" where
  "slab_dealloc_loop m slab object free_prev free_obj free_count =
     (if free_obj = NULL then Some (m, object, free_prev, free_count)
      else do {
        (m', object') \<leftarrow>
          (if object \<noteq> NULL \<and> object > free_obj then do {
             m1 \<leftarrow> (if free_prev \<noteq> NULL then wr m free_prev object else wr m (slab + 4) object);
             m2 \<leftarrow> wr m1 object free_obj;
             Some (m2, NULL) }
           else Some (m, object));
        nxt \<leftarrow> m' free_obj;
        slab_dealloc_loop m' slab object' free_obj nxt (free_count + 1) })"

definition slab_mem_cache_dealloc :: "string \<Rightarrow> u32 \<Rightarrow> slab_state \<Rightarrow> slab_state option" where
  "slab_mem_cache_dealloc name object s =
     (case slab_find_cache name (sb_caches s) of
        None \<Rightarrow> Some s
      | Some i \<Rightarrow> do {
          let slab = object AND NOT 4095;
          h \<leftarrow> sb_mem s slab;
          free_obj \<leftarrow> sb_mem s (slab + 4);
          (m, object', free_prev, free_count) \<leftarrow> slab_dealloc_loop (sb_mem s) slab object NULL free_obj 1;
          m' \<leftarrow> (if object' \<noteq> NULL then wr m free_prev object' else Some m);
          Some (s\<lparr>sb_mem := m'\<rparr>) })"

definition slab_mem_cache_add :: "slab_cache \<Rightarrow> slab_state \<Rightarrow> slab_state" where
  "slab_mem_cache_add c s = s\<lparr>sb_caches := sb_caches s @ [c]\<rparr>"

definition slab_mem_cache_new :: "(u32 \<Rightarrow> slab_state \<Rightarrow> (u32 \<times> slab_state) option) \<Rightarrow> string \<Rightarrow> u32 \<Rightarrow> u32
    \<Rightarrow> (u32 \<Rightarrow> cells \<Rightarrow> cells option) option \<Rightarrow> slab_state \<Rightarrow> (u32 \<times> slab_state) option" where
  "slab_mem_cache_new memmap name n minimum constr s =
     (if length name \<ge> CACHE_NAME_MAXLEN then Some (NULL, s)
      else if n \<ge> SLAB_SIZE - sizeof_slab_cache then Some (NULL, s)
      else do {
        (cache, s1) \<leftarrow> slab_mem_cache_alloc memmap ''cache_cache'' s;
        if cache = NULL then Some (NULL, s1)
        else do {
          let i = length (sb_caches s1);
          let s2 = slab_mem_cache_add \<lparr>sc_name = name, sc_size = n, sc_min = minimum, sc_full = NULL, sc_semi = NULL,
                     sc_empty = NULL, sc_construct = constr\<rparr> s1;
          (begin_slab, s3) \<leftarrow> slab_mem_slab_new memmap n s2;
          if begin_slab \<noteq> NULL then do {
            c \<leftarrow> aget (sb_caches s3) i;
            s4 \<leftarrow> set_cache i (c\<lparr>sc_empty := begin_slab\<rparr>) s3;
            Some (cache, s4) }
          else Some (cache, s3) } })"

subsection \<open>Size classes\<close>

text \<open>The table is the one of \<open>slub.c\<close>.\<close>
fun slab_kmalloc_init_loop :: "(u32 \<Rightarrow> slab_state \<Rightarrow> (u32 \<times> slab_state) option) \<Rightarrow> (u32 \<times> string) list \<Rightarrow> slab_state \<Rightarrow> slab_state option" where
  "slab_kmalloc_init_loop memmap [] s = Some s"
| "slab_kmalloc_init_loop memmap ((n, name) # bs) s = do {
     (_, s1) \<leftarrow> slab_mem_cache_new memmap name n 0 None s;
     slab_kmalloc_init_loop memmap bs s1 }"

definition slab_kmalloc_init :: "(u32 \<Rightarrow> slab_state \<Rightarrow> (u32 \<times> slab_state) option) \<Rightarrow> slab_state \<Rightarrow> slab_state option" where
  "slab_kmalloc_init memmap s = slab_kmalloc_init_loop memmap kmalloc_sizes s"

definition slab_kmalloc_get_block :: "u32 \<Rightarrow> slab_state \<Rightarrow> (u32 \<times> string) option" where
  "slab_kmalloc_get_block object s = do {
     let slab = object AND NOT 0xFFF;
     h \<leftarrow> sb_mem s slab;
     let object_count = SLAB_COUNT h;
     if object_count = 0 then None
     else Some (get_block_loop ((SLAB_SIZE - 8) div object_count) None kmalloc_sizes) }"

definition slab_kmalloc_block_for_size :: "u32 \<Rightarrow> u32 \<times> string" where
  "slab_kmalloc_block_for_size n = block_for_size_loop n kmalloc_sizes"

definition slab_kmalloc :: "(u32 \<Rightarrow> slab_state \<Rightarrow> (u32 \<times> slab_state) option) \<Rightarrow> u32 \<Rightarrow> slab_state \<Rightarrow> (u32 \<times> slab_state) option" where
  "slab_kmalloc memmap n s =
     (if n = 0 then Some (NULL, s)
      else let block = slab_kmalloc_block_for_size n in
        if fst block = 0 then Some (NULL, s) else slab_mem_cache_alloc memmap (snd block) s)"

definition slab_krealloc :: "(u32 \<Rightarrow> u32 \<Rightarrow> u32 \<Rightarrow> slab_state \<Rightarrow> slab_state option)
    \<Rightarrow> (u32 \<Rightarrow> slab_state \<Rightarrow> (u32 \<times> slab_state) option) \<Rightarrow> u32 \<Rightarrow> u32 \<Rightarrow> slab_state \<Rightarrow> (u32 \<times> slab_state) option" where
  "slab_krealloc memcpy memmap ptr n s = do {
     current \<leftarrow> slab_kmalloc_get_block ptr s;
     if fst current = 0 then Some (NULL, s)
     else let next_block = slab_kmalloc_block_for_size n in
       if fst next_block = fst current then Some (ptr, s)
       else do {
         (next_ptr, s1) \<leftarrow> slab_mem_cache_alloc memmap (snd next_block) s;
         if next_ptr = NULL then Some (NULL, s1)
         else do {
           s2 \<leftarrow> memcpy next_ptr ptr (fst current) s1;
           s3 \<leftarrow> slab_mem_cache_dealloc (snd current) ptr s2;
           Some (next_ptr, s3) } } }"

definition slab_kfree :: "u32 \<Rightarrow> slab_state \<Rightarrow> (bool \<times> slab_state) option" where
  "slab_kfree ptr s = do {
     block \<leftarrow> slab_kmalloc_get_block ptr s;
     if fst block = 0 then Some (False, s)
     else do { s1 \<leftarrow> slab_mem_cache_dealloc (snd block) ptr s; Some (True, s1) } }"

subsection \<open>Allocation agrees with slub.c\<close>

text \<open>What one processor sees of a cache of \<open>slub.c\<close>.\<close>
definition on_cpu :: "nat \<Rightarrow> mem_cache \<Rightarrow> slab_cache" where
  "on_cpu cpu c = \<lparr>sc_name = mc_name c, sc_size = object_size c, sc_min = mc_min c, sc_full = full (cpu_caches c ! cpu),
     sc_semi = semi (cpu_caches c ! cpu), sc_empty = empty (cpu_caches c ! cpu), sc_construct = construct c\<rparr>"

definition seen_by :: "nat \<Rightarrow> slub \<Rightarrow> slab_state" where
  "seen_by cpu s = \<lparr>sb_caches = map (on_cpu cpu) (caches s), sb_mem = smem s\<rparr>"

definition has_cpu :: "nat \<Rightarrow> slub \<Rightarrow> bool" where
  "has_cpu cpu s \<longleftrightarrow> (\<forall>c\<in>set (caches s). cpu < length (cpu_caches c))"

text \<open>The two allocators get the same slabs, although only one asks for an alignment to two pages.\<close>
definition same_memmap :: "nat \<Rightarrow> (u32 \<Rightarrow> slub \<Rightarrow> (u32 \<times> slub) option) \<Rightarrow> (u32 \<Rightarrow> slab_state \<Rightarrow> (u32 \<times> slab_state) option) \<Rightarrow> bool" where
  "same_memmap cpu memmap memmap' \<longleftrightarrow> (\<forall>s. has_cpu cpu s \<longrightarrow> memmap' slab_urgent (seen_by cpu s) = map_option (apsnd (seen_by cpu)) (memmap slab_map_flags s)
     \<and> (\<forall>a s'. memmap slab_map_flags s = Some (a, s') \<longrightarrow> has_cpu cpu s'))"

lemma seen_simps [simp]: "sb_mem (seen_by cpu s) = smem s" "sb_caches (seen_by cpu s) = map (on_cpu cpu) (caches s)"
    "(seen_by cpu s)\<lparr>sb_mem := m\<rparr> = seen_by cpu (s\<lparr>smem := m\<rparr>)" "has_cpu cpu (s\<lparr>smem := m\<rparr>) = has_cpu cpu s"
  by (simp_all add: seen_by_def has_cpu_def)

lemma on_cpu_simps [simp]: "sc_name (on_cpu cpu c) = mc_name c" "sc_size (on_cpu cpu c) = object_size c" "sc_min (on_cpu cpu c) = mc_min c"
    "sc_construct (on_cpu cpu c) = construct c"
  by (simp_all add: on_cpu_def)

lemma find_cache_seen: "slab_find_cache name (map (on_cpu cpu) cs) = find_cache name cs"
  by (induction cs) simp_all

lemma aget_map [simp]: "aget (map f xs) i = map_option f (aget xs i)"
  by (simp add: aget_def)

lemma get_cpu_seen:
  assumes "has_cpu cpu s"
  shows "get_cpu s i cpu = map_option (\<lambda>c. cpu_caches c ! cpu) (aget (caches s) i)"
  using assms by (auto simp: get_cpu_def aget_def has_cpu_def)

lemma set_cpu_seen:
  assumes "has_cpu cpu s" and "aget (caches s) i = Some c"
  shows "\<exists>s'. set_cpu s i cpu v = Some s' \<and> has_cpu cpu s' \<and> set_cache i ((on_cpu cpu c)\<lparr>sc_full := full v, sc_semi := semi v, sc_empty := empty v\<rparr>) (seen_by cpu s) = Some (seen_by cpu s')
    \<and> smem s' = smem s"
proof -
  have i: "i < length (caches s)" "caches s ! i = c" "cpu < length (cpu_caches c)"
    using assms by (auto simp: aget_def has_cpu_def split: if_splits)
  let ?c = "c\<lparr>cpu_caches := (cpu_caches c)[cpu := v]\<rparr>"
  let ?s = "s\<lparr>caches := (caches s)[i := ?c]\<rparr>"
  have "set_cpu s i cpu v = Some ?s" using i assms(2) by (simp add: set_cpu_def aset_def)
  moreover have "on_cpu cpu ?c = (on_cpu cpu c)\<lparr>sc_full := full v, sc_semi := semi v, sc_empty := empty v\<rparr>"
    using i(3) by (simp add: on_cpu_def)
  moreover have "has_cpu cpu ?s" using assms(1) i set_update_subset_insert[of "caches s" i ?c] by (auto simp: has_cpu_def)
  ultimately show ?thesis using i(1) by (intro exI[of _ ?s]) (simp add: set_cache_def aset_def seen_by_def map_update)
qed

lemma slab_new_seen:
  assumes "same_memmap cpu memmap memmap'" and "has_cpu cpu s"
  shows "slab_mem_slab_new memmap' n (seen_by cpu s) = map_option (apsnd (seen_by cpu)) (mem_slab_new memmap n s)"
    and "mem_slab_new memmap n s = Some (p, s') \<Longrightarrow> has_cpu cpu s'"
proof -
  have m: "memmap' slab_urgent (seen_by cpu s) = map_option (apsnd (seen_by cpu)) (memmap slab_map_flags s)" "\<And>a s'. memmap slab_map_flags s = Some (a, s') \<Longrightarrow> has_cpu cpu s'"
    using assms by (auto simp: same_memmap_def)
  show "slab_mem_slab_new memmap' n (seen_by cpu s) = map_option (apsnd (seen_by cpu)) (mem_slab_new memmap n s)"
    unfolding slab_mem_slab_new_def mem_slab_new_def m(1)
    by (cases "memmap slab_map_flags s") (auto simp: free_head_of_def object_count_def sizeof_mem_slab_def Let_def split: bind_splits)
  show "has_cpu cpu s'" if "mem_slab_new memmap n s = Some (p, s')"
    using that m(2) by (auto simp: mem_slab_new_def Let_def split: bind_splits if_splits)
qed

text \<open>The fields of a cache that a step replaces.\<close>
lemma on_cpu_lists: "sc_full (on_cpu cpu c) = full (cpu_caches c ! cpu)" "sc_semi (on_cpu cpu c) = semi (cpu_caches c ! cpu)"
    "sc_empty (on_cpu cpu c) = empty (cpu_caches c ! cpu)"
  by (simp_all add: on_cpu_def)

lemma lists_eq:
  "(on_cpu cpu c)\<lparr>sc_full := full (cpu_caches c ! cpu), sc_semi := a, sc_empty := b\<rparr> = (on_cpu cpu c)\<lparr>sc_empty := b, sc_semi := a\<rparr>"
  "(on_cpu cpu c)\<lparr>sc_full := full (cpu_caches c ! cpu), sc_semi := a, sc_empty := empty (cpu_caches c ! cpu)\<rparr> = (on_cpu cpu c)\<lparr>sc_semi := a\<rparr>"
  "(on_cpu cpu c)\<lparr>sc_full := full (cpu_caches c ! cpu), sc_semi := semi (cpu_caches c ! cpu), sc_empty := b\<rparr> = (on_cpu cpu c)\<lparr>sc_empty := b\<rparr>"
  "(on_cpu cpu c)\<lparr>sc_full := a, sc_semi := b, sc_empty := empty (cpu_caches c ! cpu)\<rparr> = (on_cpu cpu c)\<lparr>sc_semi := b, sc_full := a\<rparr>"
  by (simp_all add: on_cpu_def)

lemma refill_seen:
  assumes "same_memmap cpu memmap memmap'" and h: "has_cpu cpu s"
  shows "slab_refill memmap' i (seen_by cpu s) = map_option (apsnd (seen_by cpu)) (refill memmap cpu i s)
    \<and> (\<forall>b s'. refill memmap cpu i s = Some (b, s') \<longrightarrow> has_cpu cpu s')"
proof (cases "aget (caches s) i")
  case None
  then show ?thesis by (simp add: slab_refill_def refill_def get_cpu_seen[OF h])
next
  case (Some c)
  let ?cc = "cpu_caches c ! cpu"
  note cc = get_cpu_seen[OF h, of i, unfolded Some, simplified]
  consider "semi ?cc \<noteq> NULL" | "semi ?cc = NULL" "empty ?cc = NULL" | "semi ?cc = NULL" "empty ?cc \<noteq> NULL" by blast
  then show ?thesis
  proof cases
    case 1
    then show ?thesis using Some cc h by (simp add: slab_refill_def refill_def on_cpu_lists)
  next
    case 2
    note n = slab_new_seen[OF assms, of "object_size c"]
    show ?thesis
    proof (cases "mem_slab_new memmap (object_size c) s")
      case None
      then show ?thesis using 2 Some cc n(1) by (simp add: slab_refill_def refill_def on_cpu_lists)
    next
      case new: (Some r)
      obtain slab s1 where r: "r = (slab, s1)" by (cases r)
      have h1: "has_cpu cpu s1" using n(2) new r by simp
      show ?thesis
      proof (cases "slab = NULL \<or> aget (caches s1) i = None")
        case True
        then show ?thesis using 2 Some cc n(1) new r h1
          by (auto simp: slab_refill_def refill_def on_cpu_lists get_cpu_seen[OF h1])
      next
        case False
        then obtain c1 where c1: "aget (caches s1) i = Some c1" "slab \<noteq> NULL" by auto
        obtain s2 where "set_cpu s1 i cpu ((cpu_caches c1 ! cpu)\<lparr>semi := slab\<rparr>) = Some s2" "has_cpu cpu s2"
            "set_cache i ((on_cpu cpu c1)\<lparr>sc_semi := slab\<rparr>) (seen_by cpu s1) = Some (seen_by cpu s2)"
          using set_cpu_seen[OF h1 c1(1), of "(cpu_caches c1 ! cpu)\<lparr>semi := slab\<rparr>"] by (auto simp: lists_eq(2))
        then show ?thesis using 2 Some cc n(1) new r c1
          by (simp add: slab_refill_def refill_def on_cpu_lists get_cpu_seen[OF h1])
      qed
    qed
  next
    case 3
    show ?thesis
    proof (cases "smem s (empty ?cc)")
      case None
      then show ?thesis using 3 Some cc by (simp add: slab_refill_def refill_def on_cpu_lists)
    next
      case nxt: (Some nxt)
      let ?m = "(smem s)(empty ?cc \<mapsto> SLAB_CREATE_NEXT NULL (SLAB_COUNT nxt))"
      have w: "wr (smem s) (empty ?cc) (SLAB_CREATE_NEXT NULL (SLAB_COUNT nxt)) = Some ?m" using nxt by (simp add: wr_Some)
      have "has_cpu cpu (s\<lparr>smem := ?m\<rparr>)" "aget (caches (s\<lparr>smem := ?m\<rparr>)) i = Some c" using h Some by simp_all
      from set_cpu_seen[OF this, of "?cc\<lparr>empty := SLAB_NEXT nxt, semi := empty ?cc\<rparr>"]
      obtain s' where "set_cpu (s\<lparr>smem := ?m\<rparr>) i cpu (?cc\<lparr>empty := SLAB_NEXT nxt, semi := empty ?cc\<rparr>) = Some s'" "has_cpu cpu s'"
          "set_cache i ((on_cpu cpu c)\<lparr>sc_empty := SLAB_NEXT nxt, sc_semi := empty ?cc\<rparr>) (seen_by cpu (s\<lparr>smem := ?m\<rparr>)) = Some (seen_by cpu s')"
        by (auto simp: lists_eq(1))
      then show ?thesis using 3 Some cc nxt w by (simp add: slab_refill_def refill_def on_cpu_lists Let_def)
    qed
  qed
qed

lemma take_seen:
  assumes h: "has_cpu cpu s"
  shows "slab_take_object i (seen_by cpu s) = map_option (apsnd (seen_by cpu)) (take_object cpu i s)
    \<and> (\<forall>p s'. take_object cpu i s = Some (p, s') \<longrightarrow> has_cpu cpu s')"
proof (cases "aget (caches s) i")
  case None
  then show ?thesis by (simp add: slab_take_object_def take_object_def get_cpu_seen[OF h])
next
  case (Some c)
  let ?cc = "cpu_caches c ! cpu"
  note cc = get_cpu_seen[OF h, of i, unfolded Some, simplified]
  have eq: "(\<exists>s'. set_cpu (s\<lparr>smem := mm\<rparr>) i cpu (?cc\<lparr>semi := a, full := b\<rparr>) = Some s' \<and> has_cpu cpu s'
      \<and> set_cache i ((on_cpu cpu c)\<lparr>sc_semi := a, sc_full := b\<rparr>) (seen_by cpu (s\<lparr>smem := mm\<rparr>)) = Some (seen_by cpu s'))" for mm a b
    using set_cpu_seen[of cpu "s\<lparr>smem := mm\<rparr>" i c "?cc\<lparr>semi := a, full := b\<rparr>"] h Some by (auto simp: lists_eq(4))
  show ?thesis
  proof (cases "smem s (semi ?cc + 4)")
    case None
    then show ?thesis using Some cc by (simp add: slab_take_object_def take_object_def on_cpu_lists free_head_of_def)
  next
    case obj: (Some p)
    show ?thesis
    proof (cases "smem s p")
      case None
      then show ?thesis using Some cc obj by (simp add: slab_take_object_def take_object_def on_cpu_lists free_head_of_def)
    next
      case nxt: (Some q)
      let ?m1 = "(smem s)(semi ?cc + 4 \<mapsto> q)"
      have w: "wr (smem s) (semi ?cc + 4) q = Some ?m1" using obj by (simp add: wr_Some)
      show ?thesis
      proof (cases "q = NULL \<and> ?m1 (semi ?cc) \<noteq> None")
        case False
        then show ?thesis using Some cc obj nxt w h
          by (auto simp: slab_take_object_def take_object_def on_cpu_lists free_head_of_def Let_def)
      next
        case True
        then obtain hd where hd: "?m1 (semi ?cc) = Some hd" by auto
        let ?m2 = "?m1(semi ?cc \<mapsto> SLAB_CREATE_NEXT (full ?cc) (SLAB_COUNT hd))"
        have w2: "wr ?m1 (semi ?cc) (SLAB_CREATE_NEXT (full ?cc) (SLAB_COUNT hd)) = Some ?m2" using hd by (intro wr_Some) auto
        from eq[where mm = ?m2 and a = "SLAB_NEXT hd" and b = "semi ?cc"] obtain s' where
          "set_cpu (s\<lparr>smem := ?m2\<rparr>) i cpu (?cc\<lparr>semi := SLAB_NEXT hd, full := semi ?cc\<rparr>) = Some s'" "has_cpu cpu s'"
          "set_cache i ((on_cpu cpu c)\<lparr>sc_semi := SLAB_NEXT hd, sc_full := semi ?cc\<rparr>) (seen_by cpu (s\<lparr>smem := ?m2\<rparr>)) = Some (seen_by cpu s')"
          by blast
        with True Some cc obj nxt w w2 hd show ?thesis
          by (simp add: slab_take_object_def take_object_def on_cpu_lists free_head_of_def Let_def del: fun_upd_apply)
      qed
    qed
  qed
qed

lemma keep_seen:
  assumes "same_memmap cpu memmap memmap'" and h: "has_cpu cpu s"
  shows "slab_keep_minimum memmap' i (seen_by cpu s) = map_option (seen_by cpu) (keep_minimum memmap cpu i s)"
proof (cases "aget (caches s) i")
  case None
  then show ?thesis by (simp add: slab_keep_minimum_def keep_minimum_def)
next
  case (Some c)
  let ?cc = "cpu_caches c ! cpu"
  note cc = get_cpu_seen[OF h, of i, unfolded Some, simplified]
  have fc: "slab_mem_cache_free_count (smem s) (on_cpu cpu c) = mem_cache_free_count (smem s) ?cc"
    by (simp add: slab_mem_cache_free_count_def mem_cache_free_count_def on_cpu_lists)
  note n = slab_new_seen[OF assms, of "object_size c"]
  show ?thesis
  proof (cases "\<exists>k. mc_min c > 0 \<and> mem_cache_free_count (smem s) ?cc = Some k \<and> k < mc_min c \<and> mem_slab_new memmap (object_size c) s \<noteq> None")
    case False
    then show ?thesis using Some cc fc n(1)
      by (cases "mem_cache_free_count (smem s) ?cc"; cases "mem_slab_new memmap (object_size c) s") (auto simp: slab_keep_minimum_def keep_minimum_def)
  next
    case True
    then obtain k slab s1 where k: "mc_min c > 0" "mem_cache_free_count (smem s) ?cc = Some k" "k < mc_min c"
      and new: "mem_slab_new memmap (object_size c) s = Some (slab, s1)" by auto
    have h1: "has_cpu cpu s1" using n(2)[OF new] .
    have n1: "slab_mem_slab_new memmap' (object_size c) (seen_by cpu s) = Some (slab, seen_by cpu s1)" using n(1) new by simp
    note st = slab_keep_minimum_def keep_minimum_def
    show ?thesis
    proof (cases "slab = NULL \<or> aget (caches s1) i = None \<or> smem s1 slab = None")
      case True
      then show ?thesis using Some cc fc k new n1 by (auto simp: st get_cpu_seen[OF h1])
    next
      case False
      then obtain c1 hd where c1: "aget (caches s1) i = Some c1" "slab \<noteq> NULL" "smem s1 slab = Some hd" by auto
      let ?m = "(smem s1)(slab \<mapsto> SLAB_CREATE_NEXT (empty (cpu_caches c1 ! cpu)) (SLAB_COUNT hd))"
      have w: "wr (smem s1) slab (SLAB_CREATE_NEXT (empty (cpu_caches c1 ! cpu)) (SLAB_COUNT hd)) = Some ?m" using c1(3) by (simp add: wr_Some)
      have "has_cpu cpu (s1\<lparr>smem := ?m\<rparr>)" "aget (caches (s1\<lparr>smem := ?m\<rparr>)) i = Some c1" using h1 c1 by simp_all
      from set_cpu_seen[OF this, of "(cpu_caches c1 ! cpu)\<lparr>empty := slab\<rparr>"] show ?thesis
        using Some cc fc k new n1 c1 w by (auto simp: st get_cpu_seen[OF h1] on_cpu_lists lists_eq(3))
    qed
  qed
qed

text \<open>C27: \<open>mem_cache_alloc\<close> of \<open>slab.c\<close> computes what \<open>mem_cache_alloc\<close> of \<open>slub.c\<close> computes, as one processor sees it: for any
  caches and slabs, with and without a free object, a constructor or a minimum, the same object is returned and the same
  lists and memory are left. The two files ask \<open>memmap\<close> for slabs with different flags (\<open>slub.c\<close> for an address that is a multiple
  of two pages, \<open>slab.c\<close> for any); the claim is about slabs that both requests answer alike (\<open>same_memmap\<close>).\<close>
theorem slab_alloc_agrees:
  assumes "same_memmap cpu memmap memmap'" and "has_cpu cpu s"
  shows "slab_mem_cache_alloc memmap' name (seen_by cpu s) = map_option (apsnd (seen_by cpu)) (mem_cache_alloc memmap cpu name s)"
proof (cases "find_cache name (caches s)")
  case None
  then show ?thesis by (simp add: slab_mem_cache_alloc_def mem_cache_alloc_def find_cache_seen)
next
  case (Some i)
  note r = refill_seen[OF assms, of i]
  note d = slab_mem_cache_alloc_def mem_cache_alloc_def find_cache_seen
  show ?thesis
  proof (cases "refill memmap cpu i s")
    case None
    then show ?thesis using Some r by (simp add: d)
  next
    case ref: (Some x)
    obtain ok s1 where x: "x = (ok, s1)" by (cases x)
    have h1: "has_cpu cpu s1" using r ref x by blast
    note t = take_seen[OF h1, of i]
    show ?thesis
    proof (cases "ok \<and> take_object cpu i s1 \<noteq> None")
      case False
      then show ?thesis using Some r ref x t by (cases "take_object cpu i s1") (auto simp: d)
    next
      case True
      then obtain p s2 where p: "take_object cpu i s1 = Some (p, s2)" by auto
      have h2: "has_cpu cpu s2" using t p by blast
      have k: "slab_keep_minimum memmap' i (seen_by cpu (s2\<lparr>smem := m\<rparr>)) = map_option (seen_by cpu) (keep_minimum memmap cpu i (s2\<lparr>smem := m\<rparr>))" for m
        using h2 by (intro keep_seen[OF assms(1)]) simp
      show ?thesis
      proof (cases "aget (caches s2) i")
        case None
        then show ?thesis using Some r ref x t p True by (simp add: d)
      next
        case c: (Some c)
        have s2: "s2\<lparr>smem := smem s2\<rparr> = s2" by simp
        show ?thesis
        proof (cases "construct c")
          case None
          then show ?thesis using Some r ref x t p True c k[of "smem s2"] by (cases "keep_minimum memmap cpu i s2") (simp_all add: d)
        next
          case f: (Some f)
          show ?thesis
          proof (cases "f p (smem s2)")
            case None
            then show ?thesis using Some r ref x t p True c f by (simp add: d)
          next
            case m: (Some m)
            then show ?thesis using Some r ref x t p True c f k[of m]
              by (cases "keep_minimum memmap cpu i (s2\<lparr>smem := m\<rparr>)") (simp_all add: d)
          qed
        qed
      qed
    qed
  qed
qed

text \<open>A cache of objects of 16 bytes on two processors, whose first slab comes from \<open>memmap\<close>.\<close>
definition two_cpus :: slub where
  "two_cpus = \<lparr>caches = [\<lparr>mc_name = ''kmalloc16'', object_size = 16, mc_min = 0,
     cpu_caches = replicate 2 \<lparr>full = NULL, semi = NULL, empty = NULL\<rparr>, construct = None\<rparr>], smem = \<lambda>p. Some 0\<rparr>"

theorem slab_alloc_agrees_witness:
  "slab_mem_cache_alloc (\<lambda>fl s. Some (0x4000, s)) ''kmalloc16'' (seen_by 1 two_cpus)
    = map_option (apsnd (seen_by 1)) (mem_cache_alloc (\<lambda>fl s. Some (0x4000, s)) 1 ''kmalloc16'' two_cpus)"
  by (rule slab_alloc_agrees) (simp_all add: same_memmap_def has_cpu_def two_cpus_def)

subsection \<open>Freeing ties the free list into a circle\<close>

text \<open>The links of \<open>S\<close> stay in \<open>S\<close>, which has no end.\<close>
definition circle :: "cells \<Rightarrow> u32 set \<Rightarrow> bool" where
  "circle m S \<longleftrightarrow> NULL \<notin> S \<and> (\<forall>p\<in>S. nxt_of m p \<in> S)"

lemma circle_next: "circle m S \<Longrightarrow> p \<in> S \<Longrightarrow> m p = Some x \<Longrightarrow> p \<noteq> NULL \<and> x \<in> S"
  by (force simp: circle_def nxt_of_def)

lemma circle_free_count:
  assumes "circle m S" and "p \<in> S"
  shows "free_count_loop m p k = None"
proof -
  have "\<forall>S. circle m S \<longrightarrow> p \<in> S \<longrightarrow> False" if "free_count_loop m p k = Some r" for r
  proof (rule free_count_loop.raw_induct[where P = "\<lambda>m p k r. \<forall>S. circle m S \<longrightarrow> p \<in> S \<longrightarrow> False", OF _ that])
    fix loop and m :: cells and p k r :: u32
    assume ih: "\<And>m p k r. loop m p k = Some r \<Longrightarrow> \<forall>S. circle m S \<longrightarrow> p \<in> S \<longrightarrow> False"
      and eq: "(if p = NULL then Some k else m p \<bind> (\<lambda>nxt. loop m nxt (k + 1))) = Some r"
    show "\<forall>S. circle m S \<longrightarrow> p \<in> S \<longrightarrow> False"
    proof (intro allI impI)
      fix S assume c: "circle m S" "p \<in> S"
      then have "p \<noteq> NULL" by (auto simp: circle_def)
      with eq obtain x where x: "m p = Some x" "loop m x (k + 1) = Some r" by (auto split: bind_splits)
      with circle_next[OF c x(1)] ih[OF x(2)] c(1) show False by blast
    qed
  qed
  with assms show ?thesis by (cases "free_count_loop m p k") auto
qed

lemma circle_insert:
  assumes "circle m S" and "object \<noteq> NULL" and "free_obj \<in> S" and "m q \<noteq> None"
  shows "circle (m(q \<mapsto> object, object \<mapsto> free_obj)) (insert object S)"
  using assms by (auto simp: circle_def nxt_of_def)

lemma circle_dealloc:
  assumes "circle m S" and "p \<in> S"
  shows "slab_dealloc_loop m slab object prev p k = None"
proof -
  let ?P = "\<lambda>m slab (object :: u32) (prev :: u32) p (k :: u32) (r :: cells \<times> u32 \<times> u32 \<times> u32). \<forall>S. circle m S \<longrightarrow> p \<in> S \<longrightarrow> False"
  have "\<forall>S. circle m S \<longrightarrow> p \<in> S \<longrightarrow> False" if "slab_dealloc_loop m slab object prev p k = Some r" for r
  proof (rule slab_dealloc_loop.raw_induct[where P = ?P, OF _ that])
    fix loop and m :: cells and slab object prev p k :: u32 and r :: "cells \<times> u32 \<times> u32 \<times> u32"
    assume ih: "\<And>m slab object prev p k r. loop m slab object prev p k = Some r \<Longrightarrow> \<forall>S. circle m S \<longrightarrow> p \<in> S \<longrightarrow> False"
      and eq: "(if p = NULL then Some (m, object, prev, k)
        else (if object \<noteq> NULL \<and> object > p
              then (if prev \<noteq> NULL then wr m prev object else wr m (slab + 4) object) \<bind> (\<lambda>m1. wr m1 object p \<bind> (\<lambda>m2. Some (m2, NULL)))
              else Some (m, object)) \<bind> (\<lambda>(m', object'). m' p \<bind> (\<lambda>nxt. loop m' slab object' p nxt (k + 1)))) = Some r"
    show "\<forall>S. circle m S \<longrightarrow> p \<in> S \<longrightarrow> False"
    proof (intro allI impI)
      fix S assume c: "circle m S" "p \<in> S"
      then have p: "p \<noteq> NULL" by (auto simp: circle_def)
      show False
      proof (cases "object \<noteq> NULL \<and> object > p")
        case True
        let ?w = "if prev \<noteq> NULL then prev else slab + 4"
        let ?m = "m(?w \<mapsto> object, object \<mapsto> p)"
        from eq p True obtain x where w: "m ?w \<noteq> None" "?m p = Some x" "loop ?m slab NULL p x (k + 1) = Some r"
          by (auto simp: wr_Some_iff split: bind_splits if_splits)
        have ci: "circle ?m (insert object S)" using c True by (intro circle_insert w(1)) auto
        from circle_next[OF ci _ w(2)] c(2) ih[OF w(3)] ci show False by blast
      next
        case False
        with eq p obtain x where x: "m p = Some x" "loop m slab object p x (k + 1) = Some r"
          by (auto split: bind_splits if_splits)
        with circle_next[OF c x(1)] ih[OF x(2)] c(1) show False by blast
      qed
    qed
  qed
  with assms show ?thesis by (cases "slab_dealloc_loop m slab object prev p k") auto
qed

lemma clist_next_in: "clist nxt p xs \<Longrightarrow> z \<in> set xs \<Longrightarrow> z \<noteq> last xs \<Longrightarrow> nxt z \<in> set xs"
proof (induction xs arbitrary: p)
  case (Cons a xs)
  then show ?case by (cases xs) (auto split: if_splits)
qed simp

lemma slab_alloc_pop:
  assumes "slab_find_cache name (sb_caches s) = Some i" and "aget (sb_caches s) i = Some c"
    and "sc_min c = 0" and "sc_construct c = None" and "sc_semi c \<noteq> NULL" and "slab_free (sb_mem s) (sc_semi c) (x # y # ys)"
  shows "slab_mem_cache_alloc memmap name s = Some (x, s\<lparr>sb_mem := (sb_mem s)(sc_semi c + 4 \<mapsto> y)\<rparr>)"
proof -
  have x: "sb_mem s (sc_semi c + 4) = Some x" "sb_mem s x = Some y" "y \<noteq> NULL"
    using slab_free_Cons[OF assms(6)] by auto
  then have "slab_take_object i s = Some (x, s\<lparr>sb_mem := (sb_mem s)(sc_semi c + 4 \<mapsto> y)\<rparr>)"
    using assms(2) by (simp add: slab_take_object_def wr_Some)
  with assms(1-5) show ?thesis by (simp add: slab_mem_cache_alloc_def slab_refill_def slab_keep_minimum_def)
qed

lemma slab_dealloc_skip:
  assumes "clist (nxt_of m) p ys" and "\<forall>y\<in>set ys. m y \<noteq> None" and "\<forall>y\<in>set ys. \<not> x > y"
  shows "\<exists>k'. slab_dealloc_loop m slab x prev p k = Some (m, x, last (prev # ys), k')"
  using assms
proof (induction ys arbitrary: p prev k)
  case Nil
  then show ?case by (simp add: slab_dealloc_loop.simps)
next
  case (Cons y ys)
  then have "p = y" "y \<noteq> NULL" "m y = Some (nxt_of m y)" by (auto intro: nxt_of_cell)
  with Cons show ?case by (subst slab_dealloc_loop.simps) simp
qed

text \<open>With \<open>slab.c\<close>, allocating the lowest object of a slab and freeing it again ties the slab's free list into a circle:
  the object is linked behind the last free one and still points to the first. Counting the free objects of the slab
  and freeing any other object of its first page never return.\<close>
lemma slab_dealloc_circle:
  assumes "slab_find_cache name (sb_caches s) = Some i" and "aget (sb_caches s) i = Some c"
    and "sc_min c = 0" and "sc_construct c = None" and "sc_semi c \<noteq> NULL" and "slab_free (sb_mem s) (sc_semi c) (x # y # ys)"
    and "\<forall>z\<in>set (y # ys). x < z" and "x AND NOT 4095 = sc_semi c"
  shows "\<exists>s'. (do { (p, s1) \<leftarrow> slab_mem_cache_alloc memmap name s; slab_mem_cache_dealloc name p s1 }) = Some s'
    \<and> slab_mem_slab_free_count (sb_mem s') (sc_semi c) = None
    \<and> (\<forall>z. z AND NOT 4095 = sc_semi c \<longrightarrow> slab_mem_cache_dealloc name z s' = None)"
proof -
  let ?slab = "sc_semi c" and ?m = "(sb_mem s)(sc_semi c + 4 \<mapsto> y)" and ?l = "last (y # ys)"
  let ?m' = "?m(?l \<mapsto> x)" and ?S = "set (x # y # ys)"
  let ?s' = "s\<lparr>sb_mem := ?m'\<rparr>"
  have cl: "clist (nxt_of (sb_mem s)) x (x # y # ys)" and sl: "?slab + 4 \<notin> ?S" "?slab \<notin> ?S" "sb_mem s ?slab \<noteq> None"
    and mp: "\<forall>z\<in>?S. sb_mem s z \<noteq> None"
    using assms(6) slab_free_Cons[OF assms(6)] by (auto simp: slab_free_def)
  have x: "sb_mem s x = Some y" using slab_free_Cons[OF assms(6)] by auto
  have nx: "nxt_of ?m z = nxt_of (sb_mem s) z" if "z \<in> ?S" for z using that sl by (auto simp: nxt_of_def)
  have "clist (nxt_of ?m) y (y # ys)"
    using cl path_cong[of "y # ys" "nxt_of (sb_mem s)" "nxt_of ?m"] nx by (auto simp: nxt_of_upd)
  moreover have "\<forall>z\<in>set (y # ys). ?m z \<noteq> None" using mp by simp
  moreover have "\<forall>z\<in>set (y # ys). \<not> x > z" using assms(7) by auto
  ultimately obtain k where k: "slab_dealloc_loop ?m ?slab x NULL y 1 = Some (?m, x, ?l, k)"
    using slab_dealloc_skip[of ?m y "y # ys" x ?slab NULL 1] by (auto simp del: fun_upd_apply)
  have l: "?l \<in> set (y # ys)" "?l \<noteq> ?slab + 4" "?m ?l \<noteq> None" using sl mp last_in_set[of "y # ys"] by auto
  obtain hw where hw: "sb_mem s ?slab = Some hw" using sl(3) by blast
  have hd: "?m ?slab = Some hw" "?m' ?slab = Some hw" using hw l(1) sl(2) by auto
  have xn: "x \<noteq> NULL" using cl by simp
  have run: "slab_mem_cache_dealloc name x (s\<lparr>sb_mem := ?m\<rparr>) = Some ?s'"
    using assms(1,8) k hd(1) xn l(3) by (simp add: slab_mem_cache_dealloc_def wr_Some Let_def)
  have dist: "distinct (x # y # ys)" using cl by (rule clist_distinct)
  have circ: "circle ?m' ?S"
    unfolding circle_def
  proof (intro conjI ballI)
    show "NULL \<notin> ?S" using cl path_nonnull by metis
    fix z assume z: "z \<in> ?S"
    show "nxt_of ?m' z \<in> ?S"
    proof (cases "z = ?l")
      case False
      then have "nxt_of ?m' z = nxt_of (sb_mem s) z" using nx[OF z] by (simp add: nxt_of_def)
      also have "\<dots> \<in> ?S" using clist_next_in[OF cl z] False by simp
      finally show ?thesis .
    qed (simp add: nxt_of_def)
  qed
  have fh: "?m' (?slab + 4) = Some y" using l(2) by auto
  have "slab_mem_slab_free_count (sb_mem ?s') ?slab = None"
    using fh circle_free_count[OF circ, of y] by (simp add: slab_mem_slab_free_count_def)
  moreover have "slab_mem_cache_dealloc name z ?s' = None" if "z AND NOT 4095 = ?slab" for z
    using that fh assms(1) hd(2) circle_dealloc[OF circ, of y] by (simp add: slab_mem_cache_dealloc_def Let_def)
  ultimately show ?thesis
    using slab_alloc_pop[OF assms(1-6), of memmap] run by (intro exI[of _ ?s']) simp
qed

text \<open>A slab at 0x2000 of 16-byte objects with three free ones.\<close>
definition sample_slab :: slab_state where
  "sample_slab = \<lparr>sb_caches = [\<lparr>sc_name = ''kmalloc16'', sc_size = 16, sc_min = 0, sc_full = NULL, sc_semi = 0x2000, sc_empty = NULL,
     sc_construct = None\<rparr>], sb_mem = [0x2000 \<mapsto> 511, 0x2004 \<mapsto> 0x2008, 0x2008 \<mapsto> 0x2018, 0x2018 \<mapsto> 0x2028, 0x2028 \<mapsto> 0]\<rparr>"

lemma slab_dealloc_circle_witness:
  "\<exists>s'. (do { (p, s1) \<leftarrow> slab_mem_cache_alloc (\<lambda>fl s. None) ''kmalloc16'' sample_slab; slab_mem_cache_dealloc ''kmalloc16'' p s1 }) = Some s'
    \<and> slab_mem_slab_free_count (sb_mem s') (sc_semi (hd (sb_caches sample_slab))) = None
    \<and> (\<forall>z. z AND NOT 4095 = sc_semi (hd (sb_caches sample_slab)) \<longrightarrow> slab_mem_cache_dealloc ''kmalloc16'' z s' = None)"
  by (rule slab_dealloc_circle[where i = 0 and x = "0x2008" and y = "0x2018" and ys = "[0x2028]"])
    (simp_all add: sample_slab_def slab_free_def nxt_of_def aget_def)

end
