(* ===== verification/Report.thy ===== *)
theory Report
  imports Memmap Tasks Ps2
begin

text \<open>
  What the kernel prints of its own state: the exception handler of \<open>src/src/arch/i386/interrupts/exception.c\<close> with its stack
  trace, and the functions that list the page tables, the free frames, the address space, the boot loader's memory map, the
  segment descriptors and a transmit descriptor. They read the component's state and write to the console. \<open>rd\<close> reads a word
  of memory; \<open>None\<close> is a fault.
\<close>

text \<open>A format without a line break.\<close>
definition raw_fmt :: "string \<Rightarrow> u8 list" where
  "raw_fmt txt = map of_char txt @ [0]"

definition say :: "device \<Rightarrow> string \<Rightarrow> karg list \<Rightarrow> console \<Rightarrow> console option" where
  "say dev txt args c = kprintf dev (raw_fmt txt) args c"

text \<open>A format of several lines.\<close>
definition say_lines :: "device \<Rightarrow> string list \<Rightarrow> karg list \<Rightarrow> console \<Rightarrow> console option" where
  "say_lines dev ls args c = kprintf dev (concat (map (\<lambda>t. map of_char t @ [10]) ls) @ [0]) args c"

definition say_line :: "device \<Rightarrow> string \<Rightarrow> karg list \<Rightarrow> console \<Rightarrow> console option" where
  "say_line dev txt args c = kprintf dev (line_fmt txt) args c"

subsection \<open>Exceptions\<close>

record exc_regs =
  x_gs :: u32
  x_fs :: u32
  x_es :: u32
  x_ds :: u32
  x_edi :: u32
  x_esi :: u32
  x_ebp :: u32
  x_esp :: u32
  x_ebx :: u32
  x_edx :: u32
  x_ecx :: u32
  x_eax :: u32
  x_error_code :: u32

definition exception_strs :: "string list" where
  "exception_strs = [''dividing by zero'', ''debug'', ''non maskable interrupt'', ''breakpoint'', ''into detected overflow'',
     ''out of bounds'', ''invalid opcode'', ''no coprocessor'', ''double fault'', ''coprocessor segment overrun'', ''bad tss'',
     ''segment not present'', ''stack fault'', ''general protection fault'', ''page fault'', ''unknown interrupt'',
     ''coprocessor fault'', ''alignment check'', ''machine check'']"

text \<open>The loop over \<open>frames\<close> stack frames.\<close>
fun trace_loop :: "device \<Rightarrow> (u32 \<Rightarrow> u32 option) \<Rightarrow> nat \<Rightarrow> u32 \<Rightarrow> console \<Rightarrow> console option" where
  "trace_loop dev rd 0 ebp c = Some c"
| "trace_loop dev rd (Suc frames) ebp c =
     (if ebp = NULL then Some c
      else do {
        eip \<leftarrow> rd (ebp + 4);
        if eip = 0 then Some c
        else do {
          c1 \<leftarrow> say_line dev ''0x%p:0x%p'' [Word eip, Word ebp] c;
          nxt \<leftarrow> rd ebp;
          trace_loop dev rd frames nxt c1 } })"

definition exception_trace :: "device \<Rightarrow> (u32 \<Rightarrow> u32 option) \<Rightarrow> u32 \<Rightarrow> nat \<Rightarrow> console \<Rightarrow> console option" where
  "exception_trace dev rd ebp frames c = do {
     c1 \<leftarrow> say_line dev ''stack trace (from %p):'' [Word ebp] c;
     trace_loop dev rd frames ebp c1 }"

text \<open>What is printed before the processor is halted. \<open>name\<close> is the current task's name, if there is a task, and \<open>cpu\<close> the
  result of \<open>lapic_get_id\<close>. The string of exception 19 is beyond the array.\<close>
definition exception_handle :: "device \<Rightarrow> (u32 \<Rightarrow> exc_regs option) \<Rightarrow> (u32 \<Rightarrow> u32 option) \<Rightarrow> u8 list option \<Rightarrow> u32 \<Rightarrow> u32
    \<Rightarrow> console \<Rightarrow> console option" where
  "exception_handle dev regs rd name cpu frame c = do {
     r \<leftarrow> regs frame;
     let error = x_error_code r;
     let task_name = (case name of None \<Rightarrow> raw_fmt ''unknown task'' | Some n \<Rightarrow> n);
     c1 \<leftarrow> (if error > 19 then say_line dev ''exceptions: %s threw invalid (%p) @ %p'' [Str task_name, Word error, Word frame] c
           else do {
             txt \<leftarrow> aget exception_strs (unat error);
             say_line dev ''exceptions: %s threw %s (%p) @ %p'' [Str task_name, Str (raw_fmt txt), Word error, Word frame] c });
     c2 \<leftarrow> say_line dev ''cpu %d'' [Word cpu] c1;
     if frame \<noteq> NULL then do {
       c3 \<leftarrow> say_lines dev [''eax %p ebx %p ecx %p edx %p'', ''esi %p edi %p'', ''ebp %p esp %p'', ''gs %p fs %p es %p ds %p'']
             (map Word [x_eax r, x_ebx r, x_ecx r, x_edx r, x_esi r, x_edi r, x_ebp r, x_esp r, x_gs r, x_fs r, x_es r, x_ds r]) c2;
       exception_trace dev rd (x_ebp r) 10 c3 }
     else Some c2 }"

subsection \<open>Page tables\<close>

definition say_if :: "device \<Rightarrow> bool \<Rightarrow> string \<Rightarrow> console \<Rightarrow> console option" where
  "say_if dev b txt c = (if b then say dev txt [] c else Some c)"

text \<open>\<open>PAGE_PRESENT\<close> to \<open>PAGE_GLOBAL\<close> of \<open>paging.h\<close>.\<close>
definition paging_print_page :: "device \<Rightarrow> u32 \<Rightarrow> console \<Rightarrow> console option" where
  "paging_print_page dev dir c = do {
     c1 \<leftarrow> say_if dev (bit dir 0) ''pres '' c;
     c2 \<leftarrow> say_if dev (bit dir 1) ''rw '' c1;
     c3 \<leftarrow> say_if dev (bit dir 2) ''user '' c2;
     c4 \<leftarrow> say_if dev (bit dir 3) ''writethrough '' c3;
     c5 \<leftarrow> say_if dev (bit dir 4) ''cached '' c4;
     c6 \<leftarrow> say_if dev (bit dir 5) ''accessed '' c5;
     c7 \<leftarrow> say_if dev (bit dir 7) ''pse '' c6;
     say_if dev (bit dir 8) ''global '' c7 }"

fun print_tables :: "device \<Rightarrow> 'a paging_scheme \<Rightarrow> u32 \<Rightarrow> nat \<Rightarrow> nat \<Rightarrow> console \<Rightarrow> console option" where
  "print_tables dev s dir_ent i 0 c = Some c"
| "print_tables dev s dir_ent i (Suc n) c = do {
     addr \<leftarrow> vload (tab_slot dir_ent (of_nat i)) s;
     c1 \<leftarrow> (if addr = 0 \<or> addr AND 1 = 0 then Some c
           else do {
             c1 \<leftarrow> say dev ''  page table %d: '' [Word (of_nat i)] c;
             c2 \<leftarrow> paging_print_page dev addr c1;
             let a = addr AND NOT 0xFFF;
             say_line dev ''range: [0x%p, 0x%p]'' [Word a, Word (a + 0x1000)] c2 });
     print_tables dev s dir_ent (Suc i) n c1 }"

fun print_dirs :: "device \<Rightarrow> 'a paging_scheme \<Rightarrow> nat \<Rightarrow> nat \<Rightarrow> console \<Rightarrow> console option" where
  "print_dirs dev s i 0 c = Some c"
| "print_dirs dev s i (Suc n) c = do {
     dir \<leftarrow> vload (dir_slot (of_nat i)) s;
     c1 \<leftarrow> (if dir = 0 then Some c
           else do {
             c1 \<leftarrow> say dev ''page dir %d: '' [Word (of_nat i)] c;
             c2 \<leftarrow> paging_print_page dev dir c1;
             let address = dir AND NOT 0xFFF;
             if bit dir 7 then do {
               c3 \<leftarrow> say dev ''range: [0x%p, 0x%p]'' [Word address, Word (address + 0x100000)] c2;
               say_line dev '''' [] c3 }
             else do { c3 \<leftarrow> say_line dev '''' [] c2; print_tables dev s (of_nat i) 0 1024 c3 } });
     print_dirs dev s (Suc i) n c1 }"

definition paging_print :: "device \<Rightarrow> 'a paging_scheme \<Rightarrow> console \<Rightarrow> console option" where
  "paging_print dev s c = do {
     c1 \<leftarrow> say_lines dev ['''', ''== page mapping ==''] [] c;
     c2 \<leftarrow> print_dirs dev s 0 1023 c1;
     c3 \<leftarrow> say_line dev ''page dir 1023 recursive directory'' [] c2;
     say_lines dev [''== page mapping =='', ''''] [] c3 }"

subsection \<open>Allocators and the memory map\<close>

fun frame_status_loop :: "device \<Rightarrow> u32 list \<Rightarrow> nat \<Rightarrow> nat \<Rightarrow> console \<Rightarrow> console option" where
  "frame_status_loop dev ls i 0 c = Some c"
| "frame_status_loop dev ls i (Suc n) c = do {
     head \<leftarrow> aget ls i;
     c1 \<leftarrow> say dev ''Budy Size %d: '' [Word (of_nat i)] c;
     c2 \<leftarrow> say_line dev (if head \<noteq> 0 then ''full'' else ''empty'') [] c1;
     frame_status_loop dev ls (Suc i) n c2 }"

definition frame_status :: "device \<Rightarrow> frame \<Rightarrow> console \<Rightarrow> console option" where
  "frame_status dev s c = frame_status_loop dev (free_lists s) 0 MAX_FRAMES c"

partial_function (option) print_chunks :: "device \<Rightarrow> vasa \<Rightarrow> u32 \<Rightarrow> console \<Rightarrow> console option" where
  "print_chunks dev s head c =
     (if head = NULL then Some c
      else do {
        b \<leftarrow> vn_base s head;
        l \<leftarrow> vn_length s head;
        c1 \<leftarrow> say_line dev '' %p (%d)'' [Word b, Word l] c;
        nxt \<leftarrow> vn_next s head;
        print_chunks dev s nxt c1 })"

definition print_list :: "device \<Rightarrow> vasa \<Rightarrow> string \<Rightarrow> u32 \<Rightarrow> console \<Rightarrow> console option" where
  "print_list dev s title head c = do {
     c1 \<leftarrow> say dev title [] c;
     if head \<noteq> NULL then do { c2 \<leftarrow> say_line dev '''' [] c1; print_chunks dev s head c2 }
     else say_line dev '' empty'' [] c1 }"

definition vasa_print_state :: "device \<Rightarrow> vasa \<Rightarrow> console \<Rightarrow> console option" where
  "vasa_print_state dev s c = do {
     c1 \<leftarrow> print_list dev s ''free list:'' (free_head s) c;
     print_list dev s ''used list: '' (used_head s) c1 }"

definition MEM_TYPE :: "u32 \<Rightarrow> string" where
  "MEM_TYPE x = (if x = 1 then ''AVAILABLE'' else ''RESERVED'')"

partial_function (option) print_entries :: "device \<Rightarrow> (u32 \<Rightarrow> u32 option) \<Rightarrow> u32 \<Rightarrow> u32 \<Rightarrow> console \<Rightarrow> console option" where
  "print_entries dev rd base base_end c =
     (if base < base_end then do {
        addr \<leftarrow> rd (base + offsetof multiboot_mmap_entry_layout ''addr_low'');
        len \<leftarrow> rd (base + offsetof multiboot_mmap_entry_layout ''len_low'');
        ty \<leftarrow> rd (base + offsetof multiboot_mmap_entry_layout ''type'');
        c1 \<leftarrow> say_line dev ''%x | %x | %s (%m)'' [Word addr, Word (addr + len - 1), Str (raw_fmt (MEM_TYPE ty)), Word len] c;
        sz \<leftarrow> rd base;
        print_entries dev rd (base + (sz + 4)) base_end c1 }
      else Some c)"

definition print_mem_map :: "device \<Rightarrow> (u32 \<Rightarrow> u32 option) \<Rightarrow> u32 \<Rightarrow> u32 \<Rightarrow> console \<Rightarrow> console option" where
  "print_mem_map dev rd kernel_base multiboot c = do {
     mmap_addr \<leftarrow> rd (multiboot + offsetof multiboot_info_layout ''mmap_addr'');
     mmap_length \<leftarrow> rd (multiboot + offsetof multiboot_info_layout ''mmap_length'');
     let base = mmap_addr + kernel_base;
     c1 \<leftarrow> say_line dev ''== GRUB Memory Map =='' [] c;
     c2 \<leftarrow> say_line dev ''range: [%x, %x]'' [Word base, Word (base + mmap_length)] c1;
     c3 \<leftarrow> say_line dev ''Start  End   Type'' [] c2;
     print_entries dev rd base (base + mmap_length) c3 }"

subsection \<open>A table that is only reported\<close>

definition acpi_parse_hpet :: "device \<Rightarrow> mem \<Rightarrow> u32 \<Rightarrow> console \<Rightarrow> console option" where
  "acpi_parse_hpet dev m hpet c = do {
     number \<leftarrow> m (hpet + offsetof acpi_hpet_layout ''number'');
     say_line dev ''acpi: hpet #%d'' [Word (ucast number)] c }"

subsection \<open>Descriptors\<close>

text \<open>The base of an entry: \<open>base_low\<close> at offset 2, \<open>base_middle\<close> at 4, \<open>base_high\<close> at 7; \<open>entries\<close> is not aligned in \<open>our_gdt\<close>.\<close>
definition gdt_base :: "u32 \<Rightarrow> u32 \<Rightarrow> u32" where
  "gdt_base w0 w1 = push_bit 24 (drop_bit 24 w1) OR push_bit 16 (w1 AND 0xFF) OR drop_bit 16 w0"

fun gdt_loop :: "device \<Rightarrow> (u32 \<Rightarrow> u32 option) \<Rightarrow> u32 \<Rightarrow> nat \<Rightarrow> nat \<Rightarrow> console \<Rightarrow> console option" where
  "gdt_loop dev rd entries i 0 c = Some c"
| "gdt_loop dev rd entries i (Suc n) c = do {
     w0 \<leftarrow> rd (entries + 8 * of_nat i);
     w1 \<leftarrow> rd (entries + 8 * of_nat i + 4);
     c1 \<leftarrow> say_line dev ''gdt[0x%x]: %p'' [Word (of_nat i * 8), Word (gdt_base w0 w1)] c;
     gdt_loop dev rd entries (Suc i) n c1 }"

definition gdt_print :: "device \<Rightarrow> (u32 \<Rightarrow> u32 option) \<Rightarrow> u16 \<Rightarrow> u32 \<Rightarrow> console \<Rightarrow> console option" where
  "gdt_print dev rd sz entries c = gdt_loop dev rd entries 0 ((unat sz + 1) div 8) c"

text \<open>\<open>own\<close> 13, \<open>tun\<close> 14, \<open>tok\<close> 15, \<open>ertxth\<close> 16 to 21, \<open>ncc\<close> 24 to 27, \<open>cdh\<close> 28, \<open>owc\<close> 29, \<open>tabt\<close> 30, \<open>crs\<close> 31.\<close>
definition rtl8139_debug_tsd :: "device \<Rightarrow> u32 \<Rightarrow> u32 \<Rightarrow> console \<Rightarrow> console option" where
  "rtl8139_debug_tsd dev i tsd c = say_line dev ''rtl8139: tsd%d (%x): %s%s%s%s%s%s%sertxth = %d ncc = %d''
     ([Word i, Word tsd] @ map (\<lambda>(b, txt). Str (raw_fmt (if bit tsd b then txt else '''')))
        [(13, ''own ''), (14, ''tun ''), (15, ''tok ''), (28, ''cdh ''), (29, ''owc ''), (30, ''tabt ''), (31, ''crs '')]
      @ [Word (drop_bit 16 tsd AND 0x3F), Word (drop_bit 24 tsd AND 0xF)]) c"

subsection \<open>The exception without a name\<close>

text \<open>Twenty gates are installed, but the array of names ends at 18: the alignment of the arrays decides what exception 19 prints.\<close>
lemma exception_19_has_no_name:
  assumes "regs frame = Some r" and "x_error_code r = 19"
  shows "exception_handle dev regs rd name cpu frame c = None"
  using assms by (simp add: exception_handle_def exception_strs_def aget_def)

text \<open>A chain of stack frames, from the innermost to one whose saved \<open>ebp\<close> is NULL.\<close>
fun stack_chain :: "(u32 \<Rightarrow> u32 option) \<Rightarrow> u32 \<Rightarrow> (u32 \<times> u32) list \<Rightarrow> bool" where
  "stack_chain rd ebp [] \<longleftrightarrow> ebp = NULL"
| "stack_chain rd ebp ((p, eip) # fs) \<longleftrightarrow> ebp = p \<and> p \<noteq> NULL \<and> eip \<noteq> 0 \<and> rd (p + 4) = Some eip
     \<and> (\<exists>q. rd p = Some q \<and> stack_chain rd q fs)"

fun say_frames :: "device \<Rightarrow> (u32 \<times> u32) list \<Rightarrow> console \<Rightarrow> console option" where
  "say_frames dev [] c = Some c"
| "say_frames dev ((p, eip) # fs) c = do { c1 \<leftarrow> say_line dev ''0x%p:0x%p'' [Word eip, Word p] c; say_frames dev fs c1 }"

text \<open>The trace of a chain of stack frames prints its first \<open>frames\<close> return addresses with their frames.\<close>
lemma trace_loop_chain:
  "stack_chain rd ebp fs \<Longrightarrow> trace_loop dev rd frames ebp c = say_frames dev (take frames fs) c"
proof (induction frames arbitrary: ebp fs c)
  case (Suc frames)
  then show ?case
  proof (cases fs)
    case (Cons f fs')
    obtain p eip where f: "f = (p, eip)" by (cases f)
    with Suc.prems Cons obtain q where q: "ebp = p" "p \<noteq> NULL" "eip \<noteq> 0" "rd (p + 4) = Some eip" "rd p = Some q" "stack_chain rd q fs'"
      by auto
    then show ?thesis using Suc.IH[OF q(6)] Cons f
      by (cases "say_line dev ''0x%p:0x%p'' [Word eip, Word p] c") simp_all
  qed simp
qed simp

end
