(* ===== verification/Boot.thy ===== *)
theory Boot
  imports Paging
begin

text \<open>
  \<open>src/src/arch/i386/boot\<close>: the page directory of \<open>paging.asm\<close>, and what \<open>_loader\<close> and \<open>higherhalf\<close> of \<open>boot.asm\<close> do
  to it before they call \<open>kernel_main\<close>: they load it, turn paging on, and store the entry through which the directory
  maps itself. The directory's physical address is an argument; the property says what the MMU makes of the result, which
  is what \<open>paging_map\<close> starts from.
\<close>

subsection \<open>The page directory of the boot code\<close>

definition PAGE :: "u32 \<Rightarrow> u32 \<Rightarrow> u32" where
  "PAGE addr flags = (addr AND 0xFFFFF000) OR flags"

definition kernel_vbase :: u32 where "kernel_vbase = 0xC0000000"
definition kernel_page :: nat where "kernel_page = unat (drop_bit 22 kernel_vbase)"

text \<open>\<open>PAGE_DIR_SIZE\<close>, \<open>PAGE_DIR_RW\<close> and \<open>PAGE_DIR_PRESENT\<close> are bits 7, 1 and 0.\<close>
definition initial_pd :: "u32 list" where
  "initial_pd = [PAGE 0 0x83] @ replicate (kernel_page - 1) (PAGE 0 0) @ [PAGE 0 0x83] @ replicate (1024 - kernel_page - 1) (PAGE 0 0)"

text \<open>What \<open>_loader\<close> and \<open>higherhalf\<close> do to the page tables; paging is on when the store is made.\<close>
definition loader :: "u32 \<Rightarrow> 'a paging_scheme \<Rightarrow> 'a paging_scheme option" where
  "loader initial_pd_real s =
     vstore (kernel_vbase + initial_pd_real + 1023 * 4) (initial_pd_real OR 3) (s\<lparr>cr3 := initial_pd_real\<rparr>)"

lemma kernel_page: "kernel_page = 768"
  by (simp add: kernel_page_def kernel_vbase_def unat_drop_bit)

lemma initial_pd_nth: "i < 1024 \<Longrightarrow> initial_pd ! i = (if i = 0 \<or> i = 768 then 0x83 else 0)"
  by (auto simp: initial_pd_def PAGE_def kernel_page nth_append nth_Cons')

lemma unat_and_4mb: "unat ((c :: u32) AND 0x3FFFFF) = unat c mod 4194304"
proof -
  have "c AND 0x3FFFFF = take_bit 22 c" by (simp add: take_bit_eq_mask mask_eq_exp_minus_1)
  then show ?thesis by (simp add: take_bit_eq_mod unat_mod)
qed

lemma high_half:
  assumes "unat x < 4194304"
  shows "va_dir x = 0" "x AND 0x3FFFFF = x" "va_dir (kernel_vbase + x) = 768" "(kernel_vbase + x) AND 0x3FFFFF = x"
proof -
  have u: "unat (kernel_vbase + x) = 768 * 4194304 + unat x"
    using unat_plus_nowrap[of kernel_vbase x] assms by (simp add: kernel_vbase_def)
  show "va_dir x = 0" "x AND 0x3FFFFF = x"
    using assms by (simp_all add: va_dir_def word_unat_eq_iff unat_drop_bit unat_and_4mb)
  show "va_dir (kernel_vbase + x) = 768" using assms by (simp add: va_dir_def word_unat_eq_iff unat_drop_bit u)
  show "(kernel_vbase + x) AND 0x3FFFFF = x"
    using assms unfolding word_unat_eq_iff unat_and_4mb u by (simp only: mod_mult_self3 mod_less)
qed

lemma aligned_room: "unat (pd :: u32) mod 4096 = 0 \<Longrightarrow> unat pd < 4194304 \<Longrightarrow> unat (pd + 4092) < 4194304"
proof -
  assume a: "unat pd mod 4096 = 0" "unat pd < 4194304"
  define n where "n = unat pd"
  obtain k where k: "n = 4096 * k" using a(1) unfolding n_def by (auto simp: mod_eq_0_iff_dvd)
  have "k < 1024" using a(2) k unfolding n_def[symmetric] by linarith
  then have "n + 4092 < 4194304" using k by linarith
  then show ?thesis using unat_plus_nowrap[of pd 4092] unfolding n_def by simp
qed

text \<open>What an address inside the window at 0xFFC00000 reaches: page 1023 of the window is the directory itself. The directory
  entries 0 and 768 are 4 MiB pages, but the window takes them for page tables at physical address 0, so that the pages 0 and 768
  of the window, 0xFFC00000 and 0xFFF00000, show the first page of memory. The other pages of the window are not mapped.\<close>
definition boot_window :: "u32 \<Rightarrow> u32 \<Rightarrow> u32 option" where
  "boot_window pd v =
     (if va_tab v = 1023 then Some (pd + (v AND 0xFFF)) else if va_tab v = 0 \<or> va_tab v = 768 then Some (v AND 0xFFF) else None)"

text \<open>C7: The whole address space the boot code leaves: the first 4 MiB of memory are mapped to where they are and to 0xC0000000, the
  window at the end shows the directory, and also, twice, the first page of memory (\<open>boot_window\<close>), and nothing else is mapped. The
  directory maps itself (\<open>tables_ok\<close>), and no other entry of it leads to a page table: \<open>paging_map\<close> has to allocate a table before
  it can map a first page anywhere.\<close>
theorem boot_pages:
  assumes "\<forall>i<1024. pmem s (pd + of_nat (4 * i)) = initial_pd ! i" and "pd AND 0xFFF = 0" and "unat pd < 4194304"
  shows "\<exists>s'. loader pd s = Some s' \<and> tables_ok s'
    \<and> (\<forall>x. unat x < 4194304 \<longrightarrow> mmu s' x = Some x \<and> mmu s' (kernel_vbase + x) = Some x)
    \<and> (\<forall>v. va_dir v = 1023 \<longrightarrow> mmu s' v = boot_window pd v)
    \<and> (\<forall>v. va_dir v \<notin> {0, 768, 1023} \<longrightarrow> mmu s' v = None)
    \<and> (\<forall>d. unat d < 1024 \<longrightarrow> has_table s' d \<longleftrightarrow> d = 1023)"
proof -
  let ?s = "s\<lparr>cr3 := pd\<rparr>"
  define t where "t = ?s\<lparr>pmem := (pmem s)(pd + 4 * 1023 := pd OR 3)\<rparr>"
  have p: "pde ?s d = (if d = 0 \<or> d = 768 then 0x83 else 0)" if "unat d < 1024" for d
    using assms(1)[rule_format, OF that] initial_pd_nth[OF that] by (auto simp: pde_def word_unat_eq_iff)
  have pt: "pde t d = (if d = 1023 then pd OR 3 else pde ?s d)" if "unat d < 1024" for d
    using four_eq[OF that, of 1023] by (simp add: pde_def t_def)
  have x: "unat (pd + 4092) < 4194304"
    using assms(2,3) unat_and_4095[of pd] by (intro aligned_room) auto
  have e: "frame_of (pd OR 3) = pd" "(pd OR 3) AND 1 \<noteq> 0" "(pd OR 3) AND 128 = 0"
  proof -
    show "frame_of (pd OR 3) = pd" using or_page_high[of 3 pd] assms(2) by (simp add: frame_of_def or.commute)
    have l: "(pd OR 3) AND 4095 = 3" using or_page_low[of 3 pd] assms(2) by (simp add: or.commute)
    have "(pd OR 3) AND 1 = ((pd OR 3) AND 4095) AND 1" "(pd OR 3) AND 128 = ((pd OR 3) AND 4095) AND 128"
      by (simp_all add: and.assoc)
    then show "(pd OR 3) AND 1 \<noteq> 0" "(pd OR 3) AND 128 = 0" unfolding l by simp_all
  qed
  have m: "mmu ?s (kernel_vbase + (pd + 4092)) = Some (pd + 4092)"
    unfolding mmu_pde high_half[OF x] by (simp add: p)
  have l: "loader pd s = Some t" using m by (simp add: loader_def vstore_def add.assoc t_def)
  have c: "cr3 t = pd" by (simp add: t_def)
  have d1023: "pde t 1023 = pd OR 3" using pt[of 1023] by simp
  have self: "self_mapped t" unfolding self_mapped_pde d1023 c using e by blast
  have h: "d = 1023" if "has_table t d" for d
    using that pt[of d] p[of d] by (auto simp: has_table_def split: if_splits)
  have ok: "tables_ok t" using self h assms(2) c unfolding tables_ok_def by metis
  have low: "mmu t x = Some x \<and> mmu t (kernel_vbase + x) = Some x" if "unat x < 4194304" for x
    unfolding mmu_pde high_half[OF that] by (simp add: pt p)
  have none: "mmu t v = None" if "va_dir v \<notin> {0, 768, 1023}" for v
    unfolding mmu_pde using that pt[OF va_dir_less[of v]] p[OF va_dir_less[of v]] by simp
  have win: "mmu t v = boot_window pd v" if "va_dir v = 1023" for v
  proof -
    have "pmem t (pd + 4 * va_tab v) = pde t (va_tab v)" using c by (simp add: pde_def)
    then have "mmu t v = (if pde t (va_tab v) AND 1 = 0 then None else Some (frame_of (pde t (va_tab v)) + (v AND 0xFFF)))"
      unfolding mmu_pde that d1023 using e by simp
    moreover have "frame_of 0x83 = 0" by (simp add: frame_of_def)
    ultimately show ?thesis
      using pt[OF va_tab_less[of v]] p[OF va_tab_less[of v]] e d1023 by (simp add: boot_window_def)
  qed
  have tab: "has_table t d \<longleftrightarrow> d = 1023" for d using h[of d] d1023 e by (auto simp: has_table_def)
  show ?thesis using l ok low none win tab by blast
qed

definition boot_tables :: paging where
  "boot_tables = \<lparr>page_lock = 0, cr3 = 0, pmem = (\<lambda>p. if p = 0x101000 \<or> p = 0x101C00 then 0x83 else 0)\<rparr>"

theorem boot_pages_witness:
  "\<exists>s'. loader 0x101000 boot_tables = Some s' \<and> tables_ok s'
    \<and> (\<forall>x. unat x < 4194304 \<longrightarrow> mmu s' x = Some x \<and> mmu s' (kernel_vbase + x) = Some x)
    \<and> (\<forall>v. va_dir v = 1023 \<longrightarrow> mmu s' v = boot_window 0x101000 v)
    \<and> (\<forall>v. va_dir v \<notin> {0, 768, 1023} \<longrightarrow> mmu s' v = None)
    \<and> (\<forall>d. unat d < 1024 \<longrightarrow> has_table s' d \<longleftrightarrow> d = 1023)"
proof (rule boot_pages)
  show "\<forall>i<1024. pmem boot_tables (0x101000 + of_nat (4 * i)) = initial_pd ! i"
  proof (intro allI impI)
    fix i :: nat assume i: "i < 1024"
    have "unat (0x101000 + of_nat (4 * i) :: u32) = 0x101000 + 4 * i"
      using unat_plus_nowrap[of "0x101000" "of_nat (4 * i)"] unat_of_nat32[of "4 * i"] i by simp
    then show "pmem boot_tables (0x101000 + of_nat (4 * i)) = initial_pd ! i"
      unfolding initial_pd_nth[OF i] boot_tables_def by (auto simp: word_unat_eq_iff)
  qed
qed simp_all
end
