(* ===== verification/Stubs.thy ===== *)
theory Stubs
  imports Report
begin

text \<open>
  The assembly around interrupts: the entry stubs of \<open>src/src/arch/i386/interrupts/stub.asm\<close>, and the segment descriptors of
  \<open>src/src/arch/i386/mem/gdt.asm\<close>. The stubs are lists of instructions, executed on the registers and the stack; the stack is
  a map of aligned words as in \<open>Tasks\<close>. A call stands for the whole call of a C function, which is an argument.
\<close>

subsection \<open>The processor\<close>

record cpu =
  c_eax :: u32
  c_ecx :: u32
  c_edx :: u32
  c_ebx :: u32
  c_esp :: u32
  c_ebp :: u32
  c_esi :: u32
  c_edi :: u32
  c_eip :: u32
  c_eflags :: u32
  c_cs :: u16
  c_ds :: u16
  c_es :: u16
  c_fs :: u16
  c_gs :: u16
  c_words :: "u32 \<Rightarrow> u32 option"

datatype sreg = DS | ES | FS | GS
datatype instr =
    Cli
  | PushI u32
  | PushS sreg
  | PopS sreg
  | PushEax
  | PopEax
  | Pushad
  | Popad
  | MovAx u16
  | MovSAx sreg
  | MovEaxEsp
  | CallC
  | Iret

definition push :: "u32 \<Rightarrow> cpu \<Rightarrow> cpu option" where
  "push v s = (let p = c_esp s - 4 in
     if c_words s p = None then None else Some (s\<lparr>c_esp := p, c_words := (c_words s)(p \<mapsto> v)\<rparr>))"

definition pop :: "cpu \<Rightarrow> (u32 \<times> cpu) option" where
  "pop s = do { v \<leftarrow> c_words s (c_esp s); Some (v, s\<lparr>c_esp := c_esp s + 4\<rparr>) }"

text \<open>A segment register fills the low half of its word; the other half keeps what the stack contained.\<close>
definition push16 :: "u16 \<Rightarrow> cpu \<Rightarrow> cpu option" where
  "push16 v s = do { w \<leftarrow> c_words s (c_esp s - 4); push ((w AND 0xFFFF0000) OR ucast v) s }"

fun get_sreg :: "sreg \<Rightarrow> cpu \<Rightarrow> u16" where
  "get_sreg DS s = c_ds s"
| "get_sreg ES s = c_es s"
| "get_sreg FS s = c_fs s"
| "get_sreg GS s = c_gs s"

fun set_sreg :: "sreg \<Rightarrow> u16 \<Rightarrow> cpu \<Rightarrow> cpu" where
  "set_sreg DS v s = s\<lparr>c_ds := v\<rparr>"
| "set_sreg ES v s = s\<lparr>c_es := v\<rparr>"
| "set_sreg FS v s = s\<lparr>c_fs := v\<rparr>"
| "set_sreg GS v s = s\<lparr>c_gs := v\<rparr>"

fun push_all :: "u32 list \<Rightarrow> cpu \<Rightarrow> cpu option" where
  "push_all [] s = Some s"
| "push_all (v # vs) s = do { s1 \<leftarrow> push v s; push_all vs s1 }"

text \<open>\<open>popad\<close> skips the stack pointer that \<open>pushad\<close> stored.\<close>
definition popad :: "cpu \<Rightarrow> cpu option" where
  "popad s = do {
     (edi, s1) \<leftarrow> pop s; (esi, s2) \<leftarrow> pop s1; (ebp, s3) \<leftarrow> pop s2; (_, s4) \<leftarrow> pop s3;
     (ebx, s5) \<leftarrow> pop s4; (edx, s6) \<leftarrow> pop s5; (ecx, s7) \<leftarrow> pop s6; (eax, s8) \<leftarrow> pop s7;
     Some (s8\<lparr>c_edi := edi, c_esi := esi, c_ebp := ebp, c_ebx := ebx, c_edx := edx, c_ecx := ecx, c_eax := eax\<rparr>) }"

text \<open>Bit 9 of \<open>eflags\<close> is the interrupt flag.\<close>
fun exec :: "(cpu \<Rightarrow> cpu option) \<Rightarrow> instr \<Rightarrow> cpu \<Rightarrow> cpu option" where
  "exec call Cli s = Some (s\<lparr>c_eflags := c_eflags s AND NOT 0x200\<rparr>)"
| "exec call (PushI v) s = push v s"
| "exec call (PushS r) s = push16 (get_sreg r s) s"
| "exec call (PopS r) s = do { (v, s1) \<leftarrow> pop s; Some (set_sreg r (ucast v) s1) }"
| "exec call PushEax s = push (c_eax s) s"
| "exec call PopEax s = do { (v, s1) \<leftarrow> pop s; Some (s1\<lparr>c_eax := v\<rparr>) }"
| "exec call Pushad s = push_all [c_eax s, c_ecx s, c_edx s, c_ebx s, c_esp s, c_ebp s, c_esi s, c_edi s] s"
| "exec call Popad s = popad s"
| "exec call (MovAx v) s = Some (s\<lparr>c_eax := (c_eax s AND 0xFFFF0000) OR ucast v\<rparr>)"
| "exec call (MovSAx r) s = Some (set_sreg r (ucast (c_eax s)) s)"
| "exec call MovEaxEsp s = Some (s\<lparr>c_eax := c_esp s\<rparr>)"
| "exec call CallC s = call s"
| "exec call Iret s = do {
     (eip, s1) \<leftarrow> pop s; (cs, s2) \<leftarrow> pop s1; (eflags, s3) \<leftarrow> pop s2;
     Some (s3\<lparr>c_eip := eip, c_cs := ucast cs, c_eflags := eflags\<rparr>) }"

fun run :: "(cpu \<Rightarrow> cpu option) \<Rightarrow> instr list \<Rightarrow> cpu \<Rightarrow> cpu option" where
  "run call [] s = Some s"
| "run call (i # is) s = do { s1 \<leftarrow> exec call i s; run call is s1 }"

text \<open>An interrupt through a gate of the kernel: the flags that are cleared are IF, TF, NT, RF and VM. \<open>code\<close> is the error
  code of the exceptions that have one.\<close>
definition interrupt_enter :: "u16 \<Rightarrow> u32 \<Rightarrow> u32 option \<Rightarrow> cpu \<Rightarrow> cpu option" where
  "interrupt_enter sel stub code s = do {
     s1 \<leftarrow> push (c_eflags s) s;
     s2 \<leftarrow> push16 (c_cs s) s1;
     s3 \<leftarrow> push (c_eip s) s2;
     s4 \<leftarrow> (case code of None \<Rightarrow> Some s3 | Some e \<Rightarrow> push e s3);
     Some (s4\<lparr>c_cs := sel, c_eip := stub, c_eflags := c_eflags s AND NOT 0x34300\<rparr>) }"

subsection \<open>stub.asm\<close>

definition push_segments :: "instr list" where
  "push_segments = [PushS DS, PushS ES, PushS FS, PushS GS]"

definition load_segments :: "instr list" where
  "load_segments = [MovAx 0x10, MovSAx DS, MovSAx ES, MovSAx FS, MovSAx GS]"

definition call_handler :: "instr list" where
  "call_handler = [MovEaxEsp, PushEax, CallC, PopEax]"

definition irq_exit_stub :: "instr list" where
  "irq_exit_stub = [PopS GS, PopS FS, PopS ES, PopS DS, Popad, Iret]"

definition irq_common_stub :: "instr list" where
  "irq_common_stub = [Cli, Pushad] @ push_segments @ load_segments @ call_handler @ irq_exit_stub"

text \<open>The twenty stubs differ in the number they push. After its call a stub falls through into the next one.\<close>
definition exception_stub :: "nat \<Rightarrow> instr list" where
  "exception_stub n = [Cli, PushI (of_nat n), Pushad] @ push_segments @ load_segments @ call_handler"

definition irq_empty_stub :: "instr list" where
  "irq_empty_stub = [Iret]"

subsection \<open>The frame\<close>

lemma run_append: "run call (is @ js) s = do { s1 \<leftarrow> run call is s; run call js s1 }"
  by (induction "is" arbitrary: s) (auto split: bind_splits)

lemma half_word [simp]: "(ucast (((w :: u32) AND 0xFFFF0000) OR ucast (v :: u16)) :: u16) = v"
proof (rule bit_word_eqI)
  fix n assume "n < LENGTH(16)"
  then have n: "n < 16" by simp
  have "(0xFFFF0000 :: u32) = push_bit 16 (mask 16)" by (simp add: mask_eq_exp_minus_1 push_bit_eq_mult)
  then have "\<not> bit (0xFFFF0000 :: u32) n" using n by (metis bit_push_bit_iff leD)
  then show "bit (ucast ((w AND 0xFFFF0000) OR ucast v) :: u16) n = bit v n"
    using n by (simp add: bit_simps)
qed

lemma half_word_num [simp]: "(ucast (((w :: u32) AND 0xFFFF0000) OR 0x10) :: u16) = 0x10"
  using half_word[of w "0x10"] by simp

text \<open>\<open>n\<close> words from \<open>p\<close> on are there.\<close>
definition stack_at :: "u32 \<Rightarrow> nat \<Rightarrow> (u32 \<Rightarrow> u32 option) \<Rightarrow> bool" where
  "stack_at p n m \<longleftrightarrow> (\<forall>i<n. m (p + of_nat (4 * i)) \<noteq> None)"

lemma stack_at_words:
  assumes "stack_at p n m"
  obtains w where "\<And>i. i < n \<Longrightarrow> m (p + of_nat (4 * i)) = Some (w i)"
  using that[of "\<lambda>i. the (m (p + of_nat (4 * i)))"] assms by (auto simp: stack_at_def)

lemma stack_at_upd: "stack_at p n m \<Longrightarrow> stack_at p n (m(q \<mapsto> v))"
  by (simp add: stack_at_def)

text \<open>The frame at \<open>p + 4\<close> has the registers of \<open>s\<close>, the segment registers in the low halves of their words. \<open>pushad\<close> stores
  the stack pointer it started with.\<close>
definition frame_at :: "u32 \<Rightarrow> cpu \<Rightarrow> (u32 \<Rightarrow> u32 option) \<Rightarrow> bool" where
  "frame_at p s m \<longleftrightarrow> map_option ucast (m (p + 4)) = Some (c_gs s) \<and> map_option ucast (m (p + 8)) = Some (c_fs s)
     \<and> map_option ucast (m (p + 12)) = Some (c_es s) \<and> map_option ucast (m (p + 16)) = Some (c_ds s)
     \<and> m (p + 20) = Some (c_edi s) \<and> m (p + 24) = Some (c_esi s) \<and> m (p + 28) = Some (c_ebp s) \<and> m (p + 32) = Some (p + 52)
     \<and> m (p + 36) = Some (c_ebx s) \<and> m (p + 40) = Some (c_edx s) \<and> m (p + 44) = Some (c_ecx s) \<and> m (p + 48) = Some (c_eax s)"

text \<open>The common part of the stubs, up to the call.\<close>
definition save_all :: "instr list" where
  "save_all = [Pushad] @ push_segments @ load_segments @ [MovEaxEsp, PushEax]"

lemma save_all_run:
  assumes "c_esp s = p + 52" and "stack_at p 13 (c_words s)"
  shows "\<exists>t. run call save_all s = Some t \<and> c_esp t = p \<and> c_words t p = Some (p + 4) \<and> frame_at p s (c_words t)
    \<and> (\<forall>n. stack_at p n (c_words s) \<longrightarrow> stack_at p n (c_words t)) \<and> (\<forall>a. 52 \<le> a - p \<longrightarrow> c_words t a = c_words s a) \<and> c_ds t = 0x10 \<and> c_es t = 0x10"
proof -
  obtain w where w: "\<And>i. i < 13 \<Longrightarrow> c_words s (p + of_nat (4 * i)) = Some (w i)"
    using stack_at_words[OF assms(2)] by blast
  note m = w[of 0, simplified] w[of 1, simplified] w[of 2, simplified] w[of 3, simplified] w[of 4, simplified] w[of 5, simplified] w[of 6, simplified] w[of 7, simplified] w[of 8, simplified] w[of 9, simplified] w[of 10, simplified] w[of 11, simplified] w[of 12, simplified]
  have e: "p + 52 - 4 = p + 48" "p + 48 - 4 = p + 44" "p + 44 - 4 = p + 40" "p + 40 - 4 = p + 36" "p + 36 - 4 = p + 32" "p + 32 - 4 = p + 28" "p + 28 - 4 = p + 24" "p + 24 - 4 = p + 20" "p + 20 - 4 = p + 16" "p + 16 - 4 = p + 12" "p + 12 - 4 = p + 8" "p + 8 - 4 = p + 4" "p + 4 - 4 = p"
    by simp_all
  have ne: "a \<noteq> p + k" if "52 \<le> a - p" "k < 52" for a k using that by (auto simp: not_le)
  let ?m = "(c_words s)(p + 48 \<mapsto> c_eax s, p + 44 \<mapsto> c_ecx s, p + 40 \<mapsto> c_edx s, p + 36 \<mapsto> c_ebx s, p + 32 \<mapsto> p + 52,
    p + 28 \<mapsto> c_ebp s, p + 24 \<mapsto> c_esi s, p + 20 \<mapsto> c_edi s, p + 16 \<mapsto> (w 4 AND 0xFFFF0000) OR ucast (c_ds s),
    p + 12 \<mapsto> (w 3 AND 0xFFFF0000) OR ucast (c_es s), p + 8 \<mapsto> (w 2 AND 0xFFFF0000) OR ucast (c_fs s),
    p + 4 \<mapsto> (w 1 AND 0xFFFF0000) OR ucast (c_gs s), p \<mapsto> p + 4)"
  let ?t = "s\<lparr>c_eax := p + 4, c_ds := 0x10, c_es := 0x10, c_fs := 0x10, c_gs := 0x10, c_esp := p, c_words := ?m\<rparr>"
  have "run call save_all s = Some ?t"
    unfolding save_all_def push_segments_def load_segments_def
    by (simp add: assms(1) m e Let_def push_def push16_def)
  moreover have "frame_at p s ?m" by (simp add: frame_at_def)
  moreover have "\<forall>a. 52 \<le> a - p \<longrightarrow> ?m a = c_words s a" using ne ne[of _ 0] by (simp add: fun_upd_other)
  moreover have "\<forall>n. stack_at p n (c_words s) \<longrightarrow> stack_at p n ?m" by (simp add: stack_at_upd del: fun_upd_apply)
  ultimately show ?thesis by (intro exI[of _ ?t]) simp
qed

lemma stub_parts:
  "irq_common_stub = Cli # save_all @ CallC # PopEax # irq_exit_stub"
  "exception_stub n = Cli # PushI (of_nat n) # save_all @ [CallC, PopEax]"
  by (simp_all add: irq_common_stub_def exception_stub_def save_all_def call_handler_def)

lemma stack_at_word: "stack_at p n m \<Longrightarrow> i < n \<Longrightarrow> q = p + of_nat (4 * i) \<Longrightarrow> m q \<noteq> None"
  by (simp add: stack_at_def)

lemma stack_at_mono: "stack_at p n m \<Longrightarrow> k \<le> n \<Longrightarrow> stack_at p k m"
  by (simp add: stack_at_def)

text \<open>What is pushed before the registers.\<close>
lemma interrupt_enter_run:
  assumes "c_esp s = p + 64" and "stack_at p 16 (c_words s)"
  shows "\<exists>m. interrupt_enter sel stub None s = Some (s\<lparr>c_esp := p + 52, c_words := m, c_cs := sel, c_eip := stub, c_eflags := c_eflags s AND NOT 0x34300\<rparr>)
    \<and> stack_at p 16 m \<and> m (p + 52) = Some (c_eip s) \<and> map_option ucast (m (p + 56)) = Some (c_cs s)
    \<and> m (p + 60) = Some (c_eflags s) \<and> (\<forall>a. 64 \<le> a - p \<longrightarrow> m a = c_words s a)"
proof -
  have e: "p + 64 - 4 = p + 60" "p + 60 - 4 = p + 56" "p + 56 - 4 = p + 52" by simp_all
  obtain w1 w2 w3 where w: "c_words s (p + 52) = Some w1" "c_words s (p + 56) = Some w2" "c_words s (p + 60) = Some w3"
    using stack_at_word[OF assms(2), of 13 "p + 52"] stack_at_word[OF assms(2), of 14 "p + 56"] stack_at_word[OF assms(2), of 15 "p + 60"]
    by auto
  let ?m = "(c_words s)(p + 60 \<mapsto> c_eflags s, p + 56 \<mapsto> (w2 AND 0xFFFF0000) OR ucast (c_cs s), p + 52 \<mapsto> c_eip s)"
  have ne: "a \<noteq> p + k" if "64 \<le> a - p" "k < 64" for a k using that by (auto simp: not_le)
  have "interrupt_enter sel stub None s = Some (s\<lparr>c_esp := p + 52, c_words := ?m, c_cs := sel, c_eip := stub, c_eflags := c_eflags s AND NOT 0x34300\<rparr>)"
    by (simp add: interrupt_enter_def assms(1) w e push_def push16_def Let_def)
  moreover have "stack_at p 16 ?m" using assms(2) by (intro stack_at_upd)
  moreover have "\<forall>a. 64 \<le> a - p \<longrightarrow> ?m a = c_words s a" using ne by simp
  ultimately show ?thesis by (intro exI[of _ ?m] conjI) simp_all
qed

lemma frame_at_restored:
  assumes "frame_at p s m" and "c_esp u = p + 4" and "\<And>i. i \<in> {1..<16} \<Longrightarrow> c_words u (p + of_nat (4 * i)) = m (p + of_nat (4 * i))"
    and "m (p + 52) = Some eip" and "map_option ucast (m (p + 56)) = Some cs" and "m (p + 60) = Some eflags"
  shows "run call irq_exit_stub u = Some (s\<lparr>c_esp := p + 64, c_words := c_words u, c_eip := eip, c_cs := cs, c_eflags := eflags\<rparr>)"
proof -
  note m = assms(3)[of 1, simplified] assms(3)[of 2, simplified] assms(3)[of 3, simplified] assms(3)[of 4, simplified]
    assms(3)[of 5, simplified] assms(3)[of 6, simplified] assms(3)[of 7, simplified] assms(3)[of 8, simplified]
    assms(3)[of 9, simplified] assms(3)[of 10, simplified] assms(3)[of 11, simplified] assms(3)[of 12, simplified]
    assms(3)[of 13, simplified] assms(3)[of 14, simplified] assms(3)[of 15, simplified]
  obtain gs fs es ds c where h: "m (p + 4) = Some gs" "ucast gs = c_gs s" "m (p + 8) = Some fs" "ucast fs = c_fs s"
      "m (p + 12) = Some es" "ucast es = c_es s" "m (p + 16) = Some ds" "ucast ds = c_ds s" "m (p + 56) = Some c" "ucast c = cs"
    using assms(1,5) by (auto simp: frame_at_def)
  have e: "p + 4 + 4 = p + 8" "p + 8 + 4 = p + 12" "p + 12 + 4 = p + 16" "p + 16 + 4 = p + 20" "p + 20 + 4 = p + 24" "p + 24 + 4 = p + 28" "p + 28 + 4 = p + 32" "p + 32 + 4 = p + 36" "p + 36 + 4 = p + 40" "p + 40 + 4 = p + 44" "p + 44 + 4 = p + 48" "p + 48 + 4 = p + 52" "p + 52 + 4 = p + 56" "p + 56 + 4 = p + 60" "p + 60 + 4 = p + 64"
    by simp_all
  have m': "c_words u (8 + p) = m (p + 8)" "c_words u (12 + p) = m (p + 12)" "c_words u (16 + p) = m (p + 16)" "c_words u (20 + p) = m (p + 20)" "c_words u (24 + p) = m (p + 24)" "c_words u (28 + p) = m (p + 28)" "c_words u (32 + p) = m (p + 32)" "c_words u (36 + p) = m (p + 36)" "c_words u (40 + p) = m (p + 40)" "c_words u (44 + p) = m (p + 44)" "c_words u (48 + p) = m (p + 48)" "c_words u (52 + p) = m (p + 52)" "c_words u (56 + p) = m (p + 56)" "c_words u (60 + p) = m (p + 60)"
    using m by (simp_all only: add.commute[of _ p])
  let ?r = "u\<lparr>c_gs := c_gs s, c_fs := c_fs s, c_es := c_es s, c_ds := c_ds s, c_edi := c_edi s, c_esi := c_esi s, c_ebp := c_ebp s,
    c_ebx := c_ebx s, c_edx := c_edx s, c_ecx := c_ecx s, c_eax := c_eax s, c_esp := p + 64, c_eip := eip, c_cs := cs, c_eflags := eflags\<rparr>"
  have "run call irq_exit_stub u = Some ?r"
    using assms(1) by (simp add: irq_exit_stub_def pop_def popad_def frame_at_def assms(2,4,6) m m' h e add.commute[of 64 p])
  moreover have "?r = s\<lparr>c_esp := p + 64, c_words := c_words u, c_eip := eip, c_cs := cs, c_eflags := eflags\<rparr>"
    by (rule cpu.equality) simp_all
  ultimately show ?thesis by simp
qed

text \<open>A handler that returns by the calling convention of C and does not write to the frame: the stack pointer is what it was,
  and so are the fifteen words above the argument.\<close>
definition keeps_frame :: "u32 \<Rightarrow> (cpu \<Rightarrow> cpu option) \<Rightarrow> bool" where
  "keeps_frame p call \<longleftrightarrow> (\<forall>t. c_esp t = p \<and> stack_at p 16 (c_words t) \<longrightarrow>
     (\<exists>u. call t = Some u \<and> c_esp u = p \<and> c_words u p \<noteq> None
        \<and> (\<forall>i \<in> {1..<16}. c_words u (p + of_nat (4 * i)) = c_words t (p + of_nat (4 * i)))))"

text \<open>C14: An interrupt whose handler returns leaves no trace in the interrupted program: \<open>irq_common_stub\<close> restores every
  register, the segment registers, the flags and the address to go on at, although the handler ran with other segments.\<close>
theorem irq_stub_restores:
  assumes "c_esp s = p + 64" and "stack_at p 16 (c_words s)" and "keeps_frame p call"
  shows "\<exists>m. (do { s1 \<leftarrow> interrupt_enter sel stub None s; run call irq_common_stub s1 }) = Some (s\<lparr>c_words := m\<rparr>)"
proof -
  obtain m where i: "interrupt_enter sel stub None s
      = Some (s\<lparr>c_esp := p + 52, c_words := m, c_cs := sel, c_eip := stub, c_eflags := c_eflags s AND NOT 0x34300\<rparr>)"
    and m: "stack_at p 16 m" "m (p + 52) = Some (c_eip s)" "map_option ucast (m (p + 56)) = Some (c_cs s)" "m (p + 60) = Some (c_eflags s)"
    using interrupt_enter_run[OF assms(1,2)] by blast
  let ?s = "s\<lparr>c_esp := p + 52, c_words := m, c_cs := sel, c_eip := stub, c_eflags := (c_eflags s AND NOT 0x34300) AND NOT 0x200\<rparr>"
  obtain t where t: "run call save_all ?s = Some t" "c_esp t = p" "c_words t p = Some (p + 4)" "frame_at p ?s (c_words t)"
      "\<forall>a. 52 \<le> a - p \<longrightarrow> c_words t a = m a" "stack_at p 16 (c_words t)"
    using save_all_run[of ?s p call] stack_at_mono[OF m(1), of 13] m(1) by auto
  then obtain u where u: "call t = Some u" "c_esp u = p" "c_words u p \<noteq> None"
      "\<And>i. i \<in> {1..<16} \<Longrightarrow> c_words u (p + of_nat (4 * i)) = c_words t (p + of_nat (4 * i))"
    using assms(3) unfolding keeps_frame_def by blast
  then obtain v where v: "c_words u p = Some v" by blast
  let ?u = "u\<lparr>c_esp := p + 4, c_eax := v\<rparr>"
  have "run call irq_exit_stub ?u = Some (?s\<lparr>c_esp := p + 64, c_words := c_words ?u, c_eip := c_eip s, c_cs := c_cs s, c_eflags := c_eflags s\<rparr>)"
    by (rule frame_at_restored[OF t(4)]) (simp_all add: u(4)[simplified] t(5) m)
  moreover have "(do { s1 \<leftarrow> interrupt_enter sel stub None s; run call irq_common_stub s1 }) = run call irq_exit_stub ?u"
    using t(1) by (simp add: i stub_parts run_append u(1,2) v pop_def)
  moreover have "?s\<lparr>c_esp := p + 64, c_words := c_words ?u, c_eip := c_eip s, c_cs := c_cs s, c_eflags := c_eflags s\<rparr> = s\<lparr>c_words := c_words u\<rparr>"
    by (rule cpu.equality) (simp_all add: assms(1))
  ultimately show ?thesis by auto
qed

text \<open>A processor with its stack, and a handler that writes through its argument and comes back with other registers.\<close>
definition running :: cpu where
  "running = \<lparr>c_eax = 1, c_ecx = 2, c_edx = 3, c_ebx = 4, c_esp = 0x8040, c_ebp = 5, c_esi = 6, c_edi = 7, c_eip = 0xC0101234,
     c_eflags = 0x202, c_cs = 8, c_ds = 0x23, c_es = 0x23, c_fs = 0x23, c_gs = 0x23, c_words = (\<lambda>a. Some (a + 1))\<rparr>"

definition clobber :: "cpu \<Rightarrow> cpu option" where
  "clobber t = Some (t\<lparr>c_eax := 0xDEAD, c_ecx := 0xDEAD, c_edx := 0xDEAD, c_words := (c_words t)(c_esp t \<mapsto> 0)\<rparr>)"

theorem irq_stub_restores_witness:
  "\<exists>m. (do { s1 \<leftarrow> interrupt_enter 8 0xC0100000 None running; run clobber irq_common_stub s1 }) = Some (running\<lparr>c_words := m\<rparr>)"
proof -
  have "of_nat (4 * i) \<noteq> (0 :: u32)" if "i \<in> {1..<16}" for i
  proof
    assume "of_nat (4 * i) = (0 :: u32)"
    moreover have "unat (of_nat (4 * i) :: u32) = 4 * i" by (rule unat_of_nat32) (use that in simp)
    ultimately show False using that by simp
  qed
  then have "keeps_frame 0x8000 clobber" by (simp add: keeps_frame_def clobber_def)
  then show ?thesis using irq_stub_restores[of running "0x8000" clobber 8 "0xC0100000"] by (simp add: running_def stack_at_def)
qed

subsection \<open>Exceptions\<close>

lemma exc_regs_offsets [simp]:
  "offsetof exc_regs_layout ''gs'' = 0" "offsetof exc_regs_layout ''fs'' = 4" "offsetof exc_regs_layout ''es'' = 8"
  "offsetof exc_regs_layout ''ds'' = 12" "offsetof exc_regs_layout ''edi'' = 16" "offsetof exc_regs_layout ''esi'' = 20"
  "offsetof exc_regs_layout ''ebp'' = 24" "offsetof exc_regs_layout ''esp'' = 28" "offsetof exc_regs_layout ''ebx'' = 32"
  "offsetof exc_regs_layout ''edx'' = 36" "offsetof exc_regs_layout ''ecx'' = 40" "offsetof exc_regs_layout ''eax'' = 44"
  "offsetof exc_regs_layout ''error_code'' = 48" "sizeof exc_regs_layout = 52"
  by (simp_all add: layout_simps exc_regs_layout_def)

text \<open>The structure that \<open>exception_handle\<close> reads through its argument.\<close>
definition exc_regs_at :: "(u32 \<Rightarrow> u32 option) \<Rightarrow> u32 \<Rightarrow> exc_regs option" where
  "exc_regs_at m frame = (let field = (\<lambda>x. m (frame + offsetof exc_regs_layout x)) in do {
     gs \<leftarrow> field ''gs''; fs \<leftarrow> field ''fs''; es \<leftarrow> field ''es''; ds \<leftarrow> field ''ds'';
     edi \<leftarrow> field ''edi''; esi \<leftarrow> field ''esi''; ebp \<leftarrow> field ''ebp''; esp \<leftarrow> field ''esp'';
     ebx \<leftarrow> field ''ebx''; edx \<leftarrow> field ''edx''; ecx \<leftarrow> field ''ecx''; eax \<leftarrow> field ''eax'';
     error_code \<leftarrow> field ''error_code'';
     Some \<lparr>exc_regs.x_gs = gs, x_fs = fs, x_es = es, x_ds = ds, x_edi = edi, x_esi = esi, x_ebp = ebp, x_esp = esp,
       x_ebx = ebx, x_edx = edx, x_ecx = ecx, x_eax = eax, x_error_code = error_code\<rparr> })"

lemma exception_enter_run:
  assumes "c_esp s = p + (case code of None \<Rightarrow> 68 | Some e \<Rightarrow> 72)" and "stack_at p 18 (c_words s)"
  shows "\<exists>m. (do { s1 \<leftarrow> interrupt_enter sel stub code s; run call [Cli, PushI n] s1 })
      = Some (s\<lparr>c_esp := p + 52, c_words := m, c_cs := sel, c_eip := stub, c_eflags := (c_eflags s AND NOT 0x34300) AND NOT 0x200\<rparr>)
    \<and> stack_at p 18 m \<and> m (p + 52) = Some n \<and> m (p + 56) = Some (case code of None \<Rightarrow> c_eip s | Some e \<Rightarrow> e)"
proof -
  have e: "p + 72 - 4 = p + 68" "p + 68 - 4 = p + 64" "p + 64 - 4 = p + 60" "p + 60 - 4 = p + 56" "p + 56 - 4 = p + 52" by simp_all
  obtain w1 w2 w3 w4 w5 where w: "c_words s (p + 52) = Some w1" "c_words s (p + 56) = Some w2" "c_words s (p + 60) = Some w3"
      "c_words s (p + 64) = Some w4" "c_words s (p + 68) = Some w5"
    using stack_at_word[OF assms(2), of 13 "p + 52"] stack_at_word[OF assms(2), of 14 "p + 56"] stack_at_word[OF assms(2), of 15 "p + 60"]
      stack_at_word[OF assms(2), of 16 "p + 64"] stack_at_word[OF assms(2), of 17 "p + 68"] by auto
  show ?thesis
  proof (cases code)
    case None
    let ?m = "(c_words s)(p + 64 \<mapsto> c_eflags s, p + 60 \<mapsto> (w3 AND 0xFFFF0000) OR ucast (c_cs s), p + 56 \<mapsto> c_eip s, p + 52 \<mapsto> n)"
    have "stack_at p 18 ?m" using assms(2) by (intro stack_at_upd)
    then show ?thesis using assms(1) None
      by (intro exI[of _ ?m]) (simp add: interrupt_enter_def w e push_def push16_def Let_def)
  next
    case (Some c)
    let ?m = "(c_words s)(p + 68 \<mapsto> c_eflags s, p + 64 \<mapsto> (w4 AND 0xFFFF0000) OR ucast (c_cs s), p + 60 \<mapsto> c_eip s, p + 56 \<mapsto> c, p + 52 \<mapsto> n)"
    have "stack_at p 18 ?m" using assms(2) by (intro stack_at_upd)
    then show ?thesis using assms(1) Some
      by (intro exI[of _ ?m]) (simp add: interrupt_enter_def w e push_def push16_def Let_def)
  qed
qed

text \<open>C21: \<open>exception_handle\<close> sees the number its stub pushes as \<open>error_code\<close> and the registers of the program that failed;
  \<open>esp\<close> is the pointer after the pushes, and the processor's error code, or \<open>eip\<close>, is the word behind the structure.\<close>
theorem exception_frame:
  assumes "c_esp s = p + (case code of None \<Rightarrow> 68 | Some e \<Rightarrow> 72)" and "stack_at p 18 (c_words s)"
  shows "\<exists>t r. (do { s1 \<leftarrow> interrupt_enter sel stub code s; run call (exception_stub n) s1 })
      = (do { u \<leftarrow> call t; run call [PopEax] u })
    \<and> c_esp t = p \<and> c_words t p = Some (p + 4) \<and> exc_regs_at (c_words t) (p + 4) = Some r
    \<and> x_error_code r = of_nat n \<and> x_eax r = c_eax s \<and> x_ebx r = c_ebx s \<and> x_ecx r = c_ecx s \<and> x_edx r = c_edx s
    \<and> x_esi r = c_esi s \<and> x_edi r = c_edi s \<and> x_ebp r = c_ebp s \<and> x_esp r = p + 52
    \<and> ucast (exc_regs.x_ds r) = c_ds s \<and> ucast (exc_regs.x_es r) = c_es s \<and> ucast (exc_regs.x_fs r) = c_fs s \<and> ucast (exc_regs.x_gs r) = c_gs s
    \<and> c_words t (p + 4 + sizeof exc_regs_layout) = Some (case code of None \<Rightarrow> c_eip s | Some e \<Rightarrow> e)"
proof -
  obtain m where i: "(do { s1 \<leftarrow> interrupt_enter sel stub code s; run call [Cli, PushI (of_nat n)] s1 })
      = Some (s\<lparr>c_esp := p + 52, c_words := m, c_cs := sel, c_eip := stub, c_eflags := (c_eflags s AND NOT 0x34300) AND NOT 0x200\<rparr>)"
    and m: "stack_at p 18 m" "m (p + 52) = Some (of_nat n)" "m (p + 56) = Some (case code of None \<Rightarrow> c_eip s | Some e \<Rightarrow> e)"
    using exception_enter_run[OF assms, of sel stub call "of_nat n"] by blast
  let ?s = "s\<lparr>c_esp := p + 52, c_words := m, c_cs := sel, c_eip := stub, c_eflags := (c_eflags s AND NOT 0x34300) AND NOT 0x200\<rparr>"
  obtain t where t: "run call save_all ?s = Some t" "c_esp t = p" "c_words t p = Some (p + 4)" "frame_at p ?s (c_words t)"
      "\<forall>a. 52 \<le> a - p \<longrightarrow> c_words t a = m a"
    using save_all_run[of ?s p call] stack_at_mono[OF m(1), of 13] by auto
  have a: "c_words t (p + 52) = Some (of_nat n)" "c_words t (p + 56) = Some (case code of None \<Rightarrow> c_eip s | Some e \<Rightarrow> e)"
    using t(5) m(2,3) by simp_all
  have "exception_stub n = [Cli, PushI (of_nat n)] @ save_all @ [CallC, PopEax]" by (simp add: stub_parts)
  then have "(do { s1 \<leftarrow> interrupt_enter sel stub code s; run call (exception_stub n) s1 })
      = (do { s2 \<leftarrow> (do { s1 \<leftarrow> interrupt_enter sel stub code s; run call [Cli, PushI (of_nat n)] s1 });
              run call (save_all @ [CallC, PopEax]) s2 })"
    by (cases "interrupt_enter sel stub code s") (simp_all only: run_append Option.bind.simps)
  then have r: "(do { s1 \<leftarrow> interrupt_enter sel stub code s; run call (exception_stub n) s1 })
      = (do { u \<leftarrow> call t; run call [PopEax] u })"
    unfolding i Option.bind.simps run_append t(1) run.simps(2)[of call CallC] exec.simps .
  have "\<exists>r. exc_regs_at (c_words t) (p + 4) = Some r
    \<and> x_error_code r = of_nat n \<and> x_eax r = c_eax s \<and> x_ebx r = c_ebx s \<and> x_ecx r = c_ecx s \<and> x_edx r = c_edx s
    \<and> x_esi r = c_esi s \<and> x_edi r = c_edi s \<and> x_ebp r = c_ebp s \<and> x_esp r = p + 52
    \<and> ucast (exc_regs.x_ds r) = c_ds s \<and> ucast (exc_regs.x_es r) = c_es s \<and> ucast (exc_regs.x_fs r) = c_fs s \<and> ucast (exc_regs.x_gs r) = c_gs s
    \<and> c_words t (p + 4 + sizeof exc_regs_layout) = Some (case code of None \<Rightarrow> c_eip s | Some e \<Rightarrow> e)"
    using t(4) a by (auto simp: exc_regs_at_def frame_at_def add.commute[of p])
  then show ?thesis using r t(2,3) by blast
qed

theorem exception_frame_witness:
  "\<exists>t r. (do { s1 \<leftarrow> interrupt_enter 8 0xC0100000 (Some 2) (running\<lparr>c_esp := 0x8048\<rparr>); run clobber (exception_stub 14) s1 })
      = (do { u \<leftarrow> clobber t; run clobber [PopEax] u })
    \<and> exc_regs_at (c_words t) 0x8004 = Some r \<and> x_error_code r = 14 \<and> x_eax r = 1 \<and> c_words t 0x8038 = Some 2"
  using exception_frame[of "running\<lparr>c_esp := 0x8048\<rparr>" "0x8000" "Some 2" 8 "0xC0100000" clobber 14]
  by (auto simp: running_def stack_at_def)

subsection \<open>irq.c: irq_regs_print\<close>

lemma irq_regs_offsets [simp]:
  "offsetof irq_regs_layout ''gs'' = 0" "offsetof irq_regs_layout ''fs'' = 2" "offsetof irq_regs_layout ''es'' = 4"
  "offsetof irq_regs_layout ''ds'' = 6" "offsetof irq_regs_layout ''edi'' = 8" "offsetof irq_regs_layout ''esi'' = 12"
  "offsetof irq_regs_layout ''ebx'' = 24" "offsetof irq_regs_layout ''edx'' = 28"
  "offsetof irq_regs_layout ''ecx'' = 32" "offsetof irq_regs_layout ''eax'' = 36"
  by (simp_all add: layout_simps irq_regs_layout_def)

definition irq_regs_print :: "device \<Rightarrow> (u32 \<Rightarrow> u32 option) \<Rightarrow> u32 \<Rightarrow> console \<Rightarrow> console option" where
  "irq_regs_print dev rd regs c = (let field = (\<lambda>x. rd (regs + offsetof irq_regs_layout x)) in do {
     eax \<leftarrow> field ''eax''; c1 \<leftarrow> say_line dev ''EAX: %X'' [Word eax] c;
     ebx \<leftarrow> field ''ebx''; c2 \<leftarrow> say_line dev ''EBX: %X'' [Word ebx] c1;
     ecx \<leftarrow> field ''ecx''; c3 \<leftarrow> say_line dev ''ECX: %X'' [Word ecx] c2;
     edx \<leftarrow> field ''edx''; c4 \<leftarrow> say_line dev ''EDX: %X'' [Word edx] c3;
     esi \<leftarrow> field ''esi''; c5 \<leftarrow> say_line dev ''ESI: %X'' [Word esi] c4;
     edi \<leftarrow> field ''edi''; c6 \<leftarrow> say_line dev ''EDI: %X'' [Word edi] c5;
     ebp \<leftarrow> field ''ebp''; esp \<leftarrow> field ''esp'';
     c7 \<leftarrow> say_lines dev ['''', ''Stack: %X:%X''] [Word ebp, Word esp] c6;
     eip \<leftarrow> field ''eip''; say_line dev ''EIP: %X'' [Word eip] c7 })"

text \<open>C23: \<open>irq_regs_t\<close> does not describe the frame of \<open>irq_common_stub\<close>: its segment registers take half the room, and the two
  fields before \<open>eip\<close> make up for it. What \<open>irq_regs_print\<close> calls eax, ebx, ecx and edx are edx, ebp, ebx and the stack
  pointer; only \<open>eip\<close> is the interrupted program's.\<close>
theorem irq_regs_shifted:
  assumes "frame_at p s m" and "m (p + 52) = Some (c_eip s)"
  shows "\<exists>ds es. ucast ds = c_ds s \<and> ucast es = c_es s \<and> irq_regs_print dev m (p + 4) c = do {
     c1 \<leftarrow> say_line dev ''EAX: %X'' [Word (c_edx s)] c; c2 \<leftarrow> say_line dev ''EBX: %X'' [Word (c_ebp s)] c1;
     c3 \<leftarrow> say_line dev ''ECX: %X'' [Word (c_ebx s)] c2; c4 \<leftarrow> say_line dev ''EDX: %X'' [Word (p + 52)] c3;
     c5 \<leftarrow> say_line dev ''ESI: %X'' [Word ds] c4; c6 \<leftarrow> say_line dev ''EDI: %X'' [Word es] c5;
     c7 \<leftarrow> say_lines dev ['''', ''Stack: %X:%X''] [Word (c_edi s), Word (c_esi s)] c6;
     say_line dev ''EIP: %X'' [Word (c_eip s)] c7 }"
proof -
  obtain ds es where w: "m (p + 16) = Some ds" "ucast ds = c_ds s" "m (p + 12) = Some es" "ucast es = c_es s"
    using assms(1) by (auto simp: frame_at_def)
  then show ?thesis using assms
    by (intro exI[of _ ds] exI[of _ es]) (auto simp: irq_regs_print_def frame_at_def add.commute[of p])
qed

theorem irq_regs_shifted_witness:
  "\<forall>dev c. \<exists>t ds es. run clobber save_all (running\<lparr>c_esp := 0x8034\<rparr>) = Some t \<and> ucast ds = (0x23 :: u16) \<and> ucast es = (0x23 :: u16)
    \<and> irq_regs_print dev (c_words t) 0x8004 c = do {
     c1 \<leftarrow> say_line dev ''EAX: %X'' [Word 3] c; c2 \<leftarrow> say_line dev ''EBX: %X'' [Word 5] c1;
     c3 \<leftarrow> say_line dev ''ECX: %X'' [Word 4] c2; c4 \<leftarrow> say_line dev ''EDX: %X'' [Word 0x8034] c3;
     c5 \<leftarrow> say_line dev ''ESI: %X'' [Word (ds :: u32)] c4; c6 \<leftarrow> say_line dev ''EDI: %X'' [Word (es :: u32)] c5;
     c7 \<leftarrow> say_lines dev ['''', ''Stack: %X:%X''] [Word 7, Word 6] c6;
     say_line dev ''EIP: %X'' [Word 0x8035] c7 }" (is "\<forall>dev c. ?P dev c")
proof (intro allI)
  fix dev c
  let ?s = "running\<lparr>c_esp := 0x8034, c_eip := 0x8035\<rparr>"
  obtain t where t: "run clobber save_all (running\<lparr>c_esp := 0x8034\<rparr>) = Some t" "frame_at 0x8000 (running\<lparr>c_esp := 0x8034\<rparr>) (c_words t)"
      "\<forall>a. 52 \<le> a - 0x8000 \<longrightarrow> c_words t a = c_words running a"
    using save_all_run[of "running\<lparr>c_esp := 0x8034\<rparr>" "0x8000" clobber] by (auto simp: running_def stack_at_def)
  have "frame_at 0x8000 ?s (c_words t)" using t(2) by (simp add: frame_at_def)
  moreover have "c_words t (0x8000 + 52) = Some (c_eip ?s)" using t(3)[rule_format, of "0x8034"] by (simp add: running_def)
  ultimately show "?P dev c" using irq_regs_shifted[of "0x8000" ?s "c_words t" dev c] t(1) by (simp add: running_def)
qed

subsection \<open>gdt.asm\<close>

record gdt_entry =
  g_limit_low :: u16
  g_base_low :: u16
  g_base_middle :: u8
  g_access :: u8
  g_granularity :: u8
  g_base_high :: u8

definition create_gdt_entry :: "u32 \<Rightarrow> u32 \<Rightarrow> u8 \<Rightarrow> u8 \<Rightarrow> gdt_entry" where
  "create_gdt_entry base limit access gran =
     \<lparr>g_limit_low = ucast (limit AND 0xFFFF), g_base_low = ucast (base AND 0xFFFF), g_base_middle = ucast (drop_bit 16 base AND 0xFF),
      g_access = access, g_granularity = ucast (drop_bit 16 limit AND 0x0F) OR (gran AND 0xF0),
      g_base_high = ucast (drop_bit 24 base AND 0xFF)\<rparr>"

definition our_gdt_entries :: "gdt_entry list" where
  "our_gdt_entries = [create_gdt_entry 0 0 0 0, create_gdt_entry 0 0xFFFFFFFF 0x9A 0xCF, create_gdt_entry 0 0xFFFFFFFF 0x92 0xCF,
     create_gdt_entry 0 0xFFFFFFFF 0xFA 0xCF, create_gdt_entry 0 0xFFFFFFFF 0xF2 0xCF, create_gdt_entry 0 0x67 0x89 0xCF]"

text \<open>\<open>tss_set\<close> stores through the registers \<open>ecx\<close>, \<open>ebx\<close> and \<open>eax\<close>, of which it stores the low 16, 8 and 8 bits.\<close>
definition tss_set :: "u32 \<Rightarrow> gdt_entry list \<Rightarrow> gdt_entry list" where
  "tss_set tss gdt = (let
     ecx = tss AND 0xFFFFF;
     ebx = drop_bit 16 tss AND 0xFF;
     eax = drop_bit 24 tss AND 0xFF
   in gdt[5 := (gdt ! 5)\<lparr>g_base_low := ucast ecx, g_base_middle := ucast ebx, g_base_high := ucast eax\<rparr>])"

text \<open>What the processor makes of an entry. With the granularity bit the limit counts pages.\<close>
definition seg_base :: "gdt_entry \<Rightarrow> u32" where
  "seg_base g = push_bit 24 (ucast (g_base_high g)) OR push_bit 16 (ucast (g_base_middle g)) OR ucast (g_base_low g)"

definition seg_limit :: "gdt_entry \<Rightarrow> u32" where
  "seg_limit g = (let l = push_bit 16 (ucast (g_granularity g AND 0x0F)) OR ucast (g_limit_low g) in
     if bit (g_granularity g) 7 then push_bit 12 l OR 0xFFF else l)"

datatype segment = Code nat | Data nat | Tss | Other

definition seg_kind :: "gdt_entry \<Rightarrow> segment option" where
  "seg_kind g = (let a = g_access g; dpl = unat (drop_bit 5 a AND 3) in
     if \<not> bit a 7 then None
     else if bit a 4 then Some (if bit a 3 then Code dpl else Data dpl)
     else Some (if a AND 0x0F = 0x09 then Tss else Other))"

definition segment_of :: "gdt_entry list \<Rightarrow> u16 \<Rightarrow> (segment \<times> u32 \<times> u32) option" where
  "segment_of gdt sel = do {
     g \<leftarrow> (if bit sel 2 then None else aget gdt (unat (drop_bit 3 sel)));
     k \<leftarrow> seg_kind g;
     Some (k, seg_base g, seg_limit g) }"

lemma our_segments:
  "segment_of our_gdt_entries 0x08 = Some (Code 0, 0, 0xFFFFFFFF)" "segment_of our_gdt_entries 0x10 = Some (Data 0, 0, 0xFFFFFFFF)"
  "segment_of our_gdt_entries 0x18 = Some (Code 3, 0, 0xFFFFFFFF)" "segment_of our_gdt_entries 0x20 = Some (Data 3, 0, 0xFFFFFFFF)"
  "segment_of our_gdt_entries 0 = None"
  by code_simp+

lemma tss_base: "seg_base (g\<lparr>g_base_low := ucast (tss AND 0xFFFFF), g_base_middle := ucast (drop_bit 16 tss AND 0xFF),
    g_base_high := ucast (drop_bit 24 tss AND 0xFF)\<rparr>) = tss"
proof (rule bit_word_eqI)
  fix n assume "n < LENGTH(32)"
  then have n: "n < 32" by simp
  have f: "(0xFFFFF :: u32) = mask 20" "(0xFF :: u32) = mask 8" by (simp_all add: mask_eq_exp_minus_1)
  show "bit (seg_base (g\<lparr>g_base_low := ucast (tss AND 0xFFFFF), g_base_middle := ucast (drop_bit 16 tss AND 0xFF),
    g_base_high := ucast (drop_bit 24 tss AND 0xFF)\<rparr>)) n = bit tss n"
    using n unfolding seg_base_def f by (cases "n < 24") (auto simp: bit_simps)
qed

lemma tss_iopb_offset: "offsetof tss_layout ''iopb_offset'' = 98"
  by (simp add: layout_simps tss_layout_def)

text \<open>C22: After \<open>tss_set\<close> the segment of the task register starts at the TSS, and the other segments are what they were. Its
  limit counts pages: it ends 416 KiB behind its start, where \<open>tss_t\<close> has 102 bytes, and \<open>iopb_offset\<close> is the field at 98, not
  the one at 102 that the processor reads.\<close>
theorem tss_set_segment:
  "segment_of (tss_set tss our_gdt_entries) 0x28 = Some (Tss, tss, 0x67FFF) \<and> size_of tss_layout = 102 \<and> offset_of tss_layout ''iopb_offset'' = 98
   \<and> (\<forall>sel. drop_bit 3 sel \<noteq> 5 \<longrightarrow> segment_of (tss_set tss our_gdt_entries) sel = segment_of our_gdt_entries sel)"
proof -
  have e: "seg_kind (our_gdt_entries ! 5) = Some Tss" "seg_limit (our_gdt_entries ! 5) = 0x67FFF" "length our_gdt_entries = 6"
    by code_simp+
  have "\<not> bit (0x28 :: u16) 2" "unat (drop_bit 3 (0x28 :: u16)) = 5" by code_simp+
  then have "segment_of (tss_set tss our_gdt_entries) 0x28 = Some (Tss, tss, 0x67FFF)"
    using e by (simp add: segment_of_def tss_set_def aget_def tss_base) (simp add: seg_kind_def seg_limit_def)
  moreover have "segment_of (tss_set tss our_gdt_entries) sel = segment_of our_gdt_entries sel" if "drop_bit 3 sel \<noteq> 5" for sel
  proof -
    have "unat (drop_bit 3 sel) \<noteq> 5" using that word_unat_eq_iff[of "drop_bit 3 sel" 5] by simp
    then show ?thesis by (simp add: segment_of_def tss_set_def aget_def Let_def)
  qed
  ultimately show ?thesis by (simp add: layout_simps tss_layout_def)
qed

theorem tss_set_segment_witness:
  "segment_of (tss_set 0xC0110000 our_gdt_entries) 0x28 = Some (Tss, 0xC0110000, 0x67FFF)
   \<and> segment_of (tss_set 0xC0110000 our_gdt_entries) 0x08 = Some (Code 0, 0, 0xFFFFFFFF)"
proof -
  have "drop_bit 3 (0x08 :: u16) \<noteq> 5" by code_simp
  then show ?thesis using tss_set_segment[of "0xC0110000"] our_segments(1) by metis
qed

end
