(* ===== verification/Startup.thy ===== *)
theory Startup
  imports Smp Tasks Kmain Stubs
begin

text \<open>
  The rest of \<open>src/src/arch/i386/kmain.c\<close>: \<open>load_interrupts\<close>, \<open>kernel_main\<close> and \<open>late_kernel_main\<close>, which put the other parts together.
  \<open>kernel\<close> is the state of tasks, clock and interrupts (\<open>Tasks\<close>) extended by that of the rest; the parts whose states are extended in
  another way see it through \<open>as_acpi\<close> and \<open>as_smp\<close>. The calls of memory management and paging that change state not modelled here are the
  fields of \<open>services\<close>, the addresses the linker assigns those of \<open>symbols\<close>. The properties are that every gate of the interrupt table is
  what it should be whatever the ACPI tables say, when \<open>load_interrupts\<close> returns, and that the timer brings the processor from \<open>kernel_main\<close> to \<open>late_kernel_main\<close>.
  The messages of \<open>kernel_main\<close> and \<open>load_interrupts\<close> are left out.
\<close>

subsection \<open>The state of the kernel\<close>

text \<open>The state of tasks, clock and interrupts, with what the other parts keep beside it: memory, the ACPI tables as the kernel sees
  them, and the console with the state of \<open>smp.c\<close>. Of \<open>k_smp\<close> the fields of the interrupts are not used.\<close>
record kernel = sched +
  k_mm :: mm
  k_tables :: mem
  k_cpu_count :: u32
  k_irq_redir :: "u32 list"
  k_smp :: smp

text \<open>The state as \<open>acpi.c\<close> and \<open>smp.c\<close> see it, and back.\<close>
definition as_acpi :: "kernel \<Rightarrow> kernel acpi_scheme" where
  "as_acpi s = \<lparr>io_log = io_log s, gates = gates s, idtp_size = idtp_size s, lapic_base = lapic_base s, ioapic_base = ioapic_base s,
     apic_msr = apic_msr s, amem = k_tables s, cpu_count = k_cpu_count s, acpi_irq_redir = k_irq_redir s, \<dots> = s\<rparr>"

definition from_acpi :: "kernel acpi_scheme \<Rightarrow> kernel" where
  "from_acpi a = (acpi.more a)\<lparr>io_log := io_log a, gates := gates a, idtp_size := idtp_size a, lapic_base := lapic_base a,
     ioapic_base := ioapic_base a, apic_msr := apic_msr a, k_tables := amem a, k_cpu_count := cpu_count a, k_irq_redir := acpi_irq_redir a\<rparr>"

definition as_smp :: "kernel \<Rightarrow> kernel smp_scheme" where
  "as_smp s = (smp.extend (k_smp s) s)\<lparr>io_log := io_log s, gates := gates s, idtp_size := idtp_size s, lapic_base := lapic_base s,
     ioapic_base := ioapic_base s, apic_msr := apic_msr s, irq_current_regs := irq_current_regs s, irq_happening := irq_happening s,
     irq_handlers := irq_handlers s, sm_cpu_count := k_cpu_count s\<rparr>"

definition from_smp :: "kernel smp_scheme \<Rightarrow> kernel" where
  "from_smp a = (smp.more a)\<lparr>io_log := io_log a, gates := gates a, idtp_size := idtp_size a, lapic_base := lapic_base a,
     ioapic_base := ioapic_base a, apic_msr := apic_msr a, irq_current_regs := irq_current_regs a, irq_happening := irq_happening a,
     irq_handlers := irq_handlers a, k_cpu_count := sm_cpu_count a, k_smp := smp.truncate a\<rparr>"

lemma views: "from_acpi (as_acpi s) = s" "from_smp (as_smp s) = s\<lparr>k_smp := smp.truncate (as_smp s)\<rparr>"
  by (simp_all add: from_acpi_def as_acpi_def from_smp_def as_smp_def smp.defs)

definition on_kernel :: "('a \<Rightarrow> 'k) \<Rightarrow> ('k \<Rightarrow> 'a) \<Rightarrow> ('k \<Rightarrow> ('r \<times> 'k) option) \<Rightarrow> 'a \<Rightarrow> ('r \<times> 'a) option" where
  "on_kernel to_k from_k f a = do { (r, s) \<leftarrow> f (to_k a); Some (r, from_k s) }"

text \<open>The calls of the memory management, of paging and of the other processors.\<close>
record services =
  sv_kmalloc :: "u32 \<Rightarrow> kernel \<Rightarrow> (u32 \<times> kernel) option"
  sv_kfree :: "u32 \<Rightarrow> kernel \<Rightarrow> kernel option"
  sv_memmap :: "u32 \<Rightarrow> u32 \<Rightarrow> u32 \<Rightarrow> kernel \<Rightarrow> (u32 \<times> kernel) option"
  sv_memunmap :: "u32 \<Rightarrow> u32 \<Rightarrow> kernel \<Rightarrow> kernel option"
  sv_vasa_alloc :: "u32 \<Rightarrow> u32 \<Rightarrow> kernel \<Rightarrow> (u32 \<times> kernel) option"
  sv_vasa_dealloc :: "u32 \<Rightarrow> kernel \<Rightarrow> kernel option"
  sv_paging_map :: "u32 \<Rightarrow> u32 \<Rightarrow> u16 \<Rightarrow> kernel \<Rightarrow> (bool \<times> kernel) option"
  sv_paging_unmap :: "u32 \<Rightarrow> kernel \<Rightarrow> kernel option"
  sv_dir_copy :: "kernel \<Rightarrow> ((u32 \<times> u32) option \<times> kernel) option"
  sv_load_dir :: "u32 \<Rightarrow> kernel \<Rightarrow> kernel option"
  sv_others :: "kernel \<Rightarrow> kernel"

text \<open>The symbols of the linker.\<close>
record symbols =
  at_idt_empty_entry :: u32
  at_exception_stub :: "nat \<Rightarrow> u32"
  at_irq_common_stub :: u32
  at_irq_empty_stub :: u32
  at_pit_handle_interrupt :: u32
  at_scheduler_advance :: u32
  at_late_kernel_main :: u32
  at_task_name :: u32
  at_ap_boot_init :: u32
  at_ap_boot_end :: u32
  at_page_table_base :: u32

definition to_smp :: "(kernel \<Rightarrow> kernel option) \<Rightarrow> kernel smp_scheme \<Rightarrow> kernel smp_scheme option" where
  "to_smp f a = map_option as_smp (f (from_smp a))"

definition smp_services :: "symbols \<Rightarrow> services \<Rightarrow> (nat \<Rightarrow> u32) \<Rightarrow> kernel smp_scheme smp_ops" where
  "smp_services Y V junk = \<lparr>
     s_kmalloc = (\<lambda>n. on_kernel from_smp as_smp (sv_kmalloc V n)),
     s_kfree = (\<lambda>p. to_smp (sv_kfree V p)),
     s_memmap = (\<lambda>a n fl. on_kernel from_smp as_smp (sv_memmap V a n fl)),
     s_memunmap = (\<lambda>a n. to_smp (sv_memunmap V a n)),
     s_vasa_alloc = (\<lambda>n fl. on_kernel from_smp as_smp (sv_vasa_alloc V n fl)),
     s_vasa_dealloc = (\<lambda>p. to_smp (sv_vasa_dealloc V p)),
     s_paging_map = (\<lambda>p v fl. on_kernel from_smp as_smp (sv_paging_map V p v fl)),
     s_paging_unmap = (\<lambda>v. to_smp (sv_paging_unmap V v)),
     s_start = at_ap_boot_init Y, s_end = at_ap_boot_end Y, s_junk = junk\<rparr>"

definition task_services :: "device \<Rightarrow> services \<Rightarrow> kernel task_env" where
  "task_services dev V = \<lparr>env_dev = dev, env_malloc = sv_kmalloc V, env_free = sv_kfree V,
     env_memmap = sv_memmap V NULL, env_memunmap = sv_memunmap V, env_dir_copy = sv_dir_copy V, env_load_dir = sv_load_dir V\<rparr>"

subsection \<open>load_interrupts and kernel_main\<close>

definition enable_remapped :: "device \<Rightarrow> u8 \<Rightarrow> kernel \<Rightarrow> kernel option" where
  "enable_remapped dev irq s = do {
     r \<leftarrow> acpi_irq_remap (ucast irq) (as_acpi s);
     Some (ioapic_enable_irq dev r (0x20 + irq) s) }"

text \<open>The calls that replace the PIC by the APIC.\<close>
definition load_apic :: "symbols \<Rightarrow> services \<Rightarrow> (nat \<Rightarrow> u32) \<Rightarrow> device \<Rightarrow> kernel \<Rightarrow> kernel option" where
  "load_apic Y V junk dev s = do {
     t1 \<leftarrow> lapic_enable dev (sv_vasa_alloc V) (sv_paging_map V) (at_irq_empty_stub Y) (pic_disable s);
     t2 \<leftarrow> enable_remapped dev 0 t1;
     t3 \<leftarrow> enable_remapped dev 1 t2;
     t4 \<leftarrow> enable_remapped dev 11 t3;
     t5 \<leftarrow> enable_remapped dev 12 t4;
     b \<leftarrow> smp_init (smp_services Y V junk) (\<lambda>a. as_smp (sv_others V (from_smp a))) dev (as_smp t5);
     Some (from_smp b) }"

definition load_interrupts :: "symbols \<Rightarrow> services \<Rightarrow> (nat \<Rightarrow> u32) \<Rightarrow> device \<Rightarrow> u32 option \<Rightarrow> bool \<Rightarrow> kernel \<Rightarrow> kernel option" where
  "load_interrupts Y V junk dev cpuid_edx apic_overide s = do {
     let s1 = idt_load (idt_init (at_idt_empty_entry Y) s);
     let s2 = pic_enable dev 0x20 0x28 s1;
     (acpi, a) \<leftarrow> acpi_init dev (\<lambda>n fl. on_kernel from_acpi as_acpi (sv_vasa_alloc V n fl))
        (\<lambda>p v fl. on_kernel from_acpi as_acpi (sv_paging_map V p v fl)) (as_acpi s2);
     let s3 = from_acpi a;
     s4 \<leftarrow> (if acpi \<and> apic_supported cpuid_edx \<and> \<not> apic_overide then load_apic Y V junk dev s3 else Some s3);
     pit_init (at_pit_handle_interrupt Y) (exception_init (at_exception_stub Y) (irq_init (at_irq_common_stub Y) s4)) }"

text \<open>\<open>vga_init\<close> works on the console.\<close>
definition screen_init :: "kernel \<Rightarrow> kernel option" where
  "screen_init s = do { c \<leftarrow> vga_init (ps2_tty (k_smp s)); Some (s\<lparr>k_smp := (k_smp s)\<lparr>ps2_tty := c\<rparr>\<rparr>) }"

text \<open>The calls after \<open>load_memory\<close>; the result is the state in which interrupts are enabled.\<close>
definition kernel_start :: "symbols \<Rightarrow> services \<Rightarrow> (nat \<Rightarrow> u32) \<Rightarrow> device \<Rightarrow> u32 option \<Rightarrow> clock_event \<Rightarrow> kernel \<Rightarrow> kernel option" where
  "kernel_start Y V junk dev cpuid_edx garbage s = do {
     s1 \<leftarrow> rs232_init dev s;
     s2 \<leftarrow> screen_init s1;
     s3 \<leftarrow> load_interrupts Y V junk dev cpuid_edx False s2;
     task_init (task_services dev V) garbage (at_scheduler_advance Y) (at_task_name Y) (at_late_kernel_main Y)
       (clock_init (tss_init s3)) }"

text \<open>With another magic number the function does not come to an end. The allocators \<open>load_memory\<close> uses are its first four arguments.\<close>
definition kernel_main :: "(u32 \<Rightarrow> slub \<Rightarrow> (u32 \<times> slub) option) \<Rightarrow> nat \<Rightarrow> (u32 \<Rightarrow> kheap \<Rightarrow> (u32 \<times> kheap) option) \<Rightarrow> (u32 \<Rightarrow> kheap \<Rightarrow> (bool \<times> kheap) option)
    \<Rightarrow> (u32 \<Rightarrow> u32 option) \<Rightarrow> symbols \<Rightarrow> services \<Rightarrow> (nat \<Rightarrow> u32) \<Rightarrow> device \<Rightarrow> u32 option \<Rightarrow> clock_event
    \<Rightarrow> u32 \<Rightarrow> u32 \<Rightarrow> u32 \<Rightarrow> u32 \<Rightarrow> kernel \<Rightarrow> kernel option" where
  "kernel_main mmp cpu large lfree rd Y V junk dev cpuid_edx garbage magic multiboot kernel_heap_start kernel_heap_size s =
     (if magic \<noteq> 0x2BADB002 then None
      else do {
        m \<leftarrow> load_memory mmp cpu large lfree rd multiboot (at_page_table_base Y) kernel_heap_start kernel_heap_size (k_mm s);
        kernel_start Y V junk dev cpuid_edx garbage (s\<lparr>k_mm := m\<rparr>) })"

subsection \<open>late_kernel_main\<close>

text \<open>The state of the drivers with the file system and the frames beside it.\<close>
record 'h late = rtl +
  lt_fs :: "'h fstate"
  lt_frames :: frame

definition on_files :: "('h late_sys \<Rightarrow> 'h late_sys option) \<Rightarrow> 'h late \<Rightarrow> 'h late option" where
  "on_files f s = do {
     r \<leftarrow> f \<lparr>ls_fs = lt_fs s, ls_tty = (ps2_tty s)\<lparr>io_log := io_log s\<rparr>\<rparr>;
     Some (s\<lparr>lt_fs := ls_fs r, ps2_tty := ls_tty r, io_log := io_log (ls_tty r)\<rparr>) }"

text \<open>Up to the endless loop at the end. \<open>kb\<close> and \<open>mouse\<close> are the addresses of the interrupt handlers, \<open>name_at\<close> that of the array in
  \<open>quick_list\<close>.\<close>
definition late_kernel_main :: "'h mem_ops \<Rightarrow> pci pci_ops \<Rightarrow> 'h late rtl_ops \<Rightarrow> device \<Rightarrow> u32 \<Rightarrow> u32 \<Rightarrow> u32 \<Rightarrow> 'h late \<Rightarrow> 'h late option" where
  "late_kernel_main M P R dev kb mouse name_at s = do {
     s1 \<leftarrow> tty_print dev (line_fmt ''late main: Hello from late main!'') [] s;
     f \<leftarrow> vfs_init M (lt_fs s1);
     (_, s2) \<leftarrow> on_pci (\<lambda>p. do { p1 \<leftarrow> pci_init P dev p; Some ((), p1) }) (s1\<lparr>lt_fs := f\<rparr>);
     s3 \<leftarrow> rtl8139_init R dev s2;
     s4 \<leftarrow> ps2_init dev kb mouse s3;
     s5 \<leftarrow> on_files (file_test M dev name_at) s4;
     n \<leftarrow> frame_free_count (lt_frames s5);
     tty_print dev (line_fmt ''free phys mem: %m'') [Word n] s5 }"

subsection \<open>What keeps the gates\<close>

lemma io_keeps_gates [simp]:
  "gates (io_event e s) = gates s" "gates (reg_write a v s) = gates s" "gates (snd (reg_read dev a s)) = gates s"
  "gates (outportb p b s) = gates s" "gates (snd (inportb dev p s)) = gates s" "gates (snd (inportw dev p s)) = gates s"
  "gates (io_wait s) = gates s" "gates (pic_enable dev m l s) = gates s" "gates (pic_disable s) = gates s"
  by (simp_all add: io_event_def reg_write_def reg_read_def outportb_def inportb_def inportw_def io_wait_def Let_def
      pic_enable_def pic_disable_def pic_eoi_def)

lemma lapic_keeps_gates [simp]:
  "gates (snd (lapic_register_readl dev r s)) = gates s" "gates (lapic_register_writel dev r v s) = gates s"
  "gates (snd (lapic_get_id dev s)) = gates s" "gates (lapic_enable_spurious_interrupt dev i s) = gates s"
  by (simp_all add: lapic_register_readl_def lapic_register_writel_def lapic_get_id_def lapic_enable_spurious_interrupt_def case_prod_beta Let_def)

lemma ioapic_keeps_gates [simp]:
  "gates (ioapic_register_writel r v s) = gates s" "gates (snd (ioapic_register_readl dev r s)) = gates s"
  "gates (snd (ioapic_get_id dev s)) = gates s" "gates (snd (ioapic_get_version dev s)) = gates s" "gates (snd (ioapic_get_irqs dev s)) = gates s"
  "gates (snd (ioapic_get_redirect_entry dev q s)) = gates s" "gates (ioapic_set_redirect_entry q e s) = gates s"
  "gates (ioapic_enable_irq dev i vec s) = gates s"
  by (simp_all add: ioapic_register_writel_def ioapic_register_readl_def ioapic_get_id_def ioapic_get_version_def ioapic_get_irqs_def
      ioapic_get_redirect_entry_def ioapic_set_redirect_entry_def ioapic_enable_irq_def case_prod_beta Let_def)

lemma pair_gates: "f s = (v, s') \<Longrightarrow> gates (snd (f s)) = gates s \<Longrightarrow> gates s' = gates s"
  by simp

lemma lapic_wait_gates:
  assumes "lapic_wait dev s = Some s'"
  shows "gates s' = gates s"
  by (rule lapic_wait.raw_induct[where P = "\<lambda>dev s s'. gates s' = gates s", OF _ assms])
    (auto simp: case_prod_beta Let_def split: if_splits)

lemma ioapic_mask_loop_gates:
  assumes "ioapic_mask_loop dev i s = Some s'"
  shows "gates s' = gates s"
  by (rule ioapic_mask_loop.raw_induct[where P = "\<lambda>dev i s s'. gates s' = gates s", OF _ assms])
    (auto simp: case_prod_beta Let_def split: if_splits)

text \<open>A service that leaves the gates alone.\<close>
definition keeps_gates :: "('a apic_scheme \<Rightarrow> ('r \<times> 'a apic_scheme) option) \<Rightarrow> bool" where
  "keeps_gates f \<longleftrightarrow> (\<forall>s r s'. f s = Some (r, s') \<longrightarrow> gates s' = gates s)"

lemma keeps_gatesD: "keeps_gates f \<Longrightarrow> f s = Some (r, s') \<Longrightarrow> gates s' = gates s"
  by (auto simp: keeps_gates_def)

lemma ioapic_setup_gates:
  assumes "\<And>n fl. keeps_gates (va n fl)" and "\<And>p v fl. keeps_gates (pm p v fl)" and "ioapic_setup dev va pm base s = Some s'"
  shows "gates s' = gates s"
  using assms(3) keeps_gatesD[OF assms(1)] keeps_gatesD[OF assms(2)]
  by (auto simp: ioapic_setup_def Let_def split: bind_splits if_splits dest!: ioapic_mask_loop_gates)

lemma acpi_map_ptr_gates:
  assumes "\<And>n fl. keeps_gates (va n fl)" and "\<And>p v fl. keeps_gates (pm p v fl)" and "acpi_map_ptr va pm phys len s = Some (p, s')"
  shows "gates s' = gates s"
  using assms(3) keeps_gatesD[OF assms(1)] keeps_gatesD[OF assms(2)]
  by (auto simp: acpi_map_ptr_def split: bind_splits if_splits)

lemma acpi_wait_gates:
  assumes "acpi_wait dev port s = Some s'"
  shows "gates s' = gates s"
  by (rule acpi_wait.raw_induct[where P = "\<lambda>dev port s s'. gates s' = gates s", OF _ assms])
    (auto simp: case_prod_beta Let_def split: if_splits)

lemma madt_record_gates:
  assumes "\<And>n fl. keeps_gates (va n fl)" and "\<And>p v fl. keeps_gates (pm p v fl)" and "madt_record dev va pm head s = Some (h, s')"
  shows "gates s' = gates s"
  using assms(3) ioapic_setup_gates[OF assms(1,2)]
  by (auto simp: madt_record_def Let_def split: bind_splits if_splits)

lemma madt_loop_gates:
  assumes "\<And>n fl. keeps_gates (va n fl)" and "\<And>p v fl. keeps_gates (pm p v fl)" and "madt_loop dev va pm head e s = Some s'"
  shows "gates s' = gates s"
proof -
  have "(\<forall>n fl. keeps_gates (va n fl)) \<longrightarrow> (\<forall>p v fl. keeps_gates (pm p v fl)) \<longrightarrow> gates s' = gates s"
    by (rule madt_loop.raw_induct[where P = "\<lambda>dev va pm head e s s'. (\<forall>n fl. keeps_gates (va n fl)) \<longrightarrow> (\<forall>p v fl. keeps_gates (pm p v fl)) \<longrightarrow> gates s' = gates s", OF _ assms(3)])
      (auto split: bind_splits if_splits option.splits dest!: madt_record_gates[rotated 2])
  then show ?thesis using assms(1,2) by blast
qed

lemma acpi_parse_gates:
  assumes "\<And>n fl. keeps_gates (va n fl)" and "\<And>p v fl. keeps_gates (pm p v fl)"
  shows "acpi_parse_madt dev va pm t s = Some s' \<Longrightarrow> gates s' = gates s" and "acpi_parse_fadt dev t s = Some s' \<Longrightarrow> gates s' = gates s"
proof -
  show "acpi_parse_madt dev va pm t s = Some s' \<Longrightarrow> gates s' = gates s"
    using madt_loop_gates[OF assms] by (fastforce simp: acpi_parse_madt_def split: bind_splits)
  show "acpi_parse_fadt dev t s = Some s' \<Longrightarrow> gates s' = gates s"
    by (auto simp: acpi_parse_fadt_def case_prod_beta Let_def split: bind_splits if_splits dest!: acpi_wait_gates)
qed

lemma rsdt_loop_gates:
  assumes "\<And>n fl. keeps_gates (va n fl)" and "\<And>p v fl. keeps_gates (pm p v fl)"
    and "\<And>p s s'. parse p s = Some s' \<Longrightarrow> gates s' = gates s" and "rsdt_loop va pm parse ptr e s = Some s'"
  shows "gates s' = gates s"
proof -
  have "(\<forall>n fl. keeps_gates (va n fl)) \<longrightarrow> (\<forall>p v fl. keeps_gates (pm p v fl)) \<longrightarrow> (\<forall>p s s'. parse p s = Some s' \<longrightarrow> gates s' = gates s) \<longrightarrow> gates s' = gates s"
    by (rule rsdt_loop.raw_induct[where P = "\<lambda>va pm parse ptr e s s'. (\<forall>n fl. keeps_gates (va n fl)) \<longrightarrow> (\<forall>p v fl. keeps_gates (pm p v fl))
        \<longrightarrow> (\<forall>p s s'. parse p s = Some s' \<longrightarrow> gates s' = gates s) \<longrightarrow> gates s' = gates s", OF _ assms(4)])
      (auto split: bind_splits if_splits dest!: acpi_map_ptr_gates[rotated 2])
  then show ?thesis using assms(1-3) by blast
qed

lemma acpi_parse_rsdt_gates:
  assumes "\<And>n fl. keeps_gates (va n fl)" and "\<And>p v fl. keeps_gates (pm p v fl)"
    and "\<And>p s s'. parse p s = Some s' \<Longrightarrow> gates s' = gates s" and "acpi_parse_rsdt va pm parse t s = Some (b, s')"
  shows "gates s' = gates s"
  using assms(4) rsdt_loop_gates[where va=va and pm=pm and parse=parse, OF assms(1-3)] by (auto simp: acpi_parse_rsdt_def Let_def split: bind_splits if_splits)

lemma acpi_parse_table_gates:
  assumes "\<And>n fl. keeps_gates (va n fl)" and "\<And>p v fl. keeps_gates (pm p v fl)" and "acpi_parse_table dev va pm t s = Some s'"
  shows "gates s' = gates s"
proof -
  let ?P = "\<lambda>dev va pm t s s'. (\<forall>n fl. keeps_gates (va n fl)) \<longrightarrow> (\<forall>p v fl. keeps_gates (pm p v fl)) \<longrightarrow> gates s' = gates s"
  have "?P dev va pm t s s'"
  proof (rule acpi_parse_table.raw_induct[where P = ?P, OF _ assms(3)], intro impI)
    fix parse dev va pm t s s'
    assume IH: "\<And>dev va pm t s s'. parse dev va pm t s = Some s' \<Longrightarrow> ?P dev va pm t s s'"
      and va: "\<forall>n fl. keeps_gates (va n fl)" and pm: "\<forall>p v fl. keeps_gates (pm p v fl)"
      and body: "do {
         a \<leftarrow> amem s t; b \<leftarrow> amem s (t + 1); c \<leftarrow> amem s (t + 2); d \<leftarrow> amem s (t + 3);
         let name = (push_bit 24 (ucast a) OR push_bit 16 (ucast b) OR push_bit 8 (ucast c) OR ucast d :: u32);
         if name = ACPI_SIGNATURE_RSDT then do { (_, s1) \<leftarrow> acpi_parse_rsdt va pm (parse dev va pm) t s; Some s1 }
         else if name = ACPI_SIGNATURE_FADP then acpi_parse_fadt dev t s
         else if name = ACPI_SIGNATURE_APIC then acpi_parse_madt dev va pm t s
         else Some s } = Some s'"
    have va': "keeps_gates (va n fl)" and pm': "keeps_gates (pm p v f)" for n fl p v f using va pm by blast+
    have p: "gates r' = gates r" if "parse dev va pm p r = Some r'" for p r r' using IH[OF that] va pm by blast
    have rsdt: "acpi_parse_rsdt va pm (parse dev va pm) t s = Some (b, r) \<Longrightarrow> gates r = gates s" for b r
      by (rule acpi_parse_rsdt_gates[OF va' pm' p])
    note other = acpi_parse_gates[OF va' pm']
    show "gates s' = gates s" using body
      by (auto simp: Let_def split: bind_splits if_splits dest: rsdt other)
  qed
  then show ?thesis using assms(1,2) by blast
qed

lemma acpi_init_gates:
  assumes "\<And>n fl. keeps_gates (va n fl)" and "\<And>p v fl. keeps_gates (pm p v fl)" and "acpi_init dev va pm s = Some (b, s')"
  shows "gates s' = gates s"
proof -
  have r: "gates t' = gates t" if "acpi_parse_rsdt va pm (acpi_parse_table dev va pm) p t = Some (b, t')" for p t b t'
    by (rule acpi_parse_rsdt_gates[OF assms(1,2) acpi_parse_table_gates[OF assms(1,2)] that])
  from assms(3) show ?thesis
    by (auto simp: acpi_init_def split: bind_splits if_splits dest!: r acpi_map_ptr_gates[OF assms(1,2)])
qed

subsection \<open>The other processors\<close>

lemma tty_print_gates: "tty_print dev fmt args s = Some s' \<Longrightarrow> gates s' = gates s"
  by (auto simp: tty_print_def split: bind_splits)

lemma lapic_get_id_gates: "lapic_get_id dev s = (i, s') \<Longrightarrow> gates s' = gates s"
  using lapic_keeps_gates(3)[of dev s] by simp

lemma lapic_send_gates: "lapic_send dev a c s = Some s' \<Longrightarrow> gates s' = gates s"
  unfolding lapic_send_def by (drule lapic_wait_gates) simp

lemma bit_wait_gates:
  assumes "\<And>s. gates (others s) = gates s" and "bit_wait others i s = Some s'"
  shows "gates s' = gates s"
proof -
  have "(\<forall>s. gates (others s) = gates s) \<longrightarrow> gates s' = gates s"
    by (rule bit_wait.raw_induct[where P = "\<lambda>others i s s'. (\<forall>s. gates (others s) = gates s) \<longrightarrow> gates s' = gates s", OF _ assms(2)])
      (auto simp: Let_def split: if_splits)
  then show ?thesis using assms(1) by blast
qed

lemma start_cpus_gates:
  assumes "\<And>s. gates (others s) = gates s"
  shows "start_cpus others dev i n s = Some s' \<Longrightarrow> gates s' = gates s"
proof (induction n arbitrary: i s)
  case (Suc n)
  then show ?case
    by (auto simp: case_prod_beta Let_def smp_wait_def lapic_send_init_def lapic_send_startup_def split: bind_splits if_splits
        dest!: Suc.IH bit_wait_gates[OF assms] tty_print_gates lapic_send_gates)
qed simp

text \<open>The calls \<open>smp_init\<close> makes.\<close>
definition smp_keeps_gates :: "'a smp_scheme smp_ops \<Rightarrow> bool" where
  "smp_keeps_gates ops \<longleftrightarrow> (\<forall>n. keeps_gates (s_kmalloc ops n)) \<and> (\<forall>a n fl. keeps_gates (s_memmap ops a n fl)) \<and> (\<forall>n fl. keeps_gates (s_vasa_alloc ops n fl))
     \<and> (\<forall>p v fl. keeps_gates (s_paging_map ops p v fl)) \<and> (\<forall>p s s'. s_kfree ops p s = Some s' \<longrightarrow> gates s' = gates s)
     \<and> (\<forall>a n s s'. s_memunmap ops a n s = Some s' \<longrightarrow> gates s' = gates s)"

lemma smp_keeps_gatesD:
  assumes "smp_keeps_gates ops"
  shows "s_kmalloc ops n s = Some (p, s') \<Longrightarrow> gates s' = gates s" "s_memmap ops a n fl s = Some (p, s') \<Longrightarrow> gates s' = gates s"
    "s_vasa_alloc ops n fl s = Some (p, s') \<Longrightarrow> gates s' = gates s" "s_paging_map ops x v f s = Some (b, s') \<Longrightarrow> gates s' = gates s"
    "s_kfree ops p s = Some s' \<Longrightarrow> gates s' = gates s" "s_memunmap ops a n s = Some s' \<Longrightarrow> gates s' = gates s"
  using assms by (auto simp: smp_keeps_gates_def keeps_gates_def)

lemma unmap_stacks_gates:
  assumes "smp_keeps_gates ops"
  shows "unmap_stacks ops i j n s = Some s' \<Longrightarrow> gates s' = gates s"
proof (induction n arbitrary: j s)
  case (Suc n)
  then show ?case by (auto split: bind_splits if_splits dest!: Suc.IH smp_keeps_gatesD(6)[OF assms])
qed simp

lemma alloc_stacks_gates:
  assumes "smp_keeps_gates ops"
  shows "alloc_stacks ops dev i n s = Some (b, s') \<Longrightarrow> gates s' = gates s"
proof (induction n arbitrary: i s)
  case (Suc n)
  then show ?case
    by (auto simp: case_prod_beta Let_def split: bind_splits if_splits
        dest!: Suc.IH smp_keeps_gatesD(2,5)[OF assms] unmap_stacks_gates[OF assms] tty_print_gates)
qed simp

lemma smp_setup_gates:
  assumes "smp_keeps_gates ops"
  shows "smp_alloc_stack ops dev s = Some (b, s') \<Longrightarrow> gates s' = gates s" "smp_setup_trampoline ops dev s = Some (b, s') \<Longrightarrow> gates s' = gates s"
  by (auto simp: smp_alloc_stack_def smp_setup_trampoline_def case_prod_beta Let_def split: bind_splits if_splits
      dest!: alloc_stacks_gates[OF assms] tty_print_gates smp_keeps_gatesD[OF assms])

lemma smp_init_gates:
  assumes "smp_keeps_gates ops" and "\<And>s. gates (others s) = gates s" and "smp_init ops others dev s = Some s'"
  shows "gates s' = gates s"
  using assms(3)
  by (auto simp: smp_init_def case_prod_beta Let_def split: bind_splits if_splits
      dest!: smp_setup_gates[OF assms(1)] start_cpus_gates[OF assms(2)] tty_print_gates)

subsection \<open>The gates\<close>

definition gate_for :: "u32 \<Rightarrow> idt_gate" where
  "gate_for a = \<lparr>offset_low = ucast (a AND 0xFFFF), selector = 0x08, unused = 0, flags = 0x8E, offset_high = ucast (drop_bit 16 a AND 0xFFFF)\<rparr>"

text \<open>Where the processor goes on.\<close>
definition gate_address :: "idt_gate \<Rightarrow> u32" where
  "gate_address g = push_bit 16 (ucast (offset_high g)) OR ucast (offset_low g)"

lemma gate_for_address: "gate_address (gate_for a) = a"
proof (rule bit_word_eqI)
  fix n assume "n < LENGTH(32)"
  then have n: "n < 32" by simp
  have m: "(0xFFFF :: u32) = mask 16" by (simp add: mask_eq_exp_minus_1)
  show "bit (gate_address (gate_for a)) n = bit a n" unfolding gate_address_def gate_for_def m
    using n by (auto simp: bit_simps)
qed

lemma set_gates_loop_nth:
  assumes "\<And>j. j < i + n \<Longrightarrow> unat (num j) = k + j" and "k + i + n \<le> 256" and "length (gates s) = 256"
  shows "length (gates (set_gates_loop num addr i n s)) = 256 \<and> (\<forall>v<256. gates (set_gates_loop num addr i n s) ! v
    = (if k + i \<le> v \<and> v < k + i + n then gate_for (addr (v - k)) else gates s ! v))"
  using assms
proof (induction n arbitrary: i s)
  case (Suc n)
  have u: "unat (num i) = k + i" using Suc.prems(1)[of i] by simp
  let ?s = "idt_set_gate (num i) (addr i) 0x08 0x8E s"
  have g: "gates ?s = (gates s)[k + i := gate_for (addr i)]"
    using u Suc.prems(2) by (simp add: idt_set_gate_def IDT_GATE_COUNT_def gate_for_def)
  have IH: "length (gates (set_gates_loop num addr (Suc i) n ?s)) = 256 \<and> (\<forall>v<256. gates (set_gates_loop num addr (Suc i) n ?s) ! v
    = (if k + Suc i \<le> v \<and> v < k + Suc i + n then gate_for (addr (v - k)) else gates ?s ! v))"
    using Suc.prems by (intro Suc.IH) (simp_all add: g)
  have e: "k + i \<le> v \<and> v < k + i + Suc n \<longleftrightarrow> v = k + i \<or> k + Suc i \<le> v \<and> v < k + Suc i + n" for v by linarith
  show ?case unfolding e using IH Suc.prems(2,3) by (auto simp: g nth_list_update)
qed auto

text \<open>Where each of the 256 gates leads. The last one is the spurious interrupt of the APIC, when it is enabled.\<close>
definition gate_targets :: "symbols \<Rightarrow> nat \<Rightarrow> u32 set" where
  "gate_targets Y v = (if v < 20 then {at_exception_stub Y v} else if 32 \<le> v \<and> v < 48 then {at_irq_common_stub Y}
     else if v = 255 then {at_idt_empty_entry Y, at_irq_empty_stub Y} else {at_idt_empty_entry Y})"

definition services_keep_gates :: "services \<Rightarrow> bool" where
  "services_keep_gates V \<longleftrightarrow> (\<forall>n. keeps_gates (sv_kmalloc V n)) \<and> (\<forall>a n fl. keeps_gates (sv_memmap V a n fl)) \<and> (\<forall>n fl. keeps_gates (sv_vasa_alloc V n fl))
     \<and> (\<forall>p v fl. keeps_gates (sv_paging_map V p v fl)) \<and> (\<forall>p s s'. sv_kfree V p s = Some s' \<longrightarrow> gates s' = gates s)
     \<and> (\<forall>a n s s'. sv_memunmap V a n s = Some s' \<longrightarrow> gates s' = gates s) \<and> (\<forall>s. gates (sv_others V s) = gates s)"

lemma view_gates [simp]: "gates (as_acpi s) = gates s" "gates (from_acpi a) = gates a" "gates (as_smp s) = gates s" "gates (from_smp b) = gates b"
  by (simp_all add: as_acpi_def from_acpi_def as_smp_def) (cases "smp.more b", simp add: from_smp_def)

lemma on_kernel_gates:
  assumes "keeps_gates f"
  shows "keeps_gates (on_kernel from_acpi as_acpi f)" "keeps_gates (on_kernel from_smp as_smp f)"
  using keeps_gatesD[OF assms] by (auto simp: keeps_gates_def on_kernel_def split: bind_splits)

lemma smp_services_gates: "services_keep_gates V \<Longrightarrow> smp_keeps_gates (smp_services Y V junk)"
  by (auto simp: services_keep_gates_def smp_keeps_gates_def smp_services_def on_kernel_gates to_smp_def)

lemma lapic_enable_gates:
  assumes "\<And>n fl. keeps_gates (va n fl)" and "\<And>p v fl. keeps_gates (pm p v fl)" and "lapic_enable dev va pm a s = Some s'"
  shows "gates s' = gates s \<or> gates s' = (gates s)[255 := gate_for a]"
  using assms(3) keeps_gatesD[OF assms(1)] keeps_gatesD[OF assms(2)]
  by (auto simp: lapic_enable_def Let_def idt_set_gate_def IDT_GATE_COUNT_def gate_for_def split: bind_splits if_splits)

lemma pit_init_gates: "pit_init h s = Some s' \<Longrightarrow> gates s' = gates s \<and> irq_handlers s' = (irq_handlers s)[0 := h] \<and> irq_handlers s \<noteq> []"
  by (auto simp: pit_init_def irq_register_def aset_def pit_start_def pit_cmd_send_def pit_data_send_def outportb_def io_event_def io_wait_def Let_def
      split: bind_splits if_splits)

lemma enable_remapped_gates: "enable_remapped dev i s = Some s' \<Longrightarrow> gates s' = gates s"
  by (auto simp: enable_remapped_def split: bind_splits)

lemma services_gatesD:
  assumes "services_keep_gates V"
  shows "keeps_gates (sv_vasa_alloc V n fl)" "keeps_gates (sv_paging_map V p v f)" "gates (sv_others V s) = gates s"
  using assms by (auto simp: services_keep_gates_def)

lemma load_apic_gates:
  assumes "services_keep_gates V" and "load_apic Y V junk dev s = Some t"
  shows "gates t = gates s \<or> gates t = (gates s)[255 := gate_for (at_irq_empty_stub Y)]"
proof -
  note V = services_gatesD[OF assms(1)]
  obtain t1 t2 t3 t4 t5 b where
    t: "lapic_enable dev (sv_vasa_alloc V) (sv_paging_map V) (at_irq_empty_stub Y) (pic_disable s) = Some t1"
      "enable_remapped dev 0 t1 = Some t2" "enable_remapped dev 1 t2 = Some t3" "enable_remapped dev 11 t3 = Some t4" "enable_remapped dev 12 t4 = Some t5"
    and b: "smp_init (smp_services Y V junk) (\<lambda>a. as_smp (sv_others V (from_smp a))) dev (as_smp t5) = Some b" "t = from_smp b"
    using assms(2) by (auto simp: load_apic_def split: bind_splits)
  have "gates b = gates t5" using smp_init_gates[OF smp_services_gates[OF assms(1)] _ b(1)] V(3) by simp
  moreover have "gates t5 = gates t1" using t(2-5) by (auto dest!: enable_remapped_gates)
  ultimately show ?thesis using lapic_enable_gates[OF V(1,2) t(1)] b(2) by simp
qed

lemma load_interrupts_handler:
  assumes "load_interrupts Y V junk dev cpuid_edx apic_overide s = Some s'"
  shows "aget (irq_handlers s') 0 = Some (at_pit_handle_interrupt Y)"
proof -
  obtain t where t: "pit_init (at_pit_handle_interrupt Y) t = Some s'"
    using assms by (auto simp: load_interrupts_def Let_def Option.bind_eq_Some_conv)
  from pit_init_gates[OF t] show ?thesis by (cases "irq_handlers t") (simp_all add: aget_def)
qed

text \<open>C10: When \<open>load_interrupts\<close> returns (it waits for ACPI to be enabled, for the APIC and for the other processors, and need not
  return from a root table that leads back to itself), then, whatever the ACPI tables and the devices say, every gate of the
  table is a present interrupt gate into the kernel's flat code segment: the twenty exceptions lead to their stubs, the sixteen
  interrupts to \<open>irq_common_stub\<close>, the others to the handlers that do nothing. Interrupt 0 is handled by the timer. The calls of
  the memory management and the other processors must leave the table alone. \<open>load_interrupts_returns\<close> shows a machine on which it returns.\<close>
theorem interrupt_gates:
  assumes "load_interrupts Y V junk dev cpuid_edx apic_overide s = Some s'" and "length (gates s) = 256" and "services_keep_gates V"
  shows "length (gates s') = 256 \<and> (\<forall>v<256. let g = gates s' ! v in gate_address g \<in> gate_targets Y v \<and> flags g = 0x8E \<and> unused g = 0
      \<and> segment_of our_gdt_entries (selector g) = Some (Code 0, 0, 0xFFFFFFFF))
    \<and> aget (irq_handlers s') 0 = Some (at_pit_handle_interrupt Y)"
proof -
  let ?s2 = "pic_enable dev 0x20 0x28 (idt_load (idt_init (at_idt_empty_entry Y) s))"
  have i: "length (gates ?s2) = 256 \<and> (\<forall>v<256. gates ?s2 ! v = gate_for (at_idt_empty_entry Y))"
    using set_gates_loop_nth[of 0 256 "of_nat :: nat \<Rightarrow> u32" 0 s "\<lambda>_. at_idt_empty_entry Y"] assms(2)
    by (simp add: idt_init_def idt_load_def IDT_GATE_COUNT_def unat_of_nat32)
  obtain t where t: "gates t = gates ?s2 \<or> gates t = (gates ?s2)[255 := gate_for (at_irq_empty_stub Y)]"
    and p: "pit_init (at_pit_handle_interrupt Y) (exception_init (at_exception_stub Y) (irq_init (at_irq_common_stub Y) t)) = Some s'"
  proof -
    obtain acpi a t where a: "acpi_init dev (\<lambda>n fl. on_kernel from_acpi as_acpi (sv_vasa_alloc V n fl))
        (\<lambda>p v fl. on_kernel from_acpi as_acpi (sv_paging_map V p v fl)) (as_acpi ?s2) = Some (acpi, a)"
      and t: "(if acpi \<and> apic_supported cpuid_edx \<and> \<not> apic_overide then load_apic Y V junk dev (from_acpi a) else Some (from_acpi a)) = Some t"
      and p: "pit_init (at_pit_handle_interrupt Y) (exception_init (at_exception_stub Y) (irq_init (at_irq_common_stub Y) t)) = Some s'"
      using assms(1) by (auto simp: load_interrupts_def Let_def Option.bind_eq_Some_conv)
    have "gates a = gates ?s2"
      using acpi_init_gates[OF on_kernel_gates(1)[OF services_gatesD(1)[OF assms(3)]] on_kernel_gates(1)[OF services_gatesD(2)[OF assms(3)]] a] by simp
    then have "gates t = gates ?s2 \<or> gates t = (gates ?s2)[255 := gate_for (at_irq_empty_stub Y)]"
      using t load_apic_gates[OF assms(3), of Y junk dev "from_acpi a" t] by (cases "acpi \<and> apic_supported cpuid_edx \<and> \<not> apic_overide") auto
    then show thesis using that p by blast
  qed
  let ?q = "irq_init (at_irq_common_stub Y) t"
  have l: "length (gates t) = 256" using t i by auto
  have q: "length (gates ?q) = 256 \<and> (\<forall>v<256. gates ?q ! v = (if 32 \<le> v \<and> v < 48 then gate_for (at_irq_common_stub Y) else gates t ! v))"
    using set_gates_loop_nth[of 0 16 "\<lambda>i. of_nat i + 0x20 :: u32" 32 t "\<lambda>_. at_irq_common_stub Y"] l
    by (simp add: irq_init_def unat_of_nat32 unat_word_ariths)
  have x: "length (gates s') = 256 \<and> (\<forall>v<256. gates s' ! v = (if v < 20 then gate_for (at_exception_stub Y v) else gates ?q ! v))"
    using set_gates_loop_nth[of 0 20 "of_nat :: nat \<Rightarrow> u32" 0 ?q "at_exception_stub Y"] q pit_init_gates[OF p]
    by (simp add: exception_init_def unat_of_nat32)
  have g: "\<exists>a \<in> gate_targets Y v. gates s' ! v = gate_for a" if "v < 256" for v
    using x q t i that by (auto simp: gate_targets_def nth_list_update)
  have seg: "segment_of our_gdt_entries 0x08 = Some (Code 0, 0, 0xFFFFFFFF)" by code_simp
  have "let g = gates s' ! v in gate_address g \<in> gate_targets Y v \<and> flags g = 0x8E \<and> unused g = 0
      \<and> segment_of our_gdt_entries (selector g) = Some (Code 0, 0, 0xFFFFFFFF)" if v: "v < 256" for v
  proof -
    obtain a where a: "a \<in> gate_targets Y v" "gates s' ! v = gate_for a" using g[OF v] by blast
    have "selector (gate_for a) = 0x08" "flags (gate_for a) = 0x8E" "unused (gate_for a) = 0" by (simp_all add: gate_for_def)
    then show ?thesis using a(1) seg unfolding a(2) by (simp add: gate_for_address)
  qed
  then show ?thesis using x load_interrupts_handler[OF assms(1)] by blast
qed

subsection \<open>A machine without ACPI\<close>

lemma rsdp_scan_nothing: "rsdp_scan (\<lambda>_. Some 0) i n = Some NULL"
  by (induction n arbitrary: i) (simp_all add: rd32_def ACPI_SIGNATURE_RSDP1_def)

definition plain_symbols :: symbols where
  "plain_symbols = \<lparr>at_idt_empty_entry = 0xC0101000, at_exception_stub = (\<lambda>i. 0xC0102000 + 0x40 * of_nat i), at_irq_common_stub = 0xC0103000,
     at_irq_empty_stub = 0xC0104000, at_pit_handle_interrupt = 0xC0105000, at_scheduler_advance = 0xC0106000,
     at_late_kernel_main = 0xC0107000, at_task_name = 0xC0108000, at_ap_boot_init = 0xC0109000, at_ap_boot_end = 0xC0109100,
     at_page_table_base = 0xFFC00000\<rparr>"

text \<open>Memory is given out from 0xD0000000 to 0xD00FFFFF, in order, as long as it lasts, and stays mapped.\<close>
definition plain_give :: "u32 \<Rightarrow> kernel \<Rightarrow> (u32 \<times> kernel) option" where
  "plain_give n s = (let m = k_mm s; h = mm_heap m; p = kernel_mem_end h in
     if unat p + unat n \<le> 0xD0100000
     then Some (p, s\<lparr>k_mm := m\<lparr>mm_heap := h\<lparr>kernel_mem_end := p + n\<rparr>\<rparr>, words := (\<lambda>a. Some (case words s a of None \<Rightarrow> 0 | Some v \<Rightarrow> v))\<rparr>)
     else Some (NULL, s))"

definition plain_room :: "nat \<Rightarrow> mm \<Rightarrow> bool" where
  "plain_room k m \<longleftrightarrow> 0xD0000000 \<le> unat (kernel_mem_end (mm_heap m)) \<and> unat (kernel_mem_end (mm_heap m)) + k * 4096 \<le> 0xD0100000"

definition plain_services :: services where
  "plain_services = \<lparr>sv_kmalloc = plain_give, sv_kfree = (\<lambda>_. Some), sv_memmap = (\<lambda>_ n _. plain_give n),
     sv_memunmap = (\<lambda>_ _. Some), sv_vasa_alloc = (\<lambda>n _. plain_give n), sv_vasa_dealloc = (\<lambda>_. Some),
     sv_paging_map = (\<lambda>_ _ _ s. Some (True, s)), sv_paging_unmap = (\<lambda>_. Some), sv_dir_copy = (\<lambda>s. Some (None, s)),
     sv_load_dir = (\<lambda>_. Some), sv_others = id\<rparr>"

definition plain_kernel :: kernel where
  "plain_kernel = \<lparr>io_log = [], gates = replicate 256 (gate_for 0), idtp_size = 0, lapic_base = 0, ioapic_base = 0, apic_msr = 0,
     irq_current_regs = 0, irq_happening = False, irq_handlers = replicate 16 NULL, clock_root = 0, events = Map.empty, sleep_counter = 0,
     ms_per_tick = 0, tasks = Map.empty, task_pid_table = (\<lambda>_. NULL), sched_current = 0, first_run = True, words = (\<lambda>_. Some 0),
     tss_esp0 = 0, tss_ss0 = 0, tss_iopb_offset = 0, k_mm = boot_mm\<lparr>mm_heap := (mm_heap boot_mm)\<lparr>kernel_mem_end := 0xD0000000\<rparr>\<rparr>, k_tables = (\<lambda>_. Some 0), k_cpu_count = 0, k_irq_redir = replicate 16 0xFFFFFFFF,
     k_smp = ps2.extend (ps2_on blank_console) (smp.fields Map.empty 0 0 [] 0 0)\<rparr>"

lemma only_log:
  "pic_enable dev m sl s = s\<lparr>io_log := io_log (pic_enable dev m sl s)\<rparr>"
  "irq_send_eoi dev i q = q\<lparr>io_log := io_log (irq_send_eoi dev i q)\<rparr>"
  by (simp_all add: pic_enable_def inportb_def outportb_def io_event_def io_wait_def Let_def irq_send_eoi_def lapic_eoi_def
      lapic_register_writel_def lapic_register_readl_def reg_read_def reg_write_def pic_eoi_def)

lemma set_gate_only: "idt_set_gate v a sel fl s = s\<lparr>gates := gates (idt_set_gate v a sel fl s)\<rparr>"
  by (simp add: idt_set_gate_def)

lemma only_gates: "\<exists>g. set_gates_loop num addr i n s = s\<lparr>gates := g\<rparr>"
proof (induction n arbitrary: i s)
  case 0
  show ?case by (intro exI[of _ "gates s"]) simp
next
  case (Suc n)
  obtain g where g: "idt_set_gate (num i) (addr i) 0x08 0x8E s = s\<lparr>gates := g\<rparr>" using set_gate_only by blast
  obtain h where "set_gates_loop num addr (Suc i) n (s\<lparr>gates := g\<rparr>) = s\<lparr>gates := g, gates := h\<rparr>" using Suc.IH by blast
  then show ?case by (intro exI[of _ h]) (simp add: g)
qed

lemma gates_leave [simp]:
  "k_tables (set_gates_loop num addr i n s) = k_tables s" "irq_handlers (set_gates_loop num addr i n t) = irq_handlers t"
  using only_gates[of num addr i n s] only_gates[of num addr i n t] by auto

lemma load_interrupts_plain:
  assumes "k_tables s = (\<lambda>_. Some 0)"
  shows "load_interrupts Y V junk dev cpuid_edx apic_overide s = pit_init (at_pit_handle_interrupt Y) (exception_init (at_exception_stub Y)
    (irq_init (at_irq_common_stub Y) (pic_enable dev 0x20 0x28 (idt_load (idt_init (at_idt_empty_entry Y) s)))))"
proof -
  let ?s = "pic_enable dev 0x20 0x28 (idt_load (idt_init (at_idt_empty_entry Y) s))"
  have "k_tables ?s = (\<lambda>_. Some 0)"
    using arg_cong[OF only_log(1)[of dev "0x20" "0x28" "idt_load (idt_init (at_idt_empty_entry Y) s)"], of k_tables] assms(1)
    by (simp add: idt_load_def idt_init_def)
  then have "acpi_init dev va pm (as_acpi ?s) = Some (False, as_acpi ?s)" for va pm
    by (simp add: acpi_init_def rsdp_locate_def as_acpi_def rsdp_scan_nothing)
  then show ?thesis by (simp add: load_interrupts_def views)
qed

lemma load_interrupts_returns:
  assumes "k_tables s = (\<lambda>_. Some 0)" and "irq_handlers s \<noteq> []"
  shows "\<exists>l g z. load_interrupts Y V junk dev cpuid_edx apic_overide s = Some (s\<lparr>io_log := l, gates := g, idtp_size := z,
    irq_handlers := (irq_handlers s)[0 := at_pit_handle_interrupt Y], sleep_counter := 0, ms_per_tick := 2\<rparr>)"
proof -
  obtain g1 where 1: "idt_init (at_idt_empty_entry Y) s = s\<lparr>gates := g1\<rparr>" unfolding idt_init_def using only_gates by blast
  obtain l2 where 2: "pic_enable dev 0x20 0x28 (idt_load (s\<lparr>gates := g1\<rparr>)) = (idt_load (s\<lparr>gates := g1\<rparr>))\<lparr>io_log := l2\<rparr>" using only_log(1) by blast
  obtain g3 where 3: "irq_init (at_irq_common_stub Y) ((idt_load (s\<lparr>gates := g1\<rparr>))\<lparr>io_log := l2\<rparr>) = (idt_load (s\<lparr>gates := g1\<rparr>))\<lparr>io_log := l2, gates := g3\<rparr>"
    unfolding irq_init_def using only_gates by blast
  obtain g4 where 4: "exception_init (at_exception_stub Y) ((idt_load (s\<lparr>gates := g1\<rparr>))\<lparr>io_log := l2, gates := g3\<rparr>)
      = (idt_load (s\<lparr>gates := g1\<rparr>))\<lparr>io_log := l2, gates := g3, gates := g4\<rparr>"
    unfolding exception_init_def using only_gates by blast
  show ?thesis unfolding load_interrupts_plain[OF assms(1)] 1 2 3 4
    using assms(2) by (cases s) (simp add: idt_load_def pit_init_def irq_register_def aset_def pit_start_def pit_cmd_send_def pit_data_send_def outportb_def
        io_event_def io_wait_def Let_def)
qed

theorem interrupt_gates_witness:
  "\<exists>s'. load_interrupts plain_symbols plain_services (\<lambda>_. 0) (\<lambda>_ _. 1) (Some 0x200) False plain_kernel = Some s'
    \<and> length (gates s') = 256 \<and> (\<forall>v<256. let g = gates s' ! v in gate_address g \<in> gate_targets plain_symbols v \<and> flags g = 0x8E \<and> unused g = 0
      \<and> segment_of our_gdt_entries (selector g) = Some (Code 0, 0, 0xFFFFFFFF))
    \<and> aget (irq_handlers s') 0 = Some (at_pit_handle_interrupt plain_symbols)"
proof -
  obtain s' where s': "load_interrupts plain_symbols plain_services (\<lambda>_. 0) (\<lambda>_ _. 1) (Some 0x200) False plain_kernel = Some s'"
    using load_interrupts_returns[of plain_kernel] by (force simp: plain_kernel_def)
  have "services_keep_gates plain_services"
    by (auto simp: services_keep_gates_def keeps_gates_def plain_services_def plain_give_def Let_def split: if_splits)
  then show ?thesis using s' interrupt_gates[OF s'] by (simp add: plain_kernel_def)
qed

subsection \<open>From the first task to late_kernel_main\<close>

text \<open>A call of another part leaves the state of tasks, clock and interrupts alone; it may map further words of the stacks.\<close>
definition sched_kept :: "kernel \<Rightarrow> kernel \<Rightarrow> bool" where
  "sched_kept s s' \<longleftrightarrow> sched.truncate s' = sched.truncate (s\<lparr>words := words s'\<rparr>) \<and> words s \<subseteq>\<^sub>m words s'"

text \<open>What the first task needs of the memory management: while \<open>room (Suc k)\<close> holds of its state, the requests \<open>task_init\<close> makes (a block
  for a task or for a clock event, a stack, a copy of the page directory, which may fail) are answered and leave room for \<open>k\<close>
  more, a stack can be written to, and \<open>paging_load_directory\<close> returns. Nothing is asked of other requests or without room.\<close>
definition services_answer :: "services \<Rightarrow> (nat \<Rightarrow> mm \<Rightarrow> bool) \<Rightarrow> bool" where
  "services_answer V room \<longleftrightarrow>
     (\<forall>k s n. room (Suc k) (k_mm s) \<longrightarrow> n = sizeof task_layout \<or> n = sizeof clock_event_layout \<longrightarrow>
        (\<exists>p s'. sv_kmalloc V n s = Some (p, s') \<and> p \<noteq> NULL \<and> sched_kept s s' \<and> room k (k_mm s')))
     \<and> (\<forall>k s. room (Suc k) (k_mm s) \<longrightarrow> (\<exists>b s'. sv_memmap V NULL TASK_STACK_SIZE 6 s = Some (b, s') \<and> b \<noteq> 0 \<and> sched_kept s s' \<and> room k (k_mm s')
          \<and> (\<forall>i<1024. words s' (b + 4 * of_nat i) \<noteq> None)))
     \<and> (\<forall>k s. room (Suc k) (k_mm s) \<longrightarrow> (\<exists>r s'. sv_dir_copy V s = Some (r, s') \<and> sched_kept s s' \<and> room k (k_mm s')))
     \<and> (\<forall>d s. room 0 (k_mm s) \<longrightarrow> sv_load_dir V d s = Some s)"

lemma services_answerD:
  assumes "services_answer V room" and "room (Suc k) (k_mm s)"
  shows "n = sizeof task_layout \<or> n = sizeof clock_event_layout \<Longrightarrow>
      \<exists>p s'. sv_kmalloc V n s = Some (p, s') \<and> p \<noteq> NULL \<and> sched_kept s s' \<and> room k (k_mm s')"
    and "\<exists>b s'. sv_memmap V NULL TASK_STACK_SIZE 6 s = Some (b, s') \<and> b \<noteq> 0 \<and> sched_kept s s' \<and> room k (k_mm s')
          \<and> (\<forall>i<1024. words s' (b + 4 * of_nat i) \<noteq> None)"
    and "\<exists>r s'. sv_dir_copy V s = Some (r, s') \<and> sched_kept s s' \<and> room k (k_mm s')"
  using assms unfolding services_answer_def by blast+

lemma sched_keptD:
  assumes "sched_kept s s'"
  shows "tasks s' = tasks s" "events s' = events s" "clock_root s' = clock_root s" "irq_handlers s' = irq_handlers s" "ms_per_tick s' = ms_per_tick s"
    "first_run s' = first_run s" "lapic_base s' = lapic_base s" "apic_msr s' = apic_msr s" "sched_current s' = sched_current s"
    "task_pid_table s' = task_pid_table s"
  using assms by (auto simp: sched_kept_def sched.defs)

lemma sched_kept_words: "sched_kept s s' \<Longrightarrow> words s a = Some v \<Longrightarrow> words s' a = Some v"
  by (force simp: sched_kept_def map_le_def dom_def)

lemma zero_words_run:
  "(\<forall>i<n. words s (p + 4 * of_nat i) \<noteq> None) \<Longrightarrow> \<exists>w. zero_words p n s = Some (s\<lparr>words := w\<rparr>) \<and> (\<forall>i<n. w (p + 4 * of_nat i) = Some 0)
     \<and> (\<forall>a. words s a = Some 0 \<longrightarrow> w a = Some 0) \<and> (\<forall>a. words s a \<noteq> None \<longrightarrow> w a \<noteq> None)"
proof (induction n arbitrary: p s)
  case 0
  show ?case by (intro exI[of _ "words s"]) simp
next
  case (Suc n)
  let ?s = "s\<lparr>words := (words s)(p \<mapsto> 0)\<rparr>"
  have p: "put_word p 0 s = Some ?s" using Suc.prems[rule_format, of 0] by (simp add: put_word_def)
  have sh: "p + 4 + 4 * of_nat i = p + 4 * of_nat (Suc i)" for i by (simp add: algebra_simps)
  have "\<forall>i<n. words ?s (p + 4 + 4 * of_nat i) \<noteq> None" unfolding sh using Suc.prems by auto
  from Suc.IH[OF this] obtain w where w: "zero_words (p + 4) n ?s = Some (?s\<lparr>words := w\<rparr>)" "\<forall>i<n. w (p + 4 + 4 * of_nat i) = Some 0"
      "\<forall>a. words ?s a = Some 0 \<longrightarrow> w a = Some 0" "\<forall>a. words ?s a \<noteq> None \<longrightarrow> w a \<noteq> None" by blast
  have "w (p + 4 * of_nat i) = Some 0" if "i < Suc n" for i
    using that w(2)[unfolded sh] w(3)[rule_format, of p] by (cases i) auto
  then show ?case using p w(1,3,4) by (intro exI[of _ w]) auto
qed

text \<open>\<open>irq_exit\<close> of \<open>Tasks\<close> is what the instructions of the stub load.\<close>
lemma irq_exit_stub_runs:
  assumes "irq_exit (c_words c) (c_esp c) = Some r" and "stack_at (c_esp c) 15 (c_words c)"
  shows "\<exists>c'. run call irq_exit_stub c = Some c' \<and> c_gs c' = cpu_regs.x_gs r \<and> c_fs c' = cpu_regs.x_fs r \<and> c_es c' = cpu_regs.x_es r
    \<and> c_ds c' = cpu_regs.x_ds r \<and> c_eip c' = cpu_regs.x_eip r \<and> c_cs c' = cpu_regs.x_cs r \<and> c_eflags c' = cpu_regs.x_eflags r"
proof -
  define p where "p = c_esp c"
  obtain w where w: "\<And>i. i < 15 \<Longrightarrow> c_words c (p + of_nat (4 * i)) = Some (w i)"
    using stack_at_words[OF assms(2)] unfolding p_def by blast
  note m = w[of 0, simplified] w[of 1, simplified] w[of 2, simplified] w[of 3, simplified] w[of 4, simplified] w[of 5, simplified] w[of 6, simplified]
    w[of 7, simplified] w[of 8, simplified] w[of 9, simplified] w[of 10, simplified] w[of 11, simplified] w[of 12, simplified] w[of 13, simplified] w[of 14, simplified]
  have "r = cpu_regs.make (ucast (w 0)) (ucast (w 1)) (ucast (w 2)) (ucast (w 3)) (w 12) (ucast (w 13)) (w 14)"
    using assms(1) unfolding p_def[symmetric] by (simp add: irq_exit_def m cpu_regs.defs)
  then show ?thesis unfolding irq_exit_stub_def
    by (simp add: pop_def popad_def p_def[symmetric] m m[unfolded add.commute[of p]] cpu_regs.defs)
qed

text \<open>The state between the call of \<open>task_init\<close> and the first switch: one task, whose registers are at \<open>tos\<close>, and one countdown.\<close>
definition first_task :: "symbols \<Rightarrow> u32 \<Rightarrow> u32 \<Rightarrow> kernel \<Rightarrow> bool" where
  "first_task Y tos c s \<longleftrightarrow> (\<exists>p e x t. one_event p e s \<and> e_callback e = at_scheduler_advance Y \<and> e_counter e = c \<and> e_initial e = 10
     \<and> sched_current s = x \<and> tasks s x = Some t \<and> tk_next t = x \<and> tk_state t = TASK_STATE_STARTED \<and> user_regs (tk_cpu t) = tos \<and> first_run s
     \<and> aget (irq_handlers s) 0 = Some (at_pit_handle_interrupt Y) \<and> ms_per_tick s = 2
     \<and> irq_exit (words s) tos = Some (first_regs (at_late_kernel_main Y)) \<and> stack_at tos 15 (words s))"

lemma task_create_run:
  assumes "services_answer V room" and "room (Suc (Suc (Suc k))) (k_mm s)"
  shows "\<exists>x t s'. task_create (task_services dev V) name (s\<lparr>task_pid_table := (\<lambda>_. NULL)\<rparr>) = Some (x, s') \<and> x \<noteq> NULL \<and> tasks s' x = Some t
    \<and> tk_state t = TASK_STATE_STARTED \<and> events s' = events s \<and> clock_root s' = clock_root s \<and> irq_handlers s' = irq_handlers s
    \<and> ms_per_tick s' = ms_per_tick s \<and> first_run s' = first_run s \<and> lapic_base s' = lapic_base s \<and> apic_msr s' = apic_msr s
    \<and> room k (k_mm s')"
proof -
  let ?s = "s\<lparr>task_pid_table := (\<lambda>_. NULL)\<rparr>"
  have r: "room (Suc (Suc (Suc k))) (k_mm ?s)" using assms(2) by simp
  obtain x s1 where 1: "sv_kmalloc V (sizeof task_layout) ?s = Some (x, s1)" "x \<noteq> NULL" "sched_kept ?s s1" "room (Suc (Suc k)) (k_mm s1)"
    using services_answerD(1)[OF assms(1) r] by blast
  have pid: "pid_find_empty s1 = 0"
    using sched_keptD(10)[OF 1(3)] by (simp add: pid_find_empty_def pid_loop.simps[of _ 0] MAX_TASKS_def)
  define t0 where "t0 = \<lparr>tk_previous = NULL, tk_next = NULL, tk_name = name, tk_pid = 0, tk_state = TASK_STATE_STARTED,
          tk_cpu = \<lparr>cr3_phys = NULL, cr3_virt = NULL, stack_bottom = 0, stack_top = 0, user_regs = NULL,
                    int_stack_bottom = 0, int_stack_top = 0\<rparr>,
          tk_files = \<lparr>max_fid = 0, t_pairs = list_init\<rparr>\<rparr>"
  define s2 where "s2 = s1\<lparr>tasks := (tasks s1)(x \<mapsto> t0)\<rparr>"
  have r2: "room (Suc (Suc k)) (k_mm s2)" using 1(4) by (simp add: s2_def)
  obtain b s3 where 3: "sv_memmap V NULL TASK_STACK_SIZE 6 s2 = Some (b, s3)" "b \<noteq> 0" "sched_kept s2 s3" "\<forall>i<1024. words s3 (b + 4 * of_nat i) \<noteq> None"
      "room (Suc k) (k_mm s3)"
    using services_answerD(2)[OF assms(1) r2] by blast
  define c4 where "c4 = (tk_cpu t0)\<lparr>int_stack_bottom := b, int_stack_top := b + TASK_STACK_SIZE\<rparr>"
  define s4 where "s4 = s3\<lparr>tasks := (tasks s3)(x \<mapsto> t0\<lparr>tk_cpu := c4\<rparr>)\<rparr>"
  have r4: "room (Suc k) (k_mm s4)" using 3(5) by (simp add: s4_def)
  obtain d s5 where 5: "sv_dir_copy V s4 = Some (d, s5)" "sched_kept s4 s5" "room k (k_mm s5)"
    using services_answerD(3)[OF assms(1) r4] by blast
  define s6 where "s6 = (case d of None \<Rightarrow> s5 | Some (p, v) \<Rightarrow> s5\<lparr>tasks := (tasks s5)(x \<mapsto> t0\<lparr>tk_cpu := c4\<lparr>cr3_phys := p, cr3_virt := v\<rparr>\<rparr>)\<rparr>)"
  have w: "\<forall>i<1024. words s6 (b + 4 * of_nat i) \<noteq> None"
    using 3(4) sched_kept_words[OF 5(2)] by (fastforce simp: s6_def s4_def split: option.splits)
  obtain w where w: "zero_words b 1024 s6 = Some (s6\<lparr>words := w\<rparr>)" using zero_words_run[OF w] by blast
  note k = sched_keptD[OF 1(3)] sched_keptD[OF 3(3)] sched_keptD[OF 5(2)]
  have t3: "tasks s3 x = Some t0" and t5: "tasks s5 x = Some (t0\<lparr>tk_cpu := c4\<rparr>)" using k by (simp_all add: s2_def s4_def)
  have "cpu_task_alloc (task_services dev V) x s2 = Some (s6\<lparr>words := w\<rparr>)"
    using 3(1,2) 5(1) w t3 t5 by (cases d) (simp_all add: cpu_task_alloc_def task_services_def cpu_upd_def task_upd_def s4_def c4_def s6_def split: prod.splits)
  then have "task_create (task_services dev V) name ?s = Some (x, s6\<lparr>words := w\<rparr>)"
    using 1 pid by (simp add: task_create_def task_services_def s2_def t0_def)
  moreover have "\<exists>t. tasks (s6\<lparr>words := w\<rparr>) x = Some t \<and> tk_state t = TASK_STATE_STARTED"
    using t5 by (auto simp: s6_def t0_def split: option.splits)
  moreover have "events s6 = events s" "clock_root s6 = clock_root s" "irq_handlers s6 = irq_handlers s" "ms_per_tick s6 = ms_per_tick s"
      "first_run s6 = first_run s" "lapic_base s6 = lapic_base s" "apic_msr s6 = apic_msr s"
    by (cases d; simp add: s6_def s4_def s2_def k case_prod_beta)+
  moreover have "room k (k_mm (s6\<lparr>words := w\<rparr>))" using 5(3) by (cases d) (simp_all add: s6_def case_prod_beta)
  ultimately show ?thesis using 1(2) by (intro exI[of _ x] exI[of _ "s6\<lparr>words := w\<rparr>"]) auto
qed

lemma kernel_init_run:
  assumes "services_answer V room" and "room (Suc k) (k_mm s)" and "tasks s x = Some t"
  shows "\<exists>tos t' s'. cpu_task_kernel_init (task_services dev V) x address s = Some s' \<and> tasks s' x = Some t' \<and> tk_state t' = tk_state t
    \<and> user_regs (tk_cpu t') = tos \<and> irq_exit (words s') tos = Some (first_regs address) \<and> stack_at tos 15 (words s') \<and> events s' = events s \<and> clock_root s' = clock_root s
    \<and> irq_handlers s' = irq_handlers s \<and> ms_per_tick s' = ms_per_tick s \<and> first_run s' = first_run s \<and> lapic_base s' = lapic_base s \<and> apic_msr s' = apic_msr s
    \<and> room k (k_mm s')"
proof -
  obtain b s1 where 1: "sv_memmap V NULL TASK_STACK_SIZE 6 s = Some (b, s1)" "b \<noteq> 0" "sched_kept s s1" "\<forall>i<1024. words s1 (b + 4 * of_nat i) \<noteq> None"
      "room k (k_mm s1)"
    using services_answerD(2)[OF assms(1,2)] by blast
  note k = sched_keptD[OF 1(3)]
  let ?t2 = "t\<lparr>tk_cpu := (tk_cpu t)\<lparr>stack_bottom := b\<rparr>\<rparr>"
  let ?s2 = "s1\<lparr>tasks := (tasks s1)(x \<mapsto> ?t2)\<rparr>"
  have "\<forall>i<1024. words ?s2 (b + 4 * of_nat i) \<noteq> None" using 1(4) by simp
  then obtain w where w: "zero_words b 1024 ?s2 = Some (?s2\<lparr>words := w\<rparr>)" "\<forall>i<1024. w (b + 4 * of_nat i) = Some 0"
    using zero_words_run[of 1024 ?s2 b] by blast
  define tos where "tos = b + TASK_STACK_SIZE - sizeof irq_regs_layout"
  let ?s4 = "?s2\<lparr>words := w, tasks := (tasks s1)(x \<mapsto> t\<lparr>tk_cpu := (tk_cpu t)\<lparr>stack_bottom := b, stack_top := tos, user_regs := tos\<rparr>\<rparr>)\<rparr>"
  have tos': "b + TASK_STACK_SIZE - 68 = tos" by (simp add: tos_def)
  have "tos = b + 4 * of_nat 1007" by (simp add: tos_def TASK_STACK_SIZE_def layout_simps irq_regs_layout_def sizeof_def)
  then have tw: "words ?s4 (tos + 4 * of_nat i) = Some 0" if "i < 17" for i
    using w(2)[rule_format, of "1007 + i"] that by (simp add: algebra_simps)
  from this obtain v where v: "init_frame tos address ?s4 = Some (?s4\<lparr>words := v\<rparr>)" "irq_exit v tos = Some (first_regs address)"
      "dom (words ?s4) \<subseteq> dom v" using init_frame_exit[of ?s4 tos address] by blast
  have "words ?s4 (tos + of_nat (4 * i)) \<noteq> None" if "i < 15" for i using tw[of i] that by simp
  then have st: "stack_at tos 15 v" using v(3) unfolding stack_at_def by blast
  have "cpu_task_kernel_init (task_services dev V) x address s = Some (?s4\<lparr>words := v\<rparr>)"
    using 1(1,2) w(1) v(1) assms(3) by (simp add: cpu_task_kernel_init_def task_services_def cpu_upd_def task_upd_def k Let_def tos')
  then show ?thesis using v(2) st by (intro exI[of _ tos] exI[of _ "t\<lparr>tk_cpu := (tk_cpu t)\<lparr>stack_bottom := b, stack_top := tos, user_regs := tos\<rparr>\<rparr>"]
      exI[of _ "?s4\<lparr>words := v\<rparr>"]) (simp add: k 1(5))
qed

lemma task_init_run:
  assumes "services_answer V room" and "room 5 (k_mm s)" and "aget (irq_handlers s) 0 = Some (at_pit_handle_interrupt Y)" and "ms_per_tick s = 2" and "first_run s" and "clock_root s = NULL"
  shows "\<exists>tos s'. task_init (task_services dev V) garbage (at_scheduler_advance Y) name (at_late_kernel_main Y) s = Some s' \<and> first_task Y tos 10 s'
    \<and> lapic_base s' = lapic_base s \<and> apic_msr s' = apic_msr s \<and> room 0 (k_mm s')"
proof -
  have five: "room (Suc (Suc (Suc (Suc (Suc 0))))) (k_mm s)" using assms(2) by (simp add: numeral_eq_Suc)
  obtain x t s1 where 1: "task_create (task_services dev V) name (s\<lparr>task_pid_table := (\<lambda>_. NULL)\<rparr>) = Some (x, s1)" "x \<noteq> NULL" "tasks s1 x = Some t"
      "tk_state t = TASK_STATE_STARTED" and k1: "events s1 = events s" "clock_root s1 = clock_root s" "irq_handlers s1 = irq_handlers s"
      "ms_per_tick s1 = ms_per_tick s" "first_run s1 = first_run s" "lapic_base s1 = lapic_base s" "apic_msr s1 = apic_msr s" and r1: "room (Suc (Suc 0)) (k_mm s1)"
    using task_create_run[OF assms(1) five] by blast
  obtain tos t2 s2 where 2: "cpu_task_kernel_init (task_services dev V) x (at_late_kernel_main Y) s1 = Some s2" "tasks s2 x = Some t2" "tk_state t2 = tk_state t"
      "user_regs (tk_cpu t2) = tos" "irq_exit (words s2) tos = Some (first_regs (at_late_kernel_main Y))" "stack_at tos 15 (words s2)"
      and k2: "events s2 = events s1" "clock_root s2 = clock_root s1" "irq_handlers s2 = irq_handlers s1"
      "ms_per_tick s2 = ms_per_tick s1" "first_run s2 = first_run s1" "lapic_base s2 = lapic_base s1" "apic_msr s2 = apic_msr s1" and r2: "room (Suc 0) (k_mm s2)"
    using kernel_init_run[OF assms(1) r1 1(3)] by blast
  let ?s3 = "s2\<lparr>sched_current := x, tasks := (tasks s2)(x \<mapsto> t2\<lparr>tk_next := x\<rparr>)\<rparr>"
  have r3: "room (Suc 0) (k_mm ?s3)" using r2 by simp
  obtain p s4 where 4: "sv_kmalloc V (sizeof clock_event_layout) ?s3 = Some (p, s4)" "p \<noteq> NULL" "sched_kept ?s3 s4" "room 0 (k_mm s4)"
    using services_answerD(1)[OF assms(1) r3] by blast
  note k4 = sched_keptD[OF 4(3)]
  let ?e = "garbage\<lparr>e_next := NULL, e_prev := NULL, e_counter := 10, e_initial := 10, e_callback := at_scheduler_advance Y, e_type := CLOCK_COUNTDOWN\<rparr>"
  let ?s5 = "s4\<lparr>events := (events s4)(p \<mapsto> ?e), clock_root := p\<rparr>"
  have "task_init (task_services dev V) garbage (at_scheduler_advance Y) name (at_late_kernel_main Y) s = Some ?s5"
    using 1(1,2) 2(1,2) 4(1,2) k1(2) k2(2) k4(3) assms(6)
    by (simp add: task_init_def task_kernel_create_def scheduler_init_def task_upd_def clock_add_countdown_def clock_add_typed_def clock_add_def event_upd_def
        task_services_def Let_def)
  moreover have "first_task Y tos 10 ?s5"
  proof -
    have w: "irq_exit (words s4) tos = Some (first_regs (at_late_kernel_main Y))"
      using 2(5) sched_kept_words[OF 4(3)] by (auto simp: irq_exit_def split: bind_splits)
    have st: "stack_at tos 15 (words s4)"
      using 2(6) sched_kept_words[OF 4(3)] by (fastforce simp: stack_at_def)
    show ?thesis unfolding first_task_def one_event_def
      by (intro exI[of _ p] exI[of _ ?e] exI[of _ x] exI[of _ "t2\<lparr>tk_next := x\<rparr>"])
        (simp add: w st 1(4) 2(3,4) 4(2) k1 k2 k4 assms(3-5))
  qed
  ultimately show ?thesis using k1 k2 k4 4(4) by (intro exI[of _ tos] exI[of _ ?s5]) simp
qed

text \<open>The interrupt controller, whichever is in use, reports interrupt 0.\<close>
definition timer_reports :: "device \<Rightarrow> kernel \<Rightarrow> bool" where
  "timer_reports dev s \<longleftrightarrow> (\<forall>t :: kernel. lapic_base t = lapic_base s \<and> apic_msr t = apic_msr s
     \<longrightarrow> (\<exists>l. irq_get_current dev t = Some (0, t\<lparr>io_log := l\<rparr>)))"

text \<open>\<open>irq_general_handler\<close> with the handlers of the kernel.\<close>
definition timer_tick :: "symbols \<Rightarrow> services \<Rightarrow> device \<Rightarrow> u32 \<Rightarrow> kernel \<Rightarrow> (flow \<times> kernel) option" where
  "timer_tick Y V dev frame = irq_general_handler dev
     (kernel_handler (task_services dev V) (at_pit_handle_interrupt Y) (at_scheduler_advance Y)) frame"

lemma tick_dispatch:
  assumes "timer_reports dev s" and "aget (irq_handlers s) 0 = Some (at_pit_handle_interrupt Y)" and "at_pit_handle_interrupt Y \<noteq> NULL"
  obtains l where "timer_tick Y V dev frame s = do {
     (fl, s3) \<leftarrow> pit_handle_interrupt (sv_kfree V) (kernel_callback (task_services dev V) (at_scheduler_advance Y))
       (s\<lparr>irq_current_regs := frame, irq_happening := True, io_log := l\<rparr>);
     case fl of Jump r \<Rightarrow> Some (Jump r, s3)
     | Return \<Rightarrow> Some (Return, (irq_send_eoi dev 0 s3)\<lparr>irq_happening := False, irq_current_regs := NULL\<rparr>) }"
proof -
  let ?s = "s\<lparr>irq_current_regs := frame, irq_happening := True\<rparr>"
  obtain l where "irq_get_current dev ?s = Some (0, ?s\<lparr>io_log := l\<rparr>)"
    using assms(1) unfolding timer_reports_def by force
  then show thesis using assms(2,3)
    by (intro that[of l]) (simp add: timer_tick_def irq_general_handler_def kernel_handler_def task_services_def cong: flow.case_cong)
qed

lemma first_task_cong:
  assumes "first_task Y tos c s" "clock_root s' = clock_root s" "events s' = events s" "sched_current s' = sched_current s" "tasks s' = tasks s" "first_run s' = first_run s"
    "irq_handlers s' = irq_handlers s" "ms_per_tick s' = ms_per_tick s" "words s' = words s"
  shows "first_task Y tos c s'"
  using assms unfolding first_task_def one_event_def by simp

lemma tick_waits:
  assumes "first_task Y tos c s" and "timer_reports dev s" and "at_pit_handle_interrupt Y \<noteq> NULL" and "2 < unat c" "unat c < 2147483648"
  shows "\<exists>s'. timer_tick Y V dev frame s = Some (Return, s') \<and> first_task Y tos (c - 2) s' \<and> timer_reports dev s' \<and> k_mm s' = k_mm s"
proof -
  obtain p e x t where f: "one_event p e s" "e_callback e = at_scheduler_advance Y" "e_counter e = c" "e_initial e = 10" "sched_current s = x"
     "tasks s x = Some t" "tk_next t = x" "tk_state t = TASK_STATE_STARTED" "user_regs (tk_cpu t) = tos" "first_run s"
     "aget (irq_handlers s) 0 = Some (at_pit_handle_interrupt Y)" "ms_per_tick s = 2"
     "irq_exit (words s) tos = Some (first_regs (at_late_kernel_main Y))" "stack_at tos 15 (words s)"
    using assms(1) unfolding first_task_def by blast
  obtain l where d: "timer_tick Y V dev frame s = do {
     (fl, s3) \<leftarrow> pit_handle_interrupt (sv_kfree V) (kernel_callback (task_services dev V) (at_scheduler_advance Y))
       (s\<lparr>irq_current_regs := frame, irq_happening := True, io_log := l\<rparr>);
     case fl of Jump r \<Rightarrow> Some (Jump r, s3)
     | Return \<Rightarrow> Some (Return, (irq_send_eoi dev 0 s3)\<lparr>irq_happening := False, irq_current_regs := NULL\<rparr>) }"
    using tick_dispatch[OF assms(2) f(11) assms(3)] by blast
  let ?s = "s\<lparr>irq_current_regs := frame, irq_happening := True, io_log := l\<rparr>"
  have o: "one_event p e ?s" using f(1) by (simp add: one_event_def)
  define u where "u = set_counter p (c - 2) ?s"
  have w: "clock_advance fr call 2 ?s = Some (Return, u) \<and> one_event p (e\<lparr>e_counter := c - 2\<rparr>) u" for fr call
    using advance_waits[OF o, of 2] assms(4,5) f(3) by (simp add: u_def)
  have fu: "first_task Y tos (c - 2) u"
    unfolding first_task_def using w f by (intro exI[of _ p] exI[of _ "e\<lparr>e_counter := c - 2\<rparr>"] exI[of _ x] exI[of _ t]) (simp add: u_def set_counter_def)
  define q where "q = (if sleep_counter u > 0 then u\<lparr>sleep_counter := sleep_counter u - 1\<rparr> else u)"
  have fq: "first_task Y tos (c - 2) q" by (rule first_task_cong[OF fu]) (simp_all add: q_def)
  have lq: "lapic_base q = lapic_base s" "apic_msr q = apic_msr s" by (simp_all add: q_def u_def set_counter_def)
  define r where "r = (irq_send_eoi dev 0 q)\<lparr>irq_happening := False, irq_current_regs := NULL\<rparr>"
  have r: "r = q\<lparr>io_log := io_log (irq_send_eoi dev 0 q), irq_happening := False, irq_current_regs := NULL\<rparr>"
    unfolding r_def by (subst only_log(2)) simp
  have fr: "first_task Y tos (c - 2) r" unfolding r by (rule first_task_cong[OF fq]) simp_all
  have "timer_reports dev r" using assms(2) lq unfolding timer_reports_def r by simp
  moreover have "k_mm r = k_mm s" unfolding r by (simp add: q_def u_def set_counter_def)
  moreover have "timer_tick Y V dev frame s = Some (Return, r)"
    unfolding d using w f(12) by (simp add: pit_handle_interrupt_def q_def[symmetric] r_def)
  ultimately show ?thesis using fr by blast
qed

lemma tick_fires:
  assumes "first_task Y tos c s" and "timer_reports dev s" and "at_pit_handle_interrupt Y \<noteq> NULL" and "unat c \<le> 2" and "services_answer V room" and "room 0 (k_mm s)"
  shows "\<exists>s'. timer_tick Y V dev frame s = Some (Jump tos, s') \<and> words s' = words s \<and> irq_exit (words s) tos = Some (first_regs (at_late_kernel_main Y))
    \<and> stack_at tos 15 (words s)"
proof -
  obtain p e x t where f: "one_event p e s" "e_callback e = at_scheduler_advance Y" "e_counter e = c" "e_initial e = 10" "sched_current s = x"
     "tasks s x = Some t" "tk_next t = x" "tk_state t = TASK_STATE_STARTED" "user_regs (tk_cpu t) = tos" "first_run s"
     "aget (irq_handlers s) 0 = Some (at_pit_handle_interrupt Y)" "ms_per_tick s = 2"
     "irq_exit (words s) tos = Some (first_regs (at_late_kernel_main Y))" "stack_at tos 15 (words s)"
    using assms(1) unfolding first_task_def by blast
  obtain l where d: "timer_tick Y V dev frame s = do {
     (fl, s3) \<leftarrow> pit_handle_interrupt (sv_kfree V) (kernel_callback (task_services dev V) (at_scheduler_advance Y))
       (s\<lparr>irq_current_regs := frame, irq_happening := True, io_log := l\<rparr>);
     case fl of Jump r \<Rightarrow> Some (Jump r, s3)
     | Return \<Rightarrow> Some (Return, (irq_send_eoi dev 0 s3)\<lparr>irq_happening := False, irq_current_regs := NULL\<rparr>) }"
    using tick_dispatch[OF assms(2) f(11) assms(3)] by blast
  let ?s = "s\<lparr>irq_current_regs := frame, irq_happening := True, io_log := l\<rparr>"
  let ?c = "set_counter p (e_initial e) ?s"
  have o: "one_event p e ?s" using f(1) by (simp add: one_event_def)
  define z where "z = ?c\<lparr>sched_current := x, tasks := (tasks s)(x \<mapsto> t\<lparr>tk_state := TASK_STATE_PREEMPT\<rparr>), first_run := False, tss_esp0 := int_stack_top (tk_cpu t)\<rparr>"
  have "k_mm z = k_mm s" by (simp add: z_def set_counter_def)
  then have ld: "sv_load_dir V a z = Some z" for a using assms(5,6) unfolding services_answer_def by simp
  have "scheduler_advance (task_services dev V) ?c = Some (Jump tos, irq_send_eoi dev 0 z)"
    using f(5-10) ld[unfolded z_def set_counter_def] by (simp add: scheduler_advance_def irq_is_happening_def task_upd_def cpu_task_schedule_def tss_update_def Let_def task_services_def
        z_def set_counter_def)
  then have "timer_tick Y V dev frame s = Some (Jump tos, irq_send_eoi dev 0 z)"
    unfolding d using advance_fires[OF o, of 2] assms(4) f(2,3,12) by (simp add: pit_handle_interrupt_def kernel_callback_def)
  moreover have "words (irq_send_eoi dev 0 z) = words s" by (subst only_log(2)) (simp add: z_def set_counter_def)
  ultimately show ?thesis using f(13,14) by blast
qed

lemma pit_init_tick: "pit_init h s = Some s' \<Longrightarrow> ms_per_tick s' = 2"
  by (auto simp: pit_init_def irq_register_def pit_start_def Let_def split: bind_splits)

lemma ticks_wait:
  assumes "first_task Y tos c s" and "timer_reports dev s" and "at_pit_handle_interrupt Y \<noteq> NULL"
  shows "2 * n < unat c \<Longrightarrow> unat c < 2147483648 \<Longrightarrow> \<exists>s'. advances (timer_tick Y V dev frame) n s = Some (Return, s')
    \<and> first_task Y tos (c - 2 * of_nat n) s' \<and> timer_reports dev s' \<and> k_mm s' = k_mm s"
proof (induction n)
  case (Suc n)
  then obtain s1 where s1: "advances (timer_tick Y V dev frame) n s = Some (Return, s1)" "first_task Y tos (c - 2 * of_nat n) s1" "timer_reports dev s1" "k_mm s1 = k_mm s"
    by auto
  have "unat (2 * of_nat n :: u32) = 2 * n" using unat_of_nat32[of "2 * n"] Suc.prems by simp
  then have u: "unat (c - 2 * of_nat n) = unat c - 2 * n" using Suc.prems by (simp add: unat_diff_le)
  then have "2 < unat (c - 2 * of_nat n)" "unat (c - 2 * of_nat n) < 2147483648" unfolding u using Suc.prems by simp_all
  from tick_waits[OF s1(2,3) assms(3) this] obtain s' where "timer_tick Y V dev frame s1 = Some (Return, s')"
    "first_task Y tos (c - 2 * of_nat n - 2) s'" "timer_reports dev s'" "k_mm s' = k_mm s1" by blast
  then show ?case using s1(1,4) unfolding advances_Suc by (simp add: algebra_simps)
qed (use assms in auto)

text \<open>C4: When \<open>load_interrupts\<close> has returned, with the scheduler as the loader left it and the interrupt controller reporting interrupt 0,
  and the memory management has room for the five requests \<open>task_init\<close> makes, \<open>kernel_main\<close> comes to wait for interrupts, and the
  fifth interrupt of the timer from there, 10 ms later, leaves through the frame of the first task: the processor goes on in
  \<open>late_kernel_main\<close>, in the kernel's code segment with interrupts enabled (and, because the frame is laid out wrongly, with a null
  \<open>ds\<close>). The interrupts before it return.\<close>
theorem kernel_reaches_late_main:
  assumes "rs232_init dev s = Some s1" and "screen_init s1 = Some s2" and "load_interrupts Y V junk dev cpuid_edx False s2 = Some s3"
    and "services_answer V room" and "room 5 (k_mm s3)" and "first_run s3" and "timer_reports dev s3" and "at_pit_handle_interrupt Y \<noteq> NULL"
  shows "\<exists>s4 s5 s6 tos. kernel_start Y V junk dev cpuid_edx garbage s = Some s4
    \<and> advances (timer_tick Y V dev frame) 4 s4 = Some (Return, s5) \<and> timer_tick Y V dev frame s5 = Some (Jump tos, s6)
    \<and> (\<exists>c'. run call irq_exit_stub (c\<lparr>c_esp := tos, c_words := words s6\<rparr>) = Some c' \<and> c_eip c' = at_late_kernel_main Y \<and> c_cs c' = 0x08
      \<and> c_eflags c' = 0x202 \<and> c_ds c' = 0)"
proof -
  let ?s = "clock_init (tss_init s3)"
  have "aget (irq_handlers s3) 0 = Some (at_pit_handle_interrupt Y)"
    by (rule load_interrupts_handler[OF assms(3)])
  moreover have "ms_per_tick s3 = 2" using assms(3) by (auto simp: load_interrupts_def Let_def Option.bind_eq_Some_conv dest: pit_init_tick)
  ultimately have "\<exists>tos s4. task_init (task_services dev V) garbage (at_scheduler_advance Y) (at_task_name Y) (at_late_kernel_main Y) ?s = Some s4
      \<and> first_task Y tos 10 s4 \<and> lapic_base s4 = lapic_base ?s \<and> apic_msr s4 = apic_msr ?s \<and> room 0 (k_mm s4)"
    using assms(5,6) by (intro task_init_run[OF assms(4)]) (simp_all add: clock_init_def tss_init_def tss_update_def)
  then obtain tos s4 where t: "task_init (task_services dev V) garbage (at_scheduler_advance Y) (at_task_name Y) (at_late_kernel_main Y) ?s = Some s4"
      "first_task Y tos 10 s4" "lapic_base s4 = lapic_base s3" "apic_msr s4 = apic_msr s3" "room 0 (k_mm s4)"
    by (auto simp: clock_init_def tss_init_def tss_update_def)
  have r: "timer_reports dev s4" using assms(7) t(3,4) by (simp add: timer_reports_def)
  obtain s5 where s5: "advances (timer_tick Y V dev frame) 4 s4 = Some (Return, s5)" "first_task Y tos 2 s5" "timer_reports dev s5" "room 0 (k_mm s5)"
    using t(5) ticks_wait[OF t(2) r assms(8), of 4 V frame] by auto
  obtain s6 where 6: "timer_tick Y V dev frame s5 = Some (Jump tos, s6)" "words s6 = words s5"
      "irq_exit (words s5) tos = Some (first_regs (at_late_kernel_main Y))" "stack_at tos 15 (words s5)"
    using tick_fires[OF s5(2,3) assms(8) _ assms(4) s5(4)] by auto
  then have "\<exists>c'. run call irq_exit_stub (c\<lparr>c_esp := tos, c_words := words s6\<rparr>) = Some c' \<and> c_eip c' = at_late_kernel_main Y \<and> c_cs c' = 0x08
      \<and> c_eflags c' = 0x202 \<and> c_ds c' = 0"
    using irq_exit_stub_runs[of "c\<lparr>c_esp := tos, c_words := words s6\<rparr>" _ call] by (fastforce simp: first_regs_def cpu_regs.defs)
  moreover have "kernel_start Y V junk dev cpuid_edx garbage s = Some s4"
    using assms(1-3) t(1) by (simp add: kernel_start_def)
  ultimately show ?thesis using s5(1) 6(1) by blast
qed

lemma rs232_init_log: "\<exists>l. rs232_init dev s = Some (s\<lparr>io_log := l\<rparr>)"
  by (simp add: rs232_init_def rs232_port_init_def rs232_port_set_baud_def inportb_def outportb_def io_event_def Let_def) blast

lemma plain_gives:
  assumes "plain_room (Suc k) (k_mm s)" and "unat n \<le> 4096"
  shows "\<exists>p s'. plain_give n s = Some (p, s') \<and> p \<noteq> NULL \<and> sched_kept s s' \<and> plain_room k (k_mm s') \<and> (\<forall>a. words s' a \<noteq> None)"
proof -
  let ?p = "kernel_mem_end (mm_heap (k_mm s))"
  have "unat (?p + n) = unat ?p + unat n" using assms by (intro unat_plus_nowrap) (simp add: plain_room_def)
  moreover have "?p \<noteq> NULL" using assms(1) by (auto simp: plain_room_def)
  ultimately show ?thesis
    using assms by (auto simp: plain_give_def plain_room_def Let_def sched_kept_def sched.defs map_le_def dom_def)
qed

lemma plain_answers: "services_answer plain_services plain_room"
proof -
  have n: "unat n \<le> 4096" if "n = sizeof task_layout \<or> n = sizeof clock_event_layout" for n
  proof -
    have "unat (sizeof task_layout) \<le> 4096" "unat (sizeof clock_event_layout) \<le> 4096" by code_simp+
    then show ?thesis using that by blast
  qed
  have "unat TASK_STACK_SIZE \<le> 4096" by (simp add: TASK_STACK_SIZE_def)
  from plain_gives[OF _ this] have "\<exists>b s'. plain_give TASK_STACK_SIZE s = Some (b, s') \<and> b \<noteq> 0 \<and> sched_kept s s' \<and> plain_room k (k_mm s')
      \<and> (\<forall>i<1024. words s' (b + 4 * of_nat i) \<noteq> None)" if "plain_room (Suc k) (k_mm s)" for k s
    using that by blast
  moreover have "\<exists>p s'. plain_give n s = Some (p, s') \<and> p \<noteq> NULL \<and> sched_kept s s' \<and> plain_room k (k_mm s')"
    if "plain_room (Suc k) (k_mm s)" "n = sizeof task_layout \<or> n = sizeof clock_event_layout" for k s n
    using plain_gives[OF that(1) n[OF that(2)]] by blast
  moreover have "sched_kept s s" and "plain_room (Suc k) m \<Longrightarrow> plain_room k m" for s k m
    by (simp_all add: sched_kept_def plain_room_def)
  ultimately show ?thesis by (simp add: services_answer_def plain_services_def)
qed

lemma log_smp: "k_smp (s\<lparr>io_log := l\<rparr>) = k_smp s"
  by (cases s) simp

lemma timer_one: "lapic_base s = 0 \<Longrightarrow> timer_reports (\<lambda>_ _. 1) s"
  unfolding timer_reports_def
  by (simp add: irq_get_current_def lapic_is_enabled_def pic_get_isr_def pic_read_regs_def inportb_def outportb_def io_event_def io_wait_def
      Let_def ctz_def upt_rec[of 0]) blast

theorem kernel_reaches_late_main_witness:
  "\<exists>s4 s5 s6 tos. kernel_start plain_symbols plain_services (\<lambda>_. 0) (\<lambda>_ _. 1) (Some 0x200) ten_ms plain_kernel = Some s4
    \<and> advances (timer_tick plain_symbols plain_services (\<lambda>_ _. 1) 0x7000) 4 s4 = Some (Return, s5)
    \<and> timer_tick plain_symbols plain_services (\<lambda>_ _. 1) 0x7000 s5 = Some (Jump tos, s6) \<and> (\<exists>c'. run Some irq_exit_stub (running\<lparr>c_esp := tos, c_words := words s6\<rparr>) = Some c'
      \<and> c_eip c' = 0xC0107000 \<and> c_cs c' = 0x08 \<and> c_eflags c' = 0x202 \<and> c_ds c' = 0)"
proof -
  obtain l where 1: "rs232_init (\<lambda>_ _. 1) plain_kernel = Some (plain_kernel\<lparr>io_log := l\<rparr>)" using rs232_init_log by blast
  have "ps2_tty (k_smp (plain_kernel\<lparr>io_log := l\<rparr>)) = blank_console\<lparr>print_lock := 0\<rparr>" by (simp add: plain_kernel_def ps2.defs ps2_on_def)
  then have "mapped (cmem (ps2_tty (k_smp (plain_kernel\<lparr>io_log := l\<rparr>)))) (span 0xC00B8000 4000)" by (simp add: mapped_def blank_console_def)
  from vga_init_page[OF this] obtain c where "vga_init (ps2_tty (k_smp (plain_kernel\<lparr>io_log := l\<rparr>))) = Some c" by blast
  then have 2: "screen_init (plain_kernel\<lparr>io_log := l\<rparr>) = Some (plain_kernel\<lparr>io_log := l, k_smp := (k_smp plain_kernel)\<lparr>ps2_tty := c\<rparr>\<rparr>)"
    by (simp add: screen_init_def log_smp)
  obtain k g z where 3: "load_interrupts plain_symbols plain_services (\<lambda>_. 0) (\<lambda>_ _. 1) (Some 0x200) False
      (plain_kernel\<lparr>io_log := l, k_smp := (k_smp plain_kernel)\<lparr>ps2_tty := c\<rparr>\<rparr>) = Some (plain_kernel\<lparr>io_log := l, k_smp := (k_smp plain_kernel)\<lparr>ps2_tty := c\<rparr>,
        io_log := k, gates := g, idtp_size := z, irq_handlers := (irq_handlers plain_kernel)[0 := at_pit_handle_interrupt plain_symbols], sleep_counter := 0, ms_per_tick := 2\<rparr>)"
    using load_interrupts_returns[of "plain_kernel\<lparr>io_log := l, k_smp := (k_smp plain_kernel)\<lparr>ps2_tty := c\<rparr>\<rparr>" plain_symbols plain_services "\<lambda>_. 0" "\<lambda>_ _. 1" "Some 0x200" False]
    by (auto simp: plain_kernel_def)
  have "at_late_kernel_main plain_symbols = 0xC0107000" by (simp add: plain_symbols_def)
  then show ?thesis
    using kernel_reaches_late_main[OF 1 2 3 plain_answers _ _ timer_one, of ten_ms "0x7000" Some running] by (simp add: plain_kernel_def plain_symbols_def plain_room_def)
qed

end
