(* ===== verification/Spec2Isabelle.thy ===== *)
theory Spec2Isabelle
  imports Prelude Layout CString CMath Pool Early Buffer Ring Slub Kmalloc Large CList Spinlock NodeHeap Frame Vasa Paging Files Vfs Ports Interrupts Clock Tasks Memmap Console Kprint Acpi Pci Ps2 Rtl8139 Smp Elf Kmain Slab Report Boot Stubs Startup
begin

text \<open>
  A model of the BrackOS kernel (C and i386 assembly, under \<open>src/src\<close>) with the theorems that say what its parts do and where
  they do not do what they mean to.

  \<^bold>\<open>How the code is translated.\<close> One theory per part of the kernel, in the order the parts use each other. A C structure is a
  record, an enumeration a datatype, an integer a word of its width (\<open>u8\<close>, \<open>u16\<close>, \<open>u32\<close> of \<open>Prelude\<close>; an \<open>int\<close> is a \<open>u32\<close> read
  with \<open>sint\<close> where it is compared, or an \<open>int\<close> where its range is small), a pointer a \<open>u32\<close> with \<open>NULL = 0\<close>. Each function is a
  definition of the same name from the state before to the state after. The result is an option: \<open>None\<close> is an access that has no
  defined outcome (an address that is not mapped, an index outside an array, a NULL pointer that is followed) or a call that does
  not return. Loops that may run for ever are \<open>partial_function (option)\<close>, so not returning is \<open>None\<close> too, and results are
  stated as \<open>= Some \<dots>\<close>. Memory is kept the way a part uses it: \<open>mem\<close> (bytes, \<open>CString\<close>), \<open>cells\<close> (words, \<open>Slub\<close>), one
  object as a list of bytes (\<open>Buffer\<close>), physical words behind the MMU (\<open>Paging\<close>), or a map from addresses to records. A device
  is a function of the history of reads and writes (\<open>device\<close>, \<open>Ports\<close>): it may answer anything, and what is proved holds for
  all answers or states which ones it needs. Functions of another part that a part calls on a state it does not own
  (\<open>kmalloc\<close> for the lists, \<open>memmap\<close> for the caches, which \<open>memmap\<close> itself uses) are arguments.

  \<^bold>\<open>The parts.\<close>
  \<^item> \<open>Layout\<close> has every structure of the sources as data, and computes the sizes and offsets of fields that the other theories use
    (\<open>sizeof\<close>, \<open>offsetof\<close>) by the rules of the compiler.
  \<^item> \<open>Prelude\<close>: words, array access, linked lists in memory (\<open>clist\<close>). \<open>CString\<close> is \<open>std/string.c\<close>, \<open>CMath\<close> \<open>std/math.c\<close> (\<open>ipow\<close> is the
    power function), \<open>CList\<close> \<open>std/list.c\<close>, \<open>Kprint\<close> \<open>std/kprint.c\<close> (the numbers it prints can be read back; formats of the
    kinds the drivers use always print).
  \<^item> Allocators. \<open>Early\<close> is \<open>mem/early.c\<close>; \<open>Slub\<close> and \<open>Kmalloc\<close> are \<open>mem/slub.c\<close> and \<open>mem/kmalloc.c\<close>; \<open>Slab\<close> is \<open>mem/slab.c\<close>, the
    alternative the configuration can select; \<open>Large\<close> is \<open>mem/large.c\<close> with \<open>cas.asm\<close>. \<open>Pool\<close> and \<open>NodeHeap\<close> state as locales
    (\<open>object_pool\<close>, \<open>node_pool\<close>) what the kernel's lists need of a source of nodes; the early allocator and the caches are
    interpretations, so the lists' lemmas hold before and after the heap is switched.
  \<^item> \<open>Frame\<close> is \<open>mem/frame.c\<close>: free chunks of 1 to 20 pages in 20 lists. The locale \<open>frame_pool\<close> has what its functions do to the
    multiset of free pages. \<open>Vasa\<close> is \<open>mem/vasa.c\<close>, refined to first fit on a list of chunks (\<open>vasa_pool\<close>).
  \<^item> \<open>Paging\<close> is \<open>arch/i386/mem/paging.c\<close> over a model of the two-level MMU walk and the recursive mapping at 0xFFC00000.
    \<open>Memmap\<close> is \<open>arch/i386/mem/map.c\<close>: it holds the states of frames, address space and page tables together; the locale
    \<open>frame_source\<close> is what it needs of the frame allocator, which is the interpretation \<open>mm_frames\<close>. \<open>Boot\<close> is what
    \<open>boot.asm\<close> and \<open>paging.asm\<close> do to the page tables before; \<open>Kmain\<close> has \<open>load_memory\<close> of \<open>arch/i386/kmain.c\<close>, which sets all of
    them up from the boot loader's map, and the file system test. \<open>Startup\<close> is the rest of \<open>kmain.c\<close>: \<open>load_interrupts\<close>,
    \<open>kernel_main\<close>, \<open>late_kernel_main\<close>, composed of the functions of the other theories.
  \<^item> \<open>Spinlock\<close> is \<open>spinlock.asm\<close>, instruction by instruction for any number of processors; \<open>Smp\<close> is \<open>interrupts/smp.c\<close> with the
    stack set-up of \<open>ap_boot.asm\<close>, and the interleavings of the start as a step relation.
  \<^item> \<open>Ports\<close> (\<open>io.h\<close>, \<open>pic.c\<close>), \<open>Interrupts\<close> (\<open>idt.c\<close>, \<open>lapic.c\<close>, \<open>ioapic.c\<close>, \<open>irq.c\<close>), \<open>Acpi\<close> (\<open>acpi.c\<close>), \<open>Clock\<close> (\<open>clock.c\<close>, \<open>pit.c\<close>)
    and \<open>Tasks\<close> (\<open>task.c\<close>, \<open>scheduler.c\<close>, \<open>cpu_task.c\<close>, \<open>tss.c\<close> and what \<open>irq_exit\<close> pops): from a tick of the timer through the
    dispatch and the clock to the switch of tasks. \<open>Stubs\<close> executes the instructions of \<open>stub.asm\<close> and decodes the segment
    descriptors of \<open>gdt.asm\<close>.
  \<^item> \<open>Files\<close> and \<open>Vfs\<close> are \<open>kernel/fs\<close>: files, references, mounts, the file system in memory, and the calls of a task.
    \<open>Elf\<close> is \<open>tasks/elf.c\<close>, which reads headers through them.
  \<^item> \<open>Ring\<close> is \<open>net/net_buf.c\<close>, an interpretation of the locale \<open>bounded_fifo\<close> up to the end of its buffer. \<open>Console\<close> (\<open>vga.c\<close>,
    \<open>rs232.c\<close>), \<open>Pci\<close> (\<open>pci.c\<close>), \<open>Ps2\<close> (\<open>drivers/ps2\<close>) and \<open>Rtl8139\<close> (\<open>drivers/rtl8139\<close>) are the drivers. \<open>Report\<close> has the
    exception handler and the functions that print a part's state.

  \<^bold>\<open>What the lemmas show.\<close> For each part, that its operations keep its structures well formed and what they do to the values
  these hold: the free list of a slab in address order and the round trip of allocation and freeing; the free pages as a
  multiset, from which \<open>frame_alloc\<close> takes what it returns; first fit; the translation of addresses before and after
  \<open>paging_map\<close> and \<open>paging_unmap\<close>; mutual exclusion; the ring of tasks as a rotating queue; path resolution as lookup in a tree of names;
  the screen as the last lines written; the characters a US keyboard has on the keys pressed; the fields of shared structures where the external formats have
  them; the registers an interrupt saves and restores. Across parts: \<open>boot_memory\<close> (boot map, early heap, frames and
  address space), \<open>kernel_reaches_late_main\<close> (startup, timer, clock, tasks), \<open>interrupt_gates\<close> (startup, ACPI, APICs, segments),
  \<open>memmap_urgent\<close> (address space, frames, page tables), \<open>timer_interrupt_preempts\<close> (interrupt dispatch, clock, scheduler),
  \<open>acpi_parse_madt_records\<close> (ACPI and I/O APICs). Where the code fails, a theorem or an example shows the failure on the model; hypotheses of the
  other theorems exclude it by name (for instance, no alignment flag for first fit, no merge
  for \<open>frame_alloc\<close>, a minimum that is kept for freeing). What the memory management answers to the parts that run before
  it is joined to them is a hypothesis there: \<open>services_answer\<close> for the five requests of \<open>task_init\<close>, \<open>same_memmap\<close> for slabs.

  \<^bold>\<open>Bounds and fuel.\<close> Loops over an array or a count recurse on what is left of it: 20 free lists, 1024 entries of a table, 256 * 32 * 8
  functions of the PCI bus, 32 processors of a cache. All other loops carry no bound and no fuel, nor has the recursion of \<open>acpi_parse_table\<close> and \<open>acpi_parse_rsdt\<close>:
  where it does not end the result is \<open>None\<close>.

  \<^bold>\<open>What is not modelled.\<close> The switches of the processor's mode in assembly (\<open>ap_boot.asm\<close>, so which processors come through it is an argument of
  \<open>Smp\<close>'s step relation; loading the descriptor tables and segment registers) and the cost and order of memory accesses between processors beyond single instructions; the TLB. The states of \<open>kernel_main\<close>
  and of \<open>late_kernel_main\<close> are two records: what the first leaves to the second is not carried over.
  Messages are part of the model where a driver prints them as its service (\<open>Ps2\<close>, \<open>Rtl8139\<close>, \<open>Smp\<close>, \<open>Elf\<close>, \<open>Kmain\<close>'s file test,
  \<open>Report\<close>, \<open>late_kernel_main\<close>) and left out elsewhere (the allocators, \<open>Paging\<close>, \<open>Memmap\<close>, \<open>Acpi\<close>, \<open>pci_probe\<close>, the \<open>init\<close> functions of
  interrupts, clock and tasks, \<open>kernel_main\<close> and \<open>load_interrupts\<close>). \<open>debug/dwarf.c\<close> returns NULL, \<open>fs/ext2.c\<close>, \<open>devices/tty.c\<close> and
  \<open>devices/pci/fs.c\<close> are empty, and \<open>net/ethernet.c\<close> is one type that nothing uses; the structures of \<open>dwarf.h\<close> and \<open>ethernet.c\<close>
  are in \<open>Layout\<close>.
\<close>

end
